(* ===== verification/PF_Prelude.thy ===== *)
theory PF_Prelude
  imports Main "HOL-Library.Word" "HOL-Library.Signed_Division" "HOL-Library.Multiset"
begin

text \<open>
  The prelude of the development: the faults a run of the C++ code can end in and the
  result type that carries them, checked array access, the conversions between the
  C integer types, and the generic lemmas the components share.

  A C++ operation that can go wrong (a dangling or null pointer, an index outside an
  array, a failed \<open>CHECK\<close> or \<open>assert\<close>) is a function into \<open>'a res\<close>: \<open>Inl f\<close> is a run that
  ends in the fault \<open>f\<close>, \<open>Inr x\<close> a run that returns \<open>x\<close>.
\<close>

unbundle bit_operations_syntax

named_theorems res_simps \<open>evaluation of the result type and of checked array access\<close>
named_theorems cast_simps \<open>conversions between the C integer types\<close>

section \<open>Faults and results\<close>

datatype fault =
    Null_Deref      \<comment> \<open>a null pointer is dereferenced\<close>
  | Dangling        \<comment> \<open>freed memory is read, written or freed again\<close>
  | Out_Of_Bounds   \<comment> \<open>an array is accessed outside its bounds\<close>
  | Check_Failed    \<comment> \<open>a glog \<open>CHECK\<close> aborts the process\<close>
  | Assert_Failed   \<comment> \<open>an \<open>assert\<close> aborts the process\<close>
  | Type_Confusion  \<comment> \<open>an object is used through a pointer to another class\<close>

type_synonym 'a res = "fault + 'a"

definition rbind :: "'a res \<Rightarrow> ('a \<Rightarrow> 'b res) \<Rightarrow> 'b res" where
  "rbind m f = (case m of Inl e \<Rightarrow> Inl e | Inr x \<Rightarrow> f x)"

lemma rbind_Inl [simp, res_simps]: "rbind (Inl e) f = Inl e"
  by (simp add: rbind_def)

lemma rbind_Inr [simp, res_simps]: "rbind (Inr x) f = f x"
  by (simp add: rbind_def)

lemma rbind_eq_Inr_iff: "rbind m f = Inr y \<longleftrightarrow> (\<exists>x. m = Inr x \<and> f x = Inr y)"
  by (cases m) auto

lemma rbind_eq_Inl_iff: "rbind m f = Inl e \<longleftrightarrow> m = Inl e \<or> (\<exists>x. m = Inr x \<and> f x = Inl e)"
  by (cases m) auto

lemma rbind_InrE:
  assumes "rbind m f = Inr y"
  obtains x where "m = Inr x" and "f x = Inr y"
  using assms by (auto simp: rbind_eq_Inr_iff)

lemma rbind_assoc: "rbind (rbind m f) g = rbind m (\<lambda>x. rbind (f x) g)"
  by (cases m) auto

lemma rbind_cong [fundef_cong]:
  "m = m' \<Longrightarrow> (\<And>x. m' = Inr x \<Longrightarrow> f x = f' x) \<Longrightarrow> rbind m f = rbind m' f'"
  by (cases m') auto

text \<open>A \<open>CHECK\<close> or \<open>assert\<close> that ends the run when its condition fails.\<close>

definition guard :: "fault \<Rightarrow> bool \<Rightarrow> unit res" where
  "guard e b = (if b then Inr () else Inl e)"

lemma guard_True [simp, res_simps]: "guard e True = Inr ()"
  by (simp add: guard_def)

lemma guard_False [simp, res_simps]: "guard e False = Inl e"
  by (simp add: guard_def)

lemma guard_eq_Inr_iff [simp]: "guard e b = Inr u \<longleftrightarrow> b"
  by (cases b) (simp_all add: guard_def)

section \<open>Checked array access\<close>

text \<open>Reads and writes of a C array of known length; the index is a C integer.\<close>

definition rd :: "'a list \<Rightarrow> int \<Rightarrow> 'a res" where
  "rd xs i = (if 0 \<le> i \<and> i < int (length xs) then Inr (xs ! nat i) else Inl Out_Of_Bounds)"

definition wr :: "'a list \<Rightarrow> int \<Rightarrow> 'a \<Rightarrow> 'a list res" where
  "wr xs i v =
     (if 0 \<le> i \<and> i < int (length xs) then Inr (xs[nat i := v]) else Inl Out_Of_Bounds)"

lemma rd_in [simp]: "0 \<le> i \<Longrightarrow> i < int (length xs) \<Longrightarrow> rd xs i = Inr (xs ! nat i)"
  by (simp add: rd_def)

lemma wr_in [simp]: "0 \<le> i \<Longrightarrow> i < int (length xs) \<Longrightarrow> wr xs i v = Inr (xs[nat i := v])"
  by (simp add: wr_def)

lemma rd_int [simp]: "i < length xs \<Longrightarrow> rd xs (int i) = Inr (xs ! i)"
  by (simp add: rd_def)

lemma wr_int [simp]: "i < length xs \<Longrightarrow> wr xs (int i) v = Inr (xs[i := v])"
  by (simp add: wr_def)

lemma rd_out: "i < 0 \<or> int (length xs) \<le> i \<Longrightarrow> rd xs i = Inl Out_Of_Bounds"
  by (auto simp: rd_def)

lemma wr_out: "i < 0 \<or> int (length xs) \<le> i \<Longrightarrow> wr xs i v = Inl Out_Of_Bounds"
  by (auto simp: wr_def)

lemma rd_eq_Inr_iff: "rd xs i = Inr x \<longleftrightarrow> 0 \<le> i \<and> i < int (length xs) \<and> x = xs ! nat i"
  by (auto simp: rd_def)

lemma wr_eq_Inr_iff: "wr xs i v = Inr ys \<longleftrightarrow> 0 \<le> i \<and> i < int (length xs) \<and> ys = xs[nat i := v]"
  by (auto simp: wr_def)

text \<open>
  \<open>memcpy\<close> and \<open>memmove\<close>: reading \<open>len\<close> elements at an offset and writing a block at an
  offset. A negative length is a huge \<open>size_t\<close> in the source, and out of bounds here.
\<close>

definition mem_read :: "'a list \<Rightarrow> int \<Rightarrow> int \<Rightarrow> 'a list res" where
  "mem_read buf off len =
     (if 0 \<le> off \<and> 0 \<le> len \<and> off + len \<le> int (length buf)
      then Inr (take (nat len) (drop (nat off) buf)) else Inl Out_Of_Bounds)"

definition mem_write :: "'a list \<Rightarrow> int \<Rightarrow> 'a list \<Rightarrow> 'a list res" where
  "mem_write buf off src =
     (if 0 \<le> off \<and> off + int (length src) \<le> int (length buf)
      then Inr (take (nat off) buf @ src @ drop (nat off + length src) buf) else Inl Out_Of_Bounds)"

lemma mem_read_in:
  "0 \<le> off \<Longrightarrow> 0 \<le> len \<Longrightarrow> off + len \<le> int (length buf) \<Longrightarrow>
   mem_read buf off len = Inr (take (nat len) (drop (nat off) buf))"
  by (simp add: mem_read_def)

lemma mem_read_negative: "len < 0 \<Longrightarrow> mem_read buf off len = Inl Out_Of_Bounds"
  by (simp add: mem_read_def)

lemma mem_write_in:
  "0 \<le> off \<Longrightarrow> off + int (length src) \<le> int (length buf) \<Longrightarrow>
   mem_write buf off src = Inr (take (nat off) buf @ src @ drop (nat off + length src) buf)"
  by (simp add: mem_write_def)

section \<open>C integer conversions\<close>

text \<open>
  A C integer is an \<open>int\<close>; a conversion to \<open>int32_t\<close>, \<open>uint32_t\<close>, \<open>int64_t\<close> or
  \<open>uint64_t\<close> keeps the low bits, as two's complement does.
\<close>

definition i32 :: "int \<Rightarrow> int" where
  "i32 x = signed_take_bit 31 x"

definition u32 :: "int \<Rightarrow> int" where
  "u32 x = take_bit 32 x"

definition i64 :: "int \<Rightarrow> int" where
  "i64 x = signed_take_bit 63 x"

definition u64 :: "int \<Rightarrow> int" where
  "u64 x = take_bit 64 x"

definition u16 :: "int \<Rightarrow> int" where
  "u16 x = take_bit 16 x"

lemma i32_id [cast_simps]: "- 2147483648 \<le> x \<Longrightarrow> x < 2147483648 \<Longrightarrow> i32 x = x"
  by (simp add: i32_def signed_take_bit_int_eq_self)

lemma u32_id [cast_simps]: "0 \<le> x \<Longrightarrow> x < 4294967296 \<Longrightarrow> u32 x = x"
  by (simp add: u32_def take_bit_int_eq_self)

lemma i64_id [cast_simps]:
  "- 9223372036854775808 \<le> x \<Longrightarrow> x < 9223372036854775808 \<Longrightarrow> i64 x = x"
  by (simp add: i64_def signed_take_bit_int_eq_self)

lemma i32_range: "- 2147483648 \<le> i32 x" "i32 x < 2147483648"
  using signed_take_bit_int_greater_eq_minus_exp [of 31 x] signed_take_bit_int_less_exp [of 31 x]
  by (simp_all add: i32_def)

lemma u32_range: "0 \<le> u32 x" "u32 x < 4294967296"
  using take_bit_int_less_exp [of 32 x] by (simp_all add: u32_def)

text \<open>C division and remainder truncate towards zero.\<close>

lemma sdiv_nonneg [cast_simps]: "0 \<le> a \<Longrightarrow> 0 < b \<Longrightarrow> a sdiv b = a div (b::int)"
  by (cases "a = 0") (auto simp: signed_divide_int_def)

lemma smod_nonneg [cast_simps]: "0 \<le> a \<Longrightarrow> 0 < b \<Longrightarrow> a smod b = a mod (b::int)"
  by (cases "a = 0") (auto simp: smod_int_alt_def)

section \<open>Generic lemmas\<close>

lemma nth_list_update_ne: "i \<noteq> j \<Longrightarrow> xs[i := x] ! j = xs ! j"
  by simp

lemma set_take_eq: "n \<le> length xs \<Longrightarrow> set (take n xs) = {xs ! i | i. i < n}"
  by (force simp: in_set_conv_nth)

lemma set_take_image: "n \<le> length xs \<Longrightarrow> set (take n xs) = (!) xs ` {..<n}"
  by (auto simp: set_take_eq)

lemma find_SomeD: "find P xs = Some x \<Longrightarrow> x \<in> set xs \<and> P x"
  by (induction xs) (auto split: if_splits)

lemma find_None_set: "find P xs = None \<longleftrightarrow> (\<forall>x\<in>set xs. \<not> P x)"
  by (induction xs) auto

lemma dom_NoneI: "dom m = A \<Longrightarrow> a \<notin> A \<Longrightarrow> m a = None"
  by auto

lemma map_upd_same [simp]: "m k = Some v \<Longrightarrow> m(k \<mapsto> v) = m"
  by (rule ext) simp

end
