(* ===== verification/Rand_LCG.thy ===== *)
theory Rand_LCG
  imports PF_Prelude
begin

text \<open>
  The linear congruential generator of \<open>common/frame/random.{h,cpp}\<close> (class \<open>Random\<close>):
  the constants \<open>A\<close>, \<open>M\<close>, \<open>Q\<close>, \<open>R\<close>, the constructor and \<open>GetRand\<close>, which computes
  \<open>A * seed mod M\<close> by Schrage's method without leaving \<open>int32_t\<close>.
\<close>

section \<open>Model\<close>

definition rand_A :: int where "rand_A = 48271"
definition rand_M :: int where "rand_M = 2147483647"
definition rand_Q :: int where "rand_Q = rand_M sdiv rand_A"
definition rand_R :: int where "rand_R = rand_M smod rand_A"

text \<open>\<open>Random(seed)\<close>: the seed 0 is replaced by \<open>time(NULL)\<close>, here the argument \<open>now\<close>.\<close>

definition random_new :: "int \<Rightarrow> int \<Rightarrow> int" where
  "random_new seed now = (if seed = 0 then i32 now else seed)"

text \<open>\<open>GetRand\<close>: the state is \<open>seed_\<close>; the new seed is also the value returned.\<close>

definition rand_temp :: "int \<Rightarrow> int" where
  "rand_temp seed = rand_A * (seed smod rand_Q) - rand_R * (seed sdiv rand_Q)"

definition get_rand :: "int \<Rightarrow> int" where
  "get_rand seed = (let temp_seed = rand_temp seed in
     if temp_seed \<ge> 0 then temp_seed else temp_seed + rand_M)"

section \<open>Schrage's method\<close>

lemma rand_consts: "rand_A = 48271" "rand_M = 2147483647" "rand_Q = 44488" "rand_R = 3399"
  by (simp_all add: rand_A_def rand_M_def rand_Q_def rand_R_def
      signed_divide_int_def signed_modulo_int_def)

definition seed_ok :: "int \<Rightarrow> bool" where
  "seed_ok s \<longleftrightarrow> 0 < s \<and> s < rand_M"

lemma rand_temp_nonneg:
  assumes "0 \<le> s"
  shows "rand_temp s = 48271 * (s mod 44488) - 3399 * (s div 44488)"
  using assms by (simp add: rand_temp_def rand_consts cast_simps)

lemma rand_temp_eq:
  assumes "0 \<le> s"
  shows "rand_temp s = 48271 * s - 2147483647 * (s div 44488)"
proof -
  have "s mod 44488 = s - 44488 * (s div 44488)" by (simp add: minus_mult_div_eq_mod)
  then show ?thesis using assms by (simp add: rand_temp_nonneg)
qed

lemma rand_temp_bounds:
  assumes "seed_ok s"
  shows "0 \<le> 48271 * (s mod 44488)" "48271 * (s mod 44488) < 2147483648"
    "0 \<le> 3399 * (s div 44488)" "3399 * (s div 44488) < 2147483647"
    "- 2147483647 < rand_temp s" "rand_temp s < 2147483647"
proof -
  from assms have s: "0 < s" "s < 2147483647" by (simp_all add: seed_ok_def rand_consts)
  have m: "0 \<le> s mod 44488" "s mod 44488 \<le> 44487" by simp_all
  have d: "0 \<le> s div 44488" using s by simp
  have d2: "s div 44488 \<le> 48271" using s by linarith
  show "0 \<le> 48271 * (s mod 44488)" "48271 * (s mod 44488) < 2147483648"
    "0 \<le> 3399 * (s div 44488)" "3399 * (s div 44488) < 2147483647"
    using m d d2 by linarith+
  show "- 2147483647 < rand_temp s" "rand_temp s < 2147483647"
    using s m d d2 by (simp_all add: rand_temp_nonneg)
qed

lemma get_rand_eq_mod:
  assumes "seed_ok s"
  shows "get_rand s = (rand_A * s) mod rand_M"
proof -
  from assms have s: "0 \<le> s" by (simp add: seed_ok_def)
  let ?t = "rand_temp s"
  have b: "- 2147483647 < ?t" "?t < 2147483647" using rand_temp_bounds [OF assms] by simp_all
  have cong: "(rand_A * s) mod rand_M = ?t mod 2147483647"
    using s by (simp add: rand_temp_eq rand_consts mod_diff_right_eq [symmetric])
  show ?thesis
  proof (cases "?t \<ge> 0")
    case True
    then show ?thesis using b cong by (simp add: get_rand_def)
  next
    case False
    then have "?t mod 2147483647 = (?t + 2147483647) mod 2147483647" by simp
    also have "\<dots> = ?t + 2147483647" using False b by (intro mod_pos_pos_trivial) simp_all
    finally show ?thesis using False cong by (simp add: get_rand_def rand_consts)
  qed
qed

lemma coprime_A_M: "coprime rand_A rand_M"
proof -
  have "gcd (48271::int) 2147483647 = 1" by (simp add: gcd_non_0_int)
  then show ?thesis by (simp add: rand_consts coprime_iff_gcd_eq_1)
qed

lemma get_rand_seed_ok:
  assumes "seed_ok s"
  shows "seed_ok (get_rand s)"
proof -
  have "(rand_A * s) mod rand_M \<noteq> 0"
  proof
    assume "(rand_A * s) mod rand_M = 0"
    then have "rand_M dvd rand_A * s" by (simp add: dvd_eq_mod_eq_0)
    then have "rand_M dvd s"
      using coprime_A_M by (simp add: coprime_commute coprime_dvd_mult_right_iff)
    then show False using assms zdvd_imp_le [of rand_M s] by (simp add: seed_ok_def)
  qed
  moreover have "0 \<le> (rand_A * s) mod rand_M" "(rand_A * s) mod rand_M < rand_M"
    by (simp_all add: rand_consts)
  ultimately show ?thesis using get_rand_eq_mod [OF assms] by (simp add: seed_ok_def)
qed

lemma get_rand_inj:
  assumes "seed_ok s" and "seed_ok t" and "get_rand s = get_rand t"
  shows "s = t"
proof -
  have "rand_M dvd rand_A * s - rand_A * t"
    using assms by (simp add: get_rand_eq_mod mod_eq_dvd_iff)
  then have "rand_M dvd rand_A * (s - t)" by (simp add: right_diff_distrib)
  then have "rand_M dvd s - t"
    using coprime_A_M by (simp add: coprime_commute coprime_dvd_mult_right_iff)
  then obtain k where k: "s - t = rand_M * k" by (elim dvdE)
  have "\<bar>s - t\<bar> < rand_M" using assms by (auto simp: seed_ok_def)
  then have "k = 0" using k by (cases "k = 0") (auto simp: abs_mult rand_consts)
  then show ?thesis using k by simp
qed

section \<open>Properties\<close>

text \<open>C38: \<open>GetRand\<close> computes \<open>A * seed mod M\<close> by Schrage's method: on every valid seed each
  intermediate product stays inside \<open>int32_t\<close>, the result is the multiplicative congruential
  step, and it is a valid seed again (never 0, which would be a fixed point).\<close>

theorem get_rand_schrage:
  "seed_ok s \<Longrightarrow>
   get_rand s = (rand_A * s) mod rand_M \<and> seed_ok (get_rand s) \<and>
   0 \<le> rand_A * (s smod rand_Q) \<and> rand_A * (s smod rand_Q) < 2 ^ 31 \<and>
   0 \<le> rand_R * (s sdiv rand_Q) \<and> rand_R * (s sdiv rand_Q) < 2 ^ 31 \<and>
   - (2 ^ 31) \<le> rand_temp s \<and> rand_temp s < 2 ^ 31"
  using get_rand_eq_mod [of s] get_rand_seed_ok [of s] rand_temp_bounds [of s]
  by (simp add: seed_ok_def rand_consts cast_simps)

theorem get_rand_schrage_witness:
  "get_rand 42 = (rand_A * 42) mod rand_M \<and> seed_ok (get_rand 42)"
  using get_rand_schrage [of 42] by (simp add: seed_ok_def rand_consts)

end
