(* ===== verification/Time_Value.thy ===== *)
theory Time_Value
  imports PF_Prelude
begin

text \<open>
  The time class of \<open>common/frame/time_value.{h,cpp}\<close>: a \<open>struct timeval\<close> with its
  constructors, arithmetic, comparison and \<open>Normalize\<close>. Seconds and microseconds are
  64-bit \<open>time_t\<close> values, modelled as \<open>int\<close>. The class order \<open>linorder\<close> is instantiated
  with the friend operators of the header, so that the library's facts on orders apply.
  Reading the clock (\<open>Time\<close>, \<open>CurTimeName\<close>, \<open>Rdtsc\<close>) and formatting are not modelled;
  \<open>NowUs\<close> is modelled on the \<open>gettimeofday\<close> result it receives.
\<close>

section \<open>Model\<close>

datatype time_value = TimeValue (tv_sec: int) (tv_usec: int)

definition ONE_SECOND_IN_USECS :: int where
  "ONE_SECOND_IN_USECS = 1000000"

text \<open>
  \<open>Normalize\<close>. The \<open>CHECK\<close> is written in the source over \<open>tv_usec\<close> twice
  (\<open>tv_usec * ONE_SECOND_IN_USECS + tv_usec >= 0\<close>), and is modelled as it stands.
\<close>

definition tv_carry :: "time_value \<Rightarrow> time_value" where
  "tv_carry t = (let s = tv_sec t; u = tv_usec t in
     if u \<ge> ONE_SECOND_IN_USECS then
       TimeValue (s + u sdiv ONE_SECOND_IN_USECS) (u smod ONE_SECOND_IN_USECS)
     else if u \<le> - ONE_SECOND_IN_USECS then
       TimeValue (s - (- u) sdiv ONE_SECOND_IN_USECS) (- ((- u) smod ONE_SECOND_IN_USECS))
     else t)"

definition tv_normalize :: "time_value \<Rightarrow> time_value res" where
  "tv_normalize t =
     rbind (guard Check_Failed (tv_usec t * ONE_SECOND_IN_USECS + tv_usec t \<ge> 0)) (\<lambda>_.
     let t1 = tv_carry t in
     Inr (if tv_usec t1 < 0 then TimeValue (tv_sec t1 - 1) (tv_usec t1 + ONE_SECOND_IN_USECS)
          else t1))"

text \<open>\<open>Set(sec, usec)\<close>, which the constructors call.\<close>

definition tv_set :: "int \<Rightarrow> int \<Rightarrow> time_value res" where
  "tv_set sec usec = tv_normalize (TimeValue sec usec)"

text \<open>The setters \<open>Sec\<close> and \<open>Usec\<close> do not normalise.\<close>

definition tv_set_sec :: "int \<Rightarrow> time_value \<Rightarrow> time_value" where
  "tv_set_sec s t = TimeValue s (tv_usec t)"

definition tv_set_usec :: "int \<Rightarrow> time_value \<Rightarrow> time_value" where
  "tv_set_usec u t = TimeValue (tv_sec t) u"

text \<open>\<open>operator +=\<close> and \<open>operator -=\<close> on times (normalising) and on seconds.\<close>

definition tv_add :: "time_value \<Rightarrow> time_value \<Rightarrow> time_value res" where
  "tv_add a b = tv_normalize (TimeValue (tv_sec a + tv_sec b) (tv_usec a + tv_usec b))"

definition tv_add_secs :: "time_value \<Rightarrow> int \<Rightarrow> time_value" where
  "tv_add_secs a t = tv_set_sec (tv_sec a + t) a"

definition tv_sub :: "time_value \<Rightarrow> time_value \<Rightarrow> time_value res" where
  "tv_sub a b = tv_normalize (TimeValue (tv_sec a - tv_sec b) (tv_usec a - tv_usec b))"

definition tv_sub_secs :: "time_value \<Rightarrow> int \<Rightarrow> time_value" where
  "tv_sub_secs a t = TimeValue (tv_sec a - t) (tv_usec a)"

text \<open>\<open>operator = (time_t)\<close> and the conversion to \<open>struct timespec\<close> (seconds, nanoseconds).\<close>

definition tv_assign_secs :: "int \<Rightarrow> time_value" where
  "tv_assign_secs t = TimeValue t 0"

definition tv_timespec :: "time_value \<Rightarrow> int \<times> int" where
  "tv_timespec t = (tv_sec t, tv_usec t * 1000)"

text \<open>
  \<open>NowUs\<close> and \<open>Time\<close>: the argument is what \<open>gettimeofday\<close> delivers, \<open>None\<close> when it
  fails. \<open>NowUs\<close> computes in \<open>uint64_t\<close>.
\<close>

definition tv_time :: "(int \<times> int) option \<Rightarrow> time_value res" where
  "tv_time clk = (case clk of None \<Rightarrow> tv_set (- 1) 0 | Some (s, u) \<Rightarrow> tv_set s u)"

definition tv_now_us :: "(int \<times> int) option \<Rightarrow> int" where
  "tv_now_us clk = (case clk of None \<Rightarrow> 0 | Some (s, u) \<Rightarrow> u64 (u64 (s * 1000000) + u))"

text \<open>The friend operators \<open>>\<close> and \<open>==\<close> of the header, and the order they give.\<close>

definition tv_gt :: "time_value \<Rightarrow> time_value \<Rightarrow> bool" where
  "tv_gt left right =
     (if tv_sec left = tv_sec right then tv_usec left > tv_usec right
      else tv_sec left > tv_sec right)"

definition tv_eq :: "time_value \<Rightarrow> time_value \<Rightarrow> bool" where
  "tv_eq left right \<longleftrightarrow> tv_sec left = tv_sec right \<and> tv_usec left = tv_usec right"

lemma tv_eq_iff [simp]: "tv_eq a b \<longleftrightarrow> a = b"
  by (cases a; cases b) (simp add: tv_eq_def)

instantiation time_value :: linorder
begin

definition less_time_value :: "time_value \<Rightarrow> time_value \<Rightarrow> bool" where
  "less_time_value a b \<longleftrightarrow> tv_gt b a"

definition less_eq_time_value :: "time_value \<Rightarrow> time_value \<Rightarrow> bool" where
  "less_eq_time_value a b \<longleftrightarrow> tv_gt b a \<or> tv_eq a b"

instance
proof
  have lt: "a < b \<longleftrightarrow> tv_sec a < tv_sec b \<or> tv_sec a = tv_sec b \<and> tv_usec a < tv_usec b"
    for a b :: time_value
    unfolding less_time_value_def tv_gt_def by auto
  have le: "a \<le> b \<longleftrightarrow> tv_sec a < tv_sec b \<or> tv_sec a = tv_sec b \<and> tv_usec a \<le> tv_usec b"
    for a b :: time_value
    unfolding less_eq_time_value_def tv_eq_def tv_gt_def by auto
  fix x y z :: time_value
  show "x < y \<longleftrightarrow> x \<le> y \<and> \<not> y \<le> x" unfolding lt le by linarith
  show "x \<le> x" unfolding le by simp
  show "x \<le> y \<Longrightarrow> y \<le> z \<Longrightarrow> x \<le> z" unfolding le by linarith
  show "x \<le> y \<Longrightarrow> y \<le> x \<Longrightarrow> x = y"
    unfolding le by (rule time_value.expand) linarith
  show "x \<le> y \<or> y \<le> x" unfolding le by linarith
qed

end

section \<open>Correctness\<close>

text \<open>The instant a value denotes, in microseconds, and the canonical values.\<close>

definition tv_us :: "time_value \<Rightarrow> int" where
  "tv_us t = tv_sec t * 1000000 + tv_usec t"

definition tv_canonical :: "time_value \<Rightarrow> bool" where
  "tv_canonical t \<longleftrightarrow> 0 \<le> tv_usec t \<and> tv_usec t < 1000000"

lemma tv_check_iff: "tv_usec t * ONE_SECOND_IN_USECS + tv_usec t \<ge> 0 \<longleftrightarrow> tv_usec t \<ge> 0"
  by (auto simp: ONE_SECOND_IN_USECS_def)

lemma tv_normalize_nonneg:
  "0 \<le> tv_usec t \<Longrightarrow>
   tv_normalize t = Inr (TimeValue (tv_sec t + tv_usec t div 1000000) (tv_usec t mod 1000000))"
  unfolding tv_normalize_def tv_check_iff
  by (cases t) (simp add: tv_carry_def ONE_SECOND_IN_USECS_def cast_simps Let_def not_less)

lemma tv_normalize_neg: "tv_usec t < 0 \<Longrightarrow> tv_normalize t = Inl Check_Failed"
  unfolding tv_normalize_def tv_check_iff by simp

lemma tv_normalize_InrD:
  assumes "tv_normalize t = Inr t'"
  shows "0 \<le> tv_usec t" "tv_canonical t'" "tv_us t' = tv_us t"
proof -
  show nn: "0 \<le> tv_usec t" using assms tv_normalize_neg [of t] by (cases "tv_usec t < 0") auto
  from assms have t': "t' = TimeValue (tv_sec t + tv_usec t div 1000000) (tv_usec t mod 1000000)"
    by (simp add: tv_normalize_nonneg [OF nn])
  show "tv_canonical t'" by (simp add: t' tv_canonical_def)
  show "tv_us t' = tv_us t"
    by (simp add: t' tv_us_def algebra_simps)
qed

lemma tv_normalize_canonical [simp]: "tv_canonical t \<Longrightarrow> tv_normalize t = Inr t"
  by (cases t) (simp add: tv_canonical_def tv_normalize_nonneg)

lemma tv_add_canonical:
  assumes "tv_canonical a" "tv_canonical b"
  shows "\<exists>c. tv_add a b = Inr c \<and> tv_canonical c \<and> tv_us c = tv_us a + tv_us b"
proof -
  let ?t = "TimeValue (tv_sec a + tv_sec b) (tv_usec a + tv_usec b)"
  have "0 \<le> tv_usec ?t" using assms by (simp add: tv_canonical_def)
  then obtain c where c: "tv_normalize ?t = Inr c" using tv_normalize_nonneg by blast
  with tv_normalize_InrD [OF c] show ?thesis by (auto simp: tv_add_def tv_us_def)
qed

lemma tv_less_iff_us:
  "tv_canonical a \<Longrightarrow> tv_canonical b \<Longrightarrow> a < b \<longleftrightarrow> tv_us a < tv_us b"
  by (cases a; cases b) (auto simp: less_time_value_def tv_gt_def tv_canonical_def tv_us_def)

lemma tv_le_iff_us:
  "tv_canonical a \<Longrightarrow> tv_canonical b \<Longrightarrow> a \<le> b \<longleftrightarrow> tv_us a \<le> tv_us b"
  using tv_less_iff_us [of b a] by (auto simp: not_less [symmetric])

lemma tv_us_inj: "tv_canonical a \<Longrightarrow> tv_canonical b \<Longrightarrow> tv_us a = tv_us b \<longleftrightarrow> a = b"
  using tv_less_iff_us [of a b] tv_less_iff_us [of b a] by (auto intro: linorder_cases [of a b])

lemma tv_canonical_secs [simp]: "tv_canonical (TimeValue s 0)"
  by (simp add: tv_canonical_def)

section \<open>Properties\<close>

text \<open>\<open>Normalize\<close> aborts exactly on a negative microsecond part, whatever the seconds are
  (the \<open>CHECK\<close> multiplies \<open>tv_usec\<close> where \<open>tv_sec\<close> is meant, so the branches for negative
  values below it never run); otherwise it keeps the instant and makes the value canonical.\<close>

theorem tv_normalize_spec:
  "tv_normalize t = (if tv_usec t < 0 then Inl Check_Failed
     else Inr (TimeValue (tv_sec t + tv_usec t div 1000000) (tv_usec t mod 1000000))) \<and>
   (tv_normalize t = Inr t' \<longrightarrow> tv_canonical t' \<and> tv_us t' = tv_us t)"
proof
  show "tv_normalize t = Inr t' \<longrightarrow> tv_canonical t' \<and> tv_us t' = tv_us t"
    using tv_normalize_InrD by blast
qed (simp add: tv_normalize_neg tv_normalize_nonneg)

theorem tv_normalize_spec_witness:
  "tv_normalize (TimeValue 3 2500000) = Inr (TimeValue 5 500000) \<and> tv_us (TimeValue 5 500000) = 5500000"
  using tv_normalize_spec [of "TimeValue 3 2500000" "TimeValue 5 500000"] by (simp add: tv_us_def)

text \<open>\<open>operator -=\<close> aborts whenever the difference needs a borrow from the seconds, even
  when the minuend is the later time.\<close>

theorem tv_sub_borrow_aborts:
  "tv_usec a < tv_usec b \<Longrightarrow> tv_sub a b = Inl Check_Failed"
  by (simp add: tv_sub_def tv_normalize_neg)

theorem tv_sub_borrow_aborts_witness:
  "TimeValue 5 100000 < TimeValue 7 0 \<and> tv_sub (TimeValue 7 0) (TimeValue 5 100000) = Inl Check_Failed"
  using tv_sub_borrow_aborts [of "TimeValue 7 0" "TimeValue 5 100000"]
  by (simp add: less_time_value_def tv_gt_def)

end
