(* ===== verification/Free_Chain.thy ===== *)
theory Free_Chain
  imports PF_Prelude
begin

text \<open>
  The free list both \<open>HeapTimer\<close> (\<open>timer_node_index_array_\<close>) and \<open>ShmPool\<close> (the \<open>pos\<close>
  fields of its units) keep inside an array of integers: a non-negative entry marks a slot
  in use, a negative entry \<open>-j\<close> a free slot whose successor is slot \<open>j\<close>. The head is kept
  apart, slot 0 is never used, and the chain ends at the index just past the slots.
\<close>

section \<open>Chains\<close>

fun chain :: "int list \<Rightarrow> int \<Rightarrow> int list \<Rightarrow> int \<Rightarrow> bool" where
  "chain arr h [] e \<longleftrightarrow> h = e"
| "chain arr h (k # ks) e \<longleftrightarrow>
     h = k \<and> 0 < k \<and> k < int (length arr) \<and> chain arr (- (arr ! nat k)) ks e"

lemma chain_range: "chain arr h ks e \<Longrightarrow> k \<in> set ks \<Longrightarrow> 0 < k \<and> k < int (length arr)"
  by (induction arr h ks e rule: chain.induct) auto

lemma chain_head_pos: "chain arr h ks e \<Longrightarrow> 0 < e \<Longrightarrow> 0 < h"
  by (cases ks) auto

lemma chain_neg: "chain arr h ks e \<Longrightarrow> 0 < e \<Longrightarrow> k \<in> set ks \<Longrightarrow> arr ! nat k < 0"
proof (induction arr h ks e rule: chain.induct)
  case (2 arr h k' ks e)
  then have "0 < - (arr ! nat k')" using chain_head_pos by fastforce
  then show ?case using 2 by auto
qed simp

lemma chain_append:
  "chain arr h (ks @ ls) e \<longleftrightarrow> (\<exists>m. chain arr h ks m \<and> chain arr m ls e)"
  by (induction ks arbitrary: h) auto

lemma chain_update:
  "chain arr h ks e \<Longrightarrow> 0 \<le> i \<Longrightarrow> i \<notin> set ks \<Longrightarrow> chain (arr[nat i := v]) h ks e"
proof (induction arr h ks e rule: chain.induct)
  case (2 arr h k ks e)
  then have "nat k \<noteq> nat i" by auto
  with 2 show ?case by auto
qed simp

lemma chain_extend: "chain arr h ks e \<Longrightarrow> chain (arr @ more) h ks e"
  by (induction arr h ks e rule: chain.induct) (auto simp: nth_append)

text \<open>A freshly initialised stretch of slots: every entry points to the next.\<close>

lemma chain_fresh_aux:
  assumes "\<And>i. n \<le> i \<Longrightarrow> i < n + d \<Longrightarrow> arr ! i = - int (i + 1)" "n + d \<le> length arr" "0 < n"
  shows "chain arr (int n) (map int [n..<n + d]) (int (n + d))"
  using assms
proof (induction d arbitrary: n)
  case (Suc d)
  have "chain arr (int (Suc n)) (map int [Suc n..<Suc n + d]) (int (Suc n + d))"
    using Suc.prems by (intro Suc.IH) auto
  moreover have "- (arr ! n) = int (Suc n)" using Suc.prems(1) [of n] by simp
  ultimately show ?case
    using Suc.prems by (simp add: upt_conv_Cons del: upt_Suc of_nat_Suc)
qed simp

lemma chain_fresh:
  assumes "\<And>i. n \<le> i \<Longrightarrow> i < m \<Longrightarrow> arr ! i = - int (i + 1)" "n \<le> m" "m \<le> length arr" "0 < n"
  shows "chain arr (int n) (map int [n..<m]) (int m)"
  using chain_fresh_aux [of n "m - n" arr] assms by simp

section \<open>Free lists\<close>

text \<open>
  \<open>free_list arr h e F\<close>: from \<open>h\<close> the array chains exactly the slots \<open>F\<close>, each once, and
  ends at \<open>e\<close>.
\<close>

definition free_list :: "int list \<Rightarrow> int \<Rightarrow> int \<Rightarrow> int set \<Rightarrow> bool" where
  "free_list arr h e F \<longleftrightarrow> (\<exists>ks. chain arr h ks e \<and> distinct ks \<and> set ks = F)"

lemma free_list_neg: "free_list arr h e F \<Longrightarrow> 0 < e \<Longrightarrow> k \<in> F \<Longrightarrow> arr ! nat k < 0"
  by (auto simp: free_list_def dest: chain_neg)

lemma free_list_range: "free_list arr h e F \<Longrightarrow> k \<in> F \<Longrightarrow> 0 < k \<and> k < int (length arr)"
  by (auto simp: free_list_def dest: chain_range)

lemma free_list_pop:
  assumes "free_list arr h e F" and "F \<noteq> {}"
  shows "h \<in> F" "free_list arr (- (arr ! nat h)) e (F - {h})"
proof -
  from assms obtain ks where ks: "chain arr h ks e" "distinct ks" "set ks = F"
    by (auto simp: free_list_def)
  with assms(2) obtain k ks' where eq: "ks = k # ks'" by (cases ks) auto
  with ks have h: "h = k" "chain arr (- (arr ! nat h)) ks' e" by auto
  from eq h ks show "h \<in> F" by auto
  from eq h ks have "set ks' = F - {h}" "distinct ks'" by auto
  with h show "free_list arr (- (arr ! nat h)) e (F - {h})" by (auto simp: free_list_def)
qed

lemma free_list_push:
  assumes "free_list arr h e F" and "k \<notin> F" and "0 < k" and "k < int (length arr)"
  shows "free_list (arr[nat k := - h]) k e (insert k F)"
proof -
  from assms obtain ks where ks: "chain arr h ks e" "distinct ks" "set ks = F"
    by (auto simp: free_list_def)
  then have "chain (arr[nat k := - h]) h ks e" using assms by (auto intro: chain_update)
  then have "chain (arr[nat k := - h]) k (k # ks) e" using assms(3,4) by simp
  moreover have "distinct (k # ks)" "set (k # ks) = insert k F" using ks assms(2) by simp_all
  ultimately show ?thesis unfolding free_list_def by blast
qed

lemma free_list_update:
  "free_list arr h e F \<Longrightarrow> 0 \<le> k \<Longrightarrow> k \<notin> F \<Longrightarrow> free_list (arr[nat k := v]) h e F"
  by (auto simp: free_list_def intro: chain_update)

lemma free_list_extend:
  assumes "free_list arr h (int n) F" and "n \<le> m" and "0 < n" and "length arr = n"
    and "F \<subseteq> {0<..<int n}"
    and arr': "arr' = arr @ map (\<lambda>i. - int (i + 1)) [n..<m]"
  shows "free_list arr' h (int m) (F \<union> {int n..<int m})"
proof -
  from assms(1) obtain ks where ks: "chain arr h ks (int n)" "distinct ks" "set ks = F"
    by (auto simp: free_list_def)
  let ?ks = "ks @ map int [n..<m]"
  have "chain arr' (int n) (map int [n..<m]) (int m)"
    using assms by (intro chain_fresh) (auto simp: nth_append)
  moreover have "chain arr' h ks (int n)" using ks(1) arr' by (simp add: chain_extend)
  ultimately have "chain arr' h ?ks (int m)" by (auto simp: chain_append)
  moreover have "distinct ?ks" using ks assms(5) by (auto simp: distinct_map)
  moreover have "set ?ks = F \<union> {int n..<int m}"
    using ks by (auto simp: image_int_atLeastLessThan)
  ultimately show ?thesis unfolding free_list_def by blast
qed

lemma free_list_init:
  assumes "arr = map (\<lambda>i. - int (i + 1)) [0..<m]" and "1 \<le> m"
  shows "free_list arr 1 (int m) {0<..<int m}"
proof -
  have "chain arr (int 1) (map int [1..<m]) (int m)"
    using assms by (intro chain_fresh) auto
  moreover have "set (map int [1..<m]) = {0<..<int m}"
    by (auto simp: image_int_atLeastLessThan)
  ultimately show ?thesis unfolding free_list_def
    by (intro exI [of _ "map int [1..<m]"]) (simp add: distinct_map)
qed

end
