(* ===== verification/Heap_Timer.thy ===== *)
theory Heap_Timer
  imports Rand_LCG Time_Value Free_Chain
begin

text \<open>
  The timer heap of \<open>common/frame/heap_timer.{h,cpp}\<close>: a binary heap of pointers to timer
  nodes ordered by expiry, an array that maps a timer's index to its position in the heap
  (or chains the free indices), and an array with the random half of each timer id.

  The nodes live in an explicit store \<open>nodes\<close> from addresses to nodes: \<open>new\<close> takes the
  fresh address \<open>next_node\<close>, \<open>delete\<close> removes the entry, so a use after free is the fault
  \<open>Dangling\<close>. Heap positions and sizes are \<open>uint32_t\<close> in the source and \<open>nat\<close> here; they
  stay below \<open>2^31\<close> under the invariant. This theory holds the definitions only; the
  rotations are proved in \<open>Heap_Rotate\<close>, the invariant and the operations in
  \<open>Heap_Timer_Inv\<close>, \<open>Heap_Timer_Ops\<close> and \<open>Heap_Timer_Poll\<close>, the properties of the component in
  \<open>Heap_Timer_Spec\<close>.
\<close>

section \<open>State\<close>

record timer_node =
  timer_id :: int
  expire_time :: time_value
  interval_time :: time_value
  node_data :: nat
  cb_obj :: "nat option"

record heap_timer =
  heap_size :: nat
  cur_size :: nat
  heap :: "nat list"
  timer_node_index_array :: "int list"
  rand_array :: "int list"
  free_timer_node_index :: int
  rand_maker :: int
  nodes :: "nat \<rightharpoonup> timer_node"
  next_node :: nat

text \<open>A timer id: the node's index in the high, its random number in the low 32 bits.\<close>

definition mk_timer_id :: "int \<Rightarrow> int \<Rightarrow> int" where
  "mk_timer_id timer_node_index rand_num = (push_bit 32 timer_node_index) OR rand_num"

definition id_index :: "int \<Rightarrow> int" where
  "id_index tid = i32 (drop_bit 32 tid)"

definition id_rand :: "int \<Rightarrow> int" where
  "id_rand tid = i32 (tid AND 0xffffffff)"

text \<open>Pointer access: address 0 is \<open>NULL\<close> and never allocated.\<close>

definition deref :: "(nat \<rightharpoonup> timer_node) \<Rightarrow> nat \<Rightarrow> timer_node res" where
  "deref ns a = (case ns a of Some n \<Rightarrow> Inr n | None \<Rightarrow> Inl (if a = 0 then Null_Deref else Dangling))"

definition delete_node :: "heap_timer \<Rightarrow> nat \<Rightarrow> heap_timer res" where
  "delete_node ht a = rbind (deref (nodes ht) a) (\<lambda>_. Inr (ht\<lparr>nodes := (nodes ht)(a := None)\<rparr>))"

section \<open>Helpers of the header\<close>

definition get_parent_pos :: "nat \<Rightarrow> nat" where
  "get_parent_pos cur_pos = (if cur_pos = 0 then 0 else (cur_pos - 1) div 2)"

definition get_left_child_pos :: "nat \<Rightarrow> nat" where
  "get_left_child_pos cur_pos = 2 * cur_pos + 1"

definition timerval_gte :: "time_value \<Rightarrow> time_value \<Rightarrow> bool" where
  "timerval_gte left right \<longleftrightarrow> tv_gt left right \<or> tv_eq left right"

text \<open>\<open>ExpireTime\<close> builds a \<open>TimeValue\<close>, so it goes through \<open>Normalize\<close>.\<close>

definition expire_time_at :: "time_value \<Rightarrow> time_value \<Rightarrow> time_value res" where
  "expire_time_at now interval = tv_set (tv_sec now + tv_sec interval) (tv_usec now + tv_usec interval)"

definition pop_free_timer_id :: "heap_timer \<Rightarrow> (int \<times> heap_timer) res" where
  "pop_free_timer_id ht =
     (let timer_node_index = free_timer_node_index ht in
      rbind (rd (timer_node_index_array ht) timer_node_index) (\<lambda>link.
      let rand_num = get_rand (rand_maker ht) in
      rbind (wr (rand_array ht) timer_node_index rand_num) (\<lambda>rand_array'.
      Inr (mk_timer_id timer_node_index rand_num,
           ht\<lparr>free_timer_node_index := - link, rand_maker := rand_num, rand_array := rand_array'\<rparr>))))"

definition push_free_timer_id :: "heap_timer \<Rightarrow> int \<Rightarrow> heap_timer res" where
  "push_free_timer_id ht old_timer_id =
     (let timer_node_index = id_index old_timer_id; rand_num = id_rand old_timer_id in
      rbind (rd (rand_array ht) timer_node_index) (\<lambda>timer_rand.
      if timer_rand \<noteq> rand_num then Inr ht
      else
        rbind (wr (timer_node_index_array ht) timer_node_index (- free_timer_node_index ht)) (\<lambda>index'.
        rbind (wr (rand_array ht) timer_node_index 0) (\<lambda>rand_array'.
        Inr (ht\<lparr>timer_node_index_array := index', free_timer_node_index := timer_node_index,
               rand_array := rand_array'\<rparr>)))))"

section \<open>Construction and growth\<close>

text \<open>\<open>HeapTimer(heap_size)\<close>; \<open>now\<close> is the \<open>time(NULL)\<close> that seeds the generator.\<close>

definition heap_timer_new :: "nat \<Rightarrow> int \<Rightarrow> heap_timer" where
  "heap_timer_new n now =
     \<lparr>heap_size = n + 1, cur_size = 0, heap = replicate (n + 1) 0,
      timer_node_index_array = map (\<lambda>i. - int (i + 1)) [0..<n + 1],
      rand_array = replicate (n + 1) 0, free_timer_node_index = 1,
      rand_maker = random_new 0 now, nodes = Map.empty, next_node = 1\<rparr>"

definition grow_heap :: "heap_timer \<Rightarrow> heap_timer" where
  "grow_heap ht =
     (let new_size = 2 * heap_size ht in
      ht\<lparr>heap := heap ht @ replicate (heap_size ht) 0,
         timer_node_index_array :=
           timer_node_index_array ht @ map (\<lambda>i. - int (i + 1)) [heap_size ht..<new_size],
         rand_array := rand_array ht @ replicate (heap_size ht) 0,
         heap_size := new_size\<rparr>)"

section \<open>Rotations\<close>

text \<open>
  \<open>place\<close> is the common end of both rotations: the moved node is stored at its final
  position and its index entry updated.
\<close>

definition place ::
  "(nat \<rightharpoonup> timer_node) \<Rightarrow> nat list \<Rightarrow> int list \<Rightarrow> nat \<Rightarrow> nat \<Rightarrow> (nat list \<times> int list) res" where
  "place ns h ix a pos =
     rbind (wr h (int pos) a) (\<lambda>h'.
     rbind (deref ns a) (\<lambda>n.
     rbind (wr ix (id_index (timer_id n)) (int pos)) (\<lambda>ix'. Inr (h', ix'))))"

function rotate_up ::
  "(nat \<rightharpoonup> timer_node) \<Rightarrow> nat list \<Rightarrow> int list \<Rightarrow> nat \<Rightarrow> nat \<Rightarrow> nat \<Rightarrow> (nat list \<times> int list) res" where
  "rotate_up ns h ix move_node pos parent_pos =
     (if pos > 0 then
        rbind (deref ns move_node) (\<lambda>mn.
        rbind (rd h (int parent_pos)) (\<lambda>pa.
        rbind (deref ns pa) (\<lambda>pn.
        if \<not> timerval_gte (expire_time mn) (expire_time pn) then
          rbind (wr h (int pos) pa) (\<lambda>h'.
          rbind (wr ix (id_index (timer_id pn)) (int pos)) (\<lambda>ix'.
          rotate_up ns h' ix' move_node parent_pos (get_parent_pos parent_pos)))
        else place ns h ix move_node pos)))
      else place ns h ix move_node pos)"
  by pat_completeness auto
termination
  by (relation "measure (\<lambda>(ns, h, ix, a, pos, par). if pos = 0 then 0 else Suc par)")
    (auto simp: get_parent_pos_def)

text \<open>
  \<open>min_child\<close> is the choice of the smaller child at the head of the loop of \<open>RotateDown\<close>.
\<close>

definition min_child :: "(nat \<rightharpoonup> timer_node) \<Rightarrow> nat list \<Rightarrow> nat \<Rightarrow> nat \<Rightarrow> nat res" where
  "min_child ns h cur child_pos =
     (if child_pos + 1 < cur then
        rbind (rd h (int child_pos)) (\<lambda>l. rbind (deref ns l) (\<lambda>ln.
        rbind (rd h (int (child_pos + 1))) (\<lambda>r. rbind (deref ns r) (\<lambda>rn.
        Inr (if timerval_gte (expire_time ln) (expire_time rn) then child_pos + 1 else child_pos)))))
      else Inr child_pos)"

lemma min_child_ge: "min_child ns h cur c = Inr c' \<Longrightarrow> c \<le> c'"
  by (auto simp: min_child_def rbind_eq_Inr_iff split: if_splits)

function rotate_down ::
  "(nat \<rightharpoonup> timer_node) \<Rightarrow> nat \<Rightarrow> nat list \<Rightarrow> int list \<Rightarrow> nat \<Rightarrow> nat \<Rightarrow> nat \<Rightarrow> (nat list \<times> int list) res" where
  "rotate_down ns cur h ix move_node pos child_pos =
     (if child_pos < cur then
        rbind (min_child ns h cur child_pos) (\<lambda>c.
        rbind (deref ns move_node) (\<lambda>mn.
        rbind (rd h (int c)) (\<lambda>ca.
        rbind (deref ns ca) (\<lambda>cn.
        if timerval_gte (expire_time mn) (expire_time cn) then
          rbind (wr h (int pos) ca) (\<lambda>h'.
          rbind (wr ix (id_index (timer_id cn)) (int pos)) (\<lambda>ix'.
          rotate_down ns cur h' ix' move_node c (get_left_child_pos c)))
        else place ns h ix move_node pos))))
      else place ns h ix move_node pos)"
  by pat_completeness auto
termination
  by (relation "measure (\<lambda>(ns, cur, h, ix, a, pos, child). cur - child)")
    (auto simp: get_left_child_pos_def dest!: min_child_ge)

declare rotate_up.simps [simp del] rotate_down.simps [simp del]

section \<open>Removal\<close>

text \<open>\<open>RemoveNode\<close> returns the removed node's address, \<open>None\<close> for \<open>NULL\<close>.\<close>

definition refill_hole :: "heap_timer \<Rightarrow> nat \<Rightarrow> heap_timer res" where
  "refill_hole ht pos =
     rbind (rd (heap ht) (int (cur_size ht))) (\<lambda>move_node.
     rbind (wr (heap ht) (int pos) move_node) (\<lambda>h1.
     rbind (deref (nodes ht) move_node) (\<lambda>mn.
     rbind (wr (timer_node_index_array ht) (id_index (timer_id mn)) (int pos)) (\<lambda>ix1.
     let parent_pos = get_parent_pos pos in
     rbind (rd h1 (int parent_pos)) (\<lambda>pa.
     rbind (deref (nodes ht) pa) (\<lambda>pn.
     rbind (if timerval_gte (expire_time mn) (expire_time pn) then
              rotate_down (nodes ht) (cur_size ht) h1 ix1 move_node pos (get_left_child_pos pos)
            else rotate_up (nodes ht) h1 ix1 move_node pos parent_pos) (\<lambda>(h2, ix2).
     Inr (ht\<lparr>heap := h2, timer_node_index_array := ix2\<rparr>))))))))"

definition remove_node :: "heap_timer \<Rightarrow> nat \<Rightarrow> (nat option \<times> heap_timer) res" where
  "remove_node ht del_node_pos =
     (if cur_size ht = 0 then Inr (None, ht)
      else
        rbind (rd (heap ht) (int del_node_pos)) (\<lambda>del_node.
        rbind (deref (nodes ht) del_node) (\<lambda>dn.
        rbind (push_free_timer_id ht (timer_id dn)) (\<lambda>ht1.
        let ht2 = ht1\<lparr>nodes := (nodes ht1)(del_node \<mapsto> dn\<lparr>timer_id := - 1\<rparr>),
                      cur_size := cur_size ht1 - 1\<rparr> in
        rbind (if del_node_pos < cur_size ht2 then refill_hole ht2 del_node_pos else Inr ht2) (\<lambda>ht3.
        Inr (Some del_node, ht3))))))"

section \<open>The public operations\<close>

text \<open>
  \<open>RegisterTimer\<close>; \<open>now\<close> is \<open>time(NULL)\<close>. The source returns \<open>-1\<close> on the two guards
  (\<open>new\<close> does not return \<open>NULL\<close>).
\<close>

definition register_timer ::
  "int \<Rightarrow> time_value \<Rightarrow> time_value \<Rightarrow> nat option \<Rightarrow> nat \<Rightarrow> heap_timer \<Rightarrow> (int \<times> heap_timer) res" where
  "register_timer now interval delay cb data ht =
     (if tv_sec interval = 0 \<and> tv_usec interval = 0 then Inr (- 1, ht)
      else if cur_size ht \<ge> heap_size ht then Inr (- 1, ht)
      else
        rbind (pop_free_timer_id ht) (\<lambda>(tid, ht1).
        rbind (tv_set now 0) (\<lambda>now_tv.
        rbind (expire_time_at now_tv delay) (\<lambda>e.
        let a = next_node ht1;
            ht2 = ht1\<lparr>nodes := (nodes ht1)(a \<mapsto>
                    \<lparr>timer_id = tid, expire_time = e, interval_time = interval,
                     node_data = data, cb_obj = cb\<rparr>),
                   next_node := a + 1\<rparr>;
            ht3 = (if cur_size ht2 + 2 \<ge> heap_size ht2 then grow_heap ht2 else ht2) in
        rbind (rotate_up (nodes ht3) (heap ht3) (timer_node_index_array ht3) a
                 (cur_size ht3) (get_parent_pos (cur_size ht3))) (\<lambda>(h', ix').
        Inr (tid, ht3\<lparr>heap := h', timer_node_index_array := ix', cur_size := cur_size ht3 + 1\<rparr>))))))"

definition unregister_timer :: "int \<Rightarrow> heap_timer \<Rightarrow> heap_timer res" where
  "unregister_timer tid ht =
     (let timer_node_index = id_index tid; rand_num = id_rand tid in
      if timer_node_index < 0 \<or> timer_node_index > int (heap_size ht) then Inr ht
      else
        rbind (rd (timer_node_index_array ht) timer_node_index) (\<lambda>node_pos.
        if node_pos < 0 then Inr ht
        else
          rbind (rd (rand_array ht) timer_node_index) (\<lambda>timer_rand.
          if timer_rand \<noteq> rand_num then Inr ht
          else
            rbind (rd (heap ht) node_pos) (\<lambda>del_node.
            if del_node = 0 then Inr ht
            else
              rbind (remove_node ht (nat node_pos)) (\<lambda>(_, ht1).
              delete_node ht1 del_node)))))"

definition first_timeout :: "heap_timer \<Rightarrow> time_value option res" where
  "first_timeout ht =
     (if cur_size ht > 0 then
        rbind (rd (heap ht) 0) (\<lambda>a. rbind (deref (nodes ht) a) (\<lambda>n. Inr (Some (expire_time n))))
      else Inr None)"

definition get_timer_size :: "heap_timer \<Rightarrow> int" where
  "get_timer_size ht = i32 (int (cur_size ht))"

section \<open>Polling\<close>

text \<open>
  \<open>TimerPoll\<close>. A callback object is a number; \<open>exec c tid data (ht, w)\<close> is the run of
  \<open>Execute(tid, data)\<close> on object \<open>c\<close>: it may change the timer heap (the callbacks of the
  program unregister timers) and the rest of the program's state \<open>w\<close>, and returns the
  \<open>int32_t\<close> the source tests. \<open>poll_step\<close> is one iteration of the loop, \<open>None\<close> when its
  condition fails.
\<close>

type_synonym 'w exec = "nat \<Rightarrow> int \<Rightarrow> nat \<Rightarrow> heap_timer \<times> 'w \<Rightarrow> (int \<times> heap_timer \<times> 'w) res"

definition poll_remove :: "heap_timer \<Rightarrow> nat \<Rightarrow> heap_timer res" where
  "poll_remove ht expire_node = rbind (remove_node ht 0) (\<lambda>(_, ht'). delete_node ht' expire_node)"

definition poll_rearm :: "time_value \<Rightarrow> heap_timer \<Rightarrow> nat \<Rightarrow> timer_node \<Rightarrow> heap_timer res" where
  "poll_rearm now ht a n =
     rbind (expire_time_at now (interval_time n)) (\<lambda>e.
     let ns = (nodes ht)(a \<mapsto> n\<lparr>expire_time := e\<rparr>) in
     rbind (rotate_down ns (cur_size ht) (heap ht) (timer_node_index_array ht) a 0
              (get_left_child_pos 0)) (\<lambda>(h', ix').
     Inr (ht\<lparr>nodes := ns, heap := h', timer_node_index_array := ix'\<rparr>)))"

definition poll_step ::
  "'w exec \<Rightarrow> time_value \<Rightarrow> heap_timer \<Rightarrow> 'w \<Rightarrow> (heap_timer \<times> 'w) option res" where
  "poll_step exec now ht w =
     (if cur_size ht = 0 then Inr None
      else
        rbind (rd (heap ht) 0) (\<lambda>a.
        rbind (deref (nodes ht) a) (\<lambda>n.
        if \<not> timerval_gte now (expire_time n) then Inr None
        else
          rbind (case cb_obj n of None \<Rightarrow> Inr (0, ht, w)
                 | Some c \<Rightarrow> exec c (timer_id n) (node_data n) (ht, w)) (\<lambda>(ret, ht1, w1).
          if ret = 0 then
            rbind (deref (nodes ht1) a) (\<lambda>n1.
            if tv_sec (interval_time n1) \<noteq> 0 \<or> tv_usec (interval_time n1) \<noteq> 0 then
              rbind (poll_rearm now ht1 a n1) (\<lambda>ht2. Inr (Some (ht2, w1)))
            else rbind (poll_remove ht1 a) (\<lambda>ht2. Inr (Some (ht2, w1))))
          else rbind (poll_remove ht1 a) (\<lambda>ht2. Inr (Some (ht2, w1)))))))"

text \<open>The loop may run forever when callbacks keep registering due timers: \<open>None\<close>.\<close>

partial_function (option) timer_poll ::
  "'w exec \<Rightarrow> time_value \<Rightarrow> heap_timer \<Rightarrow> 'w \<Rightarrow> (heap_timer \<times> 'w) res option" where
  "timer_poll exec now ht w =
     (case poll_step exec now ht w of
        Inl e \<Rightarrow> Some (Inl e)
      | Inr None \<Rightarrow> Some (Inr (ht, w))
      | Inr (Some (ht', w')) \<Rightarrow> timer_poll exec now ht' w')"

text \<open>The destructor frees the nodes the index array still points to.\<close>

fun heap_timer_free_from :: "nat \<Rightarrow> heap_timer \<Rightarrow> heap_timer res" where
  "heap_timer_free_from 0 ht = Inr ht"
| "heap_timer_free_from (Suc k) ht =
     rbind (heap_timer_free_from k ht) (\<lambda>ht.
     rbind (rd (timer_node_index_array ht) (int k)) (\<lambda>p.
     if p \<ge> 0 then rbind (rd (heap ht) p) (\<lambda>a. delete_node ht a) else Inr ht))"

definition heap_timer_delete :: "heap_timer \<Rightarrow> heap_timer res" where
  "heap_timer_delete ht = heap_timer_free_from (heap_size ht) ht"

end
