(* ===== verification/Heap_Rotate.thy ===== *)
theory Heap_Rotate
  imports Heap_Timer
begin

text \<open>
  The rotations of the timer heap. While a rotation runs one position of the heap array is
  a hole; the lemmas say that moving a node into the hole keeps the index array right, and
  that the hole ends where the moved node restores the heap order. No access of either
  loop leaves an array or follows a dangling pointer.
\<close>

section \<open>Positions, keys and slots\<close>

definition key :: "(nat \<rightharpoonup> timer_node) \<Rightarrow> nat \<Rightarrow> time_value" where
  "key ns a = expire_time (the (ns a))"

definition slot :: "(nat \<rightharpoonup> timer_node) \<Rightarrow> nat \<Rightarrow> int" where
  "slot ns a = id_index (timer_id (the (ns a)))"

definition has_slot :: "(nat \<rightharpoonup> timer_node) \<Rightarrow> int list \<Rightarrow> nat \<Rightarrow> bool" where
  "has_slot ns ix a \<longleftrightarrow> a \<in> dom ns \<and> 0 \<le> slot ns a \<and> slot ns a < int (length ix)"

text \<open>\<open>indexed\<close>: at every position of \<open>P\<close> there is an allocated node whose entry in the
  index array is that position.\<close>

definition indexed :: "(nat \<rightharpoonup> timer_node) \<Rightarrow> nat list \<Rightarrow> int list \<Rightarrow> nat set \<Rightarrow> bool" where
  "indexed ns h ix P \<longleftrightarrow>
     (\<forall>i\<in>P. i < length h \<and> has_slot ns ix (h ! i) \<and> ix ! nat (slot ns (h ! i)) = int i)"

definition ordered :: "(nat \<rightharpoonup> timer_node) \<Rightarrow> nat list \<Rightarrow> nat \<Rightarrow> bool" where
  "ordered ns h n \<longleftrightarrow> (\<forall>i<n. 0 < i \<longrightarrow> key ns (h ! get_parent_pos i) \<le> key ns (h ! i))"

text \<open>\<open>order_hole\<close>: the heap order away from the hole, and across it.\<close>

definition order_hole :: "(nat \<rightharpoonup> timer_node) \<Rightarrow> nat list \<Rightarrow> nat \<Rightarrow> nat \<Rightarrow> bool" where
  "order_hole ns h n pos \<longleftrightarrow>
     (\<forall>i<n. 0 < i \<longrightarrow> i \<noteq> pos \<longrightarrow> get_parent_pos i \<noteq> pos \<longrightarrow>
        key ns (h ! get_parent_pos i) \<le> key ns (h ! i)) \<and>
     (\<forall>c<n. 0 < c \<longrightarrow> 0 < pos \<longrightarrow> get_parent_pos c = pos \<longrightarrow>
        key ns (h ! get_parent_pos pos) \<le> key ns (h ! c))"

lemma parent_less: "0 < i \<Longrightarrow> get_parent_pos i < i"
  by (simp add: get_parent_pos_def)

lemma parent_le: "get_parent_pos i \<le> i"
  using parent_less [of i] by (cases "i = 0") (auto simp: get_parent_pos_def)

lemma parent_eq_iff: "0 < c \<Longrightarrow> get_parent_pos c = p \<longleftrightarrow> c = 2 * p + 1 \<or> c = 2 * p + 2"
  unfolding get_parent_pos_def by (cases c) (auto; presburger)+

lemma parent_left_child [simp]: "get_parent_pos (get_left_child_pos p) = p"
  by (simp add: get_parent_pos_def get_left_child_pos_def)

lemma timerval_gte_iff [simp]: "timerval_gte a b \<longleftrightarrow> b \<le> a"
  unfolding timerval_gte_def less_eq_time_value_def
  by (auto simp: tv_eq_def)

lemma deref_Some: "a \<in> dom ns \<Longrightarrow> deref ns a = Inr (the (ns a))"
  by (auto simp: deref_def)

lemma indexed_inj:
  "indexed ns h ix P \<Longrightarrow> i \<in> P \<Longrightarrow> j \<in> P \<Longrightarrow> slot ns (h ! i) = slot ns (h ! j) \<Longrightarrow> i = j"
  by (auto simp: indexed_def) (metis of_nat_eq_iff)

lemma indexed_dom: "indexed ns h ix P \<Longrightarrow> i \<in> P \<Longrightarrow> h ! i \<in> dom ns"
  by (auto simp: indexed_def has_slot_def)

lemma indexed_mono: "indexed ns h ix P \<Longrightarrow> Q \<subseteq> P \<Longrightarrow> indexed ns h ix Q"
  by (auto simp: indexed_def)

section \<open>Moving a node into the hole\<close>

text \<open>The result of a rotation: the nodes \<open>S\<close> fill the first \<open>n\<close> positions, in heap order,
  and only index entries of those nodes have changed.\<close>

definition rotated ::
  "(nat \<rightharpoonup> timer_node) \<Rightarrow> nat list \<Rightarrow> int list \<Rightarrow> nat \<Rightarrow> nat set \<Rightarrow> nat list \<Rightarrow> int list \<Rightarrow> bool" where
  "rotated ns h ix n S h' ix' \<longleftrightarrow>
     indexed ns h' ix' {..<n} \<and> ordered ns h' n \<and> (!) h' ` {..<n} = S \<and>
     length h' = length h \<and> length ix' = length ix \<and>
     (\<forall>k<length ix. int k \<notin> slot ns ` S \<longrightarrow> ix' ! k = ix ! k)"

lemma move_indexed:
  assumes ind: "indexed ns h ix ({..<n} - {pos})" and q: "q < n" "q \<noteq> pos"
    and n: "pos < n" "n \<le> length h"
  shows "indexed ns (h[pos := h ! q]) (ix[nat (slot ns (h ! q)) := int pos]) ({..<n} - {q})"
    and "(!) (h[pos := h ! q]) ` ({..<n} - {q}) = (!) h ` ({..<n} - {pos})"
proof -
  let ?h = "h[pos := h ! q]" and ?ix = "ix[nat (slot ns (h ! q)) := int pos]"
  have qin: "q \<in> {..<n} - {pos}" using q by simp
  have hq: "has_slot ns ix (h ! q)" using ind qin by (auto simp: indexed_def)
  show "indexed ns ?h ?ix ({..<n} - {q})"
    unfolding indexed_def
  proof
    fix i assume i: "i \<in> {..<n} - {q}"
    show "i < length ?h \<and> has_slot ns ?ix (?h ! i) \<and> ?ix ! nat (slot ns (?h ! i)) = int i"
    proof (cases "i = pos")
      case True
      then show ?thesis using hq n by (auto simp: has_slot_def nat_less_iff)
    next
      case False
      then have iin: "i \<in> {..<n} - {pos}" using i by simp
      then have hi: "has_slot ns ix (h ! i)" "ix ! nat (slot ns (h ! i)) = int i"
        using ind by (auto simp: indexed_def)
      have "slot ns (h ! i) \<noteq> slot ns (h ! q)" using indexed_inj [OF ind iin qin] i by auto
      then have "nat (slot ns (h ! i)) \<noteq> nat (slot ns (h ! q))"
        using hi(1) hq by (auto simp: has_slot_def)
      then show ?thesis using hi False n i by (auto simp: has_slot_def)
    qed
  qed
  show "(!) ?h ` ({..<n} - {q}) = (!) h ` ({..<n} - {pos})"
  proof (intro equalityI subsetI)
    fix x assume "x \<in> (!) ?h ` ({..<n} - {q})"
    then obtain i where i: "i < n" "i \<noteq> q" "x = ?h ! i" by auto
    then show "x \<in> (!) h ` ({..<n} - {pos})"
      using q n by (cases "i = pos") auto
  next
    fix x assume "x \<in> (!) h ` ({..<n} - {pos})"
    then obtain i where i: "i < n" "i \<noteq> pos" "x = h ! i" by auto
    show "x \<in> (!) ?h ` ({..<n} - {q})"
    proof (cases "i = q")
      case True
      then have "x = ?h ! pos" using i n by simp
      then show ?thesis using n q by blast
    next
      case False
      then have "x = ?h ! i" using i by simp
      then show ?thesis using i False by blast
    qed
  qed
qed

lemma place_indexed:
  assumes ind: "indexed ns h ix ({..<n} - {pos})" and n: "pos < n" "n \<le> length h"
    and m: "has_slot ns ix m" "slot ns m \<notin> slot ns ` (!) h ` ({..<n} - {pos})"
  defines "h' \<equiv> h[pos := m]" and "ix' \<equiv> ix[nat (slot ns m) := int pos]"
  shows "place ns h ix m pos = Inr (h', ix')"
    and "indexed ns h' ix' {..<n}" and "(!) h' ` {..<n} = insert m ((!) h ` ({..<n} - {pos}))"
proof -
  show "place ns h ix m pos = Inr (h', ix')"
    using m(1) n by (simp add: place_def deref_Some has_slot_def slot_def h'_def ix'_def)
  show "indexed ns h' ix' {..<n}"
    unfolding indexed_def
  proof
    fix i assume i: "i \<in> {..<n}"
    show "i < length h' \<and> has_slot ns ix' (h' ! i) \<and> ix' ! nat (slot ns (h' ! i)) = int i"
    proof (cases "i = pos")
      case True
      then show ?thesis using m n by (auto simp: has_slot_def h'_def ix'_def nat_less_iff)
    next
      case False
      then have iin: "i \<in> {..<n} - {pos}" using i by simp
      then have hi: "has_slot ns ix (h ! i)" "ix ! nat (slot ns (h ! i)) = int i" "i < length h"
        using ind by (auto simp: indexed_def)
      have "slot ns (h ! i) \<noteq> slot ns m" using m(2) iin by (metis imageI)
      then have "nat (slot ns (h ! i)) \<noteq> nat (slot ns m)"
        using hi(1) m(1) by (auto simp: has_slot_def)
      then show ?thesis using hi False by (auto simp: has_slot_def h'_def ix'_def)
    qed
  qed
  show "(!) h' ` {..<n} = insert m ((!) h ` ({..<n} - {pos}))"
  proof -
    have "{..<n} = insert pos ({..<n} - {pos})" using n by auto
    then have "(!) h' ` {..<n} = insert (h' ! pos) ((!) h' ` ({..<n} - {pos}))" by (metis image_insert)
    also have "(!) h' ` ({..<n} - {pos}) = (!) h ` ({..<n} - {pos})" by (auto simp: h'_def)
    finally show ?thesis using n by (simp add: h'_def)
  qed
qed

lemma place_ordered:
  assumes "order_hole ns h n pos" "pos < n" "n \<le> length h"
    and "0 < pos \<Longrightarrow> key ns (h ! get_parent_pos pos) \<le> key ns m"
    and "\<And>c. c < n \<Longrightarrow> 0 < c \<Longrightarrow> get_parent_pos c = pos \<Longrightarrow> key ns m \<le> key ns (h ! c)"
  shows "ordered ns (h[pos := m]) n"
  unfolding ordered_def
proof (intro allI impI)
  fix i assume i: "i < n" "0 < i"
  have p: "get_parent_pos i < i" using i parent_less by simp
  consider "i = pos" | "i \<noteq> pos" "get_parent_pos i = pos"
    | "i \<noteq> pos" "get_parent_pos i \<noteq> pos" by blast
  then show "key ns (h[pos := m] ! get_parent_pos i) \<le> key ns (h[pos := m] ! i)"
  proof cases
    case 1
    then show ?thesis using assms i p by simp
  next
    case 2
    then show ?thesis using assms i by simp
  next
    case 3
    then show ?thesis using assms(1) i by (simp add: order_hole_def)
  qed
qed

lemma rotated_update:
  assumes "rotated ns h1 (ix[nat (slot ns a) := v]) n S h' ix'"
    and "a \<in> S" "has_slot ns ix a" "length h1 = length h"
  shows "rotated ns h ix n S h' ix'"
proof -
  have "ix[nat (slot ns a) := v] ! k = ix ! k" if "int k \<notin> slot ns ` S" for k
  proof -
    have "int k \<noteq> slot ns a" using that assms(2) by auto
    then have "nat (slot ns a) \<noteq> k" using assms(3) by (auto simp: has_slot_def)
    then show ?thesis by simp
  qed
  then show ?thesis using assms(1,4) by (simp add: rotated_def)
qed

lemma place_rotated:
  assumes "indexed ns h ix ({..<n} - {pos})" "pos < n" "n \<le> length h"
    and "has_slot ns ix m" "slot ns m \<notin> slot ns ` (!) h ` ({..<n} - {pos})"
    and "order_hole ns h n pos"
    and "0 < pos \<Longrightarrow> key ns (h ! get_parent_pos pos) \<le> key ns m"
    and "\<And>c. c < n \<Longrightarrow> 0 < c \<Longrightarrow> get_parent_pos c = pos \<Longrightarrow> key ns m \<le> key ns (h ! c)"
  shows "\<exists>h' ix'. place ns h ix m pos = Inr (h', ix') \<and>
    rotated ns h ix n (insert m ((!) h ` ({..<n} - {pos}))) h' ix'"
proof -
  note pl = place_indexed [OF assms(1-5)]
  let ?S = "insert m ((!) h ` ({..<n} - {pos}))"
  have "ordered ns (h[pos := m]) n" using assms by (intro place_ordered) auto
  then have "rotated ns (h[pos := m]) (ix[nat (slot ns m) := int pos]) n ?S
      (h[pos := m]) (ix[nat (slot ns m) := int pos])"
    using pl by (simp add: rotated_def)
  then have "rotated ns h ix n ?S (h[pos := m]) (ix[nat (slot ns m) := int pos])"
    by (rule rotated_update) (use assms(4) in simp_all)
  then show ?thesis using pl(1) by blast
qed

section \<open>RotateUp\<close>

lemma order_hole_up:
  assumes ord: "order_hole ns h n pos" and n: "pos < n" "n \<le> length h" "0 < pos"
    and par: "par = get_parent_pos pos"
  shows "order_hole ns (h[pos := h ! par]) n par"
    and "c < n \<Longrightarrow> 0 < c \<Longrightarrow> get_parent_pos c = par \<Longrightarrow>
      key ns (h ! par) \<le> key ns (h[pos := h ! par] ! c)"
proof -
  have pl: "par < pos" using par n parent_less by simp
  have A: "key ns (h ! get_parent_pos i) \<le> key ns (h ! i)"
    if "i < n" "0 < i" "i \<noteq> pos" "get_parent_pos i \<noteq> pos" for i
    using ord that by (simp add: order_hole_def)
  have B: "key ns (h ! par) \<le> key ns (h ! c)"
    if "c < n" "0 < c" "get_parent_pos c = pos" for c
    using ord that n par by (simp add: order_hole_def)
  show C: "key ns (h ! par) \<le> key ns (h[pos := h ! par] ! c)"
    if c: "c < n" "0 < c" "get_parent_pos c = par" for c
  proof (cases "c = pos")
    case True
    then show ?thesis using n by simp
  next
    case False
    then show ?thesis using A [of c] c pl by simp
  qed
  have D: "key ns (h ! get_parent_pos par) \<le> key ns (h ! par)" if "0 < par"
    using A [of par] that pl n parent_less [of par] by simp
  show "order_hole ns (h[pos := h ! par]) n par"
    unfolding order_hole_def
  proof (intro conjI allI impI)
    fix i assume i: "i < n" "0 < i" "i \<noteq> par" "get_parent_pos i \<noteq> par"
    show "key ns (h[pos := h ! par] ! get_parent_pos i) \<le> key ns (h[pos := h ! par] ! i)"
      using i n par A [of i] B [of i] parent_less [of i]
      by (cases "i = pos"; cases "get_parent_pos i = pos") auto
  next
    fix c assume c: "c < n" "0 < c" "0 < par" "get_parent_pos c = par"
    have "key ns (h ! get_parent_pos par) \<le> key ns (h ! par)" using D c by simp
    also have "\<dots> \<le> key ns (h[pos := h ! par] ! c)" using C c by simp
    finally show "key ns (h[pos := h ! par] ! get_parent_pos par) \<le> key ns (h[pos := h ! par] ! c)"
      using pl parent_le [of par] by (simp add: nth_list_update)
  qed
qed

lemma rotate_up_correct:
  assumes "indexed ns h ix ({..<n} - {pos})" "pos < n" "n \<le> length h"
    and "has_slot ns ix m" "slot ns m \<notin> slot ns ` (!) h ` ({..<n} - {pos})"
    and "order_hole ns h n pos" "par = get_parent_pos pos"
    and "\<And>c. c < n \<Longrightarrow> 0 < c \<Longrightarrow> get_parent_pos c = pos \<Longrightarrow> key ns m \<le> key ns (h ! c)"
  shows "\<exists>h' ix'. rotate_up ns h ix m pos par = Inr (h', ix') \<and>
    rotated ns h ix n (insert m ((!) h ` ({..<n} - {pos}))) h' ix'"
  using assms
proof (induction ns h ix m pos par rule: rotate_up.induct)
  case (1 ns h ix m pos par)
  show ?case
  proof (cases "0 < pos \<and> key ns m < key ns (h ! par)")
    case False
    then have "rotate_up ns h ix m pos par = place ns h ix m pos \<or>
        0 < pos \<and> key ns (h ! par) \<le> key ns m"
      by (auto simp: rotate_up.simps [of ns h ix m pos par])
    moreover have "rotate_up ns h ix m pos par = place ns h ix m pos"
      if "0 < pos" "key ns (h ! par) \<le> key ns m"
    proof -
      have "par \<in> {..<n} - {pos}" using that "1.prems" parent_less [of pos] by auto
      then have "h ! par \<in> dom ns" "par < length h"
        using "1.prems"(1) indexed_dom by (auto simp: indexed_def)
      then show ?thesis
        using that "1.prems"(4)
        by (simp add: rotate_up.simps [of ns h ix m pos par] deref_Some has_slot_def key_def)
    qed
    ultimately have "rotate_up ns h ix m pos par = place ns h ix m pos" by blast
    moreover have "0 < pos \<Longrightarrow> key ns (h ! get_parent_pos pos) \<le> key ns m"
      using False "1.prems"(7) by auto
    ultimately show ?thesis using place_rotated [OF "1.prems"(1-6)] "1.prems"(8) by simp
  next
    case True
    then have pos: "0 < pos" and less: "key ns m < key ns (h ! par)" by auto
    have parn: "par < n" "par \<noteq> pos" using pos "1.prems"(2,7) parent_less [of pos] by auto
    let ?pa = "h ! par"
    let ?h = "h[pos := ?pa]" and ?ix = "ix[nat (slot ns ?pa) := int pos]"
    have pa: "has_slot ns ix ?pa" using "1.prems"(1) parn by (auto simp: indexed_def)
    have step: "rotate_up ns h ix m pos par = rotate_up ns ?h ?ix m par (get_parent_pos par)"
      using pos less "1.prems"(2-4) parn pa
      by (simp add: rotate_up.simps [of ns h ix m pos par] deref_Some has_slot_def key_def slot_def not_le)
    note mv = move_indexed [OF "1.prems"(1) parn "1.prems"(2,3)]
    note up = order_hole_up [OF "1.prems"(6,2,3) pos "1.prems"(7)]
    have "\<exists>h' ix'. rotate_up ns ?h ?ix m par (get_parent_pos par) = Inr (h', ix') \<and>
      rotated ns ?h ?ix n (insert m ((!) ?h ` ({..<n} - {par}))) h' ix'"
    proof (rule "1.IH" [OF pos])
      show "deref ns m = Inr (the (ns m))" using "1.prems"(4) by (simp add: deref_Some has_slot_def)
      show "rd h (int par) = Inr ?pa" using parn "1.prems"(3) by simp
      show "deref ns ?pa = Inr (the (ns ?pa))" using pa by (simp add: deref_Some has_slot_def)
      show "\<not> timerval_gte (expire_time (the (ns m))) (expire_time (the (ns ?pa)))"
        using less by (simp add: key_def)
      show "wr h (int pos) ?pa = Inr ?h" using "1.prems"(2,3) by simp
      show "wr ix (id_index (timer_id (the (ns ?pa)))) (int pos) = Inr ?ix"
        using pa by (simp add: has_slot_def slot_def)
      show "has_slot ns ?ix m" using "1.prems"(4) by (simp add: has_slot_def)
      show "slot ns m \<notin> slot ns ` (!) ?h ` ({..<n} - {par})" using mv(2) "1.prems"(5) by simp
      show "key ns m \<le> key ns (?h ! c)" if "c < n" "0 < c" "get_parent_pos c = par" for c
        using up(2) [OF that] less by simp
    qed (use mv up parn "1.prems" in simp_all)
    then obtain h' ix' where r: "rotate_up ns ?h ?ix m par (get_parent_pos par) = Inr (h', ix')"
      and rot: "rotated ns ?h ?ix n (insert m ((!) h ` ({..<n} - {pos}))) h' ix'"
      using mv(2) by auto
    have "rotated ns h ix n (insert m ((!) h ` ({..<n} - {pos}))) h' ix'"
      by (rule rotated_update [OF rot]) (use pa parn in auto)
    then show ?thesis using step r by auto
  qed
qed

section \<open>RotateDown\<close>

lemma min_child_correct:
  assumes ind: "indexed ns h ix ({..<n} - {pos})" and c: "c = get_left_child_pos pos" "c < n"
  obtains c' where "min_child ns h n c = Inr c'" "c' < n" "get_parent_pos c' = pos" "pos < c'"
    "\<And>d. d < n \<Longrightarrow> 0 < d \<Longrightarrow> get_parent_pos d = pos \<Longrightarrow> key ns (h ! c') \<le> key ns (h ! d)"
proof -
  have ok: "h ! i \<in> dom ns \<and> i < length h" if "i < n" "i \<noteq> pos" for i
    using ind that by (auto simp: indexed_def has_slot_def)
  have cs: "d = c \<or> d = c + 1" if "0 < d" "get_parent_pos d = pos" for d
    using that parent_eq_iff [of d pos] c by (auto simp: get_left_child_pos_def)
  have l: "h ! c \<in> dom ns" "c < length h" "pos < c"
    using ok [of c] c by (auto simp: get_left_child_pos_def)
  show thesis
  proof (cases "c + 1 < n")
    case False
    then have "min_child ns h n c = Inr c" by (simp add: min_child_def)
    moreover have "key ns (h ! c) \<le> key ns (h ! d)"
      if "d < n" "0 < d" "get_parent_pos d = pos" for d using cs [of d] that False by auto
    ultimately show ?thesis using that [of c] c l by simp
  next
    case True
    then have r: "h ! (c + 1) \<in> dom ns" "c + 1 < length h"
      using ok [of "c + 1"] c by (auto simp: get_left_child_pos_def)
    have rd_r: "rd h (1 + int c) = Inr (h ! (c + 1))" using r rd_int [of "c + 1" h] by simp
    let ?c' = "if key ns (h ! (c + 1)) \<le> key ns (h ! c) then c + 1 else c"
    have "min_child ns h n c = Inr ?c'"
      using True l r rd_r by (simp add: min_child_def deref_Some key_def)
    moreover have "get_parent_pos ?c' = pos" using c by (auto simp: get_parent_pos_def get_left_child_pos_def)
    moreover have "key ns (h ! ?c') \<le> key ns (h ! d)"
      if "d < n" "0 < d" "get_parent_pos d = pos" for d using cs [OF that(2,3)] by auto
    ultimately show ?thesis using that [of ?c'] True c l by auto
  qed
qed

lemma order_hole_down:
  assumes ord: "order_hole ns h n pos" and n: "pos < n" "n \<le> length h"
    and c: "c < n" "get_parent_pos c = pos" "pos < c"
    and min: "\<And>d. d < n \<Longrightarrow> 0 < d \<Longrightarrow> get_parent_pos d = pos \<Longrightarrow> key ns (h ! c) \<le> key ns (h ! d)"
  shows "order_hole ns (h[pos := h ! c]) n c"
proof -
  have A: "key ns (h ! get_parent_pos i) \<le> key ns (h ! i)"
    if "i < n" "0 < i" "i \<noteq> pos" "get_parent_pos i \<noteq> pos" for i
    using ord that by (simp add: order_hole_def)
  have B: "key ns (h ! get_parent_pos pos) \<le> key ns (h ! c)" if "0 < pos"
    using ord that c by (simp add: order_hole_def)
  show ?thesis
    unfolding order_hole_def
  proof (intro conjI allI impI)
    fix i assume i: "i < n" "0 < i" "i \<noteq> c" "get_parent_pos i \<noteq> c"
    consider "i = pos" | "i \<noteq> pos" "get_parent_pos i = pos" | "i \<noteq> pos" "get_parent_pos i \<noteq> pos"
      by blast
    then show "key ns (h[pos := h ! c] ! get_parent_pos i) \<le> key ns (h[pos := h ! c] ! i)"
    proof cases
      case 1
      then show ?thesis using B i n parent_less [of pos] by simp
    next
      case 2
      then show ?thesis using min [of i] i n by simp
    next
      case 3
      then show ?thesis using A [of i] i by simp
    qed
  next
    fix d assume d: "d < n" "0 < d" "0 < c" "get_parent_pos d = c"
    have "d \<noteq> pos" using d c parent_less [of d] by auto
    then have "key ns (h ! c) \<le> key ns (h ! d)" using A [of d] d c by auto
    then show "key ns (h[pos := h ! c] ! get_parent_pos c) \<le> key ns (h[pos := h ! c] ! d)"
      using \<open>d \<noteq> pos\<close> c n by simp
  qed
qed

lemma rotate_down_correct:
  assumes "indexed ns h ix ({..<n} - {pos})" "pos < n" "n \<le> length h"
    and "has_slot ns ix m" "slot ns m \<notin> slot ns ` (!) h ` ({..<n} - {pos})"
    and "order_hole ns h n pos" "child = get_left_child_pos pos"
    and "0 < pos \<Longrightarrow> key ns (h ! get_parent_pos pos) \<le> key ns m"
  shows "\<exists>h' ix'. rotate_down ns n h ix m pos child = Inr (h', ix') \<and>
    rotated ns h ix n (insert m ((!) h ` ({..<n} - {pos}))) h' ix'"
  using assms
proof (induction ns n h ix m pos child rule: rotate_down.induct)
  case (1 ns n h ix m pos child)
  have mdom: "deref ns m = Inr (the (ns m))" using "1.prems"(4) by (simp add: deref_Some has_slot_def)
  show ?case
  proof (cases "child < n")
    case False
    then have "rotate_down ns n h ix m pos child = place ns h ix m pos"
      by (simp add: rotate_down.simps [of ns n h ix m pos child])
    moreover have "key ns m \<le> key ns (h ! c)" if "c < n" "0 < c" "get_parent_pos c = pos" for c
      using that False parent_eq_iff [of c pos] "1.prems"(7) by (auto simp: get_left_child_pos_def)
    ultimately show ?thesis using place_rotated [OF "1.prems"(1-6,8)] by simp
  next
    case True
    obtain c where c: "min_child ns h n child = Inr c" "c < n" "get_parent_pos c = pos" "pos < c"
      and min: "\<And>d. d < n \<Longrightarrow> 0 < d \<Longrightarrow> get_parent_pos d = pos \<Longrightarrow> key ns (h ! c) \<le> key ns (h ! d)"
      using min_child_correct [OF "1.prems"(1,7) True] by metis
    let ?ca = "h ! c"
    let ?h = "h[pos := ?ca]" and ?ix = "ix[nat (slot ns ?ca) := int pos]"
    have ca: "has_slot ns ix ?ca" using "1.prems"(1) c by (auto simp: indexed_def)
    have cdom: "deref ns ?ca = Inr (the (ns ?ca))" using ca by (simp add: deref_Some has_slot_def)
    have crd: "rd h (int c) = Inr ?ca" using c "1.prems"(3) by simp
    show ?thesis
    proof (cases "key ns ?ca \<le> key ns m")
      case False
      then have "rotate_down ns n h ix m pos child = place ns h ix m pos"
        using True c mdom cdom crd
        by (simp add: rotate_down.simps [of ns n h ix m pos child] key_def)
      moreover have "key ns m \<le> key ns (h ! d)" if "d < n" "0 < d" "get_parent_pos d = pos" for d
        using min [OF that] False by simp
      ultimately show ?thesis using place_rotated [OF "1.prems"(1-6,8)] by simp
    next
      case le: True
      have step: "rotate_down ns n h ix m pos child =
          rotate_down ns n ?h ?ix m c (get_left_child_pos c)"
        using True c mdom cdom crd le "1.prems"(2,3) ca
        by (simp add: rotate_down.simps [of ns n h ix m pos child] key_def has_slot_def slot_def)
      have cpos: "c \<noteq> pos" using c by simp
      note mv = move_indexed [OF "1.prems"(1) c(2) cpos "1.prems"(2,3)]
      have "\<exists>h' ix'. rotate_down ns n ?h ?ix m c (get_left_child_pos c) = Inr (h', ix') \<and>
        rotated ns ?h ?ix n (insert m ((!) ?h ` ({..<n} - {c}))) h' ix'"
      proof (rule "1.IH" [OF True c(1) mdom crd cdom])
        show "timerval_gte (expire_time (the (ns m))) (expire_time (the (ns ?ca)))"
          using le by (simp add: key_def)
        show "wr h (int pos) ?ca = Inr ?h" using "1.prems"(2,3) by simp
        show "wr ix (id_index (timer_id (the (ns ?ca)))) (int pos) = Inr ?ix"
          using ca by (simp add: has_slot_def slot_def)
        show "has_slot ns ?ix m" using "1.prems"(4) by (simp add: has_slot_def)
        show "slot ns m \<notin> slot ns ` (!) ?h ` ({..<n} - {c})" using mv(2) "1.prems"(5) by simp
        show "order_hole ns ?h n c" by (rule order_hole_down [OF "1.prems"(6,2,3) c(2-4) min])
        show "key ns (?h ! get_parent_pos c) \<le> key ns m" using c le "1.prems"(2,3) by simp
      qed (use mv c "1.prems" in simp_all)
      then obtain h' ix' where r: "rotate_down ns n ?h ?ix m c (get_left_child_pos c) = Inr (h', ix')"
        and rot: "rotated ns ?h ?ix n (insert m ((!) h ` ({..<n} - {pos}))) h' ix'"
        using mv(2) by auto
      have "rotated ns h ix n (insert m ((!) h ` ({..<n} - {pos}))) h' ix'"
        by (rule rotated_update [OF rot]) (use ca c in auto)
      then show ?thesis using step r by auto
    qed
  qed
qed

end
