(* ===== verification/Heap_Timer_Inv.thy ===== *)
theory Heap_Timer_Inv
  imports Heap_Rotate
begin

text \<open>
  The representation invariant of the timer heap, the constructor, which establishes it, and
  the steps of \<open>RegisterTimer\<close>: taking a free index and linking a fresh node.
\<close>

section \<open>Timer ids\<close>

lemma mk_timer_id_arith:
  assumes "0 \<le> r" "r < 4294967296"
  shows "mk_timer_id k r = k * 4294967296 + r"
proof -
  have "take_bit 32 r = r" using assms by (simp add: take_bit_int_eq_self)
  then have r: "\<not> bit r n" if "32 \<le> n" for n
    using that by (metis bit_take_bit_iff not_le)
  have "push_bit 32 k + r = push_bit 32 k OR r"
    by (rule disjunctive_add_eq_or) (auto intro!: bit_eqI simp: bit_simps dest: r)
  then show ?thesis by (simp add: mk_timer_id_def push_bit_eq_mult)
qed

lemma id_index_mk [simp]:
  assumes "0 \<le> k" "k < 2147483648" "0 \<le> r" "r < 2147483648"
  shows "id_index (mk_timer_id k r) = k"
  using assms by (simp add: id_index_def mk_timer_id_arith drop_bit_eq_div i32_id)

lemma id_rand_mk [simp]:
  assumes "0 \<le> k" "k < 2147483648" "0 \<le> r" "r < 2147483648"
  shows "id_rand (mk_timer_id k r) = r"
proof -
  have "(0xffffffff :: int) = mask 32" by (simp add: mask_eq_exp_minus_1)
  then have "mk_timer_id k r AND 0xffffffff = take_bit 32 (mk_timer_id k r)"
    by (simp add: take_bit_eq_mask)
  also have "\<dots> = r" using assms by (simp add: mk_timer_id_arith take_bit_eq_mod)
  finally show ?thesis using assms by (simp add: id_rand_def i32_id)
qed

lemma mk_timer_id_pos: "0 < k \<Longrightarrow> 0 \<le> r \<Longrightarrow> r < 2147483648 \<Longrightarrow> 0 < mk_timer_id k r"
  by (simp add: mk_timer_id_arith)

section \<open>The invariant\<close>

definition live :: "heap_timer \<Rightarrow> nat set" where
  "live ht = (!) (heap ht) ` {..<cur_size ht}"

definition node_ok :: "int list \<Rightarrow> timer_node \<Rightarrow> bool" where
  "node_ok rs n \<longleftrightarrow>
     (\<exists>k. 0 < k \<and> k < 2147483648 \<and> timer_id n = mk_timer_id k (rs ! nat k) \<and>
          0 < rs ! nat k \<and> rs ! nat k < 2147483648) \<and>
     tv_canonical (expire_time n) \<and> tv_canonical (interval_time n)"

definition ht_inv :: "heap_timer \<Rightarrow> bool" where
  "ht_inv ht \<longleftrightarrow>
     length (heap ht) = heap_size ht \<and> length (timer_node_index_array ht) = heap_size ht \<and>
     length (rand_array ht) = heap_size ht \<and>
     cur_size ht + 2 \<le> heap_size ht \<and> heap_size ht < 2147483648 \<and>
     indexed (nodes ht) (heap ht) (timer_node_index_array ht) {..<cur_size ht} \<and>
     ordered (nodes ht) (heap ht) (cur_size ht) \<and>
     dom (nodes ht) = live ht \<and> (\<forall>a\<in>live ht. 0 < a \<and> a < next_node ht) \<and> 0 < next_node ht \<and>
     (\<forall>a\<in>live ht. node_ok (rand_array ht) (the (nodes ht a))) \<and>
     free_list (timer_node_index_array ht) (free_timer_node_index ht) (int (heap_size ht))
       ({0<..<int (heap_size ht)} - slot (nodes ht) ` live ht) \<and>
     timer_node_index_array ht ! 0 < 0 \<and> seed_ok (rand_maker ht)"

lemma node_ok_slot:
  assumes "node_ok rs (the (ns a))"
  shows "0 < slot ns a" "slot ns a < 2147483648"
    "timer_id (the (ns a)) = mk_timer_id (slot ns a) (rs ! nat (slot ns a))"
    "0 < rs ! nat (slot ns a)" "rs ! nat (slot ns a) < 2147483648"
    "id_rand (timer_id (the (ns a))) = rs ! nat (slot ns a)"
proof -
  from assms obtain k where k: "0 < k" "k < 2147483648"
    "timer_id (the (ns a)) = mk_timer_id k (rs ! nat k)" "0 < rs ! nat k" "rs ! nat k < 2147483648"
    by (auto simp: node_ok_def)
  then have "slot ns a = k" by (simp add: slot_def)
  then show "0 < slot ns a" "slot ns a < 2147483648"
    "timer_id (the (ns a)) = mk_timer_id (slot ns a) (rs ! nat (slot ns a))"
    "0 < rs ! nat (slot ns a)" "rs ! nat (slot ns a) < 2147483648"
    "id_rand (timer_id (the (ns a))) = rs ! nat (slot ns a)"
    using k by simp_all
qed

text \<open>What a rotation leaves of the free list, and what depends on the nodes in use only.\<close>

lemma free_list_frame:
  assumes "free_list ix h e F" "length ix' = length ix" "\<forall>k\<in>F. ix' ! nat k = ix ! nat k"
  shows "free_list ix' h e F"
proof -
  have "chain ix' h ks e" if "chain ix h ks e" "\<forall>k\<in>set ks. ix' ! nat k = ix ! nat k" for ks
    using that assms(2) by (induction ix h ks e rule: chain.induct) auto
  then show ?thesis using assms unfolding free_list_def by metis
qed

lemma indexed_cong:
  "(\<And>i. i \<in> P \<Longrightarrow> ns' (h ! i) = ns (h ! i)) \<Longrightarrow> indexed ns' h ix P \<longleftrightarrow> indexed ns h ix P"
  by (auto simp: indexed_def has_slot_def slot_def domIff)

lemma indexed_hole_cong:
  "(\<And>i. i \<in> P \<Longrightarrow> h' ! i = h ! i) \<Longrightarrow> length h' = length h \<Longrightarrow>
   indexed ns h' ix P \<longleftrightarrow> indexed ns h ix P"
  by (auto simp: indexed_def)

lemma indexed_update_other:
  assumes "indexed ns h ix P" "\<And>i. i \<in> P \<Longrightarrow> slot ns (h ! i) \<noteq> k" "0 \<le> k"
  shows "indexed ns h (ix[nat k := v]) P"
  using assms unfolding indexed_def has_slot_def
  by (auto simp: nth_list_update nat_eq_iff2)

lemma order_hole_cong:
  assumes ord: "order_hole ns h n pos" and eq: "\<And>i. i < n \<Longrightarrow> i \<noteq> pos \<Longrightarrow> h' ! i = h ! i"
  shows "order_hole ns h' n pos"
  unfolding order_hole_def
proof (intro conjI allI impI)
  fix i assume i: "i < n" "0 < i" "i \<noteq> pos" "get_parent_pos i \<noteq> pos"
  then have "h' ! get_parent_pos i = h ! get_parent_pos i" "h' ! i = h ! i"
    using eq parent_less [of i] by auto
  then show "key ns (h' ! get_parent_pos i) \<le> key ns (h' ! i)"
    using ord i by (simp add: order_hole_def)
next
  fix c assume c: "c < n" "0 < c" "0 < pos" "get_parent_pos c = pos"
  then have "h' ! get_parent_pos pos = h ! get_parent_pos pos" "h' ! c = h ! c"
    using eq parent_less [of pos] parent_less [of c] by auto
  then show "key ns (h' ! get_parent_pos pos) \<le> key ns (h' ! c)"
    using ord c by (simp add: order_hole_def)
qed

lemma ordered_order_hole:
  assumes "ordered ns h n" "m \<le> n" "pos < n"
  shows "order_hole ns h m pos"
proof -
  have A: "key ns (h ! get_parent_pos i) \<le> key ns (h ! i)" if "i < n" "0 < i" for i
    using assms that by (simp add: ordered_def)
  show ?thesis
    unfolding order_hole_def
  proof (intro conjI allI impI)
    fix i assume "i < m" "0 < i"
    then show "key ns (h ! get_parent_pos i) \<le> key ns (h ! i)" using A assms by simp
  next
    fix c assume "c < m" "0 < c" "0 < pos" "get_parent_pos c = pos"
    then have "key ns (h ! get_parent_pos pos) \<le> key ns (h ! pos)" "key ns (h ! pos) \<le> key ns (h ! c)"
      using A [of pos] A [of c] assms by auto
    then show "key ns (h ! get_parent_pos pos) \<le> key ns (h ! c)" by simp
  qed
qed

lemma key_cong: "ns' a = ns a \<Longrightarrow> key ns' a = key ns a"
  by (simp add: key_def)

lemma slot_cong: "ns' a = ns a \<Longrightarrow> slot ns' a = slot ns a"
  by (simp add: slot_def)

lemma ordered_cong:
  assumes ord: "ordered ns h n" and eq: "\<And>i. i < n \<Longrightarrow> ns' (h ! i) = ns (h ! i)"
  shows "ordered ns' h n"
  unfolding ordered_def
proof (intro allI impI)
  fix i assume i: "i < n" "0 < i"
  then have "ns' (h ! get_parent_pos i) = ns (h ! get_parent_pos i)" "ns' (h ! i) = ns (h ! i)"
    using eq parent_less [of i] by auto
  then show "key ns' (h ! get_parent_pos i) \<le> key ns' (h ! i)"
    using ord i by (simp add: ordered_def key_def)
qed

lemma ordered_arr_cong:
  assumes ord: "ordered ns h n" and eq: "\<And>i. i < n \<Longrightarrow> h' ! i = h ! i"
  shows "ordered ns h' n"
  unfolding ordered_def
proof (intro allI impI)
  fix i assume i: "i < n" "0 < i"
  then have "h' ! get_parent_pos i = h ! get_parent_pos i" "h' ! i = h ! i"
    using eq parent_less [of i] by auto
  then show "key ns (h' ! get_parent_pos i) \<le> key ns (h' ! i)"
    using ord i by (simp add: ordered_def)
qed

lemma order_hole_last:
  assumes "ordered ns h n"
  shows "order_hole ns h (n + 1) n"
  unfolding order_hole_def
proof (intro conjI allI impI)
  fix i assume "i < n + 1" "0 < i" "i \<noteq> n" "get_parent_pos i \<noteq> n"
  then show "key ns (h ! get_parent_pos i) \<le> key ns (h ! i)" using assms by (simp add: ordered_def)
next
  fix c assume "c < n + 1" "0 < c" "0 < n" "get_parent_pos c = n"
  then show "key ns (h ! get_parent_pos n) \<le> key ns (h ! c)" using parent_less [of c] by simp
qed

lemma indexed_inj_on:
  assumes "indexed ns h ix P"
  shows "inj_on ((!) h) P" "inj_on (slot ns) ((!) h ` P)"
  using indexed_inj [OF assms] by (auto intro!: inj_onI) 

section \<open>Construction\<close>

lemma ht_inv_new:
  assumes "1 \<le> n" "n + 1 < 2147483648" "seed_ok (i32 now)"
  shows "ht_inv (heap_timer_new n now)"
proof -
  have "free_list (map (\<lambda>i. - int (i + 1)) [0..<n + 1]) 1 (int (n + 1)) {0<..<int (n + 1)}"
    by (rule free_list_init) (use assms in simp_all)
  moreover have "map (\<lambda>i. - int (i + 1)) [0..<n + 1] ! 0 < 0" by (simp del: upt_Suc)
  ultimately show ?thesis
    using assms
    unfolding ht_inv_def heap_timer_new_def live_def
    by (simp add: indexed_def ordered_def random_new_def del: upt_Suc of_nat_Suc of_nat_add)
qed

section \<open>RegisterTimer\<close>

lemma node_ok_frame:
  "node_ok rs (the (ns a)) \<Longrightarrow> rs' ! nat (slot ns a) = rs ! nat (slot ns a) \<Longrightarrow> node_ok rs' (the (ns a))"
  using node_ok_slot [of rs ns a] unfolding node_ok_def by auto

lemma live_slot_range:
  assumes "ht_inv ht" "a \<in> live ht"
  shows "0 < slot (nodes ht) a" "slot (nodes ht) a < int (heap_size ht)"
proof -
  from assms obtain i where i: "i < cur_size ht" "a = heap ht ! i" by (auto simp: live_def)
  from assms i show "slot (nodes ht) a < int (heap_size ht)"
    by (auto simp: ht_inv_def indexed_def has_slot_def)
  from assms show "0 < slot (nodes ht) a" by (auto simp: ht_inv_def intro: node_ok_slot)
qed

lemma free_slot_exists:
  assumes "ht_inv ht"
  shows "{0<..<int (heap_size ht)} - slot (nodes ht) ` live ht \<noteq> {}"
proof
  assume "{0<..<int (heap_size ht)} - slot (nodes ht) ` live ht = {}"
  then have "{0<..<int (heap_size ht)} \<subseteq> slot (nodes ht) ` live ht" by blast
  moreover have "finite (slot (nodes ht) ` live ht)" by (simp add: live_def)
  ultimately have "card {0<..<int (heap_size ht)} \<le> card (slot (nodes ht) ` live ht)"
    by (rule card_mono [rotated])
  also have "\<dots> \<le> card (live ht)" by (rule card_image_le) (simp add: live_def)
  also have "\<dots> \<le> cur_size ht" unfolding live_def using card_image_le [of "{..<cur_size ht}"] by force
  finally have "nat (int (heap_size ht) - 1) \<le> cur_size ht" by simp
  moreover have "cur_size ht + 2 \<le> heap_size ht" using assms by (simp add: ht_inv_def)
  ultimately show False by linarith
qed

text \<open>What taking an index and a random number from the heap does.\<close>

lemma pop_free_timer_id_correct:
  assumes inv: "ht_inv ht"
  defines "k \<equiv> free_timer_node_index ht" and "r \<equiv> get_rand (rand_maker ht)"
  shows "pop_free_timer_id ht = Inr (mk_timer_id k r,
      ht\<lparr>free_timer_node_index := - (timer_node_index_array ht ! nat k), rand_maker := r,
        rand_array := (rand_array ht)[nat k := r]\<rparr>)"
    and "0 < k" "k < int (heap_size ht)" "k \<notin> slot (nodes ht) ` live ht"
    and "0 < r" "r < 2147483647"
    and "free_list (timer_node_index_array ht) (- (timer_node_index_array ht ! nat k))
      (int (heap_size ht)) ({0<..<int (heap_size ht)} - insert k (slot (nodes ht) ` live ht))"
proof -
  let ?F = "{0<..<int (heap_size ht)} - slot (nodes ht) ` live ht"
  have fl: "free_list (timer_node_index_array ht) k (int (heap_size ht)) ?F"
    using inv by (simp add: ht_inv_def k_def)
  note pop = free_list_pop [OF fl free_slot_exists [OF inv]]
  show k: "0 < k" "k < int (heap_size ht)" "k \<notin> slot (nodes ht) ` live ht" using pop(1) by auto
  have "seed_ok r" using inv get_rand_seed_ok by (simp add: ht_inv_def r_def)
  then show "0 < r" "r < 2147483647" by (simp_all add: seed_ok_def rand_consts)
  have "?F - {k} = {0<..<int (heap_size ht)} - insert k (slot (nodes ht) ` live ht)" by auto
  with pop(2) show "free_list (timer_node_index_array ht) (- (timer_node_index_array ht ! nat k))
      (int (heap_size ht)) ({0<..<int (heap_size ht)} - insert k (slot (nodes ht) ` live ht))" by simp
  show "pop_free_timer_id ht = Inr (mk_timer_id k r,
      ht\<lparr>free_timer_node_index := - (timer_node_index_array ht ! nat k), rand_maker := r,
        rand_array := (rand_array ht)[nat k := r]\<rparr>)"
    using inv k by (simp add: pop_free_timer_id_def Let_def k_def [symmetric] r_def [symmetric] ht_inv_def)
qed

text \<open>
  Linking the fresh node \<open>n\<close> with slot \<open>k\<close> into a heap whose arrays have been extended to
  size \<open>m\<close> (the old size when the heap need not grow).
\<close>

abbreviation link_ns :: "heap_timer \<Rightarrow> timer_node \<Rightarrow> nat \<rightharpoonup> timer_node" where
  "link_ns ht n \<equiv> (nodes ht)(next_node ht \<mapsto> n)"

abbreviation link_heap :: "heap_timer \<Rightarrow> nat \<Rightarrow> nat list" where
  "link_heap ht m \<equiv> heap ht @ replicate (m - heap_size ht) 0"

abbreviation link_ix :: "heap_timer \<Rightarrow> nat \<Rightarrow> int list" where
  "link_ix ht m \<equiv> timer_node_index_array ht @ map (\<lambda>i. - int (i + 1)) [heap_size ht..<m]"

abbreviation link_rs :: "heap_timer \<Rightarrow> nat \<Rightarrow> int \<Rightarrow> int \<Rightarrow> int list" where
  "link_rs ht m k r \<equiv> (rand_array ht)[nat k := r] @ replicate (m - heap_size ht) 0"

definition linkable :: "heap_timer \<Rightarrow> nat \<Rightarrow> int \<Rightarrow> int \<Rightarrow> timer_node \<Rightarrow> int \<Rightarrow> bool" where
  "linkable ht m k r n fr \<longleftrightarrow>
     ht_inv ht \<and> heap_size ht \<le> m \<and> cur_size ht + 3 \<le> m \<and> m < 2147483648 \<and>
     0 < k \<and> k < int (heap_size ht) \<and> k \<notin> slot (nodes ht) ` live ht \<and>
     free_list (timer_node_index_array ht) fr (int (heap_size ht))
        ({0<..<int (heap_size ht)} - insert k (slot (nodes ht) ` live ht)) \<and>
     seed_ok r \<and> timer_id n = mk_timer_id k r \<and>
     tv_canonical (expire_time n) \<and> tv_canonical (interval_time n)"

lemma linkable_nodes:
  assumes "linkable ht m k r n fr"
  shows "next_node ht \<notin> live ht"
    and "b \<in> live ht \<Longrightarrow> link_ns ht n b = nodes ht b"
    and "b \<in> live ht \<Longrightarrow> slot (link_ns ht n) b = slot (nodes ht) b"
    and "slot (link_ns ht n) (next_node ht) = k"
    and "slot (link_ns ht n) ` insert (next_node ht) (live ht) = insert k (slot (nodes ht) ` live ht)"
proof -
  show fresh: "next_node ht \<notin> live ht" using assms by (auto simp: linkable_def ht_inv_def)
  then show old: "link_ns ht n b = nodes ht b" if "b \<in> live ht" for b using that by auto
  then show slots: "slot (link_ns ht n) b = slot (nodes ht) b" if "b \<in> live ht" for b
    using that by (simp add: slot_def)
  have "0 \<le> k" "k < 2147483648" "0 \<le> r" "r < 2147483648"
    using assms by (auto simp: linkable_def ht_inv_def seed_ok_def rand_consts)
  then show "slot (link_ns ht n) (next_node ht) = k" using assms by (simp add: slot_def linkable_def)
  then show "slot (link_ns ht n) ` insert (next_node ht) (live ht) = insert k (slot (nodes ht) ` live ht)"
    using slots by auto
qed

lemma link_indexed:
  assumes lk: "linkable ht m k r n fr"
  shows "indexed (link_ns ht n) (link_heap ht m) (link_ix ht m) {..<cur_size ht}"
    and "ordered (link_ns ht n) (link_heap ht m) (cur_size ht)"
    and "(!) (link_heap ht m) ` {..<cur_size ht} = live ht"
proof -
  have inv: "ht_inv ht" and m: "heap_size ht \<le> m" using lk by (simp_all add: linkable_def)
  have heap_old: "link_heap ht m ! i = heap ht ! i" if "i < cur_size ht" for i
    using that inv by (simp add: ht_inv_def nth_append)
  have old: "link_ns ht n (heap ht ! i) = nodes ht (heap ht ! i)" if "i < cur_size ht" for i
    using linkable_nodes(2) [OF lk, of "heap ht ! i"] that by (simp add: live_def)
  show "(!) (link_heap ht m) ` {..<cur_size ht} = live ht" using heap_old by (auto simp: live_def)
  show "ordered (link_ns ht n) (link_heap ht m) (cur_size ht)"
  proof (rule ordered_arr_cong [OF ordered_cong])
    show "ordered (nodes ht) (heap ht) (cur_size ht)" using inv by (simp add: ht_inv_def)
  qed (use old heap_old in blast)+
  show "indexed (link_ns ht n) (link_heap ht m) (link_ix ht m) {..<cur_size ht}"
    unfolding indexed_def
  proof
    fix i assume i: "i \<in> {..<cur_size ht}"
    then have "has_slot (nodes ht) (timer_node_index_array ht) (heap ht ! i)"
      "timer_node_index_array ht ! nat (slot (nodes ht) (heap ht ! i)) = int i"
      using inv by (auto simp: ht_inv_def indexed_def)
    then show "i < length (link_heap ht m) \<and> has_slot (link_ns ht n) (link_ix ht m) (link_heap ht m ! i) \<and>
        link_ix ht m ! nat (slot (link_ns ht n) (link_heap ht m ! i)) = int i"
      using i inv m old [of i] heap_old [of i]
      by (auto simp: ht_inv_def has_slot_def slot_def nth_append nat_less_iff domIff)
  qed
qed

lemma link_rotate:
  assumes lk: "linkable ht m k r n fr"
  shows "\<exists>h' ix'. rotate_up (link_ns ht n) (link_heap ht m) (link_ix ht m) (next_node ht)
      (cur_size ht) (get_parent_pos (cur_size ht)) = Inr (h', ix') \<and>
    rotated (link_ns ht n) (link_heap ht m) (link_ix ht m) (cur_size ht + 1)
      (insert (next_node ht) (live ht)) h' ix'"
proof -
  let ?c = "cur_size ht"
  have hole: "{..<?c + 1} - {?c} = {..<?c}" by auto
  note li = link_indexed [OF lk] and ln = linkable_nodes [OF lk]
  have L: "length (heap ht) = heap_size ht" "length (timer_node_index_array ht) = heap_size ht"
    "k < int (heap_size ht)" "0 < k" "?c + 3 \<le> m" "heap_size ht \<le> m"
    using lk by (simp_all add: linkable_def ht_inv_def)
  have "\<exists>h' ix'. rotate_up (link_ns ht n) (link_heap ht m) (link_ix ht m) (next_node ht) ?c
      (get_parent_pos ?c) = Inr (h', ix') \<and>
    rotated (link_ns ht n) (link_heap ht m) (link_ix ht m) (?c + 1)
      (insert (next_node ht) ((!) (link_heap ht m) ` ({..<?c + 1} - {?c}))) h' ix'"
  proof (rule rotate_up_correct)
    show "order_hole (link_ns ht n) (link_heap ht m) (?c + 1) ?c" by (rule order_hole_last [OF li(2)])
    show "indexed (link_ns ht n) (link_heap ht m) (link_ix ht m) ({..<?c + 1} - {?c})"
      using li(1) hole by simp
    show "has_slot (link_ns ht n) (link_ix ht m) (next_node ht)" using ln(4) L by (auto simp: has_slot_def)
    show "slot (link_ns ht n) (next_node ht) \<notin>
        slot (link_ns ht n) ` (!) (link_heap ht m) ` ({..<?c + 1} - {?c})"
      using ln(3,4) lk hole li(3) by (auto simp: linkable_def)
    show "key (link_ns ht n) (next_node ht) \<le> key (link_ns ht n) (link_heap ht m ! c)"
      if "c < ?c + 1" "0 < c" "get_parent_pos c = ?c" for c using that parent_less [of c] by simp
  qed (use L in simp_all)
  then show ?thesis using hole li(3) by simp
qed

lemma rotated_frame:
  "rotated ns h ix n S h' ix' \<Longrightarrow> k \<notin> slot ns ` S \<Longrightarrow> 0 \<le> k \<Longrightarrow> k < int (length ix) \<Longrightarrow>
   ix' ! nat k = ix ! nat k"
  unfolding rotated_def by (auto simp: nat_less_iff)

lemma rotated_length:
  "rotated ns h ix n S h' ix' \<Longrightarrow> length h' = length h"
  "rotated ns h ix n S h' ix' \<Longrightarrow> length ix' = length ix"
  unfolding rotated_def by blast+

lemma link_free_list:
  assumes lk: "linkable ht m k r n fr"
    and R: "rotated (link_ns ht n) (link_heap ht m) (link_ix ht m) (cur_size ht + 1)
      (insert (next_node ht) (live ht)) h' ix'"
  shows "free_list ix' fr (int m) ({0<..<int m} - slot (link_ns ht n) ` insert (next_node ht) (live ht))"
    and "ix' ! 0 < 0"
proof -
  let ?hs = "heap_size ht" and ?K = "insert k (slot (nodes ht) ` live ht)"
  have inv: "ht_inv ht" and L: "length (timer_node_index_array ht) = ?hs" "0 < ?hs" "?hs \<le> m"
    and fl: "free_list (timer_node_index_array ht) fr (int ?hs) ({0<..<int ?hs} - ?K)"
    and k: "0 < k" "k < int ?hs"
    using lk by (simp_all add: linkable_def ht_inv_def)
  have rng: "0 < slot (nodes ht) b" "slot (nodes ht) b < int ?hs" if "b \<in> live ht" for b
    using live_slot_range [OF inv that] by simp_all
  have eq: "slot (link_ns ht n) ` insert (next_node ht) (live ht) = ?K" by (rule linkable_nodes(5) [OF lk])
  have "({0<..<int ?hs} - ?K) \<union> {int ?hs..<int m} = {0<..<int m} - ?K" using L k rng by fastforce
  then have fl': "free_list (link_ix ht m) fr (int m) ({0<..<int m} - ?K)"
    using free_list_extend [OF fl L(3,2,1) _ refl] by auto
  have frame: "\<forall>j\<in>{0<..<int m} - ?K. ix' ! nat j = link_ix ht m ! nat j"
  proof
    fix j assume "j \<in> {0<..<int m} - ?K"
    then show "ix' ! nat j = link_ix ht m ! nat j"
      using L by (intro rotated_frame [OF R, unfolded eq]) simp_all
  qed
  show "free_list ix' fr (int m)
      ({0<..<int m} - slot (link_ns ht n) ` insert (next_node ht) (live ht))"
    unfolding eq by (rule free_list_frame [OF fl' rotated_length(2) [OF R] frame])
  have "0 \<notin> ?K" using k rng by fastforce
  then have "ix' ! nat 0 = link_ix ht m ! nat 0"
    using L by (intro rotated_frame [OF R, unfolded eq]) simp_all
  then show "ix' ! 0 < 0" using inv L by (simp add: nth_append ht_inv_def)
qed

lemma link_node_ok:
  assumes lk: "linkable ht m k r n fr" and b: "b \<in> insert (next_node ht) (live ht)"
  shows "node_ok (link_rs ht m k r) (the (link_ns ht n b))"
proof (cases "b = next_node ht")
  case True
  then show ?thesis
    using lk by (auto simp: node_ok_def linkable_def ht_inv_def nth_append seed_ok_def rand_consts
        intro!: exI [of _ k])
next
  case False
  then have b: "b \<in> live ht" using b by simp
  have inv: "ht_inv ht" using lk by (simp add: linkable_def)
  have "node_ok (rand_array ht) (the (link_ns ht n b))" using inv b False by (simp add: ht_inv_def)
  moreover have "slot (nodes ht) b \<noteq> k" using b lk by (auto simp: linkable_def)
  then have "link_rs ht m k r ! nat (slot (link_ns ht n) b) = rand_array ht ! nat (slot (link_ns ht n) b)"
    using linkable_nodes(3) [OF lk b] live_slot_range [OF inv b] lk
    by (auto simp: linkable_def ht_inv_def nth_append nat_less_iff)
  ultimately show ?thesis by (rule node_ok_frame)
qed

lemma link_node:
  assumes lk: "linkable ht m k r n fr"
  obtains h' ix' where
    "rotate_up (link_ns ht n) (link_heap ht m) (link_ix ht m) (next_node ht)
      (cur_size ht) (get_parent_pos (cur_size ht)) = Inr (h', ix')"
    "ht_inv (ht\<lparr>heap_size := m, heap := h', timer_node_index_array := ix', rand_array := link_rs ht m k r,
      free_timer_node_index := fr, rand_maker := r, nodes := link_ns ht n, next_node := next_node ht + 1,
      cur_size := cur_size ht + 1\<rparr>)"
    "(!) h' ` {..<cur_size ht + 1} = insert (next_node ht) (live ht)"
proof -
  obtain h' ix' where rot: "rotate_up (link_ns ht n) (link_heap ht m) (link_ix ht m) (next_node ht)
      (cur_size ht) (get_parent_pos (cur_size ht)) = Inr (h', ix')"
    and R: "rotated (link_ns ht n) (link_heap ht m) (link_ix ht m) (cur_size ht + 1)
      (insert (next_node ht) (live ht)) h' ix'" using link_rotate [OF lk] by blast
  let ?ht = "ht\<lparr>heap_size := m, heap := h', timer_node_index_array := ix', rand_array := link_rs ht m k r,
      free_timer_node_index := fr, rand_maker := r, nodes := link_ns ht n, next_node := next_node ht + 1,
      cur_size := cur_size ht + 1\<rparr>"
  have img: "(!) h' ` {..<cur_size ht + 1} = insert (next_node ht) (live ht)"
    using R by (simp add: rotated_def)
  then have live: "live ?ht = insert (next_node ht) (live ht)" by (simp add: live_def)
  have "ht_inv ?ht"
    unfolding ht_inv_def live
    using R lk link_free_list [OF lk R] link_node_ok [OF lk]
    by (auto simp: rotated_def linkable_def ht_inv_def)
  with rot img show thesis using that by blast
qed

end
