(* ===== verification/Heap_Timer_Ops.thy ===== *)
theory Heap_Timer_Ops
  imports Heap_Timer_Inv
begin

text \<open>
  The operations of the timer heap keep the invariant and do what their names say. The
  effect of each is stated on the store of nodes: \<open>RegisterTimer\<close> adds one node,
  \<open>UnregisterTimer\<close> and an expiry remove exactly one, a periodic expiry moves one.
\<close>

section \<open>RegisterTimer\<close>

lemma expire_time_at_canonical:
  assumes "tv_canonical a" "tv_canonical b"
  obtains e where "expire_time_at a b = Inr e" "tv_canonical e" "tv_us e = tv_us a + tv_us b"
  using tv_add_canonical [OF assms] by (auto simp: expire_time_at_def tv_set_def tv_add_def)

lemma interval_zero_iff: "tv_sec i = 0 \<and> tv_usec i = 0 \<longleftrightarrow> i = TimeValue 0 0"
  by (cases i) simp

lemma register_timer_correct:
  assumes inv: "ht_inv ht" and room: "heap_size ht < 1073741824"
    and tv: "tv_canonical interval" "tv_canonical delay" "interval \<noteq> TimeValue 0 0"
  obtains tid e ht' where
    "register_timer now interval delay cb data ht = Inr (tid, ht')" "ht_inv ht'"
    "nodes ht' = (nodes ht)(next_node ht \<mapsto> \<lparr>timer_id = tid, expire_time = e,
       interval_time = interval, node_data = data, cb_obj = cb\<rparr>)"
    "next_node ht \<notin> dom (nodes ht)" "0 < tid" "tv_us e = now * 1000000 + tv_us delay"
    "cur_size ht' = cur_size ht + 1" "id_index tid = free_timer_node_index ht"
    "rand_maker ht' = get_rand (rand_maker ht)" "heap_size ht' \<le> 2 * heap_size ht"
proof -
  define k where "k = free_timer_node_index ht"
  define r where "r = get_rand (rand_maker ht)"
  define fr where "fr = - (timer_node_index_array ht ! nat k)"
  note pop = pop_free_timer_id_correct [OF inv, folded k_def r_def, folded fr_def]
  obtain e where e: "expire_time_at (TimeValue now 0) delay = Inr e" "tv_canonical e"
    "tv_us e = tv_us (TimeValue now 0) + tv_us delay"
    by (rule expire_time_at_canonical [OF tv_canonical_secs tv(2)])
  define n where "n = \<lparr>timer_id = mk_timer_id k r, expire_time = e, interval_time = interval,
      node_data = data, cb_obj = cb\<rparr>"
  define m where "m = (if cur_size ht + 2 \<ge> heap_size ht then 2 * heap_size ht else heap_size ht)"
  have sz: "cur_size ht + 2 \<le> heap_size ht" using inv by (simp add: ht_inv_def)
  have m: "heap_size ht \<le> m" "cur_size ht + 3 \<le> m" "m < 2147483648"
    using sz room by (auto simp: m_def)
  have "seed_ok r" using inv get_rand_seed_ok by (simp add: r_def ht_inv_def)
  then have lk: "linkable ht m k r n fr"
    using inv m pop tv e by (simp add: linkable_def n_def)
  obtain h' ix' where rot: "rotate_up (link_ns ht n) (link_heap ht m) (link_ix ht m) (next_node ht)
      (cur_size ht) (get_parent_pos (cur_size ht)) = Inr (h', ix')"
    and inv': "ht_inv (ht\<lparr>heap_size := m, heap := h', timer_node_index_array := ix',
      rand_array := link_rs ht m k r, free_timer_node_index := fr, rand_maker := r,
      nodes := link_ns ht n, next_node := next_node ht + 1, cur_size := cur_size ht + 1\<rparr>)"
      (is "ht_inv ?ht")
    and img: "(!) h' ` {..<cur_size ht + 1} = insert (next_node ht) (live ht)"
    by (rule link_node [OF lk])
  have "register_timer now interval delay cb data ht = Inr (mk_timer_id k r, ?ht)"
    unfolding register_timer_def
    using tv(3) sz e(1) pop(1) rot
    by (auto simp: interval_zero_iff n_def m_def grow_heap_def Let_def tv_set_def)
  moreover have "next_node ht \<notin> dom (nodes ht)" using inv by (auto simp: ht_inv_def)
  moreover have "0 < mk_timer_id k r" using pop by (intro mk_timer_id_pos) auto
  moreover have "id_index (mk_timer_id k r) = k" using pop inv by (simp add: ht_inv_def)
  ultimately show thesis
    using that [of "mk_timer_id k r" ?ht e] inv' e(3)
    by (simp add: n_def k_def r_def tv_us_def m_def)
qed

lemma register_timer_zero_interval:
  "register_timer now (TimeValue 0 0) delay cb data ht = Inr (- 1, ht)"
  by (simp add: register_timer_def)

section \<open>RemoveNode\<close>

lemma live_slot_inj:
  assumes inv: "ht_inv ht" and ab: "a \<in> live ht" "b \<in> live ht" "slot (nodes ht) a = slot (nodes ht) b"
  shows "a = b"
proof -
  have "indexed (nodes ht) (heap ht) (timer_node_index_array ht) {..<cur_size ht}"
    using inv by (simp add: ht_inv_def)
  then have "inj_on (slot (nodes ht)) (live ht)" unfolding live_def by (rule indexed_inj_on(2))
  then show ?thesis using ab by (simp add: inj_on_def)
qed

lemma live_timer_id_inj:
  assumes inv: "ht_inv ht" and ab: "a \<in> live ht" "b \<in> live ht"
    and eq: "timer_id (the (nodes ht a)) = timer_id (the (nodes ht b))"
  shows "a = b"
  by (rule live_slot_inj [OF inv ab]) (use eq in \<open>simp add: slot_def\<close>)

lemma push_free_timer_id_correct:
  assumes inv: "ht_inv ht" and a: "a \<in> live ht"
  defines "k \<equiv> slot (nodes ht) a"
  shows "push_free_timer_id ht (timer_id (the (nodes ht a))) =
    Inr (ht\<lparr>timer_node_index_array := (timer_node_index_array ht)[nat k := - free_timer_node_index ht],
      free_timer_node_index := k, rand_array := (rand_array ht)[nat k := 0]\<rparr>)"
    and "free_list ((timer_node_index_array ht)[nat k := - free_timer_node_index ht]) k
      (int (heap_size ht)) ({0<..<int (heap_size ht)} - slot (nodes ht) ` (live ht - {a}))"
proof -
  have ok: "node_ok (rand_array ht) (the (nodes ht a))" using inv a by (simp add: ht_inv_def)
  note s = node_ok_slot [where rs = "rand_array ht" and ns = "nodes ht" and a = a, OF ok, folded k_def] and rg = live_slot_range [OF inv a, folded k_def]
  have len: "length (timer_node_index_array ht) = heap_size ht" "length (rand_array ht) = heap_size ht"
    using inv by (simp_all add: ht_inv_def)
  have "id_index (timer_id (the (nodes ht a))) = k" by (simp add: k_def slot_def)
  then show "push_free_timer_id ht (timer_id (the (nodes ht a))) =
    Inr (ht\<lparr>timer_node_index_array := (timer_node_index_array ht)[nat k := - free_timer_node_index ht],
      free_timer_node_index := k, rand_array := (rand_array ht)[nat k := 0]\<rparr>)"
    using s(6) rg len by (simp add: push_free_timer_id_def Let_def)
  have inj: "slot (nodes ht) b \<noteq> k" if "b \<in> live ht" "b \<noteq> a" for b
    using live_slot_inj [OF inv that(1) a] that(2) by (auto simp: k_def)
  have "{0<..<int (heap_size ht)} - slot (nodes ht) ` (live ht - {a}) =
      insert k ({0<..<int (heap_size ht)} - slot (nodes ht) ` live ht)"
    using rg inj a k_def by fastforce
  moreover have "free_list (timer_node_index_array ht) (free_timer_node_index ht) (int (heap_size ht))
      ({0<..<int (heap_size ht)} - slot (nodes ht) ` live ht)" using inv by (simp add: ht_inv_def)
  then have "free_list ((timer_node_index_array ht)[nat k := - free_timer_node_index ht]) k
      (int (heap_size ht)) (insert k ({0<..<int (heap_size ht)} - slot (nodes ht) ` live ht))"
    using rg len a by (intro free_list_push) (auto simp: k_def)
  ultimately show "free_list ((timer_node_index_array ht)[nat k := - free_timer_node_index ht]) k
      (int (heap_size ht)) ({0<..<int (heap_size ht)} - slot (nodes ht) ` (live ht - {a}))" by simp
qed

lemma rotated_cong:
  assumes R: "rotated ns h ix n S h' ix'" and eq: "\<And>b. b \<in> S \<Longrightarrow> ns' b = ns b"
  shows "rotated ns' h ix n S h' ix'"
proof -
  have S: "h' ! i \<in> S" if "i < n" for i using R that by (auto simp: rotated_def)
  have "indexed ns' h' ix' {..<n}"
    using R indexed_cong [of "{..<n}" ns' h' ns] eq S by (simp add: rotated_def)
  moreover have "ordered ns' h' n"
    using R ordered_cong [of ns h' n ns'] eq S by (simp add: rotated_def)
  moreover have "slot ns' ` S = slot ns ` S" using eq by (auto simp: slot_def image_iff)
  ultimately show ?thesis using R by (simp add: rotated_def)
qed

abbreviation vac_ix :: "heap_timer \<Rightarrow> nat \<Rightarrow> int list" where
  "vac_ix ht a \<equiv> (timer_node_index_array ht)[nat (slot (nodes ht) a) := - free_timer_node_index ht]"

text \<open>A heap from which the node \<open>a\<close> has gone and whose hole has been filled.\<close>

abbreviation vacate :: "heap_timer \<Rightarrow> nat \<Rightarrow> nat list \<Rightarrow> int list \<Rightarrow> (nat \<rightharpoonup> timer_node) \<Rightarrow> heap_timer" where
  "vacate ht a h ix ns \<equiv> ht\<lparr>heap := h, timer_node_index_array := ix,
     free_timer_node_index := slot (nodes ht) a,
     rand_array := (rand_array ht)[nat (slot (nodes ht) a) := 0], nodes := ns,
     cur_size := cur_size ht - 1\<rparr>"

lemma vacated_inv:
  assumes inv: "ht_inv ht" and a: "a \<in> live ht"
    and R: "rotated ((nodes ht)(a := None)) (heap ht) (vac_ix ht a) (cur_size ht - 1) (live ht - {a}) h' ix'"
  shows "ht_inv (vacate ht a h' ix' ((nodes ht)(a := None)))" (is "ht_inv ?ht")
    and "live (vacate ht a h' ix' ((nodes ht)(a := None))) = live ht - {a}"
proof -
  let ?ns = "(nodes ht)(a := None)" and ?S = "live ht - {a}"
  have slots: "slot ?ns b = slot (nodes ht) b" if "b \<in> ?S" for b using that by (simp add: slot_def)
  then have simg: "slot ?ns ` ?S = slot (nodes ht) ` ?S" by (intro image_cong) auto
  show live: "live ?ht = ?S" using R by (simp add: live_def rotated_def)
  have rng: "0 < slot (nodes ht) b \<and> slot (nodes ht) b < int (heap_size ht)" if "b \<in> live ht" for b
    using live_slot_range [OF inv that] by simp
  have L: "length (timer_node_index_array ht) = heap_size ht" "length (rand_array ht) = heap_size ht"
    using inv by (simp_all add: ht_inv_def)
  have frame: "\<forall>j\<in>{0<..<int (heap_size ht)} - slot ?ns ` ?S. ix' ! nat j = vac_ix ht a ! nat j"
    using rotated_frame [OF R] L by auto
  have fl: "free_list ix' (slot (nodes ht) a) (int (heap_size ht))
      ({0<..<int (heap_size ht)} - slot ?ns ` ?S)"
    by (rule free_list_frame [OF push_free_timer_id_correct(2) [OF inv a, folded simg]
          rotated_length(2) [OF R] frame])
  have "0 \<notin> slot ?ns ` ?S" using rng simg by force
  then have "ix' ! 0 = vac_ix ht a ! 0" using rotated_frame [OF R, of 0] L inv by (simp add: ht_inv_def)
  then have zero: "ix' ! 0 < 0" using rng [OF a] inv by (simp add: ht_inv_def)
  have ok: "node_ok ((rand_array ht)[nat (slot (nodes ht) a) := 0]) (the (?ns b))" if b: "b \<in> ?S" for b
  proof (rule node_ok_frame)
    show "node_ok (rand_array ht) (the (?ns b))" using inv b by (simp add: ht_inv_def)
    have "slot (nodes ht) b \<noteq> slot (nodes ht) a" using live_slot_inj [OF inv _ a] b by auto
    then show "(rand_array ht)[nat (slot (nodes ht) a) := 0] ! nat (slot ?ns b) =
        rand_array ht ! nat (slot ?ns b)" using rng [of b] rng [OF a] b slots [OF b] by (simp add: eq_nat_nat_iff)
  qed
  show "ht_inv ?ht"
    unfolding ht_inv_def live
    using inv R fl zero ok L rotated_length [OF R] by (auto simp: rotated_def ht_inv_def)
qed

text \<open>
  While \<open>RemoveNode\<close> runs, the removed node \<open>a\<close> is still allocated with id \<open>-1\<close>; every
  other node is as before.
\<close>

abbreviation dead_ns :: "heap_timer \<Rightarrow> nat \<Rightarrow> nat \<rightharpoonup> timer_node" where
  "dead_ns ht a \<equiv> (nodes ht)(a \<mapsto> (the (nodes ht a))\<lparr>timer_id := - 1\<rparr>)"

lemma dead_ns_simps:
  assumes "ht_inv ht" "a \<in> live ht"
  shows "key (dead_ns ht a) b = key (nodes ht) b"
    and "b \<noteq> a \<Longrightarrow> slot (dead_ns ht a) b = slot (nodes ht) b"
    and "ordered (dead_ns ht a) (heap ht) (cur_size ht)"
proof -
  have "a \<in> dom (nodes ht)" using assms by (simp add: ht_inv_def)
  then show k: "key (dead_ns ht a) b = key (nodes ht) b" for b by (auto simp: key_def)
  show "b \<noteq> a \<Longrightarrow> slot (dead_ns ht a) b = slot (nodes ht) b" by (simp add: slot_def)
  have "ordered (nodes ht) (heap ht) (cur_size ht)" using assms by (simp add: ht_inv_def)
  then show "ordered (dead_ns ht a) (heap ht) (cur_size ht)" using k by (simp add: ordered_def)
qed

lemma heap_inj:
  "ht_inv ht \<Longrightarrow> i < cur_size ht \<Longrightarrow> j < cur_size ht \<Longrightarrow> heap ht ! i = heap ht ! j \<Longrightarrow> i = j"
  using indexed_inj [of "nodes ht" "heap ht" "timer_node_index_array ht" "{..<cur_size ht}" i j]
  by (simp add: ht_inv_def)

lemma dead_indexed:
  assumes inv: "ht_inv ht" and pos: "pos < cur_size ht" and a: "a = heap ht ! pos"
  shows "indexed (dead_ns ht a) (heap ht) (vac_ix ht a) ({..<cur_size ht} - {pos})"
    and "i \<in> {..<cur_size ht} - {pos} \<Longrightarrow> heap ht ! i \<in> live ht - {a}"
proof -
  have al: "a \<in> live ht" using pos a by (auto simp: live_def)
  show ne: "heap ht ! i \<in> live ht - {a}" if "i \<in> {..<cur_size ht} - {pos}" for i
    using that pos a heap_inj [OF inv, of i pos] by (auto simp: live_def)
  have "indexed (nodes ht) (heap ht) (timer_node_index_array ht) ({..<cur_size ht} - {pos})"
    using inv by (auto simp: ht_inv_def intro: indexed_mono)
  then have "indexed (dead_ns ht a) (heap ht) (timer_node_index_array ht) ({..<cur_size ht} - {pos})"
    using ne by (subst indexed_cong) auto
  moreover have "slot (dead_ns ht a) (heap ht ! i) \<noteq> slot (nodes ht) a"
    if "i \<in> {..<cur_size ht} - {pos}" for i
    using ne [OF that] live_slot_inj [OF inv _ al] dead_ns_simps(2) [OF inv al] by auto
  moreover have "0 \<le> slot (nodes ht) a" using live_slot_range [OF inv al] by simp
  ultimately show "indexed (dead_ns ht a) (heap ht) (vac_ix ht a) ({..<cur_size ht} - {pos})"
    by (rule indexed_update_other)
qed

lemma refill_hole_correct:
  assumes inv: "ht_inv ht" and pos: "pos < cur_size ht - 1" and a: "a = heap ht ! pos"
  defines "h \<equiv> heap ht" and "n \<equiv> cur_size ht - 1"
  shows "\<exists>h' ix'. refill_hole (vacate ht a h (vac_ix ht a) (dead_ns ht a)) pos =
      Inr (vacate ht a h' ix' (dead_ns ht a)) \<and>
    rotated (dead_ns ht a) h (vac_ix ht a) n (live ht - {a}) h' ix'"
proof -
  let ?ns = "dead_ns ht a" and ?ix = "vac_ix ht a"
  define m where "m = h ! n"
  define h1 where "h1 = h[pos := m]"
  define ix1 where "ix1 = ?ix[nat (slot ?ns m) := int pos]"
  have al: "a \<in> live ht" using pos a by (auto simp: live_def)
  note dead = dead_ns_simps [OF inv al]
  have L: "length h = heap_size ht" "length ?ix = heap_size ht" "n < heap_size ht" "pos < n" "n < cur_size ht"
    using inv pos by (auto simp: ht_inv_def h_def n_def)
  have ind: "indexed ?ns h ?ix ({..<cur_size ht} - {pos})"
    unfolding h_def by (rule dead_indexed(1) [OF inv _ a]) (use pos in simp)
  have "n \<in> {..<cur_size ht} - {pos}" using L by simp
  then have m: "has_slot ?ns ?ix m" "m \<in> live ht - {a}"
    using ind dead_indexed(2) [OF inv _ a] pos by (auto simp: indexed_def m_def h_def)
  have others: "slot ?ns (h ! i) \<noteq> slot ?ns m" if "i \<in> {..<n} - {pos}" for i
    using indexed_inj [OF ind, of i n] that L by (auto simp: m_def)
  have h1i: "h1 ! i = h ! i" if "i \<noteq> pos" for i using that by (simp add: h1_def)
  have hole: "indexed ?ns h1 ix1 ({..<n} - {pos})"
  proof -
    have "indexed ?ns h ?ix ({..<n} - {pos})" by (rule indexed_mono [OF ind]) (use L in auto)
    then have "indexed ?ns h1 ?ix ({..<n} - {pos})"
      by (subst indexed_hole_cong) (auto simp: h1_def)
    then show ?thesis
      unfolding ix1_def
      by (rule indexed_update_other) (use others h1i m in \<open>auto simp: has_slot_def\<close>)
  qed
  have img: "insert m ((!) h1 ` ({..<n} - {pos})) = live ht - {a}"
  proof -
    have "(!) h1 ` ({..<n} - {pos}) = (!) h ` ({..<n} - {pos})" using h1i by auto
    moreover have "{..<cur_size ht} - {pos} = insert n ({..<n} - {pos})" using L by (auto simp: n_def)
    ultimately have "insert m ((!) h1 ` ({..<n} - {pos})) = (!) h ` ({..<cur_size ht} - {pos})"
      by (simp add: m_def)
    moreover have "live ht = insert a ((!) h ` ({..<cur_size ht} - {pos}))"
      using L a by (auto simp: live_def h_def)
    moreover have "a \<notin> (!) h ` ({..<cur_size ht} - {pos})"
      using dead_indexed(2) [OF inv _ a] L by (auto simp: h_def)
    ultimately show ?thesis by auto
  qed
  have "order_hole ?ns h n pos" using dead(3) L by (auto simp: h_def intro: ordered_order_hole)
  then have ord: "order_hole ?ns h1 n pos" using h1i by (rule order_hole_cong)
  have ms: "has_slot ?ns ix1 m" using m by (simp add: has_slot_def ix1_def)
  have mnot: "slot ?ns m \<notin> slot ?ns ` (!) h1 ` ({..<n} - {pos})" using others h1i by auto metis
  define pa where "pa = h1 ! get_parent_pos pos"
  have pa: "pa \<in> dom ?ns"
  proof (cases "pos = 0")
    case True
    then show ?thesis using m L by (simp add: pa_def get_parent_pos_def h1_def has_slot_def)
  next
    case False
    then have "get_parent_pos pos \<in> {..<n} - {pos}" using parent_less [of pos] L by auto
    then show ?thesis using indexed_dom [OF hole] by (simp add: pa_def)
  qed
  define R where "R = (if key ?ns pa \<le> key ?ns m
    then rotate_down ?ns n h1 ix1 m pos (get_left_child_pos pos)
    else rotate_up ?ns h1 ix1 m pos (get_parent_pos pos))"
  have "\<exists>h' ix'. R = Inr (h', ix') \<and> rotated ?ns h1 ix1 n (live ht - {a}) h' ix'"
  proof (cases "key ?ns pa \<le> key ?ns m")
    case True
    then show ?thesis
      using rotate_down_correct [OF hole L(4) _ ms mnot ord refl] L img
      by (simp add: R_def pa_def h1_def)
  next
    case False
    have "key ?ns m \<le> key ?ns (h1 ! c)" if "c < n" "0 < c" "get_parent_pos c = pos" for c
    proof (cases "pos = 0")
      case True
      then show ?thesis using False L by (simp add: pa_def h1_def get_parent_pos_def)
    next
      case False
      then have "key ?ns pa \<le> key ?ns (h1 ! c)" using ord that by (simp add: order_hole_def pa_def)
      then show ?thesis using \<open>\<not> key ?ns pa \<le> key ?ns m\<close> by simp
    qed
    then show ?thesis
      using False rotate_up_correct [OF hole L(4) _ ms mnot ord refl] L img
      by (simp add: R_def h1_def)
  qed
  then obtain h' ix' where R: "R = Inr (h', ix')" "rotated ?ns h1 ix1 n (live ht - {a}) h' ix'" by blast
  have "rotated ?ns h ?ix n (live ht - {a}) h' ix'"
    by (rule rotated_update [OF R(2) [unfolded ix1_def]]) (use m in \<open>auto simp: h1_def\<close>)
  moreover have "refill_hole (vacate ht a h ?ix ?ns) pos = Inr (vacate ht a h' ix' ?ns)"
  proof -
    have "deref ?ns m = Inr (the (?ns m))" "deref ?ns pa = Inr (the (?ns pa))"
      using m(1) pa by (simp_all add: deref_Some has_slot_def del: fun_upd_apply)
    moreover have "rd h (int n) = Inr m" using L by (simp add: m_def)
    moreover have "wr h (int pos) m = Inr h1" using L by (simp add: h1_def)
    moreover have "wr ?ix (id_index (timer_id (the (?ns m)))) (int pos) = Inr ix1"
      using m(1) L by (simp add: ix1_def has_slot_def slot_def del: fun_upd_apply)
    moreover have "rd h1 (int (get_parent_pos pos)) = Inr pa"
      using L parent_le [of pos] by (simp add: pa_def h1_def)
    ultimately show ?thesis
      using R(1) by (simp add: refill_hole_def Let_def R_def key_def n_def [symmetric]
        del: fun_upd_apply One_nat_def split: if_splits)
  qed
  ultimately show ?thesis by blast
qed

lemma remove_node_correct:
  assumes inv: "ht_inv ht" and pos: "pos < cur_size ht" and a: "a = heap ht ! pos"
  shows "\<exists>h' ix'. remove_node ht pos = Inr (Some a, vacate ht a h' ix' (dead_ns ht a)) \<and>
    ht_inv (vacate ht a h' ix' ((nodes ht)(a := None)))"
proof -
  let ?n = "cur_size ht - 1" and ?st = "vacate ht a (heap ht) (vac_ix ht a) (dead_ns ht a)"
  have al: "a \<in> live ht" using pos a by (auto simp: live_def)
  then have dom: "a \<in> dom (nodes ht)" using inv by (simp add: ht_inv_def)
  have ex: "\<exists>h' ix'. (if pos < ?n then refill_hole ?st pos else Inr ?st) =
      Inr (vacate ht a h' ix' (dead_ns ht a)) \<and>
    rotated (dead_ns ht a) (heap ht) (vac_ix ht a) ?n (live ht - {a}) h' ix'"
  proof (cases "pos < ?n")
    case True
    then show ?thesis using refill_hole_correct [OF inv _ a] by simp
  next
    case False
    then have set: "{..<?n} = {..<cur_size ht} - {pos}" using pos by auto
    have "(!) (heap ht) ` ({..<cur_size ht} - {pos}) = live ht - {a}"
    proof
      show "(!) (heap ht) ` ({..<cur_size ht} - {pos}) \<subseteq> live ht - {a}"
        using dead_indexed(2) [OF inv pos a] by blast
      show "live ht - {a} \<subseteq> (!) (heap ht) ` ({..<cur_size ht} - {pos})"
        using a by (auto simp: live_def)
    qed
    moreover have "ordered (dead_ns ht a) (heap ht) ?n"
      using dead_ns_simps(3) [OF inv al] by (simp add: ordered_def)
    ultimately have "rotated (dead_ns ht a) (heap ht) (vac_ix ht a) ?n (live ht - {a}) (heap ht) (vac_ix ht a)"
      using dead_indexed(1) [OF inv pos a] set by (simp add: rotated_def)
    then show ?thesis using False
      by (intro exI [of _ "heap ht"] exI [of _ "vac_ix ht a"]) (simp del: One_nat_def)
  qed
  then obtain h' ix' where fill: "(if pos < ?n then refill_hole ?st pos else Inr ?st) =
      Inr (vacate ht a h' ix' (dead_ns ht a))"
    and R: "rotated (dead_ns ht a) (heap ht) (vac_ix ht a) ?n (live ht - {a}) h' ix'" by blast
  have "rotated ((nodes ht)(a := None)) (heap ht) (vac_ix ht a) ?n (live ht - {a}) h' ix'"
    by (rule rotated_cong [OF R]) auto
  then have "ht_inv (vacate ht a h' ix' ((nodes ht)(a := None)))" by (rule vacated_inv(1) [OF inv al])
  moreover have "remove_node ht pos = Inr (Some a, vacate ht a h' ix' (dead_ns ht a))"
  proof -
    have "rd (heap ht) (int pos) = Inr a" using pos a inv by (simp add: ht_inv_def)
    then show ?thesis
      using push_free_timer_id_correct(1) [OF inv al] deref_Some [OF dom] pos fill
      by (cases "pos < ?n") (simp_all add: remove_node_def Let_def del: One_nat_def)
  qed
  ultimately show ?thesis by blast
qed

text \<open>
  Removing the node at a position and freeing it: the net effect of \<open>UnregisterTimer\<close> and
  of an expired one-shot timer.
\<close>

definition removed :: "heap_timer \<Rightarrow> nat \<Rightarrow> heap_timer \<Rightarrow> bool" where
  "removed ht a ht' \<longleftrightarrow> ht_inv ht' \<and> nodes ht' = (nodes ht)(a := None) \<and>
     cur_size ht = Suc (cur_size ht') \<and> heap_size ht' = heap_size ht \<and>
     next_node ht' = next_node ht \<and> rand_maker ht' = rand_maker ht"

lemma remove_delete_correct:
  assumes inv: "ht_inv ht" and pos: "pos < cur_size ht" and a: "a = heap ht ! pos"
  obtains ht' where
    "rbind (remove_node ht pos) (\<lambda>(_, ht1). delete_node ht1 a) = Inr ht'" "removed ht a ht'"
proof -
  obtain h' ix' where rem: "remove_node ht pos = Inr (Some a, vacate ht a h' ix' (dead_ns ht a))"
    and inv': "ht_inv (vacate ht a h' ix' ((nodes ht)(a := None)))"
    using remove_node_correct [OF inv pos a] by blast
  have "rbind (remove_node ht pos) (\<lambda>(_, ht1). delete_node ht1 a) =
      Inr (vacate ht a h' ix' ((nodes ht)(a := None)))"
    by (simp add: rem delete_node_def deref_def)
  moreover have "removed ht a (vacate ht a h' ix' ((nodes ht)(a := None)))"
    using inv' pos by (simp add: removed_def)
  ultimately show thesis by (rule that)
qed

section \<open>UnregisterTimer\<close>

text \<open>The node a timer id denotes, if any.\<close>

lemma slot_unused:
  assumes inv: "ht_inv ht" and k: "0 \<le> k" "k < int (heap_size ht)" "k \<notin> slot (nodes ht) ` live ht"
  shows "timer_node_index_array ht ! nat k < 0"
proof (cases "k = 0")
  case True
  then show ?thesis using inv by (simp add: ht_inv_def)
next
  case False
  then have "k \<in> {0<..<int (heap_size ht)} - slot (nodes ht) ` live ht" using k by simp
  then show ?thesis using inv free_list_neg [of "timer_node_index_array ht"] by (auto simp: ht_inv_def)
qed

lemma unregister_live:
  assumes inv: "ht_inv ht" and a: "a \<in> live ht"
  obtains ht' where "unregister_timer (timer_id (the (nodes ht a))) ht = Inr ht'" "removed ht a ht'"
proof -
  from a obtain pos where pos: "pos < cur_size ht" "a = heap ht ! pos" by (auto simp: live_def)
  define k where "k = slot (nodes ht) a"
  have ok: "node_ok (rand_array ht) (the (nodes ht a))" using inv a by (simp add: ht_inv_def)
  note s = node_ok_slot [where rs = "rand_array ht" and ns = "nodes ht" and a = a, OF ok, folded k_def]
  have k: "0 < k" "k < int (heap_size ht)" using live_slot_range [OF inv a] by (simp_all add: k_def)
  have ix: "timer_node_index_array ht ! nat k = int pos"
    using inv pos by (simp add: ht_inv_def indexed_def k_def)
  have apos: "a \<noteq> 0" using inv a by (auto simp: ht_inv_def)
  have L: "length (heap ht) = heap_size ht" "length (timer_node_index_array ht) = heap_size ht"
    "length (rand_array ht) = heap_size ht" "pos < heap_size ht"
    using inv pos by (auto simp: ht_inv_def)
  obtain ht' where rem: "rbind (remove_node ht pos) (\<lambda>(_, ht1). delete_node ht1 a) = Inr ht'"
    and "removed ht a ht'" by (rule remove_delete_correct [OF inv pos])
  moreover have "id_index (timer_id (the (nodes ht a))) = k" by (simp add: k_def slot_def)
  then have "unregister_timer (timer_id (the (nodes ht a))) ht = Inr ht'"
    using k ix apos L s(6) pos rem by (simp add: unregister_timer_def Let_def)
  ultimately show thesis using that by blast
qed

text \<open>
  An id no pending timer has is ignored. The source's index guard is \<open>>\<close> instead of \<open>\<ge>\<close>:
  the index \<open>heap_size\<close> itself would be read outside the array, and is excluded here.
\<close>

lemma unregister_unknown:
  assumes inv: "ht_inv ht" and t: "\<And>a. a \<in> live ht \<Longrightarrow> timer_id (the (nodes ht a)) \<noteq> tid"
    and canon: "tid = mk_timer_id (id_index tid) (id_rand tid)"
    and k: "id_index tid \<noteq> int (heap_size ht)"
  shows "unregister_timer tid ht = Inr ht"
proof -
  define k where "k = id_index tid"
  have L: "length (timer_node_index_array ht) = heap_size ht" "length (rand_array ht) = heap_size ht"
    "cur_size ht < heap_size ht"
    using inv by (auto simp: ht_inv_def)
  consider "k < 0 \<or> k > int (heap_size ht)" | "0 \<le> k" "k < int (heap_size ht)" "k \<notin> slot (nodes ht) ` live ht"
    | "0 \<le> k" "k < int (heap_size ht)" "k \<in> slot (nodes ht) ` live ht"
    using assms(4) by (fastforce simp: k_def)
  then show ?thesis
  proof cases
    case 1
    then show ?thesis by (auto simp: unregister_timer_def Let_def k_def)
  next
    case 2
    then show ?thesis using slot_unused [OF inv 2] L
      by (simp add: unregister_timer_def Let_def k_def [symmetric])
  next
    case 3
    then obtain a where a: "a \<in> live ht" "k = slot (nodes ht) a" by blast
    have ok: "node_ok (rand_array ht) (the (nodes ht a))" using inv a by (simp add: ht_inv_def)
    note s = node_ok_slot [where rs = "rand_array ht" and ns = "nodes ht" and a = a, OF ok]
    have "rand_array ht ! nat k \<noteq> id_rand tid"
      using s(3) t [OF a(1)] canon a(2) by (auto simp: k_def)
    then show ?thesis using 3 L by (simp add: unregister_timer_def Let_def k_def [symmetric])
  qed
qed

end
