(* ===== verification/Heap_Timer_Poll.thy ===== *)
theory Heap_Timer_Poll
  imports Heap_Timer_Ops
begin

text \<open>
  \<open>TimerPoll\<close>, the earliest expiry and the destructor. The root of the heap is a node of
  least expiry; an iteration of the loop runs its callback and re-arms or removes it; with
  callbacks that leave the heap alone and positive intervals the loop ends, and has then
  run every due timer exactly once, in the order of expiry.
\<close>

section \<open>The root\<close>

lemma ordered_root:
  assumes "ordered ns h n" "i < n"
  shows "key ns (h ! 0) \<le> key ns (h ! i)"
  using assms(2)
proof (induction i rule: less_induct)
  case (less i)
  show ?case
  proof (cases "i = 0")
    case False
    then have p: "get_parent_pos i < i" by (simp add: parent_less)
    then have "key ns (h ! 0) \<le> key ns (h ! get_parent_pos i)" using less by simp
    also have "\<dots> \<le> key ns (h ! i)" using assms(1) less.prems False by (simp add: ordered_def)
    finally show ?thesis .
  qed simp
qed

lemma root_facts:
  assumes inv: "ht_inv ht" and c: "0 < cur_size ht"
  shows "heap ht ! 0 \<in> live ht" "rd (heap ht) 0 = Inr (heap ht ! 0)"
    "deref (nodes ht) (heap ht ! 0) = Inr (the (nodes ht (heap ht ! 0)))"
    "b \<in> live ht \<Longrightarrow> expire_time (the (nodes ht (heap ht ! 0))) \<le> expire_time (the (nodes ht b))"
proof -
  show a: "heap ht ! 0 \<in> live ht" using c by (auto simp: live_def)
  have "0 < int (length (heap ht))" using inv c by (simp add: ht_inv_def)
  then show "rd (heap ht) 0 = Inr (heap ht ! 0)" by simp
  show "deref (nodes ht) (heap ht ! 0) = Inr (the (nodes ht (heap ht ! 0)))"
    using a inv by (intro deref_Some) (simp add: ht_inv_def)
  show "b \<in> live ht \<Longrightarrow> expire_time (the (nodes ht (heap ht ! 0))) \<le> expire_time (the (nodes ht b))"
    using inv ordered_root [of "nodes ht" "heap ht" "cur_size ht"]
    by (auto simp: ht_inv_def live_def key_def)
qed

lemma live_empty_iff: "live ht = {} \<longleftrightarrow> cur_size ht = 0"
  by (auto simp: live_def)

lemma finite_live [simp]: "finite (live ht)"
  by (simp add: live_def)

lemma first_timeout_min:
  assumes inv: "ht_inv ht"
  shows "first_timeout ht = Inr (if live ht = {} then None
    else Some (Min ((\<lambda>a. expire_time (the (nodes ht a))) ` live ht)))"
proof (cases "cur_size ht = 0")
  case False
  then have c: "0 < cur_size ht" by simp
  note r = root_facts [OF inv c]
  have "Min ((\<lambda>a. expire_time (the (nodes ht a))) ` live ht) = expire_time (the (nodes ht (heap ht ! 0)))"
    using r(1,4) by (intro Min_eqI) auto
  then show ?thesis using c r live_empty_iff [of ht] by (simp add: first_timeout_def)
qed (simp add: first_timeout_def live_def)

section \<open>Re-arming\<close>

definition rearmed :: "heap_timer \<Rightarrow> nat \<Rightarrow> time_value \<Rightarrow> heap_timer \<Rightarrow> bool" where
  "rearmed ht a e ht' \<longleftrightarrow> ht_inv ht' \<and>
     nodes ht' = (nodes ht)(a \<mapsto> (the (nodes ht a))\<lparr>expire_time := e\<rparr>) \<and> live ht' = live ht \<and>
     heap_size ht' = heap_size ht \<and> next_node ht' = next_node ht \<and>
     rand_maker ht' = rand_maker ht"

lemma poll_rearm_correct:
  assumes inv: "ht_inv ht" and c: "0 < cur_size ht" and now: "tv_canonical now"
    and a: "a = heap ht ! 0"
  obtains e ht' where "poll_rearm now ht a (the (nodes ht a)) = Inr ht'" "rearmed ht a e ht'"
    "tv_us e = tv_us now + tv_us (interval_time (the (nodes ht a)))"
proof -
  let ?n = "the (nodes ht a)" and ?c = "cur_size ht"
  have al: "a \<in> live ht" using root_facts(1) [OF inv c] a by simp
  have ok: "node_ok (rand_array ht) ?n" using inv al by (simp add: ht_inv_def)
  then have "tv_canonical (interval_time ?n)" by (simp add: node_ok_def)
  then obtain e where e: "expire_time_at now (interval_time ?n) = Inr e" "tv_canonical e"
    "tv_us e = tv_us now + tv_us (interval_time ?n)"
    by (rule expire_time_at_canonical [OF now])
  define ns where "ns = (nodes ht)(a \<mapsto> ?n\<lparr>expire_time := e\<rparr>)"
  have dom: "a \<in> dom (nodes ht)" using inv al by (simp add: ht_inv_def)
  have ns_other: "ns b = nodes ht b" if "b \<noteq> a" for b using that by (simp add: ns_def)
  have slots: "slot ns b = slot (nodes ht) b" for b using dom by (auto simp: slot_def ns_def)
  have doms: "dom ns = dom (nodes ht)" using dom by (auto simp: ns_def)
  have hole: "indexed ns (heap ht) (timer_node_index_array ht) ({..<?c} - {0})"
    using inv by (auto simp: ht_inv_def indexed_def has_slot_def slots doms)
  have hs: "has_slot ns (timer_node_index_array ht) a"
    using inv c a by (auto simp: ht_inv_def indexed_def has_slot_def slots doms)
  have others: "heap ht ! i \<noteq> a" if "i \<in> {..<?c} - {0}" for i
    using that a heap_inj [OF inv, of i 0] c by auto
  have not_in: "slot ns a \<notin> slot ns ` (!) (heap ht) ` ({..<?c} - {0})"
  proof
    assume "slot ns a \<in> slot ns ` (!) (heap ht) ` ({..<?c} - {0})"
    then obtain i where i: "i \<in> {..<?c} - {0}" "slot ns a = slot ns (heap ht ! i)" by blast
    then have "heap ht ! i \<in> live ht" "slot (nodes ht) (heap ht ! i) = slot (nodes ht) a"
      by (simp_all add: live_def slots)
    then show False using live_slot_inj [OF inv _ al] others [OF i(1)] by blast
  qed
  have "order_hole (nodes ht) (heap ht) ?c 0"
    using inv c by (auto simp: ht_inv_def intro: ordered_order_hole)
  moreover have "key ns (heap ht ! i) = key (nodes ht) (heap ht ! i)" if "i < ?c" "i \<noteq> 0" for i
    using others [of i] ns_other that by (simp add: key_def)
  ultimately have ord: "order_hole ns (heap ht) ?c 0"
    using order.strict_trans [OF parent_less] by (simp add: order_hole_def)
  have img: "insert a ((!) (heap ht) ` ({..<?c} - {0})) = live ht" using c a by (auto simp: live_def)
  have "?c \<le> length (heap ht)" using inv by (simp add: ht_inv_def)
  then obtain h' ix' where rot: "rotate_down ns ?c (heap ht) (timer_node_index_array ht) a 0
      (get_left_child_pos 0) = Inr (h', ix')"
    and R: "rotated ns (heap ht) (timer_node_index_array ht) ?c (live ht) h' ix'"
    using rotate_down_correct [OF hole c _ hs not_in ord refl] img by auto
  let ?ht = "ht\<lparr>nodes := ns, heap := h', timer_node_index_array := ix'\<rparr>"
  have "poll_rearm now ht a ?n = Inr ?ht"
    using e(1) rot by (simp add: poll_rearm_def Let_def ns_def)
  moreover have live: "live ?ht = live ht" using R by (simp add: live_def rotated_def)
  have simg: "slot ns ` live ht = slot (nodes ht) ` live ht" using slots by simp
  have frame: "ix' ! nat k = timer_node_index_array ht ! nat k"
    if "k \<notin> slot (nodes ht) ` live ht" "0 \<le> k" "k < int (heap_size ht)" for k
    using that inv rotated_frame [OF R, of k] simg by (simp add: ht_inv_def)
  have "ht_inv ?ht"
  proof -
    have "0 \<notin> slot (nodes ht) ` live ht" using live_slot_range(1) [OF inv] by fastforce
    then have "ix' ! 0 < 0" using frame [of 0] inv by (simp add: ht_inv_def)
    moreover have "free_list ix' (free_timer_node_index ht) (int (heap_size ht))
        ({0<..<int (heap_size ht)} - slot ns ` live ht)"
    proof (rule free_list_frame)
      show "free_list (timer_node_index_array ht) (free_timer_node_index ht) (int (heap_size ht))
          ({0<..<int (heap_size ht)} - slot ns ` live ht)"
        unfolding simg using inv by (simp add: ht_inv_def)
      show "length ix' = length (timer_node_index_array ht)" by (rule rotated_length(2) [OF R])
      show "\<forall>k\<in>{0<..<int (heap_size ht)} - slot ns ` live ht. ix' ! nat k = timer_node_index_array ht ! nat k"
        unfolding simg using frame by simp
    qed
    moreover have "node_ok (rand_array ht) (the (ns b))" if "b \<in> live ht" for b
    proof (cases "b = a")
      case True
      then show ?thesis using ok e(2) by (simp add: ns_def node_ok_def)
    next
      case False
      then show ?thesis using inv that ns_other by (simp add: ht_inv_def)
    qed
    ultimately show ?thesis
      unfolding ht_inv_def live using inv R rotated_length [OF R] doms
      by (auto simp: ht_inv_def rotated_def)
  qed
  ultimately show thesis using that [of ?ht e] e(3) live by (simp add: rearmed_def ns_def)
qed

section \<open>One iteration\<close>

definition due :: "heap_timer \<Rightarrow> time_value \<Rightarrow> nat set" where
  "due ht now = {a \<in> live ht. expire_time (the (nodes ht a)) \<le> now}"

lemma finite_due [simp]: "finite (due ht now)"
  by (simp add: due_def)

lemma poll_step_idle:
  assumes inv: "ht_inv ht" and idle: "due ht now = {}"
  shows "poll_step exec now ht w = Inr None"
proof (cases "cur_size ht = 0")
  case False
  then have c: "0 < cur_size ht" by simp
  have "\<not> expire_time (the (nodes ht (heap ht ! 0))) \<le> now"
    using idle root_facts(1) [OF inv c] by (auto simp: due_def)
  then show ?thesis using c root_facts(2,3) [OF inv c] by (simp add: poll_step_def)
qed (simp add: poll_step_def)

lemma poll_remove_correct:
  assumes inv: "ht_inv ht" and c: "0 < cur_size ht"
  obtains ht' where "poll_remove ht (heap ht ! 0) = Inr ht'" "removed ht (heap ht ! 0) ht'"
proof -
  obtain ht' where "rbind (remove_node ht 0) (\<lambda>(_, ht1). delete_node ht1 (heap ht ! 0)) = Inr ht'"
    "removed ht (heap ht ! 0) ht'" by (rule remove_delete_correct [OF inv c refl])
  then show thesis using that by (simp add: poll_remove_def)
qed

text \<open>
  One iteration, for a callback that keeps the invariant and leaves the expired node at the
  root: the node is re-armed at \<open>now\<close> plus its interval when the callback returns 0, and
  removed when it does not.
\<close>

definition run_cb :: "'w exec \<Rightarrow> timer_node \<Rightarrow> heap_timer \<times> 'w \<Rightarrow> (int \<times> heap_timer \<times> 'w) res" where
  "run_cb exec n = (case cb_obj n of None \<Rightarrow> (\<lambda>(ht, w). Inr (0, ht, w))
     | Some c \<Rightarrow> exec c (timer_id n) (node_data n))"

lemma poll_step_due:
  assumes inv: "ht_inv ht" and due: "due ht now \<noteq> {}" and now: "tv_canonical now"
    and a: "a = heap ht ! 0" and n: "n = the (nodes ht a)" and iv: "interval_time n \<noteq> TimeValue 0 0"
    and cb: "run_cb exec n (ht, w) = Inr (ret, ht1, w1)"
    and inv1: "ht_inv ht1" and root: "0 < cur_size ht1" "heap ht1 ! 0 = a" "nodes ht1 a = Some n"
  obtains ht2 where "poll_step exec now ht w = Inr (Some (ht2, w1))"
    "if ret \<noteq> 0 then removed ht1 a ht2
     else \<exists>e. rearmed ht1 a e ht2 \<and> tv_us e = tv_us now + tv_us (interval_time n)"
    "a \<in> due ht now" "\<forall>b\<in>live ht. expire_time n \<le> expire_time (the (nodes ht b))"
proof -
  from due obtain b where b: "b \<in> live ht" "expire_time (the (nodes ht b)) \<le> now" by (auto simp: due_def)
  then have c: "0 < cur_size ht" by (auto simp: live_def)
  note r = root_facts [OF inv c, folded a, folded n]
  have exp: "expire_time n \<le> now" using r(4) [OF b(1)] b(2) by simp
  then have adue: "a \<in> due ht now" using r(1) n by (simp add: due_def)
  obtain h1 where h1: "poll_remove ht1 a = Inr h1" "removed ht1 a h1"
    using poll_remove_correct [OF inv1 root(1)] root(2) by auto
  obtain e h2 where h2: "poll_rearm now ht1 a n = Inr h2" "rearmed ht1 a e h2"
    "tv_us e = tv_us now + tv_us (interval_time n)"
    by (rule poll_rearm_correct [OF inv1 root(1) now root(2) [symmetric], unfolded root(3) option.sel])
  have d1: "deref (nodes ht1) a = Inr n" using root(3) by (simp add: deref_def)
  have iv': "tv_sec (interval_time n) \<noteq> 0 \<or> tv_usec (interval_time n) \<noteq> 0"
    using iv by (cases "interval_time n") auto
  have cb': "(case cb_obj n of None \<Rightarrow> Inr (0, ht, w)
      | Some c \<Rightarrow> exec c (timer_id n) (node_data n) (ht, w)) = Inr (ret, ht1, w1)"
    using cb by (simp add: run_cb_def split: option.splits)
  have "poll_step exec now ht w = Inr (Some (if ret = 0 then h2 else h1, w1))"
    using c r(2,3) exp cb' d1 iv' h1(1) h2(1) by (auto simp: poll_step_def)
  then show thesis using that h1(2) h2(2,3) adue r(4) by (cases "ret = 0") auto
qed

section \<open>The whole loop\<close>

text \<open>Callbacks that leave the timer heap alone, and record the ids they are called with.\<close>

definition logging :: "(nat \<Rightarrow> int \<Rightarrow> nat \<Rightarrow> int) \<Rightarrow> int list exec" where
  "logging f c tid data s = Inr (f c tid data, fst s, snd s @ [tid])"

definition node_ret :: "(nat \<Rightarrow> int \<Rightarrow> nat \<Rightarrow> int) \<Rightarrow> timer_node \<Rightarrow> int" where
  "node_ret f n = (case cb_obj n of None \<Rightarrow> 0 | Some c \<Rightarrow> f c (timer_id n) (node_data n))"

definition fired :: "(nat \<rightharpoonup> timer_node) \<Rightarrow> nat list \<Rightarrow> int list" where
  "fired ns xs = map (\<lambda>a. timer_id (the (ns a))) (filter (\<lambda>a. cb_obj (the (ns a)) \<noteq> None) xs)"

lemma fired_cong: "(\<And>a. a \<in> set xs \<Longrightarrow> ns' a = ns a) \<Longrightarrow> fired ns' xs = fired ns xs"
  by (induction xs) (auto simp: fired_def)

text \<open>What the loop leaves of the node \<open>a\<close>.\<close>

definition settled ::
  "(nat \<Rightarrow> int \<Rightarrow> nat \<Rightarrow> int) \<Rightarrow> time_value \<Rightarrow> heap_timer \<Rightarrow> heap_timer \<Rightarrow> nat \<Rightarrow> bool" where
  "settled f now ht ht' a \<longleftrightarrow>
     (if a \<notin> due ht now then nodes ht' a = nodes ht a
      else let n = the (nodes ht a) in
        if node_ret f n \<noteq> 0 then nodes ht' a = None
        else nodes ht' a = Some (n\<lparr>expire_time := expire_time (the (nodes ht' a))\<rparr>) \<and>
          tv_us (expire_time (the (nodes ht' a))) = tv_us now + tv_us (interval_time n))"

definition all_periodic :: "heap_timer \<Rightarrow> bool" where
  "all_periodic ht \<longleftrightarrow> (\<forall>a\<in>live ht. 0 < tv_us (interval_time (the (nodes ht a))))"

lemma run_cb_logging:
  "run_cb (logging f) n (ht, w) =
     Inr (node_ret f n, ht, w @ (if cb_obj n = None then [] else [timer_id n]))"
  by (simp add: run_cb_def logging_def node_ret_def split: option.splits)

text \<open>One iteration takes exactly the root out of the due nodes.\<close>

lemma poll_step_logging:
  assumes inv: "ht_inv ht" and now: "tv_canonical now" and per: "all_periodic ht" and due: "due ht now \<noteq> {}"
  obtains a n ht2 where "poll_step (logging f) now ht w =
      Inr (Some (ht2, w @ (if cb_obj n = None then [] else [timer_id n])))"
    "a \<in> due ht now" "n = the (nodes ht a)" "ht_inv ht2" "due ht2 now = due ht now - {a}" "all_periodic ht2"
    "\<forall>b. b \<noteq> a \<longrightarrow> nodes ht2 b = nodes ht b"
    "if node_ret f n \<noteq> 0 then nodes ht2 a = None
     else nodes ht2 a = Some (n\<lparr>expire_time := expire_time (the (nodes ht2 a))\<rparr>) \<and>
       tv_us (expire_time (the (nodes ht2 a))) = tv_us now + tv_us (interval_time n)"
    "\<forall>b\<in>live ht. expire_time n \<le> expire_time (the (nodes ht b))"
proof -
  define a where "a = heap ht ! 0"
  define n where "n = the (nodes ht a)"
  have c: "0 < cur_size ht" using due by (auto simp: due_def live_def)
  have al: "a \<in> live ht" using root_facts(1) [OF inv c] by (simp add: a_def)
  then have "a \<in> dom (nodes ht)" using inv by (simp add: ht_inv_def)
  then have na: "nodes ht a = Some n" by (auto simp: n_def)
  have pos: "0 < tv_us (interval_time n)" using per al by (simp add: all_periodic_def n_def)
  then have iv: "interval_time n \<noteq> TimeValue 0 0" by (auto simp: tv_us_def)
  obtain ht2 where st: "poll_step (logging f) now ht w =
      Inr (Some (ht2, w @ (if cb_obj n = None then [] else [timer_id n])))"
    and cases: "if node_ret f n \<noteq> 0 then removed ht a ht2
      else \<exists>e. rearmed ht a e ht2 \<and> tv_us e = tv_us now + tv_us (interval_time n)"
    and adue: "a \<in> due ht now" and min: "\<forall>b\<in>live ht. expire_time n \<le> expire_time (the (nodes ht b))"
    by (rule poll_step_due [OF inv due now a_def n_def iv run_cb_logging [where f = f and w = w] inv c a_def [symmetric] na])
  have facts: "ht_inv ht2 \<and> due ht2 now = due ht now - {a} \<and> all_periodic ht2 \<and>
      (\<forall>b. b \<noteq> a \<longrightarrow> nodes ht2 b = nodes ht b) \<and>
      (if node_ret f n \<noteq> 0 then nodes ht2 a = None
       else nodes ht2 a = Some (n\<lparr>expire_time := expire_time (the (nodes ht2 a))\<rparr>) \<and>
         tv_us (expire_time (the (nodes ht2 a))) = tv_us now + tv_us (interval_time n))"
  proof (cases "node_ret f n = 0")
    case False
    then have r: "ht_inv ht2" "nodes ht2 = (nodes ht)(a := None)" using cases by (simp_all add: removed_def)
    have "live ht2 = dom (nodes ht2)" using r(1) by (simp add: ht_inv_def)
    then have "live ht2 = live ht - {a}" using inv r(2) by (auto simp: ht_inv_def)
    then show ?thesis using r False per by (auto simp: due_def all_periodic_def)
  next
    case True
    then obtain e where "rearmed ht a e ht2" and e: "tv_us e = tv_us now + tv_us (interval_time n)"
      using cases by auto
    then have r: "ht_inv ht2" "nodes ht2 = (nodes ht)(a \<mapsto> n\<lparr>expire_time := e\<rparr>)" "live ht2 = live ht"
      by (simp_all add: rearmed_def n_def)
    have "node_ok (rand_array ht2) (the (nodes ht2 a))" using r(1,3) al by (simp add: ht_inv_def)
    then have "tv_canonical e" using r(2) by (simp add: node_ok_def)
    then have "\<not> e \<le> now" using e pos now by (simp add: tv_le_iff_us)
    then show ?thesis using r True per e by (auto simp: due_def all_periodic_def n_def)
  qed
  show thesis
    by (rule that [OF st adue n_def _ _ _ _ _ min]) (use facts in simp_all)
qed

lemma timer_poll_logging:
  assumes "ht_inv ht" "tv_canonical now" "all_periodic ht"
  shows "\<exists>ht' xs. timer_poll (logging f) now ht w = Some (Inr (ht', w @ fired (nodes ht) xs)) \<and>
    ht_inv ht' \<and> due ht' now = {} \<and> distinct xs \<and> set xs = due ht now \<and>
    sorted_wrt (\<lambda>a b. expire_time (the (nodes ht a)) \<le> expire_time (the (nodes ht b))) xs \<and>
    (\<forall>a. settled f now ht ht' a)"
  using assms
proof (induction "card (due ht now)" arbitrary: ht w rule: less_induct)
  case less
  show ?case
  proof (cases "due ht now = {}")
    case True
    then have "timer_poll (logging f) now ht w = Some (Inr (ht, w))"
      by (simp add: timer_poll.simps poll_step_idle [OF less.prems(1) True])
    then show ?thesis using less.prems True
      by (intro exI [of _ ht] exI [of _ "[]"]) (simp add: fired_def settled_def [abs_def])
  next
    case False
    obtain a n ht2 where st: "poll_step (logging f) now ht w =
        Inr (Some (ht2, w @ (if cb_obj n = None then [] else [timer_id n])))"
      and a: "a \<in> due ht now" "n = the (nodes ht a)"
      and ht2: "ht_inv ht2" "due ht2 now = due ht now - {a}" "all_periodic ht2"
      and same: "\<forall>b. b \<noteq> a \<longrightarrow> nodes ht2 b = nodes ht b"
      and na: "if node_ret f n \<noteq> 0 then nodes ht2 a = None
        else nodes ht2 a = Some (n\<lparr>expire_time := expire_time (the (nodes ht2 a))\<rparr>) \<and>
          tv_us (expire_time (the (nodes ht2 a))) = tv_us now + tv_us (interval_time n)"
      and min: "\<forall>b\<in>live ht. expire_time n \<le> expire_time (the (nodes ht b))"
      by (rule poll_step_logging [where f = f and w = w, OF less.prems False])
    let ?w = "w @ (if cb_obj n = None then [] else [timer_id n])"
    have "card (due ht2 now) < card (due ht now)" unfolding ht2(2) by (rule card_Diff1_less) (use a in simp_all)
    from less.hyps [OF this ht2(1) less.prems(2) ht2(3), of ?w]
    obtain ht' xs where ih: "timer_poll (logging f) now ht2 ?w = Some (Inr (ht', ?w @ fired (nodes ht2) xs))"
      "ht_inv ht'" "due ht' now = {}" "distinct xs" "set xs = due ht now - {a}"
      "sorted_wrt (\<lambda>a b. expire_time (the (nodes ht2 a)) \<le> expire_time (the (nodes ht2 b))) xs"
      "\<And>a. settled f now ht2 ht' a"
      using ht2(2) by blast
    have same_xs: "nodes ht2 b = nodes ht b" if "b \<in> set xs" for b using same that ih(5) by simp
    then have "fired (nodes ht2) xs = fired (nodes ht) xs"
      by (rule fired_cong)
    then have "timer_poll (logging f) now ht w = Some (Inr (ht', w @ fired (nodes ht) (a # xs)))"
      using st ih(1) a(2) by (subst timer_poll.simps) (auto simp: fired_def)
    moreover have "sorted_wrt (\<lambda>a b. expire_time (the (nodes ht a)) \<le> expire_time (the (nodes ht b))) (a # xs)"
    proof -
      have "sorted_wrt (\<lambda>a b. expire_time (the (nodes ht a)) \<le> expire_time (the (nodes ht b))) xs"
        by (rule sorted_wrt_mono_rel [OF _ ih(6)]) (use same_xs in simp)
      moreover have "b \<in> live ht" if "b \<in> set xs" for b using that ih(5) by (simp add: due_def)
      ultimately show ?thesis using min a(2) by simp
    qed
    moreover have "settled f now ht ht' b" for b
    proof (cases "b = a")
      case True
      have "nodes ht' a = nodes ht2 a" using ih(7) [of a] ht2(2) by (simp add: settled_def)
      then show ?thesis
        unfolding settled_def Let_def True a(2) [symmetric] using na a(1) by presburger
    next
      case False
      then have eq: "(b \<in> due ht2 now) = (b \<in> due ht now)" "nodes ht2 b = nodes ht b"
        using same ht2(2) by simp_all
      show ?thesis using ih(7) [of b] by (simp only: settled_def eq)
    qed
    moreover have "distinct (a # xs)" "set (a # xs) = due ht now" using ih(4,5) a(1) by auto
    ultimately show ?thesis using ih(2,3) by blast
  qed
qed

section \<open>Callbacks with their own effect\<close>

text \<open>Callbacks that leave the timer heap alone but change the rest of the state, by \<open>g\<close> of the id
  they are called with: the heap evolves as for \<open>logging\<close>, and \<open>g\<close> is run on the logged ids.\<close>

definition pure_exec :: "(nat \<Rightarrow> int \<Rightarrow> nat \<Rightarrow> int) \<Rightarrow> (int \<Rightarrow> 'w \<Rightarrow> 'w) \<Rightarrow> 'w exec" where
  "pure_exec f g c tid data s = Inr (f c tid data, fst s, g tid (snd s))"

lemma poll_step_pure:
  assumes "poll_step (logging f) now ht log = Inr (Some (ht2, log @ ts))"
  shows "poll_step (pure_exec f g) now ht w = Inr (Some (ht2, foldl (\<lambda>w t. g t w) w ts))"
proof -
  obtain a n where a: "cur_size ht \<noteq> 0" "rd (heap ht) 0 = Inr a" "deref (nodes ht) a = Inr n" "timerval_gte now (expire_time n)"
    using assms by (cases "rd (heap ht) 0"; cases "deref (nodes ht) (projr (rd (heap ht) 0))")
      (auto simp: poll_step_def split: if_splits)
  define post where "post ret = (if ret = 0 then rbind (deref (nodes ht) a) (\<lambda>n1.
      if tv_sec (interval_time n1) \<noteq> 0 \<or> tv_usec (interval_time n1) \<noteq> 0 then poll_rearm now ht a n1
      else poll_remove ht a) else poll_remove ht a)" for ret :: int
  have gen: "poll_step exec now ht v = rbind (post ret) (\<lambda>h. Inr (Some (h, v')))"
    if "run_cb exec n (ht, v) = Inr (ret, ht, v')" for exec :: "'b exec" and v v' ret
  proof -
    have "(case cb_obj n of None \<Rightarrow> Inr (0, ht, v) | Some c \<Rightarrow> exec c (timer_id n) (node_data n) (ht, v)) = Inr (ret, ht, v')"
      using that by (simp add: run_cb_def split: option.splits)
    then show ?thesis using a by (auto simp: poll_step_def post_def rbind_assoc intro!: rbind_cong)
  qed
  have log: "run_cb (logging f) n (ht, log) = Inr (node_ret f n, ht, log @ (if cb_obj n = None then [] else [timer_id n]))"
    by (rule run_cb_logging)
  have pure: "run_cb (pure_exec f g) n (ht, w) = Inr (node_ret f n, ht, if cb_obj n = None then w else g (timer_id n) w)"
    by (simp add: run_cb_def pure_exec_def node_ret_def split: option.splits)
  have "post (node_ret f n) = Inr ht2 \<and> ts = (if cb_obj n = None then [] else [timer_id n])"
    using assms unfolding gen [OF log] by (auto simp: rbind_eq_Inr_iff)
  then show ?thesis using gen [OF pure] by simp
qed

lemma timer_poll_pure:
  assumes "ht_inv ht" "tv_canonical now" "all_periodic ht" "timer_poll (logging f) now ht log = Some (Inr (ht', log @ ts))"
  shows "timer_poll (pure_exec f g) now ht w = Some (Inr (ht', foldl (\<lambda>w t. g t w) w ts))"
  using assms
proof (induction "card (due ht now)" arbitrary: ht w log ts rule: less_induct)
  case less
  show ?case
  proof (cases "due ht now = {}")
    case True
    have "poll_step (pure_exec f g) now ht w = Inr None" "poll_step (logging f) now ht log = Inr None"
      by (rule poll_step_idle [OF less.prems(1) True])+
    then show ?thesis using less.prems(4) by (simp add: timer_poll.simps)
  next
    case False
    obtain a n ht2 where st: "poll_step (logging f) now ht log =
        Inr (Some (ht2, log @ (if cb_obj n = None then [] else [timer_id n])))"
      and a: "a \<in> due ht now" "n = the (nodes ht a)"
      and ht2: "ht_inv ht2" "due ht2 now = due ht now - {a}" "all_periodic ht2"
      by (rule poll_step_logging [where f = f and w = log, OF less.prems(1-3) False]) (rule that; assumption)
    let ?ts1 = "if cb_obj n = None then [] else [timer_id n]"
    have lp: "timer_poll (logging f) now ht2 (log @ ?ts1) = Some (Inr (ht', log @ ts))"
      using less.prems(4) st by (simp add: timer_poll.simps [of _ _ ht])
    obtain ts2 where "log @ ts = (log @ ?ts1) @ ts2"
      using timer_poll_logging [OF ht2(1) less.prems(2) ht2(3), of f "log @ ?ts1"] lp by auto
    then have ts: "ts = ?ts1 @ ts2" by simp
    have "card (due ht2 now) < card (due ht now)" unfolding ht2(2) by (rule card_Diff1_less) (use a in simp_all)
    moreover have "timer_poll (logging f) now ht2 (log @ ?ts1) = Some (Inr (ht', (log @ ?ts1) @ ts2))"
      using lp ts by simp
    ultimately have "timer_poll (pure_exec f g) now ht2 (foldl (\<lambda>w t. g t w) w ?ts1) =
        Some (Inr (ht', foldl (\<lambda>w t. g t w) (foldl (\<lambda>w t. g t w) w ?ts1) ts2))"
      by (rule less.hyps [OF _ ht2(1) less.prems(2) ht2(3)])
    then show ?thesis using poll_step_pure [OF st, of g w] ts by (simp add: timer_poll.simps [of _ _ ht])
  qed
qed

end
