(* ===== verification/Timer_Iface.thy ===== *)
theory Timer_Iface
  imports Time_Value
begin

text \<open>
  The interface of a timer service, as the modules of the servers use it: \<open>RegisterTimer\<close>
  returns a fresh positive id and makes it pending, \<open>UnregisterTimer\<close> of a pending id
  takes exactly that id back. A pending id stands for its callback object and data.
\<close>

text \<open>Cancelling a list of timers.\<close>

fun unregister_all :: "(int \<Rightarrow> 's \<Rightarrow> 's res) \<Rightarrow> int list \<Rightarrow> 's \<Rightarrow> 's res" where
  "unregister_all unregister [] s = Inr s"
| "unregister_all unregister (t # ts) s = rbind (unregister t s) (unregister_all unregister ts)"

locale timer_service =
  fixes ok :: "'s \<Rightarrow> bool"
    and room :: "'s \<Rightarrow> bool"
    and pending :: "'s \<Rightarrow> int \<Rightarrow> (nat option \<times> nat) option"
    and register :: "int \<Rightarrow> time_value \<Rightarrow> time_value \<Rightarrow> nat option \<Rightarrow> nat \<Rightarrow> 's \<Rightarrow> (int \<times> 's) res"
    and unregister :: "int \<Rightarrow> 's \<Rightarrow> 's res"
  assumes register_law:
      "ok s \<Longrightarrow> room s \<Longrightarrow> tv_canonical interval \<Longrightarrow> tv_canonical delay \<Longrightarrow> interval \<noteq> TimeValue 0 0 \<Longrightarrow>
       \<exists>tid s'. register now interval delay cb d s = Inr (tid, s') \<and> ok s' \<and> 0 < tid \<and>
         pending s tid = None \<and> pending s' = (pending s)(tid \<mapsto> (cb, d))"
    and unregister_law:
      "ok s \<Longrightarrow> pending s tid \<noteq> None \<Longrightarrow>
       \<exists>s'. unregister tid s = Inr s' \<and> ok s' \<and> pending s' = (pending s)(tid := None) \<and>
         (room s \<longrightarrow> room s')"
    and pending_pos: "ok s \<Longrightarrow> pending s tid \<noteq> None \<Longrightarrow> 0 < tid"
begin

lemma register_unregister:
  assumes "ok s" "room s" "tv_canonical interval" "tv_canonical delay" "interval \<noteq> TimeValue 0 0"
  shows "\<exists>tid s' s''. register now interval delay cb d s = Inr (tid, s') \<and>
    unregister tid s' = Inr s'' \<and> ok s'' \<and> pending s'' = pending s"
proof -
  obtain tid s' where r: "register now interval delay cb d s = Inr (tid, s')" "ok s'"
    "pending s tid = None" "pending s' = (pending s)(tid \<mapsto> (cb, d))"
    using register_law [OF assms] by blast
  then obtain s'' where "unregister tid s' = Inr s''" "ok s''" "pending s'' = (pending s')(tid := None)"
    using unregister_law [of s' tid] by auto
  then show ?thesis using r by (metis fun_upd_triv fun_upd_upd)
qed

lemma unregister_all_pending:
  "ok s \<Longrightarrow> distinct ts \<Longrightarrow> (\<forall>t\<in>set ts. pending s t \<noteq> None) \<Longrightarrow>
   \<exists>s'. unregister_all unregister ts s = Inr s' \<and> ok s' \<and> pending s' = pending s |` (- set ts)"
proof (induction ts arbitrary: s)
  case (Cons t ts)
  then obtain s1 where s1: "unregister t s = Inr s1" "ok s1" "pending s1 = (pending s)(t := None)"
    using unregister_law [of s t] by auto
  have "\<forall>u\<in>set ts. pending s1 u \<noteq> None" using Cons.prems s1(3) by auto
  then obtain s' where s': "unregister_all unregister ts s1 = Inr s'" "ok s'" "pending s' = pending s1 |` (- set ts)"
    using Cons.IH [OF s1(2)] Cons.prems(2) by auto
  have "pending s' = pending s |` (- set (t # ts))"
    using s'(3) s1(3) by (auto simp: restrict_map_def fun_eq_iff)
  then show ?case using s1(1) s'(1,2) by simp
qed (auto simp: restrict_map_def)

end

end
