(* ===== verification/Heap_Timer_Spec.thy ===== *)
theory Heap_Timer_Spec
  imports Heap_Timer_Poll Timer_Iface
begin

text \<open>
  The timer heap as its clients see it: the destructor frees every node, the heap is a
  timer service, and the properties of the heap timer.
\<close>

section \<open>The destructor\<close>

lemma heap_timer_free_from_correct:
  assumes inv: "ht_inv ht"
  shows "k \<le> heap_size ht \<Longrightarrow>
    heap_timer_free_from k ht = Inr (ht\<lparr>nodes := nodes ht |` {a. int k \<le> slot (nodes ht) a}\<rparr>)"
proof (induction k)
  case 0
  have "slot (nodes ht) a \<ge> 0" if "a \<in> dom (nodes ht)" for a
    using live_slot_range(1) [OF inv, of a] that inv by (simp add: ht_inv_def)
  then have "nodes ht |` {a. int 0 \<le> slot (nodes ht) a} = nodes ht"
    by (auto simp: restrict_map_def fun_eq_iff) (metis domIff)
  then show ?case by simp
next
  case (Suc k)
  let ?ns = "\<lambda>k. nodes ht |` {a. int k \<le> slot (nodes ht) a}"
  have k: "k < heap_size ht" using Suc.prems by simp
  have len: "length (timer_node_index_array ht) = heap_size ht" "length (heap ht) = heap_size ht"
    using inv by (simp_all add: ht_inv_def)
  have dom: "dom (nodes ht) = live ht" using inv by (simp add: ht_inv_def)
  have ih: "heap_timer_free_from k ht = Inr (ht\<lparr>nodes := ?ns k\<rparr>)" using Suc by simp
  have rdk: "rd (timer_node_index_array ht) (int k) = Inr (timer_node_index_array ht ! k)"
    using k len by simp
  show ?case
  proof (cases "int k \<in> slot (nodes ht) ` live ht")
    case False
    then have "timer_node_index_array ht ! k < 0" using slot_unused [OF inv, of "int k"] k by simp
    moreover have "?ns (Suc k) = ?ns k"
    proof (rule ext)
      fix a show "?ns (Suc k) a = ?ns k a"
        using False dom_NoneI [OF dom, of a]
        by (cases "a \<in> live ht") (auto simp: restrict_map_def image_iff zle_add1_eq_le
          order_le_less [of "int k"])
    qed
    ultimately show ?thesis using ih rdk by simp
  next
    case True
    then obtain p where p: "p < cur_size ht" "slot (nodes ht) (heap ht ! p) = int k" by (auto simp: live_def)
    let ?a = "heap ht ! p"
    have a: "?a \<in> live ht" using p by (auto simp: live_def)
    have "timer_node_index_array ht ! k = int p"
      using inv p by (auto simp: ht_inv_def indexed_def dest!: bspec [of _ _ p])
    moreover have "rd (heap ht) (int p) = Inr ?a" using p inv by (simp add: ht_inv_def)
    moreover obtain y where "?ns k ?a = Some y" using a dom p by (auto simp: restrict_map_def)
    then have "delete_node (ht\<lparr>nodes := ?ns k\<rparr>) ?a = Inr (ht\<lparr>nodes := (?ns k)(?a := None)\<rparr>)"
      by (simp add: delete_node_def deref_def split: option.splits)
    moreover have "(?ns k)(?a := None) = ?ns (Suc k)"
    proof (rule ext)
      fix b
      have "slot (nodes ht) b \<noteq> int k" if "b \<in> live ht" "b \<noteq> ?a"
        using live_slot_inj [OF inv that(1) a] p that(2) by auto
      then show "((?ns k)(?a := None)) b = ?ns (Suc k) b"
        using dom p by (cases "b \<in> live ht") (auto simp: restrict_map_def domIff)
    qed
    ultimately show ?thesis using ih rdk by simp
  qed
qed

lemma heap_timer_delete_correct:
  assumes inv: "ht_inv ht"
  shows "heap_timer_delete ht = Inr (ht\<lparr>nodes := Map.empty\<rparr>)"
proof -
  have "nodes ht |` {a. int (heap_size ht) \<le> slot (nodes ht) a} = Map.empty"
  proof (rule ext)
    fix a show "(nodes ht |` {a. int (heap_size ht) \<le> slot (nodes ht) a}) a = None"
    proof (cases "a \<in> live ht")
      case True
      then show ?thesis using live_slot_range(2) [OF inv, of a] by (simp add: restrict_map_def)
    next
      case False
      then have "nodes ht a = None" using inv by (auto simp: ht_inv_def)
      then show ?thesis by (simp add: restrict_map_def)
    qed
  qed
  then show ?thesis using heap_timer_free_from_correct [OF inv, of "heap_size ht"]
    by (simp add: heap_timer_delete_def)
qed

section \<open>The timer service\<close>

definition pending_of :: "heap_timer \<Rightarrow> int \<Rightarrow> (nat option \<times> nat) option" where
  "pending_of ht tid =
     (case find (\<lambda>a. timer_id (the (nodes ht a)) = tid) (take (cur_size ht) (heap ht)) of
        None \<Rightarrow> None
      | Some a \<Rightarrow> Some (cb_obj (the (nodes ht a)), node_data (the (nodes ht a))))"

lemma live_take: "ht_inv ht \<Longrightarrow> set (take (cur_size ht) (heap ht)) = live ht"
  by (simp add: live_def set_take_image ht_inv_def)

lemma pending_of_None:
  "ht_inv ht \<Longrightarrow> pending_of ht tid = None \<longleftrightarrow> (\<forall>a\<in>live ht. timer_id (the (nodes ht a)) \<noteq> tid)"
  using live_take [of ht] by (auto simp: pending_of_def find_None_set split: option.splits dest: find_SomeD)

lemma pending_of_Some:
  assumes inv: "ht_inv ht" and a: "a \<in> live ht"
  shows "pending_of ht (timer_id (the (nodes ht a))) = Some (cb_obj (the (nodes ht a)), node_data (the (nodes ht a)))"
proof -
  let ?P = "\<lambda>b. timer_id (the (nodes ht b)) = timer_id (the (nodes ht a))"
  have "find ?P (take (cur_size ht) (heap ht)) \<noteq> None"
    using a live_take [OF inv] by (auto simp: find_None_set)
  then obtain b where b: "find ?P (take (cur_size ht) (heap ht)) = Some b" by auto
  then have "b \<in> live ht" "?P b" using live_take [OF inv] find_SomeD [OF b] by auto
  then have "b = a" using live_timer_id_inj [OF inv _ a] by simp
  then show ?thesis using b by (simp add: pending_of_def)
qed

lemma pending_of_eqI:
  assumes "ht_inv ht"
    and "\<And>a. a \<in> live ht \<Longrightarrow> m (timer_id (the (nodes ht a))) = Some (cb_obj (the (nodes ht a)), node_data (the (nodes ht a)))"
    and "\<And>tid. m tid \<noteq> None \<Longrightarrow> \<exists>a\<in>live ht. timer_id (the (nodes ht a)) = tid"
  shows "pending_of ht = m"
proof (rule ext)
  fix tid show "pending_of ht tid = m tid"
  proof (cases "\<exists>a\<in>live ht. timer_id (the (nodes ht a)) = tid")
    case True
    then show ?thesis using assms(2) pending_of_Some [OF assms(1)] by force
  next
    case False
    then have "m tid = None" using assms(3) [of tid] by blast
    then show ?thesis using False pending_of_None [OF assms(1), of tid] by simp
  qed
qed

text \<open>\<open>RegisterTimer\<close> and \<open>UnregisterTimer\<close> on the pending timers.\<close>

lemma register_pending:
  assumes inv: "ht_inv ht" and room: "heap_size ht < 1073741824"
    and tv: "tv_canonical interval" "tv_canonical delay" "interval \<noteq> TimeValue 0 0"
  shows "\<exists>tid ht'. register_timer now interval delay cb data ht = Inr (tid, ht') \<and> ht_inv ht' \<and> 0 < tid \<and>
    pending_of ht tid = None \<and> pending_of ht' = (pending_of ht)(tid \<mapsto> (cb, data))"
proof -
  obtain tid e ht' where r: "register_timer now interval delay cb data ht = Inr (tid, ht')" "ht_inv ht'"
    "nodes ht' = (nodes ht)(next_node ht \<mapsto> \<lparr>timer_id = tid, expire_time = e,
       interval_time = interval, node_data = data, cb_obj = cb\<rparr>)"
    "next_node ht \<notin> dom (nodes ht)" "0 < tid" "id_index tid = free_timer_node_index ht"
    by (rule register_timer_correct [OF inv room tv])
  have dom: "dom (nodes ht) = live ht" "dom (nodes ht') = live ht'"
    using inv r(2) by (simp_all add: ht_inv_def)
  then have live': "live ht' = insert (next_node ht) (live ht)" using r(3) by auto
  have fresh: "pending_of ht tid = None"
    using pending_of_None [OF inv, of tid] pop_free_timer_id_correct(4) [OF inv] r(6)
    by (auto simp: slot_def image_iff)
  have nn: "next_node ht \<notin> live ht" using r(4) dom by simp
  have "pending_of ht' = (pending_of ht)(tid \<mapsto> (cb, data))"
  proof (rule pending_of_eqI [OF r(2)])
    fix a assume "a \<in> live ht'"
    then consider "a = next_node ht" | "a \<in> live ht" "a \<noteq> next_node ht" using live' nn by auto
    then show "((pending_of ht)(tid \<mapsto> (cb, data))) (timer_id (the (nodes ht' a))) =
        Some (cb_obj (the (nodes ht' a)), node_data (the (nodes ht' a)))"
    proof cases
      case 2
      then have "timer_id (the (nodes ht a)) \<noteq> tid" using fresh pending_of_None [OF inv, of tid] by simp
      then show ?thesis using 2 r(3) pending_of_Some [OF inv 2(1)] by simp
    qed (simp add: r(3))
  next
    fix t assume "((pending_of ht)(tid \<mapsto> (cb, data))) t \<noteq> None"
    then consider "t = tid" | "pending_of ht t \<noteq> None" by (auto split: if_splits)
    then show "\<exists>a\<in>live ht'. timer_id (the (nodes ht' a)) = t"
    proof cases
      case 2
      then obtain a where "a \<in> live ht" "timer_id (the (nodes ht a)) = t"
        using pending_of_None [OF inv, of t] by auto
      then show ?thesis using live' r(3) nn by (intro bexI [of _ a]) auto
    qed (use live' r(3) in auto)
  qed
  then show ?thesis using r(1,2,5) fresh by blast
qed

lemma removed_pending:
  assumes inv: "ht_inv ht" and a: "a \<in> live ht" and r: "removed ht a ht'"
  shows "pending_of ht' = (pending_of ht)(timer_id (the (nodes ht a)) := None)"
proof -
  have inv': "ht_inv ht'" and ns: "nodes ht' = (nodes ht)(a := None)" using r by (simp_all add: removed_def)
  have "dom (nodes ht') = live ht'" using inv' by (simp add: ht_inv_def)
  then have live': "live ht' = live ht - {a}" using ns inv by (auto simp: ht_inv_def)
  show ?thesis
  proof (rule pending_of_eqI [OF inv'])
    fix b assume "b \<in> live ht'"
    then have b: "b \<in> live ht" "b \<noteq> a" using live' by auto
    then have "timer_id (the (nodes ht b)) \<noteq> timer_id (the (nodes ht a))"
      using live_timer_id_inj [OF inv _ a] by auto
    then show "((pending_of ht)(timer_id (the (nodes ht a)) := None)) (timer_id (the (nodes ht' b))) =
        Some (cb_obj (the (nodes ht' b)), node_data (the (nodes ht' b)))"
      using pending_of_Some [OF inv b(1)] ns b by simp
  next
    fix t assume "((pending_of ht)(timer_id (the (nodes ht a)) := None)) t \<noteq> None"
    then have t: "t \<noteq> timer_id (the (nodes ht a))" "pending_of ht t \<noteq> None" by (auto split: if_splits)
    then obtain b where "b \<in> live ht" "timer_id (the (nodes ht b)) = t"
      using pending_of_None [OF inv, of t] by auto
    then show "\<exists>b\<in>live ht'. timer_id (the (nodes ht' b)) = t" using live' ns t(1)
      by (intro bexI [of _ b]) auto
  qed
qed

lemma unregister_pending:
  assumes inv: "ht_inv ht" and p: "pending_of ht tid \<noteq> None"
  shows "\<exists>ht'. unregister_timer tid ht = Inr ht' \<and> ht_inv ht' \<and>
    pending_of ht' = (pending_of ht)(tid := None) \<and> heap_size ht' = heap_size ht"
proof -
  obtain a where a: "a \<in> live ht" "timer_id (the (nodes ht a)) = tid"
    using p pending_of_None [OF inv, of tid] by auto
  obtain ht' where u: "unregister_timer tid ht = Inr ht'" "removed ht a ht'"
    by (rule unregister_live [OF inv a(1), unfolded a(2)])
  moreover have "ht_inv ht'" "heap_size ht' = heap_size ht" using u(2) by (simp_all add: removed_def)
  ultimately show ?thesis using removed_pending [OF inv a(1) u(2)] a(2) by auto
qed

lemma pending_of_pos:
  assumes inv: "ht_inv ht" and p: "pending_of ht tid \<noteq> None"
  shows "0 < tid"
proof -
  obtain a where a: "a \<in> live ht" "timer_id (the (nodes ht a)) = tid"
    using p pending_of_None [OF inv, of tid] by auto
  have ok: "node_ok (rand_array ht) (the (nodes ht a))" using inv a by (simp add: ht_inv_def)
  note s = node_ok_slot [where rs = "rand_array ht" and ns = "nodes ht" and a = a, OF ok]
  then have "0 < mk_timer_id (slot (nodes ht) a) (rand_array ht ! nat (slot (nodes ht) a))"
    by (intro mk_timer_id_pos) simp_all
  then show ?thesis using s(3) a(2) by simp
qed

interpretation tm: timer_service ht_inv "\<lambda>ht. heap_size ht < 1073741824" pending_of
  register_timer unregister_timer
proof unfold_locales
  fix s tid assume "ht_inv s" "pending_of s tid \<noteq> None"
  then show "\<exists>s'. unregister_timer tid s = Inr s' \<and> ht_inv s' \<and> pending_of s' = (pending_of s)(tid := None) \<and>
      (heap_size s < 1073741824 \<longrightarrow> heap_size s' < 1073741824)"
    using unregister_pending by metis
qed (use register_pending pending_of_pos in auto)

lemma register_heap_size:
  "register_timer now interval delay cb data ht = Inr (tid, ht') \<Longrightarrow> heap_size ht' \<le> 2 * heap_size ht"
  by (auto simp: register_timer_def pop_free_timer_id_def grow_heap_def Let_def rbind_eq_Inr_iff split: if_splits)

section \<open>Faults\<close>

text \<open>Removing the root when it is not the node that is freed afterwards.\<close>

lemma poll_remove_dangling:
  assumes inv: "ht_inv ht" and a: "nodes ht a = None" "a \<noteq> 0"
  shows "poll_remove ht a = Inl Dangling"
proof (cases "cur_size ht = 0")
  case True
  then show ?thesis using a by (simp add: poll_remove_def remove_node_def delete_node_def deref_def)
next
  case False
  then obtain h' ix' where "remove_node ht 0 =
      Inr (Some (heap ht ! 0), vacate ht (heap ht ! 0) h' ix' (dead_ns ht (heap ht ! 0)))"
    using remove_node_correct [OF inv _ refl] by blast
  moreover have "a \<noteq> heap ht ! 0" using root_facts(1) [OF inv] False inv a(1) by (auto simp: ht_inv_def)
  ultimately show ?thesis using a by (simp add: poll_remove_def delete_node_def deref_def)
qed

section \<open>A heap for the examples\<close>

text \<open>Two timers of data 1 and 2, registered at second 100 with callback object 7, that
  expire after one and two seconds and then every five.\<close>

lemma example_heap:
  obtains ht where "ht_inv ht" "heap_size ht < 1073741824" "card (live ht) = 2"
    "\<forall>a\<in>live ht. cb_obj (the (nodes ht a)) = Some 7 \<and> interval_time (the (nodes ht a)) = TimeValue 5 0 \<and>
       expire_time (the (nodes ht a)) < TimeValue 200 0"
proof -
  let ?reg = "register_timer 100 (TimeValue 5 0)" and ?h = "heap_timer_new 8 100"
  let ?n = "\<lambda>t e d. \<lparr>timer_id = t, expire_time = e, interval_time = TimeValue 5 0, node_data = d, cb_obj = Some 7\<rparr>"
  have iv: "TimeValue 5 0 \<noteq> TimeValue 0 0" by simp
  have inv0: "ht_inv ?h" by (rule ht_inv_new) (simp_all add: seed_ok_def rand_consts i32_id)
  have room0: "heap_size ?h < 1073741824" by (simp add: heap_timer_new_def)
  obtain t1 e1 ht1 where r1: "ht_inv ht1" "nodes ht1 = (nodes ?h)(next_node ?h \<mapsto> ?n t1 e1 1)"
    "tv_us e1 = 100 * 1000000 + tv_us (TimeValue 1 0)" "heap_size ht1 \<le> 2 * heap_size ?h"
    by (rule register_timer_correct [OF inv0 room0 tv_canonical_secs tv_canonical_secs iv,
          where now = 100 and cb = "Some 7" and data = 1])
  then have room1: "heap_size ht1 < 1073741824" by (simp add: heap_timer_new_def)
  obtain t2 e2 ht2 where r2: "ht_inv ht2" "nodes ht2 = (nodes ht1)(next_node ht1 \<mapsto> ?n t2 e2 2)"
    "next_node ht1 \<notin> dom (nodes ht1)" "tv_us e2 = 100 * 1000000 + tv_us (TimeValue 2 0)"
    "heap_size ht2 \<le> 2 * heap_size ht1"
    by (rule register_timer_correct [OF r1(1) room1 tv_canonical_secs tv_canonical_secs iv,
          where now = 100 and cb = "Some 7" and data = 2])
  have empty: "nodes ?h = Map.empty" by (simp add: heap_timer_new_def)
  let ?a = "next_node ?h" and ?b = "next_node ht1"
  have ab: "?b \<noteq> ?a" using r1(2) r2(3) by auto
  have live: "live ht2 = {?a, ?b}" using r1(1,2) r2(1,2) empty by (auto simp: ht_inv_def)
  have na: "the (nodes ht2 ?a) = ?n t1 e1 1" "the (nodes ht2 ?b) = ?n t2 e2 2"
    using r1(2) r2(2) ab by auto
  have "node_ok (rand_array ht2) (the (nodes ht2 ?a))" "node_ok (rand_array ht2) (the (nodes ht2 ?b))"
    using r2(1) live by (auto simp: ht_inv_def)
  then have "tv_canonical e1" "tv_canonical e2" using na by (simp_all add: node_ok_def)
  then have "e1 < TimeValue 200 0" "e2 < TimeValue 200 0"
    using r1(3) r2(4) by (simp_all add: tv_less_iff_us) (simp_all add: tv_us_def)
  moreover have "heap_size ht2 < 1073741824"
    using r1(4) r2(5) by (simp add: heap_timer_new_def)
  ultimately show thesis using that [of ht2] r2(1) live na ab by auto
qed

section \<open>Properties\<close>

text \<open>C25: \<open>RegisterTimer\<close> on a heap in its invariant, with a canonical non-zero interval,
  returns a fresh positive id, keeps the invariant and makes exactly that id pending with the
  given callback and data.\<close>

theorem register_timer_spec:
  "ht_inv ht \<Longrightarrow> heap_size ht < 1073741824 \<Longrightarrow> tv_canonical interval \<Longrightarrow> tv_canonical delay \<Longrightarrow>
   interval \<noteq> TimeValue 0 0 \<Longrightarrow>
   \<exists>tid ht'. register_timer now interval delay cb d ht = Inr (tid, ht') \<and> ht_inv ht' \<and> 0 < tid \<and>
     pending_of ht tid = None \<and> pending_of ht' = (pending_of ht)(tid \<mapsto> (cb, d))"
  by (rule tm.register_law)

theorem register_timer_spec_witness:
  "\<exists>tid ht'. register_timer 100 (TimeValue 5 0) (TimeValue 1 0) (Some 7) 1 (heap_timer_new 8 100) = Inr (tid, ht') \<and>
     ht_inv ht' \<and> 0 < tid \<and> pending_of (heap_timer_new 8 100) tid = None \<and>
     pending_of ht' = (pending_of (heap_timer_new 8 100))(tid \<mapsto> (Some 7, 1))"
  by (rule register_timer_spec) (simp_all add: ht_inv_new seed_ok_def rand_consts i32_id, simp add: heap_timer_new_def)

text \<open>C26: \<open>UnregisterTimer\<close> of a pending id removes exactly that timer, keeps the invariant
  and frees its node without a fault.\<close>

theorem unregister_timer_spec:
  "ht_inv ht \<Longrightarrow> pending_of ht tid \<noteq> None \<Longrightarrow>
   \<exists>ht'. unregister_timer tid ht = Inr ht' \<and> ht_inv ht' \<and> pending_of ht' = (pending_of ht)(tid := None) \<and>
     dom (nodes ht') \<subset> dom (nodes ht)"
proof -
  assume inv: "ht_inv ht" and p: "pending_of ht tid \<noteq> None"
  obtain a where a: "a \<in> live ht" "timer_id (the (nodes ht a)) = tid"
    using p pending_of_None [OF inv, of tid] by auto
  obtain ht' where u: "unregister_timer tid ht = Inr ht'" "removed ht a ht'"
    by (rule unregister_live [OF inv a(1), unfolded a(2)])
  have "dom (nodes ht') \<subset> dom (nodes ht)" using u(2) a(1) inv by (auto simp: removed_def ht_inv_def)
  then show ?thesis using u removed_pending [OF inv a(1) u(2)] a(2) by (auto simp: removed_def)
qed

theorem unregister_timer_spec_witness:
  "\<exists>ht tid ht'. ht_inv ht \<and> unregister_timer tid ht = Inr ht' \<and> pending_of ht tid \<noteq> None \<and>
     pending_of ht' = (pending_of ht)(tid := None)"
proof -
  obtain ht where ht: "ht_inv ht" "card (live ht) = 2" by (rule example_heap)
  then obtain a where "a \<in> live ht" by fastforce
  then have "pending_of ht (timer_id (the (nodes ht a))) \<noteq> None" using ht(1) pending_of_Some by simp
  then show ?thesis using unregister_timer_spec [OF ht(1)] ht(1) by blast
qed

text \<open>C10: \<open>TimerPoll\<close> with callbacks that leave the heap alone, on timers with positive
  intervals, returns; it has then called every due timer's callback exactly once, in the
  order of expiry, re-armed each at \<open>now\<close> plus its interval when the callback returned 0 and
  freed it otherwise, left the other timers alone, and no timer is due any more.\<close>

theorem timer_poll_spec:
  "ht_inv ht \<Longrightarrow> tv_canonical now \<Longrightarrow> all_periodic ht \<Longrightarrow>
   \<exists>ht' xs. timer_poll (logging f) now ht [] = Some (Inr (ht', fired (nodes ht) xs)) \<and>
     ht_inv ht' \<and> due ht' now = {} \<and> distinct xs \<and> set xs = due ht now \<and>
     sorted_wrt (\<lambda>a b. expire_time (the (nodes ht a)) \<le> expire_time (the (nodes ht b))) xs \<and>
     (\<forall>a. settled f now ht ht' a)"
  using timer_poll_logging [of ht now f "[]"] by simp

theorem timer_poll_spec_witness:
  "\<exists>ht ht' xs. timer_poll (logging (\<lambda>c t d. if d = 1 then 0 else 1)) (TimeValue 200 0) ht [] =
      Some (Inr (ht', fired (nodes ht) xs)) \<and>
    distinct xs \<and> set xs = live ht \<and> card (live ht) = 2 \<and> due ht' (TimeValue 200 0) = {}"
proof -
  obtain ht where ht: "ht_inv ht" "card (live ht) = 2"
    "\<forall>a\<in>live ht. cb_obj (the (nodes ht a)) = Some 7 \<and> interval_time (the (nodes ht a)) = TimeValue 5 0 \<and>
       expire_time (the (nodes ht a)) < TimeValue 200 0" by (rule example_heap)
  then have "all_periodic ht" "due ht (TimeValue 200 0) = live ht"
    by (auto simp: all_periodic_def due_def tv_us_def less_imp_le)
  then show ?thesis
    using timer_poll_spec [OF ht(1) tv_canonical_secs [of 200], of "\<lambda>c t d. if d = 1 then 0 else 1"] ht(2) by metis
qed

text \<open>\<open>FirstTimeout\<close>: the expiry of the root is the least expiry of all
  pending timers, and there is none exactly when no timer is pending.\<close>

theorem first_timeout_spec:
  "ht_inv ht \<Longrightarrow> first_timeout ht = Inr (if live ht = {} then None
     else Some (Min ((\<lambda>a. expire_time (the (nodes ht a))) ` live ht)))"
  by (rule first_timeout_min)

theorem first_timeout_spec_witness:
  "\<exists>ht e. card (live ht) = 2 \<and> first_timeout ht = Inr (Some e) \<and>
     e = Min ((\<lambda>a. expire_time (the (nodes ht a))) ` live ht)"
proof -
  obtain ht where ht: "ht_inv ht" "card (live ht) = 2" by (rule example_heap)
  then have "live ht \<noteq> {}" by force
  then show ?thesis using first_timeout_spec [OF ht(1)] ht(2) by auto
qed

text \<open>The destructor frees every node of the heap once: it ends without a fault, with no
  node allocated.\<close>

theorem heap_timer_delete_spec:
  "ht_inv ht \<Longrightarrow> heap_timer_delete ht = Inr (ht\<lparr>nodes := Map.empty\<rparr>)"
  by (rule heap_timer_delete_correct)

theorem heap_timer_delete_spec_witness:
  "\<exists>ht. nodes ht \<noteq> Map.empty \<and> heap_timer_delete ht = Inr (ht\<lparr>nodes := Map.empty\<rparr>)"
proof -
  obtain ht where ht: "ht_inv ht" "card (live ht) = 2" by (rule example_heap)
  then have "live ht \<noteq> {}" by force
  then have "nodes ht \<noteq> Map.empty" using ht(1) by (auto simp: ht_inv_def)
  then show ?thesis using heap_timer_delete_spec [OF ht(1)] by blast
qed

text \<open>An iteration whose callback unregisters the timer it is run for.\<close>

lemma poll_self_unregister:
  assumes inv: "ht_inv ht" and due: "due ht now \<noteq> {}" and n: "n = the (nodes ht (heap ht ! 0))"
    and cb: "cb_obj n = Some c" "exec c (timer_id n) (node_data n) (ht, w) =
      rbind (unregister_timer (timer_id n) ht) (\<lambda>ht'. Inr (ret, ht', g ht'))"
  shows "poll_step exec now ht w = Inl Dangling"
proof -
  from due obtain b where b: "b \<in> live ht" "expire_time (the (nodes ht b)) \<le> now" by (auto simp: due_def)
  then have c: "0 < cur_size ht" by (auto simp: live_def)
  let ?a = "heap ht ! 0"
  note r = root_facts [OF inv c, folded n]
  have exp: "expire_time n \<le> now" using r(4) [OF b(1)] b(2) by simp
  obtain ht' where u: "unregister_timer (timer_id n) ht = Inr ht'" "removed ht ?a ht'"
    by (rule unregister_live [OF inv r(1), folded n])
  have inv': "ht_inv ht'" and "nodes ht' ?a = None" using u(2) by (simp_all add: removed_def)
  moreover have "\<forall>b\<in>live ht. 0 < b" using inv by (simp add: ht_inv_def)
  then have "?a \<noteq> 0" using r(1) by blast
  ultimately have a: "nodes ht' ?a = None" "?a \<noteq> 0" by simp_all
  have "deref (nodes ht') ?a = Inl Dangling" using a by (simp add: deref_def)
  then show ?thesis
    using c r(2,3) exp cb u(1) poll_remove_dangling [OF inv' a] by (simp add: poll_step_def)
qed

text \<open>A callback that unregisters the timer it is run for makes \<open>TimerPoll\<close> use the freed
  node: whatever it returns, the iteration ends in a use after free or a double free.\<close>

theorem timer_poll_self_unregister:
  assumes "ht_inv ht" "due ht now \<noteq> {}" "n = the (nodes ht (heap ht ! 0))"
    and "cb_obj n = Some c" "exec c (timer_id n) (node_data n) (ht, w) =
      rbind (unregister_timer (timer_id n) ht) (\<lambda>ht'. Inr (ret, ht', w))"
  shows "poll_step exec now ht w = Inl Dangling"
  by (rule poll_self_unregister [OF assms(1-4), where g = "\<lambda>_. w" and exec = exec and w = w and ret = ret, OF assms(5)])

theorem timer_poll_self_unregister_witness:
  "\<exists>ht. ht_inv ht \<and> poll_step (\<lambda>c t d (h, w). rbind (unregister_timer t h) (\<lambda>h'. Inr (1, h', w)))
     (TimeValue 200 0) ht () = Inl Dangling"
proof -
  obtain ht where ht: "ht_inv ht" "card (live ht) = 2"
    "\<forall>a\<in>live ht. cb_obj (the (nodes ht a)) = Some 7 \<and> interval_time (the (nodes ht a)) = TimeValue 5 0 \<and>
       expire_time (the (nodes ht a)) < TimeValue 200 0" by (rule example_heap)
  obtain b where b: "b \<in> live ht" using ht(2) by fastforce
  then have "b \<in> due ht (TimeValue 200 0)" using ht(3) by (simp add: due_def less_imp_le)
  then have due: "due ht (TimeValue 200 0) \<noteq> {}" by blast
  have "0 < cur_size ht" using b by (auto simp: live_def)
  then have cb: "cb_obj (the (nodes ht (heap ht ! 0))) = Some 7" using root_facts(1) [OF ht(1)] ht(3) by blast
  show ?thesis
    by (rule exI [of _ ht], rule conjI [OF ht(1)],
        rule timer_poll_self_unregister [OF ht(1) due refl cb]) simp
qed

text \<open>\<open>UnregisterTimer\<close> guards the index of an id with \<open>>\<close> instead of \<open>\<ge>\<close>: an id whose
  index is the heap's size reads past the end of the index array.\<close>

theorem unregister_timer_out_of_bounds:
  "ht_inv ht \<Longrightarrow> id_index tid = int (heap_size ht) \<Longrightarrow> unregister_timer tid ht = Inl Out_Of_Bounds"
  by (simp add: unregister_timer_def Let_def ht_inv_def rd_out)

theorem unregister_timer_out_of_bounds_witness:
  "unregister_timer (mk_timer_id 9 1) (heap_timer_new 8 100) = Inl Out_Of_Bounds"
  by (rule unregister_timer_out_of_bounds)
    (simp_all add: ht_inv_new seed_ok_def rand_consts i32_id, simp add: heap_timer_new_def)

text \<open>An id that no pending timer has, of a canonical form and with an index other than the
  heap's size, is ignored by \<open>UnregisterTimer\<close>.\<close>

theorem unregister_timer_stale:
  "ht_inv ht \<Longrightarrow> pending_of ht tid = None \<Longrightarrow> tid = mk_timer_id (id_index tid) (id_rand tid) \<Longrightarrow>
   id_index tid \<noteq> int (heap_size ht) \<Longrightarrow> unregister_timer tid ht = Inr ht"
  by (rule unregister_unknown) (auto simp: pending_of_None)

theorem unregister_timer_stale_witness:
  "unregister_timer (mk_timer_id 3 77) (heap_timer_new 8 100) = Inr (heap_timer_new 8 100)"
proof (rule unregister_timer_stale)
  show inv: "ht_inv (heap_timer_new 8 100)"
    by (rule ht_inv_new) (simp_all add: seed_ok_def rand_consts i32_id)
  show "pending_of (heap_timer_new 8 100) (mk_timer_id 3 77) = None"
    using pending_of_None [OF inv] by (simp add: live_def heap_timer_new_def)
qed (simp_all add: heap_timer_new_def)

text \<open>A heap constructed for zero timers, the default of the servers' configuration, makes
  the first \<open>RegisterTimer\<close> read the index array out of bounds.\<close>

theorem register_timer_zero_size:
  "interval \<noteq> TimeValue 0 0 \<Longrightarrow>
   register_timer now interval delay cb d (heap_timer_new 0 start) = Inl Out_Of_Bounds"
  using interval_zero_iff [of interval]
  by (auto simp: register_timer_def heap_timer_new_def pop_free_timer_id_def rd_out)

theorem register_timer_zero_size_witness:
  "register_timer 100 (TimeValue 5 0) (TimeValue 1 0) None 0 (heap_timer_new 0 50) = Inl Out_Of_Bounds"
  by (rule register_timer_zero_size) simp

end
