(* ===== verification/Utils_Frame.thy ===== *)
theory Utils_Frame
  imports PF_Prelude
begin

text \<open>
  The helpers of \<open>common/frame/utils.{h,cpp}\<close> and the macros and wire structures of
  \<open>common/frame/comm_def.h\<close>: the FNV-1a hash, the bit swaps of the uid generator, the
  account and password checks, decimal printing and reading, and the accessors of the
  client and connection packets. Bytes are \<open>8 word\<close>s; \<open>char\<close> is signed, so comparisons
  read it with \<open>sint\<close>. \<open>Rdtsc\<close> and \<open>rand\<close> are arguments.
\<close>

type_synonym byte = "8 word"
type_synonym bytes = "byte list"

section \<open>Macros of comm\_def.h\<close>

definition ROUNDUP :: "int \<Rightarrow> int \<Rightarrow> int" where
  "ROUNDUP n width = (n + width - 1) AND NOT (width - 1)"

definition ROUNDDOWN :: "int \<Rightarrow> int \<Rightarrow> int" where
  "ROUNDDOWN n width = n AND NOT (- width)"

definition DIV_ROUND_UP :: "int \<Rightarrow> int \<Rightarrow> int" where
  "DIV_ROUND_UP n d = (n + d - 1) sdiv d"

text \<open>The commands and the header of the packets between connsvr and the game servers.\<close>

datatype conn_cmd = CONN_START | CONN_PROC | CONN_STOP

fun conn_cmd_code :: "conn_cmd \<Rightarrow> int" where
  "conn_cmd_code CONN_START = 1"
| "conn_cmd_code CONN_PROC = 2"
| "conn_cmd_code CONN_STOP = 3"

record conn_data =
  cd_conn_fd :: int
  cd_player_idx :: int
  cd_conn_cmd :: int

definition CONN_DATA_SIZE :: int where "CONN_DATA_SIZE = 12"
definition UINT16_SIZE :: int where "UINT16_SIZE = 2"

text \<open>Integers in memory: \<open>int32_t\<close> little endian, \<open>uint16_t\<close> in network order.\<close>

definition put_i32 :: "int \<Rightarrow> bytes" where
  "put_i32 v = map (\<lambda>k. word_of_int (drop_bit (8 * k) v)) [0, 1, 2, 3]"

fun get_i32 :: "bytes \<Rightarrow> int res" where
  "get_i32 (a # b # c # d # _) = Inr (i32 (uint a + 256 * uint b + 65536 * uint c + 16777216 * uint d))"
| "get_i32 _ = Inl Out_Of_Bounds"

fun ntohs_at :: "bytes \<Rightarrow> int res" where
  "ntohs_at (a # b # _) = Inr (256 * uint a + uint b)"
| "ntohs_at _ = Inl Out_Of_Bounds"

definition put_u16_be :: "int \<Rightarrow> bytes" where
  "put_u16_be v = [word_of_int (drop_bit 8 v), word_of_int v]"

definition put_conn_data :: "conn_data \<Rightarrow> bytes" where
  "put_conn_data d = put_i32 (cd_conn_fd d) @ put_i32 (cd_player_idx d) @ put_i32 (cd_conn_cmd d)"

lemma byte_range': "0 \<le> uint (c :: byte)" "uint (c :: byte) < 256"
  using uint_lt2p [of c] by simp_all

section \<open>Utils\<close>

definition fnv_step :: "64 word \<Rightarrow> byte \<Rightarrow> 64 word" where
  "fnv_step hval b = (let h = hval XOR ucast b in
     h + (push_bit 1 h + push_bit 4 h + push_bit 5 h + push_bit 7 h + push_bit 8 h + push_bit 40 h))"

definition fnv64a_hash :: "bytes \<Rightarrow> 64 word" where
  "fnv64a_hash buf = foldl fnv_step 0xcbf29ce484222325 buf"

definition bit_swap64 :: "64 word \<Rightarrow> int \<Rightarrow> int \<Rightarrow> 64 word" where
  "bit_swap64 num m n =
     (if m < 0 \<or> m > 63 \<or> n < 0 \<or> n > 63 then num
      else if num AND push_bit (nat m) 1 = num AND push_bit (nat n) 1 then num
      else num XOR (push_bit (nat m) 1 OR push_bit (nat n) 1))"

text \<open>The pairs of bit positions \<open>GenUidNum\<close> swaps, in order; \<open>tsc\<close> is the value of \<open>Rdtsc\<close>.\<close>

definition uid_swaps :: "(int \<times> int) list" where
  "uid_swaps = [(2, 3), (5, 7), (11, 13), (17, 19), (23, 29), (31, 37), (41, 43), (47, 53), (59, 61)]"

definition gen_uid_num :: "64 word \<Rightarrow> 64 word" where
  "gen_uid_num tsc = foldl (\<lambda>w (m, n). bit_swap64 w m n) tsc uid_swaps"

text \<open>\<open>ToString\<close> and \<open>ToNumber\<close> on \<open>uint64_t\<close>: the decimal output and input of a
  \<open>std::stringstream\<close>. Input skips blanks, takes a sign and the longest run of digits,
  saturates on overflow, negates modulo \<open>2^64\<close> after a minus sign; \<open>None\<close> is a failed
  extraction.\<close>

fun digits :: "nat \<Rightarrow> nat list" where
  "digits n = (if n < 10 then [n] else digits (n div 10) @ [n mod 10])"

declare digits.simps [simp del]

definition digit_char :: "nat \<Rightarrow> byte" where
  "digit_char d = of_nat (48 + d)"

definition to_string_u64 :: "64 word \<Rightarrow> bytes" where
  "to_string_u64 w = map digit_char (digits (unat w))"

definition gen_uid_str :: "64 word \<Rightarrow> bytes" where
  "gen_uid_str tsc = to_string_u64 (gen_uid_num tsc)"

definition is_space :: "byte \<Rightarrow> bool" where
  "is_space b \<longleftrightarrow> b = 32 \<or> (9 \<le> uint b \<and> uint b \<le> 13)"

definition is_digit :: "byte \<Rightarrow> bool" where
  "is_digit b \<longleftrightarrow> 48 \<le> uint b \<and> uint b \<le> 57"

definition digits_value :: "bytes \<Rightarrow> nat" where
  "digits_value ds = foldl (\<lambda>v b. 10 * v + (unat b - 48)) 0 ds"

definition to_number_u64 :: "bytes \<Rightarrow> 64 word option" where
  "to_number_u64 input =
     (let s = dropWhile is_space input;
          neg = (s \<noteq> [] \<and> hd s = 45);
          body = (if s \<noteq> [] \<and> (hd s = 45 \<or> hd s = 43) then tl s else s);
          ds = takeWhile is_digit body in
      if ds = [] then None
      else let v = digits_value ds in
        if v \<ge> 2 ^ 64 then Some (- 1) else Some (if neg then - of_nat v else of_nat v))"

text \<open>\<open>GenPassword8\<close>; the argument holds the eight results of \<open>rand()\<close>.\<close>

definition gen_password8 :: "int list \<Rightarrow> bytes" where
  "gen_password8 rands = map (\<lambda>r. word_of_int (r smod 10 + 48)) (take 8 rands)"

text \<open>The character tests as the source writes them.\<close>

definition not_letter :: "byte \<Rightarrow> bool" where
  "not_letter c \<longleftrightarrow> sint c < 65 \<or> (sint c > 90 \<and> sint c < 97) \<or> sint c > 122"

definition not_alnum :: "byte \<Rightarrow> bool" where
  "not_alnum c \<longleftrightarrow> sint c < 48 \<or> (sint c > 57 \<and> sint c < 65) \<or> (sint c > 90 \<and> sint c < 97) \<or> sint c > 122"

text \<open>The loops: \<open>ret\<close> at the first bad character among the positions \<open>is\<close>.\<close>

fun check_chars :: "bytes \<Rightarrow> int \<Rightarrow> nat list \<Rightarrow> int res" where
  "check_chars s ret [] = Inr 0"
| "check_chars s ret (i # is) =
     rbind (rd s (int i)) (\<lambda>c. if not_alnum c then Inr ret else check_chars s ret is)"

definition check_account :: "bytes \<Rightarrow> int \<Rightarrow> int res" where
  "check_account account len =
     (if len < 6 \<or> len > 32 then Inr (- 1)
      else rbind (rd account 0) (\<lambda>c.
        if not_letter c then Inr (- 2) else check_chars account (- 3) [1..<nat len]))"

definition check_password :: "bytes \<Rightarrow> int \<Rightarrow> int res" where
  "check_password password len =
     (if len < 4 \<or> len > 16 then Inr (- 1) else check_chars password (- 2) [0..<nat len])"

text \<open>Packet accessors. \<open>GetMsg...\<close> return the rest of the buffer after the header.\<close>

definition get_msg_from_client :: "bytes \<Rightarrow> bytes" where
  "get_msg_from_client pkg_buf = drop 2 pkg_buf"

definition get_msg_len_from_client :: "bytes \<Rightarrow> int res" where
  "get_msg_len_from_client pkg_buf = rbind (ntohs_at pkg_buf) (\<lambda>l. Inr (i32 (u64 (l - 2))))"

definition get_msg_from_conn :: "bytes \<Rightarrow> bytes" where
  "get_msg_from_conn pkg_buf = drop 12 pkg_buf"

definition get_msg_len_from_conn :: "int \<Rightarrow> int" where
  "get_msg_len_from_conn pkg_len = i32 (u64 (pkg_len - 12))"

definition get_conn_data_from_conn :: "bytes \<Rightarrow> conn_data res" where
  "get_conn_data_from_conn pkg_buf =
     rbind (get_i32 pkg_buf) (\<lambda>fd. rbind (get_i32 (drop 4 pkg_buf)) (\<lambda>idx.
     rbind (get_i32 (drop 8 pkg_buf)) (\<lambda>cmd.
     Inr \<lparr>cd_conn_fd = fd, cd_player_idx = idx, cd_conn_cmd = cmd\<rparr>)))"

end
