(* ===== verification/Frame_Iface.thy ===== *)
theory Frame_Iface
  imports Utils_Frame
begin

text \<open>
  Length-prefixed frames in a byte stream. A frame is a 16-bit length in network order that
  counts itself, followed by the payload. \<open>split_frames\<close> is the abstract decoder of a
  stream; the locale \<open>frame_buffer\<close> is the contract of the receive buffers of connsvr and
  of the test client, which are byte arrays with a fill count.
\<close>

section \<open>Frames of a stream\<close>

definition plen :: "bytes \<Rightarrow> int" where
  "plen d = 256 * uint (d ! 0) + uint (d ! 1)"

definition frame_ready :: "bytes \<Rightarrow> bool" where
  "frame_ready d \<longleftrightarrow> 4 < length d \<and> plen d \<le> int (length d)"

definition payload :: "bytes \<Rightarrow> bytes" where
  "payload d = take (nat (plen d) - 2) (drop 2 d)"

function split_frames :: "bytes \<Rightarrow> bytes list \<times> bytes" where
  "split_frames d =
     (if frame_ready d \<and> 2 \<le> plen d then
        (let (fs, r) = split_frames (drop (nat (plen d)) d) in (payload d # fs, r))
      else ([], d))"
  by pat_completeness auto
termination by (relation "measure length") (auto simp: frame_ready_def)

declare split_frames.simps [simp del]

definition encode_frame :: "bytes \<Rightarrow> bytes" where
  "encode_frame m = put_u16_be (int (length m) + 2) @ m"

lemma plen_nonneg: "0 \<le> plen d"
  by (simp add: plen_def)

lemma ntohs_at_plen: "2 \<le> length d \<Longrightarrow> ntohs_at d = Inr (plen d)"
  by (cases d rule: ntohs_at.cases) (auto simp: plen_def)

lemma plen_append: "2 \<le> length a \<Longrightarrow> plen (a @ b) = plen a"
  by (cases a) (auto simp: plen_def nth_append)

lemma plen_take: "2 \<le> n \<Longrightarrow> plen (take n d) = plen d"
  by (simp add: plen_def)

lemma uint_be: "0 \<le> v \<Longrightarrow> v < 65536 \<Longrightarrow>
  256 * uint (word_of_int (drop_bit 8 v) :: byte) + uint (word_of_int v :: byte) = v"
proof -
  assume v: "0 \<le> v" "v < 65536"
  have "uint (word_of_int (drop_bit 8 v) :: byte) = v div 256 mod 256"
    by (simp add: uint_word_of_int drop_bit_eq_div)
  also have "\<dots> = v div 256" using v by (intro mod_pos_pos_trivial) auto
  finally show ?thesis by (simp add: uint_word_of_int)
qed

lemma encode_frame_length [simp]: "length (encode_frame m) = length m + 2"
  by (simp add: encode_frame_def put_u16_be_def)

lemma encode_frame_plen:
  assumes "length m + 2 < 65536"
  shows "plen (encode_frame m @ rest) = int (length m) + 2"
  using uint_be [of "int (length m) + 2"] assms
  by (simp add: plen_def encode_frame_def put_u16_be_def)

lemma encode_frame_parts:
  assumes "length m + 2 < 65536"
  shows "payload (encode_frame m @ rest) = m" "drop (nat (plen (encode_frame m @ rest))) (encode_frame m @ rest) = rest"
proof -
  have n: "nat (plen (encode_frame m @ rest)) = length m + 2" using encode_frame_plen [OF assms] by simp
  show "payload (encode_frame m @ rest) = m"
    by (simp add: payload_def n) (simp add: encode_frame_def put_u16_be_def)
  show "drop (nat (plen (encode_frame m @ rest))) (encode_frame m @ rest) = rest"
    unfolding n by simp
qed

text \<open>Splitting what has arrived so far and then the rest is splitting everything.\<close>

lemma split_frames_append:
  "split_frames (a @ b) =
     (let (f1, r1) = split_frames a; (f2, r2) = split_frames (r1 @ b) in (f1 @ f2, r2))"
proof (induction a rule: split_frames.induct)
  case (1 a)
  show ?case
  proof (cases "frame_ready a \<and> 2 \<le> plen a")
    case False
    then have "split_frames a = ([], a)" by (subst split_frames.simps) (simp only: if_False)
    then show ?thesis by (simp split: prod.split)
  next
    case True
    then have len: "4 < length a" "nat (plen a) \<le> length a" by (auto simp: frame_ready_def)
    have pl: "plen (a @ b) = plen a" using len by (simp add: plen_append)
    have "frame_ready (a @ b) \<and> 2 \<le> plen (a @ b)" using True pl by (simp add: frame_ready_def)
    then have "split_frames (a @ b) =
        (let (fs, r) = split_frames (drop (nat (plen a)) a @ b) in (payload (a @ b) # fs, r))"
      using len by (subst split_frames.simps) (simp add: pl)
    moreover have "payload (a @ b) = payload a"
      unfolding payload_def pl using len by simp
    moreover have "split_frames a =
        (let (fs, r) = split_frames (drop (nat (plen a)) a) in (payload a # fs, r))"
      using True by (subst split_frames.simps) simp
    ultimately show ?thesis using 1 [OF True] by (simp split: prod.splits)
  qed
qed

lemma split_frames_encode:
  assumes "3 \<le> length m" "length m + 2 < 65536"
  shows "split_frames (encode_frame m @ rest) = (let (fs, r) = split_frames rest in (m # fs, r))"
proof -
  have "frame_ready (encode_frame m @ rest) \<and> 2 \<le> plen (encode_frame m @ rest)"
    using assms encode_frame_plen [OF assms(2), of rest] by (simp add: frame_ready_def)
  then show ?thesis
    using encode_frame_parts [OF assms(2), of rest] by (subst split_frames.simps) simp
qed

lemma split_frames_stream:
  assumes "\<forall>m\<in>set ms. 3 \<le> length m \<and> length m + 2 < 65536" "\<not> frame_ready rest"
  shows "split_frames (concat (map encode_frame ms) @ rest) = (ms, rest)"
  using assms(1)
proof (induction ms)
  case Nil
  then show ?case using assms(2) by (simp add: split_frames.simps [of rest])
next
  case (Cons m ms)
  then show ?case using split_frames_encode [of m "concat (map encode_frame ms) @ rest"] by simp
qed

lemma split_frames_rest: "split_frames d = (fs, r) \<Longrightarrow> length r \<le> length d"
proof (induction d arbitrary: fs r rule: split_frames.induct)
  case (1 d)
  show ?case
  proof (cases "frame_ready d \<and> 2 \<le> plen d")
    case True
    then obtain fs' r' where "split_frames (drop (nat (plen d)) d) = (fs', r')" by fastforce
    moreover from this have "r = r'" using 1(2) True by (subst (asm) split_frames.simps) simp
    ultimately show ?thesis using 1(1) [OF True] by fastforce
  next
    case False
    then show ?thesis using 1(2) by (subst (asm) split_frames.simps) auto
  qed
qed

text \<open>A stream of encoded messages cut anywhere: the first part yields its complete messages, and
  its residue is the beginning of the next message.\<close>

lemma split_frames_cut:
  assumes "\<forall>m\<in>set ms. 3 \<le> length m \<and> length m + 2 < 65536" "a @ b = concat (map encode_frame ms)"
  shows "\<exists>ms1 ms2 r. ms = ms1 @ ms2 \<and> split_frames a = (ms1, r) \<and> r @ b = concat (map encode_frame ms2) \<and>
    \<not> frame_ready r \<and> (r = [] \<or> (\<exists>m\<in>set ms2. length r < length m + 2))"
  using assms
proof (induction ms arbitrary: a)
  case Nil
  then show ?case by (simp add: split_frames.simps [of "[]"] frame_ready_def)
next
  case (Cons m ms)
  have len: "3 \<le> length m" "length m + 2 < 65536" using Cons.prems(1) by simp_all
  have eq: "a @ b = encode_frame m @ concat (map encode_frame ms)" using Cons.prems(2) by simp
  show ?case
  proof (cases "length m + 2 \<le> length a")
    case True
    then obtain a' where a: "a = encode_frame m @ a'"
      using eq by (metis append_eq_append_conv_if encode_frame_length append_take_drop_id)
    then have "a' @ b = concat (map encode_frame ms)" using eq by simp
    from Cons.IH [OF _ this] Cons.prems(1)
    obtain ms1 ms2 r where ih: "ms = ms1 @ ms2" "split_frames a' = (ms1, r)" "r @ b = concat (map encode_frame ms2)"
      "\<not> frame_ready r" "r = [] \<or> (\<exists>m\<in>set ms2. length r < length m + 2)" by auto
    then have "split_frames a = (m # ms1, r)" using split_frames_encode [OF len, of a'] a by simp
    then show ?thesis using ih by (intro exI [of _ "m # ms1"] exI [of _ ms2] exI [of _ r]) simp
  next
    case False
    have "\<not> frame_ready a"
    proof
      assume rdy: "frame_ready a"
      have "plen a = plen (a @ b)" using rdy by (simp add: plen_append frame_ready_def)
      also have "\<dots> = int (length m) + 2" unfolding eq by (rule encode_frame_plen [OF len(2)])
      finally show False using rdy False by (simp add: frame_ready_def)
    qed
    then have "split_frames a = ([], a)" by (subst split_frames.simps) (simp only: simp_thms if_False)
    then show ?thesis using False \<open>\<not> frame_ready a\<close> Cons.prems(2)
      by (intro exI [of _ "[]"] exI [of _ "m # ms"] exI [of _ a]) auto
  qed
qed

section \<open>The contract of a receive buffer\<close>

locale frame_buffer =
  fixes ok :: "'s \<Rightarrow> bool"
    and contents :: "'s \<Rightarrow> bytes"
    and cap :: nat
    and add :: "bytes \<Rightarrow> 's \<Rightarrow> (int \<times> 's) res"
    and ready :: "'s \<Rightarrow> bool res"
    and remove :: "'s \<Rightarrow> 's res"
  assumes add_law: "ok s \<Longrightarrow> length (contents s) + length d \<le> cap \<Longrightarrow>
      \<exists>s'. add d s = Inr (0, s') \<and> ok s' \<and> contents s' = contents s @ d"
    and add_over: "ok s \<Longrightarrow> cap < length (contents s) + length d \<Longrightarrow> \<exists>r. r \<noteq> 0 \<and> add d s = Inr (r, s)"
    and ready_law: "ok s \<Longrightarrow> ready s = Inr (frame_ready (contents s))"
    and remove_law: "ok s \<Longrightarrow> frame_ready (contents s) \<Longrightarrow>
      \<exists>s'. remove s = Inr s' \<and> ok s' \<and> contents s' = drop (nat (plen (contents s))) (contents s)"
    and cap_law: "ok s \<Longrightarrow> length (contents s) \<le> cap"
begin

lemma add_cases:
  assumes "ok s"
  obtains (fits) s' where "length (contents s) + length d \<le> cap" "add d s = Inr (0, s')" "ok s'"
      "contents s' = contents s @ d"
  | (over) r where "cap < length (contents s) + length d" "r \<noteq> 0" "add d s = Inr (r, s)"
  using add_law [OF assms, of d] add_over [OF assms, of d] by (cases "length (contents s) + length d \<le> cap") auto

text \<open>Taking the front frame off a buffer is one step of \<open>split_frames\<close> on its contents.\<close>

lemma remove_split:
  assumes "ok s" "frame_ready (contents s)" "2 \<le> plen (contents s)" "split_frames (contents s) = (fs, r)"
  obtains s' fs' where "remove s = Inr s'" "ok s'" "fs = payload (contents s) # fs'"
    "split_frames (contents s') = (fs', r)" "length (contents s') < length (contents s)"
proof -
  obtain s' where s': "remove s = Inr s'" "ok s'"
    "contents s' = drop (nat (plen (contents s))) (contents s)" using remove_law [OF assms(1,2)] by blast
  obtain fs' r' where f: "split_frames (contents s') = (fs', r')" by fastforce
  then have "fs = payload (contents s) # fs'" "r = r'"
    using assms(2-4) s'(3) by (subst (asm) (2) split_frames.simps; simp)+
  moreover have "length (contents s') < length (contents s)"
    using assms(2,3) unfolding s'(3) frame_ready_def length_drop by linarith
  ultimately show thesis using that s'(1,2) f by blast
qed

lemma not_ready_split:
  "ok s \<Longrightarrow> \<not> frame_ready (contents s) \<Longrightarrow> ready s = Inr False \<and> split_frames (contents s) = ([], contents s)"
  by (simp add: ready_law split_frames.simps [of "contents s"])

end

end
