(* ===== verification/Connection.thy ===== *)
theory Connection
  imports Frame_Iface
begin

text \<open>
  \<open>connsvr/conn_mgr_module/connection.{h,cpp}\<close>: a client connection with its receive and
  send buffers, which are fixed arrays with a fill count. The receive buffer meets the
  contract \<open>frame_buffer\<close>; the send buffer is a queue of bytes.
\<close>

section \<open>Model\<close>

definition PKG_BUF_SIZE :: int where "PKG_BUF_SIZE = 10240"

record connection =
  player_idx :: int
  conn_fd :: int
  recv_buf :: bytes
  recv_buf_size :: int
  send_buf :: bytes
  send_buf_size :: int

text \<open>\<open>Init\<close> zeroes the whole object.\<close>

definition conn_init :: connection where
  "conn_init = \<lparr>player_idx = 0, conn_fd = 0, recv_buf = replicate 10240 0, recv_buf_size = 0,
     send_buf = replicate 10240 0, send_buf_size = 0\<rparr>"

definition add_recv_data :: "bytes \<Rightarrow> connection \<Rightarrow> (int \<times> connection) res" where
  "add_recv_data buf c =
     (let buf_len = int (length buf) in
      if recv_buf_size c + buf_len > PKG_BUF_SIZE then Inr (- 1, c)
      else rbind (mem_write (recv_buf c) (recv_buf_size c) buf) (\<lambda>b.
        Inr (0, c\<lparr>recv_buf := b, recv_buf_size := recv_buf_size c + buf_len\<rparr>)))"

definition get_recv_proto_len :: "connection \<Rightarrow> int res" where
  "get_recv_proto_len c = ntohs_at (recv_buf c)"

definition is_recv_proto_ready :: "connection \<Rightarrow> bool res" where
  "is_recv_proto_ready c =
     (if recv_buf_size c > 4 then rbind (get_recv_proto_len c) (\<lambda>l. Inr (l \<le> recv_buf_size c))
      else Inr False)"

definition remove_recv_proto :: "connection \<Rightarrow> connection res" where
  "remove_recv_proto c =
     rbind (get_recv_proto_len c) (\<lambda>l.
     let sz = recv_buf_size c - l in
     rbind (mem_read (recv_buf c) l sz) (\<lambda>rest.
     rbind (mem_write (recv_buf c) 0 rest) (\<lambda>b.
     Inr (c\<lparr>recv_buf_size := sz, recv_buf := b\<rparr>))))"

definition get_remain_send_buf_size :: "connection \<Rightarrow> int" where
  "get_remain_send_buf_size c = PKG_BUF_SIZE - send_buf_size c"

definition add_send_data :: "bytes \<Rightarrow> connection \<Rightarrow> (int \<times> connection) res" where
  "add_send_data buf c =
     (let buf_len = int (length buf) in
      if send_buf_size c + buf_len > PKG_BUF_SIZE then Inr (- 1, c)
      else rbind (mem_write (send_buf c) (send_buf_size c) buf) (\<lambda>b.
        Inr (0, c\<lparr>send_buf := b, send_buf_size := send_buf_size c + buf_len\<rparr>)))"

definition remove_send_data :: "int \<Rightarrow> connection \<Rightarrow> connection res" where
  "remove_send_data len c =
     (let sz = send_buf_size c - len in
      rbind (mem_read (send_buf c) len sz) (\<lambda>rest.
      rbind (mem_write (send_buf c) 0 rest) (\<lambda>b.
      Inr (c\<lparr>send_buf_size := sz, send_buf := b\<rparr>))))"

definition clear_send_data :: "connection \<Rightarrow> connection" where
  "clear_send_data c = c\<lparr>send_buf_size := 0\<rparr>"

section \<open>Contents of the buffers\<close>

definition recv_data :: "connection \<Rightarrow> bytes" where
  "recv_data c = take (nat (recv_buf_size c)) (recv_buf c)"

definition send_data :: "connection \<Rightarrow> bytes" where
  "send_data c = take (nat (send_buf_size c)) (send_buf c)"

definition conn_ok :: "connection \<Rightarrow> bool" where
  "conn_ok c \<longleftrightarrow> length (recv_buf c) = 10240 \<and> length (send_buf c) = 10240 \<and>
     0 \<le> recv_buf_size c \<and> recv_buf_size c \<le> 10240 \<and> 0 \<le> send_buf_size c \<and> send_buf_size c \<le> 10240"

lemma conn_ok_init [simp]: "conn_ok conn_init"
  by (simp add: conn_ok_def conn_init_def)

lemma conn_init_data [simp]: "recv_data conn_init = []" "send_data conn_init = []" "player_idx conn_init = 0"
  by (simp_all add: recv_data_def send_data_def conn_init_def)

lemma recv_data_length: "conn_ok c \<Longrightarrow> int (length (recv_data c)) = recv_buf_size c"
  by (auto simp: recv_data_def conn_ok_def min_def)

lemma send_data_length: "conn_ok c \<Longrightarrow> int (length (send_data c)) = send_buf_size c"
  by (auto simp: send_data_def conn_ok_def min_def)

lemma recv_buf_plen:
  assumes "conn_ok c" "2 \<le> recv_buf_size c"
  shows "plen (recv_data c) = plen (recv_buf c)"
  using assms by (simp add: recv_data_def plen_take conn_ok_def nat_le_iff)

lemma get_recv_proto_len_eq: "conn_ok c \<Longrightarrow> get_recv_proto_len c = Inr (plen (recv_buf c))"
  by (simp add: get_recv_proto_len_def ntohs_at_plen conn_ok_def)

lemma take_append_mem:
  "length buf = n \<Longrightarrow> i + length d \<le> n \<Longrightarrow>
   take (i + length d) (take i buf @ d @ drop (i + length d) buf) = take i buf @ d"
  by simp

lemma add_recv_data_fits:
  assumes ok: "conn_ok c" and fits: "length (recv_data c) + length d \<le> 10240"
  shows "\<exists>c'. add_recv_data d c = Inr (0, c') \<and> conn_ok c' \<and> recv_data c' = recv_data c @ d \<and>
    player_idx c' = player_idx c \<and> conn_fd c' = conn_fd c \<and> send_buf c' = send_buf c \<and>
    send_buf_size c' = send_buf_size c"
proof -
  let ?n = "nat (recv_buf_size c)"
  have n: "?n + length d \<le> 10240" "0 \<le> recv_buf_size c" "length (recv_buf c) = 10240"
    using fits ok recv_data_length [OF ok] by (auto simp: conn_ok_def)
  let ?c = "c\<lparr>recv_buf := take ?n (recv_buf c) @ d @ drop (?n + length d) (recv_buf c),
    recv_buf_size := recv_buf_size c + int (length d)\<rparr>"
  have "add_recv_data d c = Inr (0, ?c)"
    using n by (simp add: add_recv_data_def mem_write_in PKG_BUF_SIZE_def Let_def)
  moreover have "conn_ok ?c" using ok n by (simp add: conn_ok_def)
  moreover have "recv_data ?c = recv_data c @ d"
  proof -
    have "nat (recv_buf_size c + int (length d)) = ?n + length d" using n by simp
    then show ?thesis using n by (simp add: recv_data_def)
  qed
  ultimately show ?thesis by (intro exI [of _ ?c]) simp
qed

lemma add_recv_data_over:
  "conn_ok c \<Longrightarrow> 10240 < length (recv_data c) + length d \<Longrightarrow> add_recv_data d c = Inr (- 1, c)"
  using recv_data_length [of c] by (simp add: add_recv_data_def PKG_BUF_SIZE_def)

lemma is_ready_eq: "conn_ok c \<Longrightarrow> is_recv_proto_ready c = Inr (frame_ready (recv_data c))"
  using recv_data_length [of c] recv_buf_plen [of c]
  by (auto simp: is_recv_proto_ready_def frame_ready_def get_recv_proto_len_eq)

lemma memmove_front:
  assumes "length buf = n" "0 \<le> l" "0 \<le> sz" "l + sz \<le> int n"
  shows "\<exists>b. rbind (mem_read buf l sz) (mem_write buf 0) = Inr b \<and> length b = n \<and>
    take (nat sz) b = take (nat sz) (drop (nat l) buf)"
proof -
  have "length (take (nat sz) (drop (nat l) buf)) = nat sz" using assms by simp
  then show ?thesis using assms by (simp add: mem_read_in mem_write_in)
qed

lemma remove_recv_proto_ready:
  assumes ok: "conn_ok c" and rdy: "frame_ready (recv_data c)"
  shows "\<exists>c'. remove_recv_proto c = Inr c' \<and> conn_ok c' \<and>
    recv_data c' = drop (nat (plen (recv_data c))) (recv_data c) \<and>
    player_idx c' = player_idx c \<and> conn_fd c' = conn_fd c \<and> send_buf c' = send_buf c \<and>
    send_buf_size c' = send_buf_size c"
proof -
  let ?l = "plen (recv_buf c)" and ?sz = "recv_buf_size c - plen (recv_buf c)"
  have sz: "4 < recv_buf_size c" "?l \<le> recv_buf_size c"
    using rdy recv_data_length [OF ok] recv_buf_plen [OF ok] by (auto simp: frame_ready_def)
  have L: "length (recv_buf c) = 10240" "recv_buf_size c \<le> 10240" using ok by (simp_all add: conn_ok_def)
  obtain b where b: "rbind (mem_read (recv_buf c) ?l ?sz) (mem_write (recv_buf c) 0) = Inr b" "length b = 10240"
    "take (nat ?sz) b = take (nat ?sz) (drop (nat ?l) (recv_buf c))"
    using memmove_front [OF L(1), of ?l ?sz] sz L plen_nonneg [of "recv_buf c"] by auto
  let ?c = "c\<lparr>recv_buf_size := ?sz, recv_buf := b\<rparr>"
  have "remove_recv_proto c = Inr ?c"
    using b(1) by (auto simp: remove_recv_proto_def get_recv_proto_len_eq [OF ok] Let_def rbind_eq_Inr_iff)
  moreover have "conn_ok ?c" using ok b(2) sz plen_nonneg [of "recv_buf c"] by (simp add: conn_ok_def)
  moreover have "recv_data ?c = drop (nat (plen (recv_data c))) (recv_data c)"
    using b(3) recv_buf_plen [OF ok] sz plen_nonneg [of "recv_buf c"]
    by (simp add: recv_data_def drop_take nat_diff_distrib)
  ultimately show ?thesis by (intro exI [of _ ?c]) simp
qed

interpretation rb: frame_buffer conn_ok recv_data 10240 add_recv_data is_recv_proto_ready remove_recv_proto
proof unfold_locales
  fix c d assume ok: "conn_ok c"
  show "\<exists>c'. add_recv_data d c = Inr (0, c') \<and> conn_ok c' \<and> recv_data c' = recv_data c @ d"
    if "length (recv_data c) + length d \<le> 10240" using add_recv_data_fits [OF ok that] by blast
  show "\<exists>r. r \<noteq> 0 \<and> add_recv_data d c = Inr (r, c)" if "10240 < length (recv_data c) + length d"
    using add_recv_data_over [OF ok that] by simp
  show "is_recv_proto_ready c = Inr (frame_ready (recv_data c))" by (rule is_ready_eq [OF ok])
  show "\<exists>c'. remove_recv_proto c = Inr c' \<and> conn_ok c' \<and>
      recv_data c' = drop (nat (plen (recv_data c))) (recv_data c)" if "frame_ready (recv_data c)"
    using remove_recv_proto_ready [OF ok that] by blast
  have "int (length (recv_data c)) \<le> 10240" using recv_data_length [OF ok] ok by (simp add: conn_ok_def)
  then show "length (recv_data c) \<le> 10240" by simp
qed

section \<open>The send buffer\<close>

lemma add_send_data_fits:
  assumes ok: "conn_ok c" and fits: "length (send_data c) + length d \<le> 10240"
  shows "\<exists>c'. add_send_data d c = Inr (0, c') \<and> conn_ok c' \<and> send_data c' = send_data c @ d \<and>
    recv_data c' = recv_data c \<and> player_idx c' = player_idx c \<and> conn_fd c' = conn_fd c"
proof -
  let ?n = "nat (send_buf_size c)"
  have n: "?n + length d \<le> 10240" "0 \<le> send_buf_size c" "length (send_buf c) = 10240"
    using fits ok send_data_length [OF ok] by (auto simp: conn_ok_def)
  let ?c = "c\<lparr>send_buf := take ?n (send_buf c) @ d @ drop (?n + length d) (send_buf c),
    send_buf_size := send_buf_size c + int (length d)\<rparr>"
  have "add_send_data d c = Inr (0, ?c)"
    using n by (simp add: add_send_data_def mem_write_in PKG_BUF_SIZE_def Let_def)
  moreover have "conn_ok ?c" using ok n by (simp add: conn_ok_def)
  moreover have "send_data ?c = send_data c @ d"
  proof -
    have "nat (send_buf_size c + int (length d)) = ?n + length d" using n by simp
    then show ?thesis using n by (simp add: send_data_def)
  qed
  ultimately show ?thesis by (intro exI [of _ ?c]) (simp add: recv_data_def)
qed

lemma add_send_data_over:
  "conn_ok c \<Longrightarrow> 10240 < length (send_data c) + length d \<Longrightarrow> add_send_data d c = Inr (- 1, c)"
  using send_data_length [of c] by (simp add: add_send_data_def PKG_BUF_SIZE_def)

lemma remove_send_data_ok:
  assumes ok: "conn_ok c" and l: "0 \<le> l" "l \<le> send_buf_size c"
  shows "\<exists>c'. remove_send_data l c = Inr c' \<and> conn_ok c' \<and> send_data c' = drop (nat l) (send_data c) \<and>
    recv_data c' = recv_data c \<and> player_idx c' = player_idx c \<and> conn_fd c' = conn_fd c"
proof -
  let ?sz = "send_buf_size c - l"
  have L: "length (send_buf c) = 10240" "send_buf_size c \<le> 10240" using ok by (simp_all add: conn_ok_def)
  obtain b where b: "rbind (mem_read (send_buf c) l ?sz) (mem_write (send_buf c) 0) = Inr b" "length b = 10240"
    "take (nat ?sz) b = take (nat ?sz) (drop (nat l) (send_buf c))"
    using memmove_front [OF L(1), of l ?sz] l L by auto
  let ?c = "c\<lparr>send_buf_size := ?sz, send_buf := b\<rparr>"
  have "remove_send_data l c = Inr ?c"
    using b(1) by (auto simp: remove_send_data_def Let_def rbind_eq_Inr_iff)
  moreover have "conn_ok ?c" using ok b(2) l by (simp add: conn_ok_def)
  moreover have "send_data ?c = drop (nat l) (send_data c)"
    using b(3) l by (simp add: send_data_def drop_take nat_diff_distrib)
  ultimately show ?thesis by (intro exI [of _ ?c]) (simp add: recv_data_def)
qed

lemma clear_send_data_ok:
  "conn_ok c \<Longrightarrow> conn_ok (clear_send_data c) \<and> send_data (clear_send_data c) = [] \<and>
   recv_data (clear_send_data c) = recv_data c \<and> conn_fd (clear_send_data c) = conn_fd c"
  by (simp add: conn_ok_def clear_send_data_def send_data_def recv_data_def)

end
