(* ===== verification/Slot_Iface.thy ===== *)
theory Slot_Iface
  imports PF_Prelude
begin

text \<open>
  The interface of a slot allocator, as the connection and object managers use the pools:
  allocation hands out an unused positive index while there is room, \<open>Find\<close> recognises
  exactly the indices in use, and releasing an index in use makes it available again.
\<close>

text \<open>Allocating \<open>n\<close> times, collecting the indices handed out.\<close>

fun alloc_many :: "('s \<Rightarrow> (int option \<times> 's) res) \<Rightarrow> nat \<Rightarrow> 's \<Rightarrow> (int list \<times> 's) res" where
  "alloc_many alloc 0 s = Inr ([], s)"
| "alloc_many alloc (Suc n) s = rbind (alloc s) (\<lambda>(r, s1).
     rbind (alloc_many alloc n s1) (\<lambda>(is, s2). Inr ((case r of None \<Rightarrow> is | Some i \<Rightarrow> i # is), s2)))"

locale slot_allocator =
  fixes inv :: "'s \<Rightarrow> bool"
    and used :: "'s \<Rightarrow> int set"
    and cap :: "'s \<Rightarrow> nat"
    and alloc :: "'s \<Rightarrow> (int option \<times> 's) res"
    and release :: "'s \<Rightarrow> int \<Rightarrow> 's res"
    and look :: "'s \<Rightarrow> int \<Rightarrow> int option res"
  assumes alloc_law: "inv s \<Longrightarrow> card (used s) < cap s \<Longrightarrow>
      \<exists>i s'. alloc s = Inr (Some i, s') \<and> inv s' \<and> 0 < i \<and> i \<notin> used s \<and>
        used s' = insert i (used s) \<and> cap s' = cap s"
    and alloc_full: "inv s \<Longrightarrow> card (used s) = cap s \<Longrightarrow> alloc s = Inr (None, s)"
    and release_law: "inv s \<Longrightarrow> i \<in> used s \<Longrightarrow>
      \<exists>s'. release s i = Inr s' \<and> inv s' \<and> used s' = used s - {i} \<and> cap s' = cap s"
    and look_law: "inv s \<Longrightarrow> look s i = Inr (if i \<in> used s then Some i else None)"
    and used_law: "inv s \<Longrightarrow> finite (used s) \<and> card (used s) \<le> cap s \<and> (\<forall>i\<in>used s. 0 < i)"
begin

lemma alloc_cases:
  assumes "inv s"
  obtains (full) "card (used s) = cap s" "alloc s = Inr (None, s)"
  | (slot) i s' where "card (used s) < cap s" "alloc s = Inr (Some i, s')" "inv s'" "0 < i" "i \<notin> used s"
      "used s' = insert i (used s)" "cap s' = cap s"
proof (cases "card (used s) = cap s")
  case True
  then show ?thesis using full alloc_full [OF assms] by blast
next
  case False
  then have "card (used s) < cap s" using used_law [OF assms] by simp
  then show ?thesis using slot alloc_law [OF assms] by blast
qed

lemma alloc_found:
  assumes "inv s" "alloc s = Inr (Some i, s')"
  shows "inv s'" "look s' i = Inr (Some i)" "look s i = Inr None" "0 < i"
    "used s' = insert i (used s)" "i \<notin> used s" "cap s' = cap s"
  using assms by (cases rule: alloc_cases; simp add: look_law)+

lemma alloc_release:
  assumes "inv s" "alloc s = Inr (Some i, s')"
  shows "\<exists>s''. release s' i = Inr s'' \<and> inv s'' \<and> used s'' = used s"
proof -
  note a = alloc_found [OF assms]
  obtain s'' where "release s' i = Inr s''" "inv s''" "used s'' = used s' - {i}"
    using release_law [of s' i] a by auto
  then show ?thesis using a by auto
qed

lemma alloc_many_distinct:
  assumes "inv s" "card (used s) + n \<le> cap s"
  shows "\<exists>is s'. alloc_many alloc n s = Inr (is, s') \<and> inv s' \<and> length is = n \<and> distinct is \<and>
    set is \<inter> used s = {} \<and> used s' = set is \<union> used s \<and> cap s' = cap s"
  using assms
proof (induction n arbitrary: s)
  case (Suc n)
  then have "card (used s) < cap s" by simp
  then obtain i s1 where a: "alloc s = Inr (Some i, s1)" "inv s1" "i \<notin> used s"
    "used s1 = insert i (used s)" "cap s1 = cap s"
    using alloc_law [OF Suc.prems(1)] by blast
  have "finite (used s)" using used_law [OF Suc.prems(1)] by simp
  then have "card (used s1) + n \<le> cap s1" using a Suc.prems(2) by simp
  then obtain "is" s2 where r: "alloc_many alloc n s1 = Inr (is, s2)" "inv s2" "length is = n" "distinct is"
    "set is \<inter> used s1 = {}" "used s2 = set is \<union> used s1" "cap s2 = cap s1"
    using Suc.IH [OF a(2)] by blast
  then show ?case using a by (intro exI [of _ "i # is"] exI [of _ s2]) auto
qed simp

end

end
