(* ===== verification/Shm_Pool.thy ===== *)
theory Shm_Pool
  imports Free_Chain Utils_Frame Slot_Iface
begin

text \<open>
  \<open>common/frame/shm_memory.{h,cpp}\<close> and \<open>common/frame/shm_pool.h\<close>: a segment of System V
  shared memory, and a pool of units in it. What the operating system answers (\<open>shmget\<close>,
  the contents of an attached segment) is an argument. The units \<open>{T mem; int32_t pos}\<close>
  are two lists of equal length; a pointer to a unit is its index.
\<close>

section \<open>ShmMemory\<close>

record shm_head =
  sh_key :: int
  sh_id :: int
  sh_chk :: int

record shm_memory =
  verify :: bool
  shm_hd :: "shm_head option"
  pool_size :: int

definition SHM_HEAD_SIZE :: int where "SHM_HEAD_SIZE = 12"

definition shm_memory_new :: "bool \<Rightarrow> shm_memory" where
  "shm_memory_new v = \<lparr>verify = v, shm_hd = None, pool_size = 0\<rparr>"

text \<open>
  \<open>Init\<close>: \<open>created\<close> is the id of the exclusive \<open>shmget\<close> (\<open>-1\<close> on failure), \<open>eexist\<close>
  whether it failed with \<open>EEXIST\<close>, \<open>attached\<close> the head of the existing segment. Returned are
  whether a base address results, \<open>first_time\<close> and the object.
\<close>

definition shm_init ::
  "shm_memory \<Rightarrow> int \<Rightarrow> int \<Rightarrow> int \<Rightarrow> int \<Rightarrow> int \<Rightarrow> bool \<Rightarrow> shm_head \<Rightarrow> int \<Rightarrow> bool \<times> int \<times> shm_memory" where
  "shm_init m shm_key chk_id alloc_size page_size created eexist attached first_time =
     (let m1 = m\<lparr>pool_size := ROUNDUP (alloc_size + SHM_HEAD_SIZE) page_size\<rparr> in
      if created = - 1 then
        if \<not> eexist then (False, first_time, m1)
        else if verify m \<and> sh_key attached \<noteq> shm_key \<and> sh_chk attached \<noteq> chk_id then
          (False, 0, m1\<lparr>shm_hd := None\<rparr>)
        else (True, 0, m1\<lparr>shm_hd := Some attached\<rparr>)
      else (True, 1, m1\<lparr>shm_hd := Some \<lparr>sh_key = shm_key, sh_id = created, sh_chk = chk_id\<rparr>\<rparr>))"

definition shm_pool_size :: "shm_memory \<Rightarrow> int" where
  "shm_pool_size m = (if shm_hd m \<noteq> None then pool_size m else 0)"

section \<open>ShmPool\<close>

record 'a shm_pool =
  free_mem_pos :: int
  valid_unit_count :: int
  total_unit_count :: int
  unit_size :: int
  pool_mem :: "'a list"
  pool_pos :: "int list"

definition pool_fresh :: "int \<Rightarrow> int \<Rightarrow> 'a \<Rightarrow> 'a shm_pool" where
  "pool_fresh unit_count usize z =
     \<lparr>free_mem_pos = 1, valid_unit_count = unit_count, total_unit_count = unit_count, unit_size = usize,
      pool_mem = replicate (nat unit_count + 1) z,
      pool_pos = map (\<lambda>i. - int (i + 1)) [0..<nat unit_count + 1]\<rparr>"

text \<open>
  \<open>Init\<close>: \<open>base\<close> and \<open>first_time\<close> come from \<open>ShmMemory::Init\<close>, \<open>old\<close> is the pool an existing
  segment holds, \<open>usize\<close> is \<open>sizeof(PoolUnit)\<close> and \<open>z\<close> the zeroed memory of a new unit.
\<close>

definition pool_init :: "bool \<Rightarrow> int \<Rightarrow> 'a shm_pool \<Rightarrow> int \<Rightarrow> int \<Rightarrow> 'a \<Rightarrow> int \<times> 'a shm_pool option" where
  "pool_init base first_time old unit_count usize z =
     (if \<not> base then (- 1, None)
      else if first_time = 0 then
        if total_unit_count old \<noteq> unit_count \<or> unit_size old \<noteq> usize then (- 2, Some old)
        else (0, Some old)
      else (0, Some (pool_fresh unit_count usize z)))"

definition pop_free_pos :: "'a shm_pool \<Rightarrow> (int \<times> 'a shm_pool) res" where
  "pop_free_pos p =
     (let free_pos = free_mem_pos p in
      rbind (rd (pool_pos p) free_pos) (\<lambda>link.
      rbind (wr (pool_pos p) free_pos free_pos) (\<lambda>pos'.
      Inr (free_pos, p\<lparr>free_mem_pos := - link, pool_pos := pos'\<rparr>))))"

definition push_free_pos :: "'a shm_pool \<Rightarrow> int \<Rightarrow> 'a shm_pool res" where
  "push_free_pos p free_pos =
     rbind (wr (pool_pos p) free_pos (- free_mem_pos p)) (\<lambda>pos'.
     Inr (p\<lparr>pool_pos := pos', free_mem_pos := free_pos\<rparr>))"

definition pool_alloc :: "'a shm_pool \<Rightarrow> (int option \<times> 'a shm_pool) res" where
  "pool_alloc p =
     (if valid_unit_count p > 0 then
        rbind (pop_free_pos p) (\<lambda>(free_pos, p1).
        Inr (Some free_pos, p1\<lparr>valid_unit_count := valid_unit_count p1 - 1\<rparr>))
      else Inr (None, p))"

definition pool_find :: "'a shm_pool \<Rightarrow> int \<Rightarrow> int option res" where
  "pool_find p index =
     (if index \<le> 0 \<or> index > total_unit_count p then Inr None
      else rbind (rd (pool_pos p) index) (\<lambda>pos. Inr (if pos \<noteq> index then None else Some index)))"

text \<open>\<open>Release\<close> and \<open>GetPos\<close> take a pointer to a unit; the index stored in it is what they use.\<close>

definition pool_release :: "'a shm_pool \<Rightarrow> int \<Rightarrow> 'a shm_pool res" where
  "pool_release p mem_unit =
     rbind (guard Check_Failed (total_unit_count p > valid_unit_count p)) (\<lambda>_.
     rbind (rd (pool_pos p) mem_unit) (\<lambda>pos.
     rbind (guard Check_Failed (pos > 0)) (\<lambda>_.
     rbind (push_free_pos p pos) (\<lambda>p1.
     Inr (p1\<lparr>valid_unit_count := valid_unit_count p1 + 1\<rparr>)))))"

definition pool_get_pos :: "'a shm_pool \<Rightarrow> int \<Rightarrow> int res" where
  "pool_get_pos p mem_unit =
     rbind (rd (pool_pos p) mem_unit) (\<lambda>pos. rbind (guard Check_Failed (pos > 0)) (\<lambda>_. Inr pos))"

text \<open>\<open>TravelPool\<close> with a function over the units in use, in the order of the indices.\<close>

fun travel_units :: "(int \<Rightarrow> 'a \<Rightarrow> 's \<Rightarrow> 's) \<Rightarrow> 'a shm_pool \<Rightarrow> nat list \<Rightarrow> 's \<Rightarrow> 's res" where
  "travel_units func p [] s = Inr s"
| "travel_units func p (i # is) s =
     rbind (rd (pool_pos p) (int i)) (\<lambda>pos.
     if pos > 0 then rbind (rd (pool_mem p) (int i)) (\<lambda>m. travel_units func p is (func (int i) m s))
     else travel_units func p is s)"

definition travel_pool :: "(int \<Rightarrow> 'a \<Rightarrow> 's \<Rightarrow> 's) \<Rightarrow> 'a shm_pool \<Rightarrow> 's \<Rightarrow> 's res" where
  "travel_pool func p s = travel_units func p [1..<nat (total_unit_count p) + 1] s"

section \<open>The invariant\<close>

definition pool_used :: "'a shm_pool \<Rightarrow> int set" where
  "pool_used p = {i. 0 < i \<and> i \<le> total_unit_count p \<and> pool_pos p ! nat i > 0}"

definition pool_inv :: "'a shm_pool \<Rightarrow> bool" where
  "pool_inv p \<longleftrightarrow>
     0 \<le> total_unit_count p \<and> length (pool_pos p) = nat (total_unit_count p) + 1 \<and>
     length (pool_mem p) = nat (total_unit_count p) + 1 \<and>
     (\<forall>i\<in>pool_used p. pool_pos p ! nat i = i) \<and>
     free_list (pool_pos p) (free_mem_pos p) (total_unit_count p + 1)
       ({0<..total_unit_count p} - pool_used p) \<and>
     valid_unit_count p = total_unit_count p - int (card (pool_used p))"

lemma pool_used_finite [simp]: "finite (pool_used p)"
  by (rule finite_subset [of _ "{0..total_unit_count p}"]) (auto simp: pool_used_def)

lemma pool_used_sub: "pool_used p \<subseteq> {0<..total_unit_count p}"
  by (auto simp: pool_used_def)

lemma pool_used_card: "0 \<le> total_unit_count p \<Longrightarrow> card (pool_used p) \<le> nat (total_unit_count p)"
  using card_mono [OF _ pool_used_sub [of p]] by simp

lemma pool_inv_fresh:
  assumes "0 \<le> n"
  shows "pool_inv (pool_fresh n sz z)" "pool_used (pool_fresh n sz z) = {}"
proof -
  let ?p = "pool_fresh n sz z"
  have nth: "pool_pos ?p ! i = - int (i + 1)" if "i < nat n + 1" for i
    using that by (simp add: pool_fresh_def del: upt_Suc)
  show e: "pool_used ?p = {}"
  proof -
    have "\<not> pool_pos ?p ! nat i > 0" if "0 < i" "i \<le> n" for i using nth [of "nat i"] that by auto
    then show ?thesis by (auto simp: pool_used_def pool_fresh_def)
  qed
  have "free_list (map (\<lambda>i. - int (i + 1)) [0..<nat n + 1]) 1 (int (nat n + 1)) {0<..<int (nat n + 1)}"
    by (rule free_list_init) simp_all
  moreover have "{0<..<int (nat n + 1)} = {0<..n}" using assms by auto
  ultimately have "free_list (pool_pos ?p) 1 (n + 1) {0<..n}"
    using assms by (simp add: pool_fresh_def add.commute del: upt_Suc)
  then show "pool_inv ?p"
    unfolding pool_inv_def e using assms by (simp add: pool_fresh_def del: upt_Suc)
qed

lemma pool_alloc_some:
  assumes inv: "pool_inv p" and room: "card (pool_used p) < nat (total_unit_count p)"
  shows "\<exists>i p'. pool_alloc p = Inr (Some i, p') \<and> pool_inv p' \<and> 0 < i \<and> i \<notin> pool_used p \<and>
    pool_used p' = insert i (pool_used p) \<and> total_unit_count p' = total_unit_count p \<and>
    pool_mem p' = pool_mem p \<and> unit_size p' = unit_size p"
proof -
  let ?n = "total_unit_count p" and ?k = "free_mem_pos p"
  let ?F = "{0<..?n} - pool_used p"
  have n: "0 \<le> ?n" and len: "length (pool_pos p) = nat ?n + 1"
    and fl: "free_list (pool_pos p) ?k (?n + 1) ?F" using inv by (simp_all add: pool_inv_def)
  have "?F \<noteq> {}"
  proof
    assume "?F = {}"
    then have "{0<..?n} \<subseteq> pool_used p" by blast
    then have "card {0<..?n} \<le> card (pool_used p)" by (rule card_mono [OF pool_used_finite])
    then show False using room by simp
  qed
  note pop = free_list_pop [OF fl this]
  have k: "0 < ?k" "?k \<le> ?n" "?k \<notin> pool_used p" using pop(1) by auto
  let ?p = "p\<lparr>free_mem_pos := - (pool_pos p ! nat ?k), pool_pos := (pool_pos p)[nat ?k := ?k],
    valid_unit_count := valid_unit_count p - 1\<rparr>"
  have used: "pool_used ?p = insert ?k (pool_used p)"
    using k len by (auto simp: pool_used_def nth_list_update split: if_splits)
  have "?F - {?k} = {0<..?n} - insert ?k (pool_used p)" by auto
  then have "free_list ((pool_pos p)[nat ?k := ?k]) (- (pool_pos p ! nat ?k)) (?n + 1)
      ({0<..?n} - insert ?k (pool_used p))"
    using free_list_update [OF pop(2), of ?k ?k] k by simp
  moreover have "valid_unit_count p - 1 = ?n - int (card (insert ?k (pool_used p)))"
    using inv k by (simp add: pool_inv_def)
  moreover have "\<forall>i\<in>insert ?k (pool_used p). (pool_pos p)[nat ?k := ?k] ! nat i = i"
    using inv k len by (auto simp: pool_inv_def nth_list_update pool_used_def)
  ultimately have "pool_inv ?p" unfolding pool_inv_def used using inv by (simp add: pool_inv_def)
  moreover have "pool_alloc p = Inr (Some ?k, ?p)"
  proof -
    have "valid_unit_count p > 0" using inv room by (simp add: pool_inv_def)
    then show ?thesis using k len by (simp add: pool_alloc_def pop_free_pos_def Let_def)
  qed
  ultimately show ?thesis using used k by (intro exI [of _ ?k] exI [of _ ?p]) simp
qed

lemma pool_alloc_none:
  "pool_inv p \<Longrightarrow> card (pool_used p) = nat (total_unit_count p) \<Longrightarrow> pool_alloc p = Inr (None, p)"
  by (simp add: pool_alloc_def pool_inv_def)

lemma pool_release_used:
  assumes inv: "pool_inv p" and k: "k \<in> pool_used p"
  shows "\<exists>p'. pool_release p k = Inr p' \<and> pool_inv p' \<and> pool_used p' = pool_used p - {k} \<and>
    total_unit_count p' = total_unit_count p \<and> pool_mem p' = pool_mem p \<and> unit_size p' = unit_size p"
proof -
  let ?n = "total_unit_count p" and ?h = "free_mem_pos p"
  have n: "0 \<le> ?n" and len: "length (pool_pos p) = nat ?n + 1" and pos: "pool_pos p ! nat k = k"
    and fl: "free_list (pool_pos p) ?h (?n + 1) ({0<..?n} - pool_used p)"
    using inv k by (simp_all add: pool_inv_def)
  have kr: "0 < k" "k \<le> ?n" using k by (auto simp: pool_used_def)
  have h: "0 < ?h" using fl n chain_head_pos by (auto simp: free_list_def)
  let ?p = "p\<lparr>pool_pos := (pool_pos p)[nat k := - ?h], free_mem_pos := k,
    valid_unit_count := valid_unit_count p + 1\<rparr>"
  have used: "pool_used ?p = pool_used p - {k}"
    using kr len h by (auto simp: pool_used_def nth_list_update split: if_splits)
  have "insert k ({0<..?n} - pool_used p) = {0<..?n} - (pool_used p - {k})" using kr k by auto
  then have "free_list ((pool_pos p)[nat k := - ?h]) k (?n + 1) ({0<..?n} - (pool_used p - {k}))"
    using free_list_push [OF fl, of k] k kr len by simp
  moreover have "valid_unit_count p + 1 = ?n - int (card (pool_used p - {k}))"
    using inv k card_Suc_Diff1 [OF pool_used_finite k] by (simp add: pool_inv_def)
  moreover have "\<forall>i\<in>pool_used p - {k}. (pool_pos p)[nat k := - ?h] ! nat i = i"
    using inv kr by (auto simp: pool_inv_def nth_list_update pool_used_def)
  ultimately have "pool_inv ?p" unfolding pool_inv_def used using inv by (simp add: pool_inv_def)
  moreover have "pool_release p k = Inr ?p"
  proof -
    have "0 < card (pool_used p)" using k card_gt_0_iff [of "pool_used p"] by auto
    then have "valid_unit_count p < ?n" using inv by (simp add: pool_inv_def)
    then show ?thesis using kr len pos by (simp add: pool_release_def push_free_pos_def)
  qed
  ultimately show ?thesis using used by (intro exI [of _ ?p]) simp
qed

lemma pool_find_used:
  assumes "pool_inv p"
  shows "pool_find p i = Inr (if i \<in> pool_used p then Some i else None)"
proof (cases "0 < i \<and> i \<le> total_unit_count p")
  case True
  then have "rd (pool_pos p) i = Inr (pool_pos p ! nat i)" using assms by (simp add: pool_inv_def)
  moreover have "pool_pos p ! nat i = i \<longleftrightarrow> i \<in> pool_used p"
    using True assms by (auto simp: pool_inv_def pool_used_def)
  ultimately show ?thesis using True by (auto simp: pool_find_def)
qed (auto simp: pool_find_def pool_used_def)

lemma pool_get_pos_used: "pool_inv p \<Longrightarrow> i \<in> pool_used p \<Longrightarrow> pool_get_pos p i = Inr i"
proof -
  assume inv: "pool_inv p" and i: "i \<in> pool_used p"
  then have "0 < i" "i \<le> total_unit_count p" "pool_pos p ! nat i = i" "0 < pool_pos p ! nat i"
    by (auto simp: pool_used_def pool_inv_def)
  then show ?thesis using inv by (simp add: pool_get_pos_def pool_inv_def)
qed

interpretation sp: slot_allocator pool_inv pool_used "\<lambda>p. nat (total_unit_count p)"
  pool_alloc pool_release pool_find
proof unfold_locales
  fix s :: "'a shm_pool" and i :: int
  assume inv: "pool_inv s"
  have "\<forall>i\<in>pool_used s. 0 < i" by (simp add: pool_used_def)
  then show "finite (pool_used s) \<and> card (pool_used s) \<le> nat (total_unit_count s) \<and> (\<forall>i\<in>pool_used s. 0 < i)"
    using pool_used_card [of s] inv by (simp add: pool_inv_def)
  show "pool_find s i = Inr (if i \<in> pool_used s then Some i else None)" by (rule pool_find_used [OF inv])
  show "\<exists>s'. pool_release s i = Inr s' \<and> pool_inv s' \<and> pool_used s' = pool_used s - {i} \<and>
      nat (total_unit_count s') = nat (total_unit_count s)" if "i \<in> pool_used s"
    using pool_release_used [OF inv that] by auto
  show "pool_alloc s = Inr (None, s)" if "card (pool_used s) = nat (total_unit_count s)"
    by (rule pool_alloc_none [OF inv that])
  show "\<exists>i s'. pool_alloc s = Inr (Some i, s') \<and> pool_inv s' \<and> 0 < i \<and> i \<notin> pool_used s \<and>
      pool_used s' = insert i (pool_used s) \<and> nat (total_unit_count s') = nat (total_unit_count s)"
    if "card (pool_used s) < nat (total_unit_count s)"
    using pool_alloc_some [OF inv that] by auto
qed

section \<open>Properties\<close>

text \<open>A fresh pool of \<open>n\<close> units hands out \<open>n\<close> different indices between 1 and \<open>n\<close>, and
  then no more: the next allocation returns \<open>NULL\<close> and changes nothing.\<close>

theorem pool_alloc_exhaust:
  "0 \<le> n \<Longrightarrow>
   \<exists>is p'. alloc_many pool_alloc (nat n) (pool_fresh n sz z) = Inr (is, p') \<and> distinct is \<and>
     set is = {0<..n} \<and> pool_used p' = {0<..n} \<and> pool_alloc p' = Inr (None, p')"
proof -
  assume n: "0 \<le> n"
  let ?p = "pool_fresh n sz z"
  have tot: "total_unit_count ?p = n" by (simp add: pool_fresh_def)
  have room: "card (pool_used ?p) + nat n \<le> nat (total_unit_count ?p)"
    by (simp add: pool_inv_fresh(2) [OF n] tot)
  obtain "is" p' where r: "alloc_many pool_alloc (nat n) ?p = Inr (is, p')" "pool_inv p'" "length is = nat n"
    "distinct is" "pool_used p' = set is \<union> pool_used ?p" "nat (total_unit_count p') = nat (total_unit_count ?p)"
    using sp.alloc_many_distinct [OF pool_inv_fresh(1) [OF n] room] by blast
  have empty: "pool_used ?p = {}" by (rule pool_inv_fresh(2) [OF n])
  have used: "pool_used p' = set is" using r(5) by (simp add: empty)
  have "0 \<le> total_unit_count p'" using r(2) by (simp add: pool_inv_def)
  then have tot': "total_unit_count p' = n" using r(6) tot n by simp
  then have "set is \<subseteq> {0<..n}" using pool_used_sub [of p'] used by simp
  moreover have "card (set is) = card {0<..n}" using r(3,4) by (simp add: distinct_card)
  ultimately have "set is = {0<..n}" by (intro card_subset_eq) auto
  then show ?thesis using r(1,4) pool_alloc_none [OF r(2)] used tot' by auto
qed

theorem pool_alloc_exhaust_witness:
  "\<exists>is p'. alloc_many pool_alloc 3 (pool_fresh 3 16 ''x'') = Inr (is, p') \<and> set is = {1, 2, 3} \<and>
     pool_alloc p' = Inr (None, p')"
proof -
  have "{0<..3::int} = {1, 2, 3}" by auto
  then show ?thesis using pool_alloc_exhaust [of 3 16 "''x''"] by auto
qed

text \<open>Releasing a unit in use succeeds, keeps the pool invariant and every other unit, and
  makes \<open>Find\<close> return \<open>NULL\<close> for its index; releasing a unit that is not in use (a double
  release) is caught by a \<open>CHECK\<close>.\<close>

theorem pool_release_spec:
  "pool_inv p \<Longrightarrow> 0 < i \<Longrightarrow> i \<le> total_unit_count p \<Longrightarrow>
   if i \<in> pool_used p
   then \<exists>p'. pool_release p i = Inr p' \<and> pool_inv p' \<and> pool_find p' i = Inr None \<and>
     (\<forall>j. j \<noteq> i \<longrightarrow> pool_find p' j = pool_find p j) \<and> pool_mem p' = pool_mem p
   else pool_release p i = Inl Check_Failed"
proof -
  assume inv: "pool_inv p" and i: "0 < i" "i \<le> total_unit_count p"
  show ?thesis
  proof (cases "i \<in> pool_used p")
    case True
    then obtain p' where "pool_release p i = Inr p'" "pool_inv p'" "pool_used p' = pool_used p - {i}"
      "pool_mem p' = pool_mem p" using pool_release_used [OF inv True] by blast
    then show ?thesis using True inv by (auto simp: pool_find_used)
  next
    case False
    then have "\<not> 0 < pool_pos p ! nat i" using i by (simp add: pool_used_def)
    then show ?thesis using False i inv by (simp add: pool_release_def guard_def pool_inv_def)
  qed
qed

theorem pool_release_spec_witness:
  "pool_release (pool_fresh 2 16 ''x'') 1 = Inl Check_Failed"
  using pool_release_spec [of "pool_fresh 2 16 ''x''" 1] pool_inv_fresh [of 2 16 "''x''"]
  by (simp add: pool_fresh_def)

lemma travel_units_eq:
  assumes "pool_inv p" "\<forall>i\<in>set is. 0 < i \<and> int i \<le> total_unit_count p"
  shows "travel_units func p is s =
    Inr (foldl (\<lambda>s i. func (int i) (pool_mem p ! i) s) s (filter (\<lambda>i. int i \<in> pool_used p) is))"
  using assms(2)
proof (induction "is" arbitrary: s)
  case (Cons i "is")
  then have i: "i < length (pool_pos p)" "i < length (pool_mem p)" using assms(1) by (auto simp: pool_inv_def)
  have "pool_pos p ! i > 0 \<longleftrightarrow> int i \<in> pool_used p" using Cons.prems by (auto simp: pool_used_def)
  then show ?case using Cons i by simp
qed simp

text \<open>\<open>TravelPool\<close>, with which the managers rebuild their maps after a restart, visits exactly
  the units in use, each once, in ascending order of their indices.\<close>

theorem travel_pool_visits:
  "pool_inv p \<Longrightarrow>
   travel_pool (\<lambda>i m s. s @ [(i, m)]) p [] =
     Inr (map (\<lambda>i. (i, pool_mem p ! nat i)) (sorted_list_of_set (pool_used p)))"
proof -
  assume inv: "pool_inv p"
  let ?is = "[1..<nat (total_unit_count p) + 1]"
  have fold: "foldl (\<lambda>s i. s @ [(int i, pool_mem p ! i)]) acc xs = acc @ map (\<lambda>i. (int i, pool_mem p ! i)) xs"
    for acc xs by (induction xs arbitrary: acc) simp_all
  have "sorted_list_of_set (pool_used p) = map int (filter (\<lambda>i. int i \<in> pool_used p) ?is)"
  proof (rule sorted_distinct_set_unique)
    show "sorted (map int (filter (\<lambda>i. int i \<in> pool_used p) ?is))"
      by (simp add: sorted_map sorted_wrt_filter del: upt_Suc)
    show "distinct (map int (filter (\<lambda>i. int i \<in> pool_used p) ?is))"
      by (simp add: distinct_map inj_on_def del: upt_Suc)
    have "x \<in> int ` {i \<in> set ?is. int i \<in> pool_used p}" if "x \<in> pool_used p" for x
    proof -
      have "0 < x" "x \<le> total_unit_count p" using that pool_used_sub [of p] by auto
      then show ?thesis using that by (intro image_eqI [of _ _ "nat x"]) auto
    qed
    then show "set (sorted_list_of_set (pool_used p)) = set (map int (filter (\<lambda>i. int i \<in> pool_used p) ?is))"
      by auto
  qed simp_all
  moreover have "travel_pool (\<lambda>i m s. s @ [(i, m)]) p [] =
      Inr (map (\<lambda>i. (int i, pool_mem p ! i)) (filter (\<lambda>i. int i \<in> pool_used p) ?is))"
    unfolding travel_pool_def
    by (subst travel_units_eq [OF inv]) (auto simp: fold)
  ultimately show ?thesis by simp
qed

theorem travel_pool_visits_witness:
  "travel_pool (\<lambda>i m s. s @ [(i, m)]) (pool_fresh 4 16 ''x'') [] = Inr []"
  using travel_pool_visits [of "pool_fresh 4 16 ''x''"] pool_inv_fresh [of 4 16 "''x''"] by simp

text \<open>With verification on, attaching an existing segment checks its key and its check id with
  \<open>&&\<close>: a segment whose check id is wrong is accepted as long as the key agrees.\<close>

theorem shm_init_accepts_wrong_chk:
  "verify m \<Longrightarrow> sh_key attached = shm_key \<Longrightarrow> sh_chk attached \<noteq> chk_id \<Longrightarrow>
   shm_init m shm_key chk_id alloc_size page_size (- 1) True attached ft =
     (True, 0, m\<lparr>pool_size := ROUNDUP (alloc_size + 12) page_size, shm_hd := Some attached\<rparr>)"
  by (simp add: shm_init_def SHM_HEAD_SIZE_def)

theorem shm_init_accepts_wrong_chk_witness:
  "fst (shm_init (shm_memory_new True) 7 4385 100 4096 (- 1) True \<lparr>sh_key = 7, sh_id = 3, sh_chk = 1\<rparr> 0)"
  using shm_init_accepts_wrong_chk [of "shm_memory_new True" "\<lparr>sh_key = 7, sh_id = 3, sh_chk = 1\<rparr>" 7 4385]
  by (simp add: shm_memory_new_def)

end
