(* ===== verification/Std_Map.thy ===== *)
theory Std_Map
  imports PF_Prelude
begin

text \<open>
  \<open>std::map\<close> where its iteration order matters: an association list in ascending order of
  the keys, with \<open>operator[]\<close> assignment, \<open>insert\<close> (which keeps an existing entry),
  \<open>erase\<close> and \<open>find\<close> (\<open>map_of\<close>).
\<close>

fun smap_put :: "('k::linorder) \<Rightarrow> 'v \<Rightarrow> ('k \<times> 'v) list \<Rightarrow> ('k \<times> 'v) list" where
  "smap_put k v [] = [(k, v)]"
| "smap_put k v ((k', v') # m) =
     (if k < k' then (k, v) # (k', v') # m
      else if k = k' then (k, v) # m
      else (k', v') # smap_put k v m)"

definition smap_insert :: "('k::linorder) \<Rightarrow> 'v \<Rightarrow> ('k \<times> 'v) list \<Rightarrow> ('k \<times> 'v) list" where
  "smap_insert k v m = (if map_of m k = None then smap_put k v m else m)"

definition smap_erase :: "'k \<Rightarrow> ('k \<times> 'v) list \<Rightarrow> ('k \<times> 'v) list" where
  "smap_erase k m = filter (\<lambda>p. fst p \<noteq> k) m"

definition smap_ok :: "(('k::linorder) \<times> 'v) list \<Rightarrow> bool" where
  "smap_ok m \<longleftrightarrow> sorted_wrt (<) (map fst m)"

lemma smap_ok_Nil [simp]: "smap_ok []"
  by (simp add: smap_ok_def)

lemma smap_ok_distinct: "smap_ok m \<Longrightarrow> distinct (map fst m)"
  by (simp add: smap_ok_def strict_sorted_iff)

lemma smap_put_keys: "set (map fst (smap_put k v m)) = insert k (set (map fst m))"
  by (induction k v m rule: smap_put.induct) auto

lemma smap_put_ok [simp, intro]: "smap_ok m \<Longrightarrow> smap_ok (smap_put k v m)"
proof (induction k v m rule: smap_put.induct)
  case (2 k v k' v' m)
  have "smap_ok m" using 2(2) by (simp add: smap_ok_def)
  then show ?case using 2 smap_put_keys [of k v m]
    by (auto simp: smap_ok_def)
qed (simp add: smap_ok_def)

lemma map_of_smap_put [simp]: "smap_ok m \<Longrightarrow> map_of (smap_put k v m) = (map_of m)(k \<mapsto> v)"
proof (induction k v m rule: smap_put.induct)
  case (2 k v k' v' m)
  have "smap_ok m" using 2(2) by (simp add: smap_ok_def)
  then show ?case using 2 by (auto simp: fun_eq_iff)
qed auto

lemma smap_insert_ok [simp, intro]: "smap_ok m \<Longrightarrow> smap_ok (smap_insert k v m)"
  by (simp add: smap_insert_def)

lemma map_of_smap_insert [simp]:
  "smap_ok m \<Longrightarrow> map_of (smap_insert k v m) = (if map_of m k = None then (map_of m)(k \<mapsto> v) else map_of m)"
  by (simp add: smap_insert_def)

lemma smap_erase_ok [simp, intro]: "smap_ok m \<Longrightarrow> smap_ok (smap_erase k m)"
  unfolding smap_ok_def smap_erase_def
  by (induction m) (auto simp: image_iff)

lemma map_of_smap_erase [simp]: "map_of (smap_erase k m) = (map_of m)(k := None)"
  by (induction m) (auto simp: smap_erase_def fun_eq_iff)

lemma smap_erase_length:
  "smap_ok m \<Longrightarrow> map_of m k \<noteq> None \<Longrightarrow> length m = Suc (length (smap_erase k m))"
proof (induction m)
  case (Cons p m)
  obtain k' v' where p: "p = (k', v')" by (cases p)
  have ok: "smap_ok m" using Cons.prems(1) by (simp add: smap_ok_def)
  show ?case
  proof (cases "k' = k")
    case True
    then have "k \<notin> fst ` set m" using Cons.prems(1) p by (auto simp: smap_ok_def)
    then have "smap_erase k m = m" by (auto simp: smap_erase_def filter_id_conv image_iff)
    then show ?thesis using True p by (simp add: smap_erase_def)
  next
    case False
    then have "map_of m k \<noteq> None" using Cons.prems(2) p by auto
    then show ?thesis using Cons.IH [OF ok] False p by (simp add: smap_erase_def)
  qed
qed simp

lemma smap_put_length:
  "smap_ok m \<Longrightarrow> length (smap_put k v m) = (if map_of m k = None then Suc (length m) else length m)"
proof (induction k v m rule: smap_put.induct)
  case (2 k v k' v' m)
  have ok: "smap_ok m" using 2(2) by (simp add: smap_ok_def)
  have "map_of m k = None" if "k < k'"
  proof -
    have "k \<notin> fst ` set m" using that 2(2) by (fastforce simp: smap_ok_def)
    then show ?thesis by (simp add: map_of_eq_None_iff)
  qed
  then show ?case using 2 ok by auto
qed simp

lemma smap_length_card: "smap_ok m \<Longrightarrow> length m = card (dom (map_of m))"
  using smap_ok_distinct [of m] distinct_card [of "map fst m"] by (simp add: dom_map_of_conv_image_fst)

end
