(* ===== verification/Conn_Mgr.thy ===== *)
theory Conn_Mgr
  imports Connection Shm_Pool Std_Map
begin

text \<open>
  \<open>connsvr/conn_mgr_module/conn_mgr_module.{h,cpp}\<close>: the connections live in a pool; a map
  takes descriptors to units of it. \<open>close\<close> calls are returned as a list of descriptors. The
  pool is a \<open>slot_allocator\<close>, whose facts carry the invariant.
\<close>

section \<open>Model\<close>

record conn_mgr =
  conn_pool :: "connection shm_pool"
  conn_map :: "(int \<times> int) list"

text \<open>\<open>ModuleInit\<close> removes an old segment first, so the pool is fresh; \<open>ok\<close> is whether the
  segment could be created. The unit size is that of \<open>Connection\<close> and an \<open>int32_t\<close>.\<close>

definition conn_mgr_init :: "bool \<Rightarrow> int \<Rightarrow> conn_mgr res" where
  "conn_mgr_init ok conn_pool_size =
     (case pool_init ok 1 (pool_fresh 0 0 conn_init) conn_pool_size 20500 conn_init of
        (r, p) \<Rightarrow> rbind (guard Check_Failed (r = 0)) (\<lambda>_.
          case p of None \<Rightarrow> Inl Null_Deref | Some p \<Rightarrow> Inr \<lparr>conn_pool = p, conn_map = []\<rparr>))"

text \<open>\<open>ModuleFini\<close>: the descriptors closed.\<close>

definition conn_mgr_fini :: "conn_mgr \<Rightarrow> int list" where
  "conn_mgr_fini m = map fst (conn_map m)"

definition get_cur_conn_map_size :: "conn_mgr \<Rightarrow> int" where
  "get_cur_conn_map_size m = int (length (conn_map m))"

definition get_connection :: "conn_mgr \<Rightarrow> int \<Rightarrow> connection res" where
  "get_connection m ptr = rd (pool_mem (conn_pool m)) ptr"

definition set_connection :: "conn_mgr \<Rightarrow> int \<Rightarrow> connection \<Rightarrow> conn_mgr res" where
  "set_connection m ptr c =
     rbind (wr (pool_mem (conn_pool m)) ptr c) (\<lambda>mem. Inr (m\<lparr>conn_pool := (conn_pool m)\<lparr>pool_mem := mem\<rparr>\<rparr>))"

text \<open>\<open>CreateConn\<close> calls \<open>Init\<close> on the pointer before anything looks whether it is null.\<close>

definition create_conn :: "int \<Rightarrow> conn_mgr \<Rightarrow> (int \<times> conn_mgr) res" where
  "create_conn fd m =
     rbind (pool_alloc (conn_pool m)) (\<lambda>(conn, p).
     case conn of None \<Rightarrow> Inl Null_Deref
     | Some ptr \<Rightarrow>
         rbind (set_connection (m\<lparr>conn_pool := p\<rparr>) ptr conn_init) (\<lambda>m1.
         Inr (ptr, m1\<lparr>conn_map := smap_put fd ptr (conn_map m1)\<rparr>)))"

definition get_conn :: "conn_mgr \<Rightarrow> int \<Rightarrow> int option" where
  "get_conn m fd = map_of (conn_map m) fd"

definition release_conn :: "int \<Rightarrow> conn_mgr \<Rightarrow> (int list \<times> conn_mgr) res" where
  "release_conn fd m =
     (case map_of (conn_map m) fd of
        None \<Rightarrow> Inr ([], m)
      | Some ptr \<Rightarrow>
          rbind (get_connection m ptr) (\<lambda>c.
          if conn_fd c = fd then
            rbind (pool_release (conn_pool m) ptr) (\<lambda>p.
            Inr ([fd], m\<lparr>conn_pool := p, conn_map := smap_erase fd (conn_map m)\<rparr>))
          else Inr ([], m)))"

section \<open>Invariant\<close>

text \<open>Mapped descriptors own different units in use, every unit in use is mapped, and every
  mapped connection knows its descriptor.\<close>

definition mgr_inv :: "conn_mgr \<Rightarrow> bool" where
  "mgr_inv m \<longleftrightarrow>
     pool_inv (conn_pool m) \<and> smap_ok (conn_map m) \<and>
     ran (map_of (conn_map m)) = pool_used (conn_pool m) \<and>
     inj_on (map_of (conn_map m)) (dom (map_of (conn_map m))) \<and>
     (\<forall>c\<in>set (pool_mem (conn_pool m)). conn_ok c) \<and>
     (\<forall>fd ptr. map_of (conn_map m) fd = Some ptr \<longrightarrow> conn_fd (pool_mem (conn_pool m) ! nat ptr) = fd)"

definition conn_at :: "conn_mgr \<Rightarrow> int \<Rightarrow> connection" where
  "conn_at m fd = pool_mem (conn_pool m) ! nat (the (map_of (conn_map m) fd))"

lemma mgr_ptr:
  assumes "mgr_inv m" "map_of (conn_map m) fd = Some ptr"
  shows "ptr \<in> pool_used (conn_pool m)" "0 < ptr" "ptr < int (length (pool_mem (conn_pool m)))"
    "get_connection m ptr = Inr (conn_at m fd)" "conn_ok (conn_at m fd)" "conn_fd (conn_at m fd) = fd"
proof -
  show u: "ptr \<in> pool_used (conn_pool m)" using assms by (auto simp: mgr_inv_def ran_def)
  then show p: "0 < ptr" and l: "ptr < int (length (pool_mem (conn_pool m)))"
    using assms(1) by (auto simp: mgr_inv_def pool_inv_def pool_used_def)
  show "get_connection m ptr = Inr (conn_at m fd)"
    using p l assms(2) by (simp add: get_connection_def conn_at_def)
  have "conn_at m fd \<in> set (pool_mem (conn_pool m))" using p l assms(2) by (simp add: conn_at_def nat_less_iff)
  then show "conn_ok (conn_at m fd)" using assms(1) by (simp add: mgr_inv_def)
  show "conn_fd (conn_at m fd) = fd" using assms by (simp add: mgr_inv_def conn_at_def)
qed

lemma mgr_size: "mgr_inv m \<Longrightarrow> length (conn_map m) = card (pool_used (conn_pool m))"
proof -
  assume inv: "mgr_inv m"
  let ?f = "map_of (conn_map m)"
  have "pool_used (conn_pool m) = (the \<circ> ?f) ` dom ?f"
    using inv by (auto simp: mgr_inv_def ran_def image_iff) force
  moreover have "inj_on (the \<circ> ?f) (dom ?f)"
    using inv by (auto simp: mgr_inv_def inj_on_def domIff)
  ultimately have "card (pool_used (conn_pool m)) = card (dom ?f)" by (simp only: card_image)
  moreover have "smap_ok (conn_map m)" using inv by (simp add: mgr_inv_def)
  then have "length (conn_map m) = card (dom ?f)" by (rule smap_length_card)
  ultimately show ?thesis by simp
qed

lemma mgr_inv_init: "0 \<le> n \<Longrightarrow> conn_mgr_init True n = Inr m \<Longrightarrow> mgr_inv m \<and> conn_map m = []"
  by (auto simp: conn_mgr_init_def pool_init_def mgr_inv_def pool_inv_fresh)
    (auto simp: pool_fresh_def)

text \<open>Writing the connection of a mapped descriptor.\<close>

lemma set_connection_inv:
  assumes inv: "mgr_inv m" and p: "map_of (conn_map m) fd = Some ptr" and c: "conn_ok c" "conn_fd c = fd"
  shows "\<exists>m'. set_connection m ptr c = Inr m' \<and> mgr_inv m' \<and> conn_map m' = conn_map m \<and>
    conn_at m' fd = c \<and> (\<forall>fd'. fd' \<noteq> fd \<longrightarrow> map_of (conn_map m) fd' \<noteq> None \<longrightarrow> conn_at m' fd' = conn_at m fd') \<and>
    total_unit_count (conn_pool m') = total_unit_count (conn_pool m)"
proof -
  let ?mem = "(pool_mem (conn_pool m))[nat ptr := c]"
  let ?m = "m\<lparr>conn_pool := (conn_pool m)\<lparr>pool_mem := ?mem\<rparr>\<rparr>"
  note pt = mgr_ptr [OF inv p]
  have used: "pool_used (conn_pool ?m) = pool_used (conn_pool m)" by (simp add: pool_used_def)
  have diff: "nat ptr' \<noteq> nat ptr" if "fd' \<noteq> fd" "map_of (conn_map m) fd' = Some ptr'" for fd' ptr'
  proof -
    have "ptr' \<noteq> ptr" using inv p that by (auto simp: mgr_inv_def inj_on_def domIff)
    then show ?thesis using pt(2) mgr_ptr(2) [OF inv that(2)] by simp
  qed
  have "pool_inv (conn_pool ?m)" using inv unfolding pool_inv_def used by (simp add: mgr_inv_def pool_inv_def)
  moreover have "\<forall>c\<in>set ?mem. conn_ok c"
    using inv c(1) by (auto simp: mgr_inv_def dest: set_update_subset_insert [THEN subsetD])
  moreover have "conn_fd (?mem ! nat ptr') = fd'" if "map_of (conn_map m) fd' = Some ptr'" for fd' ptr'
    using inv that diff [of fd' ptr'] c(2) pt p
    by (cases "fd' = fd") (auto simp: mgr_inv_def nat_less_iff)
  ultimately have "mgr_inv ?m" using inv unfolding mgr_inv_def used by simp
  moreover have "set_connection m ptr c = Inr ?m" using pt by (simp add: set_connection_def)
  moreover have "conn_at ?m fd = c" using p pt by (simp add: conn_at_def nat_less_iff)
  moreover have "conn_at ?m fd' = conn_at m fd'" if "fd' \<noteq> fd" "map_of (conn_map m) fd' \<noteq> None" for fd'
    using that diff [of fd'] by (auto simp: conn_at_def)
  ultimately show ?thesis by (intro exI [of _ ?m]) simp
qed

lemma release_conn_inv:
  assumes inv: "mgr_inv m" and p: "map_of (conn_map m) fd = Some ptr"
  shows "\<exists>m'. release_conn fd m = Inr ([fd], m') \<and> mgr_inv m' \<and> map_of (conn_map m') = (map_of (conn_map m))(fd := None) \<and>
    (\<forall>fd'. fd' \<noteq> fd \<longrightarrow> conn_at m' fd' = conn_at m fd') \<and>
    total_unit_count (conn_pool m') = total_unit_count (conn_pool m)"
proof -
  note pt = mgr_ptr [OF inv p]
  have pinv: "pool_inv (conn_pool m)" using inv by (simp add: mgr_inv_def)
  obtain q where q: "pool_release (conn_pool m) ptr = Inr q" "pool_inv q" "pool_used q = pool_used (conn_pool m) - {ptr}"
    "total_unit_count q = total_unit_count (conn_pool m)" "pool_mem q = pool_mem (conn_pool m)"
    using pool_release_used [OF pinv pt(1)] by blast
  let ?f = "map_of (conn_map m)"
  let ?m = "m\<lparr>conn_pool := q, conn_map := smap_erase fd (conn_map m)\<rparr>"
  have inj: "ptr' \<noteq> ptr" if "fd' \<noteq> fd" "?f fd' = Some ptr'" for fd' ptr'
    using inv p that by (auto simp: mgr_inv_def inj_on_def domIff)
  have "ran (?f(fd := None)) = ran ?f - {ptr}"
  proof (intro equalityI subsetI)
    fix x assume "x \<in> ran ?f - {ptr}"
    then obtain a where a: "?f a = Some x" "x \<noteq> ptr" by (auto simp: ran_def)
    then have "a \<noteq> fd" using p by auto
    then show "x \<in> ran (?f(fd := None))" using a(1) by (auto simp: ran_def)
  next
    fix x assume "x \<in> ran (?f(fd := None))"
    then obtain a where a: "a \<noteq> fd" "?f a = Some x" by (auto simp: ran_def split: if_splits)
    then show "x \<in> ran ?f - {ptr}" using inj [OF a] by (auto simp: ran_def)
  qed
  moreover have "inj_on (?f(fd := None)) (dom (?f(fd := None)))"
    using inv by (auto simp: mgr_inv_def inj_on_def)
  ultimately have "mgr_inv ?m" using inv q by (simp add: mgr_inv_def smap_erase_ok)
  moreover have "release_conn fd m = Inr ([fd], ?m)"
    using p pt(4,6) q(1) by (simp add: release_conn_def)
  moreover have "conn_at ?m fd' = conn_at m fd'" if "fd' \<noteq> fd" for fd'
    using that q(5) by (simp add: conn_at_def)
  ultimately show ?thesis using q(4) by (intro exI [of _ ?m]) simp
qed

text \<open>
  Creating a connection with room in the pool, and then setting its descriptor, which
  \<open>DoTcpAccept\<close> does after arming the read event.
\<close>

lemma create_conn_inv:
  assumes inv: "mgr_inv m" and room: "int (length (conn_map m)) < total_unit_count (conn_pool m)"
    and new: "map_of (conn_map m) fd = None"
  shows "\<exists>ptr m1. create_conn fd m = Inr (ptr, m1) \<and>
    (\<exists>m2. set_connection m1 ptr (conn_init\<lparr>conn_fd := fd\<rparr>) = Inr m2 \<and> mgr_inv m2 \<and>
      map_of (conn_map m2) = (map_of (conn_map m))(fd \<mapsto> ptr) \<and> conn_at m2 fd = conn_init\<lparr>conn_fd := fd\<rparr> \<and>
      (\<forall>fd'. map_of (conn_map m) fd' \<noteq> None \<longrightarrow> conn_at m2 fd' = conn_at m fd') \<and>
      total_unit_count (conn_pool m2) = total_unit_count (conn_pool m)) \<and>
    get_connection m1 ptr = Inr conn_init"
proof -
  have pinv: "pool_inv (conn_pool m)" and ok: "smap_ok (conn_map m)" using inv by (simp_all add: mgr_inv_def)
  have "card (pool_used (conn_pool m)) < nat (total_unit_count (conn_pool m))"
    using room mgr_size [OF inv] by simp
  then obtain ptr p where p: "pool_alloc (conn_pool m) = Inr (Some ptr, p)" "pool_inv p" "0 < ptr"
    "ptr \<notin> pool_used (conn_pool m)" "pool_used p = insert ptr (pool_used (conn_pool m))"
    "total_unit_count p = total_unit_count (conn_pool m)" "pool_mem p = pool_mem (conn_pool m)"
    using pool_alloc_some [OF pinv] by blast
  have len: "nat ptr < length (pool_mem p)"
    using p(2,5) pool_used_sub [of p] by (auto simp: pool_inv_def)
  let ?m1 = "m\<lparr>conn_pool := p\<lparr>pool_mem := (pool_mem p)[nat ptr := conn_init]\<rparr>,
    conn_map := smap_put fd ptr (conn_map m)\<rparr>"
  let ?c = "conn_init\<lparr>conn_fd := fd\<rparr>"
  let ?m2 = "?m1\<lparr>conn_pool := p\<lparr>pool_mem := (pool_mem p)[nat ptr := ?c]\<rparr>\<rparr>"
  let ?f = "map_of (conn_map m)"
  have c1: "create_conn fd m = Inr (ptr, ?m1)"
    using p(1,3) len by (simp add: create_conn_def set_connection_def nat_less_iff)
  have c2: "set_connection ?m1 ptr ?c = Inr ?m2"
    using p(3) len by (simp add: set_connection_def nat_less_iff)
  have used: "pool_used (p\<lparr>pool_mem := ms\<rparr>) = pool_used p" for ms by (simp add: pool_used_def)
  have "pool_inv (conn_pool ?m2)" using p(2) unfolding pool_inv_def used by (simp add: pool_inv_def used)
  moreover have old: "ptr' \<in> pool_used (conn_pool m) \<and> nat ptr' \<noteq> nat ptr" if "?f fd' = Some ptr'" for fd' ptr'
    using mgr_ptr(1,2) [OF inv that] p(3,4) by (metis nat_eq_iff2 order_less_le)
  moreover have "ran (?f(fd \<mapsto> ptr)) = pool_used (conn_pool ?m2)"
    using inv new p(5) used by (simp add: mgr_inv_def)
  moreover have "inj_on (?f(fd \<mapsto> ptr)) (dom (?f(fd \<mapsto> ptr)))"
  proof (rule inj_onI)
    fix x y assume xy: "x \<in> dom (?f(fd \<mapsto> ptr))" "y \<in> dom (?f(fd \<mapsto> ptr))" "(?f(fd \<mapsto> ptr)) x = (?f(fd \<mapsto> ptr)) y"
    have "inj_on ?f (dom ?f)" using inv by (simp add: mgr_inv_def)
    then show "x = y" using xy old p(4) by (auto simp: inj_on_def domIff split: if_splits)
  qed
  moreover have "\<forall>c\<in>set ((pool_mem p)[nat ptr := ?c]). conn_ok c"
    using inv p(7) by (auto simp: mgr_inv_def conn_ok_def conn_init_def dest: set_update_subset_insert [THEN subsetD])
  moreover have "conn_fd ((pool_mem p)[nat ptr := ?c] ! nat ptr') = fd'"
    if "(?f(fd \<mapsto> ptr)) fd' = Some ptr'" for fd' ptr'
    using that inv old [of fd' ptr'] len p(7) by (auto simp: mgr_inv_def split: if_splits)
  ultimately have inv2: "mgr_inv ?m2" using ok by (simp add: mgr_inv_def smap_put_ok)
  have at: "conn_at ?m2 fd = ?c" using ok len by (simp add: conn_at_def)
  have at': "conn_at ?m2 fd' = conn_at m fd'" if "?f fd' \<noteq> None" for fd'
  proof -
    from that obtain ptr' where "?f fd' = Some ptr'" by blast
    then show ?thesis using old [of fd' ptr'] new ok p(7) by (auto simp: conn_at_def)
  qed
  have g: "get_connection ?m1 ptr = Inr conn_init"
    using len p(3) by (simp add: get_connection_def nat_less_iff)
  have mp: "map_of (conn_map ?m2) = ?f(fd \<mapsto> ptr)" using ok by simp
  have tot: "total_unit_count (conn_pool ?m2) = total_unit_count (conn_pool m)" using p(6) by simp
  have "\<exists>m2. set_connection ?m1 ptr ?c = Inr m2 \<and> mgr_inv m2 \<and> map_of (conn_map m2) = ?f(fd \<mapsto> ptr) \<and>
      conn_at m2 fd = ?c \<and> (\<forall>fd'. ?f fd' \<noteq> None \<longrightarrow> conn_at m2 fd' = conn_at m fd') \<and>
      total_unit_count (conn_pool m2) = total_unit_count (conn_pool m)"
    by (intro exI [of _ ?m2] conjI allI impI, rule c2, rule inv2, rule mp, rule at, erule at', rule tot)
  then show ?thesis using c1 g by blast
qed

end
