(* ===== verification/Epoll_Loop.thy ===== *)
theory Epoll_Loop
  imports PF_Prelude
begin

text \<open>
  \<open>common/frame/epoller.{h,cpp}\<close>: the table of file events indexed by descriptor, \<open>AddEvent\<close>,
  \<open>DelEvent\<close> and the dispatch of \<open>Loop\<close>. The kernel is outside: the result of \<open>epoll_ctl\<close>
  and the events of \<open>epoll_wait\<close> are arguments, the \<open>epoll_ctl\<close> calls are returned. A
  procedure pointer is an option, \<open>client_data\<close> too.
\<close>

section \<open>State\<close>

definition EVENT_NONE :: int where "EVENT_NONE = 0"
definition EVENT_READ :: int where "EVENT_READ = 1"
definition EVENT_WRITE :: int where "EVENT_WRITE = 2"

record ('p, 'd) file_event =
  fe_mask :: int
  read_proc :: "'p option"
  write_proc :: "'p option"
  client_data :: "'d option"

type_synonym ('p, 'd) file_events = "('p, 'd) file_event list"

definition file_event_zero :: "('p, 'd) file_event" where
  "file_event_zero = \<lparr>fe_mask = 0, read_proc = None, write_proc = None, client_data = None\<rparr>"

text \<open>\<open>Init\<close>: \<open>epfd\<close> is the result of \<open>epoll_create\<close>; \<open>max_events_size_\<close> is the length.\<close>

definition epoller_init :: "nat \<Rightarrow> int \<Rightarrow> ('p, 'd) file_events res" where
  "epoller_init max_events_size epfd =
     rbind (guard Check_Failed (epfd \<noteq> - 1)) (\<lambda>_. Inr (replicate max_events_size file_event_zero))"

datatype ctl_op = EPOLL_CTL_ADD | EPOLL_CTL_MOD | EPOLL_CTL_DEL

text \<open>An \<open>epoll_ctl\<close> call: operation, descriptor, whether \<open>EPOLLIN\<close> and \<open>EPOLLOUT\<close> are set.\<close>

type_synonym ctl_call = "ctl_op \<times> int \<times> bool \<times> bool"

definition ev_in :: "int \<Rightarrow> bool" where "ev_in msk \<longleftrightarrow> msk AND EVENT_READ \<noteq> 0"
definition ev_out :: "int \<Rightarrow> bool" where "ev_out msk \<longleftrightarrow> msk AND EVENT_WRITE \<noteq> 0"

section \<open>Operations\<close>

definition add_event ::
  "(ctl_call \<Rightarrow> int) \<Rightarrow> int \<Rightarrow> int \<Rightarrow> 'p option \<Rightarrow> 'd option \<Rightarrow> ('p, 'd) file_events \<Rightarrow>
   (int \<times> ('p, 'd) file_events \<times> ctl_call list) res" where
  "add_event ctl fd msk proc data evs =
     (if fd \<ge> int (length evs) then Inr (- 1, evs, [])
      else
        rbind (rd evs fd) (\<lambda>fe.
        let op = (if fe_mask fe = EVENT_NONE then EPOLL_CTL_ADD else EPOLL_CTL_MOD);
            call = (op, fd, ev_in (msk OR fe_mask fe), ev_out (msk OR fe_mask fe)) in
        if ctl call = - 1 then Inr (- 1, evs, [call])
        else
          rbind (wr evs fd (fe\<lparr>fe_mask := fe_mask fe OR msk,
              read_proc := (if ev_in msk then proc else read_proc fe),
              write_proc := (if ev_out msk then proc else write_proc fe),
              client_data := data\<rparr>)) (\<lambda>evs'.
          Inr (0, evs', [call]))))"

definition del_event ::
  "int \<Rightarrow> int \<Rightarrow> ('p, 'd) file_events \<Rightarrow> (('p, 'd) file_events \<times> ctl_call list) res" where
  "del_event fd msk evs =
     (if fd \<ge> int (length evs) then Inr (evs, [])
      else
        rbind (rd evs fd) (\<lambda>fe.
        if fe_mask fe = EVENT_NONE then Inr (evs, [])
        else
          let m = fe_mask fe AND NOT msk in
          rbind (wr evs fd (fe\<lparr>fe_mask := m\<rparr>)) (\<lambda>evs'.
          Inr (evs', [(if m \<noteq> EVENT_NONE then EPOLL_CTL_MOD else EPOLL_CTL_DEL, fd, ev_in m, ev_out m)]))))"

definition clear_event :: "int \<Rightarrow> ('p, 'd) file_events \<Rightarrow> (('p, 'd) file_events \<times> ctl_call list) res" where
  "clear_event fd evs = del_event fd (EVENT_READ OR EVENT_WRITE) evs"

text \<open>
  \<open>Loop\<close> on the events \<open>epoll_wait\<close> delivered. The procedures run on the program's state
  \<open>'w\<close>, which holds the table (\<open>get\<close>), and the table is read again before each call.
\<close>

record ep_event =
  ee_fd :: int
  ee_in :: bool
  ee_out :: bool
  ee_err :: bool
  ee_hup :: bool

definition call_proc :: "('p \<Rightarrow> int \<Rightarrow> 'd option \<Rightarrow> 'w \<Rightarrow> 'w res) \<Rightarrow> 'p option \<Rightarrow> int \<Rightarrow> 'd option \<Rightarrow> 'w \<Rightarrow> 'w res" where
  "call_proc run proc fd data w = (case proc of None \<Rightarrow> Inl Null_Deref | Some p \<Rightarrow> run p fd data w)"

definition dispatch ::
  "('w \<Rightarrow> ('p, 'd) file_events) \<Rightarrow> ('p \<Rightarrow> int \<Rightarrow> 'd option \<Rightarrow> 'w \<Rightarrow> 'w res) \<Rightarrow>
   (('p, 'd) file_event \<Rightarrow> 'p option) \<Rightarrow> bool \<Rightarrow> int \<Rightarrow> 'w \<Rightarrow> 'w res" where
  "dispatch get run sel flag fd w =
     (if flag then rbind (rd (get w) fd) (\<lambda>fe. call_proc run (sel fe) fd (client_data fe) w) else Inr w)"

definition loop_event ::
  "('w \<Rightarrow> ('p, 'd) file_events) \<Rightarrow> ('p \<Rightarrow> int \<Rightarrow> 'd option \<Rightarrow> 'w \<Rightarrow> 'w res) \<Rightarrow> ep_event \<Rightarrow> 'w \<Rightarrow> 'w res" where
  "loop_event get run e w =
     rbind (dispatch get run read_proc (ee_in e) (ee_fd e) w) (\<lambda>w.
     rbind (dispatch get run write_proc (ee_out e) (ee_fd e) w) (\<lambda>w.
     rbind (dispatch get run write_proc (ee_err e) (ee_fd e) w) (\<lambda>w.
     dispatch get run write_proc (ee_hup e) (ee_fd e) w)))"

fun epoller_loop ::
  "('w \<Rightarrow> ('p, 'd) file_events) \<Rightarrow> ('p \<Rightarrow> int \<Rightarrow> 'd option \<Rightarrow> 'w \<Rightarrow> 'w res) \<Rightarrow> ep_event list \<Rightarrow> 'w \<Rightarrow> 'w res" where
  "epoller_loop get run [] w = Inr w"
| "epoller_loop get run (e # es) w = rbind (loop_event get run e w) (epoller_loop get run es)"

section \<open>The table invariant\<close>

text \<open>An armed direction has a procedure.\<close>

definition fe_ok :: "('p, 'd) file_event \<Rightarrow> bool" where
  "fe_ok fe \<longleftrightarrow> fe_mask fe \<in> {0, 1, 2, 3} \<and> (ev_in (fe_mask fe) \<longrightarrow> read_proc fe \<noteq> None) \<and>
     (ev_out (fe_mask fe) \<longrightarrow> write_proc fe \<noteq> None)"

definition evs_ok :: "('p, 'd) file_events \<Rightarrow> bool" where
  "evs_ok evs \<longleftrightarrow> (\<forall>fe\<in>set evs. fe_ok fe)"

lemma mask_cases:
  "m \<in> {0, 1, 2, 3 :: int} \<Longrightarrow> n \<in> {0, 1, 2, 3 :: int} \<Longrightarrow>
   m OR n \<in> {0, 1, 2, 3} \<and> m AND NOT n \<in> {0, 1, 2, 3} \<and> (ev_in (m OR n) \<longleftrightarrow> ev_in m \<or> ev_in n) \<and>
   (ev_out (m OR n) \<longleftrightarrow> ev_out m \<or> ev_out n) \<and> (ev_in (m AND NOT n) \<longleftrightarrow> ev_in m \<and> \<not> ev_in n) \<and>
   (ev_out (m AND NOT n) \<longleftrightarrow> ev_out m \<and> \<not> ev_out n)"
  by (elim insertE emptyE; simp add: ev_in_def ev_out_def EVENT_READ_def EVENT_WRITE_def)

lemma ev_simps [simp]:
  "\<not> ev_in 0" "ev_in 1" "\<not> ev_in 2" "ev_in 3" "\<not> ev_out 0" "\<not> ev_out 1" "ev_out 2" "ev_out 3"
  by (simp_all add: ev_in_def ev_out_def EVENT_READ_def EVENT_WRITE_def)

lemma evs_ok_nth: "evs_ok evs \<Longrightarrow> 0 \<le> fd \<Longrightarrow> fd < int (length evs) \<Longrightarrow> fe_ok (evs ! nat fd)"
  by (simp add: evs_ok_def nat_less_iff)

lemma evs_ok_update: "evs_ok evs \<Longrightarrow> fe_ok fe \<Longrightarrow> evs_ok (evs[i := fe])"
  by (auto simp: evs_ok_def dest: set_update_subset_insert [THEN subsetD])

lemma evs_ok_init: "epoller_init n epfd = Inr evs \<Longrightarrow> evs_ok evs \<and> length evs = n"
  by (auto simp: epoller_init_def evs_ok_def fe_ok_def file_event_zero_def rbind_eq_Inr_iff)

abbreviation fe_added :: "int \<Rightarrow> 'p option \<Rightarrow> 'd option \<Rightarrow> ('p, 'd) file_event \<Rightarrow> ('p, 'd) file_event" where
  "fe_added msk proc data fe \<equiv> fe\<lparr>fe_mask := fe_mask fe OR msk,
     read_proc := (if ev_in msk then proc else read_proc fe),
     write_proc := (if ev_out msk then proc else write_proc fe), client_data := data\<rparr>"

lemma fe_added_ok:
  assumes "fe_ok fe" "msk \<in> {0, 1, 2, 3}"
  shows "fe_ok (fe_added msk (Some p) d fe)"
proof -
  have "fe_mask fe \<in> {0, 1, 2, 3}" using assms(1) unfolding fe_ok_def by blast
  note m = mask_cases [OF this assms(2)]
  show ?thesis unfolding fe_ok_def using m assms(1) [unfolded fe_ok_def] by simp
qed

lemma fe_deleted_ok:
  assumes "fe_ok fe" "msk \<in> {0, 1, 2, 3}"
  shows "fe_ok (fe\<lparr>fe_mask := fe_mask fe AND NOT msk\<rparr>)"
proof -
  have "fe_mask fe \<in> {0, 1, 2, 3}" using assms(1) unfolding fe_ok_def by blast
  note m = mask_cases [OF this assms(2)]
  show ?thesis unfolding fe_ok_def using m assms(1) [unfolded fe_ok_def] by simp
qed

lemma add_event_ok:
  assumes "evs_ok evs" "0 \<le> fd" "msk \<in> {0, 1, 2, 3}"
  shows "\<exists>r evs' cs. add_event ctl fd msk (Some p) d evs = Inr (r, evs', cs) \<and> evs_ok evs' \<and>
    length evs' = length evs \<and> (r = 0 \<or> r = - 1 \<and> evs' = evs)"
proof (cases "fd < int (length evs)")
  case True
  have "evs_ok (evs[nat fd := fe_added msk (Some p) d (evs ! nat fd)])"
    by (rule evs_ok_update [OF assms(1) fe_added_ok [OF evs_ok_nth [OF assms(1,2) True] assms(3)]])
  then show ?thesis using True assms(1,2) by (simp add: add_event_def Let_def)
qed (use assms(1) in \<open>simp add: add_event_def\<close>)

lemma del_event_ok:
  assumes "evs_ok evs" "0 \<le> fd" "msk \<in> {0, 1, 2, 3}"
  shows "\<exists>evs' cs. del_event fd msk evs = Inr (evs', cs) \<and> evs_ok evs' \<and> length evs' = length evs"
proof (cases "fd < int (length evs)")
  case True
  have "evs_ok (evs[nat fd := (evs ! nat fd)\<lparr>fe_mask := fe_mask (evs ! nat fd) AND NOT msk\<rparr>])"
    by (rule evs_ok_update [OF assms(1) fe_deleted_ok [OF evs_ok_nth [OF assms(1,2) True] assms(3)]])
  then show ?thesis using True assms(1,2) by (simp add: del_event_def Let_def)
qed (use assms(1) in \<open>simp add: del_event_def\<close>)

lemma clear_event_ok:
  "evs_ok evs \<Longrightarrow> 0 \<le> fd \<Longrightarrow>
   \<exists>evs' cs. clear_event fd evs = Inr (evs', cs) \<and> evs_ok evs' \<and> length evs' = length evs"
  using del_event_ok [of evs fd 3] by (simp add: clear_event_def EVENT_READ_def EVENT_WRITE_def)

section \<open>Properties\<close>

text \<open>\<open>AddEvent\<close> followed by \<open>DelEvent\<close> of the same direction on a descriptor that was not
  armed arms and disarms the kernel (an \<open>ADD\<close>, then a \<open>DEL\<close>), and leaves the other
  descriptors' entries as they were.\<close>

theorem add_del_event:
  "0 \<le> fd \<Longrightarrow> fd < int (length evs) \<Longrightarrow> fe_mask (evs ! nat fd) = EVENT_NONE \<Longrightarrow> msk \<in> {1, 2, 3} \<Longrightarrow>
   ctl (EPOLL_CTL_ADD, fd, ev_in msk, ev_out msk) \<noteq> - 1 \<Longrightarrow>
   \<exists>evs1 evs2. add_event ctl fd msk (Some p) d evs =
       Inr (0, evs1, [(EPOLL_CTL_ADD, fd, ev_in msk, ev_out msk)]) \<and>
     fe_mask (evs1 ! nat fd) = msk \<and>
     del_event fd msk evs1 = Inr (evs2, [(EPOLL_CTL_DEL, fd, False, False)]) \<and>
     fe_mask (evs2 ! nat fd) = EVENT_NONE \<and> (\<forall>i. i \<noteq> nat fd \<longrightarrow> evs2 ! i = evs ! i)"
  by (auto simp: add_event_def del_event_def EVENT_NONE_def Let_def)

theorem add_del_event_witness:
  "\<exists>evs1. add_event (\<lambda>_. 0) 1 1 (Some ''read'') (Some ()) [file_event_zero, file_event_zero] =
     Inr (0, evs1, [(EPOLL_CTL_ADD, 1, True, False)])"
  using add_del_event [of 1 "[file_event_zero, file_event_zero]" 1 "\<lambda>_. 0" "''read''" "Some ()"]
  by (simp add: file_event_zero_def EVENT_NONE_def) blast

text \<open>An error or hang-up event on a descriptor that is armed for reading only makes \<open>Loop\<close>
  call the null write procedure, if the read procedure has not run or leaves the entry without
  a write procedure.\<close>

theorem loop_error_null_write:
  "0 \<le> fd \<Longrightarrow> fd < int (length (get w)) \<Longrightarrow> write_proc (get w ! nat fd) = None \<Longrightarrow> err \<or> hup \<Longrightarrow>
   loop_event get run \<lparr>ee_fd = fd, ee_in = False, ee_out = False, ee_err = err, ee_hup = hup\<rparr> w = Inl Null_Deref"
  by (auto simp: loop_event_def dispatch_def call_proc_def)

theorem loop_error_null_write_witness:
  "loop_event (\<lambda>w. [w]) (\<lambda>p fd d w. Inr w) \<lparr>ee_fd = 0, ee_in = False, ee_out = False, ee_err = False, ee_hup = True\<rparr>
     (file_event_zero\<lparr>fe_mask := 1, read_proc := Some ''read''\<rparr>) = Inl Null_Deref"
  using loop_error_null_write [of 0 "\<lambda>w. [w]" "file_event_zero\<lparr>fe_mask := 1, read_proc := Some ''read''\<rparr>" False True]
  by (simp add: file_event_zero_def)

end
