(* ===== verification/Event_Module.thy ===== *)
theory Event_Module
  imports Conn_Mgr Epoll_Loop
begin

text \<open>
  \<open>connsvr/event_module/event_module.{h,cpp}\<close>: the loop of the connection server. It accepts
  clients, cuts their byte streams into messages, forwards each with a \<open>ConnData\<close> header to
  the game server over a zmq pair, and writes the game server's answers back, buffering what
  a socket does not take.

  The operating system and zmq are outside: a \<open>sys\<close> gives the result of each call as a
  function of the effects so far, so every behaviour of the environment is some \<open>sys\<close>.
  Every call is recorded in \<open>out\<close>.
\<close>

section \<open>State and environment\<close>

datatype proc = Do_Tcp_Accept | Do_Tcp_Read | Do_Tcp_Write

datatype effect =
    E_Wait
  | E_Accept int
  | E_Recv int int
  | E_Send int bytes int
  | E_Zmq_Send bytes int
  | E_Zmq_Recv int
  | E_Close int
  | E_Ctl ctl_call

record sys =
  s_wait :: "effect list \<Rightarrow> ep_event list"
  s_accept :: "effect list \<Rightarrow> int"
  s_nonblock :: "effect list \<Rightarrow> int \<Rightarrow> bool"
  s_recv :: "effect list \<Rightarrow> int \<Rightarrow> int \<times> bytes"
  s_send :: "effect list \<Rightarrow> int \<Rightarrow> bytes \<Rightarrow> int \<times> bool"
  s_zmq_send :: "effect list \<Rightarrow> bytes \<Rightarrow> int"
  s_zmq_recv :: "effect list \<Rightarrow> int \<times> bytes"
  s_ctl :: "effect list \<Rightarrow> ctl_call \<Rightarrow> int"

record connsvr =
  mgr :: conn_mgr
  evs :: "(proc, unit) file_events"
  max_connection :: int
  out :: "effect list"

definition emit :: "effect list \<Rightarrow> connsvr \<Rightarrow> connsvr" where
  "emit es w = w\<lparr>out := out w @ es\<rparr>"

text \<open>The epoller a handler works on is its \<open>client_data\<close> argument, which may be null.\<close>

definition with_epoller :: "unit option \<Rightarrow> 'a res \<Rightarrow> 'a res" where
  "with_epoller arg r = (case arg of None \<Rightarrow> Inl Null_Deref | Some _ \<Rightarrow> r)"

definition ev_add :: "sys \<Rightarrow> int \<Rightarrow> int \<Rightarrow> proc \<Rightarrow> unit option \<Rightarrow> connsvr \<Rightarrow> (int \<times> connsvr) res" where
  "ev_add sys fd msk p data w =
     rbind (add_event (s_ctl sys (out w)) fd msk (Some p) data (evs w)) (\<lambda>(r, evs', cs).
     Inr (r, emit (map E_Ctl cs) (w\<lparr>evs := evs'\<rparr>)))"

definition ev_clear :: "int \<Rightarrow> connsvr \<Rightarrow> connsvr res" where
  "ev_clear fd w =
     rbind (clear_event fd (evs w)) (\<lambda>(evs', cs). Inr (emit (map E_Ctl cs) (w\<lparr>evs := evs'\<rparr>)))"

definition ev_del :: "int \<Rightarrow> int \<Rightarrow> connsvr \<Rightarrow> connsvr res" where
  "ev_del fd msk w =
     rbind (del_event fd msk (evs w)) (\<lambda>(evs', cs). Inr (emit (map E_Ctl cs) (w\<lparr>evs := evs'\<rparr>)))"

text \<open>\<open>ReleaseConn\<close> followed by \<open>ClearEvent\<close>, the end of every failed exchange.\<close>

definition drop_conn :: "unit option \<Rightarrow> int \<Rightarrow> connsvr \<Rightarrow> connsvr res" where
  "drop_conn arg fd w =
     rbind (release_conn fd (mgr w)) (\<lambda>(closed, m).
     let w1 = emit (map E_Close closed) (w\<lparr>mgr := m\<rparr>) in with_epoller arg (ev_clear fd w1))"

definition put_conn :: "int \<Rightarrow> connection \<Rightarrow> connsvr \<Rightarrow> connsvr res" where
  "put_conn ptr c w = rbind (set_connection (mgr w) ptr c) (\<lambda>m. Inr (w\<lparr>mgr := m\<rparr>))"

section \<open>DoTcpAccept\<close>

definition do_tcp_accept :: "sys \<Rightarrow> unit option \<Rightarrow> connsvr \<Rightarrow> connsvr res" where
  "do_tcp_accept sys arg w =
     (if get_cur_conn_map_size (mgr w) \<ge> max_connection w then Inr w
      else
        let fd = s_accept sys (out w); w1 = emit [E_Accept fd] w in
        if fd < 0 then Inr w1
        else
          rbind (guard Check_Failed (s_nonblock sys (out w1) fd)) (\<lambda>_.
          rbind (create_conn fd (mgr w1)) (\<lambda>(ptr, m).
          rbind (put_conn ptr conn_init (w1\<lparr>mgr := m\<rparr>)) (\<lambda>w2.
          rbind (with_epoller arg (ev_add sys fd EVENT_READ Do_Tcp_Read (Some ()) w2)) (\<lambda>(_, w3).
          rbind (get_connection (mgr w3) ptr) (\<lambda>c. put_conn ptr (c\<lparr>conn_fd := fd\<rparr>) w3))))))"

section \<open>DoTcpRead\<close>

definition send_conn_stop :: "sys \<Rightarrow> int \<Rightarrow> connsvr \<Rightarrow> connsvr" where
  "send_conn_stop sys idx w =
     (if idx = 0 then w
      else let pkt = put_conn_data \<lparr>cd_conn_fd = 0, cd_player_idx = idx, cd_conn_cmd = conn_cmd_code CONN_STOP\<rparr>
        in emit [E_Zmq_Send pkt (s_zmq_send sys (out w) pkt)] w)"

text \<open>One pass of the forwarding loop: \<open>None\<close> when no message is complete.\<close>

definition forward_one :: "sys \<Rightarrow> unit option \<Rightarrow> int \<Rightarrow> int \<Rightarrow> connsvr \<Rightarrow> (bool \<times> connsvr) option res" where
  "forward_one sys arg fd ptr w =
     rbind (get_connection (mgr w) ptr) (\<lambda>c.
     rbind (is_recv_proto_ready c) (\<lambda>rdy.
     if \<not> rdy then Inr None
     else
       rbind (get_msg_len_from_client (recv_buf c)) (\<lambda>msg_len.
       if msg_len > PKG_BUF_SIZE then Inr (Some (False, w))
       else
         rbind (mem_read (recv_buf c) 2 msg_len) (\<lambda>msg.
         let pkt = put_conn_data \<lparr>cd_conn_fd = fd, cd_player_idx = player_idx c,
               cd_conn_cmd = conn_cmd_code (if player_idx c = 0 then CONN_START else CONN_PROC)\<rparr> @ msg;
             ret = s_zmq_send sys (out w) pkt in
         rbind (remove_recv_proto c) (\<lambda>c'.
         rbind (put_conn ptr c' (emit [E_Zmq_Send pkt ret] w)) (\<lambda>w1.
         if ret < 0 then rbind (drop_conn arg fd w1) (\<lambda>w2. Inr (Some (False, w2)))
         else Inr (Some (True, w1))))))))"

text \<open>The loop itself; each pass takes at least two bytes out of the receive buffer, so
  \<open>fuel\<close> above the fill count is enough (\<open>forward_loop_enough\<close>).\<close>

fun forward_loop :: "sys \<Rightarrow> unit option \<Rightarrow> int \<Rightarrow> int \<Rightarrow> nat \<Rightarrow> connsvr \<Rightarrow> connsvr res" where
  "forward_loop sys arg fd ptr 0 w = Inr w"
| "forward_loop sys arg fd ptr (Suc n) w =
     rbind (forward_one sys arg fd ptr w) (\<lambda>r.
     case r of None \<Rightarrow> Inr w
     | Some (go, w1) \<Rightarrow> if go then forward_loop sys arg fd ptr n w1 else Inr w1)"

definition do_tcp_read :: "sys \<Rightarrow> unit option \<Rightarrow> int \<Rightarrow> connsvr \<Rightarrow> connsvr res" where
  "do_tcp_read sys arg fd w =
     (case get_conn (mgr w) fd of None \<Rightarrow> Inr w
      | Some ptr \<Rightarrow>
          let (recv_len, data) = s_recv sys (out w) fd; w1 = emit [E_Recv fd recv_len] w in
          rbind (get_connection (mgr w1) ptr) (\<lambda>c.
          if recv_len < 0 then drop_conn arg fd w1
          else if recv_len = 0 then drop_conn arg fd (send_conn_stop sys (player_idx c) w1)
          else
            rbind (add_recv_data (take (nat recv_len) data) c) (\<lambda>(r, c').
            if r \<noteq> 0 then drop_conn arg fd w1
            else rbind (put_conn ptr c' w1) (forward_loop sys arg fd ptr 10241))))"

section \<open>ZmqReadLoop\<close>

text \<open>Buffering the part of a packet that was not sent.\<close>

definition queue_rest :: "int \<Rightarrow> int \<Rightarrow> bytes \<Rightarrow> connsvr \<Rightarrow> (bool \<times> connsvr) res" where
  "queue_rest fd ptr rest w =
     rbind (get_connection (mgr w) ptr) (\<lambda>c.
     rbind (add_send_data rest c) (\<lambda>(r, c').
     if r \<noteq> 0 then rbind (drop_conn (Some ()) fd w) (\<lambda>w. Inr (False, w))
     else rbind (put_conn ptr c' w) (\<lambda>w. Inr (True, w))))"

text \<open>Sending or buffering a packet; \<open>False\<close> when the connection has been dropped.\<close>

definition deliver :: "sys \<Rightarrow> int \<Rightarrow> int \<Rightarrow> bytes \<Rightarrow> connsvr \<Rightarrow> (bool \<times> connsvr) res" where
  "deliver sys fd ptr pkt w =
     rbind (get_connection (mgr w) ptr) (\<lambda>c.
     if send_buf_size c = 0 then
       let (ret, again) = s_send sys (out w) fd pkt; w1 = emit [E_Send fd pkt ret] w in
       if ret < 0 then
         if again then rbind (ev_add sys fd EVENT_WRITE Do_Tcp_Write None w1) (\<lambda>(_, w2). Inr (True, w2))
         else rbind (drop_conn (Some ()) fd w1) (\<lambda>w. Inr (False, w))
       else if ret < int (length pkt) then
         rbind (ev_add sys fd EVENT_WRITE Do_Tcp_Write (Some ()) w1) (\<lambda>(_, w2).
         queue_rest fd ptr (drop (nat ret) pkt) w2)
       else Inr (True, w1)
     else queue_rest fd ptr pkt w)"

text \<open>What the command of a packet from the game server does to the connection.\<close>

definition conn_command :: "int \<Rightarrow> int \<Rightarrow> int \<Rightarrow> int \<Rightarrow> connsvr \<Rightarrow> connsvr res" where
  "conn_command fd ptr cmd idx w =
     rbind (get_connection (mgr w) ptr) (\<lambda>c.
     if cmd = conn_cmd_code CONN_PROC \<and> player_idx c = 0 then put_conn ptr (c\<lparr>player_idx := idx\<rparr>) w
     else if cmd = conn_cmd_code CONN_START then put_conn ptr (c\<lparr>player_idx := idx\<rparr>) w
     else if cmd = conn_cmd_code CONN_STOP then drop_conn (Some ()) fd w
     else Inr w)"

definition zmq_read_loop :: "sys \<Rightarrow> connsvr \<Rightarrow> connsvr res" where
  "zmq_read_loop sys w =
     (let (recv_len, buf) = s_zmq_recv sys (out w); w1 = emit [E_Zmq_Recv recv_len] w in
      if recv_len \<ge> CONN_DATA_SIZE then
        let msg_len = get_msg_len_from_conn recv_len in
        rbind (get_conn_data_from_conn buf) (\<lambda>cd.
        case get_conn (mgr w1) (cd_conn_fd cd) of None \<Rightarrow> Inr w1
        | Some ptr \<Rightarrow>
            if msg_len > PKG_BUF_SIZE then Inr w1
            else
              rbind (mem_read buf 12 msg_len) (\<lambda>msg.
              let pkt = put_u16_be (2 + msg_len) @ msg in
              rbind (deliver sys (cd_conn_fd cd) ptr pkt w1) (\<lambda>(go, w2).
              if go then conn_command (cd_conn_fd cd) ptr (cd_conn_cmd cd) (cd_player_idx cd) w2 else Inr w2)))
      else Inr w1)"

section \<open>DoTcpWrite and the loop\<close>

definition do_tcp_write :: "sys \<Rightarrow> unit option \<Rightarrow> int \<Rightarrow> connsvr \<Rightarrow> connsvr res" where
  "do_tcp_write sys arg fd w =
     (case get_conn (mgr w) fd of None \<Rightarrow> Inr w
      | Some ptr \<Rightarrow>
          rbind (get_connection (mgr w) ptr) (\<lambda>c.
          rbind (mem_read (send_buf c) 0 (send_buf_size c)) (\<lambda>data.
          let (ret, _) = s_send sys (out w) fd data; w1 = emit [E_Send fd data ret] w in
          if ret < 0 then drop_conn arg fd w1
          else if ret > 0 \<and> ret < send_buf_size c then rbind (remove_send_data ret c) (\<lambda>c'. put_conn ptr c' w1)
          else if ret = send_buf_size c then
            rbind (put_conn ptr (clear_send_data c) w1) (\<lambda>w2. with_epoller arg (ev_del fd EVENT_WRITE w2))
          else Inr w1)))"

fun run_proc :: "sys \<Rightarrow> proc \<Rightarrow> int \<Rightarrow> unit option \<Rightarrow> connsvr \<Rightarrow> connsvr res" where
  "run_proc sys Do_Tcp_Accept fd arg w = do_tcp_accept sys arg w"
| "run_proc sys Do_Tcp_Read fd arg w = do_tcp_read sys arg fd w"
| "run_proc sys Do_Tcp_Write fd arg w = do_tcp_write sys arg fd w"

text \<open>\<open>Run\<close>: \<open>LOOP_TIMES\<close> rounds of the epoll loop and one packet from the game server.\<close>

definition LOOP_TIMES :: nat where "LOOP_TIMES = 1000"

definition event_round :: "sys \<Rightarrow> connsvr \<Rightarrow> connsvr res" where
  "event_round sys w =
     (let es = s_wait sys (out w) in
      rbind (epoller_loop evs (run_proc sys) es (emit [E_Wait] w)) (zmq_read_loop sys))"

fun event_rounds :: "sys \<Rightarrow> nat \<Rightarrow> connsvr \<Rightarrow> connsvr res" where
  "event_rounds sys 0 w = Inr w"
| "event_rounds sys (Suc n) w = rbind (event_round sys w) (event_rounds sys n)"

definition event_run :: "sys \<Rightarrow> connsvr \<Rightarrow> connsvr res" where
  "event_run sys w = event_rounds sys LOOP_TIMES w"

text \<open>\<open>ModuleInit\<close> from the epoller on: the table has \<open>conn_pool_size\<close> entries and the
  listening descriptor is armed for reading, or the process aborts.\<close>

definition event_init :: "sys \<Rightarrow> int \<Rightarrow> int \<Rightarrow> int \<Rightarrow> conn_mgr \<Rightarrow> connsvr res" where
  "event_init sys conn_pool_size epfd listen_fd m =
     rbind (epoller_init (nat conn_pool_size) epfd) (\<lambda>evs.
     rbind (ev_add sys listen_fd EVENT_READ Do_Tcp_Accept (Some ())
       \<lparr>mgr = m, evs = evs, max_connection = conn_pool_size, out = []\<rparr>) (\<lambda>(r, w).
     rbind (guard Check_Failed (r = 0)) (\<lambda>_. Inr w)))"

end
