(* ===== verification/Event_Props.thy ===== *)
theory Event_Props
  imports Event_Module
begin

text \<open>
  What the connection server guarantees: its invariant is kept, the messages of a client's
  stream reach the game server complete, in order and with the right header however TCP
  cuts the stream, and the bytes of an answer are sent or kept, in order, until they are
  sent; and the inputs on which it fails.
\<close>

section \<open>Invariant\<close>

definition cs_inv :: "connsvr \<Rightarrow> bool" where
  "cs_inv w \<longleftrightarrow> mgr_inv (mgr w) \<and> evs_ok (evs w) \<and>
     total_unit_count (conn_pool (mgr w)) = max_connection w \<and>
     (\<forall>fd\<in>dom (map_of (conn_map (mgr w))). 0 \<le> fd)"

abbreviation conns :: "connsvr \<Rightarrow> int \<Rightarrow> int option" where
  "conns w \<equiv> map_of (conn_map (mgr w))"

abbreviation conn_of :: "connsvr \<Rightarrow> int \<Rightarrow> connection" where
  "conn_of w fd \<equiv> conn_at (mgr w) fd"

text \<open>What is left of the state when only the connection \<open>fd\<close> has changed.\<close>

definition frame_conn :: "int \<Rightarrow> connsvr \<Rightarrow> connsvr \<Rightarrow> bool" where
  "frame_conn fd w w' \<longleftrightarrow> conns w' = conns w \<and> max_connection w' = max_connection w \<and>
     (\<forall>fd'. fd' \<noteq> fd \<longrightarrow> conns w fd' \<noteq> None \<longrightarrow> conn_of w' fd' = conn_of w fd')"

lemma frame_conn_refl [simp]: "frame_conn fd w w"
  by (simp add: frame_conn_def)

lemma frame_conn_trans: "frame_conn fd a b \<Longrightarrow> frame_conn fd b c \<Longrightarrow> frame_conn fd a c"
  by (auto simp: frame_conn_def)

lemma emit_simps [simp]:
  "mgr (emit es w) = mgr w" "evs (emit es w) = evs w" "out (emit es w) = out w @ es"
  "max_connection (emit es w) = max_connection w"
  by (simp_all add: emit_def)

lemma cs_inv_emit [simp]: "cs_inv (emit es w) = cs_inv w"
  by (simp add: cs_inv_def)

lemma frame_conn_emit [simp]: "frame_conn fd w (emit es w)" "frame_conn fd (emit es w) w' = frame_conn fd w w'"
  by (simp_all add: frame_conn_def)

lemma cs_conn:
  assumes "cs_inv w" "conns w fd = Some ptr"
  shows "get_connection (mgr w) ptr = Inr (conn_of w fd)" "conn_ok (conn_of w fd)"
    "conn_fd (conn_of w fd) = fd" "0 \<le> fd"
  using mgr_ptr [of "mgr w" fd ptr] assms by (auto simp: cs_inv_def)

lemma put_conn_ok:
  assumes "cs_inv w" "conns w fd = Some ptr" "conn_ok c" "conn_fd c = fd"
  obtains w' where "put_conn ptr c w = Inr w'" "cs_inv w'" "frame_conn fd w w'" "conn_of w' fd = c"
    "out w' = out w" "evs w' = evs w"
proof -
  obtain m' where m: "set_connection (mgr w) ptr c = Inr m'" "mgr_inv m'" "conn_map m' = conn_map (mgr w)"
    "conn_at m' fd = c" "\<forall>fd'. fd' \<noteq> fd \<longrightarrow> map_of (conn_map (mgr w)) fd' \<noteq> None \<longrightarrow> conn_at m' fd' = conn_of w fd'"
    "total_unit_count (conn_pool m') = total_unit_count (conn_pool (mgr w))"
    using set_connection_inv [OF _ assms(2-4)] assms(1) unfolding cs_inv_def by blast
  show thesis
    by (rule that [of "w\<lparr>mgr := m'\<rparr>"]) (use m assms(1) in \<open>auto simp: put_conn_def cs_inv_def frame_conn_def\<close>)
qed

lemma ev_clear_ok:
  assumes "cs_inv w" "0 \<le> fd"
  obtains w' cs where "ev_clear fd w = Inr w'" "cs_inv w'" "mgr w' = mgr w"
    "max_connection w' = max_connection w" "out w' = out w @ map E_Ctl cs"
proof -
  obtain evs' cs where e: "clear_event fd (evs w) = Inr (evs', cs)" "evs_ok evs'"
    using clear_event_ok [of "evs w" fd] assms by (auto simp: cs_inv_def)
  show thesis
    by (rule that [of "emit (map E_Ctl cs) (w\<lparr>evs := evs'\<rparr>)" cs])
      (use e assms(1) in \<open>simp_all add: ev_clear_def cs_inv_def\<close>)
qed

text \<open>Dropping a connection closes its descriptor, frees its unit and unmaps it.\<close>

lemma drop_conn_ok:
  assumes inv: "cs_inv w" and p: "conns w fd = Some ptr"
  obtains w' cs where "drop_conn (Some ()) fd w = Inr w'" "cs_inv w'" "conns w' = (conns w)(fd := None)"
    "out w' = out w @ E_Close fd # map E_Ctl cs" "\<forall>fd'. fd' \<noteq> fd \<longrightarrow> conn_of w' fd' = conn_of w fd'"
    "max_connection w' = max_connection w"
proof -
  obtain m' where m: "release_conn fd (mgr w) = Inr ([fd], m')" "mgr_inv m'"
    "map_of (conn_map m') = (conns w)(fd := None)" "\<forall>fd'. fd' \<noteq> fd \<longrightarrow> conn_at m' fd' = conn_of w fd'"
    "total_unit_count (conn_pool m') = total_unit_count (conn_pool (mgr w))"
    using release_conn_inv [OF _ p] inv unfolding cs_inv_def by blast
  let ?w = "emit [E_Close fd] (w\<lparr>mgr := m'\<rparr>)"
  have inv1: "cs_inv ?w" using inv m by (auto simp: cs_inv_def)
  obtain w' cs where w': "ev_clear fd ?w = Inr w'" "cs_inv w'" "mgr w' = mgr ?w"
    "max_connection w' = max_connection ?w" "out w' = out ?w @ map E_Ctl cs"
    by (rule ev_clear_ok [OF inv1 cs_conn(4) [OF inv p]])
  show thesis
    by (rule that [of w' cs]) (use m w' in \<open>simp_all add: drop_conn_def with_epoller_def\<close>)
qed

section \<open>Accepting\<close>

lemma do_tcp_accept_new:
  assumes inv: "cs_inv w" and fd: "fd = s_accept sys (out w)" "conns w fd = None"
    and nb: "s_nonblock sys (out (emit [E_Accept fd] w)) fd"
    and True: "int (length (conn_map (mgr w))) < max_connection w \<and> 0 \<le> fd"
  obtains w' ptr cs where "do_tcp_accept sys (Some ()) w = Inr w'" "cs_inv w'" "conns w' = (conns w)(fd \<mapsto> ptr)"
    "conn_of w' fd = conn_init\<lparr>conn_fd := fd\<rparr>" "\<forall>fd'. conns w fd' \<noteq> None \<longrightarrow> conn_of w' fd' = conn_of w fd'"
    "out w' = out w @ E_Accept fd # map E_Ctl cs"
proof -
  let ?c = "conn_init\<lparr>conn_fd := fd\<rparr>"
  have minv: "mgr_inv (mgr w)" and room: "int (length (conn_map (mgr w))) < total_unit_count (conn_pool (mgr w))"
    using inv True by (simp_all add: cs_inv_def)
  obtain ptr m1 m2 where c: "create_conn fd (mgr w) = Inr (ptr, m1)" "get_connection m1 ptr = Inr conn_init"
    and m2: "set_connection m1 ptr ?c = Inr m2" "mgr_inv m2" "map_of (conn_map m2) = (conns w)(fd \<mapsto> ptr)"
      "conn_at m2 fd = ?c" "\<forall>fd'. conns w fd' \<noteq> None \<longrightarrow> conn_at m2 fd' = conn_of w fd'"
      "total_unit_count (conn_pool m2) = total_unit_count (conn_pool (mgr w))"
    using create_conn_inv [OF minv room fd(2)] by blast
  have "rd (pool_mem (conn_pool m1)) ptr = Inr conn_init" using c(2) by (simp add: get_connection_def)
  then have pr: "0 \<le> ptr" "ptr < int (length (pool_mem (conn_pool m1)))" "pool_mem (conn_pool m1) ! nat ptr = conn_init"
    by (simp_all add: rd_eq_Inr_iff)
  have "(pool_mem (conn_pool m1))[nat ptr := conn_init] = pool_mem (conn_pool m1)"
    using pr(3) list_update_id by metis
  then have again: "set_connection m1 ptr conn_init = Inr m1"
    using pr(1,2) by (simp add: set_connection_def)
  let ?w1 = "emit [E_Accept fd] w"
  let ?w2 = "?w1\<lparr>mgr := m1\<rparr>"
  have "evs_ok (evs w)" using inv by (simp add: cs_inv_def)
  then obtain r evs' cs where e: "add_event (s_ctl sys (out ?w2)) fd 1 (Some Do_Tcp_Read) (Some ()) (evs w) = Inr (r, evs', cs)"
    "evs_ok evs'" using add_event_ok [of "evs w" fd 1 "s_ctl sys (out ?w2)" Do_Tcp_Read "Some ()"] True by auto
  let ?w3 = "emit (map E_Ctl cs) (?w2\<lparr>evs := evs'\<rparr>)"
  have "do_tcp_accept sys (Some ()) w = Inr (?w3\<lparr>mgr := m2\<rparr>)"
    using True fd(1) nb c m2(1) again e(1)
    by (simp add: do_tcp_accept_def get_cur_conn_map_size_def Let_def put_conn_def with_epoller_def ev_add_def
        EVENT_READ_def emit_def)
  moreover have "cs_inv (?w3\<lparr>mgr := m2\<rparr>)"
    using inv m2 e(2) True by (auto simp: cs_inv_def emit_def)
  ultimately show thesis by (rule that) (use m2(3-5) in \<open>simp_all add: emit_def\<close>)
qed

text \<open>\<open>DoTcpAccept\<close> under the server's invariant never works on a null connection: its
  size check keeps the pool from being exhausted. It keeps the invariant, and when the kernel
  gives a new descriptor it maps it to a fresh empty connection that knows its descriptor,
  leaving the others alone.\<close>

theorem do_tcp_accept_spec:
  assumes inv: "cs_inv w" and fd: "fd = s_accept sys (out w)" "conns w fd = None"
    and nb: "\<And>es. s_nonblock sys es fd"
  shows "\<exists>w'. do_tcp_accept sys (Some ()) w = Inr w' \<and> cs_inv w' \<and>
    (if int (length (conn_map (mgr w))) < max_connection w \<and> 0 \<le> fd
     then dom (conns w') = insert fd (dom (conns w)) \<and> conn_of w' fd = conn_init\<lparr>conn_fd := fd\<rparr> \<and>
       (\<forall>fd'. conns w fd' \<noteq> None \<longrightarrow> conn_of w' fd' = conn_of w fd')
     else mgr w' = mgr w)"
proof (cases "int (length (conn_map (mgr w))) < max_connection w \<and> 0 \<le> fd")
  case False
  then show ?thesis
    using inv fd(1) by (auto simp: do_tcp_accept_def get_cur_conn_map_size_def Let_def)
next
  case True
  have "s_nonblock sys (out (emit [E_Accept fd] w)) fd" by (rule nb)
  obtain w' ptr where "do_tcp_accept sys (Some ()) w = Inr w'" "cs_inv w'" "conns w' = (conns w)(fd \<mapsto> ptr)"
    "conn_of w' fd = conn_init\<lparr>conn_fd := fd\<rparr>" "\<forall>fd'. conns w fd' \<noteq> None \<longrightarrow> conn_of w' fd' = conn_of w fd'"
    by (rule do_tcp_accept_new [OF inv fd nb True]) blast
  then show ?thesis using True by simp
qed

section \<open>Forwarding\<close>

definition zmq_sent :: "effect list \<Rightarrow> bytes list" where
  "zmq_sent es = concat (map (\<lambda>e. case e of E_Zmq_Send b _ \<Rightarrow> [b] | _ \<Rightarrow> []) es)"

lemma zmq_sent_simps [simp]:
  "zmq_sent [] = []" "zmq_sent (a @ b) = zmq_sent a @ zmq_sent b" "zmq_sent (E_Zmq_Send p r # es) = p # zmq_sent es"
  "zmq_sent (E_Recv x y # es) = zmq_sent es" "zmq_sent (map E_Ctl cs) = []" "zmq_sent (E_Close z # es) = zmq_sent es"
  by (auto simp: zmq_sent_def)

definition client_packet :: "int \<Rightarrow> connection \<Rightarrow> bytes \<Rightarrow> bytes" where
  "client_packet fd c msg = put_conn_data \<lparr>cd_conn_fd = fd, cd_player_idx = player_idx c,
     cd_conn_cmd = (if player_idx c = 0 then 1 else 2)\<rparr> @ msg"

lemma client_packet_eq:
  "put_conn_data \<lparr>cd_conn_fd = fd, cd_player_idx = player_idx c,
     cd_conn_cmd = conn_cmd_code (if player_idx c = 0 then CONN_START else CONN_PROC)\<rparr> @ msg = client_packet fd c msg"
  by (simp add: client_packet_def)

lemma plen_bound: "plen d < 65536"
  using byte_range' [of "d ! 0"] byte_range' [of "d ! 1"] by (simp add: plen_def)

lemma msg_len_client:
  assumes "2 \<le> length buf"
  shows "get_msg_len_from_client buf = Inr (plen buf - 2)"
proof -
  have "i32 (u64 y) = i32 y" for y
    unfolding i32_def u64_def signed_take_bit_take_bit by simp
  then show ?thesis using plen_nonneg [of buf] plen_bound [of buf] assms
    by (simp add: get_msg_len_from_client_def ntohs_at_plen i32_id)
qed

lemma recv_payload:
  assumes ok: "conn_ok c" and rdy: "frame_ready (recv_data c)" and l: "2 \<le> plen (recv_data c)"
  shows "mem_read (recv_buf c) 2 (plen (recv_buf c) - 2) = Inr (payload (recv_data c))"
    "plen (recv_buf c) - 2 \<le> 10240"
proof -
  have sz: "4 < recv_buf_size c" "plen (recv_buf c) \<le> recv_buf_size c" "recv_buf_size c \<le> 10240"
    "length (recv_buf c) = 10240"
    using rdy recv_data_length [OF ok] recv_buf_plen [OF ok] ok by (auto simp: frame_ready_def conn_ok_def)
  have pl: "plen (recv_buf c) = plen (recv_data c)" using recv_buf_plen [OF ok] sz by simp
  show "plen (recv_buf c) - 2 \<le> 10240" using sz by simp
  have "take (nat (plen (recv_data c)) - 2) (drop 2 (recv_buf c)) = payload (recv_data c)"
    using sz l pl by (simp add: payload_def recv_data_def drop_take min_def nat_le_eq_zle le_diff_iff)
  then show "mem_read (recv_buf c) 2 (plen (recv_buf c) - 2) = Inr (payload (recv_data c))"
    using sz l pl by (simp add: mem_read_in nat_diff_distrib)
qed

lemma forward_one_idle:
  assumes "cs_inv w" "conns w fd = Some ptr" "\<not> frame_ready (recv_data (conn_of w fd))"
  shows "forward_one sys arg fd ptr w = Inr None"
  using cs_conn [OF assms(1,2)] assms(3) by (simp add: forward_one_def rb.ready_law)

lemma forward_one_step:
  assumes inv: "cs_inv w" and p: "conns w fd = Some ptr"
    and rdy: "frame_ready (recv_data (conn_of w fd))" "2 \<le> plen (recv_data (conn_of w fd))"
    and zmq: "\<And>es b. 0 \<le> s_zmq_send sys es b"
  obtains w' where "forward_one sys arg fd ptr w = Inr (Some (True, w'))" "cs_inv w'" "frame_conn fd w w'"
    "recv_data (conn_of w' fd) = drop (nat (plen (recv_data (conn_of w fd)))) (recv_data (conn_of w fd))"
    "player_idx (conn_of w' fd) = player_idx (conn_of w fd)" "evs w' = evs w"
    "zmq_sent (out w') = zmq_sent (out w) @ [client_packet fd (conn_of w fd) (payload (recv_data (conn_of w fd)))]"
proof -
  let ?c = "conn_of w fd"
  note c = cs_conn [OF inv p]
  let ?pkt = "client_packet fd ?c (payload (recv_data ?c))"
  let ?w1 = "emit [E_Zmq_Send ?pkt (s_zmq_send sys (out w) ?pkt)] w"
  obtain c' where c': "remove_recv_proto ?c = Inr c'" "conn_ok c'"
    "recv_data c' = drop (nat (plen (recv_data ?c))) (recv_data ?c)" "player_idx c' = player_idx ?c" "conn_fd c' = conn_fd ?c"
    using remove_recv_proto_ready [OF c(2) rdy(1)] by blast
  have fd': "conn_fd c' = fd" using c'(5) c(3) by simp
  have inv1: "cs_inv ?w1" and p1: "conns ?w1 fd = Some ptr" using inv p by simp_all
  obtain w' where w': "put_conn ptr c' ?w1 = Inr w'" "cs_inv w'" "frame_conn fd ?w1 w'" "conn_of w' fd = c'"
    "out w' = out ?w1" "evs w' = evs ?w1" by (rule put_conn_ok [OF inv1 p1 c'(2) fd'])
  have len: "2 \<le> length (recv_buf ?c)" using c(2) by (simp add: conn_ok_def)
  have "forward_one sys arg fd ptr w = Inr (Some (True, w'))"
    using c(1,2) rdy(1) c'(1) w'(1) recv_payload [OF c(2) rdy] zmq [of "out w" ?pkt]
    unfolding forward_one_def Let_def client_packet_eq
    by (simp add: rb.ready_law msg_len_client [OF len] PKG_BUF_SIZE_def client_packet_eq not_less)
  then show thesis using w' c' that by simp
qed

text \<open>The loop forwards the complete frames of the receive buffer and leaves the rest.\<close>

lemma forward_loop_split:
  assumes "cs_inv w" "conns w fd = Some ptr" "\<And>es b. 0 \<le> s_zmq_send sys es b"
    and "split_frames (recv_data (conn_of w fd)) = (ms, r)" "\<not> frame_ready r"
    and "length (recv_data (conn_of w fd)) < n"
  shows "\<exists>w'. forward_loop sys arg fd ptr n w = Inr w' \<and> cs_inv w' \<and> frame_conn fd w w' \<and>
    recv_data (conn_of w' fd) = r \<and> player_idx (conn_of w' fd) = player_idx (conn_of w fd) \<and> evs w' = evs w \<and>
    zmq_sent (out w') = zmq_sent (out w) @ map (client_packet fd (conn_of w fd)) ms"
  using assms(1,2,4-6)
proof (induction n arbitrary: w ms)
  case (Suc n)
  let ?c = "conn_of w fd"
  have ok: "conn_ok ?c" using cs_conn(2) [OF Suc.prems(1,2)] .
  show ?case
  proof (cases "frame_ready (recv_data ?c)")
    case False
    then have "ms = []" "r = recv_data ?c" using rb.not_ready_split [OF ok False] Suc.prems(3) by auto
    then show ?thesis using forward_one_idle [OF Suc.prems(1,2) False] Suc.prems(1) by auto
  next
    case True
    then have l: "2 \<le> plen (recv_data ?c)"
      using Suc.prems(3,4) by (cases "2 \<le> plen (recv_data ?c)") (auto simp: split_frames.simps [of "recv_data ?c"])
    obtain w1 where w1: "forward_one sys arg fd ptr w = Inr (Some (True, w1))" "cs_inv w1" "frame_conn fd w w1"
      "recv_data (conn_of w1 fd) = drop (nat (plen (recv_data ?c))) (recv_data ?c)"
      "player_idx (conn_of w1 fd) = player_idx ?c" "evs w1 = evs w"
      "zmq_sent (out w1) = zmq_sent (out w) @ [client_packet fd ?c (payload (recv_data ?c))]"
      by (rule forward_one_step [OF Suc.prems(1,2) True l assms(3)])
    obtain ms' where ms: "ms = payload (recv_data ?c) # ms'" "split_frames (recv_data (conn_of w1 fd)) = (ms', r)"
      using Suc.prems(3) True l w1(4) by (subst (asm) split_frames.simps) (auto split: prod.splits)
    have p1: "conns w1 fd = Some ptr" using w1(3) Suc.prems(2) by (simp add: frame_conn_def)
    have "length (recv_data (conn_of w1 fd)) < n"
      using Suc.prems(5) l True unfolding w1(4) frame_ready_def length_drop by linarith
    from Suc.IH [OF w1(2) p1 ms(2) Suc.prems(4) this]
    obtain w' where w': "forward_loop sys arg fd ptr n w1 = Inr w'" "cs_inv w'" "frame_conn fd w1 w'"
      "recv_data (conn_of w' fd) = r" "player_idx (conn_of w' fd) = player_idx (conn_of w1 fd)" "evs w' = evs w1"
      "zmq_sent (out w') = zmq_sent (out w1) @ map (client_packet fd (conn_of w1 fd)) ms'" by blast
    have "client_packet fd (conn_of w1 fd) = client_packet fd ?c" using w1(5) by (simp add: client_packet_def fun_eq_iff)
    then show ?thesis using w1 w' ms(1) frame_conn_trans [OF w1(3) w'(3)] by (intro exI [of _ w']) simp
  qed
qed simp

section \<open>Reading a client's stream\<close>

lemma do_tcp_read_chunk:
  assumes inv: "cs_inv w" and p: "conns w fd = Some ptr" and zmq: "\<And>es b. 0 \<le> s_zmq_send sys es b"
    and recv: "s_recv sys (out w) fd = (int (length d), d)" "d \<noteq> []"
    and fits: "length (recv_data (conn_of w fd)) + length d \<le> 10240"
    and split: "split_frames (recv_data (conn_of w fd) @ d) = (ms, r)" "\<not> frame_ready r"
  shows "\<exists>w'. do_tcp_read sys arg fd w = Inr w' \<and> cs_inv w' \<and> frame_conn fd w w' \<and>
    recv_data (conn_of w' fd) = r \<and> player_idx (conn_of w' fd) = player_idx (conn_of w fd) \<and> evs w' = evs w \<and>
    zmq_sent (out w') = zmq_sent (out w) @ map (client_packet fd (conn_of w fd)) ms"
proof -
  let ?c = "conn_of w fd" and ?w1 = "emit [E_Recv fd (int (length d))] w"
  note c = cs_conn [OF inv p]
  obtain c' where c': "add_recv_data d ?c = Inr (0, c')" "conn_ok c'" "recv_data c' = recv_data ?c @ d"
    "player_idx c' = player_idx ?c" "conn_fd c' = conn_fd ?c"
    using add_recv_data_fits [OF c(2) fits] by blast
  have fd': "conn_fd c' = fd" using c'(5) c(3) by simp
  have inv1: "cs_inv ?w1" and p1: "conns ?w1 fd = Some ptr" using inv p by simp_all
  obtain w2 where w2: "put_conn ptr c' ?w1 = Inr w2" "cs_inv w2" "frame_conn fd ?w1 w2" "conn_of w2 fd = c'"
    "out w2 = out ?w1" "evs w2 = evs ?w1" by (rule put_conn_ok [OF inv1 p1 c'(2) fd'])
  have p2: "conns w2 fd = Some ptr" using w2(3) p by (simp add: frame_conn_def)
  have len: "length (recv_data (conn_of w2 fd)) < 10241" using fits by (simp add: w2(4) c'(3))
  have sp: "split_frames (recv_data (conn_of w2 fd)) = (ms, r)" using split(1) by (simp add: w2(4) c'(3))
  obtain w' where w': "forward_loop sys arg fd ptr 10241 w2 = Inr w'" "cs_inv w'" "frame_conn fd w2 w'"
    "recv_data (conn_of w' fd) = r" "player_idx (conn_of w' fd) = player_idx (conn_of w2 fd)" "evs w' = evs w2"
    "zmq_sent (out w') = zmq_sent (out w2) @ map (client_packet fd (conn_of w2 fd)) ms"
    using forward_loop_split [where sys = sys and arg = arg, OF w2(2) p2 zmq sp split(2) len] by blast
  have "do_tcp_read sys arg fd w = Inr w'"
    using p c(1) recv c'(1) w2(1) w'(1)
    by (simp add: do_tcp_read_def get_conn_def)
  moreover have "client_packet fd (conn_of w2 fd) = client_packet fd ?c"
    using c'(4) by (simp add: client_packet_def fun_eq_iff w2(4))
  ultimately show ?thesis
    using w' w2(3,5,6) c'(4) frame_conn_trans [of fd w w2 w'] by (intro exI [of _ w']) (simp add: w2(4))
qed

text \<open>A sequence of reads, each delivering one chunk.\<close>

fun read_chunks :: "sys \<Rightarrow> unit option \<Rightarrow> int \<Rightarrow> bytes list \<Rightarrow> connsvr \<Rightarrow> connsvr res" where
  "read_chunks sys arg fd [] w = Inr w"
| "read_chunks sys arg fd (d # ds) w =
     rbind (do_tcp_read (sys\<lparr>s_recv := \<lambda>_ _. (int (length d), d)\<rparr>) arg fd w) (read_chunks sys arg fd ds)"

lemma read_chunks_stream:
  assumes zmq: "\<And>es b. 0 \<le> s_zmq_send sys es b"
  shows "cs_inv w \<Longrightarrow> conns w fd = Some ptr \<Longrightarrow>
    \<forall>m\<in>set ms. 3 \<le> length m \<and> length m + 2 \<le> B \<Longrightarrow> \<forall>d\<in>set ds. d \<noteq> [] \<and> length d + B \<le> 10240 \<Longrightarrow>
    recv_data (conn_of w fd) @ concat ds = concat (map encode_frame ms) \<Longrightarrow>
    recv_data (conn_of w fd) = [] \<or> length (recv_data (conn_of w fd)) < B \<Longrightarrow> B \<le> 10240 \<Longrightarrow>
    \<not> frame_ready (recv_data (conn_of w fd)) \<Longrightarrow>
    \<exists>w'. read_chunks sys arg fd ds w = Inr w' \<and> cs_inv w' \<and> frame_conn fd w w' \<and> recv_data (conn_of w' fd) = [] \<and>
      zmq_sent (out w') = zmq_sent (out w) @ map (client_packet fd (conn_of w fd)) ms"
proof (induction ds arbitrary: w ms)
  case Nil
  have "\<forall>m\<in>set ms. 3 \<le> length m \<and> length m + 2 < 65536" using Nil.prems(3,7) by auto
  then have "split_frames (recv_data (conn_of w fd)) = (ms, [])"
    using split_frames_stream [of ms "[]"] Nil.prems(5) by (simp add: frame_ready_def)
  moreover have "split_frames (recv_data (conn_of w fd)) = ([], recv_data (conn_of w fd))"
    using Nil.prems(8) by (subst split_frames.simps) simp
  ultimately show ?case using Nil.prems(1) by auto
next
  case (Cons d ds)
  let ?c = "conn_of w fd" and ?s = "sys\<lparr>s_recv := \<lambda>_ _. (int (length d), d)\<rparr>"
  have small: "\<forall>m\<in>set ms. 3 \<le> length m \<and> length m + 2 < 65536" using Cons.prems(3,7) by auto
  have "(recv_data ?c @ d) @ concat ds = concat (map encode_frame ms)" using Cons.prems(5) by simp
  from split_frames_cut [OF small this]
  obtain ms1 ms2 r where sp: "ms = ms1 @ ms2" "split_frames (recv_data ?c @ d) = (ms1, r)"
    "r @ concat ds = concat (map encode_frame ms2)" "\<not> frame_ready r"
    "r = [] \<or> (\<exists>m\<in>set ms2. length r < length m + 2)" by blast
  have fits: "length (recv_data ?c) + length d \<le> 10240" using Cons.prems(4,6,7) by auto
  have z: "0 \<le> s_zmq_send ?s es b" for es b using zmq by simp
  have rc: "s_recv ?s (out w) fd = (int (length d), d)" by simp
  have dne: "d \<noteq> []" using Cons.prems(4) by simp
  obtain w1 where w1: "do_tcp_read ?s arg fd w = Inr w1" "cs_inv w1" "frame_conn fd w w1"
    "recv_data (conn_of w1 fd) = r" "player_idx (conn_of w1 fd) = player_idx ?c"
    "zmq_sent (out w1) = zmq_sent (out w) @ map (client_packet fd ?c) ms1"
    using do_tcp_read_chunk [where arg = arg, OF Cons.prems(1,2) z rc dne fits sp(2,4)] by blast
  have p1: "conns w1 fd = Some ptr" using w1(3) Cons.prems(2) by (simp add: frame_conn_def)
  have bnd: "\<forall>m\<in>set ms2. 3 \<le> length m \<and> length m + 2 \<le> B" using Cons.prems(3) sp(1) by simp
  have rB: "recv_data (conn_of w1 fd) = [] \<or> length (recv_data (conn_of w1 fd)) < B"
    using sp(5) bnd w1(4) by fastforce
  have "\<forall>d\<in>set ds. d \<noteq> [] \<and> length d + B \<le> 10240" using Cons.prems(4) by simp
  from Cons.IH [OF w1(2) p1 bnd this _ rB Cons.prems(7)] sp(3,4) w1(4)
  obtain w' where w': "read_chunks sys arg fd ds w1 = Inr w'" "cs_inv w'" "frame_conn fd w1 w'"
    "recv_data (conn_of w' fd) = []"
    "zmq_sent (out w') = zmq_sent (out w1) @ map (client_packet fd (conn_of w1 fd)) ms2" by auto
  have "client_packet fd (conn_of w1 fd) = client_packet fd ?c" using w1(5) by (simp add: client_packet_def fun_eq_iff)
  then show ?case using w1 w' sp(1) frame_conn_trans [OF w1(3) w'(3)] by (intro exI [of _ w']) simp
qed

text \<open>A server with one connected client, for the examples.\<close>

definition example_server :: connsvr where
  "example_server = \<lparr>mgr = \<lparr>conn_pool = \<lparr>free_mem_pos = 2, valid_unit_count = 0, total_unit_count = 1, unit_size = 20500,
      pool_mem = [conn_init, conn_init\<lparr>conn_fd := 7\<rparr>], pool_pos = [- 1, 1]\<rparr>, conn_map = [(7, 1)]\<rparr>,
    evs = replicate 8 file_event_zero, max_connection = 1, out = []\<rparr>"

lemma example_server_ok:
  "cs_inv example_server" "conns example_server 7 = Some 1" "conn_of example_server 7 = conn_init\<lparr>conn_fd := 7\<rparr>"
proof -
  let ?p = "conn_pool (mgr example_server)"
  have "0 < i \<and> i \<le> 1 \<and> 0 < [- 1, 1 :: int] ! nat i \<longleftrightarrow> i = 1" for i :: int by (cases "i = 1") auto
  then have used: "pool_used ?p = {1}" by (simp add: pool_used_def example_server_def)
  have "free_list [- 1, 1] 2 2 {}" by (simp add: free_list_def exI [of _ "[]"])
  moreover have e: "{0<..1 :: int} - {1} = {}" by auto
  ultimately have "pool_inv ?p"
    unfolding pool_inv_def used by (simp add: example_server_def e)
  moreover have "ran [7 \<mapsto> 1 :: int] = {1}" by auto
  ultimately show "cs_inv example_server"
    unfolding cs_inv_def mgr_inv_def used
    by (auto simp: example_server_def smap_ok_def conn_ok_def conn_init_def evs_ok_def fe_ok_def file_event_zero_def
        inj_on_def split: if_splits)
qed (simp_all add: example_server_def conn_at_def)

text \<open>C1: Reassembly. For messages of 3 to \<open>B - 2\<close> bytes, \<open>B\<close> at most 10240, in whatever pieces TCP delivers the stream of
  a client, as long as a piece and \<open>B\<close> bytes fit the receive buffer of 10240 bytes together and zmq accepts each packet:
  reading the pieces forwards to the game server exactly the client's messages, complete, in order, each once and
  behind a header with the descriptor, the player index and \<open>CONN_START\<close> or \<open>CONN_PROC\<close>; nothing stays in
  the buffer. A larger piece may not fit behind what is left of a message, and costs the client its connection.\<close>

theorem stream_reassembly:
  assumes "cs_inv w" "conns w fd = Some ptr" "recv_data (conn_of w fd) = []" "\<And>es b. 0 \<le> s_zmq_send sys es b"
    and "concat ds = concat (map encode_frame ms)" "B \<le> 10240"
    and "\<forall>m\<in>set ms. 3 \<le> length m \<and> length m + 2 \<le> B" "\<forall>d\<in>set ds. d \<noteq> [] \<and> length d + B \<le> 10240"
  shows "\<exists>w'. read_chunks sys arg fd ds w = Inr w' \<and> cs_inv w' \<and> recv_data (conn_of w' fd) = [] \<and>
    zmq_sent (out w') = zmq_sent (out w) @ map (client_packet fd (conn_of w fd)) ms"
  using read_chunks_stream [where sys = sys and arg = arg and ds = ds and B = B, OF assms(4,1,2,7,8)] assms(3,5,6)
  by (auto simp: frame_ready_def)

definition example_sys :: sys where
  "example_sys = \<lparr>s_wait = \<lambda>_. [], s_accept = \<lambda>_. - 1, s_nonblock = \<lambda>_ _. True, s_recv = \<lambda>_ _. (0, []),
     s_send = \<lambda>_ _ b. (int (length b), False), s_zmq_send = \<lambda>_ b. int (length b), s_zmq_recv = \<lambda>_. (- 1, []),
     s_ctl = \<lambda>_ _. 0\<rparr>"

theorem stream_reassembly_witness:
  "\<exists>w'. read_chunks example_sys (Some ()) 7 [[0], [5, 1, 2, 3, 0, 6], [4, 5], [6, 7]] example_server = Inr w' \<and>
     zmq_sent (out w') = map (client_packet 7 conn_init) [[1, 2, 3], [4, 5, 6, 7]]"
proof -
  have z: "0 \<le> s_zmq_send example_sys es b" for es b by (simp add: example_sys_def)
  have enc: "concat [[0], [5, 1, 2, 3, 0, 6], [4, 5], [6, 7]] = concat (map encode_frame [[1, 2, 3], [4, 5, 6, 7]])"
    by (simp add: encode_frame_def put_u16_be_def)
  have empty: "recv_data (conn_of example_server 7) = []" using example_server_ok(3) by (simp add: recv_data_def conn_init_def)
  have pk: "client_packet 7 (conn_of example_server 7) = client_packet 7 conn_init"
    using example_server_ok(3) by (simp add: client_packet_def fun_eq_iff)
  have o: "zmq_sent (out example_server) = []" by (simp add: example_server_def)
  obtain w' where "read_chunks example_sys (Some ()) 7 [[0], [5, 1, 2, 3, 0, 6], [4, 5], [6, 7]] example_server = Inr w'"
    "zmq_sent (out w') = zmq_sent (out example_server) @ map (client_packet 7 (conn_of example_server 7)) [[1, 2, 3], [4, 5, 6, 7]]"
    using stream_reassembly [where arg = "Some ()" and B = 100, OF example_server_ok(1,2) empty z enc] by auto
  then show ?thesis using pk o by auto
qed

text \<open>C36: A client whose message header announces a length of 0 or 1 crashes the server: once
  five bytes have arrived the length of the payload is negative, and the copy with that length
  leaves the buffer.\<close>

theorem short_length_crashes:
  assumes inv: "cs_inv w" and p: "conns w fd = Some ptr" and e: "recv_data (conn_of w fd) = []"
    and recv: "s_recv sys (out w) fd = (int (length d), d)"
    and d: "4 < length d" "length d \<le> 10240" "plen d < 2"
  shows "do_tcp_read sys arg fd w = Inl Out_Of_Bounds"
proof -
  let ?c = "conn_of w fd" and ?w1 = "emit [E_Recv fd (int (length d))] w"
  note c = cs_conn [OF inv p]
  have fits: "length (recv_data ?c) + length d \<le> 10240" using e d by simp
  obtain c' where c': "add_recv_data d ?c = Inr (0, c')" "conn_ok c'" "recv_data c' = recv_data ?c @ d"
    "conn_fd c' = conn_fd ?c" using add_recv_data_fits [OF c(2) fits] by blast
  have fd': "conn_fd c' = fd" using c'(4) c(3) by simp
  have inv1: "cs_inv ?w1" and p1: "conns ?w1 fd = Some ptr" using inv p by simp_all
  obtain w2 where w2: "put_conn ptr c' ?w1 = Inr w2" "cs_inv w2" "frame_conn fd ?w1 w2" "conn_of w2 fd = c'"
    by (rule put_conn_ok [OF inv1 p1 c'(2) fd'])
  have p2: "conns w2 fd = Some ptr" using w2(3) p by (simp add: frame_conn_def)
  have g2: "get_connection (mgr w2) ptr = Inr c'" using cs_conn(1) [OF w2(2) p2] w2(4) by simp
  have rd: "recv_data c' = d" using c'(3) e by simp
  then have "2 \<le> recv_buf_size c'" using recv_data_length [OF c'(2)] d(1) by simp
  then have pl: "plen (recv_buf c') = plen d" using recv_buf_plen [OF c'(2)] rd by simp
  have rdy: "frame_ready (recv_data c')" using d by (simp add: rd frame_ready_def)
  have len: "2 \<le> length (recv_buf c')" using c'(2) by (simp add: conn_ok_def)
  have "forward_one sys arg fd ptr w2 = Inl Out_Of_Bounds"
    using g2 rdy c'(2) d(3) pl
    by (simp add: forward_one_def rb.ready_law msg_len_client [OF len] PKG_BUF_SIZE_def mem_read_negative)
  then have "forward_loop sys arg fd ptr 10241 w2 = Inl Out_Of_Bounds"
    by (simp add: eval_nat_numeral(3) [of "num.One"] numeral_eq_Suc)
  moreover have "d \<noteq> []" using d(1) by fastforce
  ultimately show ?thesis using p c(1) recv c'(1) w2(1)
    by (simp add: do_tcp_read_def get_conn_def)
qed

theorem short_length_crashes_witness:
  "do_tcp_read (example_sys\<lparr>s_recv := \<lambda>_ _. (5, [0, 1, 65, 66, 67])\<rparr>) (Some ()) 7 example_server = Inl Out_Of_Bounds"
  by (rule short_length_crashes [OF example_server_ok(1,2), where d = "[0, 1, 65, 66, 67]"])
    (simp_all add: example_server_ok(3) plen_def, simp add: recv_data_def conn_init_def)

text \<open>A server without connections, for the example.\<close>

definition idle_server :: connsvr where
  "idle_server = \<lparr>mgr = \<lparr>conn_pool = pool_fresh 1 20500 conn_init, conn_map = []\<rparr>,
    evs = replicate 8 file_event_zero, max_connection = 1, out = []\<rparr>"

lemma idle_server_inv: "cs_inv idle_server"
proof -
  have "mgr_inv (mgr idle_server)"
    using mgr_inv_init [of 1 "mgr idle_server"]
    by (simp add: conn_mgr_init_def pool_init_def idle_server_def)
  then show ?thesis
    by (simp add: cs_inv_def idle_server_def pool_fresh_def evs_ok_def fe_ok_def file_event_zero_def)
qed

theorem do_tcp_accept_spec_witness:
  "\<exists>w'. do_tcp_accept (example_sys\<lparr>s_accept := \<lambda>_. 5\<rparr>) (Some ()) idle_server = Inr w' \<and>
     conn_of w' 5 = conn_init\<lparr>conn_fd := 5\<rparr>"
  using do_tcp_accept_spec [of idle_server 5 "example_sys\<lparr>s_accept := \<lambda>_. 5\<rparr>", OF idle_server_inv]
  by (auto simp: example_sys_def) (auto simp: idle_server_def)

end
