(* ===== verification/Event_Send.thy ===== *)
theory Event_Send
  imports Event_Props
begin

text \<open>
  The answers of the game server on their way to a client: what \<open>ZmqReadLoop\<close> and
  \<open>DoTcpWrite\<close> hand to \<open>send\<close>, together with what waits in the send buffer, is the stream of
  the packets, except when a first \<open>send\<close> would block.
\<close>

text \<open>The bytes of the descriptor's stream the kernel has taken.\<close>

definition tcp_sent :: "int \<Rightarrow> effect list \<Rightarrow> bytes" where
  "tcp_sent fd es = concat (map (\<lambda>e. case e of E_Send f b r \<Rightarrow> if f = fd \<and> 0 < r then take (nat r) b else []
     | _ \<Rightarrow> []) es)"

lemma tcp_sent_simps [simp]:
  "tcp_sent fd [] = []" "tcp_sent fd (a @ b) = tcp_sent fd a @ tcp_sent fd b"
  "tcp_sent fd (E_Send f bs r # es) = (if f = fd \<and> 0 < r then take (nat r) bs else []) @ tcp_sent fd es"
  "tcp_sent fd (map E_Ctl cs) = []" "tcp_sent fd (E_Close z # es) = tcp_sent fd es"
  by (auto simp: tcp_sent_def)

lemma ev_add_ok:
  assumes "cs_inv w" "0 \<le> fd" "msk \<in> {0, 1, 2, 3}"
  obtains r w' cs where "ev_add sys fd msk p d w = Inr (r, w')" "cs_inv w'" "mgr w' = mgr w"
    "out w' = out w @ map E_Ctl cs"
proof -
  obtain r evs' cs where e: "add_event (s_ctl sys (out w)) fd msk (Some p) d (evs w) = Inr (r, evs', cs)" "evs_ok evs'"
    using add_event_ok [of "evs w" fd msk "s_ctl sys (out w)" p d] assms by (auto simp: cs_inv_def)
  show thesis
    by (rule that [of r "emit (map E_Ctl cs) (w\<lparr>evs := evs'\<rparr>)" cs])
      (use e assms(1) in \<open>simp_all add: ev_add_def cs_inv_def\<close>)
qed

lemma queue_rest_ok:
  assumes inv: "cs_inv w" and p: "conns w fd = Some ptr"
  shows "\<exists>go w'. queue_rest fd ptr d w = Inr (go, w') \<and> cs_inv w' \<and> tcp_sent fd (out w') = tcp_sent fd (out w) \<and>
    (go \<longleftrightarrow> length (send_data (conn_of w fd)) + length d \<le> 10240) \<and>
    (if go then conns w' = conns w \<and> send_data (conn_of w' fd) = send_data (conn_of w fd) @ d \<and>
       recv_data (conn_of w' fd) = recv_data (conn_of w fd)
     else conns w' = (conns w)(fd := None))"
proof -
  let ?c = "conn_of w fd"
  note c = cs_conn [OF inv p]
  show ?thesis
  proof (cases "length (send_data ?c) + length d \<le> 10240")
    case True
    obtain c' where c': "add_send_data d ?c = Inr (0, c')" "conn_ok c'" "send_data c' = send_data ?c @ d"
      "recv_data c' = recv_data ?c" "conn_fd c' = conn_fd ?c" using add_send_data_fits [OF c(2) True] by blast
    have "conn_fd c' = fd" using c'(5) c(3) by simp
    then obtain w' where "put_conn ptr c' w = Inr w'" "cs_inv w'" "frame_conn fd w w'" "conn_of w' fd = c'" "out w' = out w"
      by (rule put_conn_ok [OF inv p c'(2)])
    then show ?thesis using c(1) c' True by (simp add: queue_rest_def frame_conn_def ex_bool_eq)
  next
    case False
    then have "add_send_data d ?c = Inr (- 1, ?c)" using add_send_data_over [OF c(2)] by simp
    moreover obtain w' cs where "drop_conn (Some ()) fd w = Inr w'" "cs_inv w'" "conns w' = (conns w)(fd := None)"
      "out w' = out w @ E_Close fd # map E_Ctl cs" by (rule drop_conn_ok [OF inv p])
    ultimately show ?thesis using c(1) False by (simp add: queue_rest_def ex_bool_eq)
  qed
qed

text \<open>A packet for a connection whose rest cannot be kept: \<open>send\<close> fails, or the send buffer of 10240 bytes
  has no room for the rest.\<close>

definition cannot_keep :: "int \<Rightarrow> bytes \<Rightarrow> connection \<Rightarrow> bool" where
  "cannot_keep ret pkt c \<longleftrightarrow>
     (if send_buf_size c = 0 then ret < 0 \<or> 10240 < length (drop (nat ret) pkt)
      else 10240 < length (send_data c) + length pkt)"

text \<open>C29: Delivering a packet, in all cases. If nothing waits in the send buffer and \<open>send\<close> asks to try again, the packet
  is lost: nothing is sent and nothing is buffered. If \<open>send\<close> fails otherwise, or the send buffer has no room for what
  must wait, the connection is dropped. In all other cases the bytes taken by the kernel followed by the
  bytes waiting are the old stream followed by the packet: nothing is lost, doubled or reordered. The invariant
  is kept in each case.\<close>

theorem deliver_fifo:
  assumes inv: "cs_inv w" and p: "conns w fd = Some ptr"
    and snd: "s_send sys (out w) fd pkt = (ret, again)" "ret \<le> int (length pkt)"
  shows "\<exists>go w'. deliver sys fd ptr pkt w = Inr (go, w') \<and> cs_inv w' \<and>
    (if send_buf_size (conn_of w fd) = 0 \<and> ret < 0 \<and> again
     then go \<and> mgr w' = mgr w \<and> tcp_sent fd (out w') = tcp_sent fd (out w)
     else if cannot_keep ret pkt (conn_of w fd) then \<not> go \<and> conns w' = (conns w)(fd := None)
     else go \<and> conns w' = conns w \<and>
       tcp_sent fd (out w') @ send_data (conn_of w' fd) = tcp_sent fd (out w) @ send_data (conn_of w fd) @ pkt)"
proof -
  let ?c = "conn_of w fd" and ?w1 = "emit [E_Send fd pkt ret] w"
  note c = cs_conn [OF inv p]
  have inv1: "cs_inv ?w1" and p1: "conns ?w1 fd = Some ptr" using inv p by simp_all
  show ?thesis
  proof (cases "send_buf_size ?c = 0")
    case False
    obtain go w' where "queue_rest fd ptr pkt w = Inr (go, w')" "cs_inv w'" "tcp_sent fd (out w') = tcp_sent fd (out w)"
      "go \<longleftrightarrow> length (send_data ?c) + length pkt \<le> 10240"
      "if go then conns w' = conns w \<and> send_data (conn_of w' fd) = send_data ?c @ pkt \<and>
         recv_data (conn_of w' fd) = recv_data ?c else conns w' = (conns w)(fd := None)"
      using queue_rest_ok [OF inv p] by blast
    then show ?thesis using False c(1)
      by (intro exI [of _ go] exI [of _ w']) (auto simp: deliver_def cannot_keep_def split: if_splits)
  next
    case True
    then have e: "send_data ?c = []" by (simp add: send_data_def)
    consider "ret < 0" "again" | "ret < 0" "\<not> again" | "0 \<le> ret" "ret < int (length pkt)" | "ret = int (length pkt)" using snd(2) by linarith
    then show ?thesis
    proof cases
      case 1
      obtain r w2 cs where w2: "ev_add sys fd 2 Do_Tcp_Write None ?w1 = Inr (r, w2)" "cs_inv w2" "mgr w2 = mgr ?w1"
        "out w2 = out ?w1 @ map E_Ctl cs" by (rule ev_add_ok [OF inv1 c(4)]) auto
      have "deliver sys fd ptr pkt w = Inr (True, w2)"
        using 1 snd True c(1) w2(1) by (simp add: deliver_def EVENT_WRITE_def)
      moreover have "tcp_sent fd (out w2) = tcp_sent fd (out w)" using 1 w2(4) by simp
      ultimately show ?thesis using 1 True w2(2,3) by (intro exI [of _ True] exI [of _ w2]) simp
    next
      case 2
      obtain w' cs where "drop_conn (Some ()) fd ?w1 = Inr w'" "cs_inv w'" "conns w' = (conns ?w1)(fd := None)"
        "out w' = out ?w1 @ E_Close fd # map E_Ctl cs" by (rule drop_conn_ok [OF inv1 p1])
      then show ?thesis using 2 snd True c(1) by (simp add: deliver_def cannot_keep_def ex_bool_eq)
    next
      case 3
      obtain r w2 cs where w2: "ev_add sys fd 2 Do_Tcp_Write (Some ()) ?w1 = Inr (r, w2)" "cs_inv w2" "mgr w2 = mgr ?w1"
        "out w2 = out ?w1 @ map E_Ctl cs" by (rule ev_add_ok [OF inv1 c(4)]) auto
      have p2: "conns w2 fd = Some ptr" and c2: "send_data (conn_of w2 fd) = []" using w2(3) p e by simp_all
      let ?rest = "drop (nat ret) pkt"
      obtain go w' where q: "queue_rest fd ptr ?rest w2 = Inr (go, w')" "cs_inv w'"
        "tcp_sent fd (out w') = tcp_sent fd (out w2)" "go \<longleftrightarrow> length (send_data (conn_of w2 fd)) + length ?rest \<le> 10240"
        "if go then conns w' = conns w2 \<and> send_data (conn_of w' fd) = send_data (conn_of w2 fd) @ ?rest \<and>
           recv_data (conn_of w' fd) = recv_data (conn_of w2 fd) else conns w' = (conns w2)(fd := None)"
        using queue_rest_ok [OF w2(2) p2] by blast
      have go: "go \<longleftrightarrow> \<not> cannot_keep ret pkt ?c" using q(4) 3(1) True c2 by (auto simp: cannot_keep_def)
      have d: "deliver sys fd ptr pkt w = Inr (go, w')"
        using 3 snd True c(1) w2(1) q(1) by (simp add: deliver_def EVENT_WRITE_def)
      have t: "tcp_sent fd (out w2) = tcp_sent fd (out w) @ take (nat ret) pkt"
        using 3 w2(4) by (cases "ret = 0") auto
      show ?thesis
      proof (cases go)
        case g: True
        then have "conns w' = conns w" "send_data (conn_of w' fd) = ?rest" using q(5) w2(3) c2 by simp_all
        then show ?thesis using d g go t q(2,3) e 3(1) by (intro exI [of _ go] exI [of _ w']) simp
      next
        case g: False
        then have "conns w' = (conns w)(fd := None)" using q(5) w2(3) by simp
        then show ?thesis using d g go q(2) 3(1) by (intro exI [of _ go] exI [of _ w']) simp
      qed
    next
      case 4
      have "\<not> cannot_keep ret pkt ?c" using 4 True by (simp add: cannot_keep_def)
      moreover have "deliver sys fd ptr pkt w = Inr (True, ?w1)"
        using 4 snd True c(1) by (simp add: deliver_def)
      ultimately show ?thesis using 4 inv1 e by (intro exI [of _ True] exI [of _ ?w1]) auto
    qed
  qed
qed

theorem deliver_fifo_witness:
  "\<exists>w' w''. deliver (example_sys\<lparr>s_send := \<lambda>_ _ _. (2, False)\<rparr>) 7 1 [1, 2, 3, 4] example_server = Inr (True, w') \<and>
     tcp_sent 7 (out w') @ send_data (conn_of w' 7) = [1, 2, 3, 4] \<and>
     deliver (example_sys\<lparr>s_send := \<lambda>_ _ _. (- 1, True)\<rparr>) 7 1 [1, 2, 3, 4] example_server = Inr (True, w'') \<and>
     tcp_sent 7 (out w'') = [] \<and> send_data (conn_of w'' 7) = []"
proof -
  let ?s = "example_sys\<lparr>s_send := \<lambda>_ _ _. (2, False)\<rparr>" and ?t = "example_sys\<lparr>s_send := \<lambda>_ _ _. (- 1, True)\<rparr>"
  have s: "s_send ?s (out example_server) 7 [1, 2, 3, 4] = (2, False)" "s_send ?t (out example_server) 7 [1, 2, 3, 4] = (- 1, True)"
    by simp_all
  have r: "(2 :: int) \<le> int (length [1, 2, 3, 4 :: byte])" "(- 1 :: int) \<le> int (length [1, 2, 3, 4 :: byte])" by simp_all
  have e: "tcp_sent 7 (out example_server) = []" "send_data (conn_of example_server 7) = []" "send_buf_size (conn_of example_server 7) = 0"
    using example_server_ok(3) by (simp_all add: example_server_def send_data_def conn_init_def)
  have k: "\<not> cannot_keep 2 [1, 2, 3, 4] (conn_of example_server 7)" by (simp add: cannot_keep_def e(3))
  obtain w' where "deliver ?s 7 1 [1, 2, 3, 4] example_server = Inr (True, w')"
    "tcp_sent 7 (out w') @ send_data (conn_of w' 7) = [1, 2, 3, 4]"
    using deliver_fifo [OF example_server_ok(1,2) s(1) r(1)] e k by auto
  moreover obtain w'' where "deliver ?t 7 1 [1, 2, 3, 4] example_server = Inr (True, w'')"
    "mgr w'' = mgr example_server" "tcp_sent 7 (out w'') = tcp_sent 7 (out example_server)"
    using deliver_fifo [OF example_server_ok(1,2) s(2) r(2)] e(3) by auto
  ultimately show ?thesis using e(1,2) by auto
qed

text \<open>A write event sends from the front of the buffer: for every result of \<open>send\<close> up to the
  bytes offered, either the connection is dropped, or the kernel's bytes followed by the
  remaining buffer are the stream as before; the invariant is kept.\<close>

theorem do_tcp_write_fifo:
  assumes inv: "cs_inv w" and p: "conns w fd = Some ptr"
    and snd: "s_send sys (out w) fd (send_data (conn_of w fd)) = (ret, again)" "ret \<le> send_buf_size (conn_of w fd)"
  shows "\<exists>w'. do_tcp_write sys (Some ()) fd w = Inr w' \<and> cs_inv w' \<and>
    (if ret < 0 then conns w' = (conns w)(fd := None)
     else conns w' = conns w \<and>
       tcp_sent fd (out w') @ send_data (conn_of w' fd) = tcp_sent fd (out w) @ send_data (conn_of w fd))"
proof -
  let ?c = "conn_of w fd"
  let ?w1 = "emit [E_Send fd (send_data ?c) ret] w"
  note c = cs_conn [OF inv p]
  have sz: "0 \<le> send_buf_size ?c" "send_buf_size ?c \<le> 10240" "length (send_buf ?c) = 10240"
    using c(2) by (simp_all add: conn_ok_def)
  have rdm: "mem_read (send_buf ?c) 0 (send_buf_size ?c) = Inr (send_data ?c)"
    using sz by (simp add: mem_read_in send_data_def)
  have len: "int (length (send_data ?c)) = send_buf_size ?c" by (rule send_data_length [OF c(2)])
  have inv1: "cs_inv ?w1" and p1: "conns ?w1 fd = Some ptr" using inv p by simp_all
  have g: "get_conn (mgr w) fd = Some ptr" using p by (simp add: get_conn_def)
  consider "ret < 0" | "0 < ret" "ret < send_buf_size ?c" | "0 \<le> ret" "ret = send_buf_size ?c"
    | "ret = 0" "0 < send_buf_size ?c" using snd(2) sz by linarith
  then show ?thesis
  proof cases
    case 1
    obtain w' cs where "drop_conn (Some ()) fd ?w1 = Inr w'" "cs_inv w'" "conns w' = (conns ?w1)(fd := None)"
      by (rule drop_conn_ok [OF inv1 p1])
    then show ?thesis using 1 snd g c(1) rdm by (simp add: do_tcp_write_def)
  next
    case 2
    then obtain c' where c': "remove_send_data ret ?c = Inr c'" "conn_ok c'" "send_data c' = drop (nat ret) (send_data ?c)"
      "conn_fd c' = conn_fd ?c" using remove_send_data_ok [OF c(2), of ret] by auto
    have "conn_fd c' = fd" using c'(4) c(3) by simp
    then obtain w' where "put_conn ptr c' ?w1 = Inr w'" "cs_inv w'" "frame_conn fd ?w1 w'" "conn_of w' fd = c'" "out w' = out ?w1"
      by (rule put_conn_ok [OF inv1 p1 c'(2)])
    then show ?thesis using 2 snd g c(1) rdm c' by (simp add: do_tcp_write_def frame_conn_def)
  next
    case 3
    have cl: "conn_ok (clear_send_data ?c)" "send_data (clear_send_data ?c) = []" "conn_fd (clear_send_data ?c) = fd"
      using clear_send_data_ok [OF c(2)] c(3) by auto
    obtain w2 where w2: "put_conn ptr (clear_send_data ?c) ?w1 = Inr w2" "cs_inv w2" "frame_conn fd ?w1 w2"
      "conn_of w2 fd = clear_send_data ?c" "out w2 = out ?w1" by (rule put_conn_ok [OF inv1 p1 cl(1,3)])
    obtain evs' cs where e: "del_event fd 2 (evs w2) = Inr (evs', cs)" "evs_ok evs'"
      using del_event_ok [of "evs w2" fd 2] w2(2) c(4) by (auto simp: cs_inv_def)
    let ?w' = "emit (map E_Ctl cs) (w2\<lparr>evs := evs'\<rparr>)"
    have "do_tcp_write sys (Some ()) fd w = Inr ?w'"
      using 3 snd g c(1) rdm w2(1) e(1)
      by (simp add: do_tcp_write_def with_epoller_def ev_del_def EVENT_WRITE_def)
    moreover have "cs_inv ?w'" using w2(2) e(2) by (simp add: cs_inv_def)
    moreover have "tcp_sent fd (out ?w') = tcp_sent fd (out w) @ send_data ?c"
      using 3 w2(5) len by (cases "ret = 0") auto
    ultimately show ?thesis using 3(1) w2(3,4) cl(2) by (intro exI [of _ ?w']) (simp add: frame_conn_def)
  next
    case 4
    then have "do_tcp_write sys (Some ()) fd w = Inr ?w1" using snd g c(1) rdm by (simp add: do_tcp_write_def)
    then show ?thesis using 4 inv1 by (intro exI [of _ ?w1]) simp
  qed
qed

theorem do_tcp_write_fifo_witness:
  "\<exists>w'. do_tcp_write example_sys (Some ()) 7 example_server = Inr w' \<and> cs_inv w' \<and> conns w' = conns example_server"
proof -
  have "send_data (conn_of example_server 7) = []" "send_buf_size (conn_of example_server 7) = 0"
    using example_server_ok(3) by (simp_all add: conn_init_def send_data_def)
  then have "s_send example_sys (out example_server) 7 (send_data (conn_of example_server 7)) = (0, False)"
    "(0 :: int) \<le> send_buf_size (conn_of example_server 7)" by (simp_all add: example_sys_def)
  from do_tcp_write_fifo [OF example_server_ok(1,2) this] show ?thesis by auto
qed

text \<open>When the first \<open>send\<close> of a packet would block, the packet is dropped without being
  buffered, and the write event is armed with a null epoller: when the socket becomes writable,
  \<open>DoTcpWrite\<close> sends the empty buffer and calls \<open>DelEvent\<close> through the null pointer.\<close>

theorem deliver_eagain_loses:
  assumes inv: "cs_inv w" and p: "conns w fd = Some ptr" and e: "send_buf_size (conn_of w fd) = 0"
    and snd: "s_send sys (out w) fd pkt = (- 1, True)" and fd: "fd < int (length (evs w))"
    and ctl: "\<And>es call. s_ctl sys es call = 0"
  shows "\<exists>w'. deliver sys fd ptr pkt w = Inr (True, w') \<and> tcp_sent fd (out w') = tcp_sent fd (out w) \<and>
    mgr w' = mgr w \<and> client_data (evs w' ! nat fd) = None \<and>
    (\<forall>sys'. s_send sys' (out w') fd [] = (0, False) \<longrightarrow>
       do_tcp_write sys' (client_data (evs w' ! nat fd)) fd w' = Inl Null_Deref)"
proof -
  let ?w1 = "emit [E_Send fd pkt (- 1)] w" and ?fe = "evs w ! nat fd"
  let ?fe' = "fe_added 2 (Some Do_Tcp_Write) None ?fe"
  note c = cs_conn [OF inv p]
  have fd0: "0 \<le> fd" by (rule c(4))
  let ?w' = "?w1\<lparr>evs := (evs w)[nat fd := ?fe']\<rparr>"
  obtain call where add: "add_event (s_ctl sys (out ?w1)) fd 2 (Some Do_Tcp_Write) None (evs w) =
      Inr (0, (evs w)[nat fd := ?fe'], [call])"
    using fd0 fd ctl by (simp add: add_event_def Let_def)
  let ?w2 = "emit [E_Ctl call] ?w'"
  have "deliver sys fd ptr pkt w = Inr (True, ?w2)"
    using c(1) e snd add by (simp add: deliver_def ev_add_def EVENT_WRITE_def emit_def)
  moreover have cd: "client_data (evs ?w2 ! nat fd) = None" using fd0 fd by (simp add: nat_less_iff)
  moreover have "do_tcp_write sys' None fd ?w2 = Inl Null_Deref" if s: "s_send sys' (out ?w2) fd [] = (0, False)" for sys'
  proof -
    have "mem_read (send_buf (conn_of w fd)) 0 0 = Inr []" by (simp add: mem_read_def)
    moreover have "conn_ok (clear_send_data (conn_of w fd))" "conn_fd (clear_send_data (conn_of w fd)) = fd"
      using clear_send_data_ok [OF c(2)] c(3) by auto
    then obtain w3 where "put_conn ptr (clear_send_data (conn_of w fd)) w = Inr w3" by (rule put_conn_ok [OF inv p])
    then have "\<exists>w4. put_conn ptr (clear_send_data (conn_of w fd)) (emit [E_Send fd [] 0] ?w2) = Inr w4"
      by (auto simp: put_conn_def rbind_eq_Inr_iff)
    ultimately show ?thesis using c(1) p e s
      by (auto simp: do_tcp_write_def get_conn_def with_epoller_def)
  qed
  ultimately show ?thesis by (intro exI [of _ ?w2]) (simp add: emit_def tcp_sent_def)
qed

theorem deliver_eagain_loses_witness:
  "\<exists>w'. deliver (example_sys\<lparr>s_send := \<lambda>_ _ _. (- 1, True)\<rparr>) 7 1 [1, 2, 3] example_server = Inr (True, w') \<and>
     tcp_sent 7 (out w') = [] \<and> send_data (conn_of w' 7) = []"
proof -
  have e: "send_buf_size (conn_of example_server 7) = 0" "send_data (conn_of example_server 7) = []"
    "tcp_sent 7 (out example_server) = []"
    using example_server_ok(3) by (simp_all add: conn_init_def send_data_def example_server_def)
  have len: "7 < int (length (evs example_server))" by (simp add: example_server_def)
  obtain w' where "deliver (example_sys\<lparr>s_send := \<lambda>_ _ _. (- 1, True)\<rparr>) 7 1 [1, 2, 3] example_server = Inr (True, w')"
    "tcp_sent 7 (out w') = tcp_sent 7 (out example_server)" "mgr w' = mgr example_server"
    using deliver_eagain_loses [where sys = "example_sys\<lparr>s_send := \<lambda>_ _ _. (- 1, True)\<rparr>" and pkt = "[1, 2, 3]",
        OF example_server_ok(1,2) e(1) _ len] by (auto simp: example_sys_def)
  then show ?thesis using e by auto
qed

end
