(* ===== verification/Connsvr_Run.thy ===== *)
theory Connsvr_Run
  imports Event_Send
begin

text \<open>
  The whole loop of \<open>connsvr\<close>: whatever the clients, the game server and the kernel do, a round that
  returns keeps the invariant of the connections, and every mapped descriptor is one that was
  accepted and not closed since, so that the kernel cannot hand it out again.
\<close>

section \<open>Open descriptors\<close>

definition open_step :: "int set \<Rightarrow> effect \<Rightarrow> int set" where
  "open_step S e = (case e of E_Accept fd \<Rightarrow> if 0 \<le> fd then insert fd S else S | E_Close fd \<Rightarrow> S - {fd} | _ \<Rightarrow> S)"

definition open_fds :: "effect list \<Rightarrow> int set" where
  "open_fds es = foldl open_step {} es"

lemma open_fds_append: "open_fds (as @ bs) = foldl open_step (open_fds as) bs"
  by (simp add: open_fds_def)

text \<open>The kernel does not hand out a descriptor that is open.\<close>

definition accept_fresh :: "sys \<Rightarrow> bool" where
  "accept_fresh sys \<longleftrightarrow> (\<forall>es. 0 \<le> s_accept sys es \<longrightarrow> s_accept sys es \<notin> open_fds es)"

definition run_inv :: "connsvr \<Rightarrow> bool" where
  "run_inv w \<longleftrightarrow> cs_inv w \<and> dom (conns w) \<subseteq> open_fds (out w)"

text \<open>Effects that open and close nothing.\<close>

definition quiet :: "effect list \<Rightarrow> bool" where
  "quiet es \<longleftrightarrow> (\<forall>e\<in>set es. case e of E_Accept _ \<Rightarrow> False | E_Close _ \<Rightarrow> False | _ \<Rightarrow> True)"

lemma quiet_foldl: "quiet es \<Longrightarrow> foldl open_step S es = S"
proof (induction es arbitrary: S)
  case (Cons e es)
  then have "open_step S e = S" by (cases e) (simp_all add: open_step_def quiet_def)
  moreover have "quiet es" using Cons.prems by (simp add: quiet_def)
  ultimately show ?case using Cons.IH [of S] by simp
qed simp

lemma quiet_simps [simp]:
  "quiet []" "quiet (a @ b) \<longleftrightarrow> quiet a \<and> quiet b" "quiet (map E_Ctl cs)" "quiet (E_Recv x y # es) = quiet es"
  "quiet (E_Zmq_Send p r # es) = quiet es" "quiet (E_Send x p r # es) = quiet es" "quiet (E_Wait # es) = quiet es"
  "quiet (E_Zmq_Recv r # es) = quiet es"
  by (auto simp: quiet_def)

lemma run_inv_quiet:
  assumes "cs_inv w'" "conns w' = conns w" "out w' = out w @ es" "quiet es" "run_inv w"
  shows "run_inv w'"
  using assms quiet_foldl [OF assms(4), of "open_fds (out w)"] by (simp add: run_inv_def open_fds_append)

lemma run_inv_emit: "quiet es \<Longrightarrow> run_inv w \<Longrightarrow> run_inv (emit es w)"
  by (rule run_inv_quiet [of _ w es]) (simp_all add: run_inv_def)

lemma put_conn_run:
  assumes "run_inv w" "conns w fd = Some ptr" "conn_ok c" "conn_fd c = fd" "put_conn ptr c w = Inr w'"
  shows "run_inv w' \<and> conns w' = conns w \<and> out w' = out w \<and> evs w' = evs w \<and> conn_of w' fd = c"
proof -
  have inv: "cs_inv w" using assms(1) by (simp add: run_inv_def)
  obtain w2 where w2: "put_conn ptr c w = Inr w2" "cs_inv w2" "frame_conn fd w w2" "conn_of w2 fd = c" "out w2 = out w" "evs w2 = evs w"
    by (rule put_conn_ok [OF inv assms(2-4)])
  have "w2 = w'" using w2(1) assms(5) by simp
  moreover have "run_inv w2" by (rule run_inv_quiet [of _ w "[]"]) (use w2 assms(1) in \<open>simp_all add: frame_conn_def\<close>)
  ultimately show ?thesis using w2 by (simp add: frame_conn_def)
qed

lemma drop_conn_run:
  assumes "run_inv w" "conns w fd = Some ptr" "drop_conn arg fd w = Inr w'"
  shows "run_inv w' \<and> conns w' = (conns w)(fd := None)"
proof -
  have inv: "cs_inv w" using assms(1) by (simp add: run_inv_def)
  have arg: "arg = Some ()" using assms(3) by (cases arg) (auto simp: drop_conn_def with_epoller_def rbind_eq_Inr_iff Let_def)
  obtain w2 cs where w2: "drop_conn (Some ()) fd w = Inr w2" "cs_inv w2" "conns w2 = (conns w)(fd := None)"
    "out w2 = out w @ E_Close fd # map E_Ctl cs"
    by (rule drop_conn_ok [OF inv assms(2)]) blast
  have "open_fds (out w2) = open_fds (out w) - {fd}"
    using quiet_foldl [of "map E_Ctl cs"] by (simp add: w2(4) open_fds_append open_step_def)
  then have "run_inv w2" using w2(2,3) assms(1) by (auto simp: run_inv_def)
  then show ?thesis using w2(1,3) assms(3) arg by simp
qed

lemma ev_add_run:
  assumes "run_inv w" "0 \<le> fd" "msk \<in> {0, 1, 2, 3}" "ev_add sys fd msk p d w = Inr (r, w')"
  shows "run_inv w' \<and> mgr w' = mgr w"
proof -
  have inv: "cs_inv w" using assms(1) by (simp add: run_inv_def)
  obtain r2 w2 cs where w2: "ev_add sys fd msk p d w = Inr (r2, w2)" "cs_inv w2" "mgr w2 = mgr w" "out w2 = out w @ map E_Ctl cs"
    by (rule ev_add_ok [OF inv assms(2,3)])
  have "run_inv w2" by (rule run_inv_quiet [of _ w "map E_Ctl cs"]) (use w2 assms(1) in simp_all)
  then show ?thesis using w2 assms(4) by simp
qed

section \<open>Accepting and reading\<close>

lemma do_tcp_accept_run:
  assumes fresh: "accept_fresh sys" and inv: "run_inv w" and run: "do_tcp_accept sys arg w = Inr w'"
  shows "run_inv w'"
proof (cases "int (length (conn_map (mgr w))) < max_connection w \<and> 0 \<le> s_accept sys (out w)")
  case False
  let ?w = "emit [E_Accept (s_accept sys (out w))] w"
  have "w' = w \<or> w' = ?w \<and> s_accept sys (out w) < 0"
    using False run by (auto simp: do_tcp_accept_def get_cur_conn_map_size_def Let_def split: if_splits)
  then show ?thesis using inv by (elim disjE) (simp_all add: run_inv_def open_fds_append open_step_def)
next
  case True
  let ?fd = "s_accept sys (out w)"
  have inv': "cs_inv w" "conns w ?fd = None" using inv fresh True by (auto simp: run_inv_def accept_fresh_def)
  have full: "\<not> max_connection w \<le> get_cur_conn_map_size (mgr w)" "\<not> ?fd < 0"
    using True by (simp_all add: get_cur_conn_map_size_def)
  have nb: "s_nonblock sys (out (emit [E_Accept ?fd] w)) ?fd"
    using run full by (auto simp: do_tcp_accept_def Let_def rbind_eq_Inr_iff)
  have arg: "arg = Some ()"
    using run full by (cases arg) (auto simp: do_tcp_accept_def Let_def rbind_eq_Inr_iff with_epoller_def)
  obtain w2 ptr cs where w2: "do_tcp_accept sys (Some ()) w = Inr w2" "cs_inv w2" "conns w2 = (conns w)(?fd \<mapsto> ptr)"
    "out w2 = out w @ E_Accept ?fd # map E_Ctl cs"
    by (rule do_tcp_accept_new [OF inv'(1) refl inv'(2) nb True]) blast
  have "open_fds (out w2) = insert ?fd (open_fds (out w))"
    using quiet_foldl [of "map E_Ctl cs"] True by (simp add: w2(4) open_fds_append open_step_def)
  then have "run_inv w2" using w2(2,3) inv by (auto simp: run_inv_def)
  then show ?thesis using w2(1) run arg by simp
qed

lemma forward_one_run:
  assumes inv: "run_inv w" and p: "conns w fd = Some ptr" and run: "forward_one sys arg fd ptr w = Inr (Some (go, w'))"
  shows "run_inv w' \<and> (go \<longrightarrow> conns w' fd = Some ptr)"
proof -
  let ?c = "conn_of w fd"
  have inv': "cs_inv w" using inv by (simp add: run_inv_def)
  note c = cs_conn [OF inv' p]
  have rdy: "frame_ready (recv_data ?c)" using run forward_one_idle [OF inv' p] by (cases "frame_ready (recv_data ?c)") auto
  obtain c' where c': "remove_recv_proto ?c = Inr c'" "conn_ok c'" "conn_fd c' = conn_fd ?c"
    using remove_recv_proto_ready [OF c(2) rdy] by blast
  have f: "rbind (get_msg_len_from_client (recv_buf ?c)) (\<lambda>msg_len.
       if msg_len > PKG_BUF_SIZE then Inr (Some (False, w))
       else
         rbind (mem_read (recv_buf ?c) 2 msg_len) (\<lambda>msg.
         let pkt = put_conn_data \<lparr>cd_conn_fd = fd, cd_player_idx = player_idx ?c,
               cd_conn_cmd = conn_cmd_code (if player_idx ?c = 0 then CONN_START else CONN_PROC)\<rparr> @ msg;
             ret = s_zmq_send sys (out w) pkt in
         rbind (put_conn ptr c' (emit [E_Zmq_Send pkt ret] w)) (\<lambda>w1.
         if ret < 0 then rbind (drop_conn arg fd w1) (\<lambda>w2. Inr (Some (False, w2)))
         else Inr (Some (True, w1))))) = Inr (Some (go, w'))"
    using run by (simp only: forward_one_def c(1) rbind_Inr rb.ready_law [OF c(2)] rdy c'(1) simp_thms if_False)
  let ?pkt = "\<lambda>msg. put_conn_data \<lparr>cd_conn_fd = fd, cd_player_idx = player_idx ?c,
               cd_conn_cmd = conn_cmd_code (if player_idx ?c = 0 then CONN_START else CONN_PROC)\<rparr> @ msg"
  let ?ret = "\<lambda>msg. s_zmq_send sys (out w) (?pkt msg)"
  from f obtain msg_len where l: "(if msg_len > PKG_BUF_SIZE then Inr (Some (False, w))
       else
         rbind (mem_read (recv_buf ?c) 2 msg_len) (\<lambda>msg.
         rbind (put_conn ptr c' (emit [E_Zmq_Send (?pkt msg) (?ret msg)] w)) (\<lambda>w1.
         if ?ret msg < 0 then rbind (drop_conn arg fd w1) (\<lambda>w2. Inr (Some (False, w2)))
         else Inr (Some (True, w1))))) = Inr (Some (go, w'))"
    unfolding Let_def by (rule rbind_InrE)
  show ?thesis
  proof (cases "msg_len > PKG_BUF_SIZE")
    case True
    then show ?thesis using l inv by simp
  next
    case False
    have "rbind (mem_read (recv_buf ?c) 2 msg_len) (\<lambda>msg.
         rbind (put_conn ptr c' (emit [E_Zmq_Send (?pkt msg) (?ret msg)] w)) (\<lambda>w1.
         if ?ret msg < 0 then rbind (drop_conn arg fd w1) (\<lambda>w2. Inr (Some (False, w2)))
         else Inr (Some (True, w1)))) = Inr (Some (go, w'))" using l unfolding if_not_P [OF False] .
    then obtain msg where "rbind (put_conn ptr c' (emit [E_Zmq_Send (?pkt msg) (?ret msg)] w)) (\<lambda>w1.
         if ?ret msg < 0 then rbind (drop_conn arg fd w1) (\<lambda>w2. Inr (Some (False, w2)))
         else Inr (Some (True, w1))) = Inr (Some (go, w'))" by (rule rbind_InrE)
    then obtain w1 where "put_conn ptr c' (emit [E_Zmq_Send (?pkt msg) (?ret msg)] w) = Inr w1"
      "(if ?ret msg < 0 then rbind (drop_conn arg fd w1) (\<lambda>w2. Inr (Some (False, w2))) else Inr (Some (True, w1))) = Inr (Some (go, w'))"
      by (rule rbind_InrE)
    then obtain pkt ret where w1: "put_conn ptr c' (emit [E_Zmq_Send pkt ret] w) = Inr w1"
      "(if ret < 0 then rbind (drop_conn arg fd w1) (\<lambda>w2. Inr (Some (False, w2))) else Inr (Some (True, w1))) = Inr (Some (go, w'))"
      by blast
    have e: "run_inv (emit [E_Zmq_Send pkt ret] w)" "conns (emit [E_Zmq_Send pkt ret] w) fd = Some ptr" "conn_fd c' = fd"
      using inv p c(3) c'(3) by (simp_all add: run_inv_emit)
    note r1 = put_conn_run [OF e(1,2) c'(2) e(3) w1(1)]
    then have p1: "conns w1 fd = Some ptr" using p by simp
    show ?thesis
    proof (cases "ret < 0")
      case True
      then obtain w2 where "drop_conn arg fd w1 = Inr w2" "(go, w') = (False, w2)" using w1(2) by (auto elim: rbind_InrE)
      then show ?thesis using drop_conn_run [OF _ p1] r1 by simp
    next
      case False
      then show ?thesis using w1(2) r1 p1 by simp
    qed
  qed
qed

lemma forward_loop_run:
  "run_inv w \<Longrightarrow> conns w fd = Some ptr \<Longrightarrow> forward_loop sys arg fd ptr n w = Inr w' \<Longrightarrow> run_inv w'"
proof (induction n arbitrary: w)
  case (Suc n)
  obtain r where r: "forward_one sys arg fd ptr w = Inr r"
    "(case r of None \<Rightarrow> Inr w | Some (go, w1) \<Rightarrow> if go then forward_loop sys arg fd ptr n w1 else Inr w1) = Inr w'"
    using Suc.prems(3) by (auto simp: rbind_eq_Inr_iff)
  show ?case
  proof (cases r)
    case None
    then show ?thesis using r(2) Suc.prems(1) by simp
  next
    case (Some p)
    obtain go w1 where p: "p = (go, w1)" by (cases p)
    have w1: "run_inv w1 \<and> (go \<longrightarrow> conns w1 fd = Some ptr)"
      by (rule forward_one_run [OF Suc.prems(1,2)]) (use r(1) Some p in simp)
    then show ?thesis using r(2) Some p Suc.IH [of w1] by (cases go) simp_all
  qed
qed simp

lemma send_conn_stop_run: "run_inv w \<Longrightarrow> run_inv (send_conn_stop sys idx w) \<and> conns (send_conn_stop sys idx w) = conns w"
  by (simp add: send_conn_stop_def run_inv_emit Let_def)

lemma do_tcp_read_run:
  assumes inv: "run_inv w" and run: "do_tcp_read sys arg fd w = Inr w'"
  shows "run_inv w'"
proof (cases "conns w fd")
  case None
  then show ?thesis using assms by (simp add: do_tcp_read_def get_conn_def)
next
  case (Some ptr)
  obtain recv_len d where r: "s_recv sys (out w) fd = (recv_len, d)" by (cases "s_recv sys (out w) fd")
  let ?w1 = "emit [E_Recv fd recv_len] w" and ?c = "conn_of w fd" and ?d = "take (nat recv_len) d"
  have inv': "cs_inv w" using inv by (simp add: run_inv_def)
  note c = cs_conn [OF inv' Some]
  have inv1: "run_inv ?w1" and p1: "conns ?w1 fd = Some ptr" using inv Some by (simp_all add: run_inv_emit)
  let ?rest = "rbind (add_recv_data ?d ?c) (\<lambda>(r, c').
            if r \<noteq> 0 then drop_conn arg fd ?w1
            else rbind (put_conn ptr c' ?w1) (forward_loop sys arg fd ptr 10241))"
  have "(if recv_len < 0 then drop_conn arg fd ?w1
      else if recv_len = 0 then drop_conn arg fd (send_conn_stop sys (player_idx ?c) ?w1) else ?rest) = Inr w'"
    using run Some c(1) r unfolding do_tcp_read_def get_conn_def Let_def by simp
  then consider "recv_len < 0" "drop_conn arg fd ?w1 = Inr w'"
    | "recv_len = 0" "drop_conn arg fd (send_conn_stop sys (player_idx ?c) ?w1) = Inr w'"
    | "0 < recv_len" "?rest = Inr w'" by (metis linorder_neqE_linordered_idom)
  then show ?thesis
  proof cases
    case 1
    then show ?thesis using drop_conn_run [OF inv1 p1] by simp
  next
    case 2
    then show ?thesis using drop_conn_run [OF _ _ 2(2)] send_conn_stop_run [OF inv1] p1 by simp
  next
    case 3
    show ?thesis
    proof (cases "length (recv_data ?c) + length ?d \<le> 10240")
      case True
      obtain c' where c': "add_recv_data ?d ?c = Inr (0, c')" "conn_ok c'" "conn_fd c' = conn_fd ?c"
        using add_recv_data_fits [OF c(2) True] by blast
      obtain w2 where w2: "put_conn ptr c' ?w1 = Inr w2" "forward_loop sys arg fd ptr 10241 w2 = Inr w'"
        using 3(2) c'(1) by (auto simp: rbind_eq_Inr_iff)
      have "conn_fd c' = fd" using c'(3) c(3) by simp
      note k = put_conn_run [OF inv1 p1 c'(2) this w2(1)]
      show ?thesis by (rule forward_loop_run [OF _ _ w2(2)]) (use k p1 in simp_all)
    next
      case False
      then have "add_recv_data ?d ?c = Inr (- 1, ?c)" using add_recv_data_over [OF c(2)] by simp
      then show ?thesis using 3(2) drop_conn_run [OF inv1 p1] by simp
    qed
  qed
qed

section \<open>Answers\<close>

lemma queue_rest_run:
  assumes inv: "run_inv w" and p: "conns w fd = Some ptr" and run: "queue_rest fd ptr d w = Inr (go, w')"
  shows "run_inv w' \<and> (go \<longrightarrow> conns w' = conns w)"
proof -
  let ?c = "conn_of w fd"
  have inv': "cs_inv w" using inv by (simp add: run_inv_def)
  note c = cs_conn [OF inv' p]
  show ?thesis
  proof (cases "length (send_data ?c) + length d \<le> 10240")
    case True
    obtain c' where c': "add_send_data d ?c = Inr (0, c')" "conn_ok c'" "conn_fd c' = conn_fd ?c"
      using add_send_data_fits [OF c(2) True] by blast
    have "conn_fd c' = fd" using c'(3) c(3) by simp
    then show ?thesis using run c(1) c'(1) put_conn_run [OF inv p c'(2)] by (auto simp: queue_rest_def rbind_eq_Inr_iff)
  next
    case False
    then have "add_send_data d ?c = Inr (- 1, ?c)" using add_send_data_over [OF c(2)] by simp
    then show ?thesis using run c(1) drop_conn_run [OF inv p] by (auto simp: queue_rest_def rbind_eq_Inr_iff)
  qed
qed

lemma deliver_run:
  assumes inv: "run_inv w" and p: "conns w fd = Some ptr" and run: "deliver sys fd ptr pkt w = Inr (go, w')"
  shows "run_inv w' \<and> (go \<longrightarrow> conns w' = conns w)"
proof -
  let ?c = "conn_of w fd"
  have inv': "cs_inv w" using inv by (simp add: run_inv_def)
  note c = cs_conn [OF inv' p]
  obtain ret again where s: "s_send sys (out w) fd pkt = (ret, again)" by (cases "s_send sys (out w) fd pkt")
  let ?w1 = "emit [E_Send fd pkt ret] w"
  have inv1: "run_inv ?w1" and p1: "conns ?w1 fd = Some ptr" using inv p by (simp_all add: run_inv_emit)
  have m: "EVENT_WRITE \<in> {0, 1, 2, 3}" by (simp add: EVENT_WRITE_def)
  consider "send_buf_size ?c \<noteq> 0" "queue_rest fd ptr pkt w = Inr (go, w')"
    | r where "ev_add sys fd EVENT_WRITE Do_Tcp_Write None ?w1 = Inr (r, w')"
    | "drop_conn (Some ()) fd ?w1 = Inr w'" "\<not> go"
    | r w2 where "ev_add sys fd EVENT_WRITE Do_Tcp_Write (Some ()) ?w1 = Inr (r, w2)" "queue_rest fd ptr (drop (nat ret) pkt) w2 = Inr (go, w')"
    | "w' = ?w1"
    using run c(1) s unfolding deliver_def by (auto simp: rbind_eq_Inr_iff Let_def split: if_splits)
  then show ?thesis
  proof cases
    case 1
    then show ?thesis using queue_rest_run [OF inv p] by simp
  next
    case 2
    then show ?thesis using ev_add_run [OF inv1 c(4) m] by simp
  next
    case 3
    then show ?thesis using drop_conn_run [OF inv1 p1] by simp
  next
    case 4
    note k = ev_add_run [OF inv1 c(4) m 4(1)]
    have i2: "run_inv w2" and p2: "conns w2 fd = Some ptr" and e: "conns w2 = conns w" using k p1 by simp_all
    show ?thesis using queue_rest_run [OF i2 p2 4(2)] e by simp
  next
    case 5
    then show ?thesis using inv1 by simp
  qed
qed

lemma conn_command_run:
  assumes inv: "run_inv w" and p: "conns w fd = Some ptr" and run: "conn_command fd ptr cmd idx w = Inr w'"
  shows "run_inv w'"
proof -
  let ?c = "conn_of w fd"
  have inv': "cs_inv w" using inv by (simp add: run_inv_def)
  note c = cs_conn [OF inv' p]
  have ok: "conn_ok (?c\<lparr>player_idx := idx\<rparr>)" "conn_fd (?c\<lparr>player_idx := idx\<rparr>) = fd" using c(2,3) by (simp_all add: conn_ok_def)
  show ?thesis
    using run c(1) inv put_conn_run [OF inv p ok] drop_conn_run [OF inv p]
    by (auto simp: conn_command_def split: if_splits)
qed

lemma zmq_read_loop_run:
  assumes inv: "run_inv w" and run: "zmq_read_loop sys w = Inr w'"
  shows "run_inv w'"
proof -
  obtain recv_len buf where r: "s_zmq_recv sys (out w) = (recv_len, buf)" by (cases "s_zmq_recv sys (out w)")
  let ?w1 = "emit [E_Zmq_Recv recv_len] w"
  have inv1: "run_inv ?w1" using inv by (simp add: run_inv_emit)
  consider "w' = ?w1"
    | fd ptr cmd idx pkt go w2 where "conns ?w1 fd = Some ptr" "deliver sys fd ptr pkt ?w1 = Inr (go, w2)"
        "(if go then conn_command fd ptr cmd idx w2 else Inr w2) = Inr w'"
    using run r unfolding zmq_read_loop_def get_conn_def
    by (auto simp: rbind_eq_Inr_iff Let_def split: if_splits option.splits)
  then show ?thesis
  proof cases
    case 1
    then show ?thesis using inv1 by simp
  next
    case 2
    have k: "run_inv w2" "go \<Longrightarrow> conns w2 = conns ?w1" using deliver_run [OF inv1 2(1,2)] by simp_all
    show ?thesis
    proof (cases go)
      case True
      have "conns w2 fd = Some ptr" using k(2) [OF True] 2(1) by simp
      from conn_command_run [OF k(1) this] show ?thesis using 2(3) True by simp
    next
      case False
      then show ?thesis using k(1) 2(3) by simp
    qed
  qed
qed

lemma do_tcp_write_run:
  assumes inv: "run_inv w" and run: "do_tcp_write sys arg fd w = Inr w'"
  shows "run_inv w'"
proof (cases "conns w fd")
  case None
  then show ?thesis using assms by (simp add: do_tcp_write_def get_conn_def)
next
  case (Some ptr)
  let ?c = "conn_of w fd"
  have inv': "cs_inv w" using inv by (simp add: run_inv_def)
  note c = cs_conn [OF inv' Some]
  have "rbind (mem_read (send_buf ?c) 0 (send_buf_size ?c)) (\<lambda>data.
          let (ret, _) = s_send sys (out w) fd data; w1 = emit [E_Send fd data ret] w in
          if ret < 0 then drop_conn arg fd w1
          else if ret > 0 \<and> ret < send_buf_size ?c then rbind (remove_send_data ret ?c) (\<lambda>c'. put_conn ptr c' w1)
          else if ret = send_buf_size ?c then
            rbind (put_conn ptr (clear_send_data ?c) w1) (\<lambda>w2. with_epoller arg (ev_del fd EVENT_WRITE w2))
          else Inr w1) = Inr w'"
    using run Some c(1) by (simp add: do_tcp_write_def get_conn_def)
  then obtain d where h: "(let (ret, _) = s_send sys (out w) fd d; w1 = emit [E_Send fd d ret] w in
          if ret < 0 then drop_conn arg fd w1
          else if ret > 0 \<and> ret < send_buf_size ?c then rbind (remove_send_data ret ?c) (\<lambda>c'. put_conn ptr c' w1)
          else if ret = send_buf_size ?c then
            rbind (put_conn ptr (clear_send_data ?c) w1) (\<lambda>w2. with_epoller arg (ev_del fd EVENT_WRITE w2))
          else Inr w1) = Inr w'" by (rule rbind_InrE)
  obtain ret again where s: "s_send sys (out w) fd d = (ret, again)" by (cases "s_send sys (out w) fd d")
  let ?w1 = "emit [E_Send fd d ret] w"
  have st: "(if ret < 0 then drop_conn arg fd ?w1
          else if ret > 0 \<and> ret < send_buf_size ?c then rbind (remove_send_data ret ?c) (\<lambda>c'. put_conn ptr c' ?w1)
          else if ret = send_buf_size ?c then
            rbind (put_conn ptr (clear_send_data ?c) ?w1) (\<lambda>w2. with_epoller arg (ev_del fd EVENT_WRITE w2))
          else Inr ?w1) = Inr w'" using h s unfolding Let_def by simp
  have inv1: "run_inv ?w1" and p1: "conns ?w1 fd = Some ptr" using inv Some by (simp_all add: run_inv_emit)
  show ?thesis
  proof (cases "ret < 0")
    case True
    then show ?thesis using st drop_conn_run [OF inv1 p1] by simp
  next
    case nneg: False
    show ?thesis
    proof (cases "ret > 0 \<and> ret < send_buf_size ?c")
      case True
      obtain c' where c': "remove_send_data ret ?c = Inr c'" "conn_ok c'" "conn_fd c' = conn_fd ?c"
        using remove_send_data_ok [OF c(2), of ret] True by auto
      have "conn_fd c' = fd" using c'(3) c(3) by simp
      then show ?thesis using st nneg True c'(1) put_conn_run [OF inv1 p1 c'(2)] by simp
    next
      case False
      note st2 = st [unfolded if_not_P [OF nneg] if_not_P [OF False]]
      show ?thesis
      proof (cases "ret = send_buf_size ?c")
        case True
        obtain w2 where w2: "put_conn ptr (clear_send_data ?c) ?w1 = Inr w2" "with_epoller arg (ev_del fd EVENT_WRITE w2) = Inr w'"
          using st2 unfolding if_P [OF True] by (rule rbind_InrE)
        have del: "ev_del fd EVENT_WRITE w2 = Inr w'" using w2(2) by (cases arg) (simp_all add: with_epoller_def)
        have cl: "conn_ok (clear_send_data ?c)" "conn_fd (clear_send_data ?c) = fd" using clear_send_data_ok [OF c(2)] c(3) by auto
        note k = put_conn_run [OF inv1 p1 cl w2(1)]
        have inv2: "cs_inv w2" and dom2: "dom (conns w2) \<subseteq> open_fds (out w2)" using k unfolding run_inv_def by blast+
        obtain evs' cs where e: "del_event fd EVENT_WRITE (evs w2) = Inr (evs', cs)" "evs_ok evs'"
          using del_event_ok [of "evs w2" fd EVENT_WRITE] inv2 c(4) by (auto simp: cs_inv_def EVENT_WRITE_def)
        have "w' = emit (map E_Ctl cs) (w2\<lparr>evs := evs'\<rparr>)" using del e(1) by (simp add: ev_del_def)
        moreover have "run_inv (w2\<lparr>evs := evs'\<rparr>)" using inv2 dom2 e(2) by (simp add: run_inv_def cs_inv_def)
        ultimately show ?thesis by (simp add: run_inv_emit)
      next
        case False
        then show ?thesis using st2 inv1 by simp
      qed
    qed
  qed
qed

section \<open>The loop\<close>

lemma epoller_loop_keeps:
  assumes keep: "\<And>p fd d w w'. P w \<Longrightarrow> run p fd d w = Inr w' \<Longrightarrow> P w'"
  shows "P w \<Longrightarrow> epoller_loop get run es w = Inr w' \<Longrightarrow> P w'"
proof (induction es arbitrary: w)
  case (Cons e es)
  have d: "P w1 \<Longrightarrow> dispatch get run sel flag fd w1 = Inr w2 \<Longrightarrow> P w2" for sel flag fd w1 w2
    using keep by (auto simp: dispatch_def call_proc_def rbind_eq_Inr_iff split: if_splits option.splits)
  obtain w1 where w1: "loop_event get run e w = Inr w1" "epoller_loop get run es w1 = Inr w'"
    using Cons.prems(2) by (auto simp: rbind_eq_Inr_iff)
  have "P w1" using w1(1) Cons.prems(1) unfolding loop_event_def by (elim rbind_InrE) (blast intro: d)
  from Cons.IH [OF this w1(2)] show ?case .
qed simp

lemma run_proc_run:
  assumes "accept_fresh sys" "run_inv w" "run_proc sys p fd d w = Inr w'"
  shows "run_inv w'"
  using assms by (cases p) (auto intro: do_tcp_accept_run do_tcp_read_run do_tcp_write_run)

lemma event_round_run:
  assumes fresh: "accept_fresh sys" and inv: "run_inv w" and run: "event_round sys w = Inr w'"
  shows "run_inv w'"
proof -
  obtain w1 where w1: "epoller_loop evs (run_proc sys) (s_wait sys (out w)) (emit [E_Wait] w) = Inr w1" "zmq_read_loop sys w1 = Inr w'"
    using run by (auto simp: event_round_def Let_def rbind_eq_Inr_iff)
  have "run_inv w1"
    by (rule epoller_loop_keeps [where P = run_inv, OF run_proc_run [OF fresh] _ w1(1)]) (use inv in \<open>simp_all add: run_inv_emit\<close>)
  from zmq_read_loop_run [OF this w1(2)] show ?thesis .
qed

lemma event_rounds_run: "accept_fresh sys \<Longrightarrow> run_inv w \<Longrightarrow> event_rounds sys n w = Inr w' \<Longrightarrow> run_inv w'"
proof (induction n arbitrary: w)
  case (Suc n)
  then show ?case using event_round_run by (auto simp: rbind_eq_Inr_iff)
qed simp

text \<open>The module after its initialisation, once the manager of the connections is there too.\<close>

lemma event_init_run:
  assumes m: "conn_mgr_init ok n = Inr m" "0 \<le> n" and fd: "0 \<le> listen_fd" and run: "event_init sys n epfd listen_fd m0 = Inr w"
  shows "run_inv (w\<lparr>mgr := m\<rparr>) \<and> conns (w\<lparr>mgr := m\<rparr>) = Map.empty"
proof -
  obtain evs1 :: "(proc, unit) file_events" where e: "epoller_init (nat n) epfd = Inr evs1"
    using run by (auto simp: event_init_def rbind_eq_Inr_iff)
  let ?w = "\<lparr>mgr = m0, evs = evs1, max_connection = n, out = []\<rparr>"
  obtain r where a: "ev_add sys listen_fd EVENT_READ Do_Tcp_Accept (Some ()) ?w = Inr (r, w)"
    using run e by (auto simp: event_init_def rbind_eq_Inr_iff)
  obtain r2 evs2 cs where add: "add_event (s_ctl sys []) listen_fd EVENT_READ (Some Do_Tcp_Accept) (Some ()) evs1 = Inr (r2, evs2, cs)"
    "evs_ok evs2"
    using add_event_ok [of evs1 listen_fd EVENT_READ "s_ctl sys []" Do_Tcp_Accept "Some ()"] evs_ok_init [OF e] fd
    by (auto simp: EVENT_READ_def)
  have w: "w = emit (map E_Ctl cs) (?w\<lparr>evs := evs2\<rparr>)" using a add(1) by (simp add: ev_add_def)
  have ok: "conn_mgr_init True n = Inr m" using m(1) by (cases ok) (simp_all add: conn_mgr_init_def pool_init_def)
  have mi: "mgr_inv m" "conn_map m = []" using mgr_inv_init [OF m(2) ok] by simp_all
  have "total_unit_count (conn_pool m) = n"
    using ok by (auto simp: conn_mgr_init_def pool_init_def pool_fresh_def rbind_eq_Inr_iff split: prod.splits option.splits if_splits)
  then have "cs_inv (w\<lparr>mgr := m\<rparr>)" using mi add(2) w by (simp add: cs_inv_def)
  then show ?thesis using mi(2) by (simp add: run_inv_def)
qed

end
