(* ===== verification/App_Frame.thy ===== *)
theory App_Frame
  imports Std_Map Utils_Frame
begin

text \<open>
  The application framework: the module map of \<open>AppBase\<close> (\<open>common/frame/app_base.h\<close>), the
  message dispatch of \<open>MsgModuleBase\<close> (\<open>msg_module_base.h\<close>) and the callback slot of
  \<open>CallbackObject\<close> (\<open>callback.h\<close>). A module is a value of any type, a \<open>NULL\<close> pointer is
  \<open>None\<close>; the protobuf parser is an argument.
\<close>

section \<open>AppBase\<close>

type_synonym 'm module_map = "(int \<times> 'm option) list"

definition add_module :: "int \<Rightarrow> 'm option \<Rightarrow> 'm module_map \<Rightarrow> 'm module_map" where
  "add_module module_id app_module mm = smap_put (u64 module_id) app_module mm"

definition find_module :: "'m module_map \<Rightarrow> int \<Rightarrow> 'm res" where
  "find_module mm module_id =
     (let module = (case map_of mm (u64 module_id) of None \<Rightarrow> None | Some m \<Rightarrow> m) in
      case module of None \<Rightarrow> Inl Check_Failed | Some m \<Rightarrow> Inr m)"

definition get_module :: "'m module_map \<Rightarrow> int \<Rightarrow> 'm option res" where
  "get_module mm module_id =
     (case map_of mm (u64 module_id) of None \<Rightarrow> Inl Check_Failed | Some m \<Rightarrow> Inr m)"

text \<open>\<open>AppStop\<close>: \<open>ModuleFini\<close> and \<open>delete\<close> of every module, from the largest id to the
  smallest; \<open>fini\<close> is a module's finalisation on the program's state.\<close>

definition app_stop :: "('m \<Rightarrow> 's \<Rightarrow> 's) \<Rightarrow> 'm module_map \<Rightarrow> 's \<Rightarrow> 'm module_map \<times> 's" where
  "app_stop fini mm s =
     (if mm = [] then (mm, s)
      else ([], foldl (\<lambda>s (_, m). case m of None \<Rightarrow> s | Some m \<Rightarrow> fini m s) s (rev mm)))"

section \<open>CallbackObject\<close>

text \<open>A callback object holds nothing, or an object with one of its methods; executing an
  empty one calls through a null pointer.\<close>

definition callback_execute :: "('o \<Rightarrow> int \<Rightarrow> nat \<Rightarrow> 's \<Rightarrow> (int \<times> 's) res) option \<times> 'o \<Rightarrow> int \<Rightarrow> nat \<Rightarrow> 's \<Rightarrow> (int \<times> 's) res" where
  "callback_execute cb code data s =
     (case fst cb of None \<Rightarrow> Inl Null_Deref | Some func \<Rightarrow> func (snd cb) code data s)"

section \<open>MsgModuleBase\<close>

type_synonym ('m, 's) msg_wrapper = "'m \<Rightarrow> 's \<Rightarrow> (int \<times> 's) res"

definition msg_register :: "int \<Rightarrow> 'w \<Rightarrow> (int \<times> 'w) list \<Rightarrow> (int \<times> 'w) list" where
  "msg_register msg_id wrapper m = smap_put msg_id wrapper m"

text \<open>
  \<open>HandleRequest\<close>: \<open>parse\<close> is \<open>ParseFromArray\<close>, \<open>cmd\<close> reads \<open>head().cmd()\<close>. The handler's
  own return value is logged only.
\<close>

definition handle_request ::
  "(bytes \<Rightarrow> 'm option) \<Rightarrow> ('m \<Rightarrow> int) \<Rightarrow> (int \<times> ('m, 's) msg_wrapper) list \<Rightarrow> bytes \<Rightarrow> 's \<Rightarrow> (int \<times> 's) res" where
  "handle_request parse cmd wrappers pkg s =
     (case parse pkg of
        None \<Rightarrow> Inr (- 1, s)
      | Some msg \<Rightarrow>
          (case map_of wrappers (cmd msg) of
             Some process \<Rightarrow> rbind (process msg s) (\<lambda>(_, s'). Inr (0, s'))
           | None \<Rightarrow> Inr (- 2, s)))"

section \<open>Properties\<close>

lemma u64_id: "0 \<le> x \<Longrightarrow> x < 2147483648 \<Longrightarrow> u64 x = x"
  by (simp add: u64_def take_bit_int_eq_self)

lemma add_module_ok [simp]: "smap_ok mm \<Longrightarrow> smap_ok (add_module i m mm)"
  by (simp add: add_module_def smap_put_ok)

text \<open>\<open>FindModule\<close> returns the module last added under the id, and aborts for an id under
  which nothing or \<open>NULL\<close> was added; other ids are not affected by an \<open>AddModule\<close>.\<close>

theorem find_module_spec:
  "smap_ok mm \<Longrightarrow> 0 \<le> i \<Longrightarrow> i < 2147483648 \<Longrightarrow> 0 \<le> j \<Longrightarrow> j < 2147483648 \<Longrightarrow>
   find_module (add_module i m mm) j =
     (if i = j then (case m of None \<Rightarrow> Inl Check_Failed | Some x \<Rightarrow> Inr x) else find_module mm j)"
  by (simp add: find_module_def add_module_def u64_id Let_def)

theorem find_module_spec_witness:
  "find_module (add_module 40961 (Some ''timer'') (add_module 40960 (Some ''config'') [])) 40960 = Inr ''config''"
  using find_module_spec [of "add_module 40960 (Some ''config'') []" 40961 40960 "Some ''timer''"]
    find_module_spec [of "[]" 40960 40960 "Some ''config''"]
  by simp

lemma stop_order:
  "foldl (\<lambda>s (_, m). case m of None \<Rightarrow> s | Some m \<Rightarrow> (\<lambda>m s. s @ [m]) m s) acc mm =
   acc @ List.map_filter snd mm"
  by (induction mm arbitrary: acc) (auto simp: map_filter_simps split: option.splits)

text \<open>\<open>AppStop\<close> finalises each module exactly once, in descending order of the module ids
  (which the comment calls the reverse order of creation), and leaves the map empty.\<close>

theorem app_stop_order:
  "smap_ok mm \<Longrightarrow>
   app_stop (\<lambda>m s. s @ [m]) mm [] = ([], List.map_filter snd (rev mm)) \<and>
   sorted_wrt (>) (map fst (rev mm))"
  using stop_order [of "[]" "rev mm"]
  by (auto simp: app_stop_def smap_ok_def sorted_wrt_rev rev_map [symmetric] map_filter_simps)

theorem app_stop_order_witness:
  "app_stop (\<lambda>m s. s @ [m]) (add_module 1 (Some ''late'') (add_module 2 (Some ''early'') [])) [] =
     ([], [''early'', ''late''])"
  using app_stop_order [of "add_module 1 (Some ''late'') (add_module 2 (Some ''early'') [])"]
  by (simp add: smap_ok_def add_module_def u64_id map_filter_simps)

end
