(* ===== verification/Server_Frame.thy ===== *)
theory Server_Frame
  imports App_Frame
begin

text \<open>
  The process around an application: \<open>common/frame/server_frame.{h,cpp}\<close>. It reads the command
  line, starts or signals a server, keeps the file with its process id, and runs the
  application until a signal ends it.

  An application is a value of any type with the operations \<open>ServerFrame\<close> calls on it. A path is a
  string, the file system a map from paths to contents (a path of \<open>/proc\<close> is in it when the process
  runs). \<open>getopt_long\<close> of the C library is modelled with its permutation of the arguments.
\<close>

section \<open>The C library\<close>

text \<open>\<open>getopt_long\<close>: an option string as the letters without and with an argument, and the long
  options with whether they take an argument and the letter they return.\<close>

type_synonym long_option = "string \<times> bool \<times> char"

record opt_table =
  ot_flags :: "char list"
  ot_args :: "char list"
  ot_long :: "long_option list"

text \<open>A long name may be cut short when all options that begin with it mean the same.\<close>

definition long_match :: "long_option list \<Rightarrow> string \<Rightarrow> (bool \<times> char) option" where
  "long_match ls name =
     (case find (\<lambda>l. fst l = name) ls of
        Some l \<Rightarrow> Some (snd l)
      | None \<Rightarrow>
          (case filter (\<lambda>l. take (length name) (fst l) = name) ls of
             [] \<Rightarrow> None
           | l # ls' \<Rightarrow> if list_all (\<lambda>l'. snd l' = snd l) ls' then Some (snd l) else None))"

text \<open>One argument \<open>--name\<close> or \<open>--name=value\<close>: the option with its value, and how many more
  arguments it took.\<close>

definition long_scan :: "opt_table \<Rightarrow> string \<Rightarrow> string list \<Rightarrow> (char \<times> string) \<times> nat" where
  "long_scan t body rest =
     (let name = takeWhile (\<lambda>c. c \<noteq> CHR ''='') body; eq = (CHR ''='' \<in> set body);
          val = drop (length name + 1) body in
      case long_match (ot_long t) name of
        None \<Rightarrow> ((CHR ''?'', []), 0)
      | Some (has_arg, c) \<Rightarrow>
          if \<not> has_arg then if eq then ((CHR ''?'', []), 0) else ((c, []), 0)
          else if eq then ((c, val), 0)
          else (case rest of [] \<Rightarrow> ((CHR ''?'', []), 0) | b # _ \<Rightarrow> ((c, b), 1)))"

text \<open>A cluster of short options \<open>-abc\<close>.\<close>

fun short_scan :: "opt_table \<Rightarrow> string \<Rightarrow> string list \<Rightarrow> (char \<times> string) list \<times> nat" where
  "short_scan t [] rest = ([], 0)"
| "short_scan t (c # cs) rest =
     (if c \<in> set (ot_args t) then
        if cs \<noteq> [] then ([(c, cs)], 0)
        else (case rest of [] \<Rightarrow> ([(CHR ''?'', [])], 0) | b # _ \<Rightarrow> ([(c, b)], 1))
      else let (os, k) = short_scan t cs rest in ((if c \<in> set (ot_flags t) then c else CHR ''?'', []) # os, k))"

definition scan_arg :: "opt_table \<Rightarrow> string \<Rightarrow> string list \<Rightarrow> (char \<times> string) list \<times> nat" where
  "scan_arg t a rest =
     (if take 2 a = ''--'' then let (p, k) = long_scan t (drop 2 a) rest in ([p], k) else short_scan t (tl a) rest)"

definition is_option :: "string \<Rightarrow> bool" where
  "is_option a \<longleftrightarrow> length a > 1 \<and> hd a = CHR ''-''"

text \<open>What the calls of \<open>getopt_long\<close> return, the arguments they take, and the others, which end up
  behind.\<close>

function getopt_all :: "opt_table \<Rightarrow> string list \<Rightarrow> (char \<times> string) list \<times> string list \<times> string list" where
  "getopt_all t [] = ([], [], [])"
| "getopt_all t (a # as) =
     (if a = ''--'' then ([], [a], as)
      else if is_option a then
        let (os, k) = scan_arg t a as; (os', used, others) = getopt_all t (drop k as) in
        (os @ os', a # take k as @ used, others)
      else let (os', used, others) = getopt_all t as in (os', used, a # others))"
  by pat_completeness auto
termination by (relation "measure (\<lambda>(_, as). length as)") auto

text \<open>\<open>strtol\<close> with base 10, on few enough digits not to overflow.\<close>

definition is_space_char :: "char \<Rightarrow> bool" where
  "is_space_char c \<longleftrightarrow> of_char c = (32 :: nat) \<or> (9 \<le> (of_char c :: nat) \<and> of_char c \<le> (13 :: nat))"

definition is_digit_char :: "char \<Rightarrow> bool" where
  "is_digit_char c \<longleftrightarrow> 48 \<le> (of_char c :: nat) \<and> of_char c \<le> (57 :: nat)"

definition strtol10 :: "string \<Rightarrow> int" where
  "strtol10 str =
     (let s = dropWhile is_space_char str;
          neg = (s \<noteq> [] \<and> hd s = CHR ''-'');
          body = (if s \<noteq> [] \<and> (hd s = CHR ''-'' \<or> hd s = CHR ''+'') then tl s else s);
          v = int (foldl (\<lambda>v c. 10 * v + (of_char c - 48)) 0 (takeWhile is_digit_char body)) in
      if neg then - v else v)"

text \<open>\<open>%d\<close>.\<close>

definition show_nat :: "nat \<Rightarrow> string" where
  "show_nat n = map (\<lambda>d. char_of (48 + d)) (digits n)"

definition show_int :: "int \<Rightarrow> string" where
  "show_int i = (if i < 0 then CHR ''-'' # show_nat (nat (- i)) else show_nat (nat i))"

text \<open>\<open>snprintf\<close> into \<open>n\<close> bytes, and \<open>strcpy\<close> into a buffer of \<open>FILE_NAME_SIZE\<close>.\<close>

definition snprintf :: "nat \<Rightarrow> string \<Rightarrow> string" where
  "snprintf n str = take (n - 1) str"

definition FILE_NAME_SIZE :: nat where "FILE_NAME_SIZE = 128"
definition EXE_FILE_PATH :: nat where "EXE_FILE_PATH = 128"

definition strcpy_name :: "string \<Rightarrow> string res" where
  "strcpy_name src = (if length src < FILE_NAME_SIZE then Inr src else Inl Out_Of_Bounds)"

section \<open>State and environment\<close>

record 'a app_ops =
  ap_instance :: "'a option"
  ap_init :: "'a \<Rightarrow> (int \<times> 'a) res"
  ap_run :: "'a \<Rightarrow> 'a res option"
  ap_stop :: "'a \<Rightarrow> 'a res option"
  ap_reload :: "'a \<Rightarrow> 'a res"
  ap_clean :: "'a \<Rightarrow> 'a res"

datatype frame_signal = Sig_Stop | Sig_Reload

datatype frame_effect =
    F_Help string
  | F_Kill int frame_signal
  | F_Daemon
  | F_Log_To int "string list"
  | F_Running
  | F_App_Run
  | F_App_Stop
  | F_Log_Shutdown

record frame_sys =
  fy_pid :: int
  fy_uid :: int
  fy_gid :: int
  fy_daemon :: bool
  fy_open_read :: "string \<Rightarrow> bool"
  fy_read :: "string \<Rightarrow> bool"
  fy_creat :: "string \<Rightarrow> bool"
  fy_write :: bool

record 'a server_frame =
  sf_app :: "'a option"
  sf_pid_file :: string
  sf_shutdown :: bool
  sf_singleton :: int
  sf_uid :: int
  sf_gid :: int
  sf_name :: string
  sf_version :: string
  sf_daemon :: bool
  sf_log_path :: string
  sf_log_name :: string
  sf_log_level :: int
  sf_conf :: string
  sf_script :: string
  sf_files :: "string \<Rightarrow> string option"
  sf_atexit :: bool
  sf_out :: "frame_effect list"

definition femit :: "frame_effect \<Rightarrow> 'a server_frame \<Rightarrow> 'a server_frame" where
  "femit e s = s\<lparr>sf_out := sf_out s @ [e]\<rparr>"

text \<open>The static members before the constructor of the frame runs, and the constructor.\<close>

definition frame_statics :: "(string \<Rightarrow> string option) \<Rightarrow> 'a server_frame" where
  "frame_statics files =
     \<lparr>sf_app = None, sf_pid_file = [], sf_shutdown = False, sf_singleton = 0, sf_uid = 0, sf_gid = 0, sf_name = [],
      sf_version = [], sf_daemon = False, sf_log_path = [], sf_log_name = [], sf_log_level = 0, sf_conf = [], sf_script = [],
      sf_files = files, sf_atexit = False, sf_out = []\<rparr>"

definition frame_new :: "string \<Rightarrow> 'a server_frame \<Rightarrow> 'a server_frame res" where
  "frame_new svr_ver s =
     (let s1 = s\<lparr>sf_singleton := sf_singleton s + 1\<rparr> in
      rbind (guard Assert_Failed (sf_singleton s1 < 2)) (\<lambda>_.
      Inr (s1\<lparr>sf_version := svr_ver, sf_daemon := False, sf_log_level := 0, sf_log_path := [], sf_log_name := [],
              sf_conf := [], sf_script := []\<rparr>)))"

section \<open>The command line\<close>

definition frame_options :: opt_table where
  "frame_options = \<lparr>ot_flags = ''dD'', ot_args = ''cspl'',
     ot_long = [(''daemon'', False, CHR ''d''), (''D'', False, CHR ''d''), (''conf-file'', True, CHR ''c''),
       (''script-file'', True, CHR ''s''), (''log-path'', True, CHR ''p''), (''log-level'', True, CHR ''l'')]\<rparr>"

definition log_level_of :: "string \<Rightarrow> int" where
  "log_level_of optarg =
     (if optarg = ''info'' then 0 else if optarg = ''warning'' then 1 else if optarg = ''error'' then 2
      else if optarg = ''fatal'' then 4 else 0)"

definition apply_opt :: "string \<Rightarrow> char \<times> string \<Rightarrow> 'a server_frame \<Rightarrow> 'a server_frame res" where
  "apply_opt argv0 o' s =
     (case o' of (c, optarg) \<Rightarrow>
        if c = CHR ''D'' \<or> c = CHR ''d'' then Inr (s\<lparr>sf_daemon := True\<rparr>)
        else if c = CHR ''c'' then rbind (strcpy_name optarg) (\<lambda>v. Inr (s\<lparr>sf_conf := v\<rparr>))
        else if c = CHR ''s'' then rbind (strcpy_name optarg) (\<lambda>v. Inr (s\<lparr>sf_script := v\<rparr>))
        else if c = CHR ''p'' then rbind (strcpy_name optarg) (\<lambda>v. Inr (s\<lparr>sf_log_path := v\<rparr>))
        else if c = CHR ''l'' then Inr (s\<lparr>sf_log_level := log_level_of optarg\<rparr>)
        else Inr (femit (F_Help argv0) s))"

fun apply_opts :: "string \<Rightarrow> (char \<times> string) list \<Rightarrow> 'a server_frame \<Rightarrow> 'a server_frame res" where
  "apply_opts argv0 [] s = Inr s"
| "apply_opts argv0 (p # ps) s = rbind (apply_opt argv0 p s) (apply_opts argv0 ps)"

text \<open>\<open>ParseParam\<close> leaves \<open>argv\<close> with the options in front.\<close>

definition parse_param :: "string \<Rightarrow> string list \<Rightarrow> 'a server_frame \<Rightarrow> (string list \<times> 'a server_frame) res" where
  "parse_param argv0 args s =
     (case getopt_all frame_options args of (os, used, others) \<Rightarrow>
        rbind (apply_opts argv0 os s) (\<lambda>s1.
        Inr (argv0 # used @ others,
             s1\<lparr>sf_log_name := snprintf (FILE_NAME_SIZE - 1) (sf_log_path s1 @ ''/'' @ sf_name s1)\<rparr>)))"

section \<open>The file with the process id\<close>

definition create_pid_file :: "frame_sys \<Rightarrow> 'a server_frame \<Rightarrow> int \<times> 'a server_frame" where
  "create_pid_file sys s =
     (let pid_name = snprintf 16 (show_int (fy_pid sys)) in
      if fy_creat sys (sf_pid_file s) then
        (0, s\<lparr>sf_files := (sf_files s)(sf_pid_file s \<mapsto> if fy_write sys then pid_name else [])\<rparr>)
      else (- 1, s))"

text \<open>A failed \<open>read\<close> gives the index \<open>SIZE_MAX\<close>; 16 bytes of contents give the index 16.\<close>

definition get_running_pid :: "frame_sys \<Rightarrow> 'a server_frame \<Rightarrow> int res" where
  "get_running_pid sys s =
     (case sf_files s (sf_pid_file s) of
        None \<Rightarrow> Inr 0
      | Some content \<Rightarrow>
          if \<not> fy_open_read sys (sf_pid_file s) then Inr 0
          else if \<not> fy_read sys (sf_pid_file s) then Inl Out_Of_Bounds
          else
            let pid_name = take 16 content in
            if pid_name = [] then Inr 0
            else if length pid_name = 16 then Inl Out_Of_Bounds
            else Inr (i32 (strtol10 pid_name)))"

definition check_for_pid_file :: "frame_sys \<Rightarrow> 'a server_frame \<Rightarrow> int res" where
  "check_for_pid_file sys s =
     rbind (get_running_pid sys s) (\<lambda>proc_id.
     if proc_id \<le> 0 then Inr 0
     else
       let exe_path = snprintf EXE_FILE_PATH (''/proc/'' @ show_int proc_id @ ''/cwd/'' @ sf_name s) in
       Inr (if sf_files s exe_path = None then 0 else - 1))"

text \<open>\<open>KillApp\<close> and \<open>ReloadApp\<close> differ in the signal.\<close>

definition signal_app :: "frame_sys \<Rightarrow> frame_signal \<Rightarrow> 'a server_frame \<Rightarrow> 'a server_frame res" where
  "signal_app sys sg s =
     (if sf_files s (sf_pid_file s) \<noteq> None then
        rbind (get_running_pid sys s) (\<lambda>proc_id. Inr (femit (F_Kill proc_id sg) s))
      else Inr s)"

definition kill_app :: "frame_sys \<Rightarrow> 'a server_frame \<Rightarrow> 'a server_frame res" where
  "kill_app sys s = signal_app sys Sig_Stop s"

definition reload_app :: "frame_sys \<Rightarrow> 'a server_frame \<Rightarrow> 'a server_frame res" where
  "reload_app sys s = signal_app sys Sig_Reload s"

definition remove_pid_file :: "'a server_frame \<Rightarrow> 'a server_frame" where
  "remove_pid_file s = s\<lparr>sf_files := (sf_files s)(sf_pid_file s := None)\<rparr>"

section \<open>Signals and the log\<close>

definition signal_handler :: "'a app_ops \<Rightarrow> frame_signal \<Rightarrow> 'a server_frame \<Rightarrow> 'a server_frame res" where
  "signal_handler ops sg s =
     (case sg of
        Sig_Stop \<Rightarrow> Inr (s\<lparr>sf_shutdown := True\<rparr>)
      | Sig_Reload \<Rightarrow>
          (case sf_app s of None \<Rightarrow> Inl Null_Deref
           | Some a \<Rightarrow> rbind (ap_reload ops a) (\<lambda>a'. Inr (s\<lparr>sf_app := Some a'\<rparr>))))"

fun handle_signals :: "'a app_ops \<Rightarrow> frame_signal list \<Rightarrow> 'a server_frame \<Rightarrow> 'a server_frame res" where
  "handle_signals ops [] s = Inr s"
| "handle_signals ops (g # gs) s = rbind (signal_handler ops g s) (handle_signals ops gs)"

definition init_log :: "'a server_frame \<Rightarrow> 'a server_frame" where
  "init_log s = femit (F_Log_To (sf_log_level s)
     (map (\<lambda>kind. snprintf (FILE_NAME_SIZE - 1) (sf_log_name s @ kind)) [''_fatal_'', ''_error_'', ''_warning_'', ''_info_''])) s"

section \<open>InitFrame\<close>

datatype frame_result = F_Exit int | F_Ret int

text \<open>The branch for \<open>start\<close>. The parents of a daemon exit; the model follows the last child.\<close>

definition start_frame :: "'a app_ops \<Rightarrow> frame_sys \<Rightarrow> 'a server_frame \<Rightarrow> (frame_result \<times> 'a server_frame) res" where
  "start_frame ops sys s =
     (if sf_daemon s \<and> \<not> fy_daemon sys then Inr (F_Exit 0, s)
      else
        let s1 = (if sf_daemon s then femit F_Daemon s else s)\<lparr>sf_uid := fy_uid sys, sf_gid := fy_gid sys\<rparr> in
        rbind (check_for_pid_file sys s1) (\<lambda>running.
        if running < 0 then Inr (F_Ret (- 1), s1)
        else
          let (ret, s2) = create_pid_file sys s1 in
          if ret < 0 then Inr (F_Ret (- 1), s2)
          else
            let s3 = init_log (s2\<lparr>sf_atexit := True\<rparr>) in
            case ap_instance ops of
              None \<Rightarrow> Inl Check_Failed
            | Some a \<Rightarrow>
                rbind (ap_init ops a) (\<lambda>(ret, a').
                Inr (F_Ret (if ret < 0 then - 1 else 0), s3\<lparr>sf_app := Some a'\<rparr>))))"

definition init_frame ::
  "'a app_ops \<Rightarrow> frame_sys \<Rightarrow> string \<Rightarrow> string list \<Rightarrow> 'a server_frame \<Rightarrow> (frame_result \<times> 'a server_frame) res" where
  "init_frame ops sys argv0 args s =
     rbind (parse_param argv0 args
       (s\<lparr>sf_name := argv0, sf_pid_file := snprintf FILE_NAME_SIZE (argv0 @ ''.pid'')\<rparr>)) (\<lambda>(argv, s1).
     let cmd = last argv in
     if cmd = ''stop'' then rbind (kill_app sys s1) (\<lambda>s2. Inr (F_Exit 0, s2))
     else if cmd = ''reload'' then rbind (reload_app sys s1) (\<lambda>s2. Inr (F_Exit 0, s2))
     else if cmd = ''clean'' then
       (case sf_app s1 of None \<Rightarrow> Inl Null_Deref
        | Some a \<Rightarrow> rbind (ap_clean ops a) (\<lambda>_. Inr (F_Exit 0, s1\<lparr>sf_app := None\<rparr>)))
     else if cmd = ''start'' then start_frame ops sys s1
     else Inr (F_Ret (- 1), s1))"

section \<open>RunFrame, FiniFrame and Run\<close>

text \<open>The loop, followed as long as the list of the signals that arrive in each pass reaches. The
  signals of a pass are handled at its end.\<close>

fun frame_loop :: "'a app_ops \<Rightarrow> frame_signal list list \<Rightarrow> 'a server_frame \<Rightarrow> 'a server_frame res option" where
  "frame_loop ops [] s = Some (Inr s)"
| "frame_loop ops (gs # gss) s =
     (if sf_shutdown s then Some (Inr s)
      else
        case sf_app s of
          None \<Rightarrow> Some (Inl Null_Deref)
        | Some a \<Rightarrow>
            (case ap_run ops a of
               None \<Rightarrow> None
             | Some (Inl e) \<Rightarrow> Some (Inl e)
             | Some (Inr a') \<Rightarrow>
                 (case handle_signals ops gs ((femit F_App_Run s)\<lparr>sf_app := Some a'\<rparr>) of
                    Inl e \<Rightarrow> Some (Inl e)
                  | Inr s' \<Rightarrow> frame_loop ops gss s')))"

definition run_frame :: "'a app_ops \<Rightarrow> frame_signal list list \<Rightarrow> 'a server_frame \<Rightarrow> 'a server_frame res option" where
  "run_frame ops gss s = (if sf_app s = None then Some (Inl Null_Deref) else frame_loop ops gss (femit F_Running s))"

definition fini_frame :: "'a app_ops \<Rightarrow> 'a server_frame \<Rightarrow> 'a server_frame res option" where
  "fini_frame ops s =
     (case sf_app s of
        None \<Rightarrow> Some (Inr s)
      | Some a \<Rightarrow>
          (case ap_stop ops a of
             None \<Rightarrow> None
           | Some (Inl e) \<Rightarrow> Some (Inl e)
           | Some (Inr _) \<Rightarrow> Some (Inr (femit F_Log_Shutdown ((femit F_App_Stop s)\<lparr>sf_app := None\<rparr>)))))"

text \<open>\<open>Run\<close> with the exit of the process behind it, which removes the file when it was
  registered for that. While the loop goes on there is no result yet: \<open>F_Ret 1\<close>.\<close>

definition frame_exit :: "int \<Rightarrow> 'a server_frame \<Rightarrow> frame_result \<times> 'a server_frame" where
  "frame_exit code s = (F_Exit code, if sf_atexit s then remove_pid_file s else s)"

definition frame_run ::
  "'a app_ops \<Rightarrow> frame_sys \<Rightarrow> string \<Rightarrow> string list \<Rightarrow> frame_signal list list \<Rightarrow> 'a server_frame \<Rightarrow>
     (frame_result \<times> 'a server_frame) res option" where
  "frame_run ops sys argv0 args gss s =
     (case init_frame ops sys argv0 args s of
        Inl e \<Rightarrow> Some (Inl e)
      | Inr (F_Exit code, s1) \<Rightarrow> Some (Inr (frame_exit code s1))
      | Inr (F_Ret ret, s1) \<Rightarrow>
          if ret < 0 then map_option (\<lambda>r. rbind r (\<lambda>s2. Inr (frame_exit (- 1) s2))) (fini_frame ops s1)
          else
            (case run_frame ops gss s1 of
               None \<Rightarrow> None
             | Some (Inl e) \<Rightarrow> Some (Inl e)
             | Some (Inr s2) \<Rightarrow>
                 if sf_shutdown s2 then map_option (\<lambda>r. rbind r (\<lambda>s3. Inr (frame_exit 0 s3))) (fini_frame ops s2)
                 else Some (Inr (F_Ret 1, s2))))"

end
