(* ===== verification/Utils_Props.thy ===== *)
theory Utils_Props
  imports Utils_Frame
begin

text \<open>
  What the helpers compute: the hash is FNV-1a with its published prime, the checks accept
  exactly the documented names, printing and reading numbers and connection headers round
  trip, and the two places where the code does not do what its comment or name says
  (\<open>BitSwap64\<close> on two set bits, \<open>ROUNDDOWN\<close>).
\<close>

section \<open>Hash and bit swap\<close>

text \<open>C39: \<open>Fnv64aHash\<close>, which replaces the multiplication by shifts and additions, is FNV-1a:
  xor with the byte, then multiplication by the 64-bit FNV prime.\<close>

theorem fnv64a_hash_reference:
  "fnv64a_hash buf = foldl (\<lambda>h b. (h XOR ucast b) * 0x100000001b3) 0xcbf29ce484222325 buf"
proof -
  have "fnv_step h b = (h XOR ucast b) * 0x100000001b3" for h :: "64 word" and b
    by (simp add: fnv_step_def Let_def push_bit_eq_mult algebra_simps)
  then have "fnv_step = (\<lambda>h b. (h XOR ucast b) * 0x100000001b3)" by (intro ext)
  then show ?thesis by (simp add: fnv64a_hash_def)
qed

lemma and_single_bit: "(w :: 64 word) AND 2 ^ m = (if bit w m then 2 ^ m else 0)"
  by (auto intro!: bit_eqI simp: bit_simps)

lemma single_bit_eq: "m < 64 \<Longrightarrow> (2 :: 64 word) ^ m = 2 ^ n \<longleftrightarrow> m = n"
  by (auto simp: bit_eq_iff bit_simps)

lemma single_bit_nz: "m < 64 \<Longrightarrow> (2 :: 64 word) ^ m \<noteq> 0"
  by (auto simp: bit_eq_iff bit_simps)

lemma bit_swap64_bits:
  assumes "0 \<le> m" "m < 64" "0 \<le> n" "n < 64" "m \<noteq> n"
  shows "bit (bit_swap64 w m n) k \<longleftrightarrow>
    (if \<not> bit w (nat m) \<and> \<not> bit w (nat n) \<or> k \<noteq> nat m \<and> k \<noteq> nat n then bit w k else \<not> bit w k)"
proof -
  have mn: "nat m < 64" "nat n < 64" "nat m \<noteq> nat n" using assms by auto
  have eq: "w AND 2 ^ nat m = w AND 2 ^ nat n \<longleftrightarrow> \<not> bit w (nat m) \<and> \<not> bit w (nat n)"
    unfolding and_single_bit
    using mn single_bit_eq [of "nat m" "nat n"] single_bit_nz [of "nat m"] single_bit_nz [of "nat n"]
    by (auto simp: eq_commute [of 0])
  have "bit_swap64 w m n = (if \<not> bit w (nat m) \<and> \<not> bit w (nat n) then w
      else w XOR (2 ^ nat m OR 2 ^ nat n))"
    using assms eq by (simp add: bit_swap64_def)
  then show ?thesis using mn by (auto simp: bit_simps)
qed

text \<open>\<open>BitSwap64\<close> of two different positions swaps the bits when they differ, and leaves two
  clear bits alone; two set bits it clears, where its comment says that equal bits are
  returned unchanged. All other bits are kept.\<close>

theorem bit_swap64_spec:
  assumes "0 \<le> m" "m < 64" "0 \<le> n" "n < 64" "m \<noteq> n"
  shows "bit (bit_swap64 w m n) k \<longleftrightarrow>
    (if k = nat m then bit w (nat n) \<and> \<not> bit w (nat m)
     else if k = nat n then bit w (nat m) \<and> \<not> bit w (nat n) else bit w k)"
  using assms by (auto simp: bit_swap64_bits)

theorem bit_swap64_spec_witness:
  "\<not> bit (bit_swap64 12 2 3) (nat 2) \<and> \<not> bit (bit_swap64 12 2 3) (nat 3)"
  using bit_swap64_spec [of 2 3 12 2] bit_swap64_spec [of 2 3 12 3] by (simp add: bit_simps)

section \<open>Decimal numbers\<close>

lemma digits_lt10: "d \<in> set (digits n) \<Longrightarrow> d < 10"
  by (induction n rule: digits.induct) (subst (asm) (2) digits.simps, auto split: if_splits)

lemma digits_ne: "digits n \<noteq> []"
  by (subst digits.simps) simp

lemma digits_length: "n < 10 ^ k \<Longrightarrow> 0 < k \<Longrightarrow> length (digits n) \<le> k"
proof (induction k arbitrary: n)
  case 0
  then show ?case by simp
next
  case (Suc k)
  show ?case
  proof (cases "n < 10")
    case True
    then show ?thesis by (subst digits.simps) simp
  next
    case False
    then have "0 < k" using Suc.prems(1) by (cases k) auto
    moreover have "n div 10 < 10 ^ k" using Suc.prems(1) by (simp add: less_mult_imp_div_less mult.commute)
    ultimately have "length (digits (n div 10)) \<le> k" using Suc.IH by blast
    then show ?thesis using False by (subst digits.simps) simp
  qed
qed

lemma unat_digit_char: "d < 10 \<Longrightarrow> unat (digit_char d) = 48 + d"
  by (simp add: digit_char_def unat_of_nat del: of_nat_add)

lemma foldl_digits:
  "\<forall>d\<in>set ds. d < 10 \<Longrightarrow>
   foldl (\<lambda>v b. 10 * v + (unat b - 48)) a (map digit_char ds) = foldl (\<lambda>v d. 10 * v + d) a ds"
  by (induction ds arbitrary: a) (simp_all add: unat_digit_char)

lemma digits_decode: "foldl (\<lambda>v d. 10 * v + d) 0 (digits n) = n"
proof (induction n rule: digits.induct)
  case (1 n)
  show ?case
  proof (cases "n < 10")
    case True
    then show ?thesis by (subst digits.simps) simp
  next
    case False
    then show ?thesis using 1 by (subst digits.simps) simp
  qed
qed

lemma digit_byte:
  assumes "d < 10"
  shows "is_digit (digit_char d)" "\<not> is_space (digit_char d)" "digit_char d \<noteq> 45" "digit_char d \<noteq> 43"
proof -
  have u: "uint (digit_char d) = 48 + int d" using unat_digit_char [OF assms] by (simp add: uint_nat)
  then show "is_digit (digit_char d)" using assms by (simp add: is_digit_def)
  show "\<not> is_space (digit_char d)" using u by (auto simp: is_space_def)
  show "digit_char d \<noteq> 45" "digit_char d \<noteq> 43" using u by auto
qed

lemma number_of_string: "to_number_u64 (to_string_u64 w) = Some w"
proof -
  define ds where "ds = map digit_char (digits (unat w))"
  have all: "b \<in> set ds \<Longrightarrow> is_digit b \<and> \<not> is_space b \<and> b \<noteq> 45 \<and> b \<noteq> 43" for b
    using digits_lt10 digit_byte by (auto simp: ds_def)
  have ne: "ds \<noteq> []" using digits_ne by (simp add: ds_def)
  then have hd: "\<not> is_space (hd ds)" "hd ds \<noteq> 45" "hd ds \<noteq> 43" using all hd_in_set by blast+
  have "dropWhile is_space ds = ds" using ne hd(1) by (cases ds) auto
  moreover have tw: "takeWhile is_digit ds = ds" using all by (simp add: takeWhile_eq_all_conv)
  moreover have "digits_value ds = unat w"
    unfolding digits_value_def ds_def using foldl_digits digits_lt10 digits_decode by simp
  moreover have "unat w < 2 ^ LENGTH(64)" by (rule unsigned_less)
  ultimately show ?thesis
    using ne hd(2,3) by (simp add: to_number_u64_def to_string_u64_def ds_def [symmetric] tw Let_def
      del: takeWhile_eq_all_conv)
qed

text \<open>The uid printed as the account name of a quick registration (\<open>ToString\<close>) is read back
  (\<open>ToNumber\<close>) as the same uid at login.\<close>

theorem to_number_to_string: "to_number_u64 (to_string_u64 w) = Some w"
  by (rule number_of_string)

section \<open>Names and passwords\<close>

lemma sint_byte: "sint (c :: byte) = (if uint c < 128 then uint c else uint c - 256)"
proof -
  have "sint c = take_bit 8 (uint c + 128) - 128"
    by (simp add: sint_uint signed_take_bit_eq_take_bit_shift)
  moreover note byte_range' [of c]
  ultimately show ?thesis
    using minus_mod_self2 [of "uint c + 128" 256] by (auto simp: take_bit_eq_mod not_less)
qed

definition letter :: "byte \<Rightarrow> bool" where
  "letter c \<longleftrightarrow> (65 \<le> uint c \<and> uint c \<le> 90) \<or> (97 \<le> uint c \<and> uint c \<le> 122)"

lemma not_letter_iff: "not_letter c \<longleftrightarrow> \<not> letter c"
  using byte_range' [of c] by (auto simp: not_letter_def letter_def sint_byte)

lemma not_alnum_iff: "not_alnum c \<longleftrightarrow> \<not> letter c \<and> \<not> is_digit c"
  using byte_range' [of c] by (auto simp: not_alnum_def letter_def is_digit_def sint_byte)

lemma check_chars_eq:
  "\<forall>i\<in>set is. i < length s \<Longrightarrow>
   check_chars s ret is = Inr (if \<exists>i\<in>set is. not_alnum (s ! i) then ret else 0)"
  by (induction "is") auto

lemma check_account_eq:
  "len = int (length account) \<Longrightarrow>
   check_account account len = Inr (
     if length account < 6 \<or> length account > 32 then - 1
     else if \<not> letter (account ! 0) then - 2
     else if \<exists>c\<in>set account. \<not> letter c \<and> \<not> is_digit c then - 3 else 0)"
proof -
  assume len: "len = int (length account)"
  show ?thesis
  proof (cases "length account < 6 \<or> length account > 32")
    case True
    then show ?thesis using len by (auto simp: check_account_def)
  next
    case False
    then have ne: "0 < length account" by linarith
    have "(\<exists>i\<in>set [1..<length account]. not_alnum (account ! i)) \<longleftrightarrow>
        (\<exists>c\<in>set account. \<not> letter c \<and> \<not> is_digit c)" if "letter (account ! 0)"
    proof
      assume "\<exists>c\<in>set account. \<not> letter c \<and> \<not> is_digit c"
      then obtain i where i: "i < length account" "\<not> letter (account ! i)" "\<not> is_digit (account ! i)"
        by (auto simp: in_set_conv_nth)
      then have "1 \<le> i" using that by (cases i) auto
      then show "\<exists>i\<in>set [1..<length account]. not_alnum (account ! i)"
        using i by (auto simp: not_alnum_iff)
    qed (auto simp: not_alnum_iff)
    then show ?thesis
      using False len ne rd_int [OF ne] check_chars_eq [of "[1..<length account]" account "- 3"]
      by (auto simp: check_account_def not_letter_iff)
  qed
qed

text \<open>A number is never a valid name.\<close>

lemma number_rejected:
  obtains r where "check_account (to_string_u64 w) (int (length (to_string_u64 w))) = Inr r" "r \<noteq> 0"
proof -
  have "\<not> letter (to_string_u64 w ! 0)"
  proof -
    have "to_string_u64 w ! 0 = digit_char (digits (unat w) ! 0)" using digits_ne [of "unat w"] by (simp add: to_string_u64_def)
    moreover have "digits (unat w) ! 0 < 10" using digits_ne [of "unat w"] by (intro digits_lt10 [where n = "unat w"] nth_mem) simp
    ultimately have "is_digit (to_string_u64 w ! 0)" using digit_byte(1) by simp
    then show ?thesis by (auto simp: letter_def is_digit_def)
  qed
  then show thesis using that check_account_eq [OF refl, of "to_string_u64 w"] by (auto split: if_splits)
qed

lemma accepted_chars:
  "check_account a (int (length a)) = Inr 0 \<Longrightarrow> length a \<le> 32 \<and> (\<forall>c\<in>set a. c \<noteq> 0)"
  "check_password p (int (length p)) = Inr 0 \<Longrightarrow> length p \<le> 16 \<and> (\<forall>c\<in>set p. c \<noteq> 0)"
proof -
  assume "check_account a (int (length a)) = Inr 0"
  then have "length a \<le> 32 \<and> (\<forall>c\<in>set a. letter c \<or> is_digit c)"
    using check_account_eq [OF refl, of a] by (auto split: if_splits)
  then show "length a \<le> 32 \<and> (\<forall>c\<in>set a. c \<noteq> 0)" by (auto simp: letter_def is_digit_def)
next
  assume p: "check_password p (int (length p)) = Inr 0"
  then have len: "length p \<le> 16" by (auto simp: check_password_def split: if_splits)
  have "check_chars p (- 2) [0..<length p] = Inr 0" using p by (auto simp: check_password_def split: if_splits)
  then have "\<forall>i<length p. \<not> not_alnum (p ! i)"
    using check_chars_eq [of "[0..<length p]" p "- 2"] by (auto split: if_splits)
  then have "\<forall>c\<in>set p. letter c \<or> is_digit c" by (auto simp: in_set_conv_nth not_alnum_iff)
  then show "length p \<le> 16 \<and> (\<forall>c\<in>set p. c \<noteq> 0)" using len by (auto simp: letter_def is_digit_def)
qed

text \<open>\<open>CheckAccount\<close> on a buffer that holds its \<open>len\<close> characters never reads outside it and
  returns 0 exactly for 6 to 32 letters and digits that start with a letter; otherwise the
  return value names the first rule broken.\<close>

theorem check_account_spec:
  "len = int (length account) \<Longrightarrow>
   check_account account len = Inr (
     if length account < 6 \<or> length account > 32 then - 1
     else if \<not> letter (account ! 0) then - 2
     else if \<exists>c\<in>set account. \<not> letter c \<and> \<not> is_digit c then - 3 else 0)"
  by (rule check_account_eq)

theorem check_account_spec_witness:
  "check_account (map of_nat [97, 98, 99, 49, 50, 51]) 6 = Inr 0"
  using check_account_spec [of 6 "map of_nat [97, 98, 99, 49, 50, 51]"]
  by (simp add: letter_def is_digit_def)

text \<open>Every password \<open>GenPassword8\<close> makes has eight digits and passes \<open>CheckPassword\<close>.\<close>

theorem gen_password8_accepted:
  "length rands = 8 \<Longrightarrow> \<forall>r\<in>set rands. 0 \<le> r \<Longrightarrow>
   length (gen_password8 rands) = 8 \<and> (\<forall>c\<in>set (gen_password8 rands). is_digit c) \<and>
   check_password (gen_password8 rands) 8 = Inr 0"
proof -
  assume len: "length rands = 8" and nn: "\<forall>r\<in>set rands. 0 \<le> r"
  have l: "length (gen_password8 rands) = 8" using len by (simp add: gen_password8_def)
  have dig: "\<forall>c\<in>set (gen_password8 rands). is_digit c"
  proof
    fix c assume "c \<in> set (gen_password8 rands)"
    then obtain r where r: "r \<in> set rands" "c = word_of_int (r smod 10 + 48)"
      using len by (auto simp: gen_password8_def)
    have eq: "r smod 10 = r mod 10" using nn r(1) by (simp add: cast_simps)
    have rg: "0 \<le> r mod 10" "r mod 10 < 10" by simp_all
    have "uint c = (r mod 10 + 48) mod 2 ^ LENGTH(8)"
      unfolding r(2) eq by (rule uint_word_of_int)
    also have "\<dots> = r mod 10 + 48" using rg by (intro mod_pos_pos_trivial) auto
    finally have "uint c = r mod 10 + 48" .
    then show "is_digit c" by (simp add: is_digit_def)
  qed
  have "\<not> not_alnum (gen_password8 rands ! i)" if "i < 8" for i
    using dig l that by (simp add: not_alnum_iff)
  then have "check_password (gen_password8 rands) 8 = Inr 0"
    using check_chars_eq [of "[0..<8]" "gen_password8 rands" "- 2"] l by (auto simp: check_password_def)
  then show ?thesis using l dig by blast
qed

theorem gen_password8_accepted_witness:
  "check_password (gen_password8 [15, 3, 7, 22, 0, 9, 101, 6]) 8 = Inr 0"
  using gen_password8_accepted [of "[15, 3, 7, 22, 0, 9, 101, 6]"] by simp

section \<open>Connection headers\<close>

lemma uint_byte_of_int: "uint (word_of_int x :: byte) = x mod 256"
  by (simp add: uint_word_of_int_eq take_bit_eq_mod)

lemma get_put_i32: "get_i32 (put_i32 v @ rest) = Inr (i32 v)"
proof -
  have db: "drop_bit 8 v = v div 256" "drop_bit 16 v = v div 65536" "drop_bit 24 v = v div 16777216"
    "take_bit 32 v = v mod 4294967296" by (simp_all add: drop_bit_eq_div take_bit_eq_mod)
  have "v mod 256 + 256 * (v div 256 mod 256) + 65536 * (v div 65536 mod 256) +
      16777216 * (v div 16777216 mod 256) = v mod 4294967296"
  proof -
    have "v mod 65536 = 256 * (v div 256 mod 256) + v mod 256"
      using zmod_zmult2_eq [of 256 v 256] by simp
    moreover have "v mod 16777216 = 65536 * (v div 65536 mod 256) + v mod 65536"
      using zmod_zmult2_eq [of 256 v 65536] by simp
    moreover have "v mod 4294967296 = 16777216 * (v div 16777216 mod 256) + v mod 16777216"
      using zmod_zmult2_eq [of 256 v 16777216] by simp
    ultimately show ?thesis by linarith
  qed
  then have "uint (word_of_int v :: byte) + 256 * uint (word_of_int (drop_bit 8 v) :: byte) +
      65536 * uint (word_of_int (drop_bit 16 v) :: byte) +
      16777216 * uint (word_of_int (drop_bit 24 v) :: byte) = take_bit 32 v"
    unfolding uint_byte_of_int db .
  moreover have "i32 (take_bit 32 v) = i32 v"
    by (simp add: i32_def signed_take_bit_take_bit)
  ultimately show ?thesis by (simp add: put_i32_def)
qed

lemma length_put_i32 [simp]: "length (put_i32 v) = 4"
  by (simp add: put_i32_def)

lemma drop_put_i32: "drop 4 (put_i32 v @ rest) = rest"
  by (simp add: put_i32_def)

definition cd_ok :: "conn_data \<Rightarrow> bool" where
  "cd_ok d \<longleftrightarrow> (\<forall>x\<in>{cd_conn_fd d, cd_player_idx d, cd_conn_cmd d}. - 2147483648 \<le> x \<and> x < 2147483648)"

lemma get_put_conn_data:
  assumes "cd_ok d"
  shows "get_conn_data_from_conn (put_conn_data d @ rest) = Inr d"
proof -
  have d8: "drop 8 xs = drop 4 (drop 4 xs)" for xs :: bytes by simp
  show ?thesis
    using assms unfolding get_conn_data_from_conn_def put_conn_data_def d8 append_assoc drop_put_i32
    by (simp add: get_put_i32 cd_ok_def i32_id)
qed

lemma length_put_conn_data [simp]: "length (put_conn_data d) = 12"
  by (simp add: put_conn_data_def)

lemma get_msg_from_conn_put [simp]: "get_msg_from_conn (put_conn_data d @ rest) = rest"
  by (simp add: get_msg_from_conn_def)

text \<open>A header written in front of a packet between connsvr and a game server is read back
  unchanged, together with the payload and its length.\<close>

theorem conn_packet_roundtrip:
  "cd_ok d \<Longrightarrow> length payload < 10240 \<Longrightarrow>
   get_conn_data_from_conn (put_conn_data d @ payload) = Inr d \<and>
   get_msg_from_conn (put_conn_data d @ payload) = payload \<and>
   get_msg_len_from_conn (int (length (put_conn_data d @ payload))) = int (length payload)"
  using get_put_conn_data [of d payload]
  by (simp add: get_msg_len_from_conn_def u64_def take_bit_int_eq_self i32_id)

theorem conn_packet_roundtrip_witness:
  "get_conn_data_from_conn (put_conn_data \<lparr>cd_conn_fd = 5, cd_player_idx = - 1, cd_conn_cmd = 2\<rparr> @ [1, 2, 3]) =
     Inr \<lparr>cd_conn_fd = 5, cd_player_idx = - 1, cd_conn_cmd = 2\<rparr>"
  using conn_packet_roundtrip [of "\<lparr>cd_conn_fd = 5, cd_player_idx = - 1, cd_conn_cmd = 2\<rparr>" "[1, 2, 3]"]
  by (simp add: cd_ok_def)

section \<open>Rounding\<close>

lemma and_not_mask: "(x :: int) AND NOT (2 ^ k - 1) = x - x mod 2 ^ k"
proof -
  have "push_bit k (drop_bit k x) = x AND NOT (mask k)"
    by (rule bit_eqI) (auto simp: bit_simps)
  then have "x AND NOT (mask k) = x - x mod 2 ^ k"
    using bits_ident [of k x] by (simp add: take_bit_eq_mod)
  then show ?thesis by (simp add: mask_eq_exp_minus_1)
qed

text \<open>For a width that is a power of two \<open>ROUNDUP\<close> is the least multiple of the width that is
  at least \<open>n\<close>, but \<open>ROUNDDOWN\<close> is the remainder \<open>n mod width\<close> instead of the multiple below \<open>n\<close>.\<close>

theorem roundup_rounddown_pow2:
  "width = 2 ^ k \<Longrightarrow>
   width dvd ROUNDUP n width \<and> n \<le> ROUNDUP n width \<and> ROUNDUP n width < n + width \<and>
   ROUNDDOWN n width = n mod width"
proof -
  assume w: "width = 2 ^ k"
  have up: "ROUNDUP n width = (n + width - 1) - (n + width - 1) mod width"
    by (simp add: ROUNDUP_def w and_not_mask)
  have "0 \<le> (n + width - 1) mod width" "(n + width - 1) mod width < width" using w by simp_all
  moreover have "width dvd (n + width - 1) - (n + width - 1) mod width" by simp
  moreover have "ROUNDDOWN n width = n AND mask k"
    by (simp add: ROUNDDOWN_def w mask_eq_exp_minus_1 not_eq_complement)
  then have "ROUNDDOWN n width = n mod width" by (simp add: w take_bit_eq_mask [symmetric] take_bit_eq_mod)
  ultimately show ?thesis unfolding up by simp
qed

theorem roundup_rounddown_pow2_witness:
  "4096 dvd ROUNDUP 5000 4096 \<and> ROUNDDOWN 5000 4096 = 904"
  using roundup_rounddown_pow2 [of 4096 12 5000] by simp

end
