(* ===== verification/Server_Frame_Props.thy ===== *)
theory Server_Frame_Props
  imports Server_Frame Utils_Props
begin

text \<open>
  What the frame around an application promises: it finds its command among the options, keeps one
  instance by its file, runs the application until the stop signal and finalises it once; and the
  commands on which it fails. The locale \<open>application\<close> is the contract of an application with an
  invariant.
\<close>

section \<open>Numbers in decimal\<close>

lemma digit_char_of:
  assumes "d < 10"
  shows "(of_char (char_of (48 + d) :: char) :: nat) = 48 + d"
  using assms by simp

lemma show_nat_chars:
  assumes "c \<in> set (show_nat n)"
  shows "is_digit_char c" "\<not> is_space_char c" "c \<noteq> CHR ''-''" "c \<noteq> CHR ''+''"
proof -
  obtain d :: nat where d: "d < 10" "c = char_of (48 + d)" using assms digits_lt10 by (auto simp: show_nat_def)
  have v: "(of_char c :: nat) = 48 + d" unfolding d(2) by (rule digit_char_of [OF d(1)])
  show "is_digit_char c" "\<not> is_space_char c" using v d(1) by (simp_all add: is_digit_char_def is_space_char_def)
  show "c \<noteq> CHR ''-''" "c \<noteq> CHR ''+''" using v by auto
qed

lemma foldl_show_nat:
  "\<forall>d\<in>set ds. d < 10 \<Longrightarrow>
   foldl (\<lambda>v c. 10 * v + (of_char c - 48)) a (map (\<lambda>d. char_of (48 + d) :: char) ds) = foldl (\<lambda>v d. 10 * v + d) a (ds :: nat list)"
  by (induction ds arbitrary: a) (simp_all add: digit_char_of)

lemma strtol10_show_nat: "strtol10 (show_nat n) = int n"
proof -
  let ?s = "show_nat n"
  have ne: "?s \<noteq> []" by (simp add: show_nat_def digits_ne)
  then have hd: "hd ?s \<in> set ?s" by simp
  note h = show_nat_chars [OF hd]
  have "dropWhile is_space_char ?s = ?s" using ne h(2) by (cases ?s) auto
  moreover have "takeWhile is_digit_char ?s = ?s" using show_nat_chars(1) by (simp add: takeWhile_eq_all_conv)
  moreover have "foldl (\<lambda>v c. 10 * v + (of_char c - 48)) 0 ?s = n"
    unfolding show_nat_def using foldl_show_nat [of "digits n" 0] digits_lt10 digits_decode by simp
  ultimately show ?thesis using h(3,4) by (simp add: strtol10_def Let_def del: takeWhile_eq_all_conv)
qed

lemma pid_length: "0 \<le> p \<Longrightarrow> p < 2147483648 \<Longrightarrow> 0 < length (show_int p) \<and> length (show_int p) \<le> 10"
  using digits_length [of "nat p" 10] digits_ne [of "nat p"] by (simp add: show_int_def show_nat_def)

section \<open>The file with the process id\<close>

text \<open>A process that writes its id and one that reads the file afterwards.\<close>

lemma running_pid_created:
  assumes p: "0 < fy_pid sys" "fy_pid sys < 2147483648" and f: "fy_creat sys (sf_pid_file s)" "fy_write sys"
    and r: "sf_pid_file t = sf_pid_file s" "sf_files t = sf_files (snd (create_pid_file sys s))"
      "fy_open_read sys' (sf_pid_file s)" "fy_read sys' (sf_pid_file s)"
  shows "get_running_pid sys' t = Inr (fy_pid sys)"
proof -
  let ?d = "show_int (fy_pid sys)"
  have len: "0 < length ?d" "length ?d \<le> 10" using pid_length [of "fy_pid sys"] p by simp_all
  have c: "sf_files t (sf_pid_file t) = Some ?d"
    using f len r(1,2) by (simp add: create_pid_file_def snprintf_def)
  have v: "strtol10 ?d = fy_pid sys" using p strtol10_show_nat by (simp add: show_int_def)
  have t: "take 16 ?d = ?d" "?d \<noteq> []" using len by simp_all
  have "fy_open_read sys' (sf_pid_file t)" "fy_read sys' (sf_pid_file t)" using r by simp_all
  then show ?thesis unfolding get_running_pid_def c using t len v p
    by (simp add: i32_id)
qed

text \<open>C32: The process id that a server writes into its file is the one a later command reads from it,
  so \<open>stop\<close> signals the server that runs.\<close>

theorem pid_file_roundtrip:
  assumes "0 < fy_pid sys" "fy_pid sys < 2147483648" "fy_creat sys (sf_pid_file s)" "fy_write sys"
    and "sf_pid_file t = sf_pid_file s" "sf_files t = sf_files (snd (create_pid_file sys s))"
      "fy_open_read sys' (sf_pid_file s)" "fy_read sys' (sf_pid_file s)"
  shows "kill_app sys' t = Inr (femit (F_Kill (fy_pid sys) Sig_Stop) t)"
proof -
  have "sf_files t (sf_pid_file t) \<noteq> None" using assms(3,5,6) by (simp add: create_pid_file_def Let_def)
  then show ?thesis using running_pid_created [OF assms] by (simp add: kill_app_def signal_app_def)
qed

definition plain_sys :: frame_sys where
  "plain_sys = \<lparr>fy_pid = 4242, fy_uid = 1000, fy_gid = 1000, fy_daemon = True, fy_open_read = \<lambda>_. True, fy_read = \<lambda>_. True,
     fy_creat = \<lambda>_. True, fy_write = True\<rparr>"

definition empty_frame :: "nat server_frame" where
  "empty_frame = (frame_statics Map.empty)\<lparr>sf_singleton := 1\<rparr>"

theorem pid_file_roundtrip_witness:
  "let s = empty_frame\<lparr>sf_pid_file := ''svr.pid''\<rparr>; t = s\<lparr>sf_files := sf_files (snd (create_pid_file plain_sys s))\<rparr> in
   kill_app plain_sys t = Inr (femit (F_Kill 4242 Sig_Stop) t)"
proof -
  let ?s = "empty_frame\<lparr>sf_pid_file := ''svr.pid''\<rparr>"
  let ?t = "?s\<lparr>sf_files := sf_files (snd (create_pid_file plain_sys ?s))\<rparr>"
  have f: "0 < fy_pid plain_sys" "fy_pid plain_sys < 2147483648" "fy_creat plain_sys (sf_pid_file ?s)" "fy_write plain_sys"
    "sf_pid_file ?t = sf_pid_file ?s" "sf_files ?t = sf_files (snd (create_pid_file plain_sys ?s))"
    "fy_open_read plain_sys (sf_pid_file ?s)" "fy_read plain_sys (sf_pid_file ?s)" "fy_pid plain_sys = 4242"
    by (simp_all add: plain_sys_def)
  show ?thesis unfolding Let_def using pid_file_roundtrip [OF f(1-8)] f(9) by simp
qed

section \<open>Options\<close>

datatype frame_opt = O_Daemon | O_Conf string | O_Script string | O_Path string | O_Level string

fun opt_words :: "frame_opt \<Rightarrow> string list" where
  "opt_words O_Daemon = [''-d'']"
| "opt_words (O_Conf x) = [''-c'', x]"
| "opt_words (O_Script x) = [''-s'', x]"
| "opt_words (O_Path x) = [''-p'', x]"
| "opt_words (O_Level x) = [''-l'', x]"

fun opt_pair :: "frame_opt \<Rightarrow> char \<times> string" where
  "opt_pair O_Daemon = (CHR ''d'', [])"
| "opt_pair (O_Conf x) = (CHR ''c'', x)"
| "opt_pair (O_Script x) = (CHR ''s'', x)"
| "opt_pair (O_Path x) = (CHR ''p'', x)"
| "opt_pair (O_Level x) = (CHR ''l'', x)"

abbreviation command_line :: "frame_opt list \<Rightarrow> string list" where
  "command_line os \<equiv> concat (map opt_words os)"

lemma getopt_opt:
  "getopt_all frame_options rest = (ps, used, others) \<Longrightarrow>
   getopt_all frame_options (opt_words o' @ rest) = (opt_pair o' # ps, opt_words o' @ used, others)"
  by (cases o') (simp_all add: is_option_def scan_arg_def frame_options_def)

lemma getopt_opts:
  "getopt_all frame_options rest = (ps, used, others) \<Longrightarrow>
   getopt_all frame_options (command_line os @ rest) = (map opt_pair os @ ps, command_line os @ used, others)"
proof (induction os)
  case (Cons o' os)
  from getopt_opt [OF Cons.IH [OF Cons.prems]] show ?case by simp
qed simp

lemma getopt_command:
  assumes "\<not> is_option cmd"
  shows "getopt_all frame_options (command_line os1 @ cmd # command_line os2) =
    (map opt_pair (os1 @ os2), command_line os1 @ command_line os2, [cmd])"
proof -
  have nd: "cmd \<noteq> ''--''" using assms by (auto simp: is_option_def)
  have "getopt_all frame_options (command_line os2) = (map opt_pair os2, command_line os2, [])"
    using getopt_opts [of "[]" "[]" "[]" "[]" os2] by simp
  then have "getopt_all frame_options (cmd # command_line os2) = (map opt_pair os2, command_line os2, [cmd])"
    using assms nd by simp
  from getopt_opts [OF this, of os1] show ?thesis by simp
qed

text \<open>What a list of options sets, the last one of a kind winning.\<close>

fun set_opt :: "frame_opt \<Rightarrow> 'a server_frame \<Rightarrow> 'a server_frame" where
  "set_opt O_Daemon s = s\<lparr>sf_daemon := True\<rparr>"
| "set_opt (O_Conf x) s = s\<lparr>sf_conf := x\<rparr>"
| "set_opt (O_Script x) s = s\<lparr>sf_script := x\<rparr>"
| "set_opt (O_Path x) s = s\<lparr>sf_log_path := x\<rparr>"
| "set_opt (O_Level x) s = s\<lparr>sf_log_level := log_level_of x\<rparr>"

fun opt_short :: "frame_opt \<Rightarrow> bool" where
  "opt_short O_Daemon \<longleftrightarrow> True"
| "opt_short (O_Conf x) \<longleftrightarrow> length x < 128"
| "opt_short (O_Script x) \<longleftrightarrow> length x < 128"
| "opt_short (O_Path x) \<longleftrightarrow> length x < 128"
| "opt_short (O_Level x) \<longleftrightarrow> True"

lemma apply_opt_short: "opt_short o' \<Longrightarrow> apply_opt argv0 (opt_pair o') s = Inr (set_opt o' s)"
  by (cases o') (simp_all add: apply_opt_def strcpy_name_def FILE_NAME_SIZE_def)

lemma apply_opts_short: "\<forall>o'\<in>set os. opt_short o' \<Longrightarrow> apply_opts argv0 (map opt_pair os) s = Inr (foldl (\<lambda>s o'. set_opt o' s) s os)"
  by (induction os arbitrary: s) (simp_all add: apply_opt_short)

lemma parse_command:
  assumes "\<not> is_option cmd" "\<forall>o'\<in>set (os1 @ os2). opt_short o'" "s1 = foldl (\<lambda>s o'. set_opt o' s) s (os1 @ os2)"
  shows "parse_param argv0 (command_line os1 @ cmd # command_line os2) s =
    Inr (argv0 # command_line os1 @ command_line os2 @ [cmd], s1\<lparr>sf_log_name := take 126 (sf_log_path s1 @ ''/'' @ sf_name s1)\<rparr>)"
  using getopt_command [OF assms(1), of os1 os2] apply_opts_short [OF assms(2), of argv0 s] assms(3)
  by (simp add: parse_param_def snprintf_def FILE_NAME_SIZE_def)

text \<open>The command may stand anywhere among the options: after parsing it is the last argument, and
  the settings are those of the options before and after it, in their order, the last of a kind
  winning.\<close>

theorem command_anywhere:
  assumes "\<not> is_option cmd" "\<forall>o'\<in>set (os1 @ os2). opt_short o'"
  shows "\<exists>argv s'. parse_param argv0 (command_line os1 @ cmd # command_line os2) s = Inr (argv, s') \<and> last argv = cmd \<and>
    s'\<lparr>sf_log_name := sf_log_name s\<rparr> = foldl (\<lambda>s o'. set_opt o' s) s (os1 @ os2)\<lparr>sf_log_name := sf_log_name s\<rparr>"
  using parse_command [OF assms refl, of argv0 s] by simp

theorem command_anywhere_witness:
  "\<exists>argv s'. parse_param ''svr'' [''-d'', ''start'', ''-c'', ''a'', ''-c'', ''b''] empty_frame = Inr (argv, s') \<and>
     last argv = ''start'' \<and> sf_daemon s' \<and> sf_conf s' = ''b''"
proof -
  have o: "\<not> is_option ''start''" "\<forall>o'\<in>set ([O_Daemon] @ [O_Conf ''a'', O_Conf ''b'']). opt_short o'"
    by (simp_all add: is_option_def)
  obtain argv s' where p: "parse_param ''svr'' [''-d'', ''start'', ''-c'', ''a'', ''-c'', ''b''] empty_frame = Inr (argv, s')"
    "last argv = ''start''" "s'\<lparr>sf_log_name := sf_log_name empty_frame\<rparr> =
      empty_frame\<lparr>sf_daemon := True, sf_conf := ''b''\<rparr>\<lparr>sf_log_name := sf_log_name empty_frame\<rparr>"
    using command_anywhere [OF o, of "''svr''" empty_frame] by auto
  have "sf_daemon s' = sf_daemon (s'\<lparr>sf_log_name := sf_log_name empty_frame\<rparr>)"
    "sf_conf s' = sf_conf (s'\<lparr>sf_log_name := sf_log_name empty_frame\<rparr>)" by simp_all
  then have "sf_daemon s'" "sf_conf s' = ''b''" unfolding p(3) by simp_all
  then show ?thesis using p(1,2) by blast
qed

lemma apply_opts_app: "apply_opts argv0 ps s = Inr s' \<Longrightarrow> sf_app s' = sf_app s"
proof (induction ps arbitrary: s)
  case (Cons p ps)
  obtain s1 where s1: "apply_opt argv0 p s = Inr s1" "apply_opts argv0 ps s1 = Inr s'"
    using Cons.prems by (auto simp: rbind_eq_Inr_iff)
  have "sf_app s1 = sf_app s"
    using s1(1) by (auto simp: apply_opt_def rbind_eq_Inr_iff femit_def split: prod.splits if_splits)
  with Cons.IH [OF s1(2)] show ?case by simp
qed simp

lemma parse_param_app: "parse_param argv0 args s = Inr (argv, s') \<Longrightarrow> sf_app s' = sf_app s"
  by (auto simp: parse_param_def rbind_eq_Inr_iff split: prod.splits dest: apply_opts_app)

section \<open>An application with an invariant\<close>

text \<open>The contract of an application: its initialisation establishes an invariant, and its loop and a
  reload keep it whenever they return.\<close>

locale application =
  fixes ops :: "'a app_ops" and inv :: "'a \<Rightarrow> bool"
  assumes init_law: "ap_instance ops = Some a \<Longrightarrow> ap_init ops a = Inr (r, a') \<Longrightarrow> 0 \<le> r \<Longrightarrow> inv a'"
    and run_law: "inv a \<Longrightarrow> ap_run ops a = Some (Inr a') \<Longrightarrow> inv a'"
    and reload_law: "inv a \<Longrightarrow> ap_reload ops a = Inr a' \<Longrightarrow> inv a'"
begin

definition app_inv :: "'a server_frame \<Rightarrow> bool" where
  "app_inv s \<longleftrightarrow> (\<forall>a. sf_app s = Some a \<longrightarrow> inv a)"

lemma signals_keep: "app_inv s \<Longrightarrow> handle_signals ops gs s = Inr s' \<Longrightarrow> app_inv s'"
proof (induction gs arbitrary: s)
  case (Cons g gs)
  obtain s1 where s1: "signal_handler ops g s = Inr s1" "handle_signals ops gs s1 = Inr s'"
    using Cons.prems(2) by (auto simp: rbind_eq_Inr_iff)
  have "app_inv s1"
    using s1(1) Cons.prems(1) reload_law
    by (auto simp: signal_handler_def app_inv_def rbind_eq_Inr_iff split: frame_signal.splits option.splits)
  from Cons.IH [OF this s1(2)] show ?case .
qed simp

lemma loop_keeps: "app_inv s \<Longrightarrow> frame_loop ops gss s = Some (Inr s') \<Longrightarrow> app_inv s'"
proof (induction gss arbitrary: s)
  case (Cons gs gss)
  show ?case
  proof (cases "sf_shutdown s")
    case True
    then show ?thesis using Cons.prems by simp
  next
    case False
    obtain a a' s1 where st: "sf_app s = Some a" "ap_run ops a = Some (Inr a')"
      "handle_signals ops gs ((femit F_App_Run s)\<lparr>sf_app := Some a'\<rparr>) = Inr s1" "frame_loop ops gss s1 = Some (Inr s')"
      using Cons.prems(2) False by (auto split: option.splits sum.splits)
    have "inv a'" using run_law [OF _ st(2)] Cons.prems(1) st(1) by (simp add: app_inv_def)
    then have "app_inv ((femit F_App_Run s)\<lparr>sf_app := Some a'\<rparr>)" by (simp add: app_inv_def)
    from Cons.IH [OF signals_keep [OF this st(3)] st(4)] show ?thesis .
  qed
qed simp

lemma start_establishes:
  "sf_app s = None \<Longrightarrow> start_frame ops sys s = Inr (F_Ret r, s') \<Longrightarrow> 0 \<le> r \<Longrightarrow> app_inv s'"
  using init_law
  by (auto simp: start_frame_def app_inv_def rbind_eq_Inr_iff Let_def split: if_splits prod.splits option.splits)

lemma init_establishes:
  assumes "sf_app s = None" "init_frame ops sys argv0 args s = Inr (F_Ret r, s')" "0 \<le> r"
  shows "app_inv s'"
proof -
  obtain argv s1 where p: "parse_param argv0 args
      (s\<lparr>sf_name := argv0, sf_pid_file := snprintf FILE_NAME_SIZE (argv0 @ ''.pid'')\<rparr>) = Inr (argv, s1)"
    and st: "start_frame ops sys s1 = Inr (F_Ret r, s')"
    using assms(2,3) by (auto simp: init_frame_def rbind_eq_Inr_iff Let_def split: if_splits option.splits)
  have "sf_app s1 = None" using parse_param_app [OF p] assms(1) by simp
  from start_establishes [OF this st assms(3)] show ?thesis .
qed

text \<open>While the server runs the invariant holds.\<close>

lemma run_keeps:
  assumes "sf_app s = None" "frame_run ops sys argv0 args gss s = Some (Inr (F_Ret 1, s'))"
  shows "app_inv s'"
proof -
  obtain r s1 where i: "init_frame ops sys argv0 args s = Inr (F_Ret r, s1)" "0 \<le> r" "run_frame ops gss s1 = Some (Inr s')"
    using assms(2)
    by (auto simp: frame_run_def frame_exit_def map_option_case rbind_eq_Inr_iff
        split: sum.splits prod.splits frame_result.splits if_splits option.splits)
  have "app_inv (femit F_Running s1)" using init_establishes [OF assms(1) i(1,2)] by (simp add: app_inv_def femit_def)
  from loop_keeps [OF this] i(3) show ?thesis by (simp add: run_frame_def split: if_splits)
qed

end

section \<open>The life of a server\<close>

definition app_total :: "'a app_ops \<Rightarrow> ('a \<Rightarrow> bool) \<Rightarrow> bool" where
  "app_total ops I \<longleftrightarrow> (\<forall>a. I a \<longrightarrow> (\<exists>a'. ap_run ops a = Some (Inr a') \<and> I a') \<and>
     (\<exists>a'. ap_reload ops a = Inr a' \<and> I a') \<and> (\<exists>a'. ap_stop ops a = Some (Inr a')))"

lemma app_totalD:
  assumes "app_total ops I" "I a"
  obtains a1 a2 a3 where "ap_run ops a = Some (Inr a1)" "I a1" "ap_reload ops a = Inr a2" "I a2" "ap_stop ops a = Some (Inr a3)"
  using assms unfolding app_total_def by blast

text \<open>What happened to the application.\<close>

definition app_life :: "frame_effect list \<Rightarrow> frame_effect list" where
  "app_life es = filter (\<lambda>e. e = F_App_Run \<or> e = F_App_Stop) es"

lemma app_life_simps [simp]:
  "app_life [] = []" "app_life (a @ b) = app_life a @ app_life b"
  "app_life (e # es) = (if e = F_App_Run \<or> e = F_App_Stop then e # app_life es else app_life es)"
  by (simp_all add: app_life_def)

lemma handle_signals_total:
  assumes "app_total ops I"
  shows "sf_app s = Some a \<Longrightarrow> I a \<Longrightarrow>
    \<exists>a'. handle_signals ops gs s = Inr (s\<lparr>sf_app := Some a', sf_shutdown := sf_shutdown s \<or> Sig_Stop \<in> set gs\<rparr>) \<and> I a'"
proof (induction gs arbitrary: s a)
  case Nil
  have "handle_signals ops [] s = Inr (s\<lparr>sf_app := Some a, sf_shutdown := sf_shutdown s \<or> Sig_Stop \<in> set []\<rparr>)"
    using Nil(1) by (cases s) simp
  with Nil(2) show ?case by blast
next
  case (Cons g gs)
  show ?case
  proof (cases g)
    case Sig_Stop
    have "\<exists>a'. handle_signals ops gs (s\<lparr>sf_shutdown := True\<rparr>) = Inr (s\<lparr>sf_shutdown := True\<rparr>
        \<lparr>sf_app := Some a', sf_shutdown := sf_shutdown (s\<lparr>sf_shutdown := True\<rparr>) \<or> Sig_Stop \<in> set gs\<rparr>) \<and> I a'"
      by (rule Cons.IH) (use Cons.prems in simp_all)
    then show ?thesis using Sig_Stop by (simp add: signal_handler_def)
  next
    case Sig_Reload
    obtain a2 where a2: "ap_reload ops a = Inr a2" "I a2" by (rule app_totalD [OF assms Cons.prems(2)])
    have "\<exists>a'. handle_signals ops gs (s\<lparr>sf_app := Some a2\<rparr>) = Inr (s\<lparr>sf_app := Some a2\<rparr>
        \<lparr>sf_app := Some a', sf_shutdown := sf_shutdown (s\<lparr>sf_app := Some a2\<rparr>) \<or> Sig_Stop \<in> set gs\<rparr>) \<and> I a'"
      by (rule Cons.IH) (use a2 in simp_all)
    then show ?thesis using Sig_Reload a2(1) Cons.prems(1) by (simp add: signal_handler_def)
  qed
qed

lemma frame_loop_stopped: "sf_shutdown s \<Longrightarrow> frame_loop ops gss s = Some (Inr s)"
  by (cases gss) simp_all

lemma frame_loop_total:
  assumes tot: "app_total ops I" and stop: "Sig_Stop \<in> set gs"
  shows "sf_app s = Some a \<Longrightarrow> I a \<Longrightarrow> \<not> sf_shutdown s \<Longrightarrow> Sig_Stop \<notin> set (concat gss) \<Longrightarrow>
    \<exists>s' a'. frame_loop ops (gss @ gs # rest) s = Some (Inr s') \<and> sf_app s' = Some a' \<and> I a' \<and> sf_shutdown s' \<and>
      app_life (sf_out s') = app_life (sf_out s) @ replicate (length gss + 1) F_App_Run \<and>
      sf_files s' = sf_files s \<and> sf_pid_file s' = sf_pid_file s \<and> sf_atexit s' = sf_atexit s"
proof (induction gss arbitrary: s a)
  case Nil
  obtain a1 where a1: "ap_run ops a = Some (Inr a1)" "I a1" by (rule app_totalD [OF tot Nil.prems(2)])
  let ?s = "(femit F_App_Run s)\<lparr>sf_app := Some a1\<rparr>"
  have "\<exists>a'. handle_signals ops gs ?s = Inr (?s\<lparr>sf_app := Some a', sf_shutdown := sf_shutdown ?s \<or> Sig_Stop \<in> set gs\<rparr>) \<and> I a'"
    by (rule handle_signals_total [OF tot]) (use a1(2) in simp_all)
  then obtain a2 where a2: "handle_signals ops gs ?s = Inr (?s\<lparr>sf_app := Some a2, sf_shutdown := True\<rparr>)" "I a2"
    using stop by auto
  then show ?case using Nil.prems a1(1) by (simp add: frame_loop_stopped femit_def)
next
  case (Cons g gss)
  obtain a1 where a1: "ap_run ops a = Some (Inr a1)" "I a1" by (rule app_totalD [OF tot Cons.prems(2)])
  let ?s = "(femit F_App_Run s)\<lparr>sf_app := Some a1\<rparr>"
  have "\<exists>a'. handle_signals ops g ?s = Inr (?s\<lparr>sf_app := Some a', sf_shutdown := sf_shutdown ?s \<or> Sig_Stop \<in> set g\<rparr>) \<and> I a'"
    by (rule handle_signals_total [OF tot]) (use a1(2) in simp_all)
  then obtain a2 where a2: "handle_signals ops g ?s = Inr (?s\<lparr>sf_app := Some a2, sf_shutdown := False\<rparr>)" "I a2"
    using Cons.prems(3,4) by (auto simp: femit_def)
  let ?t = "?s\<lparr>sf_app := Some a2, sf_shutdown := False\<rparr>"
  have "\<exists>s' a'. frame_loop ops (gss @ gs # rest) ?t = Some (Inr s') \<and> sf_app s' = Some a' \<and> I a' \<and> sf_shutdown s' \<and>
      app_life (sf_out s') = app_life (sf_out ?t) @ replicate (length gss + 1) F_App_Run \<and>
      sf_files s' = sf_files ?t \<and> sf_pid_file s' = sf_pid_file ?t \<and> sf_atexit s' = sf_atexit ?t"
    by (rule Cons.IH) (use a2(2) Cons.prems(4) in simp_all)
  then show ?case using Cons.prems(1,3) a1(1) a2(1) by (simp add: femit_def)
qed

abbreviation pid_path :: "string \<Rightarrow> string" where
  "pid_path argv0 \<equiv> take 127 (argv0 @ ''.pid'')"

lemma set_opts_keep:
  "sf_app (foldl (\<lambda>s o'. set_opt o' s) s os) = sf_app s" "sf_pid_file (foldl (\<lambda>s o'. set_opt o' s) s os) = sf_pid_file s"
  "sf_files (foldl (\<lambda>s o'. set_opt o' s) s os) = sf_files s" "sf_out (foldl (\<lambda>s o'. set_opt o' s) s os) = sf_out s"
  "sf_shutdown (foldl (\<lambda>s o'. set_opt o' s) s os) = sf_shutdown s" "sf_name (foldl (\<lambda>s o'. set_opt o' s) s os) = sf_name s"
  "sf_atexit (foldl (\<lambda>s o'. set_opt o' s) s os) = sf_atexit s"
proof -
  have k: "sf_app (set_opt o' s) = sf_app s \<and> sf_pid_file (set_opt o' s) = sf_pid_file s \<and> sf_files (set_opt o' s) = sf_files s \<and>
    sf_out (set_opt o' s) = sf_out s \<and> sf_shutdown (set_opt o' s) = sf_shutdown s \<and> sf_name (set_opt o' s) = sf_name s \<and>
    sf_atexit (set_opt o' s) = sf_atexit s" for o' and s :: "'a server_frame" by (cases o') simp_all
  show "sf_app (foldl (\<lambda>s o'. set_opt o' s) s os) = sf_app s" "sf_pid_file (foldl (\<lambda>s o'. set_opt o' s) s os) = sf_pid_file s"
    "sf_files (foldl (\<lambda>s o'. set_opt o' s) s os) = sf_files s" "sf_out (foldl (\<lambda>s o'. set_opt o' s) s os) = sf_out s"
    "sf_shutdown (foldl (\<lambda>s o'. set_opt o' s) s os) = sf_shutdown s" "sf_name (foldl (\<lambda>s o'. set_opt o' s) s os) = sf_name s"
    "sf_atexit (foldl (\<lambda>s o'. set_opt o' s) s os) = sf_atexit s"
    by (induction os arbitrary: s) (simp_all add: k)
qed

text \<open>The frame as a command finds it after parsing.\<close>

lemma init_frame_command:
  assumes "\<not> is_option cmd" "\<forall>o'\<in>set (os1 @ os2). opt_short o'"
  obtains s1 where
    "parse_param argv0 (command_line os1 @ cmd # command_line os2)
       (s\<lparr>sf_name := argv0, sf_pid_file := snprintf FILE_NAME_SIZE (argv0 @ ''.pid'')\<rparr>) =
     Inr (argv0 # command_line os1 @ command_line os2 @ [cmd], s1)"
    "sf_app s1 = sf_app s" "sf_pid_file s1 = pid_path argv0" "sf_files s1 = sf_files s" "sf_out s1 = sf_out s"
    "sf_shutdown s1 = sf_shutdown s" "sf_name s1 = argv0" "sf_atexit s1 = sf_atexit s"
proof -
  let ?s = "s\<lparr>sf_name := argv0, sf_pid_file := snprintf FILE_NAME_SIZE (argv0 @ ''.pid'')\<rparr>"
  let ?t = "foldl (\<lambda>s o'. set_opt o' s) ?s (os1 @ os2)"
  show thesis
    by (rule that [OF parse_command [OF assms refl, of argv0 ?s]])
      (simp_all add: set_opts_keep snprintf_def FILE_NAME_SIZE_def)
qed

lemma start_total:
  assumes s: "sf_app s = None" "\<not> sf_shutdown s" "sf_files s (sf_pid_file s) = None"
    and sys: "fy_daemon sys" "fy_creat sys (sf_pid_file s)" and app: "ap_instance ops = Some a0" "ap_init ops a0 = Inr (0, a1)"
  obtains s' content where "start_frame ops sys s = Inr (F_Ret 0, s')" "sf_app s' = Some a1" "\<not> sf_shutdown s'" "sf_atexit s'"
    "sf_files s' = (sf_files s)(sf_pid_file s \<mapsto> content)" "sf_pid_file s' = sf_pid_file s" "app_life (sf_out s') = app_life (sf_out s)"
proof -
  let ?s1 = "(if sf_daemon s then femit F_Daemon s else s)\<lparr>sf_uid := fy_uid sys, sf_gid := fy_gid sys\<rparr>"
  let ?content = "if fy_write sys then snprintf 16 (show_int (fy_pid sys)) else []"
  let ?s2 = "?s1\<lparr>sf_files := (sf_files s)(sf_pid_file s \<mapsto> ?content)\<rparr>"
  let ?s3 = "(init_log (?s2\<lparr>sf_atexit := True\<rparr>))\<lparr>sf_app := Some a1\<rparr>"
  have "check_for_pid_file sys ?s1 = Inr 0" using s(3) by (simp add: check_for_pid_file_def get_running_pid_def femit_def)
  moreover have "create_pid_file sys ?s1 = (0, ?s2)" using sys(2) by (simp add: create_pid_file_def femit_def Let_def)
  ultimately have st: "start_frame ops sys s = Inr (F_Ret 0, ?s3)"
    using sys(1) app unfolding start_frame_def Let_def by simp
  show thesis
    by (rule that [OF st, of ?content]) (use s in \<open>simp_all add: init_log_def femit_def\<close>)
qed

lemma is_option_commands: "\<not> is_option ''start''" "\<not> is_option ''stop''" "\<not> is_option ''reload''" "\<not> is_option ''clean''"
  by (simp_all add: is_option_def)

text \<open>A first start without options, followed through one pass.\<close>

lemma first_pass:
  assumes app: "ap_instance ops = Some a" "ap_init ops a = Inr (0, a0)" "ap_run ops a0 = Some (Inr a1)"
  obtains s' where "frame_run ops plain_sys name [''start''] [[]] (frame_statics Map.empty) = Some (Inr (F_Ret 1, s'))" "sf_app s' = Some a1"
proof -
  let ?s = "frame_statics Map.empty :: 'a server_frame"
  have o: "\<forall>o'\<in>set ([] @ []). opt_short o'" by simp
  obtain s1 where p: "parse_param name (command_line [] @ ''start'' # command_line [])
       (?s\<lparr>sf_name := name, sf_pid_file := snprintf FILE_NAME_SIZE (name @ ''.pid'')\<rparr>) =
     Inr (name # command_line [] @ command_line [] @ [''start''], s1)"
    and s1: "sf_app s1 = None" "sf_files s1 = Map.empty" "\<not> sf_shutdown s1"
    by (rule init_frame_command [OF is_option_commands(1) o, where s = ?s and ?argv0.0 = name]) (simp add: frame_statics_def)
  have s1': "sf_files s1 (sf_pid_file s1) = None" "fy_creat plain_sys (sf_pid_file s1)" "fy_daemon plain_sys"
    using s1(2) by (simp_all add: plain_sys_def)
  obtain s2 where s2: "start_frame ops plain_sys s1 = Inr (F_Ret 0, s2)" "sf_app s2 = Some a0" "\<not> sf_shutdown s2"
    by (rule start_total [OF s1(1,3) s1'(1,3,2) app(1,2)]) blast
  have i: "init_frame ops plain_sys name [''start''] ?s = Inr (F_Ret 0, s2)" using p s2(1) by (simp add: init_frame_def)
  let ?s3 = "(femit F_App_Run (femit F_Running s2))\<lparr>sf_app := Some a1\<rparr>"
  have "frame_run ops plain_sys name [''start''] [[]] ?s = Some (Inr (F_Ret 1, ?s3))"
    using i s2(2,3) app(3) by (simp add: frame_run_def run_frame_def femit_def)
  then show thesis by (rule that) simp
qed

text \<open>C22: The life of a server. Started with its command anywhere among the options, it initialises the
  application once, runs it once per pass until the end of the pass in which the stop signal
  arrives, finalises it once, exits with 0, and leaves the files as they were: its file with the
  process id is gone. Reload signals do not end it.\<close>

theorem frame_lifecycle:
  assumes opts: "\<forall>o'\<in>set (os1 @ os2). opt_short o'"
    and s: "sf_app s = None" "\<not> sf_shutdown s" "app_life (sf_out s) = []" "sf_files s (pid_path argv0) = None"
    and sys: "fy_daemon sys" "fy_creat sys (pid_path argv0)"
    and app: "ap_instance ops = Some a0" "ap_init ops a0 = Inr (0, a1)" "I a1" "app_total ops I"
    and sigs: "Sig_Stop \<notin> set (concat gss)" "Sig_Stop \<in> set gs"
  shows "\<exists>s'. frame_run ops sys argv0 (command_line os1 @ ''start'' # command_line os2) (gss @ gs # rest) s = Some (Inr (F_Exit 0, s')) \<and>
    app_life (sf_out s') = replicate (length gss + 1) F_App_Run @ [F_App_Stop] \<and> sf_app s' = None \<and> sf_files s' = sf_files s"
proof -
  obtain s1 where p: "parse_param argv0 (command_line os1 @ ''start'' # command_line os2)
       (s\<lparr>sf_name := argv0, sf_pid_file := snprintf FILE_NAME_SIZE (argv0 @ ''.pid'')\<rparr>) =
     Inr (argv0 # command_line os1 @ command_line os2 @ [''start''], s1)"
    and s1: "sf_app s1 = sf_app s" "sf_pid_file s1 = pid_path argv0" "sf_files s1 = sf_files s" "sf_out s1 = sf_out s"
      "sf_shutdown s1 = sf_shutdown s"
    by (rule init_frame_command [OF is_option_commands(1) opts])
  have s1': "sf_app s1 = None" "\<not> sf_shutdown s1" "sf_files s1 (sf_pid_file s1) = None" "fy_creat sys (sf_pid_file s1)"
    using s1 s sys(2) by simp_all
  obtain s2 content where st: "start_frame ops sys s1 = Inr (F_Ret 0, s2)"
    and s2: "sf_app s2 = Some a1" "\<not> sf_shutdown s2" "sf_atexit s2" "sf_files s2 = (sf_files s1)(sf_pid_file s1 \<mapsto> content)"
      "sf_pid_file s2 = sf_pid_file s1" "app_life (sf_out s2) = app_life (sf_out s1)"
    by (rule start_total [OF s1'(1-3) sys(1) s1'(4) app(1,2)])
  have i: "init_frame ops sys argv0 (command_line os1 @ ''start'' # command_line os2) s = Inr (F_Ret 0, s2)"
    unfolding init_frame_def p using st by simp
  have s2': "sf_app (femit F_Running s2) = Some a1" "\<not> sf_shutdown (femit F_Running s2)" using s2 by (simp_all add: femit_def)
  obtain s3 a3 where l: "frame_loop ops (gss @ gs # rest) (femit F_Running s2) = Some (Inr s3)"
    and s3: "sf_app s3 = Some a3" "I a3" "sf_shutdown s3"
      "app_life (sf_out s3) = app_life (sf_out (femit F_Running s2)) @ replicate (length gss + 1) F_App_Run"
      "sf_files s3 = sf_files s2" "sf_pid_file s3 = sf_pid_file s2" "sf_atexit s3 = sf_atexit s2"
    using frame_loop_total [OF app(4) sigs(2) s2'(1) app(3) s2'(2) sigs(1), of rest] by (auto simp: femit_def)
  obtain a4 where a4: "ap_stop ops a3 = Some (Inr a4)" by (rule app_totalD [OF app(4) s3(2)])
  let ?s4 = "femit F_Log_Shutdown ((femit F_App_Stop s3)\<lparr>sf_app := None\<rparr>)"
  have f: "fini_frame ops s3 = Some (Inr ?s4)" using s3(1) a4 by (simp add: fini_frame_def)
  have "frame_run ops sys argv0 (command_line os1 @ ''start'' # command_line os2) (gss @ gs # rest) s =
      Some (Inr (F_Exit 0, remove_pid_file ?s4))"
    using i s2(1,3) l s3(3,7) f by (simp add: frame_run_def run_frame_def frame_exit_def femit_def)
  moreover have "sf_files (remove_pid_file ?s4) = sf_files s"
    using s2(4,5) s3(5,6) s1(2,3) s(4) by (simp add: remove_pid_file_def femit_def fun_upd_idem)
  moreover have "app_life (sf_out (remove_pid_file ?s4)) = replicate (length gss + 1) F_App_Run @ [F_App_Stop]"
    using s3(4) s2(6) s1(4) s(3) by (simp add: remove_pid_file_def femit_def)
  ultimately show ?thesis by (simp add: remove_pid_file_def femit_def)
qed

definition count_app :: "nat app_ops" where
  "count_app = \<lparr>ap_instance = Some 0, ap_init = \<lambda>n. Inr (0, n), ap_run = \<lambda>n. Some (Inr (n + 1)),
     ap_stop = \<lambda>n. Some (Inr n), ap_reload = \<lambda>n. Inr n, ap_clean = \<lambda>n. Inr n\<rparr>"

theorem frame_lifecycle_witness:
  "\<exists>s'. frame_run count_app plain_sys ''./svr'' [''-d'', ''start'', ''-c'', ''svr.conf''] [[], [Sig_Reload], [Sig_Stop], []] empty_frame =
      Some (Inr (F_Exit 0, s')) \<and> app_life (sf_out s') = [F_App_Run, F_App_Run, F_App_Run, F_App_Stop] \<and> sf_files s' = Map.empty"
proof -
  have o: "\<forall>o'\<in>set ([O_Daemon] @ [O_Conf ''svr.conf'']). opt_short o'" by simp
  have s: "sf_app empty_frame = None" "\<not> sf_shutdown empty_frame" "app_life (sf_out empty_frame) = []"
    "sf_files empty_frame (pid_path ''./svr'') = None" "sf_files empty_frame = Map.empty"
    by (simp_all add: empty_frame_def frame_statics_def)
  have sys: "fy_daemon plain_sys" "fy_creat plain_sys (pid_path ''./svr'')" by (simp_all add: plain_sys_def)
  have app: "ap_instance count_app = Some 0" "ap_init count_app 0 = Inr (0, 0)" "True" "app_total count_app (\<lambda>_. True)"
    by (simp_all add: count_app_def app_total_def)
  have g: "Sig_Stop \<notin> set (concat [[], [Sig_Reload]])" "Sig_Stop \<in> set [Sig_Stop]" by simp_all
  show ?thesis using frame_lifecycle [OF o s(1-4) sys app g, of "[[]]"] s(5) by (auto simp: numeral_3_eq_3)
qed

section \<open>Starting twice, and failing commands\<close>

text \<open>C30: While the file names a process in whose working directory the server's name is found, a
  second start exits with an error, touches no file and no application.\<close>

theorem second_start_refused:
  assumes opts: "\<forall>o'\<in>set (os1 @ os2). opt_short o'"
    and s: "sf_app s = None" "app_life (sf_out s) = []" "\<not> sf_atexit s" "sf_files s (pid_path argv0) = Some content"
    and live: "0 < length content" "length content < 16" "pid = i32 (strtol10 content)" "0 < pid"
      "sf_files s (take 127 (''/proc/'' @ show_int pid @ ''/cwd/'' @ argv0)) \<noteq> None"
    and sys: "fy_daemon sys" "fy_open_read sys (pid_path argv0)" "fy_read sys (pid_path argv0)"
  shows "\<exists>s'. frame_run ops sys argv0 (command_line os1 @ ''start'' # command_line os2) gss s = Some (Inr (F_Exit (- 1), s')) \<and>
    sf_files s' = sf_files s \<and> app_life (sf_out s') = []"
proof -
  obtain s1 where p: "parse_param argv0 (command_line os1 @ ''start'' # command_line os2)
       (s\<lparr>sf_name := argv0, sf_pid_file := snprintf FILE_NAME_SIZE (argv0 @ ''.pid'')\<rparr>) =
     Inr (argv0 # command_line os1 @ command_line os2 @ [''start''], s1)"
    and s1: "sf_app s1 = sf_app s" "sf_pid_file s1 = pid_path argv0" "sf_files s1 = sf_files s" "sf_out s1 = sf_out s"
      "sf_shutdown s1 = sf_shutdown s" "sf_name s1 = argv0" "sf_atexit s1 = sf_atexit s"
    by (rule init_frame_command [OF is_option_commands(1) opts])
  let ?s2 = "(if sf_daemon s1 then femit F_Daemon s1 else s1)\<lparr>sf_uid := fy_uid sys, sf_gid := fy_gid sys\<rparr>"
  have k: "sf_pid_file ?s2 = pid_path argv0" "sf_files ?s2 = sf_files s" "sf_name ?s2 = argv0" "sf_app ?s2 = None" "\<not> sf_atexit ?s2"
    "app_life (sf_out ?s2) = []" using s1 s by (simp_all add: femit_def)
  have "get_running_pid sys ?s2 = Inr pid"
    unfolding get_running_pid_def k(1,2) s(4) using sys(2,3) live(1-3) by simp
  then have "check_for_pid_file sys ?s2 = Inr (- 1)"
    unfolding check_for_pid_file_def k(2,3) using live(4,5) by (auto simp: snprintf_def EXE_FILE_PATH_def Let_def)
  then have "start_frame ops sys s1 = Inr (F_Ret (- 1), ?s2)" using sys(1) unfolding start_frame_def Let_def by simp
  then have "init_frame ops sys argv0 (command_line os1 @ ''start'' # command_line os2) s = Inr (F_Ret (- 1), ?s2)"
    unfolding init_frame_def p by simp
  then have "frame_run ops sys argv0 (command_line os1 @ ''start'' # command_line os2) gss s = Some (Inr (F_Exit (- 1), ?s2))"
    using k(4,5) by (simp add: frame_run_def fini_frame_def frame_exit_def)
  then show ?thesis using k(2,6) by blast
qed

theorem second_start_refused_witness:
  "\<exists>s'. frame_run count_app plain_sys ''svr'' [''start''] []
      (empty_frame\<lparr>sf_files := [''svr.pid'' \<mapsto> ''77'', ''/proc/77/cwd/svr'' \<mapsto> []]\<rparr>) = Some (Inr (F_Exit (- 1), s'))"
proof -
  let ?s = "empty_frame\<lparr>sf_files := [''svr.pid'' \<mapsto> ''77'', ''/proc/77/cwd/svr'' \<mapsto> []]\<rparr>"
  have s: "\<forall>o'\<in>set ([] @ []). opt_short o'" "sf_app ?s = None" "app_life (sf_out ?s) = []" "\<not> sf_atexit ?s"
    "sf_files ?s (pid_path ''svr'') = Some ''77''"
    by (simp_all add: empty_frame_def frame_statics_def)
  have t: "show_nat 77 = ''77''" by code_simp
  then have p: "show_int 77 = ''77''" by (simp add: show_int_def)
  have n: "strtol10 ''77'' = 77" using strtol10_show_nat [of 77] t by simp
  have f: "0 < length ''77''" "length ''77'' < 16" "77 = i32 (strtol10 ''77'')" "0 < (77 :: int)"
    "sf_files ?s (take 127 (''/proc/'' @ show_int 77 @ ''/cwd/'' @ ''svr'')) \<noteq> None"
    unfolding p n by (simp_all add: i32_id)
  have y: "fy_daemon plain_sys" "fy_open_read plain_sys (pid_path ''svr'')" "fy_read plain_sys (pid_path ''svr'')"
    by (simp_all add: plain_sys_def)
  show ?thesis using second_start_refused [OF s f y, of count_app "[]"] by auto
qed

text \<open>The command \<open>clean\<close> always ends in a null pointer access: the application is only created by
  \<open>start\<close>.\<close>

theorem clean_crashes:
  assumes opts: "\<forall>o'\<in>set (os1 @ os2). opt_short o'" and s: "sf_app s = None"
  shows "frame_run ops sys argv0 (command_line os1 @ ''clean'' # command_line os2) gss s = Some (Inl Null_Deref)"
proof -
  obtain s1 where p: "parse_param argv0 (command_line os1 @ ''clean'' # command_line os2)
       (s\<lparr>sf_name := argv0, sf_pid_file := snprintf FILE_NAME_SIZE (argv0 @ ''.pid'')\<rparr>) =
     Inr (argv0 # command_line os1 @ command_line os2 @ [''clean''], s1)" and s1: "sf_app s1 = sf_app s"
    by (rule init_frame_command [OF is_option_commands(4) opts]) blast
  then have "init_frame ops sys argv0 (command_line os1 @ ''clean'' # command_line os2) s = Inl Null_Deref"
    unfolding init_frame_def p using s by simp
  then show ?thesis by (simp add: frame_run_def)
qed

theorem clean_crashes_witness: "frame_run count_app plain_sys ''svr'' [''clean''] [] empty_frame = Some (Inl Null_Deref)"
  using clean_crashes [of "[]" "[]" empty_frame count_app plain_sys "''svr''" "[]"] by (simp add: empty_frame_def frame_statics_def)

text \<open>A server that could not write its file, which it does not notice, leaves it empty, and a later
  \<open>stop\<close> then signals the process 0: the group of the process that runs the command.\<close>

theorem empty_pid_file_stops_group:
  assumes opts: "\<forall>o'\<in>set (os1 @ os2). opt_short o'"
    and w: "fy_creat sys (pid_path argv0)" "\<not> fy_write sys" "sf_pid_file t = pid_path argv0"
    and s: "sf_files s = sf_files (snd (create_pid_file sys t))" "sf_atexit s = False"
    and r: "fy_open_read sys' (pid_path argv0)" "fy_read sys' (pid_path argv0)"
  shows "fst (create_pid_file sys t) = 0 \<and>
    (\<exists>s'. frame_run ops sys' argv0 (command_line os1 @ ''stop'' # command_line os2) gss s = Some (Inr (F_Exit 0, s')) \<and>
      sf_out s' = sf_out s @ [F_Kill 0 Sig_Stop])"
proof -
  obtain s1 where p: "parse_param argv0 (command_line os1 @ ''stop'' # command_line os2)
       (s\<lparr>sf_name := argv0, sf_pid_file := snprintf FILE_NAME_SIZE (argv0 @ ''.pid'')\<rparr>) =
     Inr (argv0 # command_line os1 @ command_line os2 @ [''stop''], s1)"
    and s1: "sf_app s1 = sf_app s" "sf_pid_file s1 = pid_path argv0" "sf_files s1 = sf_files s" "sf_out s1 = sf_out s"
    by (rule init_frame_command [OF is_option_commands(2) opts]) blast
  have ok: "fst (create_pid_file sys t) = 0" using w(1,3) by (simp add: create_pid_file_def Let_def)
  have c: "sf_files s1 (sf_pid_file s1) = Some []" using s1(2,3) s(1) w by (simp add: create_pid_file_def Let_def)
  then have "kill_app sys' s1 = Inr (femit (F_Kill 0 Sig_Stop) s1)"
    using s1(2) r by (simp add: kill_app_def signal_app_def get_running_pid_def)
  then have "init_frame ops sys' argv0 (command_line os1 @ ''stop'' # command_line os2) s = Inr (F_Exit 0, femit (F_Kill 0 Sig_Stop) s1)"
    unfolding init_frame_def p by simp
  then show ?thesis using s1(4) ok by (simp add: frame_run_def frame_exit_def femit_def remove_pid_file_def)
qed

theorem empty_pid_file_stops_group_witness:
  "\<exists>s'. frame_run count_app plain_sys ''svr'' [''stop''] [] (empty_frame\<lparr>sf_files := [''svr.pid'' \<mapsto> []]\<rparr>) = Some (Inr (F_Exit 0, s')) \<and>
     sf_out s' = [F_Kill 0 Sig_Stop]"
proof -
  let ?sys = "plain_sys\<lparr>fy_write := False\<rparr>" and ?t = "empty_frame\<lparr>sf_pid_file := ''svr.pid''\<rparr>"
  let ?s = "empty_frame\<lparr>sf_files := [''svr.pid'' \<mapsto> []]\<rparr>"
  have h: "\<forall>o'\<in>set ([] @ []). opt_short o'" "fy_creat ?sys (pid_path ''svr'')" "\<not> fy_write ?sys" "sf_pid_file ?t = pid_path ''svr''"
    "sf_files ?s = sf_files (snd (create_pid_file ?sys ?t))" "sf_atexit ?s = False"
    "fy_open_read plain_sys (pid_path ''svr'')" "fy_read plain_sys (pid_path ''svr'')" "sf_out ?s = []"
    by (simp_all add: plain_sys_def create_pid_file_def empty_frame_def frame_statics_def Let_def)
  show ?thesis using empty_pid_file_stops_group [OF h(1-8), of count_app "[]"] h(9) by simp
qed

end
