(* ===== verification/Connsvr_App.thy ===== *)
theory Connsvr_App
  imports Connsvr_Run Server_Frame_Props
begin

text \<open>
  The application \<open>connsvr\<close> (\<open>connsvr/app.{h,cpp}\<close> with the \<open>ModuleInit\<close> and \<open>ModuleFini\<close> of its modules) in the
  frame of \<open>Server_Frame\<close>: it is an \<open>application\<close> whose invariant is that of the connections, so from
  the command line on every pass of the server starts with well-formed connections.
\<close>

section \<open>The modules\<close>

text \<open>The part of the configuration the modules read, and what the system calls of the
  initialisation return; the text format is parsed by protobuf.\<close>

record conn_config =
  cfg_listen_port :: int
  cfg_pool_size :: int
  cfg_pool_key :: int

record conn_boot =
  bo_open :: "string \<Rightarrow> int"
  bo_parse :: "string \<Rightarrow> conn_config option"
  bo_socket :: int
  bo_nonblock :: bool
  bo_bind :: "int \<Rightarrow> bool"
  bo_listen :: bool
  bo_zmq_init :: bool
  bo_zmq_socket :: bool
  bo_zmq_connect :: bool
  bo_epfd :: int
  bo_shm :: "int \<Rightarrow> bool"

definition MODULE_ID_CONFIG :: int where "MODULE_ID_CONFIG = 0x9fff"
definition MODULE_ID_EVENT :: int where "MODULE_ID_EVENT = MODULE_ID_CONFIG + 1"
definition MODULE_ID_CONN_MGR :: int where "MODULE_ID_CONN_MGR = MODULE_ID_EVENT + 1"

datatype conn_module = CM_Config conn_config | CM_Event int | CM_Conn_Mgr

text \<open>\<open>ConfigModule::ModuleInit\<close>.\<close>

definition config_init :: "conn_boot \<Rightarrow> string \<Rightarrow> conn_config res" where
  "config_init bo conf_file =
     rbind (guard Check_Failed (bo_open bo conf_file > 0)) (\<lambda>_.
     case bo_parse bo conf_file of None \<Rightarrow> Inl Check_Failed | Some cfg \<Rightarrow> Inr cfg)"

text \<open>\<open>FindModule<ConfigModule>\<close>, with the static cast to the class.\<close>

definition find_config :: "conn_module module_map \<Rightarrow> conn_config res" where
  "find_config mm =
     rbind (find_module mm MODULE_ID_CONFIG) (\<lambda>m. case m of CM_Config cfg \<Rightarrow> Inr cfg | _ \<Rightarrow> Inl Type_Confusion)"

text \<open>\<open>EventModule::ModuleInit\<close>; the connections are not there yet.\<close>

definition mgr_blank :: conn_mgr where
  "mgr_blank = \<lparr>conn_pool = pool_fresh 0 0 conn_init, conn_map = []\<rparr>"

definition event_module_init :: "conn_boot \<Rightarrow> sys \<Rightarrow> conn_module module_map \<Rightarrow> connsvr res" where
  "event_module_init bo sys mm =
     rbind (guard Check_Failed (bo_socket bo > 0)) (\<lambda>_.
     rbind (guard Check_Failed (bo_nonblock bo)) (\<lambda>_.
     rbind (find_config mm) (\<lambda>cfg.
     rbind (guard Check_Failed (bo_bind bo (cfg_listen_port cfg))) (\<lambda>_.
     rbind (guard Check_Failed (bo_listen bo)) (\<lambda>_.
     rbind (guard Check_Failed (bo_zmq_init bo)) (\<lambda>_.
     rbind (guard Check_Failed (bo_zmq_socket bo)) (\<lambda>_.
     rbind (guard Check_Failed (bo_zmq_connect bo)) (\<lambda>_.
     event_init sys (cfg_pool_size cfg) (bo_epfd bo) (bo_socket bo) mgr_blank))))))))"

definition conn_mgr_module_init :: "conn_boot \<Rightarrow> conn_module module_map \<Rightarrow> conn_mgr res" where
  "conn_mgr_module_init bo mm =
     rbind (find_config mm) (\<lambda>cfg. conn_mgr_init (bo_shm bo (cfg_pool_key cfg)) (cfg_pool_size cfg))"

section \<open>The application\<close>

record connsvr_app =
  ca_modules :: "conn_module module_map"
  ca_srv :: connsvr

text \<open>A new \<open>App\<close>.\<close>

definition connsvr_app_new :: connsvr_app where
  "connsvr_app_new = \<lparr>ca_modules = [], ca_srv = \<lparr>mgr = mgr_blank, evs = [], max_connection = 0, out = []\<rparr>\<rparr>"

definition connsvr_app_init :: "conn_boot \<Rightarrow> sys \<Rightarrow> string \<Rightarrow> connsvr_app \<Rightarrow> (int \<times> connsvr_app) res" where
  "connsvr_app_init bo sys conf_name a =
     rbind (config_init bo conf_name) (\<lambda>cfg.
     let mm1 = add_module MODULE_ID_CONFIG (Some (CM_Config cfg)) (ca_modules a) in
     rbind (event_module_init bo sys mm1) (\<lambda>w.
     let mm2 = add_module MODULE_ID_EVENT (Some (CM_Event (bo_socket bo))) mm1 in
     rbind (conn_mgr_module_init bo mm2) (\<lambda>m.
     let mm3 = add_module MODULE_ID_CONN_MGR (Some CM_Conn_Mgr) mm2 in
     Inr (0, \<lparr>ca_modules = mm3, ca_srv = w\<lparr>mgr := m\<rparr>\<rparr>))))"

text \<open>\<open>GetModule<EventModule>\<close> is a dynamic cast, null for another class.\<close>

definition connsvr_app_run :: "sys \<Rightarrow> connsvr_app \<Rightarrow> connsvr_app res" where
  "connsvr_app_run sys a =
     rbind (get_module (ca_modules a) MODULE_ID_EVENT) (\<lambda>m.
     case m of
       Some (CM_Event _) \<Rightarrow> rbind (event_run sys (ca_srv a)) (\<lambda>w. Inr (a\<lparr>ca_srv := w\<rparr>))
     | _ \<Rightarrow> Inl Null_Deref)"

text \<open>\<open>ModuleFini\<close> of a module.\<close>

definition conn_module_fini :: "conn_module \<Rightarrow> connsvr \<Rightarrow> connsvr" where
  "conn_module_fini m w =
     (case m of
        CM_Config _ \<Rightarrow> w
      | CM_Event listen_fd \<Rightarrow> emit [E_Close listen_fd] (w\<lparr>evs := []\<rparr>)
      | CM_Conn_Mgr \<Rightarrow> emit (map E_Close (conn_mgr_fini (mgr w))) w)"

definition connsvr_app_stop :: "connsvr_app \<Rightarrow> connsvr_app" where
  "connsvr_app_stop a =
     (case app_stop conn_module_fini (ca_modules a) (ca_srv a) of (mm, w) \<Rightarrow> a\<lparr>ca_modules := mm, ca_srv := w\<rparr>)"

definition connsvr_ops :: "conn_boot \<Rightarrow> sys \<Rightarrow> string \<Rightarrow> connsvr_app app_ops" where
  "connsvr_ops bo sys conf_name =
     \<lparr>ap_instance = Some connsvr_app_new, ap_init = connsvr_app_init bo sys conf_name,
      ap_run = \<lambda>a. Some (connsvr_app_run sys a), ap_stop = \<lambda>a. Some (Inr (connsvr_app_stop a)),
      ap_reload = \<lambda>a. Inr a, ap_clean = \<lambda>a. Inr a\<rparr>"

section \<open>The invariant of the running server\<close>

lemma connsvr_init_inv:
  assumes run: "connsvr_app_init bo sys conf_name connsvr_app_new = Inr (r, a')" and size: "\<And>f cfg. bo_parse bo f = Some cfg \<Longrightarrow> 0 \<le> cfg_pool_size cfg"
  shows "run_inv (ca_srv a') \<and> conns (ca_srv a') = Map.empty"
proof -
  obtain cfg w m where c: "config_init bo conf_name = Inr cfg"
    and w: "event_module_init bo sys (add_module MODULE_ID_CONFIG (Some (CM_Config cfg)) []) = Inr w"
    and m: "conn_mgr_module_init bo (add_module MODULE_ID_EVENT (Some (CM_Event (bo_socket bo)))
      (add_module MODULE_ID_CONFIG (Some (CM_Config cfg)) [])) = Inr m"
    and a': "ca_srv a' = w\<lparr>mgr := m\<rparr>"
    using run by (auto simp: connsvr_app_init_def connsvr_app_new_def rbind_eq_Inr_iff Let_def)
  have id: "u64 MODULE_ID_CONFIG = 40959" "u64 MODULE_ID_EVENT = 40960"
    by (simp_all add: MODULE_ID_CONFIG_def MODULE_ID_EVENT_def u64_id)
  let ?mm = "add_module MODULE_ID_CONFIG (Some (CM_Config cfg)) []"
  have f: "find_config ?mm = Inr cfg" "find_config (add_module MODULE_ID_EVENT (Some (CM_Event (bo_socket bo))) ?mm) = Inr cfg"
    by (simp_all add: find_config_def find_module_def add_module_def id)
  have sz: "0 \<le> cfg_pool_size cfg"
    using c size by (auto simp: config_init_def rbind_eq_Inr_iff split: option.splits)
  have fd: "0 \<le> bo_socket bo" and e: "event_init sys (cfg_pool_size cfg) (bo_epfd bo) (bo_socket bo) mgr_blank = Inr w"
    using w f(1) by (auto simp: event_module_init_def rbind_eq_Inr_iff)
  have "conn_mgr_init (bo_shm bo (cfg_pool_key cfg)) (cfg_pool_size cfg) = Inr m"
    using m f(2) by (simp add: conn_mgr_module_init_def)
  from event_init_run [OF this sz fd e] show ?thesis using a' by simp
qed

lemma connsvr_run_inv:
  assumes "accept_fresh sys" "run_inv (ca_srv a)" "connsvr_app_run sys a = Inr a'"
  shows "run_inv (ca_srv a')"
proof -
  obtain m where m: "(case m of Some (CM_Event _) \<Rightarrow> rbind (event_run sys (ca_srv a)) (\<lambda>w. Inr (a\<lparr>ca_srv := w\<rparr>)) | _ \<Rightarrow> Inl Null_Deref) = Inr a'"
    using assms(3) unfolding connsvr_app_run_def by (rule rbind_InrE)
  then have "rbind (event_run sys (ca_srv a)) (\<lambda>w. Inr (a\<lparr>ca_srv := w\<rparr>)) = Inr a'"
    by (simp split: option.splits conn_module.splits)
  then obtain w where w: "event_run sys (ca_srv a) = Inr w" "a' = a\<lparr>ca_srv := w\<rparr>" by (auto elim: rbind_InrE)
  from event_rounds_run [OF assms(1,2)] w show ?thesis by (simp add: event_run_def)
qed

text \<open>\<open>connsvr\<close> fulfils the contract of an application, for a kernel that hands out no open descriptor
  and a configuration without a negative size.\<close>

definition connsvr_env :: "conn_boot \<Rightarrow> sys \<Rightarrow> bool" where
  "connsvr_env bo sys \<longleftrightarrow> accept_fresh sys \<and> (\<forall>f cfg. bo_parse bo f = Some cfg \<longrightarrow> 0 \<le> cfg_pool_size cfg)"

interpretation ca: application "connsvr_ops bo sys conf_name" "\<lambda>a. connsvr_env bo sys \<longrightarrow> run_inv (ca_srv a)"
proof unfold_locales
  fix a r a'
  assume "ap_instance (connsvr_ops bo sys conf_name) = Some a" "ap_init (connsvr_ops bo sys conf_name) a = Inr (r, a')"
  then have "connsvr_app_init bo sys conf_name connsvr_app_new = Inr (r, a')" by (simp add: connsvr_ops_def)
  then show "connsvr_env bo sys \<longrightarrow> run_inv (ca_srv a')"
    using connsvr_init_inv [of bo sys conf_name r a'] by (simp add: connsvr_env_def)
next
  fix a a'
  assume "connsvr_env bo sys \<longrightarrow> run_inv (ca_srv a)" "ap_run (connsvr_ops bo sys conf_name) a = Some (Inr a')"
  then show "connsvr_env bo sys \<longrightarrow> run_inv (ca_srv a')"
    using connsvr_run_inv [of sys a a'] by (simp add: connsvr_ops_def connsvr_env_def)
next
  fix a a'
  assume "connsvr_env bo sys \<longrightarrow> run_inv (ca_srv a)" "ap_reload (connsvr_ops bo sys conf_name) a = Inr a'"
  then show "connsvr_env bo sys \<longrightarrow> run_inv (ca_srv a')" by (simp add: connsvr_ops_def)
qed

text \<open>C2: From the command line on: while \<open>connsvr\<close> runs, started with any arguments, after any number of
  passes and whatever the clients, the game server and the kernel's results were, its connections
  are well formed, and each is on a descriptor that was accepted and not closed since.\<close>

theorem connsvr_up:
  assumes "connsvr_env bo sys" "sf_app s = None"
    and "frame_run (connsvr_ops bo sys conf_name) fsys argv0 args gss s = Some (Inr (F_Ret 1, s'))" "sf_app s' = Some a"
  shows "cs_inv (ca_srv a) \<and> dom (conns (ca_srv a)) \<subseteq> open_fds (out (ca_srv a))"
proof -
  have "run_inv (ca_srv a)" using ca.run_keeps [OF assms(2,3)] assms(1,4) unfolding ca.app_inv_def by blast
  then show ?thesis by (simp add: run_inv_def)
qed

definition plain_boot :: conn_boot where
  "plain_boot = \<lparr>bo_open = \<lambda>_. 3, bo_parse = \<lambda>_. Some \<lparr>cfg_listen_port = 8810, cfg_pool_size = 100, cfg_pool_key = 7\<rparr>, bo_socket = 4,
     bo_nonblock = True, bo_bind = \<lambda>_. True, bo_listen = True, bo_zmq_init = True, bo_zmq_socket = True, bo_zmq_connect = True,
     bo_epfd = 5, bo_shm = \<lambda>_. True\<rparr>"

lemma idle_rounds: "\<exists>w'. event_rounds example_sys n w = Inr w'"
proof (induction n arbitrary: w)
  case (Suc n)
  have "event_round example_sys w = Inr (emit [E_Zmq_Recv (- 1)] (emit [E_Wait] w))"
    by (simp add: event_round_def example_sys_def zmq_read_loop_def CONN_DATA_SIZE_def Let_def)
  then show ?case using Suc by simp
qed simp

lemma plain_init: "\<exists>a. connsvr_app_init plain_boot example_sys conf connsvr_app_new = Inr (0, a) \<and>
  get_module (ca_modules a) MODULE_ID_EVENT = Inr (Some (CM_Event 4))"
proof -
  have id: "u64 MODULE_ID_CONFIG = 40959" "u64 MODULE_ID_EVENT = 40960" "u64 MODULE_ID_CONN_MGR = 40961"
    by (simp_all add: MODULE_ID_CONFIG_def MODULE_ID_EVENT_def MODULE_ID_CONN_MGR_def u64_id)
  obtain evs1 :: "(proc, unit) file_events" where e: "epoller_init 100 5 = Inr evs1" by (simp add: epoller_init_def)
  then have l: "length evs1 = 100" using evs_ok_init by blast
  have "\<exists>w. event_init example_sys 100 5 4 mgr_blank = Inr w"
    using e l by (simp add: event_init_def ev_add_def add_event_def example_sys_def Let_def)
  moreover have "\<exists>m. conn_mgr_init True 100 = Inr m" by (simp add: conn_mgr_init_def pool_init_def)
  ultimately show ?thesis
    by (auto simp: connsvr_app_init_def config_init_def event_module_init_def conn_mgr_module_init_def plain_boot_def
        find_config_def find_module_def get_module_def add_module_def connsvr_app_new_def id Let_def)
qed

theorem connsvr_up_witness:
  "\<exists>s' a. frame_run (connsvr_ops plain_boot example_sys ''connsvr.conf'') plain_sys ''connsvr'' [''start''] [[]]
       (frame_statics Map.empty) = Some (Inr (F_Ret 1, s')) \<and> sf_app s' = Some a \<and> cs_inv (ca_srv a)"
proof -
  let ?ops = "connsvr_ops plain_boot example_sys ''connsvr.conf''" and ?s = "frame_statics Map.empty :: connsvr_app server_frame"
  have env: "connsvr_env plain_boot example_sys" by (simp add: connsvr_env_def accept_fresh_def example_sys_def plain_boot_def)
  obtain a0 where a0: "connsvr_app_init plain_boot example_sys ''connsvr.conf'' connsvr_app_new = Inr (0, a0)"
    "get_module (ca_modules a0) MODULE_ID_EVENT = Inr (Some (CM_Event 4))" using plain_init by blast
  obtain w where w: "event_run example_sys (ca_srv a0) = Inr w" using idle_rounds unfolding event_run_def by blast
  let ?a = "a0\<lparr>ca_srv := w\<rparr>"
  have r: "ap_run ?ops a0 = Some (Inr ?a)" using a0(2) w by (simp add: connsvr_ops_def connsvr_app_run_def)
  have ap: "ap_instance ?ops = Some connsvr_app_new" "ap_init ?ops connsvr_app_new = Inr (0, a0)"
    using a0(1) by (simp_all add: connsvr_ops_def)
  obtain s' where run: "frame_run ?ops plain_sys ''connsvr'' [''start''] [[]] ?s = Some (Inr (F_Ret 1, s'))" "sf_app s' = Some ?a"
    by (rule first_pass [OF ap r])
  have "sf_app ?s = None" by (simp add: frame_statics_def)
  from connsvr_up [OF env this run] run show ?thesis by blast
qed

end
