(* ===== verification/Game_Obj.thy ===== *)
theory Game_Obj
  imports Shm_Pool App_Frame Heap_Timer
begin

text \<open>
  The data of the game server: the protobuf messages it exchanges (\<open>common/protocol/proto\<close>),
  the \<open>Player\<close> and \<open>City\<close> objects (\<open>gamesvr/obj_mgr_module/object\<close>), the state of all its
  modules, and \<open>ObjMgrModule\<close> (\<open>gamesvr/obj_mgr_module/obj_mgr_module.cpp\<close>).

  A message is a record with an \<open>option\<close> per optional sub-message the code touches; an unset
  scalar reads as its default. Serialisation and parsing are generated code and arguments.
  Pointers to players and cities are their units in the pools.
\<close>

section \<open>Messages\<close>

record role_info =
  ri_money :: int
  ri_level :: int

record city_info =
  ci_id :: int
  ci_population :: int

record player_data =
  pd_role_info :: role_info
  pd_city_list :: "city_info list"

record account_msg =
  am_account :: bytes
  am_password :: bytes

record cs_msg =
  cs_cmd :: int
  cs_ret :: int
  cs_seq :: "64 word"
  cs_login_req :: "account_msg option"
  cs_login_res :: "bool option"
  cs_quick_reg_res :: "account_msg option"
  cs_normal_reg_req :: "account_msg option"
  cs_normal_reg_res :: "account_msg option"
  cs_role_info_ntf :: "role_info option"

record account_reg_req =
  arq_uid :: "64 word"
  arq_password_hash :: "64 word"
  arq_account :: "bytes option"
  arq_player_data :: bytes

record account_key =
  ak_uid :: "64 word"
  ak_password_hash :: "64 word"

record set_player_data_req =
  spq_uid :: "64 word"
  spq_player_data :: bytes

record ss_msg =
  ss_cmd :: int
  ss_ret :: int
  ss_seq :: "64 word"
  ss_player_idx :: int
  ss_account_reg_req :: "account_reg_req option"
  ss_account_verify_req :: "account_key option"
  ss_get_player_data_req :: "account_key option"
  ss_get_player_data_res :: "bytes option"
  ss_set_player_data_req :: "set_player_data_req option"
  ss_account_reg_res :: "bool option"
  ss_account_verify_res :: "bool option"

definition cs_empty :: cs_msg where
  "cs_empty = \<lparr>cs_cmd = 0, cs_ret = 0, cs_seq = 0, cs_login_req = None, cs_login_res = None,
     cs_quick_reg_res = None, cs_normal_reg_req = None, cs_normal_reg_res = None, cs_role_info_ntf = None\<rparr>"

definition ss_empty :: ss_msg where
  "ss_empty = \<lparr>ss_cmd = 0, ss_ret = 0, ss_seq = 0, ss_player_idx = 0, ss_account_reg_req = None,
     ss_account_verify_req = None, ss_get_player_data_req = None, ss_get_player_data_res = None,
     ss_set_player_data_req = None, ss_account_reg_res = None, ss_account_verify_res = None\<rparr>"

text \<open>An unset \<open>LoginReq\<close> or \<open>NormalRegReq\<close> has empty fields.\<close>

definition account_msg_of :: "account_msg option \<Rightarrow> account_msg" where
  "account_msg_of m = (case m of Some a \<Rightarrow> a | None \<Rightarrow> \<lparr>am_account = [], am_password = []\<rparr>)"

text \<open>The field numbers used as commands.\<close>

definition kLoginReq :: int where "kLoginReq = 11"
definition kLoginRes :: int where "kLoginRes = 12"
definition kQuickRegReq :: int where "kQuickRegReq = 13"
definition kQuickRegRes :: int where "kQuickRegRes = 14"
definition kNormalRegReq :: int where "kNormalRegReq = 15"
definition kNormalRegRes :: int where "kNormalRegRes = 16"
definition kRoleInfoNtf :: int where "kRoleInfoNtf = 6001"
definition kServerKickOffNtf :: int where "kServerKickOffNtf = 6003"
definition kAccountRegReq :: int where "kAccountRegReq = 11"
definition kAccountRegRes :: int where "kAccountRegRes = 12"
definition kAccountVerifyReq :: int where "kAccountVerifyReq = 17"
definition kAccountVerifyRes :: int where "kAccountVerifyRes = 18"
definition kGetPlayerDataReq :: int where "kGetPlayerDataReq = 19"
definition kGetPlayerDataRes :: int where "kGetPlayerDataRes = 20"
definition kSetPlayerDataReq :: int where "kSetPlayerDataReq = 21"
definition kSetPlayerDataRes :: int where "kSetPlayerDataRes = 22"

lemmas cmd_defs = kLoginReq_def kLoginRes_def kQuickRegReq_def kQuickRegRes_def kNormalRegReq_def kNormalRegRes_def
  kRoleInfoNtf_def kServerKickOffNtf_def kAccountRegReq_def kAccountRegRes_def kAccountVerifyReq_def
  kAccountVerifyRes_def kGetPlayerDataReq_def kGetPlayerDataRes_def kSetPlayerDataReq_def kSetPlayerDataRes_def

section \<open>Objects and state\<close>

definition MAX_CITY_NUM_PER_PLAYER :: int where "MAX_CITY_NUM_PER_PLAYER = 100"

record player =
  p_conn_fd :: int
  p_uid :: "64 word"
  p_password_hash :: "64 word"
  p_city_list :: "int list"
  p_money :: int
  p_level :: int

definition player_zero :: player where
  "player_zero = \<lparr>p_conn_fd = 0, p_uid = 0, p_password_hash = 0, p_city_list = replicate 101 0,
     p_money = 0, p_level = 0\<rparr>"

record city =
  ct_player_idx :: int
  ct_population :: int

definition city_zero :: city where
  "city_zero = \<lparr>ct_player_idx = 0, ct_population = 0\<rparr>"

text \<open>
  The memory of an asynchronous logic: the common head, then the fields of the four structs
  (\<open>LogicDataLogin\<close> and so on). \<open>malloc\<close> leaves arbitrary contents; \<open>l_tail\<close> is the padding
  behind the two character arrays.
\<close>

record logic_data =
  lg_logic_id :: "64 word"
  lg_logic_type :: int
  lg_step :: int
  l_client_seq :: "64 word"
  l_player_idx :: int
  l_uid :: "64 word"
  l_password_hash :: "64 word"
  l_account :: bytes
  l_password :: bytes
  l_tail :: bytes

text \<open>What leaves the process: packets to datasvr and to connsvr with \<open>zmq_send\<close>'s result.\<close>

datatype geffect =
    G_Data bytes int
  | G_Conn bytes int
  | G_Recv_Conn int
  | G_Recv_Data int

record gamesvr =
  player_pool :: "player shm_pool"
  city_pool :: "city shm_pool"
  uid_to_player_idx_map :: "(64 word \<times> int) list"
  logic_timer :: heap_timer
  logic_data_map :: "(int \<times> logic_data) list"
  msg_buf :: bytes
  gout :: "geffect list"

text \<open>The environment: zmq, the generated protobuf code, \<open>malloc\<close>, the clock and \<open>rand\<close>.\<close>

record game_sys =
  gs_send_data :: "geffect list \<Rightarrow> bytes \<Rightarrow> int"
  gs_send_conn :: "geffect list \<Rightarrow> bytes \<Rightarrow> int"
  gs_recv_conn :: "geffect list \<Rightarrow> int \<times> bytes"
  gs_recv_data :: "geffect list \<Rightarrow> int \<times> bytes"
  gs_ser_ss :: "ss_msg \<Rightarrow> bytes option"
  gs_ser_cs :: "cs_msg \<Rightarrow> bytes option"
  gs_ser_pd :: "player_data \<Rightarrow> bytes option"
  gs_parse_ss :: "bytes \<Rightarrow> ss_msg option"
  gs_parse_cs :: "bytes \<Rightarrow> cs_msg option"
  gs_parse_pd :: "bytes \<Rightarrow> player_data"
  gs_malloc :: "geffect list \<Rightarrow> int \<Rightarrow> logic_data option"
  gs_now :: "geffect list \<Rightarrow> int"
  gs_time :: "geffect list \<Rightarrow> time_value"
  gs_tsc :: "geffect list \<Rightarrow> 64 word"
  gs_rand :: "geffect list \<Rightarrow> int list"

definition gemit :: "geffect \<Rightarrow> gamesvr \<Rightarrow> gamesvr" where
  "gemit e w = w\<lparr>gout := gout w @ [e]\<rparr>"

section \<open>Players and cities\<close>

definition player_at :: "gamesvr \<Rightarrow> int \<Rightarrow> player res" where
  "player_at w ptr = rd (pool_mem (player_pool w)) ptr"

definition put_player :: "int \<Rightarrow> player \<Rightarrow> gamesvr \<Rightarrow> gamesvr res" where
  "put_player ptr p w =
     rbind (wr (pool_mem (player_pool w)) ptr p) (\<lambda>m. Inr (w\<lparr>player_pool := (player_pool w)\<lparr>pool_mem := m\<rparr>\<rparr>))"

definition city_at :: "gamesvr \<Rightarrow> int \<Rightarrow> city res" where
  "city_at w ptr = rd (pool_mem (city_pool w)) ptr"

definition put_city :: "int \<Rightarrow> city \<Rightarrow> gamesvr \<Rightarrow> gamesvr res" where
  "put_city ptr c w =
     rbind (wr (pool_mem (city_pool w)) ptr c) (\<lambda>m. Inr (w\<lparr>city_pool := (city_pool w)\<lparr>pool_mem := m\<rparr>\<rparr>))"

section \<open>ObjMgrModule\<close>

definition find_player_idx_by_uid :: "64 word \<Rightarrow> gamesvr \<Rightarrow> int" where
  "find_player_idx_by_uid uid w =
     (case map_of (uid_to_player_idx_map w) uid of Some player_idx \<Rightarrow> player_idx | None \<Rightarrow> 0)"

definition bind_uid_to_player_idx :: "64 word \<Rightarrow> int \<Rightarrow> gamesvr \<Rightarrow> gamesvr" where
  "bind_uid_to_player_idx uid player_idx w =
     w\<lparr>uid_to_player_idx_map := smap_insert uid player_idx (uid_to_player_idx_map w)\<rparr>"

definition erase_uid_to_player_idx :: "64 word \<Rightarrow> int \<Rightarrow> gamesvr \<Rightarrow> gamesvr" where
  "erase_uid_to_player_idx uid player_idx w =
     (case map_of (uid_to_player_idx_map w) uid of
        None \<Rightarrow> w
      | Some i \<Rightarrow>
          if i = player_idx then w\<lparr>uid_to_player_idx_map := smap_erase uid (uid_to_player_idx_map w)\<rparr> else w)"

definition get_player :: "int \<Rightarrow> gamesvr \<Rightarrow> int option res" where
  "get_player player_idx w = (if player_idx \<le> 0 then Inr None else pool_find (player_pool w) player_idx)"

definition get_player_idx :: "int \<Rightarrow> gamesvr \<Rightarrow> int res" where
  "get_player_idx ptr w = pool_get_pos (player_pool w) ptr"

text \<open>\<open>AddPlayer\<close> calls \<open>init\<close> on the pointer before it looks whether it is null.\<close>

definition add_player :: "gamesvr \<Rightarrow> (int \<times> gamesvr) res" where
  "add_player w =
     rbind (pool_alloc (player_pool w)) (\<lambda>(player, pp).
     case player of None \<Rightarrow> Inl Null_Deref
     | Some ptr \<Rightarrow>
         rbind (put_player ptr player_zero (w\<lparr>player_pool := pp\<rparr>)) (\<lambda>w1.
         rbind (get_player_idx ptr w1) (\<lambda>player_idx. Inr (player_idx, w1))))"

definition get_city :: "int \<Rightarrow> gamesvr \<Rightarrow> int option res" where
  "get_city city_idx w = (if city_idx \<le> 0 then Inr None else pool_find (city_pool w) city_idx)"

definition get_city_idx :: "int \<Rightarrow> gamesvr \<Rightarrow> int res" where
  "get_city_idx ptr w = pool_get_pos (city_pool w) ptr"

definition del_city :: "int \<Rightarrow> gamesvr \<Rightarrow> gamesvr res" where
  "del_city city_idx w =
     rbind (get_city city_idx w) (\<lambda>city.
     case city of None \<Rightarrow> Inr w
     | Some ptr \<Rightarrow> rbind (pool_release (city_pool w) ptr) (\<lambda>cp. Inr (w\<lparr>city_pool := cp\<rparr>)))"

fun del_cities :: "int list \<Rightarrow> gamesvr \<Rightarrow> gamesvr res" where
  "del_cities [] w = Inr w"
| "del_cities (c # cs) w = rbind (if c \<noteq> 0 then del_city c w else Inr w) (del_cities cs)"

text \<open>The loop of \<open>DelPlayer\<close> reads \<open>city_list_[1]\<close> to \<open>city_list_[MAX_CITY_NUM_PER_PLAYER - 1]\<close>.\<close>

definition del_player :: "int \<Rightarrow> gamesvr \<Rightarrow> gamesvr res" where
  "del_player player_idx0 w =
     rbind (get_player player_idx0 w) (\<lambda>player.
     case player of None \<Rightarrow> Inr w
     | Some ptr \<Rightarrow>
         rbind (player_at w ptr) (\<lambda>p.
         rbind (get_player_idx ptr w) (\<lambda>player_idx.
         let w1 = erase_uid_to_player_idx (p_uid p) player_idx w in
         rbind (rd (p_city_list p) 0) (\<lambda>num.
         rbind (if num > 0 then
                  rbind (mem_read (p_city_list p) 1 (MAX_CITY_NUM_PER_PLAYER - 1)) (\<lambda>cs. del_cities cs w1)
                else Inr w1) (\<lambda>w2.
         rbind (pool_release (player_pool w2) ptr) (\<lambda>pp. Inr (w2\<lparr>player_pool := pp\<rparr>)))))))"

text \<open>The search of \<open>AddCity\<close> for an empty slot; \<open>init\<close> again comes before the null check.\<close>

fun add_city_slots :: "int \<Rightarrow> int \<Rightarrow> int list \<Rightarrow> gamesvr \<Rightarrow> (int \<times> gamesvr) res" where
  "add_city_slots player_idx ptr [] w = Inr (- 4, w)"
| "add_city_slots player_idx ptr (i # is) w =
     rbind (player_at w ptr) (\<lambda>p.
     rbind (rd (p_city_list p) i) (\<lambda>slot.
     if slot = 0 then
       rbind (pool_alloc (city_pool w)) (\<lambda>(city, cp).
       case city of None \<Rightarrow> Inl Null_Deref
       | Some ct \<Rightarrow>
           rbind (put_city ct city_zero (w\<lparr>city_pool := cp\<rparr>)) (\<lambda>w1.
           rbind (get_city_idx ct w1) (\<lambda>city_idx.
           rbind (rd (p_city_list p) 0) (\<lambda>num.
           rbind (wr (p_city_list p) 0 (num + 1)) (\<lambda>l1.
           rbind (wr l1 i city_idx) (\<lambda>l2.
           rbind (put_player ptr (p\<lparr>p_city_list := l2\<rparr>) w1) (\<lambda>w2.
           rbind (put_city ct (city_zero\<lparr>ct_player_idx := player_idx\<rparr>) w2) (\<lambda>w3.
           Inr (city_idx, w3)))))))))
     else add_city_slots player_idx ptr is w))"

definition add_city :: "int \<Rightarrow> gamesvr \<Rightarrow> (int \<times> gamesvr) res" where
  "add_city player_idx w =
     rbind (get_player player_idx w) (\<lambda>player.
     case player of None \<Rightarrow> Inr (- 1, w)
     | Some ptr \<Rightarrow>
         rbind (player_at w ptr) (\<lambda>p.
         rbind (rd (p_city_list p) 0) (\<lambda>num.
         if num \<ge> MAX_CITY_NUM_PER_PLAYER then Inr (- 2, w)
         else add_city_slots player_idx ptr [1..MAX_CITY_NUM_PER_PLAYER - 1] w)))"

text \<open>
  \<open>ModuleInit\<close>: both pools are opened (\<open>PlayerPool\<close> and \<open>CityPool\<close> hold the results), then
  every player left in shared memory is entered into the uid map. \<open>Player::GetPlayerIdx\<close>
  looks the module up in the module map \<open>mm\<close> of the application first.
\<close>

definition MODULE_ID_PLAYER_MGR :: int where "MODULE_ID_PLAYER_MGR = 0xa002"

definition restore_uid_to_player_idx_map ::
  "'m module_map \<Rightarrow> int \<Rightarrow> player \<Rightarrow> gamesvr res \<Rightarrow> gamesvr res" where
  "restore_uid_to_player_idx_map mm ptr p r =
     rbind r (\<lambda>w.
     rbind (find_module mm MODULE_ID_PLAYER_MGR) (\<lambda>_.
     rbind (get_player_idx ptr w) (\<lambda>player_idx. Inr (bind_uid_to_player_idx (p_uid p) player_idx w))))"

definition obj_mgr_init ::
  "'m module_map \<Rightarrow> int \<times> player shm_pool option \<Rightarrow> int \<times> city shm_pool option \<Rightarrow> gamesvr \<Rightarrow> gamesvr res" where
  "obj_mgr_init mm players cities w =
     rbind (guard Check_Failed (fst players = 0)) (\<lambda>_.
     rbind (guard Check_Failed (fst cities = 0)) (\<lambda>_.
     case (snd players, snd cities) of
       (Some pp, Some cp) \<Rightarrow>
         let w1 = w\<lparr>player_pool := pp, city_pool := cp\<rparr> in
         rbind (travel_pool (restore_uid_to_player_idx_map mm) pp (Inr w1)) (\<lambda>r. r)
     | _ \<Rightarrow> Inl Null_Deref))"

text \<open>The module map when \<open>AppInit\<close> (\<open>gamesvr/app.cpp\<close>) creates \<open>ObjMgrModule\<close>: a module is
  added only after its \<open>CreateModule\<close>, which runs \<open>ModuleInit\<close>, has returned.\<close>

definition modules_before_obj_mgr :: "'m \<Rightarrow> 'm \<Rightarrow> 'm \<Rightarrow> 'm module_map" where
  "modules_before_obj_mgr config timer_mgr msg =
     add_module 0xa001 (Some msg) (add_module 0xa000 (Some timer_mgr) (add_module 0x9fff (Some config) []))"

end
