(* ===== verification/Game_Obj_Props.thy ===== *)
theory Game_Obj_Props
  imports Game_Obj
begin

text \<open>
  What \<open>ObjMgrModule\<close> guarantees: the cities in use are exactly those the players in use
  own, each owned once; adding a city extends its owner's list, and deleting a player frees
  the player and exactly its cities. The pools are used through the \<open>slot_allocator\<close> facts.
\<close>

section \<open>Ownership\<close>

text \<open>The owned cities: \<open>city_list_[0]\<close> is their number, the slots behind them are empty.\<close>

definition cities_of :: "player \<Rightarrow> int list" where
  "cities_of p = take (nat (hd (p_city_list p))) (tl (p_city_list p))"

definition player_ok :: "player \<Rightarrow> bool" where
  "player_ok p \<longleftrightarrow>
     p_city_list p = int (length (cities_of p)) # cities_of p @ replicate (100 - length (cities_of p)) 0 \<and>
     length (cities_of p) \<le> 99 \<and> (\<forall>c\<in>set (cities_of p). 0 < c) \<and> distinct (cities_of p)"

abbreviation players :: "gamesvr \<Rightarrow> int set" where
  "players w \<equiv> pool_used (player_pool w)"

abbreviation cities :: "gamesvr \<Rightarrow> int set" where
  "cities w \<equiv> pool_used (city_pool w)"

abbreviation the_player :: "gamesvr \<Rightarrow> int \<Rightarrow> player" where
  "the_player w i \<equiv> pool_mem (player_pool w) ! nat i"

abbreviation the_city :: "gamesvr \<Rightarrow> int \<Rightarrow> city" where
  "the_city w i \<equiv> pool_mem (city_pool w) ! nat i"

definition obj_inv :: "gamesvr \<Rightarrow> bool" where
  "obj_inv w \<longleftrightarrow> pool_inv (player_pool w) \<and> pool_inv (city_pool w) \<and>
     (\<forall>i\<in>players w. player_ok (the_player w i)) \<and>
     (\<forall>i\<in>players w. \<forall>j\<in>players w. i \<noteq> j \<longrightarrow>
        set (cities_of (the_player w i)) \<inter> set (cities_of (the_player w j)) = {}) \<and>
     cities w = (\<Union>i\<in>players w. set (cities_of (the_player w i)))"

lemma player_ok_listD:
  assumes "player_ok p"
  shows "length (p_city_list p) = 101" "rd (p_city_list p) 0 = Inr (int (length (cities_of p)))"
    "mem_read (p_city_list p) 1 99 = Inr (cities_of p @ replicate (99 - length (cities_of p)) 0)"
proof -
  let ?cs = "cities_of p"
  have l: "p_city_list p = int (length ?cs) # ?cs @ replicate (100 - length ?cs) 0" and n: "length ?cs \<le> 99"
    using assms by (simp_all add: player_ok_def)
  show len: "length (p_city_list p) = 101" using n by (subst l) simp
  show "rd (p_city_list p) 0 = Inr (int (length ?cs))"
    using len by (simp add: rd_def) (subst l, simp)
  have "take 99 (drop 1 (p_city_list p)) = ?cs @ replicate (99 - length ?cs) 0"
    using n by (subst l) simp
  then show "mem_read (p_city_list p) 1 99 = Inr (?cs @ replicate (99 - length ?cs) 0)"
    using len by (simp add: mem_read_def)
qed

lemma player_zero_list: "p_city_list player_zero = 0 # replicate 100 0"
  using replicate_Suc [of 100 "0 :: int"] by (simp only: player_zero_def) simp

lemma cities_of_zero [simp]: "cities_of player_zero = []"
  by (simp add: cities_of_def player_zero_list)

lemma player_ok_zero [simp]: "player_ok player_zero"
  unfolding player_ok_def by (simp add: player_zero_list)

lemma player_ok_cong: "p_city_list p = p_city_list q \<Longrightarrow> player_ok p = player_ok q \<and> cities_of p = cities_of q"
  by (simp add: player_ok_def cities_of_def)

section \<open>Units of the pools\<close>

text \<open>Writing the memory of a unit leaves the book-keeping of its pool alone.\<close>

lemma pool_mem_update:
  "pool_inv p \<Longrightarrow> length m = length (pool_mem p) \<Longrightarrow> pool_inv (p\<lparr>pool_mem := m\<rparr>) \<and> pool_used (p\<lparr>pool_mem := m\<rparr>) = pool_used p"
  by (simp add: pool_inv_def pool_used_def)

lemma pool_pos_update [simp]:
  "pool_get_pos (p\<lparr>pool_mem := m\<rparr>) i = pool_get_pos p i" "pool_find (p\<lparr>pool_mem := m\<rparr>) i = pool_find p i"
  "pool_used (p\<lparr>pool_mem := m\<rparr>) = pool_used p"
  by (simp_all add: pool_get_pos_def pool_find_def pool_used_def)

lemma used_index:
  assumes "pool_inv p" "i \<in> pool_used p"
  shows "0 < i" "nat i < length (pool_mem p)" "i < int (length (pool_mem p))"
  using assms by (auto simp: pool_inv_def pool_used_def)

lemma used_get:
  assumes "pool_inv (player_pool w)" "i \<in> players w"
  shows "player_at w i = Inr (the_player w i)" "get_player i w = Inr (Some i)" "get_player_idx i w = Inr i"
    "put_player i p w = Inr (w\<lparr>player_pool := (player_pool w)\<lparr>pool_mem := (pool_mem (player_pool w))[nat i := p]\<rparr>\<rparr>)"
  using used_index [OF assms] assms
  by (simp_all add: player_at_def put_player_def get_player_def get_player_idx_def sp.look_law pool_get_pos_used)

lemma used_city:
  assumes "pool_inv (city_pool w)" "i \<in> cities w"
  shows "city_at w i = Inr (the_city w i)" "get_city i w = Inr (Some i)" "get_city_idx i w = Inr i"
    "put_city i c w = Inr (w\<lparr>city_pool := (city_pool w)\<lparr>pool_mem := (pool_mem (city_pool w))[nat i := c]\<rparr>\<rparr>)"
  using used_index [OF assms] assms
  by (simp_all add: city_at_def put_city_def get_city_def get_city_idx_def sp.look_law pool_get_pos_used)

lemma get_player_unused:
  "pool_inv (player_pool w) \<Longrightarrow> i \<notin> players w \<Longrightarrow> get_player i w = Inr None"
  by (simp add: get_player_def sp.look_law)

text \<open>\<open>obj_inv\<close> needs nothing of the state but the two pools.\<close>

lemma obj_inv_cong:
  "player_pool w' = player_pool w \<Longrightarrow> city_pool w' = city_pool w \<Longrightarrow> obj_inv w' = obj_inv w"
  by (simp add: obj_inv_def)

text \<open>A player may change in everything but its city list.\<close>

lemma obj_inv_put:
  assumes inv: "obj_inv w" and i: "i \<in> players w" and same: "p_city_list p = p_city_list (the_player w i)"
  shows "obj_inv (w\<lparr>player_pool := (player_pool w)\<lparr>pool_mem := (pool_mem (player_pool w))[nat i := p]\<rparr>\<rparr>)"
proof -
  let ?w = "w\<lparr>player_pool := (player_pool w)\<lparr>pool_mem := (pool_mem (player_pool w))[nat i := p]\<rparr>\<rparr>"
  have pinv: "pool_inv (player_pool w)" using inv by (simp add: obj_inv_def)
  have eq: "player_ok (the_player ?w j) = player_ok (the_player w j) \<and> cities_of (the_player ?w j) = cities_of (the_player w j)"
    if "j \<in> players w" for j
    using that i used_index [OF pinv i] used_index [OF pinv that] player_ok_cong [OF same]
    by (cases "j = i") (simp_all add: nth_list_update eq_nat_nat_iff)
  show ?thesis
    using inv pool_mem_update [OF pinv, of "(pool_mem (player_pool w))[nat i := p]"] eq
    by (simp add: obj_inv_def)
qed

section \<open>Adding a player\<close>

lemma add_player_ok:
  assumes inv: "obj_inv w" and room: "card (players w) < nat (total_unit_count (player_pool w))"
  obtains i w' where "add_player w = Inr (i, w')" "obj_inv w'" "0 < i" "i \<notin> players w"
    "players w' = insert i (players w)" "the_player w' i = player_zero"
    "\<forall>j\<in>players w. the_player w' j = the_player w j" "city_pool w' = city_pool w"
    "w' = w\<lparr>player_pool := player_pool w'\<rparr>" "i \<le> total_unit_count (player_pool w)"
    "total_unit_count (player_pool w') = total_unit_count (player_pool w)"
proof -
  have pinv: "pool_inv (player_pool w)" using inv by (simp add: obj_inv_def)
  obtain i pp where a: "pool_alloc (player_pool w) = Inr (Some i, pp)" "pool_inv pp" "0 < i" "i \<notin> players w"
    "pool_used pp = insert i (players w)" "pool_mem pp = pool_mem (player_pool w)"
    "total_unit_count pp = total_unit_count (player_pool w)"
    using pool_alloc_some [OF pinv room] by blast
  have le: "i \<le> total_unit_count (player_pool w)" using a(5,7) pool_used_sub [of pp] by auto
  let ?w1 = "w\<lparr>player_pool := pp\<rparr>"
  let ?w2 = "w\<lparr>player_pool := pp\<lparr>pool_mem := (pool_mem pp)[nat i := player_zero]\<rparr>\<rparr>"
  have iu: "i \<in> players ?w1" using a(5) by simp
  have put: "put_player i player_zero ?w1 = Inr ?w2"
    using used_get(4) [OF _ iu] a(2) by simp
  have pinv2: "pool_inv (player_pool ?w2)" using pool_mem_update [OF a(2)] by simp
  have idx: "get_player_idx i ?w2 = Inr i" using a(2) iu by (simp add: get_player_idx_def pool_get_pos_used)
  have il: "nat i < length (pool_mem pp)" using used_index(2) [OF a(2), of i] iu by simp
  have other: "the_player ?w2 j = the_player w j" if "j \<in> players w" for j
    using that a(3,4,6) used_index(1) [OF pinv that] by (cases "j = i") (simp_all add: eq_nat_nat_iff)
  have new: "the_player ?w2 i = player_zero" using il by simp
  have "obj_inv ?w2"
    unfolding obj_inv_def
  proof (intro conjI)
    show "cities ?w2 = (\<Union>j\<in>players ?w2. set (cities_of (the_player ?w2 j)))"
      using inv other new a(5) by (simp add: obj_inv_def)
    show "\<forall>j\<in>players ?w2. \<forall>k\<in>players ?w2. j \<noteq> k \<longrightarrow>
        set (cities_of (the_player ?w2 j)) \<inter> set (cities_of (the_player ?w2 k)) = {}"
    proof (intro ballI impI)
      fix j k assume "j \<in> players ?w2" "k \<in> players ?w2" "j \<noteq> k"
      then show "set (cities_of (the_player ?w2 j)) \<inter> set (cities_of (the_player ?w2 k)) = {}"
        using inv other new a(5) by (cases "j = i"; cases "k = i") (simp_all add: obj_inv_def)
    qed
    show "\<forall>j\<in>players ?w2. player_ok (the_player ?w2 j)"
      using inv other new a(5) by (simp add: obj_inv_def)
  qed (use inv pinv2 in \<open>simp_all add: obj_inv_def\<close>)
  moreover have "add_player w = Inr (i, ?w2)" using a(1) put idx by (simp add: add_player_def)
  ultimately show thesis
    using that [of i ?w2] a(3,4,5,7) new other le by simp
qed

section \<open>Deleting a player\<close>

lemma del_cities_ok:
  "pool_inv (city_pool w) \<Longrightarrow> distinct cs \<Longrightarrow> set cs \<subseteq> cities w \<Longrightarrow>
   \<exists>cp. del_cities (cs @ replicate n 0) w = Inr (w\<lparr>city_pool := cp\<rparr>) \<and> pool_inv cp \<and>
     pool_used cp = cities w - set cs \<and> pool_mem cp = pool_mem (city_pool w) \<and>
     total_unit_count cp = total_unit_count (city_pool w)"
proof (induction cs arbitrary: w)
  case Nil
  have "del_cities (replicate n 0) w = Inr w" by (induction n) simp_all
  then show ?case using Nil by (intro exI [of _ "city_pool w"]) simp
next
  case (Cons c cs)
  have c: "c \<in> cities w" "c \<noteq> 0" using Cons.prems used_index(1) [of "city_pool w" c] by auto
  obtain cp where r: "pool_release (city_pool w) c = Inr cp" "pool_inv cp" "pool_used cp = cities w - {c}"
    "total_unit_count cp = total_unit_count (city_pool w)" "pool_mem cp = pool_mem (city_pool w)"
    using pool_release_used [OF Cons.prems(1) c(1)] by blast
  have d: "del_city c w = Inr (w\<lparr>city_pool := cp\<rparr>)"
    using used_city(2) [OF Cons.prems(1) c(1)] r(1) by (simp add: del_city_def)
  have "set cs \<subseteq> cities (w\<lparr>city_pool := cp\<rparr>)" using Cons.prems(2,3) r(3) by auto
  then obtain cp' where "del_cities (cs @ replicate n 0) (w\<lparr>city_pool := cp\<rparr>) = Inr (w\<lparr>city_pool := cp'\<rparr>)"
    "pool_inv cp'" "pool_used cp' = cities w - set (c # cs)" "pool_mem cp' = pool_mem (city_pool w)"
    "total_unit_count cp' = total_unit_count (city_pool w)"
    using Cons.IH [of "w\<lparr>city_pool := cp\<rparr>"] r Cons.prems(2) by auto
  then show ?case using d c(2) by auto
qed

lemma erase_uid_pools [simp]:
  "player_pool (erase_uid_to_player_idx uid i w) = player_pool w"
  "city_pool (erase_uid_to_player_idx uid i w) = city_pool w"
  by (simp_all add: erase_uid_to_player_idx_def split: option.split)

lemma del_player_ok:
  assumes inv: "obj_inv w" and i: "i \<in> players w"
  obtains pp cp where
    "del_player i w = Inr ((erase_uid_to_player_idx (p_uid (the_player w i)) i w)\<lparr>player_pool := pp, city_pool := cp\<rparr>)"
    "obj_inv ((erase_uid_to_player_idx (p_uid (the_player w i)) i w)\<lparr>player_pool := pp, city_pool := cp\<rparr>)"
    "pool_used pp = players w - {i}" "pool_mem pp = pool_mem (player_pool w)"
    "pool_used cp = cities w - set (cities_of (the_player w i))" "pool_mem cp = pool_mem (city_pool w)"
proof -
  let ?p = "the_player w i" and ?w1 = "erase_uid_to_player_idx (p_uid (the_player w i)) i w"
  let ?cs = "cities_of (the_player w i)"
  have pinv: "pool_inv (player_pool w)" and cinv: "pool_inv (city_pool w)" and ok: "player_ok ?p"
    using inv i by (simp_all add: obj_inv_def)
  note g = used_get [OF pinv i] and l = player_ok_listD [OF ok]
  have dist: "distinct ?cs" using ok by (simp add: player_ok_def)
  have sub: "set ?cs \<subseteq> cities w" using inv i by (auto simp: obj_inv_def)
  obtain cp where d: "del_cities (?cs @ replicate (99 - length ?cs) 0) ?w1 = Inr (?w1\<lparr>city_pool := cp\<rparr>)" "pool_inv cp"
    "pool_used cp = cities w - set ?cs" "pool_mem cp = pool_mem (city_pool w)"
    using del_cities_ok [of ?w1, where cs = ?cs and n = "99 - length ?cs"] cinv dist sub by auto
  obtain pp where r: "pool_release (player_pool w) i = Inr pp" "pool_inv pp" "pool_used pp = players w - {i}"
    "pool_mem pp = pool_mem (player_pool w)"
    using pool_release_used [OF pinv i] by blast
  have same: "?w1\<lparr>city_pool := cp\<rparr> = ?w1" if "?cs = []"
  proof -
    have "del_cities (replicate n 0) v = Inr v" for n v by (induction n arbitrary: v) simp_all
    then show ?thesis using d(1) that by simp
  qed
  have "del_player i w = Inr (?w1\<lparr>player_pool := pp, city_pool := cp\<rparr>)"
  proof (cases "?cs = []")
    case True
    have "?w1\<lparr>player_pool := pp, city_pool := cp\<rparr> = (?w1\<lparr>city_pool := cp\<rparr>)\<lparr>player_pool := pp\<rparr>" by simp
    also have "\<dots> = ?w1\<lparr>player_pool := pp\<rparr>" by (simp only: same [OF True])
    finally show ?thesis using g l(2) r(1) True by (simp add: del_player_def Let_def)
  next
    case False
    then show ?thesis using g l(2,3) d(1) r(1) by (simp add: del_player_def Let_def MAX_CITY_NUM_PER_PLAYER_def)
  qed
  moreover have "obj_inv (?w1\<lparr>player_pool := pp, city_pool := cp\<rparr>)"
  proof -
    have disj: "set (cities_of (the_player w j)) \<inter> set ?cs = {}" if "j \<in> players w" "j \<noteq> i" for j
      using inv i that by (simp add: obj_inv_def)
    have "pool_used cp = (\<Union>j\<in>players w - {i}. set (cities_of (the_player w j)))"
    proof -
      have "cities w = (\<Union>j\<in>players w. set (cities_of (the_player w j)))" using inv by (simp add: obj_inv_def)
      then show ?thesis unfolding d(3) using i disj by blast
    qed
    then show ?thesis using inv r d(2) by (simp add: obj_inv_def)
  qed
  ultimately show thesis using that r(3,4) d(3,4) by blast
qed

section \<open>Players that are gone\<close>

lemma free_slot_idx:
  assumes "pool_inv p" "0 < i" "i \<le> total_unit_count p" "i \<notin> pool_used p"
  shows "pool_get_pos p i = Inl Check_Failed"
proof -
  have "\<not> pool_pos p ! nat i > 0" using assms(2-4) by (simp add: pool_used_def)
  then show ?thesis using assms(1-3) by (simp add: pool_get_pos_def pool_inv_def)
qed

text \<open>The unit of a player that has been deleted is still there, and \<open>GetPlayerIdx\<close> of it fails its check.\<close>

lemma deleted_player:
  assumes inv: "obj_inv w" and i: "i \<in> players w" and del: "del_player i w = Inr w'"
  shows "get_player_idx i w' = Inl Check_Failed" "\<exists>p. player_at w' i = Inr p" "obj_inv w'" "players w' = players w - {i}" "gout w' = gout w"
proof -
  obtain pp cp where d: "del_player i w = Inr ((erase_uid_to_player_idx (p_uid (the_player w i)) i w)\<lparr>player_pool := pp, city_pool := cp\<rparr>)"
    "obj_inv ((erase_uid_to_player_idx (p_uid (the_player w i)) i w)\<lparr>player_pool := pp, city_pool := cp\<rparr>)"
    "pool_used pp = players w - {i}" "pool_mem pp = pool_mem (player_pool w)"
    by (rule del_player_ok [OF inv i]) blast
  then have w': "w' = (erase_uid_to_player_idx (p_uid (the_player w i)) i w)\<lparr>player_pool := pp, city_pool := cp\<rparr>" using del by simp
  have pinv: "pool_inv (player_pool w)" "pool_inv pp" using inv d(2) by (simp_all add: obj_inv_def)
  have len: "int (length (pool_mem pp)) = total_unit_count pp + 1" "int (length (pool_mem pp)) = total_unit_count (player_pool w) + 1"
    using pinv d(4) by (auto simp: pool_inv_def)
  then have r: "0 < i" "i \<le> total_unit_count pp" using i by (auto simp: pool_used_def)
  show "get_player_idx i w' = Inl Check_Failed"
    using free_slot_idx [OF pinv(2) r] d(3) by (simp add: get_player_idx_def w')
  show "\<exists>p. player_at w' i = Inr p" using r len by (simp add: player_at_def w')
  show "obj_inv w'" "players w' = players w - {i}" using d(2,3) by (simp_all add: w')
  show "gout w' = gout w" by (simp add: w' erase_uid_to_player_idx_def split: option.split)
qed

section \<open>Adding a city\<close>

lemma add_city_skip:
  assumes at: "player_at w ptr = Inr p" and ok: "player_ok p"
  shows "k \<le> length (cities_of p) \<Longrightarrow>
    add_city_slots idx ptr [1..99] w = add_city_slots idx ptr [int k + 1..99] w"
proof (induction k)
  case (Suc k)
  have n: "length (cities_of p) \<le> 99" using ok by (simp add: player_ok_def)
  have "rd (p_city_list p) (int k + 1) = Inr (cities_of p ! k)"
  proof -
    have len: "length (p_city_list p) = 101" by (rule player_ok_listD(1) [OF ok])
    have "p_city_list p ! (Suc k) = cities_of p ! k"
      using ok Suc.prems by (subst (asm) player_ok_def) (metis Suc_le_lessD nth_Cons_Suc nth_append)
    then show ?thesis using len n Suc.prems by (simp add: rd_def nat_add_distrib)
  qed
  moreover have "0 < cities_of p ! k" using ok Suc.prems by (simp add: player_ok_def)
  moreover have "[int k + 1..99] = (int k + 1) # [int (Suc k) + 1..99]"
    using n Suc.prems by (subst upto_rec1) (simp_all add: add.commute)
  ultimately have "add_city_slots idx ptr [int k + 1..99] w = add_city_slots idx ptr [int (Suc k) + 1..99] w"
    using at by simp
  then show ?case using Suc by simp
qed simp

text \<open>Appending a city to a player's list.\<close>

definition own_city :: "int \<Rightarrow> player \<Rightarrow> player" where
  "own_city c p = p\<lparr>p_city_list := int (length (cities_of p) + 1) # (cities_of p @ [c]) @ replicate (99 - length (cities_of p)) 0\<rparr>"

lemma own_city_ok:
  assumes "player_ok p" "length (cities_of p) < 99" "0 < c" "c \<notin> set (cities_of p)"
  shows "player_ok (own_city c p)" "cities_of (own_city c p) = cities_of p @ [c]"
proof -
  show c: "cities_of (own_city c p) = cities_of p @ [c]"
    unfolding cities_of_def [of "own_city c p"] by (simp add: own_city_def nat_add_distrib)
  show "player_ok (own_city c p)"
    unfolding player_ok_def c using assms by (simp add: player_ok_def) (simp add: own_city_def)
qed

lemma own_city_updates:
  assumes ok: "player_ok p" and n: "length (cities_of p) < 99"
  shows "rbind (wr (p_city_list p) 0 (int (length (cities_of p)) + 1)) (\<lambda>l1. wr l1 (int (length (cities_of p)) + 1) c) =
    Inr (p_city_list (own_city c p))"
proof -
  let ?n = "length (cities_of p)"
  have l: "p_city_list p = int ?n # cities_of p @ replicate (100 - ?n) 0" using ok by (simp add: player_ok_def)
  have len: "length (p_city_list p) = 101" by (rule player_ok_listD(1) [OF ok])
  have "100 - ?n = Suc (99 - ?n)" using n by simp
  then have r: "replicate (100 - ?n) (0 :: int) = 0 # replicate (99 - ?n) 0" by simp
  have "(p_city_list p)[0 := int ?n + 1, Suc ?n := c] = (int ?n + 1) # (cities_of p @ [c]) @ replicate (99 - ?n) 0"
    by (subst l) (simp add: r)
  then show ?thesis using len n by (simp add: wr_def own_city_def nat_add_distrib)
qed

lemma free_slot:
  assumes ok: "player_ok p" and n: "length (cities_of p) < 99"
  shows "rd (p_city_list p) (int (length (cities_of p)) + 1) = Inr 0"
proof -
  have "p_city_list p = int (length (cities_of p)) # cities_of p @ replicate (100 - length (cities_of p)) 0"
    using ok by (simp add: player_ok_def)
  moreover have "(x # cities_of p @ replicate (100 - length (cities_of p)) 0) ! Suc (length (cities_of p)) = 0" for x
    using n by (simp add: nth_append)
  ultimately have "p_city_list p ! Suc (length (cities_of p)) = 0" by metis
  then show ?thesis using player_ok_listD(1) [OF ok] n by (simp add: rd_def nat_add_distrib)
qed

lemma add_city_ok:
  assumes inv: "obj_inv w" and i: "i \<in> players w" and n: "length (cities_of (the_player w i)) < 99"
    and room: "card (cities w) < nat (total_unit_count (city_pool w))"
  obtains c w' where "add_city i w = Inr (c, w')" "obj_inv w'" "0 < c" "c \<notin> cities w"
    "cities w' = insert c (cities w)" "players w' = players w" "the_player w' i = own_city c (the_player w i)"
    "\<forall>j\<in>players w. j \<noteq> i \<longrightarrow> the_player w' j = the_player w j"
    "the_city w' c = city_zero\<lparr>ct_player_idx := i\<rparr>" "\<forall>d\<in>cities w. the_city w' d = the_city w d"
    "w' = w\<lparr>player_pool := player_pool w', city_pool := city_pool w'\<rparr>"
    "total_unit_count (city_pool w') = total_unit_count (city_pool w)"
proof -
  let ?p = "the_player w i"
  have pinv: "pool_inv (player_pool w)" and cinv: "pool_inv (city_pool w)" and ok: "player_ok ?p"
    using inv i by (simp_all add: obj_inv_def)
  note g = used_get [OF pinv i] and l = player_ok_listD [OF ok] and ix = used_index [OF pinv i]
  obtain c cp where a: "pool_alloc (city_pool w) = Inr (Some c, cp)" "pool_inv cp" "0 < c" "c \<notin> cities w"
    "pool_used cp = insert c (cities w)" "pool_mem cp = pool_mem (city_pool w)"
    "total_unit_count cp = total_unit_count (city_pool w)"
    using pool_alloc_some [OF cinv room] by blast
  let ?q = "own_city c ?p"
  let ?pp = "(player_pool w)\<lparr>pool_mem := (pool_mem (player_pool w))[nat i := ?q]\<rparr>"
  let ?cp1 = "cp\<lparr>pool_mem := (pool_mem cp)[nat c := city_zero]\<rparr>"
  let ?cp2 = "cp\<lparr>pool_mem := (pool_mem cp)[nat c := city_zero\<lparr>ct_player_idx := i\<rparr>]\<rparr>"
  let ?w' = "w\<lparr>player_pool := ?pp, city_pool := ?cp2\<rparr>"
  have cnew: "c \<notin> set (cities_of ?p)" using inv i a(4) by (auto simp: obj_inv_def)
  note q = own_city_ok [OF ok n a(3) cnew]
  have cu: "c \<in> pool_used cp" using a(5) by simp
  have p1: "put_city c city_zero (w\<lparr>city_pool := cp\<rparr>) = Inr (w\<lparr>city_pool := ?cp1\<rparr>)"
    using used_city(4) [of "w\<lparr>city_pool := cp\<rparr>" c] a(2) cu by simp
  have gi: "get_city_idx c (w\<lparr>city_pool := ?cp1\<rparr>) = Inr c"
    using a(2) cu by (simp add: get_city_idx_def pool_get_pos_used)
  have p2: "put_player i ?q (w\<lparr>city_pool := ?cp1\<rparr>) = Inr (w\<lparr>city_pool := ?cp1, player_pool := ?pp\<rparr>)"
    using ix by (simp add: put_player_def)
  have p3: "put_city c (city_zero\<lparr>ct_player_idx := i\<rparr>) (w\<lparr>city_pool := ?cp1, player_pool := ?pp\<rparr>) = Inr ?w'"
    using used_index [OF a(2) cu] by (simp add: put_city_def)
  note slot0 = free_slot [OF ok n]
  have q': "?p\<lparr>p_city_list := p_city_list ?q\<rparr> = ?q" by (simp add: own_city_def)
  obtain l1 where l1: "wr (p_city_list ?p) 0 (int (length (cities_of ?p)) + 1) = Inr l1"
    "wr l1 (int (length (cities_of ?p)) + 1) c = Inr (p_city_list ?q)"
    using own_city_updates [OF ok n, of c] by (auto simp: rbind_eq_Inr_iff)
  have rec: "[int (length (cities_of ?p)) + 1..99] = (int (length (cities_of ?p)) + 1) # [int (length (cities_of ?p)) + 2..99]"
    using n by (subst upto_rec1) (simp_all add: add.commute)
  have "add_city_slots i i [1..99] w = Inr (c, ?w')"
    unfolding add_city_skip [OF g(1) ok order_refl] rec
    using g(1) slot0 a(1) p1 gi l(2) l1 p2 p3 q' by simp
  then have add: "add_city i w = Inr (c, ?w')"
    using g(1,2) l(2) n by (simp add: add_city_def MAX_CITY_NUM_PER_PLAYER_def)
  have new: "the_player ?w' i = ?q" using ix by simp
  have old: "the_player ?w' j = the_player w j" if "j \<in> players w" "j \<noteq> i" for j
    using that ix used_index [OF pinv that(1)] by (simp add: eq_nat_nat_iff)
  have cold: "the_city ?w' d = the_city w d" if "d \<in> cities w" for d
    using that a(3,4,6) used_index(1) [OF cinv that] by (cases "d = c") (simp_all add: eq_nat_nat_iff)
  have cnw: "the_city ?w' c = city_zero\<lparr>ct_player_idx := i\<rparr>" using used_index(2) [OF a(2) cu] by simp
  have "obj_inv ?w'"
    unfolding obj_inv_def
  proof (intro conjI)
    show "pool_inv (player_pool ?w')" "pool_inv (city_pool ?w')"
      using pool_mem_update [OF pinv] pool_mem_update [OF a(2)] by simp_all
    show "\<forall>j\<in>players ?w'. player_ok (the_player ?w' j)"
    proof
      fix j assume "j \<in> players ?w'"
      then show "player_ok (the_player ?w' j)"
        using new old q(1) inv by (cases "j = i") (simp_all add: obj_inv_def)
    qed
    have cs: "set (cities_of (the_player ?w' j)) = (if j = i then {c} else {}) \<union> set (cities_of (the_player w j))"
      if "j \<in> players w" for j using that new old q(2) by (cases "j = i") simp_all
    have sub: "set (cities_of (the_player w j)) \<subseteq> cities w" if "j \<in> players w" for j
      using inv that by (auto simp: obj_inv_def)
    show "\<forall>j\<in>players ?w'. \<forall>k\<in>players ?w'. j \<noteq> k \<longrightarrow>
        set (cities_of (the_player ?w' j)) \<inter> set (cities_of (the_player ?w' k)) = {}"
    proof (intro ballI impI)
      fix j k assume jk: "j \<in> players ?w'" "k \<in> players ?w'" "j \<noteq> k"
      then have jk': "j \<in> players w" "k \<in> players w" by simp_all
      have "set (cities_of (the_player w j)) \<inter> set (cities_of (the_player w k)) = {}"
        using inv jk' jk(3) by (simp add: obj_inv_def)
      then show "set (cities_of (the_player ?w' j)) \<inter> set (cities_of (the_player ?w' k)) = {}"
        unfolding cs [OF jk'(1)] cs [OF jk'(2)] using sub [OF jk'(1)] sub [OF jk'(2)] a(4) jk(3) by auto
    qed
    have "(\<Union>j\<in>players w. set (cities_of (the_player ?w' j))) = insert c (\<Union>j\<in>players w. set (cities_of (the_player w j)))"
      using cs i by (auto split: if_splits)
    moreover have "cities w = (\<Union>j\<in>players w. set (cities_of (the_player w j)))" using inv by (simp add: obj_inv_def)
    ultimately show "cities ?w' = (\<Union>j\<in>players ?w'. set (cities_of (the_player ?w' j)))" using a(5) by simp
  qed
  then show thesis
    using that [of c ?w'] add a(3,4,5,7) new old cnw cold by simp
qed

lemma add_city_full:
  assumes inv: "obj_inv w" and i: "i \<in> players w" and n: "length (cities_of (the_player w i)) = 99"
  shows "add_city i w = Inr (- 4, w)"
proof -
  let ?p = "the_player w i"
  have pinv: "pool_inv (player_pool w)" and ok: "player_ok ?p" using inv i by (simp_all add: obj_inv_def)
  have "add_city_slots i i [1..99] w = Inr (- 4, w)"
    using add_city_skip [OF used_get(1) [OF pinv i] ok order_refl] n by simp
  then show ?thesis
    using used_get [OF pinv i] player_ok_listD(2) [OF ok] n by (simp add: add_city_def MAX_CITY_NUM_PER_PLAYER_def)
qed

section \<open>Properties\<close>

text \<open>A game server without players, for the examples.\<close>

definition empty_game :: gamesvr where
  "empty_game = \<lparr>player_pool = pool_fresh 4 1000 player_zero, city_pool = pool_fresh 8 12 city_zero,
     uid_to_player_idx_map = [], logic_timer = heap_timer_new 8 100, logic_data_map = [],
     msg_buf = replicate 10240 0, gout = []\<rparr>"

lemma empty_game_inv: "obj_inv empty_game" "players empty_game = {}" "cities empty_game = {}"
  "total_unit_count (player_pool empty_game) = 4" "total_unit_count (city_pool empty_game) = 8"
proof -
  show u: "players empty_game = {}" "cities empty_game = {}"
    using pool_inv_fresh(2) [of 4] pool_inv_fresh(2) [of 8] by (simp_all add: empty_game_def)
  have "pool_inv (player_pool empty_game)" "pool_inv (city_pool empty_game)"
    using pool_inv_fresh(1) [of 4] pool_inv_fresh(1) [of 8] by (simp_all add: empty_game_def)
  then show "obj_inv empty_game" using u by (simp add: obj_inv_def)
qed (simp_all add: empty_game_def pool_fresh_def)

text \<open>One player with one city, in a server otherwise like \<open>empty_game\<close>.\<close>

lemma example_game:
  obtains i c w where "obj_inv w" "players w = {i}" "cities w = {c}" "cities_of (the_player w i) = [c]" "0 < i" "i \<le> 4"
    "total_unit_count (city_pool w) = 8" "w = empty_game\<lparr>player_pool := player_pool w, city_pool := city_pool w\<rparr>"
    "the_player w i = own_city c player_zero"
proof -
  note e = empty_game_inv
  have r1: "card (players empty_game) < nat (total_unit_count (player_pool empty_game))" using e by simp
  obtain i w1 where a: "obj_inv w1" "0 < i" "players w1 = insert i (players empty_game)" "the_player w1 i = player_zero"
    "city_pool w1 = city_pool empty_game" "w1 = empty_game\<lparr>player_pool := player_pool w1\<rparr>"
    "i \<le> total_unit_count (player_pool empty_game)"
    by (rule add_player_ok [OF e(1) r1])
  have iu: "i \<in> players w1" using a(3) by simp
  have n: "length (cities_of (the_player w1 i)) < 99" using a(4) by simp
  have r2: "card (cities w1) < nat (total_unit_count (city_pool w1))" using e a(5) by simp
  obtain c w2 where b: "obj_inv w2" "0 < c" "cities w2 = insert c (cities w1)" "players w2 = players w1"
    "the_player w2 i = own_city c (the_player w1 i)" "c \<notin> cities w1"
    "w2 = w1\<lparr>player_pool := player_pool w2, city_pool := city_pool w2\<rparr>"
    "total_unit_count (city_pool w2) = total_unit_count (city_pool w1)"
    by (rule add_city_ok [OF a(1) iu n r2])
  have "c \<notin> set (cities_of (the_player w1 i))" using a(4) by simp
  then have cs: "cities_of (the_player w2 i) = [c]" using own_city_ok(2) [of "the_player w1 i" c] a(4) b(2,5) by simp
  have "w2 = empty_game\<lparr>player_pool := player_pool w2, city_pool := city_pool w2\<rparr>"
    using a(6) b(7) by (metis gamesvr.surjective gamesvr.update_convs(1,2))
  then show thesis using that [of w2 i c] a b e cs by simp
qed

text \<open>C31: \<open>DelPlayer\<close> of a player in use frees the player and exactly the cities it owns, once each;
  the other players and their cities stay as they were and the ownership invariant holds.\<close>

theorem del_player_spec:
  assumes "obj_inv w" "i \<in> players w"
  shows "\<exists>w'. del_player i w = Inr w' \<and> obj_inv w' \<and> players w' = players w - {i} \<and>
    cities w' = cities w - set (cities_of (the_player w i)) \<and>
    (\<forall>j. the_player w' j = the_player w j) \<and> (\<forall>c. the_city w' c = the_city w c)"
  by (rule del_player_ok [OF assms]) auto

theorem del_player_spec_witness:
  "\<exists>w i w'. obj_inv w \<and> card (cities w) = 1 \<and> del_player i w = Inr w' \<and> players w' = {} \<and> cities w' = {}"
proof -
  obtain i c w where w: "obj_inv w" "players w = {i}" "cities w = {c}" "cities_of (the_player w i) = [c]"
    by (rule example_game)
  then obtain w' where "del_player i w = Inr w'" "players w' = {}" "cities w' = {}"
    using del_player_spec [of w i] by auto
  moreover have "card (cities w) = 1" using w(3) by simp
  ultimately show ?thesis using w(1) by blast
qed

text \<open>\<open>AddCity\<close> for a player in use, while the city pool has room, gives the player a fresh
  zeroed city that knows its owner, appended to the player's list; but a player with 99 cities
  gets \<open>-4\<close>, although \<open>MAX_CITY_NUM_PER_PLAYER\<close> is 100 and the list has a hundredth slot.\<close>

theorem add_city_spec:
  assumes inv: "obj_inv w" and i: "i \<in> players w" and room: "card (cities w) < nat (total_unit_count (city_pool w))"
  shows "if length (cities_of (the_player w i)) = 99 then add_city i w = Inr (- 4, w)
    else \<exists>c w'. add_city i w = Inr (c, w') \<and> obj_inv w' \<and> 0 < c \<and> c \<notin> cities w \<and> cities w' = insert c (cities w) \<and>
      cities_of (the_player w' i) = cities_of (the_player w i) @ [c] \<and>
      the_city w' c = city_zero\<lparr>ct_player_idx := i\<rparr> \<and> (\<forall>j\<in>players w. j \<noteq> i \<longrightarrow> the_player w' j = the_player w j)"
proof (cases "length (cities_of (the_player w i)) = 99")
  case True
  then show ?thesis using add_city_full [OF inv i] by simp
next
  case False
  have ok: "player_ok (the_player w i)" using inv i by (simp add: obj_inv_def)
  then have n: "length (cities_of (the_player w i)) < 99" using False by (simp add: player_ok_def)
  obtain c w' where r: "add_city i w = Inr (c, w')" "obj_inv w'" "0 < c" "c \<notin> cities w"
    "cities w' = insert c (cities w)" "the_player w' i = own_city c (the_player w i)"
    "\<forall>j\<in>players w. j \<noteq> i \<longrightarrow> the_player w' j = the_player w j" "the_city w' c = city_zero\<lparr>ct_player_idx := i\<rparr>"
    by (rule add_city_ok [OF inv i n room])
  have "c \<notin> set (cities_of (the_player w i))" using inv i r(4) by (auto simp: obj_inv_def)
  then show ?thesis using own_city_ok(2) [OF ok n r(3)] r False by auto
qed

theorem add_city_spec_witness:
  "\<exists>w i c d w'. cities_of (the_player w i) = [c] \<and> add_city i w = Inr (d, w') \<and> cities_of (the_player w' i) = [c, d] \<and> d \<noteq> c"
proof -
  obtain i c w where w: "obj_inv w" "players w = {i}" "cities w = {c}" "cities_of (the_player w i) = [c]"
    "total_unit_count (city_pool w) = 8" by (rule example_game)
  then obtain d w' where "add_city i w = Inr (d, w')" "cities_of (the_player w' i) = [c, d]" "d \<noteq> c"
    using add_city_spec [of w i] by auto
  then show ?thesis using w(4) by blast
qed

text \<open>After the first player met, the restore stays in its fault.\<close>

lemma restore_stuck:
  assumes "length (pool_pos p) = n" "length (pool_mem p) = n" "\<forall>i\<in>set is. i < n"
  shows "travel_units (restore_uid_to_player_idx_map mm) p is (Inl e) = Inr (Inl e)"
  using assms(3) by (induction "is") (auto simp: assms(1,2) restore_uid_to_player_idx_map_def)

lemma restore_units:
  assumes "length (pool_pos p) = n" "length (pool_mem p) = n" and "find_module mm MODULE_ID_PLAYER_MGR = Inl e"
  shows "\<forall>i\<in>set is. i < n \<Longrightarrow> travel_units (restore_uid_to_player_idx_map mm) p is (Inr w) =
    Inr (if \<exists>i\<in>set is. 0 < pool_pos p ! i then Inl e else Inr w)"
proof (induction "is")
  case (Cons i "is")
  have stuck: "restore_uid_to_player_idx_map mm (int i) (pool_mem p ! i) (Inr w) = Inl e"
    using assms(3) by (simp add: restore_uid_to_player_idx_map_def)
  show ?case using Cons assms(1,2) stuck restore_stuck [OF assms(1,2), where mm = mm and e = e] by auto
qed simp

lemma obj_mgr_init_result:
  "pool_inv pp \<Longrightarrow>
   obj_mgr_init (modules_before_obj_mgr config timer msg) (0, Some pp) (0, Some cp) w =
     (if pool_used pp = {} then Inr (w\<lparr>player_pool := pp, city_pool := cp\<rparr>) else Inl Check_Failed)"
proof -
  assume inv: "pool_inv pp"
  let ?mm = "modules_before_obj_mgr config timer msg" and ?is = "[1..<nat (total_unit_count pp) + 1]"
  have nf: "find_module ?mm MODULE_ID_PLAYER_MGR = Inl Check_Failed"
    by (simp add: modules_before_obj_mgr_def find_module_def add_module_def MODULE_ID_PLAYER_MGR_def u64_id)
  have len: "length (pool_pos pp) = nat (total_unit_count pp) + 1" "length (pool_mem pp) = nat (total_unit_count pp) + 1"
    using inv by (simp_all add: pool_inv_def)
  have "(\<exists>i\<in>set ?is. 0 < pool_pos pp ! i) \<longleftrightarrow> pool_used pp \<noteq> {}"
  proof
    assume "\<exists>i\<in>set ?is. 0 < pool_pos pp ! i"
    then obtain i where "i \<in> set ?is" "0 < pool_pos pp ! i" by blast
    then have "0 < int i" "int i \<le> total_unit_count pp" "0 < pool_pos pp ! nat (int i)" by auto
    then have "int i \<in> pool_used pp" by (simp add: pool_used_def)
    then show "pool_used pp \<noteq> {}" by blast
  next
    assume "pool_used pp \<noteq> {}"
    then obtain i where "i \<in> pool_used pp" by blast
    then show "\<exists>i\<in>set ?is. 0 < pool_pos pp ! i" by (intro bexI [of _ "nat i"]) (auto simp: pool_used_def)
  qed
  moreover have "\<forall>i\<in>set ?is. i < nat (total_unit_count pp) + 1" by auto
  ultimately show ?thesis
    using restore_units [OF len nf, of ?is "w\<lparr>player_pool := pp, city_pool := cp\<rparr>"]
    by (simp add: obj_mgr_init_def travel_pool_def Let_def del: upt_Suc)
qed

text \<open>C40: A game server that starts on a shared-memory segment holding at least one player, the
  case the segments exist for, aborts: restoring the uid map looks the object manager up in the
  module map before it has been added. An empty segment starts normally.\<close>

theorem restart_with_players_aborts:
  "pool_inv pp \<Longrightarrow>
   obj_mgr_init (modules_before_obj_mgr config timer msg) (0, Some pp) (0, Some cp) w =
     (if pool_used pp = {} then Inr (w\<lparr>player_pool := pp, city_pool := cp\<rparr>) else Inl Check_Failed)"
  by (rule obj_mgr_init_result)

theorem restart_with_players_aborts_witness:
  "\<exists>pp. obj_mgr_init (modules_before_obj_mgr ''config'' ''timer'' ''msg'') (0, Some pp)
     (0, Some (pool_fresh 8 12 city_zero)) empty_game = Inl Check_Failed"
proof -
  obtain i c v where v: "obj_inv v" "players v = {i}" by (rule example_game)
  have "pool_inv (player_pool v)" using v(1) by (simp add: obj_inv_def)
  then show ?thesis using restart_with_players_aborts [of "player_pool v" "''config''" "''timer''" "''msg''"] v(2)
    by (intro exI [of _ "player_pool v"]) simp
qed

end
