(* ===== verification/Game_Player.thy ===== *)
theory Game_Player
  imports Game_Obj_Props
begin

text \<open>
  What a \<open>Player\<close> does (\<open>gamesvr/obj_mgr_module/object/player.cpp\<close>) and the two functions
  of \<open>MsgModule\<close> it sends with (\<open>gamesvr/msg_module\<close>). \<open>this\<close> is the player's unit; the
  methods run after \<open>AppInit\<close>, when \<open>FindModule\<close> finds every module.
\<close>

section \<open>Sending\<close>

text \<open>\<open>SendMsg\<close> on the socket to datasvr; the serialiser fails when \<open>PKG_BUF_SIZE\<close> is too small.\<close>

definition send_to_datasvr :: "game_sys \<Rightarrow> ss_msg \<Rightarrow> gamesvr \<Rightarrow> int \<times> gamesvr" where
  "send_to_datasvr sys msg w =
     (case gs_ser_ss sys msg of
        None \<Rightarrow> (- 1, w)
      | Some b \<Rightarrow>
          let ret = gs_send_data sys (gout w) b; w1 = gemit (G_Data b ret) w in
          if ret < 0 then (- 2, w1) else (0, w1))"

definition send_to_connsvr :: "game_sys \<Rightarrow> cs_msg option \<Rightarrow> conn_cmd \<Rightarrow> int \<Rightarrow> int \<Rightarrow> gamesvr \<Rightarrow> int \<times> gamesvr" where
  "send_to_connsvr sys msg conn_cmd conn_fd player_idx w =
     (let hd = put_conn_data \<lparr>cd_conn_fd = conn_fd, cd_player_idx = player_idx, cd_conn_cmd = conn_cmd_code conn_cmd\<rparr> in
      case (case msg of None \<Rightarrow> Some hd | Some m \<Rightarrow> map_option ((@) hd) (gs_ser_cs sys m)) of
        None \<Rightarrow> (- 1, w)
      | Some b \<Rightarrow>
          let ret = gs_send_conn sys (gout w) b; w1 = gemit (G_Conn b ret) w in
          if ret < 0 then (- 1, w1) else (0, w1))"

text \<open>A message to the client of the player, with the connection command \<open>cmd\<close>.\<close>

definition player_send :: "game_sys \<Rightarrow> cs_msg \<Rightarrow> conn_cmd \<Rightarrow> int \<Rightarrow> gamesvr \<Rightarrow> gamesvr res" where
  "player_send sys msg cmd ptr w =
     rbind (player_at w ptr) (\<lambda>p.
     rbind (get_player_idx ptr w) (\<lambda>player_idx.
     Inr (snd (send_to_connsvr sys (Some msg) cmd (p_conn_fd p) player_idx w))))"

section \<open>Setters\<close>

definition set_uid :: "64 word \<Rightarrow> int \<Rightarrow> gamesvr \<Rightarrow> gamesvr res" where
  "set_uid uid ptr w =
     rbind (get_player_idx ptr w) (\<lambda>player_idx.
     let w1 = bind_uid_to_player_idx uid player_idx w in
     rbind (player_at w1 ptr) (\<lambda>p. put_player ptr (p\<lparr>p_uid := uid\<rparr>) w1))"

definition set_conn_fd :: "int \<Rightarrow> int \<Rightarrow> gamesvr \<Rightarrow> gamesvr res" where
  "set_conn_fd fd ptr w = rbind (player_at w ptr) (\<lambda>p. put_player ptr (p\<lparr>p_conn_fd := fd\<rparr>) w)"

definition set_password_hash :: "64 word \<Rightarrow> int \<Rightarrow> gamesvr \<Rightarrow> gamesvr res" where
  "set_password_hash h ptr w = rbind (player_at w ptr) (\<lambda>p. put_player ptr (p\<lparr>p_password_hash := h\<rparr>) w)"

definition set_player_by_db :: "role_info \<Rightarrow> int \<Rightarrow> gamesvr \<Rightarrow> gamesvr res" where
  "set_player_by_db r ptr w =
     rbind (player_at w ptr) (\<lambda>p. put_player ptr (p\<lparr>p_money := ri_money r, p_level := ri_level r\<rparr>) w)"

definition set_city_by_db :: "city_info \<Rightarrow> int \<Rightarrow> gamesvr \<Rightarrow> gamesvr res" where
  "set_city_by_db ci ptr w = rbind (city_at w ptr) (\<lambda>c. put_city ptr (c\<lparr>ct_population := ci_population ci\<rparr>) w)"

definition set_city_player_idx :: "int \<Rightarrow> int \<Rightarrow> gamesvr \<Rightarrow> gamesvr res" where
  "set_city_player_idx idx ptr w = rbind (city_at w ptr) (\<lambda>c. put_city ptr (c\<lparr>ct_player_idx := idx\<rparr>) w)"

section \<open>Requests to datasvr\<close>

text \<open>The cities of a saved player; a city that cannot be found is a null pointer read.\<close>

fun city_infos :: "int list \<Rightarrow> gamesvr \<Rightarrow> city_info list res" where
  "city_infos [] w = Inr []"
| "city_infos (c # cs) w =
     (if c \<noteq> 0 then
        rbind (get_city c w) (\<lambda>city.
        case city of None \<Rightarrow> Inl Null_Deref
        | Some ptr \<Rightarrow> rbind (city_at w ptr) (\<lambda>ct.
            rbind (city_infos cs w) (\<lambda>is. Inr (\<lparr>ci_id = 0, ci_population = ct_population ct\<rparr> # is))))
      else city_infos cs w)"

definition do_update_player_data :: "game_sys \<Rightarrow> 64 word \<Rightarrow> int \<Rightarrow> gamesvr \<Rightarrow> gamesvr res" where
  "do_update_player_data sys seq ptr w =
     rbind (get_player_idx ptr w) (\<lambda>player_idx.
     rbind (player_at w ptr) (\<lambda>p.
     rbind (mem_read (p_city_list p) 1 (MAX_CITY_NUM_PER_PLAYER - 1)) (\<lambda>slots.
     rbind (city_infos slots w) (\<lambda>cs.
     case gs_ser_pd sys \<lparr>pd_role_info = \<lparr>ri_money = p_money p, ri_level = p_level p\<rparr>, pd_city_list = cs\<rparr> of
       None \<Rightarrow> Inr w
     | Some b \<Rightarrow> Inr (snd (send_to_datasvr sys
           (ss_empty\<lparr>ss_cmd := kSetPlayerDataReq, ss_seq := seq, ss_player_idx := player_idx,
              ss_set_player_data_req := Some \<lparr>spq_uid = p_uid p, spq_player_data = b\<rparr>\<rparr>) w))))))"

definition do_get_player_data :: "game_sys \<Rightarrow> 64 word \<Rightarrow> 64 word \<Rightarrow> 64 word \<Rightarrow> int \<Rightarrow> gamesvr \<Rightarrow> gamesvr res" where
  "do_get_player_data sys seq uid password_hash ptr w =
     rbind (get_player_idx ptr w) (\<lambda>player_idx.
     Inr (snd (send_to_datasvr sys
       (ss_empty\<lparr>ss_cmd := kGetPlayerDataReq, ss_seq := seq, ss_player_idx := player_idx,
          ss_get_player_data_req := Some \<lparr>ak_uid = uid, ak_password_hash = password_hash\<rparr>\<rparr>) w)))"

definition do_account_verify :: "game_sys \<Rightarrow> 64 word \<Rightarrow> 64 word \<Rightarrow> 64 word \<Rightarrow> int \<Rightarrow> gamesvr \<Rightarrow> gamesvr res" where
  "do_account_verify sys seq uid password_hash ptr w =
     rbind (get_player_idx ptr w) (\<lambda>player_idx.
     Inr (snd (send_to_datasvr sys
       (ss_empty\<lparr>ss_cmd := kAccountVerifyReq, ss_seq := seq, ss_player_idx := player_idx,
          ss_account_verify_req := Some \<lparr>ak_uid = uid, ak_password_hash = password_hash\<rparr>\<rparr>) w)))"

text \<open>The data of a new account; the generated serialiser works on it like on any other.\<close>

definition initial_player_data :: player_data where
  "initial_player_data = \<lparr>pd_role_info = \<lparr>ri_money = 1000, ri_level = 1\<rparr>,
     pd_city_list = [\<lparr>ci_id = 1121, ci_population = 0\<rparr>]\<rparr>"

definition do_account_reg ::
  "game_sys \<Rightarrow> 64 word \<Rightarrow> 64 word \<Rightarrow> 64 word \<Rightarrow> bytes option \<Rightarrow> int \<Rightarrow> gamesvr \<Rightarrow> gamesvr res" where
  "do_account_reg sys seq uid password_hash account ptr w =
     rbind (get_player_idx ptr w) (\<lambda>player_idx.
     case gs_ser_pd sys initial_player_data of
       None \<Rightarrow> Inr w
     | Some b \<Rightarrow> Inr (snd (send_to_datasvr sys
           (ss_empty\<lparr>ss_cmd := kAccountRegReq, ss_seq := seq, ss_player_idx := player_idx,
              ss_account_reg_req := Some \<lparr>arq_uid = uid, arq_password_hash = password_hash,
                arq_account = account, arq_player_data = b\<rparr>\<rparr>) w)))"

section \<open>Answers to the client\<close>

definition send_failed_cs_res :: "game_sys \<Rightarrow> 64 word \<Rightarrow> int \<Rightarrow> int \<Rightarrow> int \<Rightarrow> gamesvr \<Rightarrow> gamesvr res" where
  "send_failed_cs_res sys seq cmd err_ret ptr w =
     player_send sys (cs_empty\<lparr>cs_cmd := cmd, cs_ret := err_ret, cs_seq := seq\<rparr>)
       (if cmd = kLoginRes then CONN_STOP else CONN_START) ptr w"

definition send_ok_cs_quick_reg_res :: "game_sys \<Rightarrow> 64 word \<Rightarrow> 64 word \<Rightarrow> bytes \<Rightarrow> int \<Rightarrow> gamesvr \<Rightarrow> gamesvr res" where
  "send_ok_cs_quick_reg_res sys seq uid password ptr w =
     player_send sys (cs_empty\<lparr>cs_cmd := kQuickRegRes, cs_seq := seq,
       cs_quick_reg_res := Some \<lparr>am_account = to_string_u64 uid, am_password = password\<rparr>\<rparr>) CONN_START ptr w"

definition send_ok_cs_normal_reg_res :: "game_sys \<Rightarrow> 64 word \<Rightarrow> bytes \<Rightarrow> bytes \<Rightarrow> int \<Rightarrow> gamesvr \<Rightarrow> gamesvr res" where
  "send_ok_cs_normal_reg_res sys seq account password ptr w =
     player_send sys (cs_empty\<lparr>cs_cmd := kNormalRegRes, cs_seq := seq,
       cs_normal_reg_res := Some \<lparr>am_account = account, am_password = password\<rparr>\<rparr>) CONN_START ptr w"

text \<open>\<open>set_numb(1222)\<close> stores a \<open>bool\<close>.\<close>

definition send_ok_cs_login_res :: "game_sys \<Rightarrow> 64 word \<Rightarrow> int \<Rightarrow> gamesvr \<Rightarrow> gamesvr res" where
  "send_ok_cs_login_res sys seq ptr w =
     player_send sys (cs_empty\<lparr>cs_cmd := kLoginRes, cs_seq := seq, cs_login_res := Some True\<rparr>) CONN_START ptr w"

definition send_role_info_notify :: "game_sys \<Rightarrow> int \<Rightarrow> gamesvr \<Rightarrow> gamesvr res" where
  "send_role_info_notify sys ptr w =
     rbind (player_at w ptr) (\<lambda>p.
     player_send sys (cs_empty\<lparr>cs_cmd := kRoleInfoNtf,
       cs_role_info_ntf := Some \<lparr>ri_money = p_money p, ri_level = p_level p\<rparr>\<rparr>) CONN_PROC ptr w)"

definition send_server_kick_off_notify :: "game_sys \<Rightarrow> int \<Rightarrow> gamesvr \<Rightarrow> gamesvr res" where
  "send_server_kick_off_notify sys ptr w =
     player_send sys (cs_empty\<lparr>cs_cmd := kServerKickOffNtf\<rparr>) CONN_STOP ptr w"

section \<open>Frames\<close>

text \<open>What sending leaves alone.\<close>

definition same_objects :: "gamesvr \<Rightarrow> gamesvr \<Rightarrow> bool" where
  "same_objects w w' \<longleftrightarrow> w' = w\<lparr>gout := gout w'\<rparr>"

lemma same_objects_refl [simp]: "same_objects w w"
  by (simp add: same_objects_def)

lemma same_objects_gemit [simp]: "same_objects w (gemit e w)"
  by (simp add: same_objects_def gemit_def)

lemma same_objects_trans: "same_objects a b \<Longrightarrow> same_objects b c \<Longrightarrow> same_objects a c"
  by (cases a; cases b; cases c) (simp add: same_objects_def)

lemma same_objectsD:
  assumes "same_objects w w'"
  shows "player_pool w' = player_pool w" "city_pool w' = city_pool w"
    "uid_to_player_idx_map w' = uid_to_player_idx_map w" "logic_timer w' = logic_timer w"
    "logic_data_map w' = logic_data_map w" "msg_buf w' = msg_buf w"
  using assms by (cases w; cases w'; simp add: same_objects_def)+

lemma send_same [simp]:
  "same_objects w (snd (send_to_datasvr sys m w))" "same_objects w (snd (send_to_connsvr sys om cmd fd idx w))"
  by (simp_all add: send_to_datasvr_def send_to_connsvr_def Let_def split: option.split)

lemma player_send_ok:
  assumes "pool_inv (player_pool w)" "i \<in> players w"
  shows "player_send sys m cmd i w = Inr (snd (send_to_connsvr sys (Some m) cmd (p_conn_fd (the_player w i)) i w))"
  using used_get [OF assms] by (simp add: player_send_def)

text \<open>Changing a player in place.\<close>

definition upd_player :: "int \<Rightarrow> (player \<Rightarrow> player) \<Rightarrow> gamesvr \<Rightarrow> gamesvr" where
  "upd_player i f w =
     w\<lparr>player_pool := (player_pool w)\<lparr>pool_mem := (pool_mem (player_pool w))[nat i := f (the_player w i)]\<rparr>\<rparr>"

lemma upd_player_simps [simp]:
  "city_pool (upd_player i f w) = city_pool w" "logic_timer (upd_player i f w) = logic_timer w"
  "uid_to_player_idx_map (upd_player i f w) = uid_to_player_idx_map w" "gout (upd_player i f w) = gout w"
  "logic_data_map (upd_player i f w) = logic_data_map w" "players (upd_player i f w) = players w"
  "total_unit_count (player_pool (upd_player i f w)) = total_unit_count (player_pool w)"
  by (simp_all add: upd_player_def)

lemma upd_player_inv:
  assumes "obj_inv w" "i \<in> players w" "p_city_list (f (the_player w i)) = p_city_list (the_player w i)"
  shows "obj_inv (upd_player i f w)"
  using obj_inv_put [OF assms] by (simp add: upd_player_def)

lemma the_player_upd:
  assumes "pool_inv (player_pool w)" "i \<in> players w"
  shows "the_player (upd_player i f w) i = f (the_player w i)"
    "j \<in> players w \<Longrightarrow> j \<noteq> i \<Longrightarrow> the_player (upd_player i f w) j = the_player w j"
  using used_index [OF assms] used_index(1) [OF assms(1), of j] by (simp_all add: upd_player_def eq_nat_nat_iff)

lemma setters:
  assumes "pool_inv (player_pool w)" "i \<in> players w"
  shows "set_conn_fd fd i w = Inr (upd_player i (\<lambda>p. p\<lparr>p_conn_fd := fd\<rparr>) w)"
    "set_password_hash h i w = Inr (upd_player i (\<lambda>p. p\<lparr>p_password_hash := h\<rparr>) w)"
    "set_player_by_db r i w = Inr (upd_player i (\<lambda>p. p\<lparr>p_money := ri_money r, p_level := ri_level r\<rparr>) w)"
    "set_uid u i w = Inr (upd_player i (\<lambda>p. p\<lparr>p_uid := u\<rparr>) (bind_uid_to_player_idx u i w))"
  using used_get [OF assms] used_get [of "bind_uid_to_player_idx u i w" i] assms
  by (simp_all add: set_conn_fd_def set_password_hash_def set_player_by_db_def set_uid_def upd_player_def
      bind_uid_to_player_idx_def Let_def)

lemma bind_uid_simps [simp]:
  "player_pool (bind_uid_to_player_idx u i w) = player_pool w" "city_pool (bind_uid_to_player_idx u i w) = city_pool w"
  "logic_timer (bind_uid_to_player_idx u i w) = logic_timer w" "logic_data_map (bind_uid_to_player_idx u i w) = logic_data_map w"
  "gout (bind_uid_to_player_idx u i w) = gout w"
  by (simp_all add: bind_uid_to_player_idx_def)

lemma obj_inv_bind [simp]: "obj_inv (bind_uid_to_player_idx u i w) = obj_inv w"
  by (rule obj_inv_cong) simp_all

section \<open>Properties\<close>

text \<open>A client that logs in to two accounts over one connection leaves the first account bound
  for ever: after \<open>set_uid\<close> twice and \<open>DelPlayer\<close> the player is gone, the second uid is
  unbound, but the first uid still maps to the freed index.\<close>

theorem relogin_locks_account:
  assumes inv: "obj_inv w" and i: "i \<in> players w" and u: "u1 \<noteq> u2"
    and map: "smap_ok (uid_to_player_idx_map w)" "map_of (uid_to_player_idx_map w) u1 = None"
      "map_of (uid_to_player_idx_map w) u2 = None"
  shows "\<exists>w'. rbind (set_uid u1 i w) (\<lambda>w1. rbind (set_uid u2 i w1) (del_player i)) = Inr w' \<and>
    get_player i w' = Inr None \<and> find_player_idx_by_uid u1 w' = i \<and> find_player_idx_by_uid u2 w' = 0"
proof -
  let ?w1 = "upd_player i (\<lambda>p. p\<lparr>p_uid := u1\<rparr>) (bind_uid_to_player_idx u1 i w)"
  let ?w2 = "upd_player i (\<lambda>p. p\<lparr>p_uid := u2\<rparr>) (bind_uid_to_player_idx u2 i ?w1)"
  have inv1: "obj_inv ?w1" by (rule upd_player_inv) (use inv i in simp_all)
  have i1: "i \<in> players ?w1" using i by simp
  have inv2: "obj_inv ?w2" by (rule upd_player_inv) (use inv1 i in simp_all)
  have i2: "i \<in> players ?w2" using i by simp
  have pinv: "pool_inv (player_pool w)" "pool_inv (player_pool ?w1)" "pool_inv (player_pool ?w2)"
    using inv inv1 inv2 by (simp_all only: obj_inv_def)
  have s1: "set_uid u1 i w = Inr ?w1" by (rule setters(4) [OF pinv(1) i])
  have s2: "set_uid u2 i ?w1 = Inr ?w2" by (rule setters(4) [OF pinv(2) i1])
  have uid: "p_uid (the_player ?w2 i) = u2"
    using the_player_upd(1) [of "bind_uid_to_player_idx u2 i ?w1" i] pinv(2) i1 by simp
  have m2: "map_of (uid_to_player_idx_map ?w2) = (map_of (uid_to_player_idx_map w))(u1 \<mapsto> i, u2 \<mapsto> i)"
    using map u by (simp add: bind_uid_to_player_idx_def)
  obtain pp cp where d: "del_player i ?w2 = Inr ((erase_uid_to_player_idx (p_uid (the_player ?w2 i)) i ?w2)\<lparr>player_pool := pp, city_pool := cp\<rparr>)"
    "obj_inv ((erase_uid_to_player_idx (p_uid (the_player ?w2 i)) i ?w2)\<lparr>player_pool := pp, city_pool := cp\<rparr>)"
    "pool_used pp = players ?w2 - {i}"
    by (rule del_player_ok [OF inv2 i2])
  let ?w3 = "(erase_uid_to_player_idx u2 i ?w2)\<lparr>player_pool := pp, city_pool := cp\<rparr>"
  have "get_player i ?w3 = Inr None"
    by (rule get_player_unused) (use d(2,3) uid in \<open>simp_all add: obj_inv_def\<close>)
  moreover have "map_of (uid_to_player_idx_map ?w3) = (map_of (uid_to_player_idx_map w))(u1 \<mapsto> i, u2 := None)"
    using m2 by (simp add: erase_uid_to_player_idx_def)
  ultimately show ?thesis
    using s1 s2 d(1) uid u by (intro exI [of _ ?w3]) (simp add: find_player_idx_by_uid_def)
qed

theorem relogin_locks_account_witness:
  "\<exists>w i w'. obj_inv w \<and> 0 < i \<and> rbind (set_uid 7 i w) (\<lambda>w1. rbind (set_uid 8 i w1) (del_player i)) = Inr w' \<and>
     get_player i w' = Inr None \<and> find_player_idx_by_uid 7 w' = i"
proof -
  obtain i c w where w: "obj_inv w" "players w = {i}" "0 < i"
    "w = empty_game\<lparr>player_pool := player_pool w, city_pool := city_pool w\<rparr>"
    by (rule example_game)
  have "uid_to_player_idx_map w = []" by (subst w(4)) (simp add: empty_game_def)
  then show ?thesis using relogin_locks_account [OF w(1), of i 7 8] w by auto
qed

end
