(* ===== verification/Game_Logic.thy ===== *)
theory Game_Logic
  imports Game_Player Heap_Timer_Spec
begin

text \<open>
  The asynchronous logics of the game server: \<open>LogicBase\<close> and the four logics
  (\<open>gamesvr/logic_module/logic\<close>), and \<open>LogicModule\<close>, which creates a logic with a timer,
  steps it on every answer and drops it when the timer fires.

  The void pointers a step receives are values that say what they point to; reading a message
  through a pointer to the other message class is the fault \<open>Type_Confusion\<close>. A step returns
  its code, its memory and the new state.
\<close>

section \<open>LogicBase\<close>

definition LOGIC_FAILED :: int where "LOGIC_FAILED = - 1"
definition LOGIC_YIELD :: int where "LOGIC_YIELD = 0"
definition LOGIC_FINISH :: int where "LOGIC_FINISH = 99"

definition LOGIC_NORMAL_REG :: int where "LOGIC_NORMAL_REG = 1"
definition LOGIC_QUICK_REG :: int where "LOGIC_QUICK_REG = 2"
definition LOGIC_LOGIN :: int where "LOGIC_LOGIN = 3"
definition LOGIC_UPDATE_PLAYER :: int where "LOGIC_UPDATE_PLAYER = 4"

lemmas logic_consts = LOGIC_FAILED_def LOGIC_YIELD_def LOGIC_FINISH_def LOGIC_NORMAL_REG_def
  LOGIC_QUICK_REG_def LOGIC_LOGIN_def LOGIC_UPDATE_PLAYER_def

datatype lmsg = L_Null | L_Cs cs_msg | L_Ss ss_msg
datatype largs = A_Null | A_Conn conn_data | A_Idx int

fun as_cs :: "lmsg \<Rightarrow> cs_msg res" where
  "as_cs L_Null = Inl Null_Deref"
| "as_cs (L_Cs m) = Inr m"
| "as_cs (L_Ss _) = Inl Type_Confusion"

fun as_ss :: "lmsg \<Rightarrow> ss_msg res" where
  "as_ss L_Null = Inl Null_Deref"
| "as_ss (L_Cs _) = Inl Type_Confusion"
| "as_ss (L_Ss m) = Inr m"

text \<open>\<open>((ConnData* )args)->player_idx\<close> and \<open>*(int32_t* )args\<close>.\<close>

fun args_player_idx :: "largs \<Rightarrow> int res" where
  "args_player_idx A_Null = Inl Null_Deref"
| "args_player_idx (A_Conn d) = Inr (cd_player_idx d)"
| "args_player_idx (A_Idx _) = Inl Out_Of_Bounds"

fun args_int :: "largs \<Rightarrow> int res" where
  "args_int A_Null = Inl Null_Deref"
| "args_int (A_Conn d) = Inr (cd_conn_fd d)"
| "args_int (A_Idx i) = Inr i"

type_synonym logic_func = "game_sys \<Rightarrow> logic_data \<Rightarrow> lmsg \<Rightarrow> largs \<Rightarrow> gamesvr \<Rightarrow> (int \<times> logic_data \<times> gamesvr) res"

definition logic_base_proc :: "logic_func list \<Rightarrow> logic_func" where
  "logic_base_proc fs sys d msg args w =
     (if lg_step d < 0 \<or> lg_step d \<ge> int (length fs) then Inr (LOGIC_FAILED, d, w)
      else (fs ! nat (lg_step d)) sys d msg args w)"

definition change_step :: "logic_data \<Rightarrow> int \<Rightarrow> logic_data" where
  "change_step d step = d\<lparr>lg_step := step\<rparr>"

text \<open>C strings: \<open>strncpy\<close> pads with zeros and may leave no terminator; reading a string runs on
  to the next zero byte of the memory behind it.\<close>

definition strncpy :: "bytes \<Rightarrow> nat \<Rightarrow> bytes" where
  "strncpy src n = (let s = takeWhile (\<lambda>b. b \<noteq> 0) src in take n s @ replicate (n - length s) 0)"

definition c_string :: "bytes \<Rightarrow> bytes res" where
  "c_string mem = (if 0 \<in> set mem then Inr (takeWhile (\<lambda>b. b \<noteq> 0) mem) else Inl Out_Of_Bounds)"

text \<open>A step's end that has sent something.\<close>

definition done_with :: "int \<Rightarrow> logic_data \<Rightarrow> gamesvr res \<Rightarrow> (int \<times> logic_data \<times> gamesvr) res" where
  "done_with ret d r = rbind r (\<lambda>w. Inr (ret, d, w))"

section \<open>Registration\<close>

definition normal_reg_step0 :: logic_func where
  "normal_reg_step0 sys d msg args w =
     rbind (as_cs msg) (\<lambda>m.
     let req = account_msg_of (cs_normal_reg_req m) in
     if length (am_account req) > 32 then Inr (LOGIC_FAILED, d, w)
     else
       let d1 = d\<lparr>l_account := strncpy (am_account req) 32\<rparr> in
       if length (am_password req) > 16 then Inr (LOGIC_FAILED, d1, w)
       else
         let d2 = d1\<lparr>l_password := strncpy (am_password req) 16, l_client_seq := cs_seq m\<rparr> in
         rbind (args_player_idx args) (\<lambda>idx.
         let d3 = d2\<lparr>l_player_idx := idx\<rparr> in
         rbind (get_player idx w) (\<lambda>player.
         case player of None \<Rightarrow> Inr (LOGIC_FAILED, d3, w)
         | Some ptr \<Rightarrow>
             rbind (check_account (am_account req) (int (length (am_account req)))) (\<lambda>ret.
             if ret \<noteq> 0 then
               done_with LOGIC_FAILED d3 (send_failed_cs_res sys (l_client_seq d3) kNormalRegRes (- 1) ptr w)
             else
               rbind (check_password (am_password req) (int (length (am_password req)))) (\<lambda>ret.
               if ret \<noteq> 0 then
                 done_with LOGIC_FAILED d3 (send_failed_cs_res sys (l_client_seq d3) kNormalRegRes (- 1) ptr w)
               else
                 let uid = fnv64a_hash (am_account req); password_hash = fnv64a_hash (am_password req) in
                 rbind (c_string (l_account d3 @ l_password d3 @ l_tail d3)) (\<lambda>account.
                 done_with LOGIC_YIELD (change_step d3 1)
                   (do_account_reg sys (lg_logic_id d3) uid password_hash (Some account) ptr w)))))))"

definition normal_reg_step1 :: logic_func where
  "normal_reg_step1 sys d msg args w =
     rbind (as_ss msg) (\<lambda>m.
     rbind (get_player (l_player_idx d) w) (\<lambda>player.
     case player of None \<Rightarrow> Inr (LOGIC_FAILED, d, w)
     | Some ptr \<Rightarrow>
         if ss_ret m = 0 then
           rbind (c_string (l_account d @ l_password d @ l_tail d)) (\<lambda>account.
           rbind (c_string (l_password d @ l_tail d)) (\<lambda>password.
           done_with LOGIC_FINISH d (send_ok_cs_normal_reg_res sys (l_client_seq d) account password ptr w)))
         else
           done_with LOGIC_FINISH d (send_failed_cs_res sys (l_client_seq d) kNormalRegRes (- 1) ptr w)))"

definition quick_reg_step0 :: logic_func where
  "quick_reg_step0 sys d msg args w =
     (let d1 = d\<lparr>l_uid := gen_uid_num (gs_tsc sys (gout w)),
            l_password := strncpy (gen_password8 (gs_rand sys (gout w))) 16\<rparr> in
      rbind (as_cs msg) (\<lambda>m.
      rbind (args_player_idx args) (\<lambda>idx.
      let d2 = d1\<lparr>l_client_seq := cs_seq m, l_player_idx := idx\<rparr> in
      rbind (get_player idx w) (\<lambda>player.
      case player of None \<Rightarrow> Inr (LOGIC_FAILED, d2, w)
      | Some ptr \<Rightarrow>
          rbind (c_string (l_password d2)) (\<lambda>password.
          done_with LOGIC_YIELD (change_step d2 1)
            (do_account_reg sys (lg_logic_id d2) (l_uid d2) (fnv64a_hash password) (Some []) ptr w))))))"

definition quick_reg_step1 :: logic_func where
  "quick_reg_step1 sys d msg args w =
     rbind (as_ss msg) (\<lambda>m.
     rbind (get_player (l_player_idx d) w) (\<lambda>player.
     case player of None \<Rightarrow> Inr (LOGIC_FAILED, d, w)
     | Some ptr \<Rightarrow>
         if ss_ret m = 0 then
           rbind (c_string (l_password d)) (\<lambda>password.
           done_with LOGIC_FINISH d (send_ok_cs_quick_reg_res sys (l_client_seq d) (l_uid d) password ptr w))
         else
           done_with LOGIC_FINISH d (send_failed_cs_res sys (l_client_seq d) kNormalRegRes (- 1) ptr w)))"

section \<open>Login\<close>

text \<open>The lookup of an old player converts the uid to \<open>int32_t\<close> where the index is meant.\<close>

definition login_step0 :: logic_func where
  "login_step0 sys d msg args w =
     rbind (as_cs msg) (\<lambda>m.
     rbind (args_player_idx args) (\<lambda>idx.
     let d1 = d\<lparr>l_client_seq := cs_seq m, l_player_idx := idx\<rparr>; req = account_msg_of (cs_login_req m) in
     rbind (get_player idx w) (\<lambda>player.
     case player of None \<Rightarrow> Inr (LOGIC_FAILED, d1, w)
     | Some ptr \<Rightarrow>
         rbind (check_account (am_account req) (int (length (am_account req)))) (\<lambda>ret.
         if ret \<noteq> 0 then
           done_with LOGIC_FAILED d1 (send_failed_cs_res sys (l_client_seq d1) kLoginRes (- 1) ptr w)
         else
           let uid = (if ret = 0 then fnv64a_hash (am_account req)
                      else case to_number_u64 (am_account req) of Some n \<Rightarrow> n | None \<Rightarrow> 0);
               d2 = d1\<lparr>l_uid := uid\<rparr> in
           rbind (check_password (am_password req) (int (length (am_password req)))) (\<lambda>ret.
           if ret \<noteq> 0 then
             done_with LOGIC_FAILED d2 (send_failed_cs_res sys (l_client_seq d2) kLoginRes (- 1) ptr w)
           else
             let d3 = d2\<lparr>l_password_hash := fnv64a_hash (am_password req)\<rparr>;
                 old_player_idx = find_player_idx_by_uid (l_uid d3) w in
             if old_player_idx > 0 then
               rbind (get_player (i32 (uint (l_uid d3))) w) (\<lambda>old_player.
               case old_player of None \<Rightarrow> Inr (LOGIC_FAILED, d3, w)
               | Some old_ptr \<Rightarrow>
                   rbind (send_server_kick_off_notify sys old_ptr w) (\<lambda>w1.
                   done_with LOGIC_YIELD (change_step d3 1)
                     (do_update_player_data sys (lg_logic_id d3) old_ptr w1)))
             else
               done_with LOGIC_YIELD (change_step d3 2)
                 (do_get_player_data sys (lg_logic_id d3) (l_uid d3) (l_password_hash d3) ptr w))))))"

definition login_step1 :: logic_func where
  "login_step1 sys d msg args w =
     rbind (as_ss msg) (\<lambda>m.
     rbind (get_player (l_player_idx d) w) (\<lambda>player.
     case player of None \<Rightarrow> Inr (LOGIC_FAILED, d, w)
     | Some ptr \<Rightarrow>
         if ss_ret m \<noteq> 0 then
           done_with LOGIC_FAILED d (send_failed_cs_res sys (l_client_seq d) kLoginRes (- 1) ptr w)
         else
           done_with LOGIC_YIELD (change_step d 2)
             (do_get_player_data sys (lg_logic_id d) (l_uid d) (l_password_hash d) ptr w)))"

text \<open>The cities of the loaded data, added one after the other; \<open>SetCityByDb\<close> is called before
  the null check.\<close>

fun load_cities :: "int \<Rightarrow> city_info list \<Rightarrow> gamesvr \<Rightarrow> gamesvr res" where
  "load_cities player_idx [] w = Inr w"
| "load_cities player_idx (ci # cis) w =
     rbind (add_city player_idx w) (\<lambda>(city_idx, w1).
     rbind (get_city city_idx w1) (\<lambda>city.
     case city of None \<Rightarrow> Inl Null_Deref
     | Some ct \<Rightarrow>
         rbind (set_city_by_db ci ct w1) (\<lambda>w2.
         rbind (set_city_player_idx player_idx ct w2) (load_cities player_idx cis))))"

text \<open>The player may be gone by now; its pointer is used without a check.\<close>

definition login_step2 :: logic_func where
  "login_step2 sys d msg args w =
     rbind (get_player (l_player_idx d) w) (\<lambda>player.
     rbind (as_ss msg) (\<lambda>m.
     case player of None \<Rightarrow> Inl Null_Deref
     | Some ptr \<Rightarrow>
         if ss_ret m = 0 then
           let data = gs_parse_pd sys (case ss_get_player_data_res m of Some b \<Rightarrow> b | None \<Rightarrow> []) in
           rbind (set_player_by_db (pd_role_info data) ptr w) (\<lambda>w1.
           rbind (load_cities (l_player_idx d) (pd_city_list data) w1) (\<lambda>w2.
           rbind (set_uid (l_uid d) ptr w2) (\<lambda>w3.
           rbind (set_password_hash (l_password_hash d) ptr w3) (\<lambda>w4.
           rbind (send_ok_cs_login_res sys (l_client_seq d) ptr w4) (\<lambda>w5.
           done_with LOGIC_FINISH d (send_role_info_notify sys ptr w5))))))
         else
           done_with LOGIC_FINISH d (send_failed_cs_res sys (l_client_seq d) kLoginRes (- 1) ptr w)))"

section \<open>Saving a player\<close>

definition update_player_step0 :: logic_func where
  "update_player_step0 sys d msg args w =
     rbind (args_int args) (\<lambda>idx.
     let d1 = d\<lparr>l_player_idx := idx\<rparr> in
     rbind (get_player idx w) (\<lambda>player.
     case player of None \<Rightarrow> Inr (LOGIC_FAILED, d1, w)
     | Some ptr \<Rightarrow> done_with LOGIC_YIELD (change_step d1 1) (do_update_player_data sys (lg_logic_id d1) ptr w)))"

definition update_player_step1 :: logic_func where
  "update_player_step1 sys d msg args w = rbind (as_ss msg) (\<lambda>_. Inr (LOGIC_FINISH, d, w))"

section \<open>LogicModule\<close>

text \<open>The maps \<open>ModuleInit\<close> fills: the step functions and the size of a logic's struct.\<close>

definition logic_type_map :: "(int \<times> logic_func list) list" where
  "logic_type_map =
     [(LOGIC_NORMAL_REG, [normal_reg_step0, normal_reg_step1]),
      (LOGIC_QUICK_REG, [quick_reg_step0, quick_reg_step1]),
      (LOGIC_LOGIN, [login_step0, login_step1, login_step2]),
      (LOGIC_UPDATE_PLAYER, [update_player_step0, update_player_step1])]"

definition logic_data_size_map :: "(int \<times> int) list" where
  "logic_data_size_map =
     [(LOGIC_NORMAL_REG, 80), (LOGIC_QUICK_REG, 56), (LOGIC_LOGIN, 48), (LOGIC_UPDATE_PLAYER, 24)]"

text \<open>The callback object of the module, as a number for the timer heap.\<close>

definition logic_cb :: nat where "logic_cb = 1"

definition get_logic_data :: "int \<Rightarrow> gamesvr \<Rightarrow> logic_data option" where
  "get_logic_data logic_id w = map_of (logic_data_map w) logic_id"

definition delete_logic_data :: "int \<Rightarrow> gamesvr \<Rightarrow> gamesvr" where
  "delete_logic_data logic_id w = w\<lparr>logic_data_map := smap_erase logic_id (logic_data_map w)\<rparr>"

definition create_logic :: "game_sys \<Rightarrow> int \<Rightarrow> int \<Rightarrow> gamesvr \<Rightarrow> (int \<times> gamesvr) res" where
  "create_logic sys logic_type task_delay_secs w =
     (case map_of logic_data_size_map logic_type of
        None \<Rightarrow> Inr (- 1, w)
      | Some sz \<Rightarrow>
          (case gs_malloc sys (gout w) sz of
             None \<Rightarrow> Inr (- 1, w)
           | Some mem \<Rightarrow>
               rbind (if task_delay_secs > 0 then
                        rbind (tv_set task_delay_secs 0) (\<lambda>tv.
                        register_timer (gs_now sys (gout w)) tv tv (Some logic_cb) 0 (logic_timer w))
                      else Inr (0, logic_timer w)) (\<lambda>(logic_id, ht).
               let d = mem\<lparr>lg_logic_id := word_of_int logic_id, lg_logic_type := logic_type, lg_step := 0\<rparr> in
               Inr (logic_id, w\<lparr>logic_timer := ht,
                                logic_data_map := smap_insert logic_id d (logic_data_map w)\<rparr>))))"

definition logic_proc :: "game_sys \<Rightarrow> int \<Rightarrow> lmsg \<Rightarrow> largs \<Rightarrow> gamesvr \<Rightarrow> gamesvr res" where
  "logic_proc sys logic_id msg args w =
     (case get_logic_data logic_id w of
        None \<Rightarrow> Inr w
      | Some d \<Rightarrow>
          (case map_of logic_type_map (lg_logic_type d) of
             None \<Rightarrow> Inr w
           | Some fs \<Rightarrow>
               rbind (logic_base_proc fs sys d msg args w) (\<lambda>(ret, d', w1).
               let w2 = w1\<lparr>logic_data_map := smap_put logic_id d' (logic_data_map w1)\<rparr> in
               if ret \<noteq> LOGIC_YIELD then
                 let w3 = delete_logic_data logic_id w2 in
                 if logic_id \<noteq> 0 then
                   rbind (unregister_timer logic_id (logic_timer w3)) (\<lambda>ht. Inr (w3\<lparr>logic_timer := ht\<rparr>))
                 else Inr w3
               else Inr w2)))"

text \<open>\<open>OnTimer\<close> drops the logic and returns \<open>-1\<close>, so the heap drops the timer. The state the
  callback changes is carried beside the heap by \<open>TimerPoll\<close>.\<close>

definition logic_on_timer :: "gamesvr exec" where
  "logic_on_timer c logic_id data s = (case s of (ht, w) \<Rightarrow> Inr (- 1, ht, delete_logic_data logic_id w))"

definition logic_update :: "game_sys \<Rightarrow> gamesvr \<Rightarrow> gamesvr res option" where
  "logic_update sys w =
     map_option (\<lambda>r. rbind r (\<lambda>(ht, w'). Inr (w'\<lparr>logic_timer := ht\<rparr>)))
       (timer_poll logic_on_timer (gs_time sys (gout w)) (logic_timer w) w)"

definition logic_fini :: "gamesvr \<Rightarrow> gamesvr res" where
  "logic_fini w =
     rbind (heap_timer_delete (logic_timer w)) (\<lambda>ht. Inr (w\<lparr>logic_timer := ht, logic_data_map := []\<rparr>))"

end
