(* ===== verification/Game_Logic_Props.thy ===== *)
theory Game_Logic_Props
  imports Game_Logic
begin

text \<open>
  \<open>LogicModule\<close> as a client of the timer service: a logic in the map and a pending timer are
  the same thing, whatever creates, finishes or times out a logic. Then the steps: what they
  leave alone, and what the login and registration flows send.
\<close>

section \<open>Logics and timers\<close>

definition logic_inv :: "gamesvr \<Rightarrow> bool" where
  "logic_inv w \<longleftrightarrow> ht_inv (logic_timer w) \<and> all_periodic (logic_timer w) \<and> smap_ok (logic_data_map w) \<and>
     pending_of (logic_timer w) =
       (\<lambda>logic_id. if get_logic_data logic_id w = None then None else Some (Some logic_cb, 0)) \<and>
     (\<forall>logic_id d. get_logic_data logic_id w = Some d \<longrightarrow> lg_logic_id d = word_of_int logic_id)"

text \<open>The invariant needs the timers and the map of logics only.\<close>

lemma logic_inv_cong:
  "logic_timer w' = logic_timer w \<Longrightarrow> logic_data_map w' = logic_data_map w \<Longrightarrow> logic_inv w' = logic_inv w"
  by (simp add: logic_inv_def get_logic_data_def)

lemma register_periodic:
  assumes inv: "ht_inv ht" and room: "heap_size ht < 1073741824" and per: "all_periodic ht"
    and tv: "tv_canonical iv" "tv_canonical delay" "0 < tv_us iv"
  obtains tid ht' where "register_timer now iv delay cb data ht = Inr (tid, ht')" "ht_inv ht'" "all_periodic ht'"
    "0 < tid" "pending_of ht tid = None" "pending_of ht' = (pending_of ht)(tid \<mapsto> (cb, data))"
    "heap_size ht' \<le> 2 * heap_size ht"
proof -
  have nz: "iv \<noteq> TimeValue 0 0" using tv(3) by (auto simp: tv_us_def)
  obtain tid e ht' where r: "register_timer now iv delay cb data ht = Inr (tid, ht')" "ht_inv ht'"
    "nodes ht' = (nodes ht)(next_node ht \<mapsto> \<lparr>timer_id = tid, expire_time = e,
       interval_time = iv, node_data = data, cb_obj = cb\<rparr>)" "heap_size ht' \<le> 2 * heap_size ht"
    by (rule register_timer_correct [OF inv room tv(1,2) nz])
  have "live ht' = insert (next_node ht) (live ht)" using r(2,3) inv by (auto simp: ht_inv_def)
  then have "all_periodic ht'" using per tv(3) r(3) by (auto simp: all_periodic_def)
  moreover have "0 < tid \<and> pending_of ht tid = None \<and> pending_of ht' = (pending_of ht)(tid \<mapsto> (cb, data))"
    using tm.register_law [OF inv room tv(1,2) nz, of now cb data] r(1) by auto
  ultimately show thesis using that r by blast
qed

lemma unregister_periodic:
  assumes inv: "ht_inv ht" and per: "all_periodic ht" and p: "pending_of ht tid \<noteq> None"
  obtains ht' where "unregister_timer tid ht = Inr ht'" "ht_inv ht'" "all_periodic ht'"
    "pending_of ht' = (pending_of ht)(tid := None)" "heap_size ht' = heap_size ht"
proof -
  obtain a where a: "a \<in> live ht" "timer_id (the (nodes ht a)) = tid"
    using p pending_of_None [OF inv, of tid] by auto
  obtain ht' where u: "unregister_timer tid ht = Inr ht'" "removed ht a ht'"
    by (rule unregister_live [OF inv a(1), unfolded a(2)])
  have ns: "ht_inv ht'" "nodes ht' = (nodes ht)(a := None)" "heap_size ht' = heap_size ht"
    using u(2) by (simp_all add: removed_def)
  have "live ht' = live ht - {a}" using ns inv by (auto simp: ht_inv_def)
  then have "all_periodic ht'" using per ns by (auto simp: all_periodic_def)
  then show thesis using that u(1) ns removed_pending [OF inv a(1) u(2)] a(2) by simp
qed

lemma pending_of_range:
  assumes inv: "ht_inv ht" and p: "pending_of ht tid \<noteq> None"
  shows "0 < tid" "tid < 9223372036854775808"
proof -
  obtain a where a: "a \<in> live ht" "timer_id (the (nodes ht a)) = tid"
    using p pending_of_None [OF inv, of tid] by auto
  have ok: "node_ok (rand_array ht) (the (nodes ht a))" using inv a by (simp add: ht_inv_def)
  note s = node_ok_slot [where rs = "rand_array ht" and ns = "nodes ht" and a = a, OF ok]
  have "tid = slot (nodes ht) a * 4294967296 + rand_array ht ! nat (slot (nodes ht) a)"
    using s(3-5) a(2) by (simp add: mk_timer_id_arith)
  then show "tid < 9223372036854775808" using s(2,5) by linarith
  show "0 < tid" by (rule tm.pending_pos [OF inv p])
qed

lemma timer_id_word: "0 < tid \<Longrightarrow> tid < 9223372036854775808 \<Longrightarrow> sint (word_of_int tid :: 64 word) = tid"
proof -
  assume r: "0 < tid" "tid < 9223372036854775808"
  have "sint (word_of_int tid :: 64 word) = signed_take_bit 63 tid" by (simp add: signed_word_eqI sint_sbintrunc')
  also have "\<dots> = tid" using r by (intro signed_take_bit_int_eq_self) simp_all
  finally show ?thesis .
qed

lemma logic_id_word:
  assumes inv: "logic_inv w" and d: "get_logic_data logic_id w = Some d"
  shows "sint (lg_logic_id d) = logic_id" "logic_id \<noteq> 0" "pending_of (logic_timer w) logic_id \<noteq> None"
proof -
  show p: "pending_of (logic_timer w) logic_id \<noteq> None" using assms by (simp add: logic_inv_def)
  have r: "0 < logic_id" "logic_id < 9223372036854775808"
    using pending_of_range [OF _ p] inv by (simp_all add: logic_inv_def)
  then show "logic_id \<noteq> 0" by simp
  have "sint (word_of_int logic_id :: 64 word) = logic_id" by (rule timer_id_word [OF r])
  then show "sint (lg_logic_id d) = logic_id" using inv d by (simp add: logic_inv_def)
qed

lemma create_logic_ok:
  assumes inv: "logic_inv w" and room: "heap_size (logic_timer w) < 1073741824"
    and ty: "map_of logic_data_size_map logic_type = Some sz" and mem: "gs_malloc sys (gout w) sz = Some mem"
    and delay: "0 < secs" "secs < 2147483648"
  obtains logic_id w' where "create_logic sys logic_type secs w = Inr (logic_id, w')" "logic_inv w'" "0 < logic_id"
    "get_logic_data logic_id w = None"
    "logic_data_map w' = smap_put logic_id (mem\<lparr>lg_logic_id := word_of_int logic_id, lg_logic_type := logic_type, lg_step := 0\<rparr>) (logic_data_map w)"
    "w' = w\<lparr>logic_timer := logic_timer w', logic_data_map := logic_data_map w'\<rparr>"
proof -
  let ?tv = "TimeValue secs 0"
  have set: "tv_set secs 0 = Inr ?tv" by (simp add: tv_set_def tv_canonical_def)
  have canon: "tv_canonical ?tv" by (rule tv_canonical_secs)
  have hinv: "ht_inv (logic_timer w)" "all_periodic (logic_timer w)" using inv by (simp_all add: logic_inv_def)
  have pos: "0 < tv_us ?tv" using delay by (simp add: tv_us_def)
  obtain tid ht' where r: "register_timer (gs_now sys (gout w)) ?tv ?tv (Some logic_cb) 0 (logic_timer w) = Inr (tid, ht')"
    "ht_inv ht'" "all_periodic ht'" "0 < tid" "pending_of (logic_timer w) tid = None"
    "pending_of ht' = (pending_of (logic_timer w))(tid \<mapsto> (Some logic_cb, 0))"
    by (rule register_periodic [OF hinv(1) room hinv(2) canon canon pos])
  let ?d = "mem\<lparr>lg_logic_id := word_of_int tid, lg_logic_type := logic_type, lg_step := 0\<rparr>"
  have fresh: "get_logic_data tid w = None" using r(5) inv by (simp add: logic_inv_def split: if_splits)
  have ok: "smap_ok (logic_data_map w)" using inv by (simp add: logic_inv_def)
  let ?w' = "w\<lparr>logic_timer := ht', logic_data_map := smap_put tid ?d (logic_data_map w)\<rparr>"
  have "create_logic sys logic_type secs w = Inr (tid, ?w')"
    using ty mem delay set r(1) fresh by (simp add: create_logic_def smap_insert_def get_logic_data_def)
  moreover have "logic_inv ?w'"
    using inv r ok by (auto simp: logic_inv_def get_logic_data_def fun_eq_iff)
  ultimately show thesis using that r(4) fresh by simp
qed

section \<open>What the steps leave alone\<close>

definition same_logic :: "gamesvr \<Rightarrow> gamesvr \<Rightarrow> bool" where
  "same_logic w w' \<longleftrightarrow> logic_timer w' = logic_timer w \<and> logic_data_map w' = logic_data_map w \<and> msg_buf w' = msg_buf w"

lemma same_logic_refl [simp]: "same_logic w w"
  by (simp add: same_logic_def)

lemma same_logic_trans: "same_logic a b \<Longrightarrow> same_logic b c \<Longrightarrow> same_logic a c"
  by (simp add: same_logic_def)

lemma same_objects_logic: "same_objects w w' \<Longrightarrow> same_logic w w'"
  using same_objectsD [of w w'] by (simp add: same_logic_def)

lemma send_same_logic [simp]:
  "same_logic w (snd (send_to_datasvr sys m w))" "same_logic w (snd (send_to_connsvr sys om cmd fd idx w))"
  by (simp_all add: same_objects_logic)

lemma puts_same_logic:
  "put_player ptr p w = Inr w' \<Longrightarrow> same_logic w w'" "put_city ptr c w = Inr w' \<Longrightarrow> same_logic w w'"
  by (auto simp: put_player_def put_city_def rbind_eq_Inr_iff same_logic_def)

lemma setters_same_logic:
  "set_uid u ptr w = Inr w' \<Longrightarrow> same_logic w w'" "set_password_hash h ptr w = Inr w' \<Longrightarrow> same_logic w w'"
  "set_player_by_db r ptr w = Inr w' \<Longrightarrow> same_logic w w'" "set_city_by_db ci ptr w = Inr w' \<Longrightarrow> same_logic w w'"
  "set_city_player_idx idx ptr w = Inr w' \<Longrightarrow> same_logic w w'" "set_conn_fd fd ptr w = Inr w' \<Longrightarrow> same_logic w w'"
  by (auto simp: set_uid_def set_password_hash_def set_player_by_db_def set_city_by_db_def set_city_player_idx_def
      set_conn_fd_def rbind_eq_Inr_iff Let_def bind_uid_to_player_idx_def dest!: puts_same_logic)
    (simp add: same_logic_def)

lemma sends_same_logic:
  "player_send sys m cmd ptr w = Inr w' \<Longrightarrow> same_logic w w'"
  "do_update_player_data sys seq ptr w = Inr w' \<Longrightarrow> same_logic w w'"
  "do_get_player_data sys seq uid h ptr w = Inr w' \<Longrightarrow> same_logic w w'"
  "do_account_reg sys seq uid h a ptr w = Inr w' \<Longrightarrow> same_logic w w'"
  by (auto simp: player_send_def do_update_player_data_def do_get_player_data_def do_account_reg_def
      rbind_eq_Inr_iff split: option.splits)

lemma answers_same_logic:
  "send_failed_cs_res sys seq cmd err ptr w = Inr w' \<Longrightarrow> same_logic w w'"
  "send_ok_cs_quick_reg_res sys seq uid pw ptr w = Inr w' \<Longrightarrow> same_logic w w'"
  "send_ok_cs_normal_reg_res sys seq a pw ptr w = Inr w' \<Longrightarrow> same_logic w w'"
  "send_ok_cs_login_res sys seq ptr w = Inr w' \<Longrightarrow> same_logic w w'"
  "send_role_info_notify sys ptr w = Inr w' \<Longrightarrow> same_logic w w'"
  "send_server_kick_off_notify sys ptr w = Inr w' \<Longrightarrow> same_logic w w'"
  by (auto simp: send_failed_cs_res_def send_ok_cs_quick_reg_res_def send_ok_cs_normal_reg_res_def
      send_ok_cs_login_res_def send_role_info_notify_def send_server_kick_off_notify_def rbind_eq_Inr_iff
      dest: sends_same_logic)

lemma add_city_slots_same_logic: "add_city_slots idx ptr is w = Inr (c, w') \<Longrightarrow> same_logic w w'"
proof (induction "is")
  case (Cons i "is")
  show ?case using Cons
    by (auto simp: rbind_eq_Inr_iff split: if_splits option.splits dest!: puts_same_logic) (simp add: same_logic_def)
qed simp

lemma add_city_same_logic: "add_city idx w = Inr (c, w') \<Longrightarrow> same_logic w w'"
  by (auto simp: add_city_def rbind_eq_Inr_iff split: option.splits if_splits dest: add_city_slots_same_logic)

lemma load_cities_same_logic: "load_cities idx cis w = Inr w' \<Longrightarrow> same_logic w w'"
proof (induction cis arbitrary: w)
  case (Cons ci cis)
  have "\<exists>a b x. same_logic w a \<and> same_logic a b \<and> same_logic b x \<and> load_cities idx cis x = Inr w'"
    using Cons.prems
    by (auto simp: rbind_eq_Inr_iff split: option.splits dest!: add_city_same_logic setters_same_logic) blast
  then show ?case using Cons.IH same_logic_trans by meson
qed simp

lemmas same_logic_rules = puts_same_logic setters_same_logic sends_same_logic answers_same_logic load_cities_same_logic

definition step_keeps :: "logic_data \<Rightarrow> gamesvr \<Rightarrow> (int \<times> logic_data \<times> gamesvr) res \<Rightarrow> bool" where
  "step_keeps d w r \<longleftrightarrow> (\<forall>ret d' w'. r = Inr (ret, d', w') \<longrightarrow>
     same_logic w w' \<and> lg_logic_id d' = lg_logic_id d \<and> lg_logic_type d' = lg_logic_type d)"

lemma step_keepsD:
  "step_keeps d w (Inr (ret, d', w')) \<Longrightarrow> same_logic w w' \<and> lg_logic_id d' = lg_logic_id d \<and> lg_logic_type d' = lg_logic_type d"
  by (simp add: step_keeps_def)

lemma step_keeps_Inl [simp, intro]: "step_keeps d w (Inl e)"
  by (simp add: step_keeps_def)

lemma step_keeps_Inr [simp, intro]:
  "lg_logic_id d' = lg_logic_id d \<Longrightarrow> lg_logic_type d' = lg_logic_type d \<Longrightarrow> step_keeps d w (Inr (ret, d', w))"
  by (simp add: step_keeps_def)

lemma step_keeps_rbind [intro]: "(\<And>x. r = Inr x \<Longrightarrow> step_keeps d w (f x)) \<Longrightarrow> step_keeps d w (rbind r f)"
  by (cases r) auto

lemma step_keeps_done [intro]:
  "(\<And>w'. r = Inr w' \<Longrightarrow> same_logic w w') \<Longrightarrow> lg_logic_id d' = lg_logic_id d \<Longrightarrow> lg_logic_type d' = lg_logic_type d \<Longrightarrow>
   step_keeps d w (done_with ret d' r)"
  by (auto simp: step_keeps_def done_with_def rbind_eq_Inr_iff)

lemma step_keeps_case [intro]:
  "(x = None \<Longrightarrow> step_keeps d w a) \<Longrightarrow> (\<And>y. x = Some y \<Longrightarrow> step_keeps d w (f y)) \<Longrightarrow>
   step_keeps d w (case x of None \<Rightarrow> a | Some y \<Rightarrow> f y)"
  by (cases x) auto

lemma step_keeps_if [intro]:
  "(b \<Longrightarrow> step_keeps d w x) \<Longrightarrow> (\<not> b \<Longrightarrow> step_keeps d w y) \<Longrightarrow> step_keeps d w (if b then x else y)"
  by simp

lemmas step_keeps_intros = step_keeps_rbind step_keeps_case step_keeps_if step_keeps_done

lemma reg_steps_keep:
  "step_keeps d w (normal_reg_step0 sys d msg args w)" "step_keeps d w (normal_reg_step1 sys d msg args w)"
  "step_keeps d w (quick_reg_step0 sys d msg args w)" "step_keeps d w (quick_reg_step1 sys d msg args w)"
  unfolding normal_reg_step0_def normal_reg_step1_def quick_reg_step0_def quick_reg_step1_def Let_def change_step_def
  by (intro step_keeps_intros; auto dest: same_logic_rules)+

lemma update_steps_keep:
  "step_keeps d w (update_player_step0 sys d msg args w)" "step_keeps d w (update_player_step1 sys d msg args w)"
  unfolding update_player_step0_def update_player_step1_def Let_def change_step_def
  by (intro step_keeps_intros; auto dest: same_logic_rules)+

lemma login_steps_keep:
  "step_keeps d w (login_step0 sys d msg args w)" "step_keeps d w (login_step1 sys d msg args w)"
  "step_keeps d w (login_step2 sys d msg args w)"
proof -
  show "step_keeps d w (login_step0 sys d msg args w)"
    unfolding login_step0_def Let_def change_step_def
    by (intro step_keeps_intros; auto dest: same_logic_rules) (meson same_logic_rules same_logic_trans)
  show "step_keeps d w (login_step1 sys d msg args w)"
    unfolding login_step1_def Let_def change_step_def
    by (intro step_keeps_intros; auto dest: same_logic_rules)
  show "step_keeps d w (login_step2 sys d msg args w)"
    unfolding login_step2_def Let_def
    by (intro step_keeps_intros; auto dest: same_logic_rules) (meson same_logic_rules same_logic_trans)
qed

lemma logic_base_keeps:
  assumes "map_of logic_type_map ty = Some fs"
  shows "step_keeps d w (logic_base_proc fs sys d msg args w)"
proof -
  have "\<forall>f\<in>set fs. step_keeps d w (f sys d msg args w)"
    using assms by (auto simp: logic_type_map_def reg_steps_keep update_steps_keep login_steps_keep split: if_splits)
  moreover have "fs ! nat (lg_step d) \<in> set fs" if "0 \<le> lg_step d" "lg_step d < int (length fs)"
    using that by (intro nth_mem) simp
  ultimately show ?thesis by (auto simp: logic_base_proc_def)
qed

section \<open>Stepping and timing out\<close>

lemma get_logic_put:
  "smap_ok (logic_data_map w) \<Longrightarrow>
   get_logic_data j (w\<lparr>logic_data_map := smap_put logic_id d (logic_data_map w)\<rparr>) = (if j = logic_id then Some d else get_logic_data j w)"
  by (simp add: get_logic_data_def)

lemma get_logic_delete [simp]:
  "get_logic_data j (delete_logic_data logic_id w) = (if j = logic_id then None else get_logic_data j w)"
  by (simp add: get_logic_data_def delete_logic_data_def)

lemma set_logic_inv:
  assumes inv: "logic_inv w" and d: "get_logic_data logic_id w = Some d" "lg_logic_id d' = lg_logic_id d"
  shows "logic_inv (w\<lparr>logic_data_map := smap_put logic_id d' (logic_data_map w)\<rparr>)"
proof -
  have ok: "smap_ok (logic_data_map w)" using inv by (simp add: logic_inv_def)
  show ?thesis using inv d ok get_logic_put [OF ok] by (auto simp: logic_inv_def fun_eq_iff)
qed

lemma logic_proc_ok:
  assumes inv: "logic_inv w" and d: "get_logic_data logic_id w = Some d"
    and fs: "map_of logic_type_map (lg_logic_type d) = Some fs"
    and st: "logic_base_proc fs sys d msg args w = Inr (ret, d', w1)"
  obtains w' where "logic_proc sys logic_id msg args w = Inr w'" "logic_inv w'"
    "get_logic_data logic_id w' = (if ret = LOGIC_YIELD then Some d' else None)"
    "\<forall>j. j \<noteq> logic_id \<longrightarrow> get_logic_data j w' = get_logic_data j w"
    "w' = w1\<lparr>logic_timer := logic_timer w', logic_data_map := logic_data_map w'\<rparr>"
    "heap_size (logic_timer w') = heap_size (logic_timer w)"
proof -
  have k: "logic_timer w1 = logic_timer w" "logic_data_map w1 = logic_data_map w" "lg_logic_id d' = lg_logic_id d"
    using logic_base_keeps [OF fs, of d w sys msg args] st by (auto dest: step_keepsD simp: same_logic_def)
  have ok: "smap_ok (logic_data_map w1)" using inv k(2) by (simp add: logic_inv_def)
  have hinv: "ht_inv (logic_timer w)" "all_periodic (logic_timer w)" using inv by (simp_all add: logic_inv_def)
  have old: "get_logic_data j w1 = get_logic_data j w" for j by (simp add: get_logic_data_def k(2))
  let ?w2 = "w1\<lparr>logic_data_map := smap_put logic_id d' (logic_data_map w1)\<rparr>"
  have g2: "get_logic_data j ?w2 = (if j = logic_id then Some d' else get_logic_data j w)" for j
    using get_logic_put [OF ok] old by simp
  have lid: "lg_logic_id d' = word_of_int logic_id" using inv d k(3) by (simp add: logic_inv_def)
  show thesis
  proof (cases "ret = LOGIC_YIELD")
    case True
    have "logic_proc sys logic_id msg args w = Inr ?w2"
      using d fs st True by (simp add: logic_proc_def)
    moreover have "logic_inv ?w2"
      using inv k(1) ok g2 d lid by (auto simp: logic_inv_def fun_eq_iff)
    ultimately show thesis using that [of ?w2] True g2 k(1) by simp
  next
    case False
    obtain ht' where u: "unregister_timer logic_id (logic_timer w) = Inr ht'" "ht_inv ht'" "all_periodic ht'"
      "pending_of ht' = (pending_of (logic_timer w))(logic_id := None)" "heap_size ht' = heap_size (logic_timer w)"
      by (rule unregister_periodic [OF hinv logic_id_word(3) [OF inv d]])
    let ?w3 = "delete_logic_data logic_id ?w2"
    let ?w4 = "?w3\<lparr>logic_timer := ht'\<rparr>"
    have t3: "logic_timer ?w3 = logic_timer w" using k(1) by (simp add: delete_logic_data_def)
    have "logic_proc sys logic_id msg args w = Inr ?w4"
      using d fs st False logic_id_word(2) [OF inv d] u(1) t3 by (simp add: logic_proc_def Let_def)
    moreover have g4: "get_logic_data j ?w4 = (if j = logic_id then None else get_logic_data j w)" for j
      using g2 by (simp add: get_logic_data_def delete_logic_data_def)
    have "smap_ok (logic_data_map ?w4)" using ok by (simp add: delete_logic_data_def)
    then have "logic_inv ?w4" using inv u(2-4) g4 by (auto simp: logic_inv_def fun_eq_iff)
    ultimately show thesis using that [of ?w4] False g4 u(5) by (simp add: delete_logic_data_def)
  qed
qed

text \<open>The ids of the logics whose time has come.\<close>

definition expired :: "heap_timer \<Rightarrow> time_value \<Rightarrow> int set" where
  "expired ht now = (\<lambda>a. timer_id (the (nodes ht a))) ` due ht now"

lemma delete_logics:
  "foldl (\<lambda>w t. delete_logic_data t w) w ts = w\<lparr>logic_data_map := filter (\<lambda>p. fst p \<notin> set ts) (logic_data_map w)\<rparr>"
  by (induction ts arbitrary: w) (auto simp: delete_logic_data_def smap_erase_def intro!: arg_cong2 [where f = filter])

lemma smap_filter_ok: "smap_ok m \<Longrightarrow> smap_ok (filter (\<lambda>p. P (fst p)) m)"
  unfolding smap_ok_def by (induction m) auto

lemma map_of_filter_key: "map_of (filter (\<lambda>p. P (fst p)) m) k = (if P k then map_of m k else None)"
  by (induction m) auto

lemma logic_update_ok:
  assumes inv: "logic_inv w" and now: "gs_time sys (gout w) = now" "tv_canonical now"
  obtains w' where "logic_update sys w = Some (Inr w')" "logic_inv w'" "due (logic_timer w') now = {}"
    "\<forall>j. get_logic_data j w' = (if j \<in> expired (logic_timer w) now then None else get_logic_data j w)"
    "w' = w\<lparr>logic_timer := logic_timer w', logic_data_map := logic_data_map w'\<rparr>"
proof -
  let ?ht = "logic_timer w" and ?f = "\<lambda>c t d. - 1 :: int"
  have hinv: "ht_inv ?ht" "all_periodic ?ht" using inv by (simp_all add: logic_inv_def)
  obtain ht' xs where p: "timer_poll (logging ?f) now ?ht [] = Some (Inr (ht', [] @ fired (nodes ?ht) xs))"
    "ht_inv ht'" "due ht' now = {}" "set xs = due ?ht now" "\<And>a. settled ?f now ?ht ht' a"
    using timer_poll_logging [OF hinv(1) now(2) hinv(2), of ?f "[]"] by auto
  have cb: "cb_obj (the (nodes ?ht a)) = Some logic_cb" if "a \<in> live ?ht" for a
    using pending_of_Some [OF hinv(1) that] inv by (simp add: logic_inv_def split: if_splits)
  have due_live: "due ?ht now \<subseteq> live ?ht" by (auto simp: due_def)
  have fired: "set (fired (nodes ?ht) xs) = expired ?ht now"
    using cb due_live p(4) by (auto simp: fired_def expired_def image_iff)
  have pure: "pure_exec ?f delete_logic_data = logic_on_timer"
    by (intro ext) (simp add: pure_exec_def logic_on_timer_def split: prod.splits)
  have poll: "timer_poll logic_on_timer now ?ht w =
      Some (Inr (ht', foldl (\<lambda>w t. delete_logic_data t w) w (fired (nodes ?ht) xs)))"
    using timer_poll_pure [OF hinv(1) now(2) hinv(2) p(1), of delete_logic_data w] by (simp add: pure)
  have ns: "nodes ht' a = (if a \<in> due ?ht now then None else nodes ?ht a)" for a
    using p(5) [of a] cb due_live by (auto simp: settled_def node_ret_def)
  have live': "live ht' = live ?ht - due ?ht now"
  proof -
    have "dom (nodes ht') = dom (nodes ?ht) - due ?ht now" using ns by (auto simp: domIff split: if_splits)
    then show ?thesis using p(2) hinv(1) by (simp add: ht_inv_def)
  qed
  let ?w' = "w\<lparr>logic_timer := ht', logic_data_map := filter (\<lambda>p. fst p \<notin> expired ?ht now) (logic_data_map w)\<rparr>"
  have g: "get_logic_data j ?w' = (if j \<in> expired ?ht now then None else get_logic_data j w)" for j
    using map_of_filter_key [of "\<lambda>k. k \<notin> expired ?ht now" "logic_data_map w" j] by (simp add: get_logic_data_def)
  have pend: "pending_of ht' = (\<lambda>j. if j \<in> expired ?ht now then None else pending_of ?ht j)"
  proof (rule pending_of_eqI [OF p(2)])
    fix a assume a: "a \<in> live ht'"
    then have al: "a \<in> live ?ht" "a \<notin> due ?ht now" using live' by auto
    have "timer_id (the (nodes ?ht a)) \<notin> expired ?ht now"
    proof
      assume "timer_id (the (nodes ?ht a)) \<in> expired ?ht now"
      then obtain b where b: "timer_id (the (nodes ?ht a)) = timer_id (the (nodes ?ht b))" "b \<in> due ?ht now"
        unfolding expired_def by (rule imageE)
      have "b \<in> live ?ht" using b(2) due_live by (rule rev_subsetD)
      then have "a = b" by (rule live_timer_id_inj [OF hinv(1) al(1) _ b(1)])
      then show False using b(2) al(2) by simp
    qed
    then show "(if timer_id (the (nodes ht' a)) \<in> expired ?ht now then None else pending_of ?ht (timer_id (the (nodes ht' a)))) =
        Some (cb_obj (the (nodes ht' a)), node_data (the (nodes ht' a)))"
      using ns al pending_of_Some [OF hinv(1) al(1)] by simp
  next
    fix t assume t: "(if t \<in> expired ?ht now then None else pending_of ?ht t) \<noteq> None"
    then obtain a where a: "a \<in> live ?ht" "timer_id (the (nodes ?ht a)) = t"
      using pending_of_None [OF hinv(1), of t] by (auto split: if_splits)
    have "a \<notin> due ?ht now" using t a(2) by (auto simp: expired_def split: if_splits)
    then show "\<exists>a\<in>live ht'. timer_id (the (nodes ht' a)) = t" using a live' ns by (intro bexI [of _ a]) simp_all
  qed
  have per: "all_periodic ht'" using hinv(2) live' ns by (simp add: all_periodic_def)
  have "smap_ok (logic_data_map ?w')" using inv smap_filter_ok [of "logic_data_map w" "\<lambda>k. k \<notin> expired ?ht now"] by (simp add: logic_inv_def)
  moreover have "pending_of ht' = (\<lambda>j. if get_logic_data j ?w' = None then None else Some (Some logic_cb, 0))"
    unfolding pend using g inv by (simp add: logic_inv_def fun_eq_iff)
  moreover have "\<forall>j d. get_logic_data j ?w' = Some d \<longrightarrow> lg_logic_id d = word_of_int j"
    using g inv by (simp add: logic_inv_def)
  ultimately have "logic_inv ?w'" using p(2) per by (simp add: logic_inv_def)
  moreover have "logic_update sys w = Some (Inr ?w')"
    using poll now(1) fired by (simp add: logic_update_def delete_logics)
  ultimately show thesis using that [of ?w'] p(3) g by simp
qed

section \<open>Saving and loading a player\<close>

text \<open>What is saved of a player: money, level and the populations of its cities; the id of a city
  is not kept anywhere.\<close>

definition snapshot :: "gamesvr \<Rightarrow> int \<Rightarrow> player_data" where
  "snapshot w i = \<lparr>pd_role_info = \<lparr>ri_money = p_money (the_player w i), ri_level = p_level (the_player w i)\<rparr>,
     pd_city_list = map (\<lambda>c. \<lparr>ci_id = 0, ci_population = ct_population (the_city w c)\<rparr>) (cities_of (the_player w i))\<rparr>"

lemma city_infos_ok:
  "pool_inv (city_pool w) \<Longrightarrow> set cs \<subseteq> cities w \<Longrightarrow>
   city_infos (cs @ replicate n 0) w = Inr (map (\<lambda>c. \<lparr>ci_id = 0, ci_population = ct_population (the_city w c)\<rparr>) cs)"
proof (induction cs)
  case Nil
  show ?case by (induction n) simp_all
next
  case (Cons c cs)
  then have c: "c \<in> cities w" by simp
  then have "c \<noteq> 0" using used_index(1) [OF Cons.prems(1) c] by simp
  then show ?case using Cons used_city(1,2) [OF Cons.prems(1) c] by simp
qed

lemma do_update_ok:
  assumes inv: "obj_inv w" and i: "i \<in> players w" and ser: "gs_ser_pd sys (snapshot w i) = Some b"
  shows "do_update_player_data sys seq i w = Inr (snd (send_to_datasvr sys
    (ss_empty\<lparr>ss_cmd := kSetPlayerDataReq, ss_seq := seq, ss_player_idx := i,
       ss_set_player_data_req := Some \<lparr>spq_uid = p_uid (the_player w i), spq_player_data = b\<rparr>\<rparr>) w))"
proof -
  have pinv: "pool_inv (player_pool w)" and cinv: "pool_inv (city_pool w)" and ok: "player_ok (the_player w i)"
    and sub: "set (cities_of (the_player w i)) \<subseteq> cities w" using inv i by (auto simp: obj_inv_def)
  note g = used_get [OF pinv i] and l = player_ok_listD [OF ok]
  show ?thesis using g l(3) city_infos_ok [OF cinv sub] ser
    by (simp add: do_update_player_data_def MAX_CITY_NUM_PER_PLAYER_def snapshot_def)
qed

text \<open>Changing a city in place.\<close>

definition upd_city :: "int \<Rightarrow> (city \<Rightarrow> city) \<Rightarrow> gamesvr \<Rightarrow> gamesvr" where
  "upd_city c f w = w\<lparr>city_pool := (city_pool w)\<lparr>pool_mem := (pool_mem (city_pool w))[nat c := f (the_city w c)]\<rparr>\<rparr>"

lemma upd_city_simps [simp]:
  "player_pool (upd_city c f w) = player_pool w" "cities (upd_city c f w) = cities w"
  "total_unit_count (city_pool (upd_city c f w)) = total_unit_count (city_pool w)" "gout (upd_city c f w) = gout w"
  "uid_to_player_idx_map (upd_city c f w) = uid_to_player_idx_map w"
  by (simp_all add: upd_city_def)

lemma upd_city_inv: "obj_inv w \<Longrightarrow> obj_inv (upd_city c f w)"
  using pool_mem_update [of "city_pool w" "(pool_mem (city_pool w))[nat c := f (the_city w c)]"]
  by (simp add: obj_inv_def upd_city_def)

lemma the_city_upd:
  assumes "pool_inv (city_pool w)" "c \<in> cities w"
  shows "the_city (upd_city c f w) c = f (the_city w c)"
    "d \<in> cities w \<Longrightarrow> d \<noteq> c \<Longrightarrow> the_city (upd_city c f w) d = the_city w d"
  using used_index [OF assms] used_index(1) [OF assms(1), of d] by (simp_all add: upd_city_def eq_nat_nat_iff)

lemma city_setters:
  assumes "pool_inv (city_pool w)" "c \<in> cities w"
  shows "set_city_by_db ci c w = Inr (upd_city c (\<lambda>x. x\<lparr>ct_population := ci_population ci\<rparr>) w)"
    "set_city_player_idx i c w = Inr (upd_city c (\<lambda>x. x\<lparr>ct_player_idx := i\<rparr>) w)"
  using used_city [OF assms] by (simp_all add: set_city_by_db_def set_city_player_idx_def upd_city_def)

lemma load_cities_ok:
  assumes "obj_inv w" "i \<in> players w" "length (cities_of (the_player w i)) + length cis \<le> 99"
    "card (cities w) + length cis \<le> nat (total_unit_count (city_pool w))"
  shows "\<exists>w' new. load_cities i cis w = Inr w' \<and> obj_inv w' \<and> players w' = players w \<and>
    uid_to_player_idx_map w' = uid_to_player_idx_map w \<and> gout w' = gout w \<and>
    (\<forall>c\<in>cities w. the_city w' c = the_city w c) \<and> (\<forall>j\<in>players w. j \<noteq> i \<longrightarrow> the_player w' j = the_player w j) \<and>
    (\<exists>l. the_player w' i = (the_player w i)\<lparr>p_city_list := l\<rparr>) \<and>
    cities_of (the_player w' i) = cities_of (the_player w i) @ new \<and> cities w \<subseteq> cities w' \<and>
    map (\<lambda>c. ct_population (the_city w' c)) new = map ci_population cis"
  using assms
proof (induction cis arbitrary: w)
  case Nil
  have "\<exists>l. the_player w i = (the_player w i)\<lparr>p_city_list := l\<rparr>"
    by (rule exI [of _ "p_city_list (the_player w i)"]) simp
  then show ?case using Nil by (intro exI [of _ w] exI [of _ "[]"]) simp
next
  case (Cons ci cis)
  let ?p = "the_player w i"
  have n: "length (cities_of ?p) < 99" and room: "card (cities w) < nat (total_unit_count (city_pool w))"
    using Cons.prems(3,4) by simp_all
  have ok: "player_ok ?p" using Cons.prems(1,2) by (simp add: obj_inv_def)
  obtain c w1 where a: "add_city i w = Inr (c, w1)" "obj_inv w1" "0 < c" "c \<notin> cities w" "cities w1 = insert c (cities w)"
    "players w1 = players w" "the_player w1 i = own_city c ?p" "\<forall>j\<in>players w. j \<noteq> i \<longrightarrow> the_player w1 j = the_player w j"
    "the_city w1 c = city_zero\<lparr>ct_player_idx := i\<rparr>" "\<forall>d\<in>cities w. the_city w1 d = the_city w d"
    "w1 = w\<lparr>player_pool := player_pool w1, city_pool := city_pool w1\<rparr>"
    "total_unit_count (city_pool w1) = total_unit_count (city_pool w)"
    by (rule add_city_ok [OF Cons.prems(1,2) n room])
  have cinv1: "pool_inv (city_pool w1)" using a(2) by (simp add: obj_inv_def)
  have c1: "c \<in> cities w1" using a(5) by simp
  let ?w2 = "upd_city c (\<lambda>x. x\<lparr>ct_population := ci_population ci\<rparr>) w1"
  have inv2: "obj_inv ?w2" by (rule upd_city_inv [OF a(2)])
  then have cinv2: "pool_inv (city_pool ?w2)" by (simp add: obj_inv_def)
  have c2: "c \<in> cities ?w2" using c1 by simp
  let ?w3 = "upd_city c (\<lambda>x. x\<lparr>ct_player_idx := i\<rparr>) ?w2"
  have inv3: "obj_inv ?w3" by (rule upd_city_inv [OF inv2])
  have step: "load_cities i (ci # cis) w = load_cities i cis ?w3"
    using a(1) used_city(2) [OF cinv1 c1] city_setters(1) [OF cinv1 c1, of ci] city_setters(2) [OF cinv2 c2, of i] by simp
  have cnew: "c \<notin> set (cities_of ?p)" using Cons.prems(1,2) a(4) by (auto simp: obj_inv_def)
  note q = own_city_ok [OF ok n a(3) cnew]
  have fin: "finite (cities w)" by simp
  have keep: "uid_to_player_idx_map w1 = uid_to_player_idx_map w \<and> gout w1 = gout w"
    by (subst (1 2) a(11)) simp
  have pop: "ct_population (the_city ?w3 c) = ci_population ci"
    using the_city_upd(1) [OF cinv2 c2] the_city_upd(1) [OF cinv1 c1] by simp
  have other: "the_city ?w3 d = the_city w d" if "d \<in> cities w" for d
  proof -
    have "d \<noteq> c" "d \<in> cities w1" using that a(4,5) by auto
    then show ?thesis using the_city_upd(2) [OF cinv2 c2, of d] the_city_upd(2) [OF cinv1 c1, of d] a(10) that by simp
  qed
  have len3: "length (cities_of (the_player ?w3 i)) + length cis \<le> 99"
    using Cons.prems(3) a(7) q(2) by simp
  have room3: "card (cities ?w3) + length cis \<le> nat (total_unit_count (city_pool ?w3))"
    using Cons.prems(4) a(4,5,12) fin by simp
  have i3: "i \<in> players ?w3" using Cons.prems(2) a(6) by simp
  obtain w' new where ih: "load_cities i cis ?w3 = Inr w'" "obj_inv w'" "players w' = players ?w3"
    "uid_to_player_idx_map w' = uid_to_player_idx_map ?w3" "gout w' = gout ?w3"
    "\<forall>c\<in>cities ?w3. the_city w' c = the_city ?w3 c"
    "\<forall>j\<in>players ?w3. j \<noteq> i \<longrightarrow> the_player w' j = the_player ?w3 j"
    "\<exists>l. the_player w' i = (the_player ?w3 i)\<lparr>p_city_list := l\<rparr>"
    "cities_of (the_player w' i) = cities_of (the_player ?w3 i) @ new" "cities ?w3 \<subseteq> cities w'"
    "map (\<lambda>c. ct_population (the_city w' c)) new = map ci_population cis"
    using Cons.IH [OF inv3 i3 len3 room3] by metis
  have "\<exists>l. the_player w' i = ?p\<lparr>p_city_list := l\<rparr>"
    using ih(8) a(7) by (auto simp: own_city_def)
  moreover have "cities_of (the_player w' i) = cities_of ?p @ (c # new)" using ih(9) a(7) q(2) by simp
  moreover have "map (\<lambda>c. ct_population (the_city w' c)) (c # new) = map ci_population (ci # cis)"
    using ih(6,11) c1 pop by simp
  ultimately show ?case
    using step ih(1-7,10) keep a(5,6,8) other
    by (intro exI [of _ w'] exI [of _ "c # new"]) auto
qed

end
