(* ===== verification/Game_Msg.thy ===== *)
theory Game_Msg
  imports Game_Logic_Props
begin

text \<open>
  \<open>gamesvr/msg_module/msg_module.cpp\<close> and the main loop of \<open>gamesvr/app.cpp\<close>: packets from
  connsvr and datasvr are parsed, dispatched by their command and turned into steps of the
  asynchronous logics. One handler table serves both message classes; a handler casts the
  message to the class it was registered for.
\<close>

section \<open>Handlers\<close>

definition cmd_logic_type_map :: "(int \<times> int) list" where
  "cmd_logic_type_map = [(kLoginReq, LOGIC_LOGIN), (kQuickRegReq, LOGIC_QUICK_REG), (kNormalRegReq, LOGIC_NORMAL_REG)]"

definition logic_type_of_cmd :: "int \<Rightarrow> int" where
  "logic_type_of_cmd cmd = (case map_of cmd_logic_type_map cmd of Some t \<Rightarrow> t | None \<Rightarrow> 0)"

text \<open>Both start handlers differ in the time to live; with none the id is 0, which is an error.\<close>

definition logic_start :: "int \<Rightarrow> game_sys \<Rightarrow> largs \<Rightarrow> lmsg \<Rightarrow> gamesvr \<Rightarrow> (int \<times> gamesvr) res" where
  "logic_start secs sys args msg w =
     rbind (as_cs msg) (\<lambda>m.
     rbind (create_logic sys (logic_type_of_cmd (cs_cmd m)) secs w) (\<lambda>(logic_id, w1).
     if logic_id \<le> 0 then Inr (- 1, w1)
     else rbind (logic_proc sys logic_id msg args w1) (\<lambda>w2. Inr (0, w2))))"

definition on_logic_one_step_start :: "game_sys \<Rightarrow> largs \<Rightarrow> lmsg \<Rightarrow> gamesvr \<Rightarrow> (int \<times> gamesvr) res" where
  "on_logic_one_step_start = logic_start 0"

definition on_logic_multi_step_start :: "game_sys \<Rightarrow> largs \<Rightarrow> lmsg \<Rightarrow> gamesvr \<Rightarrow> (int \<times> gamesvr) res" where
  "on_logic_multi_step_start = logic_start 10"

definition on_logic_multi_step_resume :: "game_sys \<Rightarrow> largs \<Rightarrow> lmsg \<Rightarrow> gamesvr \<Rightarrow> (int \<times> gamesvr) res" where
  "on_logic_multi_step_resume sys args msg w =
     rbind (as_ss msg) (\<lambda>m. rbind (logic_proc sys (sint (ss_seq m)) msg args w) (\<lambda>w1. Inr (0, w1)))"

text \<open>The table \<open>ModuleInit\<close> fills, in the order of its registrations.\<close>

definition game_handlers :: "game_sys \<Rightarrow> largs \<Rightarrow> (int \<times> (lmsg, gamesvr) msg_wrapper) list" where
  "game_handlers sys args =
     msg_register kSetPlayerDataRes (on_logic_multi_step_resume sys args)
    (msg_register kGetPlayerDataRes (on_logic_multi_step_resume sys args)
    (msg_register kAccountRegRes (on_logic_multi_step_resume sys args)
    (msg_register kLoginReq (on_logic_multi_step_start sys args)
    (msg_register kNormalRegReq (on_logic_multi_step_start sys args)
    (msg_register kQuickRegReq (on_logic_multi_step_start sys args) [])))))"

fun lmsg_cmd :: "lmsg \<Rightarrow> int" where
  "lmsg_cmd L_Null = 0"
| "lmsg_cmd (L_Cs m) = cs_cmd m"
| "lmsg_cmd (L_Ss m) = ss_cmd m"

definition handle_cs :: "game_sys \<Rightarrow> bytes \<Rightarrow> largs \<Rightarrow> gamesvr \<Rightarrow> (int \<times> gamesvr) res" where
  "handle_cs sys pkg args w =
     handle_request (\<lambda>b. map_option L_Cs (gs_parse_cs sys b)) lmsg_cmd (game_handlers sys args) pkg w"

definition handle_ss :: "game_sys \<Rightarrow> bytes \<Rightarrow> largs \<Rightarrow> gamesvr \<Rightarrow> (int \<times> gamesvr) res" where
  "handle_ss sys pkg args w =
     handle_request (\<lambda>b. map_option L_Ss (gs_parse_ss sys b)) lmsg_cmd (game_handlers sys args) pkg w"

section \<open>Run\<close>

text \<open>\<open>zmq_recv\<close> into the static buffer with a limit of 1024 bytes: a longer packet is cut, but the
  length returned is that of the whole packet.\<close>

definition recv_into :: "bytes \<Rightarrow> int \<times> bytes \<Rightarrow> bytes" where
  "recv_into buf r = (let d = take 1024 (snd r) in d @ drop (length d) buf)"

definition full_response :: "cs_msg \<Rightarrow> cs_msg" where
  "full_response m =
     (if cs_cmd m = kLoginReq then m\<lparr>cs_cmd := kLoginRes, cs_ret := - 2\<rparr>
      else if cs_cmd m = kQuickRegReq then m\<lparr>cs_cmd := kQuickRegRes, cs_ret := - 2\<rparr>
      else if cs_cmd m = kNormalRegReq then m\<lparr>cs_cmd := kNormalRegRes, cs_ret := - 2\<rparr> else m)"

text \<open>A packet from connsvr; the flag tells whether \<open>Run\<close> goes on (its \<open>return\<close> leaves the loop).\<close>

definition conn_packet :: "game_sys \<Rightarrow> int \<Rightarrow> gamesvr \<Rightarrow> (bool \<times> gamesvr) res" where
  "conn_packet sys len w =
     rbind (get_conn_data_from_conn (msg_buf w)) (\<lambda>cd.
     let msg_len = get_msg_len_from_conn len;
         handle = (\<lambda>cd w. rbind (mem_read (msg_buf w) 12 msg_len) (\<lambda>pkg.
           rbind (handle_cs sys pkg (A_Conn cd) w) (\<lambda>(_, w). Inr (True, w)))) in
     if cd_conn_cmd cd = conn_cmd_code CONN_START then
       rbind (add_player w) (\<lambda>(player_idx, w1).
       rbind (get_player player_idx w1) (\<lambda>player.
       case player of
         None \<Rightarrow>
           rbind (mem_read (msg_buf w1) 12 msg_len) (\<lambda>pkg.
           case gs_parse_cs sys pkg of
             None \<Rightarrow> Inr (False, w1)
           | Some m \<Rightarrow>
               Inr (False, snd (send_to_connsvr sys (Some (full_response m)) CONN_STOP (cd_conn_fd cd) 0 w1)))
       | Some ptr \<Rightarrow>
           rbind (set_conn_fd (cd_conn_fd cd) ptr w1) (handle (cd\<lparr>cd_player_idx := player_idx\<rparr>))))
     else if cd_conn_cmd cd = conn_cmd_code CONN_STOP then
       rbind (get_player (cd_player_idx cd) w) (\<lambda>player.
       rbind (case player of
                None \<Rightarrow> Inr w
              | Some _ \<Rightarrow>
                  rbind (create_logic sys LOGIC_UPDATE_PLAYER 5 w) (\<lambda>(logic_id, w1).
                  logic_proc sys logic_id L_Null (A_Idx (cd_player_idx cd)) w1)) (\<lambda>w2.
       rbind (del_player (cd_player_idx cd) w2) (\<lambda>w3. Inr (False, w3))))
     else handle cd w)"

definition run_once :: "game_sys \<Rightarrow> gamesvr \<Rightarrow> (bool \<times> gamesvr) res" where
  "run_once sys w =
     (let r = gs_recv_conn sys (gout w);
          w1 = (gemit (G_Recv_Conn (fst r)) w)\<lparr>msg_buf := recv_into (msg_buf w) r\<rparr> in
      rbind (if fst r > 0 then conn_packet sys (fst r) w1 else Inr (True, w1)) (\<lambda>(go, w2).
      if \<not> go then Inr (False, w2)
      else
        let d = gs_recv_data sys (gout w2);
            w3 = (gemit (G_Recv_Data (fst d)) w2)\<lparr>msg_buf := recv_into (msg_buf w2) d\<rparr> in
        if fst d > 0 then
          rbind (mem_read (msg_buf w3) 0 (fst d)) (\<lambda>pkg.
          rbind (handle_ss sys pkg A_Null w3) (\<lambda>(_, w4). Inr (True, w4)))
        else Inr (True, w3)))"

fun run_times :: "game_sys \<Rightarrow> nat \<Rightarrow> gamesvr \<Rightarrow> gamesvr res" where
  "run_times sys 0 w = Inr w"
| "run_times sys (Suc n) w = rbind (run_once sys w) (\<lambda>(go, w1). if go then run_times sys n w1 else Inr w1)"

definition msg_run :: "game_sys \<Rightarrow> gamesvr \<Rightarrow> gamesvr res" where
  "msg_run sys w = run_times sys 1000 w"

text \<open>\<open>AppRun\<close> up to the coroutines: the messages, then the timers of the logics.\<close>

definition game_app_run :: "game_sys \<Rightarrow> gamesvr \<Rightarrow> gamesvr res option" where
  "game_app_run sys w = (case msg_run sys w of Inl e \<Rightarrow> Some (Inl e) | Inr w1 \<Rightarrow> logic_update sys w1)"

section \<open>TimerMgrModule\<close>

text \<open>A timer heap of its own with nothing but \<open>Poll\<close>.\<close>

definition timer_mgr_init :: "nat \<Rightarrow> int \<Rightarrow> heap_timer" where
  "timer_mgr_init timer_init_size now = heap_timer_new timer_init_size now"

definition timer_mgr_poll :: "'w exec \<Rightarrow> time_value \<Rightarrow> heap_timer \<Rightarrow> 'w \<Rightarrow> (heap_timer \<times> 'w) res option" where
  "timer_mgr_poll exec now ht w = timer_poll exec now ht w"

definition timer_mgr_fini :: "heap_timer \<Rightarrow> heap_timer res" where
  "timer_mgr_fini ht = heap_timer_delete ht"

end
