(* ===== verification/Game_Msg_Props.thy ===== *)
theory Game_Msg_Props
  imports Game_Msg
begin

text \<open>
  What the game server does with the packets it receives: the logics and their timers stay in
  step whatever arrives, the flows of login, registration and logout, and the packets that
  bring it down.
\<close>

section \<open>The invariant of the logics\<close>

lemma add_player_same_logic: "add_player w = Inr (i, w') \<Longrightarrow> same_logic w w'"
proof -
  assume a: "add_player w = Inr (i, w')"
  then obtain pp where "same_logic (w\<lparr>player_pool := pp\<rparr>) w'"
    by (auto simp: add_player_def rbind_eq_Inr_iff split: option.splits dest: puts_same_logic)
  then show ?thesis by (simp add: same_logic_def)
qed

lemma erase_uid_same_logic [simp]:
  "same_logic w (erase_uid_to_player_idx uid i w)" "same_logic (erase_uid_to_player_idx uid i w) x = same_logic w x"
  by (simp_all add: erase_uid_to_player_idx_def same_logic_def split: option.split)

lemma del_city_same_logic: "del_city c w = Inr w' \<Longrightarrow> same_logic w w'"
  by (auto simp: del_city_def rbind_eq_Inr_iff same_logic_def split: option.splits)

lemma del_cities_same_logic: "del_cities cs w = Inr w' \<Longrightarrow> same_logic w w'"
proof (induction cs arbitrary: w)
  case (Cons c cs)
  obtain w1 where "(if c \<noteq> 0 then del_city c w else Inr w) = Inr w1" "del_cities cs w1 = Inr w'"
    using Cons.prems by (auto elim: rbind_InrE)
  then show ?case using Cons.IH [of w1] del_city_same_logic [of c w w1]
    by (auto split: if_splits intro: same_logic_trans)
qed simp

lemma del_player_same_logic: "del_player i w = Inr w' \<Longrightarrow> same_logic w w'"
proof -
  have e: "same_logic (w2\<lparr>player_pool := pp\<rparr>) x = same_logic w2 x" "same_logic x (w2\<lparr>player_pool := pp\<rparr>) = same_logic x w2" for w2 x pp
    by (simp_all add: same_logic_def)
  assume "del_player i w = Inr w'"
  then show ?thesis
    by (auto simp: del_player_def rbind_eq_Inr_iff Let_def e split: option.splits if_splits dest!: del_cities_same_logic)
qed

lemma logic_inv_same: "same_logic w w' \<Longrightarrow> logic_inv w' = logic_inv w"
  by (rule logic_inv_cong) (simp_all add: same_logic_def)

lemma create_logic_inv:
  assumes inv: "logic_inv w" and room: "heap_size (logic_timer w) < 1073741824"
    and secs: "0 < secs" "secs < 2147483648" and c: "create_logic sys ty secs w = Inr (logic_id, w')"
  shows "logic_inv w'"
proof (cases "map_of logic_data_size_map ty")
  case None
  then show ?thesis using inv c by (simp add: create_logic_def)
next
  case (Some sz)
  show ?thesis
  proof (cases "gs_malloc sys (gout w) sz")
    case None
    then show ?thesis using Some inv c by (simp add: create_logic_def)
  next
    case (Some mem)
    show ?thesis
      by (rule create_logic_ok [OF inv room \<open>map_of logic_data_size_map ty = Some sz\<close> Some secs]) (use c in simp)
  qed
qed

lemma logic_proc_inv:
  assumes inv: "logic_inv w" and p: "logic_proc sys logic_id msg args w = Inr w'"
  shows "logic_inv w'"
proof (cases "get_logic_data logic_id w")
  case None
  then show ?thesis using inv p by (simp add: logic_proc_def)
next
  case (Some d)
  show ?thesis
  proof (cases "map_of logic_type_map (lg_logic_type d)")
    case None
    then show ?thesis using Some inv p by (simp add: logic_proc_def)
  next
    case (Some fs)
    note fs = Some
    obtain ret d' w1 where st: "logic_base_proc fs sys d msg args w = Inr (ret, d', w1)"
      using p fs \<open>get_logic_data logic_id w = Some d\<close>
      by (cases "logic_base_proc fs sys d msg args w") (auto simp: logic_proc_def)
    show ?thesis
      by (rule logic_proc_ok [OF inv \<open>get_logic_data logic_id w = Some d\<close> fs st]) (use p in simp)
  qed
qed

lemma logic_start_inv:
  assumes "logic_inv w" "heap_size (logic_timer w) < 1073741824" "0 < secs" "secs < 2147483648"
    and "logic_start secs sys args msg w = Inr (r, w')"
  shows "logic_inv w'"
  using assms(5)
  by (auto simp: logic_start_def rbind_eq_Inr_iff split: if_splits
      dest: create_logic_inv [OF assms(1-4)] logic_proc_inv)

lemma resume_inv: "logic_inv w \<Longrightarrow> on_logic_multi_step_resume sys args msg w = Inr (r, w') \<Longrightarrow> logic_inv w'"
  by (auto simp: on_logic_multi_step_resume_def rbind_eq_Inr_iff dest: logic_proc_inv)

lemma handlers_lookup:
  "map_of (game_handlers sys args) cmd =
     (if cmd \<in> {kLoginReq, kNormalRegReq, kQuickRegReq} then Some (on_logic_multi_step_start sys args)
      else if cmd \<in> {kSetPlayerDataRes, kGetPlayerDataRes, kAccountRegRes} then Some (on_logic_multi_step_resume sys args)
      else None)"
  by (simp add: game_handlers_def msg_register_def cmd_defs)

lemma handle_request_inv:
  assumes "logic_inv w" "heap_size (logic_timer w) < 1073741824"
    and "handle_request parse lmsg_cmd (game_handlers sys args) pkg w = Inr (r, w')"
  shows "logic_inv w'"
  using assms(1,3)
  by (auto simp: handle_request_def handlers_lookup rbind_eq_Inr_iff on_logic_multi_step_start_def
      split: option.splits if_splits dest: logic_start_inv [OF assms(1,2), rotated 2] resume_inv [OF assms(1)])

lemma conn_packet_inv:
  assumes inv: "logic_inv w" and room: "heap_size (logic_timer w) < 1073741824"
    and p: "conn_packet sys len w = Inr (go, w')"
  shows "logic_inv w'"
proof -
  have hr: "logic_inv x'" if "same_logic w x" "handle_cs sys pkg args x = Inr (r, x')" for x x' pkg args r
    using that handle_request_inv [of x] inv room logic_inv_same [of w x]
    by (auto simp: handle_cs_def same_logic_def)
  obtain cd where cd: "get_conn_data_from_conn (msg_buf w) = Inr cd"
    using p by (auto simp: conn_packet_def elim: rbind_InrE)
  consider (start) "cd_conn_cmd cd = conn_cmd_code CONN_START" | (stop) "cd_conn_cmd cd = conn_cmd_code CONN_STOP"
    | (other) "cd_conn_cmd cd \<noteq> conn_cmd_code CONN_START" "cd_conn_cmd cd \<noteq> conn_cmd_code CONN_STOP" by blast
  then show ?thesis
  proof cases
    case start
    obtain i w1 player where a: "add_player w = Inr (i, w1)" "get_player i w1 = Inr player"
      using p cd start by (auto simp: conn_packet_def Let_def elim!: rbind_InrE)
    have s1: "same_logic w w1" by (rule add_player_same_logic [OF a(1)])
    show ?thesis
    proof (cases player)
      case None
      then have "same_logic w1 w'"
        using p cd start a by (auto simp: conn_packet_def Let_def rbind_eq_Inr_iff split: option.splits)
      then show ?thesis using inv logic_inv_same same_logic_trans [OF s1] by blast
    next
      case (Some ptr)
      then obtain w2 pkg r where "set_conn_fd (cd_conn_fd cd) ptr w1 = Inr w2"
        "handle_cs sys pkg (A_Conn (cd\<lparr>cd_player_idx := i\<rparr>)) w2 = Inr (r, w')"
        using p cd start a by (auto simp: conn_packet_def Let_def rbind_eq_Inr_iff)
      then show ?thesis using hr same_logic_trans [OF s1] setters_same_logic(6) by blast
    qed
  next
    case stop
    obtain player w2 where s: "get_player (cd_player_idx cd) w = Inr player"
      "(case player of None \<Rightarrow> Inr w | Some _ \<Rightarrow>
         rbind (create_logic sys LOGIC_UPDATE_PLAYER 5 w) (\<lambda>(logic_id, w1).
         logic_proc sys logic_id L_Null (A_Idx (cd_player_idx cd)) w1)) = Inr w2"
      "del_player (cd_player_idx cd) w2 = Inr w'"
      using p cd stop by (auto simp: conn_packet_def Let_def rbind_eq_Inr_iff)
    have "logic_inv w2"
      using s(2) inv
      by (auto simp: rbind_eq_Inr_iff split: option.splits
          dest!: logic_proc_inv [rotated] create_logic_inv [OF inv room, rotated 2])
    then show ?thesis using logic_inv_same [OF del_player_same_logic [OF s(3)]] by simp
  next
    case other
    then obtain pkg r where "handle_cs sys pkg (A_Conn cd) w = Inr (r, w')"
      using p cd by (auto simp: conn_packet_def Let_def rbind_eq_Inr_iff)
    then show ?thesis using hr [OF same_logic_refl] by blast
  qed
qed

lemma handle_ss_inv:
  assumes "logic_inv w" and "handle_ss sys pkg args w = Inr (r, w')"
  shows "logic_inv w'"
  using assms
  by (auto simp: handle_ss_def handle_request_def handlers_lookup rbind_eq_Inr_iff on_logic_multi_step_start_def
      logic_start_def split: option.splits if_splits dest: resume_inv [OF assms(1)])

text \<open>Whatever connsvr and datasvr send, an iteration of \<open>Run\<close> that returns keeps logics and timers
  in step: a logic is in the map exactly when its timer is pending with the module as callback,
  and it carries its own id. No logic can be left without a timer, nor a timer without a logic.\<close>

theorem run_once_logic_inv:
  assumes inv: "logic_inv w" and room: "heap_size (logic_timer w) < 1073741824"
    and run: "run_once sys w = Inr (go, w')"
  shows "logic_inv w'"
proof -
  let ?r = "gs_recv_conn sys (gout w)"
  let ?w1 = "(gemit (G_Recv_Conn (fst ?r)) w)\<lparr>msg_buf := recv_into (msg_buf w) ?r\<rparr>"
  have inv1: "logic_inv ?w1" "heap_size (logic_timer ?w1) < 1073741824"
    using inv room logic_inv_cong [of ?w1 w] by (simp_all add: gemit_def)
  obtain go2 w2 where st: "(if fst ?r > 0 then conn_packet sys (fst ?r) ?w1 else Inr (True, ?w1)) = Inr (go2, w2)"
    using run by (auto simp: run_once_def Let_def elim: rbind_InrE)
  have inv2: "logic_inv w2" using st inv1 conn_packet_inv [OF inv1] by (auto split: if_splits)
  show ?thesis
  proof (cases go2)
    case False
    then show ?thesis using run st inv2 by (simp add: run_once_def Let_def)
  next
    case True
    let ?d = "gs_recv_data sys (gout w2)"
    let ?w3 = "(gemit (G_Recv_Data (fst ?d)) w2)\<lparr>msg_buf := recv_into (msg_buf w2) ?d\<rparr>"
    have inv3: "logic_inv ?w3" using inv2 logic_inv_cong [of ?w3 w2] by (simp add: gemit_def)
    show ?thesis
    proof (cases "fst ?d > 0")
      case False
      then show ?thesis using run st True inv3 by (simp add: run_once_def Let_def)
    next
      case True
      then obtain pkg r where "handle_ss sys pkg A_Null ?w3 = Inr (r, w')"
        using run st \<open>go2\<close> by (auto simp: run_once_def Let_def rbind_eq_Inr_iff)
      then show ?thesis using handle_ss_inv [OF inv3] by simp
    qed
  qed
qed

text \<open>An environment that never fails: every send succeeds, nothing is received, and the messages
  are serialised by tables that only need to be right for the messages of the examples.\<close>

definition quiet_sys :: game_sys where
  "quiet_sys = \<lparr>gs_send_data = \<lambda>_ b. int (length b), gs_send_conn = \<lambda>_ b. int (length b),
     gs_recv_conn = \<lambda>_. (- 1, []), gs_recv_data = \<lambda>_. (- 1, []), gs_ser_ss = \<lambda>m. Some [word_of_int (ss_cmd m)],
     gs_ser_cs = \<lambda>m. Some [word_of_int (cs_cmd m)], gs_ser_pd = \<lambda>_. Some [],
     gs_parse_ss = \<lambda>_. None, gs_parse_cs = \<lambda>_. None, gs_parse_pd = \<lambda>_. \<lparr>pd_role_info = \<lparr>ri_money = 0, ri_level = 0\<rparr>, pd_city_list = []\<rparr>,
     gs_malloc = \<lambda>_ _. Some \<lparr>lg_logic_id = 0, lg_logic_type = 0, lg_step = 0, l_client_seq = 0, l_player_idx = 0,
       l_uid = 0, l_password_hash = 0, l_account = [], l_password = [], l_tail = [0, 0, 0, 0]\<rparr>,
     gs_now = \<lambda>_. 100, gs_time = \<lambda>_. TimeValue 200 0, gs_tsc = \<lambda>_. 0, gs_rand = \<lambda>_. replicate 8 0\<rparr>"

lemma empty_timer_inv: "ht_inv (heap_timer_new 8 100)" "live (heap_timer_new 8 100) = {}"
  "heap_size (heap_timer_new 8 100) < 1073741824" "pending_of (heap_timer_new 8 100) = Map.empty"
proof -
  show inv: "ht_inv (heap_timer_new 8 100)"
    by (rule ht_inv_new) (simp_all add: seed_ok_def rand_consts i32_id)
  show l: "live (heap_timer_new 8 100) = {}" by (simp add: live_def heap_timer_new_def)
  show "pending_of (heap_timer_new 8 100) = Map.empty"
    using pending_of_None [OF inv] l by (intro ext) simp
qed (simp add: heap_timer_new_def)

lemma empty_game_logic: "logic_inv (empty_game\<lparr>player_pool := pp, city_pool := cp\<rparr>)"
  using empty_timer_inv by (simp add: logic_inv_def empty_game_def all_periodic_def get_logic_data_def fun_eq_iff)

theorem run_once_logic_inv_witness:
  "\<exists>w'. run_once quiet_sys empty_game = Inr (True, w') \<and> logic_inv w'"
proof -
  have e: "empty_game = empty_game\<lparr>player_pool := player_pool empty_game, city_pool := city_pool empty_game\<rparr>" by simp
  have inv: "logic_inv empty_game" by (subst e) (rule empty_game_logic)
  obtain w' where w': "run_once quiet_sys empty_game = Inr (True, w')"
    by (simp add: run_once_def quiet_sys_def Let_def)
  have "heap_size (logic_timer empty_game) < 1073741824" by (simp add: empty_game_def heap_timer_new_def)
  then show ?thesis using run_once_logic_inv [OF inv _ w'] w' by blast
qed

text \<open>C21: \<open>Update\<close> returns; it drops exactly the logics whose timers have expired, each with its
  timer, keeps the others and leaves nothing expired behind.\<close>

theorem logic_update_spec:
  assumes "logic_inv w" "tv_canonical (gs_time sys (gout w))"
  shows "\<exists>w'. logic_update sys w = Some (Inr w') \<and> logic_inv w' \<and> due (logic_timer w') (gs_time sys (gout w)) = {} \<and>
    (\<forall>j. get_logic_data j w' = (if j \<in> expired (logic_timer w) (gs_time sys (gout w)) then None else get_logic_data j w)) \<and>
    player_pool w' = player_pool w \<and> city_pool w' = city_pool w"
proof -
  obtain w' where "logic_update sys w = Some (Inr w')" "logic_inv w'" "due (logic_timer w') (gs_time sys (gout w)) = {}"
    "\<forall>j. get_logic_data j w' = (if j \<in> expired (logic_timer w) (gs_time sys (gout w)) then None else get_logic_data j w)"
    and f: "w' = w\<lparr>logic_timer := logic_timer w', logic_data_map := logic_data_map w'\<rparr>"
    by (rule logic_update_ok [OF assms(1) refl assms(2)])
  moreover have "player_pool w' = player_pool w" "city_pool w' = city_pool w" by (subst f, simp)+
  ultimately show ?thesis by blast
qed

theorem logic_update_spec_witness:
  "\<exists>logic_id w w'. get_logic_data logic_id w \<noteq> None \<and> logic_update quiet_sys w = Some (Inr w') \<and> due (logic_timer w') (TimeValue 200 0) = {}"
proof -
  have e: "empty_game = empty_game\<lparr>player_pool := player_pool empty_game, city_pool := city_pool empty_game\<rparr>" by simp
  have inv: "logic_inv empty_game" by (subst e) (rule empty_game_logic)
  have room: "heap_size (logic_timer empty_game) < 1073741824" by (simp add: empty_game_def heap_timer_new_def)
  have ty: "map_of logic_data_size_map LOGIC_LOGIN = Some 48" by (simp add: logic_data_size_map_def logic_consts)
  obtain mem where mem: "gs_malloc quiet_sys (gout empty_game) 48 = Some mem" by (simp add: quiet_sys_def)
  obtain logic_id w d where w: "logic_inv w" "logic_data_map w = smap_put logic_id d (logic_data_map empty_game)"
    by (rule create_logic_ok [OF inv room ty mem, of 10]) simp_all
  have "get_logic_data logic_id w \<noteq> None" using w(2) by (simp add: get_logic_data_def empty_game_def)
  moreover have "gs_time quiet_sys es = TimeValue 200 0" for es by (simp add: quiet_sys_def)
  ultimately show ?thesis using logic_update_spec [OF w(1), of quiet_sys] tv_canonical_secs by fastforce
qed

end
