(* ===== verification/Game_Flows.thy ===== *)
theory Game_Flows
  imports Game_Msg_Props Utils_Props
begin

text \<open>
  Complete exchanges of the game server, from the packet of connsvr or datasvr to what it sends:
  login of an account that is not online, the answer of datasvr, login of an account that is
  online, registration with a name of full length, and the end of a connection.
\<close>

section \<open>Packets\<close>

text \<open>The receive buffer holds a packet of connsvr.\<close>

definition holds_packet :: "conn_data \<Rightarrow> bytes \<Rightarrow> gamesvr \<Rightarrow> bool" where
  "holds_packet cd pkg w \<longleftrightarrow> cd_ok cd \<and> length pkg < 10240 \<and>
     take (12 + length pkg) (msg_buf w) = put_conn_data cd @ pkg"

lemma holds_packet_read:
  assumes "holds_packet cd pkg w"
  shows "get_conn_data_from_conn (msg_buf w) = Inr cd" "get_msg_len_from_conn (12 + int (length pkg)) = int (length pkg)"
    "mem_read (msg_buf w) 12 (int (length pkg)) = Inr pkg"
proof -
  have "msg_buf w = put_conn_data cd @ pkg @ drop (12 + length pkg) (msg_buf w)"
    using assms append_take_drop_id [of "12 + length pkg" "msg_buf w"] by (simp add: holds_packet_def)
  then obtain rest where "msg_buf w = put_conn_data cd @ pkg @ rest" by blast
  then show "get_conn_data_from_conn (msg_buf w) = Inr cd" "get_msg_len_from_conn (12 + int (length pkg)) = int (length pkg)"
    "mem_read (msg_buf w) 12 (int (length pkg)) = Inr pkg"
    using assms by (simp_all add: holds_packet_def get_put_conn_data mem_read_def get_msg_len_from_conn_def u64_def
      take_bit_int_eq_self i32_id)
qed

lemma conn_packet_proc:
  assumes "holds_packet cd pkg w" "cd_conn_cmd cd = conn_cmd_code CONN_PROC"
  shows "conn_packet sys (12 + int (length pkg)) w = rbind (handle_cs sys pkg (A_Conn cd) w) (\<lambda>(_, w). Inr (True, w))"
  using assms(2) holds_packet_read [OF assms(1)] by (simp add: conn_packet_def Let_def)

text \<open>C35: A connected client can crash the game server with one message: the commands 12, 20 and 22
  are registered for the answers of datasvr, and the handler uses the client's message as an
  object of that other class.\<close>

theorem client_type_confusion:
  "holds_packet cd pkg w \<Longrightarrow> cd_conn_cmd cd = conn_cmd_code CONN_PROC \<Longrightarrow>
   gs_parse_cs sys pkg = Some m \<Longrightarrow> cs_cmd m \<in> {12, 20, 22} \<Longrightarrow>
   conn_packet sys (12 + int (length pkg)) w = Inl Type_Confusion"
  by (auto simp: conn_packet_proc handle_cs_def handle_request_def handlers_lookup on_logic_multi_step_resume_def cmd_defs)

theorem client_type_confusion_witness:
  "conn_packet (quiet_sys\<lparr>gs_parse_cs := \<lambda>b. Some (cs_empty\<lparr>cs_cmd := 20\<rparr>)\<rparr>) 15
     (empty_game\<lparr>msg_buf := put_conn_data \<lparr>cd_conn_fd = 7, cd_player_idx = 1, cd_conn_cmd = 2\<rparr> @ [1, 2, 3]\<rparr>) = Inl Type_Confusion"
  using client_type_confusion [of "\<lparr>cd_conn_fd = 7, cd_player_idx = 1, cd_conn_cmd = 2\<rparr>" "[1, 2, 3]"
      "empty_game\<lparr>msg_buf := put_conn_data \<lparr>cd_conn_fd = 7, cd_player_idx = 1, cd_conn_cmd = 2\<rparr> @ [1, 2, 3]\<rparr>"
      "quiet_sys\<lparr>gs_parse_cs := \<lambda>b. Some (cs_empty\<lparr>cs_cmd := 20\<rparr>)\<rparr>" "cs_empty\<lparr>cs_cmd := 20\<rparr>"]
  by (simp add: holds_packet_def cd_ok_def)

section \<open>Starting a logic\<close>

definition fresh_logic :: "logic_data \<Rightarrow> int \<Rightarrow> int \<Rightarrow> logic_data" where
  "fresh_logic mem logic_id ty = mem\<lparr>lg_logic_id := word_of_int logic_id, lg_logic_type := ty, lg_step := 0\<rparr>"

text \<open>Two states that differ in the timers and the logics only.\<close>

definition same_but_logic :: "gamesvr \<Rightarrow> gamesvr \<Rightarrow> bool" where
  "same_but_logic w w' \<longleftrightarrow> w' = w\<lparr>logic_timer := logic_timer w', logic_data_map := logic_data_map w'\<rparr>"

lemma same_but_logicD:
  assumes "same_but_logic w w'"
  shows "player_pool w' = player_pool w" "city_pool w' = city_pool w" "uid_to_player_idx_map w' = uid_to_player_idx_map w"
    "msg_buf w' = msg_buf w" "gout w' = gout w" "obj_inv w' = obj_inv w"
proof -
  show "player_pool w' = player_pool w" "city_pool w' = city_pool w" "uid_to_player_idx_map w' = uid_to_player_idx_map w"
    "msg_buf w' = msg_buf w" "gout w' = gout w"
    using assms by (cases w; cases w'; simp add: same_but_logic_def)+
  then show "obj_inv w' = obj_inv w" by (intro obj_inv_cong)
qed

lemma start_logic:
  assumes inv: "logic_inv w" and room: "heap_size (logic_timer w) < 1073741824"
    and mem: "\<And>es sz. gs_malloc sys es sz \<noteq> None" and secs: "0 < secs" "secs < 2147483648"
    and ty: "map_of logic_data_size_map ty = Some sz" "map_of logic_type_map ty = Some (f # fs)"
    and step: "\<And>d w1 logic_id. same_but_logic w w1 \<Longrightarrow> lg_logic_id d = word_of_int logic_id \<Longrightarrow> lg_logic_type d = ty \<Longrightarrow>
      \<exists>ret d' w2. f sys d msg args w1 = Inr (ret, d', w2) \<and> Q logic_id ret d' w2"
  obtains logic_id ret d' w1 w2 w' where "create_logic sys ty secs w = Inr (logic_id, w1)"
    "logic_proc sys logic_id msg args w1 = Inr w'" "Q logic_id ret d' w2" "logic_inv w'" "0 < logic_id"
    "get_logic_data logic_id w = None" "get_logic_data logic_id w' = (if ret = LOGIC_YIELD then Some d' else None)"
    "\<forall>j. j \<noteq> logic_id \<longrightarrow> get_logic_data j w' = get_logic_data j w" "same_but_logic w2 w'"
proof -
  obtain m where m: "gs_malloc sys (gout w) sz = Some m" using mem by blast
  obtain logic_id w1 where c: "create_logic sys ty secs w = Inr (logic_id, w1)" "logic_inv w1" "0 < logic_id"
    "get_logic_data logic_id w = None" "logic_data_map w1 = smap_put logic_id (fresh_logic m logic_id ty) (logic_data_map w)"
    "same_but_logic w w1"
    using create_logic_ok [OF inv room ty(1) m secs] unfolding fresh_logic_def same_but_logic_def by metis
  have ok: "smap_ok (logic_data_map w)" using inv by (simp add: logic_inv_def)
  have g1: "get_logic_data j w1 = (if j = logic_id then Some (fresh_logic m logic_id ty) else get_logic_data j w)" for j
    using c(5) ok by (simp add: get_logic_data_def)
  have lid: "lg_logic_id (fresh_logic m logic_id ty) = word_of_int logic_id" by (simp add: fresh_logic_def)
  obtain ret d' w2 where st: "f sys (fresh_logic m logic_id ty) msg args w1 = Inr (ret, d', w2)" "Q logic_id ret d' w2"
    using step [OF c(6) lid] by (auto simp: fresh_logic_def)
  have g: "get_logic_data logic_id w1 = Some (fresh_logic m logic_id ty)" using g1 by simp
  have fs: "map_of logic_type_map (lg_logic_type (fresh_logic m logic_id ty)) = Some (f # fs)"
    using ty(2) by (simp add: fresh_logic_def)
  have b: "logic_base_proc (f # fs) sys (fresh_logic m logic_id ty) msg args w1 = Inr (ret, d', w2)"
    using st(1) by (simp add: logic_base_proc_def fresh_logic_def)
  obtain w' where p: "logic_proc sys logic_id msg args w1 = Inr w'" "logic_inv w'"
    "get_logic_data logic_id w' = (if ret = LOGIC_YIELD then Some d' else None)"
    "\<forall>j. j \<noteq> logic_id \<longrightarrow> get_logic_data j w' = get_logic_data j w1"
    "w' = w2\<lparr>logic_timer := logic_timer w', logic_data_map := logic_data_map w'\<rparr>"
    by (rule logic_proc_ok [OF c(2) g fs b])
  then show thesis using that c(1,3,4) st(2) g1 by (simp add: same_but_logic_def)
qed

lemma handle_cs_start:
  assumes inv: "logic_inv w" and room: "heap_size (logic_timer w) < 1073741824"
    and mem: "\<And>es sz. gs_malloc sys es sz \<noteq> None"
    and m: "gs_parse_cs sys pkg = Some m" "cs_cmd m \<in> {kLoginReq, kNormalRegReq, kQuickRegReq}"
    and ty: "map_of logic_type_map (logic_type_of_cmd (cs_cmd m)) = Some (f # fs)"
    and step: "\<And>d w1 logic_id. same_but_logic w w1 \<Longrightarrow> lg_logic_id d = word_of_int logic_id \<Longrightarrow> lg_logic_type d = logic_type_of_cmd (cs_cmd m) \<Longrightarrow>
      \<exists>ret d' w2. f sys d (L_Cs m) args w1 = Inr (ret, d', w2) \<and> Q logic_id ret d' w2"
  shows "\<exists>logic_id ret d' w2 w'. handle_cs sys pkg args w = Inr (0, w') \<and> Q logic_id ret d' w2 \<and> logic_inv w' \<and> 0 < logic_id \<and>
    get_logic_data logic_id w = None \<and> get_logic_data logic_id w' = (if ret = LOGIC_YIELD then Some d' else None) \<and>
    (\<forall>j. j \<noteq> logic_id \<longrightarrow> get_logic_data j w' = get_logic_data j w) \<and> same_but_logic w2 w'"
proof -
  obtain sz where sz: "map_of logic_data_size_map (logic_type_of_cmd (cs_cmd m)) = Some sz"
    using m(2) by (auto simp: logic_data_size_map_def logic_type_of_cmd_def cmd_logic_type_map_def cmd_defs logic_consts)
  have "(0 :: int) < 10" "(10 :: int) < 2147483648" by simp_all
  then obtain logic_id ret d' w1 w2 w' where s: "create_logic sys (logic_type_of_cmd (cs_cmd m)) 10 w = Inr (logic_id, w1)"
    "logic_proc sys logic_id (L_Cs m) args w1 = Inr w'" "Q logic_id ret d' w2" "logic_inv w'" "0 < logic_id"
    "get_logic_data logic_id w = None" "get_logic_data logic_id w' = (if ret = LOGIC_YIELD then Some d' else None)"
    "\<forall>j. j \<noteq> logic_id \<longrightarrow> get_logic_data j w' = get_logic_data j w" "same_but_logic w2 w'"
    by (rule start_logic [OF inv room mem _ _ sz ty step])
  have "handle_cs sys pkg args w = Inr (0, w')"
    using m s(1,2,5)
    by (auto simp: handle_cs_def handle_request_def handlers_lookup on_logic_multi_step_start_def logic_start_def)
  then show ?thesis using s by blast
qed

section \<open>What is sent\<close>

definition sent_data :: "game_sys \<Rightarrow> ss_msg \<Rightarrow> geffect list \<Rightarrow> geffect list" where
  "sent_data sys m es = (case gs_ser_ss sys m of None \<Rightarrow> [] | Some b \<Rightarrow> [G_Data b (gs_send_data sys es b)])"

definition sent_conn :: "game_sys \<Rightarrow> cs_msg \<Rightarrow> conn_cmd \<Rightarrow> int \<Rightarrow> int \<Rightarrow> geffect list \<Rightarrow> geffect list" where
  "sent_conn sys m cmd fd idx es =
     (case gs_ser_cs sys m of None \<Rightarrow> []
      | Some b \<Rightarrow> let pkt = put_conn_data \<lparr>cd_conn_fd = fd, cd_player_idx = idx, cd_conn_cmd = conn_cmd_code cmd\<rparr> @ b
          in [G_Conn pkt (gs_send_conn sys es pkt)])"

lemma send_data_eq: "snd (send_to_datasvr sys m w) = w\<lparr>gout := gout w @ sent_data sys m (gout w)\<rparr>"
  by (simp add: send_to_datasvr_def sent_data_def gemit_def Let_def split: option.split)

lemma send_conn_eq: "snd (send_to_connsvr sys (Some m) cmd fd idx w) = w\<lparr>gout := gout w @ sent_conn sys m cmd fd idx (gout w)\<rparr>"
  by (simp add: send_to_connsvr_def sent_conn_def gemit_def Let_def split: option.split)

text \<open>The requests to datasvr.\<close>

definition get_player_data_req :: "64 word \<Rightarrow> int \<Rightarrow> 64 word \<Rightarrow> 64 word \<Rightarrow> ss_msg" where
  "get_player_data_req seq i uid h = ss_empty\<lparr>ss_cmd := kGetPlayerDataReq, ss_seq := seq, ss_player_idx := i,
     ss_get_player_data_req := Some \<lparr>ak_uid = uid, ak_password_hash = h\<rparr>\<rparr>"

definition save_req :: "64 word \<Rightarrow> int \<Rightarrow> 64 word \<Rightarrow> bytes \<Rightarrow> ss_msg" where
  "save_req seq i uid b = ss_empty\<lparr>ss_cmd := kSetPlayerDataReq, ss_seq := seq, ss_player_idx := i,
     ss_set_player_data_req := Some \<lparr>spq_uid = uid, spq_player_data = b\<rparr>\<rparr>"

section \<open>Login of an account that is not online\<close>

text \<open>A login logic waiting for the data of player \<open>i\<close>.\<close>

definition awaiting_data :: "logic_data \<Rightarrow> int \<Rightarrow> 64 word \<Rightarrow> 64 word \<Rightarrow> 64 word \<Rightarrow> bool" where
  "awaiting_data d i uid h seq \<longleftrightarrow> lg_logic_type d = LOGIC_LOGIN \<and> lg_step d = 2 \<and> l_player_idx d = i \<and>
     l_uid d = uid \<and> l_password_hash d = h \<and> l_client_seq d = seq"

lemma login_type:
  "logic_type_of_cmd kLoginReq = LOGIC_LOGIN" "map_of logic_type_map LOGIC_LOGIN = Some [login_step0, login_step1, login_step2]"
  "logic_type_of_cmd kNormalRegReq = LOGIC_NORMAL_REG" "map_of logic_type_map LOGIC_NORMAL_REG = Some [normal_reg_step0, normal_reg_step1]"
  "map_of logic_type_map LOGIC_UPDATE_PLAYER = Some [update_player_step0, update_player_step1]"
  by (simp_all add: logic_type_of_cmd_def cmd_logic_type_map_def logic_type_map_def cmd_defs logic_consts)

lemma login_requested:
  assumes inv: "logic_inv w" "obj_inv w" and room: "heap_size (logic_timer w) < 1073741824"
    and mem: "\<And>es sz. gs_malloc sys es sz \<noteq> None" and i: "cd_player_idx cd \<in> players w"
    and m: "gs_parse_cs sys pkg = Some m" "cs_cmd m = kLoginReq" "cs_login_req m = Some \<lparr>am_account = account, am_password = password\<rparr>"
    and ok: "check_account account (int (length account)) = Inr 0" "check_password password (int (length password)) = Inr 0"
    and off: "find_player_idx_by_uid (fnv64a_hash account) w \<le> 0"
  obtains logic_id d w' where "handle_cs sys pkg (A_Conn cd) w = Inr (0, w')" "logic_inv w'" "obj_inv w'"
    "get_logic_data logic_id w = None" "get_logic_data logic_id w' = Some d"
    "awaiting_data d (cd_player_idx cd) (fnv64a_hash account) (fnv64a_hash password) (cs_seq m)"
    "player_pool w' = player_pool w" "city_pool w' = city_pool w" "uid_to_player_idx_map w' = uid_to_player_idx_map w"
    "gout w' = gout w @ sent_data sys (get_player_data_req (word_of_int logic_id) (cd_player_idx cd)
      (fnv64a_hash account) (fnv64a_hash password)) (gout w)"
proof -
  let ?i = "cd_player_idx cd" and ?u = "fnv64a_hash account" and ?h = "fnv64a_hash password"
  define Q where "Q logic_id ret d' w2 \<longleftrightarrow> ret = LOGIC_YIELD \<and> awaiting_data d' ?i ?u ?h (cs_seq m) \<and> player_pool w2 = player_pool w \<and>
    city_pool w2 = city_pool w \<and> uid_to_player_idx_map w2 = uid_to_player_idx_map w \<and> gout w2 = gout w @ sent_data sys (get_player_data_req (word_of_int logic_id) ?i ?u ?h) (gout w)"
    for logic_id :: int and ret :: int and d' :: logic_data and w2 :: gamesvr
  have step: "\<exists>ret d' w2. login_step0 sys d (L_Cs m) (A_Conn cd) w1 = Inr (ret, d', w2) \<and> Q logic_id ret d' w2"
    if s: "same_but_logic w w1" and d: "lg_logic_id d = word_of_int logic_id" "lg_logic_type d = logic_type_of_cmd (cs_cmd m)"
    for d w1 logic_id
  proof -
    note e = same_but_logicD [OF s]
    have pinv: "pool_inv (player_pool w1)" and i1: "?i \<in> players w1" using inv(2) i e by (simp_all add: obj_inv_def)
    note g = used_get [OF pinv i1]
    have old: "\<not> find_player_idx_by_uid ?u w1 > 0" using off e(3) by (simp add: find_player_idx_by_uid_def)
    show ?thesis
      using g(2,3) m ok old d e
      by (simp add: login_step0_def account_msg_of_def Let_def done_with_def do_get_player_data_def send_data_eq
          Q_def awaiting_data_def change_step_def get_player_data_req_def login_type)
  qed
  have cmd: "cs_cmd m \<in> {kLoginReq, kNormalRegReq, kQuickRegReq}" using m(2) by simp
  have ty: "map_of logic_type_map (logic_type_of_cmd (cs_cmd m)) = Some (login_step0 # [login_step1, login_step2])"
    using m(2) login_type by simp
  obtain logic_id ret d' w2 w' where r: "handle_cs sys pkg (A_Conn cd) w = Inr (0, w')" "Q logic_id ret d' w2" "logic_inv w'"
    "get_logic_data logic_id w = None" "get_logic_data logic_id w' = (if ret = LOGIC_YIELD then Some d' else None)"
    "same_but_logic w2 w'"
    using handle_cs_start [where Q = Q, OF inv(1) room mem m(1) cmd ty step] by blast
  note e = same_but_logicD [OF r(6)]
  have "obj_inv w'" using inv(2) r(2) e obj_inv_cong [of w2 w] by (simp add: Q_def)
  then show thesis using that [of w' logic_id d'] r e by (simp add: Q_def)
qed

text \<open>C16: A well-formed login of an account that is not online sends datasvr one request for the data of
  the account, numbered with the new logic, which then waits for the answer with its timer
  running; nothing else changes.\<close>

theorem login_request_spec:
  assumes inv: "logic_inv w" "obj_inv w" and room: "heap_size (logic_timer w) < 1073741824"
    and mem: "\<And>es sz. gs_malloc sys es sz \<noteq> None" and i: "cd_player_idx cd \<in> players w"
    and m: "gs_parse_cs sys pkg = Some m" "cs_cmd m = kLoginReq" "cs_login_req m = Some \<lparr>am_account = account, am_password = password\<rparr>"
    and ok: "check_account account (int (length account)) = Inr 0" "check_password password (int (length password)) = Inr 0"
    and off: "find_player_idx_by_uid (fnv64a_hash account) w \<le> 0"
  shows "\<exists>logic_id d w'. handle_cs sys pkg (A_Conn cd) w = Inr (0, w') \<and> logic_inv w' \<and> obj_inv w' \<and>
    get_logic_data logic_id w = None \<and> get_logic_data logic_id w' = Some d \<and>
    awaiting_data d (cd_player_idx cd) (fnv64a_hash account) (fnv64a_hash password) (cs_seq m) \<and>
    player_pool w' = player_pool w \<and>
    gout w' = gout w @ sent_data sys (get_player_data_req (word_of_int logic_id) (cd_player_idx cd)
      (fnv64a_hash account) (fnv64a_hash password)) (gout w)"
  by (rule login_requested [OF inv room mem i m ok off]) blast

text \<open>The environment of the examples: every packet from connsvr is the message \<open>m\<close>.\<close>

definition client_sends :: "cs_msg \<Rightarrow> game_sys" where
  "client_sends m = quiet_sys\<lparr>gs_parse_cs := \<lambda>_. Some m\<rparr>"

definition example_login :: cs_msg where
  "example_login = cs_empty\<lparr>cs_cmd := kLoginReq, cs_seq := 5,
     cs_login_req := Some \<lparr>am_account = [97, 98, 99, 100, 101, 102], am_password = [49, 50, 51, 52]\<rparr>\<rparr>"

lemma example_credentials:
  "check_account [97, 98, 99, 100, 101, 102] 6 = Inr 0" "check_password [49, 50, 51, 52] 4 = Inr 0"
  by code_simp+

lemma example_game_logic:
  obtains i c w where "obj_inv w" "logic_inv w" "players w = {i}" "cities w = {c}" "cities_of (the_player w i) = [c]"
    "0 < i" "total_unit_count (city_pool w) = 8" "heap_size (logic_timer w) < 1073741824" "uid_to_player_idx_map w = []"
    "gout w = []" "the_player w i = own_city c player_zero"
    "w = empty_game\<lparr>player_pool := player_pool w, city_pool := city_pool w\<rparr>" "i \<le> 4"
proof -
  obtain i c w where w: "obj_inv w" "players w = {i}" "cities w = {c}" "cities_of (the_player w i) = [c]" "0 < i" "i \<le> 4"
    "total_unit_count (city_pool w) = 8" "w = empty_game\<lparr>player_pool := player_pool w, city_pool := city_pool w\<rparr>"
    "the_player w i = own_city c player_zero"
    by (rule example_game)
  have "logic_inv w" by (subst w(8)) (rule empty_game_logic)
  moreover have "heap_size (logic_timer w) < 1073741824" "uid_to_player_idx_map w = []" "gout w = []"
    by (subst w(8), simp add: empty_game_def heap_timer_new_def)+
  ultimately show thesis using that w by blast
qed

theorem login_request_spec_witness:
  "\<exists>w i w' logic_id d. handle_cs (client_sends example_login) [] (A_Conn \<lparr>cd_conn_fd = 7, cd_player_idx = i, cd_conn_cmd = 2\<rparr>) w = Inr (0, w') \<and>
     get_logic_data logic_id w' = Some d \<and> lg_step d = 2 \<and> gout w' = [G_Data [19] 1]"
proof -
  obtain i c w where w: "obj_inv w" "logic_inv w" "players w = {i}" "heap_size (logic_timer w) < 1073741824"
    "uid_to_player_idx_map w = []" "gout w = []" by (rule example_game_logic)
  let ?sys = "client_sends example_login" and ?cd = "\<lparr>cd_conn_fd = 7, cd_player_idx = i, cd_conn_cmd = 2\<rparr>"
  have mem: "\<And>es sz. gs_malloc ?sys es sz \<noteq> None" by (simp add: client_sends_def quiet_sys_def)
  have i: "cd_player_idx ?cd \<in> players w" using w(3) by simp
  have m: "gs_parse_cs ?sys [] = Some example_login" "cs_cmd example_login = kLoginReq"
    "cs_login_req example_login = Some \<lparr>am_account = [97, 98, 99, 100, 101, 102], am_password = [49, 50, 51, 52]\<rparr>"
    by (simp_all add: client_sends_def example_login_def)
  have ok: "check_account [97, 98, 99, 100, 101, 102] (int (length ([97, 98, 99, 100, 101, 102] :: bytes))) = Inr 0"
    "check_password [49, 50, 51, 52] (int (length ([49, 50, 51, 52] :: bytes))) = Inr 0"
    using example_credentials by simp_all
  have off: "find_player_idx_by_uid (fnv64a_hash [97, 98, 99, 100, 101, 102]) w \<le> 0"
    using w(5) by (simp add: find_player_idx_by_uid_def)
  have "sent_data ?sys (get_player_data_req s i u h) es = [G_Data [19] 1]" for s u h es
    by (simp add: sent_data_def client_sends_def quiet_sys_def get_player_data_req_def kGetPlayerDataReq_def)
  then show ?thesis
    using login_request_spec [OF w(2,1,4) mem i m ok off] w(6)
    by (fastforce simp: awaiting_data_def)
qed

section \<open>The answer of datasvr\<close>

definition forget_ids :: "player_data \<Rightarrow> player_data" where
  "forget_ids data = data\<lparr>pd_city_list := map (\<lambda>ci. ci\<lparr>ci_id := 0\<rparr>) (pd_city_list data)\<rparr>"

definition login_ok :: "64 word \<Rightarrow> cs_msg" where
  "login_ok seq = cs_empty\<lparr>cs_cmd := kLoginRes, cs_seq := seq, cs_login_res := Some True\<rparr>"

definition role_info_ntf :: "role_info \<Rightarrow> cs_msg" where
  "role_info_ntf r = cs_empty\<lparr>cs_cmd := kRoleInfoNtf, cs_role_info_ntf := Some r\<rparr>"

text \<open>Loading data into a player without cities.\<close>

lemma load_player:
  assumes inv: "obj_inv w" and i: "i \<in> players w" and new: "cities_of (the_player w i) = []"
    and n: "length (pd_city_list data) \<le> 99"
    and room: "card (cities w) + length (pd_city_list data) \<le> nat (total_unit_count (city_pool w))"
  obtains w1 w2 where "set_player_by_db (pd_role_info data) i w = Inr w1" "load_cities i (pd_city_list data) w1 = Inr w2"
    "obj_inv w2" "players w2 = players w" "uid_to_player_idx_map w2 = uid_to_player_idx_map w" "gout w2 = gout w"
    "snapshot w2 i = forget_ids data" "p_conn_fd (the_player w2 i) = p_conn_fd (the_player w i)"
proof -
  let ?f = "\<lambda>p. p\<lparr>p_money := ri_money (pd_role_info data), p_level := ri_level (pd_role_info data)\<rparr>"
  let ?w1 = "upd_player i ?f w"
  have pinv: "pool_inv (player_pool w)" using inv by (simp add: obj_inv_def)
  have s: "set_player_by_db (pd_role_info data) i w = Inr ?w1" by (rule setters(3) [OF pinv i])
  have p1: "the_player ?w1 i = ?f (the_player w i)" by (rule the_player_upd(1) [OF pinv i])
  have inv1: "obj_inv ?w1" by (rule upd_player_inv [OF inv i]) simp
  have c1: "cities_of (the_player ?w1 i) = []" using p1 new by (simp add: cities_of_def)
  have i1: "i \<in> players ?w1" using i by simp
  have n1: "length (cities_of (the_player ?w1 i)) + length (pd_city_list data) \<le> 99" using c1 n by simp
  have r1: "card (cities ?w1) + length (pd_city_list data) \<le> nat (total_unit_count (city_pool ?w1))" using room by simp
  obtain w2 new where l: "load_cities i (pd_city_list data) ?w1 = Inr w2" "obj_inv w2" "players w2 = players ?w1"
    "uid_to_player_idx_map w2 = uid_to_player_idx_map ?w1" "gout w2 = gout ?w1"
    "\<exists>l. the_player w2 i = (the_player ?w1 i)\<lparr>p_city_list := l\<rparr>"
    "cities_of (the_player w2 i) = cities_of (the_player ?w1 i) @ new"
    "map (\<lambda>c. ct_population (the_city w2 c)) new = map ci_population (pd_city_list data)"
    using load_cities_ok [OF inv1 i1 n1 r1] by metis
  have "map (\<lambda>c. \<lparr>ci_id = 0, ci_population = ct_population (the_city w2 c)\<rparr>) new =
      map (\<lambda>p. \<lparr>ci_id = 0, ci_population = p\<rparr>) (map (\<lambda>c. ct_population (the_city w2 c)) new)" by simp
  also have "\<dots> = map (\<lambda>ci. ci\<lparr>ci_id := 0\<rparr>) (pd_city_list data)" unfolding l(8) by simp
  finally have "snapshot w2 i = forget_ids data"
    using l(6,7) p1 c1 by (auto simp: snapshot_def forget_ids_def)
  moreover have "p_conn_fd (the_player w2 i) = p_conn_fd (the_player w i)" using l(6) p1 by auto
  ultimately show thesis using that [OF s l(1,2)] l(3,4,5) by simp
qed

lemma snapshot_cong:
  "p_money (the_player w' i) = p_money (the_player w i) \<Longrightarrow> p_level (the_player w' i) = p_level (the_player w i) \<Longrightarrow>
   p_city_list (the_player w' i) = p_city_list (the_player w i) \<Longrightarrow> city_pool w' = city_pool w \<Longrightarrow>
   snapshot w' i = snapshot w i"
  by (simp add: snapshot_def cities_of_def)

lemma login_step2_ok:
  assumes inv: "obj_inv w" and i: "l_player_idx d = i" "i \<in> players w" and new: "cities_of (the_player w i) = []"
    and r: "ss_ret r = 0" "ss_get_player_data_res r = Some b" "gs_parse_pd sys b = data"
    and n: "length (pd_city_list data) \<le> 99"
    and room: "card (cities w) + length (pd_city_list data) \<le> nat (total_unit_count (city_pool w))"
    and map: "smap_ok (uid_to_player_idx_map w)" "map_of (uid_to_player_idx_map w) (l_uid d) = None"
  obtains w' where "login_step2 sys d (L_Ss r) A_Null w = Inr (LOGIC_FINISH, d, w')" "obj_inv w'"
    "players w' = players w" "snapshot w' i = forget_ids data" "p_uid (the_player w' i) = l_uid d"
    "find_player_idx_by_uid (l_uid d) w' = i"
    "\<exists>es. gout w' = gout w @ sent_conn sys (login_ok (l_client_seq d)) CONN_START (p_conn_fd (the_player w i)) i (gout w) @ es \<and>
       es = sent_conn sys (role_info_ntf (pd_role_info data)) CONN_PROC (p_conn_fd (the_player w i)) i
         (gout w @ sent_conn sys (login_ok (l_client_seq d)) CONN_START (p_conn_fd (the_player w i)) i (gout w))"
proof -
  let ?u = "l_uid d"
  have pinv: "pool_inv (player_pool w)" using inv by (simp add: obj_inv_def)
  obtain w1 w2 where l: "set_player_by_db (pd_role_info data) i w = Inr w1" "load_cities i (pd_city_list data) w1 = Inr w2"
    "obj_inv w2" "players w2 = players w" "uid_to_player_idx_map w2 = uid_to_player_idx_map w" "gout w2 = gout w"
    "snapshot w2 i = forget_ids data" "p_conn_fd (the_player w2 i) = p_conn_fd (the_player w i)"
    by (rule load_player [OF inv i(2) new n room])
  let ?w3 = "upd_player i (\<lambda>p. p\<lparr>p_uid := ?u\<rparr>) (bind_uid_to_player_idx ?u i w2)"
  let ?w4 = "upd_player i (\<lambda>p. p\<lparr>p_password_hash := l_password_hash d\<rparr>) ?w3"
  have i2: "i \<in> players w2" and pinv2: "pool_inv (player_pool w2)" using i(2) l(3,4) by (simp_all add: obj_inv_def)
  have inv3: "obj_inv ?w3" by (rule upd_player_inv) (use l(3) i2 in simp_all)
  have i3: "i \<in> players ?w3" and pinv3: "pool_inv (player_pool ?w3)" using i2 inv3 by (simp_all add: obj_inv_def)
  have inv4: "obj_inv ?w4" by (rule upd_player_inv [OF inv3 i3]) simp
  have i4: "i \<in> players ?w4" and pinv4: "pool_inv (player_pool ?w4)" using i3 inv4 by (simp_all add: obj_inv_def)
  have p3: "the_player ?w3 i = (the_player w2 i)\<lparr>p_uid := ?u\<rparr>"
    using the_player_upd(1) [of "bind_uid_to_player_idx ?u i w2" i] i2 pinv2 by simp
  have p4: "the_player ?w4 i = (the_player w2 i)\<lparr>p_uid := ?u, p_password_hash := l_password_hash d\<rparr>"
    using the_player_upd(1) [OF pinv3 i3] p3 by simp
  have s3: "set_uid ?u i w2 = Inr ?w3" by (rule setters(4) [OF pinv2 i2])
  have s4: "set_password_hash (l_password_hash d) i ?w3 = Inr ?w4" by (rule setters(2) [OF pinv3 i3])
  let ?c = "p_conn_fd (the_player w i)"
  let ?w5 = "?w4\<lparr>gout := gout w @ sent_conn sys (login_ok (l_client_seq d)) CONN_START ?c i (gout w)\<rparr>"
  have g4: "gout ?w4 = gout w" and fd4: "p_conn_fd (the_player ?w4 i) = ?c" using l(6,8) p4 by simp_all
  have s5: "send_ok_cs_login_res sys (l_client_seq d) i ?w4 = Inr ?w5"
    using player_send_ok [OF pinv4 i4] g4 fd4 by (simp add: send_ok_cs_login_res_def send_conn_eq login_ok_def)
  have i5: "i \<in> players ?w5" and pinv5: "pool_inv (player_pool ?w5)" using i4 pinv4 by simp_all
  have snap: "snapshot ?w5 i = forget_ids data"
    unfolding l(7) [symmetric] by (rule snapshot_cong) (use p4 in simp_all)
  have role: "\<lparr>ri_money = p_money (the_player ?w5 i), ri_level = p_level (the_player ?w5 i)\<rparr> = pd_role_info data"
  proof -
    have "pd_role_info (snapshot ?w5 i) = pd_role_info (forget_ids data)" by (rule arg_cong [OF snap])
    then show ?thesis by (simp add: snapshot_def forget_ids_def)
  qed
  let ?w6 = "?w5\<lparr>gout := gout ?w5 @ sent_conn sys (role_info_ntf (pd_role_info data)) CONN_PROC ?c i (gout ?w5)\<rparr>"
  have s6: "send_role_info_notify sys i ?w5 = Inr ?w6"
    using player_send_ok [OF pinv5 i5] used_get(1) [OF pinv5 i5] role fd4
    by (simp add: send_role_info_notify_def send_conn_eq role_info_ntf_def)
  have gp: "get_player i w = Inr (Some i)" by (rule used_get(2) [OF pinv i(2)])
  have "login_step2 sys d (L_Ss r) A_Null w = Inr (LOGIC_FINISH, d, ?w6)"
    using gp i(1) r l(1,2) s3 s4 s5 s6 by (simp add: login_step2_def Let_def done_with_def)
  moreover have "obj_inv ?w6" using inv4 obj_inv_cong [of ?w6 ?w4] by simp
  moreover have "snapshot ?w6 i = forget_ids data" using snap snapshot_cong [of ?w6 i ?w5] by simp
  moreover have "p_uid (the_player ?w6 i) = ?u" using p4 by simp
  moreover have "find_player_idx_by_uid ?u ?w6 = i"
    using map l(5) by (simp add: find_player_idx_by_uid_def bind_uid_to_player_idx_def)
  moreover have "players ?w6 = players w" using l(4) by simp
  ultimately show thesis using that [of ?w6] by simp
qed

lemma login_answered:
  assumes inv: "logic_inv w" "obj_inv w" and d: "get_logic_data logic_id w = Some d" "awaiting_data d i uid h seq"
    and i: "i \<in> players w" "cities_of (the_player w i) = []"
    and r: "gs_parse_ss sys pkg = Some r" "ss_cmd r = kGetPlayerDataRes" "ss_seq r = word_of_int logic_id" "ss_ret r = 0"
      "ss_get_player_data_res r = Some b" "gs_parse_pd sys b = data"
    and room: "length (pd_city_list data) \<le> 99"
      "card (cities w) + length (pd_city_list data) \<le> nat (total_unit_count (city_pool w))"
    and map: "smap_ok (uid_to_player_idx_map w)" "map_of (uid_to_player_idx_map w) uid = None"
  obtains w' where "handle_ss sys pkg A_Null w = Inr (0, w')" "logic_inv w'" "obj_inv w'" "get_logic_data logic_id w' = None"
    "snapshot w' i = forget_ids data" "p_uid (the_player w' i) = uid" "find_player_idx_by_uid uid w' = i"
    "\<exists>es. es = sent_conn sys (login_ok seq) CONN_START (p_conn_fd (the_player w i)) i (gout w) \<and>
      gout w' = gout w @ es @ sent_conn sys (role_info_ntf (pd_role_info data)) CONN_PROC (p_conn_fd (the_player w i)) i (gout w @ es)"
proof -
  have d': "lg_logic_type d = LOGIC_LOGIN" "lg_step d = 2" "l_player_idx d = i" "l_uid d = uid" "l_client_seq d = seq"
    using d(2) by (simp_all add: awaiting_data_def)
  obtain w2 where s: "login_step2 sys d (L_Ss r) A_Null w = Inr (LOGIC_FINISH, d, w2)" "obj_inv w2" "players w2 = players w"
    "snapshot w2 i = forget_ids data" "p_uid (the_player w2 i) = l_uid d" "find_player_idx_by_uid (l_uid d) w2 = i"
    "\<exists>es. gout w2 = gout w @ sent_conn sys (login_ok (l_client_seq d)) CONN_START (p_conn_fd (the_player w i)) i (gout w) @ es \<and>
       es = sent_conn sys (role_info_ntf (pd_role_info data)) CONN_PROC (p_conn_fd (the_player w i)) i
         (gout w @ sent_conn sys (login_ok (l_client_seq d)) CONN_START (p_conn_fd (the_player w i)) i (gout w))"
    by (rule login_step2_ok [where sys = sys, OF inv(2) d'(3) i r(4-6) room map [folded d'(4)]])
  have b: "logic_base_proc [login_step0, login_step1, login_step2] sys d (L_Ss r) A_Null w = Inr (LOGIC_FINISH, d, w2)"
    using s(1) d'(2) by (simp add: logic_base_proc_def numeral_2_eq_2)
  have fs: "map_of logic_type_map (lg_logic_type d) = Some [login_step0, login_step1, login_step2]"
    using d'(1) login_type(2) by simp
  obtain w' where p: "logic_proc sys logic_id (L_Ss r) A_Null w = Inr w'" "logic_inv w'"
    "get_logic_data logic_id w' = (if LOGIC_FINISH = LOGIC_YIELD then Some d else None)"
    "w' = w2\<lparr>logic_timer := logic_timer w', logic_data_map := logic_data_map w'\<rparr>"
    by (rule logic_proc_ok [OF inv(1) d(1) fs b])
  have sb: "same_but_logic w2 w'" using p(4) by (simp add: same_but_logic_def)
  note e = same_but_logicD [OF sb]
  have "lg_logic_id d = word_of_int logic_id" using inv(1) d(1) by (simp add: logic_inv_def)
  then have "sint (ss_seq r) = logic_id" using r(3) logic_id_word(1) [OF inv(1) d(1)] by simp
  then have "handle_ss sys pkg A_Null w = Inr (0, w')"
    using r(1,2) p(1) by (simp add: handle_ss_def handle_request_def handlers_lookup on_logic_multi_step_resume_def cmd_defs)
  moreover have "snapshot w' i = snapshot w2 i" by (rule snapshot_cong) (simp_all add: e)
  ultimately show thesis
    using that [of w'] p(2,3) s(2,4-7) e d'(4,5) by (simp add: logic_consts find_player_idx_by_uid_def)
qed

text \<open>C17: The answer to a login: when datasvr returns the account's data, the player is loaded with
  exactly the saved money, level and city populations (only the city ids are lost), the account
  is bound to the player, the client receives a \<open>LoginRes\<close> and a \<open>RoleInfoNtf\<close> with those values,
  and the logic is gone with its timer.\<close>

theorem login_response_spec:
  assumes inv: "logic_inv w" "obj_inv w" and d: "get_logic_data logic_id w = Some d" "awaiting_data d i uid h seq"
    and i: "i \<in> players w" "cities_of (the_player w i) = []"
    and r: "gs_parse_ss sys pkg = Some r" "ss_cmd r = kGetPlayerDataRes" "ss_seq r = word_of_int logic_id" "ss_ret r = 0"
      "ss_get_player_data_res r = Some b" "gs_parse_pd sys b = data"
    and room: "length (pd_city_list data) \<le> 99"
      "card (cities w) + length (pd_city_list data) \<le> nat (total_unit_count (city_pool w))"
    and map: "smap_ok (uid_to_player_idx_map w)" "map_of (uid_to_player_idx_map w) uid = None"
  shows "\<exists>w' es. handle_ss sys pkg A_Null w = Inr (0, w') \<and> logic_inv w' \<and> obj_inv w' \<and> get_logic_data logic_id w' = None \<and>
    snapshot w' i = forget_ids data \<and> p_uid (the_player w' i) = uid \<and> find_player_idx_by_uid uid w' = i \<and>
    es = sent_conn sys (login_ok seq) CONN_START (p_conn_fd (the_player w i)) i (gout w) \<and>
    gout w' = gout w @ es @ sent_conn sys (role_info_ntf (pd_role_info data)) CONN_PROC (p_conn_fd (the_player w i)) i (gout w @ es)"
  by (rule login_answered [OF inv d i r room map]) blast

text \<open>A server with a player without cities and a login logic that waits for its data.\<close>

lemma example_waiting:
  obtains i w logic_id d where "logic_inv w" "obj_inv w" "get_logic_data logic_id w = Some d" "awaiting_data d i 77 88 5"
    "i \<in> players w" "cities_of (the_player w i) = []" "cities w = {}" "total_unit_count (city_pool w) = 8"
    "uid_to_player_idx_map w = []" "gout w = []"
proof -
  note e = empty_game_inv
  have r1: "card (players empty_game) < nat (total_unit_count (player_pool empty_game))" using e by simp
  obtain i w where w: "obj_inv w" "players w = insert i (players empty_game)" "the_player w i = player_zero"
    "city_pool w = city_pool empty_game" "w = empty_game\<lparr>player_pool := player_pool w\<rparr>"
    by (rule add_player_ok [OF e(1) r1])
  have we: "w = empty_game\<lparr>player_pool := player_pool w, city_pool := city_pool w\<rparr>"
    by (subst w(5)) (simp add: w(4))
  have inv: "logic_inv w" by (subst we) (rule empty_game_logic)
  have room: "heap_size (logic_timer w) < 1073741824" by (subst we) (simp add: empty_game_def heap_timer_new_def)
  have ty: "map_of logic_data_size_map LOGIC_LOGIN = Some 48" by (simp add: logic_data_size_map_def logic_consts)
  obtain mem where mem: "gs_malloc quiet_sys (gout w) 48 = Some mem" by (simp add: quiet_sys_def)
  let ?d = "\<lambda>logic_id. mem\<lparr>lg_logic_id := word_of_int logic_id, lg_logic_type := LOGIC_LOGIN, lg_step := 0\<rparr>"
  obtain logic_id w1 where c: "logic_inv w1" "logic_data_map w1 = smap_put logic_id (?d logic_id) (logic_data_map w)"
    "w1 = w\<lparr>logic_timer := logic_timer w1, logic_data_map := logic_data_map w1\<rparr>"
    by (rule create_logic_ok [OF inv room ty mem, of 10]) simp_all
  have ok: "smap_ok (logic_data_map w)" using inv by (simp add: logic_inv_def)
  have g: "get_logic_data logic_id w1 = Some (?d logic_id)" using c(2) ok by (simp add: get_logic_data_def)
  let ?e = "(?d logic_id)\<lparr>lg_step := 2, l_player_idx := i, l_uid := 77, l_password_hash := 88, l_client_seq := 5\<rparr>"
  let ?w = "w1\<lparr>logic_data_map := smap_put logic_id ?e (logic_data_map w1)\<rparr>"
  have sb: "same_but_logic w ?w" by (subst c(3)) (simp add: same_but_logic_def)
  note sd = same_but_logicD [OF sb]
  have "logic_inv ?w" by (rule set_logic_inv [OF c(1) g]) simp
  moreover have "get_logic_data logic_id ?w = Some ?e"
    using get_logic_put [of w1 logic_id logic_id ?e] c(1) by (simp add: logic_inv_def)
  moreover have "awaiting_data ?e i 77 88 5" by (simp add: awaiting_data_def)
  moreover have "uid_to_player_idx_map w = []" "gout w = []" by (subst we, simp add: empty_game_def)+
  ultimately show thesis using that [of ?w logic_id ?e i] w e sd by simp
qed

theorem login_response_spec_witness:
  "\<exists>logic_id i w w'. handle_ss (quiet_sys\<lparr>gs_parse_ss := \<lambda>_. Some (ss_empty\<lparr>ss_cmd := kGetPlayerDataRes,
      ss_seq := word_of_int logic_id, ss_get_player_data_res := Some [1]\<rparr>),
      gs_parse_pd := \<lambda>_. \<lparr>pd_role_info = \<lparr>ri_money = 900, ri_level = 3\<rparr>, pd_city_list = [\<lparr>ci_id = 1121, ci_population = 40\<rparr>]\<rparr>\<rparr>)
      [0] A_Null w = Inr (0, w') \<and>
    snapshot w' i = \<lparr>pd_role_info = \<lparr>ri_money = 900, ri_level = 3\<rparr>, pd_city_list = [\<lparr>ci_id = 0, ci_population = 40\<rparr>]\<rparr>"
proof -
  obtain i w logic_id d where w: "logic_inv w" "obj_inv w" "get_logic_data logic_id w = Some d" "awaiting_data d i 77 88 5"
    "i \<in> players w" "cities_of (the_player w i) = []" "cities w = {}" "total_unit_count (city_pool w) = 8"
    "uid_to_player_idx_map w = []" by (rule example_waiting)
  let ?r = "ss_empty\<lparr>ss_cmd := kGetPlayerDataRes, ss_seq := word_of_int logic_id, ss_get_player_data_res := Some [1]\<rparr>"
  let ?data = "\<lparr>pd_role_info = \<lparr>ri_money = 900, ri_level = 3\<rparr>, pd_city_list = [\<lparr>ci_id = 1121, ci_population = 40\<rparr>]\<rparr>"
  let ?sys = "quiet_sys\<lparr>gs_parse_ss := \<lambda>_. Some ?r, gs_parse_pd := \<lambda>_. ?data\<rparr>"
  have r: "gs_parse_ss ?sys [0] = Some ?r" "ss_cmd ?r = kGetPlayerDataRes" "ss_seq ?r = word_of_int logic_id" "ss_ret ?r = 0"
    "ss_get_player_data_res ?r = Some [1]" "gs_parse_pd ?sys [1] = ?data" by (simp_all add: ss_empty_def)
  have "smap_ok (uid_to_player_idx_map w)" "map_of (uid_to_player_idx_map w) 77 = None"
    "length (pd_city_list ?data) \<le> 99"
    "card (cities w) + length (pd_city_list ?data) \<le> nat (total_unit_count (city_pool w))" using w by simp_all
  then obtain w' where "handle_ss ?sys [0] A_Null w = Inr (0, w')" "snapshot w' i = forget_ids ?data"
    using login_response_spec [OF w(1-6) r] by blast
  then show ?thesis by (intro exI [of _ logic_id] exI [of _ i] exI [of _ w] exI [of _ w']) (simp add: forget_ids_def)
qed

section \<open>Login of an account that is online\<close>

text \<open>Logging in to an account that is online does not take the old session over: the old player is
  looked up with the uid, cut to 32 bits, in place of its index. Unless that happens to be the
  index of some player, the request ends without an answer to the client, without a kick-off
  notice and without a logic.\<close>

theorem login_online_fails:
  assumes inv: "logic_inv w" "obj_inv w" and room: "heap_size (logic_timer w) < 1073741824"
    and mem: "\<And>es sz. gs_malloc sys es sz \<noteq> None" and i: "cd_player_idx cd \<in> players w"
    and m: "gs_parse_cs sys pkg = Some m" "cs_cmd m = kLoginReq" "cs_login_req m = Some \<lparr>am_account = account, am_password = password\<rparr>"
    and ok: "check_account account (int (length account)) = Inr 0" "check_password password (int (length password)) = Inr 0"
    and on: "find_player_idx_by_uid (fnv64a_hash account) w > 0" and cut: "i32 (uint (fnv64a_hash account)) \<notin> players w"
  shows "\<exists>w'. handle_cs sys pkg (A_Conn cd) w = Inr (0, w') \<and> logic_inv w' \<and> player_pool w' = player_pool w \<and>
    gout w' = gout w \<and> (\<forall>j. get_logic_data j w' = get_logic_data j w)"
proof -
  define Q where "Q logic_id ret d' w2 \<longleftrightarrow> ret = LOGIC_FAILED \<and> player_pool w2 = player_pool w \<and> gout w2 = gout w"
    for logic_id :: int and ret :: int and d' :: logic_data and w2 :: gamesvr
  have step: "\<exists>ret d' w2. login_step0 sys d (L_Cs m) (A_Conn cd) w1 = Inr (ret, d', w2) \<and> Q logic_id ret d' w2"
    if s: "same_but_logic w w1" for d w1 logic_id
  proof -
    note e = same_but_logicD [OF s]
    have pinv: "pool_inv (player_pool w1)" and i1: "cd_player_idx cd \<in> players w1" using inv(2) i e by (simp_all add: obj_inv_def)
    have "get_player (i32 (uint (fnv64a_hash account))) w1 = Inr None"
      by (rule get_player_unused [OF pinv]) (use cut e in simp)
    moreover have "find_player_idx_by_uid (fnv64a_hash account) w1 > 0" using on e(3) by (simp add: find_player_idx_by_uid_def)
    ultimately show ?thesis
      using used_get [OF pinv i1] m ok e by (simp add: login_step0_def account_msg_of_def Let_def Q_def)
  qed
  have cmd: "cs_cmd m \<in> {kLoginReq, kNormalRegReq, kQuickRegReq}" using m(2) by simp
  have ty: "map_of logic_type_map (logic_type_of_cmd (cs_cmd m)) = Some (login_step0 # [login_step1, login_step2])"
    using m(2) login_type by simp
  obtain logic_id ret d' w2 w' where r: "handle_cs sys pkg (A_Conn cd) w = Inr (0, w')" "Q logic_id ret d' w2" "logic_inv w'"
    "get_logic_data logic_id w = None" "get_logic_data logic_id w' = (if ret = LOGIC_YIELD then Some d' else None)"
    "\<forall>j. j \<noteq> logic_id \<longrightarrow> get_logic_data j w' = get_logic_data j w" "same_but_logic w2 w'"
    using handle_cs_start [where Q = Q, OF inv(1) room mem m(1) cmd ty step] by blast
  have "get_logic_data j w' = get_logic_data j w" for j
    using r(2,4-6) by (cases "j = logic_id") (simp_all add: Q_def logic_consts)
  then show ?thesis using r(1-3) same_but_logicD [OF r(7)] by (simp add: Q_def)
qed

theorem login_online_fails_witness:
  "\<exists>w i w'. obj_inv w \<and> handle_cs (client_sends example_login) [] (A_Conn \<lparr>cd_conn_fd = 7, cd_player_idx = i, cd_conn_cmd = 2\<rparr>) w = Inr (0, w') \<and>
     gout w' = gout w"
proof -
  let ?a = "[97, 98, 99, 100, 101, 102] :: bytes"
  obtain i c w0 where w0: "obj_inv w0" "logic_inv w0" "players w0 = {i}" "0 < i" "heap_size (logic_timer w0) < 1073741824"
    by (rule example_game_logic)
  let ?w = "w0\<lparr>uid_to_player_idx_map := [(fnv64a_hash ?a, i)]\<rparr>"
  have inv: "logic_inv ?w" "obj_inv ?w" using w0(1,2) logic_inv_cong [of ?w w0] obj_inv_cong [of ?w w0] by simp_all
  let ?sys = "client_sends example_login" and ?cd = "\<lparr>cd_conn_fd = 7, cd_player_idx = i, cd_conn_cmd = 2\<rparr>"
  have mem: "\<And>es sz. gs_malloc ?sys es sz \<noteq> None" by (simp add: client_sends_def quiet_sys_def)
  have m: "gs_parse_cs ?sys [] = Some example_login" "cs_cmd example_login = kLoginReq"
    "cs_login_req example_login = Some \<lparr>am_account = ?a, am_password = [49, 50, 51, 52]\<rparr>"
    by (simp_all add: client_sends_def example_login_def)
  have ok: "check_account ?a (int (length ?a)) = Inr 0" "check_password [49, 50, 51, 52] (int (length ([49, 50, 51, 52] :: bytes))) = Inr 0"
    using example_credentials by simp_all
  have on: "find_player_idx_by_uid (fnv64a_hash ?a) ?w > 0" using w0(4) by (simp add: find_player_idx_by_uid_def)
  have h: "i32 (uint (fnv64a_hash ?a)) < 0" by code_simp
  then have cut: "i32 (uint (fnv64a_hash ?a)) \<notin> players ?w" using w0(3,4) by simp
  have room: "heap_size (logic_timer ?w) < 1073741824" using w0(5) by simp
  have i: "cd_player_idx ?cd \<in> players ?w" using w0(3) by simp
  show ?thesis using login_online_fails [OF inv room mem i m ok on cut] inv(2) by blast
qed

section \<open>Registration with a name and a password\<close>

definition account_reg_msg :: "64 word \<Rightarrow> int \<Rightarrow> 64 word \<Rightarrow> 64 word \<Rightarrow> bytes \<Rightarrow> bytes \<Rightarrow> ss_msg" where
  "account_reg_msg seq i uid h account b = ss_empty\<lparr>ss_cmd := kAccountRegReq, ss_seq := seq, ss_player_idx := i,
     ss_account_reg_req := Some \<lparr>arq_uid = uid, arq_password_hash = h, arq_account = Some account, arq_player_data = b\<rparr>\<rparr>"

lemma c_string_append: "0 \<notin> set s \<Longrightarrow> c_string (s @ 0 # rest) = Inr s"
  by (auto simp: c_string_def takeWhile_append intro!: takeWhile_eq_all_conv [THEN iffD2])

lemma strncpy_short:
  assumes "0 \<notin> set s" "length s \<le> n"
  shows "strncpy s n = s @ replicate (n - length s) 0"
proof -
  have t: "takeWhile (\<lambda>b. b \<noteq> 0) s = s" using assms(1) by (subst takeWhile_eq_all_conv) auto
  show ?thesis unfolding strncpy_def Let_def t using assms(2) by simp
qed

lemma c_string_strncpy: "0 \<notin> set s \<Longrightarrow> length s < n \<Longrightarrow> c_string (strncpy s n @ rest) = Inr s"
  by (cases "n - length s") (simp_all add: strncpy_short c_string_append)

lemma stored_account:
  assumes a: "check_account account (int (length account)) = Inr 0" and p: "check_password password (int (length password)) = Inr 0"
    and n: "length password < 16"
  shows "c_string (strncpy account 32 @ strncpy password 16 @ rest) = Inr (if length account < 32 then account else account @ password)"
proof (cases "length account < 32")
  case True
  moreover have "0 \<notin> set account" using accepted_chars(1) [OF a] by blast
  ultimately show ?thesis by (simp add: c_string_strncpy)
next
  case False
  have "0 \<notin> set account" "length account = 32" "0 \<notin> set password"
    using accepted_chars [of account] accepted_chars(2) [OF p] a False by auto
  moreover from this have "strncpy account 32 = account" by (simp add: strncpy_short)
  moreover have "\<exists>k. strncpy password 16 @ rest = password @ 0 # k"
    using n \<open>0 \<notin> set password\<close> by (cases "16 - length password") (simp_all add: strncpy_short)
  ultimately show ?thesis using False c_string_append [of "account @ password"] by auto
qed

text \<open>A well-formed registration sends datasvr the account with its hashes and the initial data
  of a player; but a name of 32 characters, the greatest length accepted, is stored without its
  terminator, so the name registered is followed by the password in the clear.\<close>

theorem normal_reg_request_spec:
  assumes inv: "logic_inv w" "obj_inv w" and room: "heap_size (logic_timer w) < 1073741824"
    and mem: "\<And>es sz. gs_malloc sys es sz \<noteq> None" and i: "cd_player_idx cd \<in> players w"
    and m: "gs_parse_cs sys pkg = Some m" "cs_cmd m = kNormalRegReq" "cs_normal_reg_req m = Some \<lparr>am_account = account, am_password = password\<rparr>"
    and ok: "check_account account (int (length account)) = Inr 0" "check_password password (int (length password)) = Inr 0"
    and short: "length password < 16" and ser: "gs_ser_pd sys initial_player_data = Some b"
  shows "\<exists>logic_id d w'. handle_cs sys pkg (A_Conn cd) w = Inr (0, w') \<and> logic_inv w' \<and> obj_inv w' \<and>
    get_logic_data logic_id w' = Some d \<and> lg_step d = 1 \<and> player_pool w' = player_pool w \<and>
    gout w' = gout w @ sent_data sys (account_reg_msg (word_of_int logic_id) (cd_player_idx cd)
      (fnv64a_hash account) (fnv64a_hash password) (if length account < 32 then account else account @ password) b) (gout w)"
proof -
  let ?i = "cd_player_idx cd" and ?u = "fnv64a_hash account" and ?h = "fnv64a_hash password"
  let ?a = "if length account < 32 then account else account @ password"
  define Q where "Q logic_id ret d' w2 \<longleftrightarrow> ret = LOGIC_YIELD \<and> lg_step d' = 1 \<and> player_pool w2 = player_pool w \<and>
    city_pool w2 = city_pool w \<and> gout w2 = gout w @ sent_data sys (account_reg_msg (word_of_int logic_id) ?i ?u ?h ?a b) (gout w)"
    for logic_id :: int and ret :: int and d' :: logic_data and w2 :: gamesvr
  have len: "length account \<le> 32" "length password \<le> 16" using accepted_chars(1) [OF ok(1)] short by simp_all
  have step: "\<exists>ret d' w2. normal_reg_step0 sys d (L_Cs m) (A_Conn cd) w1 = Inr (ret, d', w2) \<and> Q logic_id ret d' w2"
    if s: "same_but_logic w w1" and d: "lg_logic_id d = word_of_int logic_id" "lg_logic_type d = logic_type_of_cmd (cs_cmd m)"
    for d w1 logic_id
  proof -
    note e = same_but_logicD [OF s]
    have pinv: "pool_inv (player_pool w1)" and i1: "?i \<in> players w1" using inv(2) i e by (simp_all add: obj_inv_def)
    note g = used_get [OF pinv i1]
    show ?thesis
      using g(2,3) m ok d e len ser stored_account [OF ok short, of "l_tail d"]
      by (simp add: normal_reg_step0_def account_msg_of_def Let_def done_with_def do_account_reg_def send_data_eq
          Q_def change_step_def account_reg_msg_def)
  qed
  have cmd: "cs_cmd m \<in> {kLoginReq, kNormalRegReq, kQuickRegReq}" using m(2) by simp
  have ty: "map_of logic_type_map (logic_type_of_cmd (cs_cmd m)) = Some (normal_reg_step0 # [normal_reg_step1])"
    using m(2) login_type by simp
  obtain logic_id ret d' w2 w' where r: "handle_cs sys pkg (A_Conn cd) w = Inr (0, w')" "Q logic_id ret d' w2" "logic_inv w'"
    "get_logic_data logic_id w' = (if ret = LOGIC_YIELD then Some d' else None)" "same_but_logic w2 w'"
    using handle_cs_start [where Q = Q, OF inv(1) room mem m(1) cmd ty step] by blast
  note e = same_but_logicD [OF r(5)]
  have "obj_inv w'" using inv(2) r(2) e obj_inv_cong [of w2 w] by (simp add: Q_def)
  then show ?thesis using r e by (intro exI [of _ logic_id] exI [of _ d'] exI [of _ w']) (simp add: Q_def)
qed

definition example_reg :: cs_msg where
  "example_reg = cs_empty\<lparr>cs_cmd := kNormalRegReq, cs_seq := 5,
     cs_normal_reg_req := Some \<lparr>am_account = replicate 32 97, am_password = [49, 50, 51, 52]\<rparr>\<rparr>"

theorem normal_reg_request_spec_witness:
  "\<exists>w i logic_id w'. handle_cs ((client_sends example_reg)\<lparr>gs_ser_pd := \<lambda>_. Some [9]\<rparr>) []
     (A_Conn \<lparr>cd_conn_fd = 7, cd_player_idx = i, cd_conn_cmd = 2\<rparr>) w = Inr (0, w') \<and>
     gout w' = sent_data (client_sends example_reg) (account_reg_msg (word_of_int logic_id) i
       (fnv64a_hash (replicate 32 97)) (fnv64a_hash [49, 50, 51, 52]) (replicate 32 97 @ [49, 50, 51, 52]) [9]) []"
proof -
  obtain i c w where w: "obj_inv w" "logic_inv w" "players w = {i}" "heap_size (logic_timer w) < 1073741824"
    "gout w = []" by (rule example_game_logic)
  let ?sys = "(client_sends example_reg)\<lparr>gs_ser_pd := \<lambda>_. Some [9]\<rparr>" and ?cd = "\<lparr>cd_conn_fd = 7, cd_player_idx = i, cd_conn_cmd = 2\<rparr>"
  have mem: "\<And>es sz. gs_malloc ?sys es sz \<noteq> None" by (simp add: client_sends_def quiet_sys_def)
  have i: "cd_player_idx ?cd \<in> players w" using w(3) by simp
  have m: "gs_parse_cs ?sys [] = Some example_reg" "cs_cmd example_reg = kNormalRegReq"
    "cs_normal_reg_req example_reg = Some \<lparr>am_account = replicate 32 97, am_password = [49, 50, 51, 52]\<rparr>"
    by (simp_all add: client_sends_def example_reg_def)
  have ok: "check_account (replicate 32 97) (int (length (replicate 32 97 :: bytes))) = Inr 0"
    "check_password [49, 50, 51, 52] (int (length ([49, 50, 51, 52] :: bytes))) = Inr 0" by code_simp+
  have s: "sent_data ?sys x y = sent_data (client_sends example_reg) x y" for x y
    by (simp add: sent_data_def client_sends_def quiet_sys_def)
  have "length ([49, 50, 51, 52] :: bytes) < 16" "gs_ser_pd ?sys initial_player_data = Some [9]" by simp_all
  from normal_reg_request_spec [OF w(2,1,4) mem i m ok this] show ?thesis
    using w(5) s by auto
qed

section \<open>The end of a connection\<close>

lemma logout_saved:
  assumes pkt: "holds_packet cd pkg w" "cd_conn_cmd cd = conn_cmd_code CONN_STOP"
    and inv: "logic_inv w" "obj_inv w" and room: "heap_size (logic_timer w) < 1073741824"
    and mem: "\<And>es sz. gs_malloc sys es sz \<noteq> None" and i: "cd_player_idx cd = i" "i \<in> players w"
    and ser: "gs_ser_pd sys (snapshot w i) = Some b"
  obtains w' logic_id d where "conn_packet sys (12 + int (length pkg)) w = Inr (False, w')" "logic_inv w'" "obj_inv w'"
    "get_logic_data logic_id w' = Some d" "lg_logic_type d = LOGIC_UPDATE_PLAYER" "lg_step d = 1"
    "players w' = players w - {i}" "cities w' = cities w - set (cities_of (the_player w i))"
    "gout w' = gout w @ sent_data sys (save_req (word_of_int logic_id) i (p_uid (the_player w i)) b) (gout w)"
proof -
  define Q where "Q logic_id ret d' w2 \<longleftrightarrow> ret = LOGIC_YIELD \<and> lg_step d' = 1 \<and> lg_logic_type d' = LOGIC_UPDATE_PLAYER \<and>
    player_pool w2 = player_pool w \<and> city_pool w2 = city_pool w \<and> uid_to_player_idx_map w2 = uid_to_player_idx_map w \<and>
    gout w2 = gout w @ sent_data sys (save_req (word_of_int logic_id) i (p_uid (the_player w i)) b) (gout w)"
    for logic_id :: int and ret :: int and d' :: logic_data and w2 :: gamesvr
  have step: "\<exists>ret d' w2. update_player_step0 sys d L_Null (A_Idx i) w1 = Inr (ret, d', w2) \<and> Q logic_id ret d' w2"
    if s: "same_but_logic w w1" and d: "lg_logic_id d = word_of_int logic_id" "lg_logic_type d = LOGIC_UPDATE_PLAYER" for d w1 logic_id
  proof -
    note e = same_but_logicD [OF s]
    have inv1: "obj_inv w1" and i1: "i \<in> players w1" using inv(2) i(2) e by simp_all
    have pinv: "pool_inv (player_pool w1)" using inv1 by (simp add: obj_inv_def)
    have "snapshot w1 i = snapshot w i" using e by (intro snapshot_cong) simp_all
    then have "gs_ser_pd sys (snapshot w1 i) = Some b" using ser by simp
    then show ?thesis
      using do_update_ok [OF inv1 i1] used_get [OF pinv i1] d e
      by (simp add: update_player_step0_def Let_def done_with_def send_data_eq change_step_def Q_def save_req_def)
  qed
  have sz: "map_of logic_data_size_map LOGIC_UPDATE_PLAYER = Some 24" by (simp add: logic_data_size_map_def logic_consts)
  have "(0 :: int) < 5" "(5 :: int) < 2147483648" by simp_all
  then obtain logic_id ret d' w1 w2 w3 where s: "create_logic sys LOGIC_UPDATE_PLAYER 5 w = Inr (logic_id, w1)"
    "logic_proc sys logic_id L_Null (A_Idx i) w1 = Inr w3" "Q logic_id ret d' w2" "logic_inv w3"
    "get_logic_data logic_id w3 = (if ret = LOGIC_YIELD then Some d' else None)" "same_but_logic w2 w3"
    by (rule start_logic [where Q = Q, OF inv(1) room mem _ _ sz login_type(5) step])
  note e = same_but_logicD [OF s(6)]
  have same: "player_pool w3 = player_pool w" "city_pool w3 = city_pool w" using s(3) e by (simp_all add: Q_def)
  then have inv3: "obj_inv w3" and i3: "i \<in> players w3"
    using inv(2) i(2) obj_inv_cong [of w3 w] s(3) e by (simp_all add: Q_def)
  obtain pp cp where del: "del_player i w3 = Inr ((erase_uid_to_player_idx (p_uid (the_player w3 i)) i w3)\<lparr>player_pool := pp, city_pool := cp\<rparr>)"
    "obj_inv ((erase_uid_to_player_idx (p_uid (the_player w3 i)) i w3)\<lparr>player_pool := pp, city_pool := cp\<rparr>)"
    "pool_used pp = players w3 - {i}" "pool_used cp = cities w3 - set (cities_of (the_player w3 i))"
    by (rule del_player_ok [OF inv3 i3])
  let ?w4 = "(erase_uid_to_player_idx (p_uid (the_player w3 i)) i w3)\<lparr>player_pool := pp, city_pool := cp\<rparr>"
  have k: "logic_timer ?w4 = logic_timer w3" "logic_data_map ?w4 = logic_data_map w3" "gout ?w4 = gout w3"
    by (simp_all add: erase_uid_to_player_idx_def split: option.splits)
  have "get_player i w = Inr (Some i)" using used_get [of w i] inv(2) i(2) by (simp add: obj_inv_def)
  then have "conn_packet sys (12 + int (length pkg)) w = Inr (False, ?w4)"
    using pkt(2) holds_packet_read [OF pkt(1)] i(1) s(1,2) del(1) by (simp add: conn_packet_def Let_def)
  moreover have "logic_inv ?w4" using s(4) logic_inv_cong [OF k(1,2)] by simp
  moreover have "get_logic_data logic_id ?w4 = Some d'" using s(3,5) k(2) by (simp add: get_logic_data_def Q_def)
  moreover have "gout ?w4 = gout w @ sent_data sys (save_req (word_of_int logic_id) i (p_uid (the_player w i)) b) (gout w)"
    using s(3) e k(3) by (simp add: Q_def)
  moreover have "players ?w4 = players w - {i}" "cities ?w4 = cities w - set (cities_of (the_player w i))"
    using del(3,4) same by simp_all
  moreover have "lg_logic_type d' = LOGIC_UPDATE_PLAYER" "lg_step d' = 1" using s(3) by (simp_all add: Q_def)
  ultimately show thesis using that [of ?w4 logic_id d'] del(2) by simp
qed

text \<open>The answer to a save ends the logic that waits for it.\<close>

lemma save_answered:
  assumes inv: "logic_inv w" and d: "get_logic_data logic_id w = Some d" "lg_logic_type d = LOGIC_UPDATE_PLAYER" "lg_step d = 1"
    and r: "gs_parse_ss sys pkg = Some r" "ss_cmd r = kSetPlayerDataRes" "ss_seq r = word_of_int logic_id"
  obtains w' where "handle_ss sys pkg A_Null w = Inr (0, w')" "logic_inv w'" "get_logic_data logic_id w' = None"
    "player_pool w' = player_pool w" "city_pool w' = city_pool w" "gout w' = gout w"
proof -
  have fs: "map_of logic_type_map (lg_logic_type d) = Some [update_player_step0, update_player_step1]" using d(2) login_type(5) by simp
  have b: "logic_base_proc [update_player_step0, update_player_step1] sys d (L_Ss r) A_Null w = Inr (LOGIC_FINISH, d, w)"
    using d(3) by (simp add: logic_base_proc_def update_player_step1_def)
  obtain w' where p: "logic_proc sys logic_id (L_Ss r) A_Null w = Inr w'" "logic_inv w'"
    "get_logic_data logic_id w' = (if LOGIC_FINISH = LOGIC_YIELD then Some d else None)"
    "w' = w\<lparr>logic_timer := logic_timer w', logic_data_map := logic_data_map w'\<rparr>"
    by (rule logic_proc_ok [OF inv d(1) fs b])
  have e: "player_pool w' = player_pool w" "city_pool w' = city_pool w" "gout w' = gout w" by (subst p(4), simp)+
  have "lg_logic_id d = word_of_int logic_id" using inv d(1) by (simp add: logic_inv_def)
  then have "sint (ss_seq r) = logic_id" using r(3) logic_id_word(1) [OF inv d(1)] by simp
  then have "handle_ss sys pkg A_Null w = Inr (0, w')"
    using r(1,2) p(1) by (simp add: handle_ss_def handle_request_def handlers_lookup on_logic_multi_step_resume_def cmd_defs)
  then show thesis using that p(2,3) e by (simp add: logic_consts)
qed

text \<open>C13: When connsvr reports the end of a player's connection the server sends datasvr the player's
  data as it stands, leaves a logic waiting for the answer, and deletes the player with its
  cities; all invariants hold afterwards.\<close>

theorem logout_saves:
  assumes pkt: "holds_packet cd pkg w" "cd_conn_cmd cd = conn_cmd_code CONN_STOP"
    and inv: "logic_inv w" "obj_inv w" and room: "heap_size (logic_timer w) < 1073741824"
    and mem: "\<And>es sz. gs_malloc sys es sz \<noteq> None" and i: "cd_player_idx cd = i" "i \<in> players w"
    and ser: "gs_ser_pd sys (snapshot w i) = Some b"
  shows "\<exists>logic_id d w'. conn_packet sys (12 + int (length pkg)) w = Inr (False, w') \<and> logic_inv w' \<and> obj_inv w' \<and>
    get_logic_data logic_id w' = Some d \<and> lg_logic_type d = LOGIC_UPDATE_PLAYER \<and> lg_step d = 1 \<and>
    players w' = players w - {i} \<and> cities w' = cities w - set (cities_of (the_player w i)) \<and>
    gout w' = gout w @ sent_data sys (save_req (word_of_int logic_id) i (p_uid (the_player w i)) b) (gout w)"
  by (rule logout_saved [OF pkt inv room mem i ser]) blast

theorem logout_saves_witness:
  "\<exists>w i w'. players w = {i} \<and> card (cities w) = 1 \<and> conn_packet (quiet_sys\<lparr>gs_ser_pd := \<lambda>_. Some [9]\<rparr>) 12 w = Inr (False, w') \<and>
     players w' = {} \<and> cities w' = {} \<and> length (gout w') = 1"
proof -
  obtain i c w0 where w0: "obj_inv w0" "logic_inv w0" "players w0 = {i}" "cities w0 = {c}" "cities_of (the_player w0 i) = [c]"
    "0 < i" "i \<le> 4" "heap_size (logic_timer w0) < 1073741824" "gout w0 = []" by (rule example_game_logic)
  let ?cd = "\<lparr>cd_conn_fd = 7, cd_player_idx = i, cd_conn_cmd = 3\<rparr>" and ?sys = "quiet_sys\<lparr>gs_ser_pd := \<lambda>_. Some [9]\<rparr>"
  let ?w = "w0\<lparr>msg_buf := put_conn_data ?cd\<rparr>"
  have pkt: "holds_packet ?cd [] ?w" "cd_conn_cmd ?cd = conn_cmd_code CONN_STOP"
    using w0(6,7) by (simp_all add: holds_packet_def cd_ok_def)
  have inv: "logic_inv ?w" "obj_inv ?w" using w0(1,2) logic_inv_cong [of ?w w0] obj_inv_cong [of ?w w0] by simp_all
  have mem: "\<And>es sz. gs_malloc ?sys es sz \<noteq> None" by (simp add: quiet_sys_def)
  have room: "heap_size (logic_timer ?w) < 1073741824" and idx: "cd_player_idx ?cd = i" "i \<in> players ?w" using w0(3,8) by simp_all
  have ser: "gs_ser_pd ?sys (snapshot ?w i) = Some [9]" by simp
  have n: "length (sent_data ?sys (save_req s j u [9]) []) = 1" for s j u
    by (simp add: sent_data_def quiet_sys_def)
  obtain w' where w': "conn_packet ?sys 12 ?w = Inr (False, w')" "players w' = {}" "cities w' = {}" "length (gout w') = 1"
    using logout_saves [OF pkt inv room mem idx ser] w0(3-5,9) n by auto
  have "players ?w = {i}" "card (cities ?w) = 1" using w0(3,4) by simp_all
  then show ?thesis using w' by blast
qed

section \<open>Login with an account of a quick registration\<close>

text \<open>The account of a quick registration is its uid in digits (\<open>send_ok_cs_quick_reg_res\<close>), and a
  login with it is always refused: the name must start with a letter. The branch that reads the
  uid back from the digits is never reached.\<close>

theorem quick_account_refused:
  assumes inv: "logic_inv w" "obj_inv w" and room: "heap_size (logic_timer w) < 1073741824"
    and mem: "\<And>es sz. gs_malloc sys es sz \<noteq> None" and i: "cd_player_idx cd = i" "i \<in> players w"
    and m: "gs_parse_cs sys pkg = Some m" "cs_cmd m = kLoginReq" "cs_login_req m = Some \<lparr>am_account = to_string_u64 uid, am_password = password\<rparr>"
  shows "\<exists>w'. handle_cs sys pkg (A_Conn cd) w = Inr (0, w') \<and> logic_inv w' \<and> player_pool w' = player_pool w \<and>
    (\<forall>j. get_logic_data j w' = get_logic_data j w) \<and>
    gout w' = gout w @ sent_conn sys (cs_empty\<lparr>cs_cmd := kLoginRes, cs_ret := - 1, cs_seq := cs_seq m\<rparr>) CONN_STOP
      (p_conn_fd (the_player w i)) i (gout w)"
proof -
  obtain r where r: "check_account (to_string_u64 uid) (int (length (to_string_u64 uid))) = Inr r" "r \<noteq> 0"
    by (rule number_rejected)
  let ?out = "gout w @ sent_conn sys (cs_empty\<lparr>cs_cmd := kLoginRes, cs_ret := - 1, cs_seq := cs_seq m\<rparr>) CONN_STOP
      (p_conn_fd (the_player w i)) i (gout w)"
  define Q where "Q logic_id ret d' w2 \<longleftrightarrow> ret = LOGIC_FAILED \<and> player_pool w2 = player_pool w \<and> gout w2 = ?out"
    for logic_id :: int and ret :: int and d' :: logic_data and w2 :: gamesvr
  have step: "\<exists>ret d' w2. login_step0 sys d (L_Cs m) (A_Conn cd) w1 = Inr (ret, d', w2) \<and> Q logic_id ret d' w2"
    if s: "same_but_logic w w1" for d w1 logic_id
  proof -
    note e = same_but_logicD [OF s]
    have pinv: "pool_inv (player_pool w1)" and i1: "i \<in> players w1" using inv(2) i(2) e by (simp_all add: obj_inv_def)
    show ?thesis
      using used_get [OF pinv i1] m r e i(1)
      by (simp add: login_step0_def account_msg_of_def Let_def Q_def done_with_def send_failed_cs_res_def player_send_def send_conn_eq)
  qed
  have cmd: "cs_cmd m \<in> {kLoginReq, kNormalRegReq, kQuickRegReq}" using m(2) by simp
  have ty: "map_of logic_type_map (logic_type_of_cmd (cs_cmd m)) = Some (login_step0 # [login_step1, login_step2])"
    using m(2) login_type by simp
  obtain logic_id ret d' w2 w' where h: "handle_cs sys pkg (A_Conn cd) w = Inr (0, w')" "Q logic_id ret d' w2" "logic_inv w'"
    "get_logic_data logic_id w = None" "get_logic_data logic_id w' = (if ret = LOGIC_YIELD then Some d' else None)"
    "\<forall>j. j \<noteq> logic_id \<longrightarrow> get_logic_data j w' = get_logic_data j w" "same_but_logic w2 w'"
    using handle_cs_start [where Q = Q, OF inv(1) room mem m(1) cmd ty step] by blast
  have "get_logic_data j w' = get_logic_data j w" for j
    using h(2,4-6) by (cases "j = logic_id") (simp_all add: Q_def logic_consts)
  then show ?thesis using h(1-3) same_but_logicD [OF h(7)] by (simp add: Q_def)
qed

theorem quick_account_refused_witness:
  "\<exists>w i w'. handle_cs (client_sends (example_login\<lparr>cs_login_req := Some \<lparr>am_account = to_string_u64 1234567, am_password = []\<rparr>\<rparr>)) []
     (A_Conn \<lparr>cd_conn_fd = 7, cd_player_idx = i, cd_conn_cmd = 2\<rparr>) w = Inr (0, w') \<and> length (gout w') = 1"
proof -
  obtain i c w where w: "obj_inv w" "logic_inv w" "players w = {i}" "heap_size (logic_timer w) < 1073741824"
    "gout w = []" by (rule example_game_logic)
  let ?m = "example_login\<lparr>cs_login_req := Some \<lparr>am_account = to_string_u64 1234567, am_password = []\<rparr>\<rparr>"
  let ?sys = "client_sends ?m" and ?cd = "\<lparr>cd_conn_fd = 7, cd_player_idx = i, cd_conn_cmd = 2\<rparr>"
  have mem: "\<And>es sz. gs_malloc ?sys es sz \<noteq> None" by (simp add: client_sends_def quiet_sys_def)
  have m: "gs_parse_cs ?sys [] = Some ?m" "cs_cmd ?m = kLoginReq"
    "cs_login_req ?m = Some \<lparr>am_account = to_string_u64 1234567, am_password = []\<rparr>"
    by (simp_all add: client_sends_def example_login_def)
  have i: "cd_player_idx ?cd = i" "i \<in> players w" using w(3) by simp_all
  have "length (sent_conn ?sys x c fd j es) = 1" for x c fd j es by (simp add: sent_conn_def client_sends_def quiet_sys_def Let_def)
  then show ?thesis using quick_account_refused [OF w(2,1,4) mem i m] w(5) by (metis append_Nil)
qed

end
