(* ===== verification/Data_Svr.thy ===== *)
theory Data_Svr
  imports Game_Msg
begin

text \<open>
  The data server: the MySQL clients of \<open>common/frame/mysql_mgr.{h,cpp}\<close>, each with a thread of its
  own, and the requests of \<open>datasvr/msg_module/msg_module.{h,cpp}\<close>.

  The main thread takes a free client, receives a request, and hands the client the statement and
  a callback by writing a byte to its pipe. The client's thread reads the byte, runs the
  statement, and calls the callback, which sends the answer; then the client is free again. A
  thread's run is cut into the steps between which other threads can run: the answer is
  serialised into a static buffer that all threads share, sent from there, and the client is
  put back. The MySQL library, zmq and protobuf are the environment.
\<close>

section \<open>State\<close>

text \<open>Calls of the MySQL library and of \<open>pipe\<close>; a result of 0 stands for success (or a pointer that is not \<open>NULL\<close>).\<close>

datatype mysql_call = M_Init | M_Options nat | M_Real_Connect | M_Ping | M_Query bytes | M_Errno | M_Field_Count | M_Pipe

datatype deffect =
    D_Call nat mysql_call int
  | D_Close nat
  | D_Send bytes int
  | D_Recv int
  | D_Sleep

datatype mysql_cb = Account_Reg_Cb | Account_Verify_Cb | Get_Player_Data_Cb | Set_Player_Data_Cb

datatype thread_pc = Pc_Loop | Pc_Send nat | Pc_Free

record mysql_client =
  mc_sql :: bytes
  mc_callback :: "mysql_cb option"
  mc_seq :: "64 word"
  mc_player_idx :: int
  mc_pipe :: nat
  mc_pc :: thread_pc

record datasvr =
  dv_clients :: "mysql_client list"
  dv_free :: "nat list"
  dv_buf :: bytes
  dv_send_buf :: bytes
  dv_out :: "deffect list"

text \<open>A result set is its list of rows.\<close>

type_synonym mysql_res = "bytes list list"

record data_sys =
  ds_call :: "deffect list \<Rightarrow> nat \<Rightarrow> mysql_call \<Rightarrow> int"
  ds_store_result :: "deffect list \<Rightarrow> nat \<Rightarrow> mysql_res option"
  ds_ready :: "deffect list \<Rightarrow> nat \<Rightarrow> bool"
  ds_escape :: "bytes \<Rightarrow> bytes"
  ds_recv :: "deffect list \<Rightarrow> int \<times> bytes"
  ds_send :: "deffect list \<Rightarrow> bytes \<Rightarrow> int"
  ds_ser :: "ss_msg \<Rightarrow> bytes option"
  ds_parse :: "bytes \<Rightarrow> ss_msg option"

definition demit :: "deffect \<Rightarrow> datasvr \<Rightarrow> datasvr" where
  "demit e d = d\<lparr>dv_out := dv_out d @ [e]\<rparr>"

definition client_at :: "nat \<Rightarrow> datasvr \<Rightarrow> mysql_client" where
  "client_at c d = dv_clients d ! c"

definition upd_client :: "nat \<Rightarrow> (mysql_client \<Rightarrow> mysql_client) \<Rightarrow> datasvr \<Rightarrow> datasvr" where
  "upd_client c f d = d\<lparr>dv_clients := (dv_clients d)[c := f (dv_clients d ! c)]\<rparr>"

section \<open>MysqlMgr\<close>

definition push_free_client :: "nat \<Rightarrow> datasvr \<Rightarrow> datasvr" where
  "push_free_client c d = d\<lparr>dv_free := dv_free d @ [c]\<rparr>"

definition pop_free_client :: "datasvr \<Rightarrow> nat option \<times> datasvr" where
  "pop_free_client d = (case dv_free d of [] \<Rightarrow> (None, d) | c # cs \<Rightarrow> (Some c, d\<lparr>dv_free := cs\<rparr>))"

definition mysql_call :: "data_sys \<Rightarrow> nat \<Rightarrow> mysql_call \<Rightarrow> datasvr \<Rightarrow> int \<times> datasvr" where
  "mysql_call sys c f d = (let r = ds_call sys (dv_out d) c f in (r, demit (D_Call c f r) d))"

text \<open>\<open>Connect\<close>: a failure after \<open>mysql_init\<close> closes the connection.\<close>

fun connect_stages :: "data_sys \<Rightarrow> nat \<Rightarrow> (mysql_call \<times> int) list \<Rightarrow> datasvr \<Rightarrow> int \<times> datasvr" where
  "connect_stages sys c [] d = (0, d)"
| "connect_stages sys c ((f, err) # fs) d =
     (let (r, d1) = mysql_call sys c f d in
      if r \<noteq> 0 then (err, demit (D_Close c) d1) else connect_stages sys c fs d1)"

definition mysql_connect :: "data_sys \<Rightarrow> nat \<Rightarrow> datasvr \<Rightarrow> int \<times> datasvr" where
  "mysql_connect sys c d =
     (let (r, d1) = mysql_call sys c M_Init d in
      if r \<noteq> 0 then (- 1, d1)
      else connect_stages sys c
             [(M_Options 0, - 2), (M_Options 1, - 3), (M_Options 2, - 4), (M_Real_Connect, - 5)] d1)"

definition mysql_do_ping :: "data_sys \<Rightarrow> nat \<Rightarrow> datasvr \<Rightarrow> int \<times> datasvr" where
  "mysql_do_ping sys c d =
     (let (r, d1) = mysql_call sys c M_Ping d in if r \<noteq> 0 then mysql_connect sys c d1 else (0, d1))"

definition new_client :: mysql_client where
  "new_client = \<lparr>mc_sql = [], mc_callback = None, mc_seq = 0, mc_player_idx = 0, mc_pipe = 0, mc_pc = Pc_Loop\<rparr>"

definition mysql_client_init :: "data_sys \<Rightarrow> nat \<Rightarrow> datasvr \<Rightarrow> datasvr res" where
  "mysql_client_init sys client_id d =
     (let (r, d1) = mysql_connect sys client_id d in
      rbind (guard Check_Failed (r = 0)) (\<lambda>_.
      let (r, d2) = mysql_call sys client_id M_Pipe d1 in
      rbind (guard Check_Failed (r = 0)) (\<lambda>_. Inr d2)))"

fun mysql_mgr_clients :: "data_sys \<Rightarrow> nat list \<Rightarrow> datasvr \<Rightarrow> datasvr res" where
  "mysql_mgr_clients sys [] d = Inr d"
| "mysql_mgr_clients sys (i # is) d =
     rbind (mysql_client_init sys i (d\<lparr>dv_clients := dv_clients d @ [new_client]\<rparr>)) (\<lambda>d1.
     mysql_mgr_clients sys is (push_free_client i d1))"

definition mysql_mgr_init :: "data_sys \<Rightarrow> int \<Rightarrow> datasvr \<Rightarrow> datasvr res" where
  "mysql_mgr_init sys max_client_count d =
     (let n = (if max_client_count > 8 then 8 else max_client_count);
          n = (if n \<le> 0 then 1 else n) in
      mysql_mgr_clients sys [0..<nat n] d)"

section \<open>MysqlClient\<close>

text \<open>\<open>Process\<close>, run by the main thread.\<close>

definition mysql_process :: "bytes \<Rightarrow> mysql_cb \<Rightarrow> 64 word \<Rightarrow> int \<Rightarrow> nat \<Rightarrow> datasvr \<Rightarrow> datasvr" where
  "mysql_process sql callback seq_id player_idx c =
     upd_client c (\<lambda>cl. cl\<lparr>mc_sql := sql, mc_callback := Some callback, mc_seq := seq_id,
       mc_player_idx := player_idx, mc_pipe := mc_pipe cl + 1\<rparr>)"

definition MYSQL_RES_OK :: int where "MYSQL_RES_OK = 0"
definition MYSQL_RES_FAILED :: int where "MYSQL_RES_FAILED = - 1"
definition MYSQL_RES_DUP :: int where "MYSQL_RES_DUP = - 2"

lemmas mysql_flags = MYSQL_RES_OK_def MYSQL_RES_FAILED_def MYSQL_RES_DUP_def

text \<open>The callbacks of the message module up to the message they send. The return codes in the
  protocol are the numbers of the flags.\<close>

definition account_reg_mysql_res :: "int \<Rightarrow> 64 word \<Rightarrow> int \<Rightarrow> ss_msg" where
  "account_reg_mysql_res flags seq_id player_idx =
     ss_empty\<lparr>ss_cmd := kAccountRegRes, ss_seq := seq_id, ss_player_idx := player_idx, ss_account_reg_res := Some True,
       ss_ret := (if flags = MYSQL_RES_OK then 0 else if flags = MYSQL_RES_DUP then - 2 else - 1)\<rparr>"

text \<open>The second \<open>set_seq\<close> stands where \<open>set_player_idx\<close> is meant.\<close>

definition account_verify_mysql_res :: "int \<Rightarrow> 64 word \<Rightarrow> int \<Rightarrow> ss_msg" where
  "account_verify_mysql_res flags seq_id player_idx =
     ss_empty\<lparr>ss_cmd := kAccountVerifyRes, ss_seq := word_of_int player_idx, ss_account_verify_res := Some True,
       ss_ret := (if flags = MYSQL_RES_OK then 0 else - 1)\<rparr>"

definition get_player_data_mysql_res :: "mysql_res option \<Rightarrow> int \<Rightarrow> 64 word \<Rightarrow> int \<Rightarrow> ss_msg res" where
  "get_player_data_mysql_res res flags seq_id player_idx =
     (let m = ss_empty\<lparr>ss_cmd := kGetPlayerDataRes, ss_seq := seq_id, ss_player_idx := player_idx\<rparr> in
      if flags = MYSQL_RES_OK then
        let m = m\<lparr>ss_get_player_data_res := Some []\<rparr> in
        case res of
          None \<Rightarrow> Inl Null_Deref
        | Some [] \<Rightarrow> Inr (m\<lparr>ss_ret := - 1\<rparr>)
        | Some ([] # _) \<Rightarrow> Inl Out_Of_Bounds
        | Some ((field # _) # _) \<Rightarrow> Inr (m\<lparr>ss_get_player_data_res := Some field, ss_ret := 0\<rparr>)
      else Inr (m\<lparr>ss_ret := - 1\<rparr>))"

definition set_player_data_mysql_res :: "int \<Rightarrow> 64 word \<Rightarrow> int \<Rightarrow> ss_msg" where
  "set_player_data_mysql_res flags seq_id player_idx =
     ss_empty\<lparr>ss_cmd := kSetPlayerDataRes, ss_seq := seq_id, ss_player_idx := player_idx,
       ss_ret := (if flags = MYSQL_RES_OK then 0 else - 1)\<rparr>"

fun callback_msg :: "mysql_cb \<Rightarrow> mysql_res option \<Rightarrow> int \<Rightarrow> 64 word \<Rightarrow> int \<Rightarrow> ss_msg res" where
  "callback_msg Account_Reg_Cb res flags seq_id player_idx = Inr (account_reg_mysql_res flags seq_id player_idx)"
| "callback_msg Account_Verify_Cb res flags seq_id player_idx = Inr (account_verify_mysql_res flags seq_id player_idx)"
| "callback_msg Get_Player_Data_Cb res flags seq_id player_idx = get_player_data_mysql_res res flags seq_id player_idx"
| "callback_msg Set_Player_Data_Cb res flags seq_id player_idx = Inr (set_player_data_mysql_res flags seq_id player_idx)"

text \<open>The call of the callback, up to the serialisation into the static buffer of \<open>SendMsg\<close>.\<close>

definition set_pc :: "thread_pc \<Rightarrow> nat \<Rightarrow> datasvr \<Rightarrow> datasvr" where
  "set_pc pc c = upd_client c (\<lambda>cl. cl\<lparr>mc_pc := pc\<rparr>)"

definition run_callback :: "data_sys \<Rightarrow> nat \<Rightarrow> mysql_res option \<Rightarrow> int \<Rightarrow> datasvr \<Rightarrow> datasvr res" where
  "run_callback sys c res flags d =
     (case mc_callback (client_at c d) of
        None \<Rightarrow> Inl Null_Deref
      | Some cb \<Rightarrow>
          rbind (callback_msg cb res flags (mc_seq (client_at c d)) (mc_player_idx (client_at c d))) (\<lambda>m.
          case ds_ser sys m of
            None \<Rightarrow> Inr (set_pc Pc_Free c d)
          | Some b \<Rightarrow> Inr (set_pc (Pc_Send (length b)) c (d\<lparr>dv_send_buf := b @ drop (length b) (dv_send_buf d)\<rparr>))))"

definition ER_DUP_KEYNAME :: int where "ER_DUP_KEYNAME = 1061"
definition ER_DUP_ENTRY :: int where "ER_DUP_ENTRY = 1062"

text \<open>A statement that failed for another reason than a duplicate is run a second time on a new
  connection; no callback is called.\<close>

definition retry_query :: "data_sys \<Rightarrow> nat \<Rightarrow> datasvr \<Rightarrow> datasvr" where
  "retry_query sys c d =
     (let sql = mc_sql (client_at c d);
          (_, d1) = mysql_connect sys c (demit (D_Close c) d);
          (q, d2) = mysql_call sys c (M_Query sql) d1 in
      set_pc Pc_Free c (if q \<noteq> 0 then snd (mysql_connect sys c (demit (D_Close c) d2)) else d2))"

definition run_query :: "data_sys \<Rightarrow> nat \<Rightarrow> datasvr \<Rightarrow> datasvr res" where
  "run_query sys c d =
     (let (q, d1) = mysql_call sys c (M_Query (mc_sql (client_at c d))) d in
      if q \<noteq> 0 then
        let (err, d2) = mysql_call sys c M_Errno d1 in
        if err = ER_DUP_ENTRY \<or> err = ER_DUP_KEYNAME then run_callback sys c None MYSQL_RES_DUP d2
        else Inr (retry_query sys c d2)
      else
        let res = ds_store_result sys (dv_out d1) c in
        if mc_callback (client_at c d1) \<noteq> None \<and> res \<noteq> None then run_callback sys c res MYSQL_RES_OK d1
        else if res = None then
          let (n, d2) = mysql_call sys c M_Field_Count d1 in
          run_callback sys c None (if n = 0 then MYSQL_RES_OK else MYSQL_RES_FAILED) d2
        else Inr (set_pc Pc_Free c d1))"

text \<open>A step of the thread of client \<open>c\<close>.\<close>

definition thread_step :: "data_sys \<Rightarrow> nat \<Rightarrow> datasvr \<Rightarrow> datasvr res" where
  "thread_step sys c d =
     (case mc_pc (client_at c d) of
        Pc_Loop \<Rightarrow>
          if mc_pipe (client_at c d) = 0 \<or> \<not> ds_ready sys (dv_out d) c then Inr d
          else
            let d1 = upd_client c (\<lambda>cl. cl\<lparr>mc_pipe := mc_pipe cl - 1\<rparr>) d;
                (r, d2) = mysql_do_ping sys c d1 in
            if r \<noteq> 0 then Inr d2 else run_query sys c d2
      | Pc_Send n \<Rightarrow>
          let b = take n (dv_send_buf d) in
          Inr (set_pc Pc_Free c (demit (D_Send b (ds_send sys (dv_out d) b)) d))
      | Pc_Free \<Rightarrow> Inr (push_free_client c (set_pc Pc_Loop c d)))"

text \<open>\<open>ThreadLoop\<close> without a switch to another thread.\<close>

definition thread_loop :: "data_sys \<Rightarrow> nat \<Rightarrow> datasvr \<Rightarrow> datasvr res" where
  "thread_loop sys c d =
     rbind (thread_step sys c d) (\<lambda>d1.
     case mc_pc (client_at c d1) of
       Pc_Loop \<Rightarrow> Inr d1
     | Pc_Send n \<Rightarrow> rbind (thread_step sys c d1) (thread_step sys c)
     | Pc_Free \<Rightarrow> thread_step sys c d1)"

section \<open>The requests\<close>

text \<open>The text of a statement.\<close>

definition sql_txt :: "string \<Rightarrow> bytes" where
  "sql_txt s = map of_char s"

text \<open>\<open>ConvertBinToString\<close>: the library writes the escaped bytes and a terminator into a static buffer
  whose size it is not told, and the buffer is read back as a C string.\<close>

definition convert_bin_to_string :: "data_sys \<Rightarrow> bytes \<Rightarrow> bytes res" where
  "convert_bin_to_string sys bin =
     (let b = ds_escape sys bin in
      if length b + 1 > 10240 then Inl Out_Of_Bounds else Inr (takeWhile (\<lambda>x. x \<noteq> 0) b))"

definition on_account_reg_req :: "data_sys \<Rightarrow> nat \<Rightarrow> ss_msg \<Rightarrow> datasvr \<Rightarrow> (int \<times> datasvr) res" where
  "on_account_reg_req sys c m d =
     (let req = (case ss_account_reg_req m of
                   Some r \<Rightarrow> r
                 | None \<Rightarrow> \<lparr>arq_uid = 0, arq_password_hash = 0, arq_account = None, arq_player_data = []\<rparr>);
          uid = to_string_u64 (arq_uid req); hash = to_string_u64 (arq_password_hash req);
          quote = [34] in
      rbind (convert_bin_to_string sys (arq_player_data req)) (\<lambda>player_data.
      rbind (case arq_account req of
               Some (a # as) \<Rightarrow>
                 rbind (convert_bin_to_string sys (a # as)) (\<lambda>account.
                 Inr (sql_txt ''INSERT INTO sg_data (uid, password_hash, account, reg_time, player_data) VALUES('' @
                   uid @ sql_txt '','' @ hash @ sql_txt '', '' @ quote @ account @ quote @ sql_txt '','' @
                   sql_txt ''NOW(), '' @ quote @ player_data @ quote @ sql_txt '')''))
             | _ \<Rightarrow>
                 Inr (sql_txt ''INSERT INTO sg_data (uid, password_hash, reg_time, player_data) VALUES('' @
                   uid @ sql_txt '','' @ hash @ sql_txt '', '' @ sql_txt ''NOW(), '' @ quote @ player_data @ quote @
                   sql_txt '')'')) (\<lambda>sql.
      Inr (0, mysql_process sql Account_Reg_Cb (ss_seq m) (ss_player_idx m) c d))))"

definition account_key_of :: "account_key option \<Rightarrow> account_key" where
  "account_key_of k = (case k of Some k \<Rightarrow> k | None \<Rightarrow> \<lparr>ak_uid = 0, ak_password_hash = 0\<rparr>)"

definition on_account_verify_req :: "data_sys \<Rightarrow> nat \<Rightarrow> ss_msg \<Rightarrow> datasvr \<Rightarrow> (int \<times> datasvr) res" where
  "on_account_verify_req sys c m d =
     (let req = account_key_of (ss_account_verify_req m);
          sql = sql_txt ''SELECT uid FROM sg_data WHERE uid = '' @ to_string_u64 (ak_uid req) @
                sql_txt '' and password_hash = '' @ to_string_u64 (ak_password_hash req) in
      Inr (0, mysql_process sql Account_Verify_Cb (ss_seq m) (ss_player_idx m) c d))"

definition on_get_player_data_req :: "data_sys \<Rightarrow> nat \<Rightarrow> ss_msg \<Rightarrow> datasvr \<Rightarrow> (int \<times> datasvr) res" where
  "on_get_player_data_req sys c m d =
     (let req = account_key_of (ss_get_player_data_req m);
          sql = sql_txt ''SELECT player_data FROM sg_data WHERE uid = '' @ to_string_u64 (ak_uid req) @
                sql_txt '' AND password_hash = '' @ to_string_u64 (ak_password_hash req) in
      Inr (0, mysql_process sql Get_Player_Data_Cb (ss_seq m) (ss_player_idx m) c d))"

definition on_set_player_data_req :: "data_sys \<Rightarrow> nat \<Rightarrow> ss_msg \<Rightarrow> datasvr \<Rightarrow> (int \<times> datasvr) res" where
  "on_set_player_data_req sys c m d =
     (let req = (case ss_set_player_data_req m of Some r \<Rightarrow> r | None \<Rightarrow> \<lparr>spq_uid = 0, spq_player_data = []\<rparr>) in
      rbind (convert_bin_to_string sys (spq_player_data req)) (\<lambda>player_data.
      let sql = sql_txt ''UPDATE sg_data SET player_data='' @ [34] @ player_data @ [34] @
                sql_txt ''WHERE uid = '' @ to_string_u64 (spq_uid req) in
      Inr (0, mysql_process sql Set_Player_Data_Cb (ss_seq m) (ss_player_idx m) c d)))"

definition data_handlers :: "data_sys \<Rightarrow> nat \<Rightarrow> (int \<times> (ss_msg, datasvr) msg_wrapper) list" where
  "data_handlers sys c =
     msg_register kSetPlayerDataReq (on_set_player_data_req sys c)
    (msg_register kGetPlayerDataReq (on_get_player_data_req sys c)
    (msg_register kAccountVerifyReq (on_account_verify_req sys c)
    (msg_register kAccountRegReq (on_account_reg_req sys c) [])))"

text \<open>One round of \<open>Run\<close>: a client is taken before it is known whether there is a request.\<close>

definition data_run_once :: "data_sys \<Rightarrow> datasvr \<Rightarrow> datasvr res" where
  "data_run_once sys d =
     (case pop_free_client d of
        (None, d1) \<Rightarrow> Inr (demit D_Sleep d1)
      | (Some c, d1) \<Rightarrow>
          let r = ds_recv sys (dv_out d1);
              d2 = (demit (D_Recv (fst r)) d1)\<lparr>dv_buf := recv_into (dv_buf d1) r\<rparr> in
          if fst r > 0 then
            rbind (mem_read (dv_buf d2) 0 (fst r)) (\<lambda>pkg.
            rbind (handle_request (ds_parse sys) ss_cmd (data_handlers sys c) pkg d2) (\<lambda>(_, d3). Inr d3))
          else Inr (push_free_client c d2))"

fun data_run_times :: "data_sys \<Rightarrow> nat \<Rightarrow> datasvr \<Rightarrow> datasvr res" where
  "data_run_times sys 0 d = Inr d"
| "data_run_times sys (Suc n) d = rbind (data_run_once sys d) (data_run_times sys n)"

definition data_run :: "data_sys \<Rightarrow> datasvr \<Rightarrow> datasvr res" where
  "data_run sys d = data_run_times sys 1000 d"

end
