(* ===== verification/Data_Svr_Props.thy ===== *)
theory Data_Svr_Props
  imports Data_Svr "HOL-Library.Transitive_Closure_Table"
begin

text \<open>
  The data server as a state machine: in any order of the steps of the main thread and of the
  client threads a client is free, in the hands of its thread or lost, never two of them. A
  request for the data of a player is answered with what the database has stored. What breaks
  this: the static buffer that the threads share, a statement that fails, and packets that
  cannot be parsed, each of which costs the server a client for good.
\<close>

section \<open>Fields\<close>

lemma client_at_upd [simp]:
  "c < length (dv_clients d) \<Longrightarrow> client_at c (upd_client c f d) = f (client_at c d)"
  "c' \<noteq> c \<Longrightarrow> client_at c (upd_client c' f d) = client_at c d"
  by (simp_all add: client_at_def upd_client_def)

lemma upd_client_same [simp]:
  "length (dv_clients (upd_client c f d)) = length (dv_clients d)" "dv_free (upd_client c f d) = dv_free d"
  "dv_buf (upd_client c f d) = dv_buf d" "dv_send_buf (upd_client c f d) = dv_send_buf d" "dv_out (upd_client c f d) = dv_out d"
  by (simp_all add: upd_client_def)

lemma set_pc_same [simp]:
  "length (dv_clients (set_pc pc c d)) = length (dv_clients d)" "dv_free (set_pc pc c d) = dv_free d"
  "dv_buf (set_pc pc c d) = dv_buf d" "dv_send_buf (set_pc pc c d) = dv_send_buf d" "dv_out (set_pc pc c d) = dv_out d"
  "c' \<noteq> c \<Longrightarrow> client_at c (set_pc pc c' d) = client_at c d"
  "c < length (dv_clients d) \<Longrightarrow> client_at c (set_pc pc c d) = (client_at c d)\<lparr>mc_pc := pc\<rparr>"
  by (simp_all add: set_pc_def)

lemma demit_same [simp]:
  "dv_clients (demit e d) = dv_clients d" "dv_free (demit e d) = dv_free d" "dv_buf (demit e d) = dv_buf d"
  "dv_send_buf (demit e d) = dv_send_buf d" "dv_out (demit e d) = dv_out d @ [e]" "client_at c (demit e d) = client_at c d"
  by (simp_all add: demit_def client_at_def)

lemma push_free_same [simp]:
  "dv_clients (push_free_client c d) = dv_clients d" "dv_free (push_free_client c d) = dv_free d @ [c]"
  "dv_out (push_free_client c d) = dv_out d" "dv_buf (push_free_client c d) = dv_buf d" "client_at i (push_free_client c d) = client_at i d"
  by (simp_all add: push_free_client_def client_at_def)

text \<open>The calls of the library only add to the effects.\<close>

definition is_call :: "deffect \<Rightarrow> bool" where
  "is_call e \<longleftrightarrow> (case e of D_Call _ _ _ \<Rightarrow> True | D_Close _ \<Rightarrow> True | _ \<Rightarrow> False)"

definition only_calls :: "datasvr \<Rightarrow> datasvr \<Rightarrow> bool" where
  "only_calls d d' \<longleftrightarrow> (\<exists>es. d' = d\<lparr>dv_out := dv_out d @ es\<rparr> \<and> (\<forall>e\<in>set es. is_call e))"

lemma only_callsD:
  assumes "only_calls d d'"
  shows "dv_clients d' = dv_clients d" "dv_free d' = dv_free d" "dv_buf d' = dv_buf d" "dv_send_buf d' = dv_send_buf d"
    "client_at c d' = client_at c d" "\<exists>es. dv_out d' = dv_out d @ es \<and> (\<forall>e\<in>set es. is_call e)"
  using assms by (auto simp: only_calls_def client_at_def)

lemma only_calls_refl [simp]: "only_calls d d"
  by (auto simp: only_calls_def intro: exI [of _ "[]"])

lemma only_calls_demit: "only_calls d d' \<Longrightarrow> is_call e \<Longrightarrow> only_calls d (demit e d')"
proof -
  assume "only_calls d d'" "is_call e"
  then obtain es where "d' = d\<lparr>dv_out := dv_out d @ es\<rparr>" "\<forall>e\<in>set es. is_call e" by (auto simp: only_calls_def)
  then show ?thesis using \<open>is_call e\<close> by (auto simp: only_calls_def demit_def intro!: exI [of _ "es @ [e]"])
qed

lemma only_calls_call: "mysql_call sys c f d' = (r, d'') \<Longrightarrow> only_calls d d' \<Longrightarrow> only_calls d d''"
  by (auto simp: mysql_call_def Let_def is_call_def intro!: only_calls_demit)

lemma only_calls_stages: "connect_stages sys c fs d' = (r, d'') \<Longrightarrow> only_calls d d' \<Longrightarrow> only_calls d d''"
proof (induction fs arbitrary: d')
  case (Cons x fs)
  obtain f err where x: "x = (f, err)" by (cases x)
  obtain r1 d1 where call: "mysql_call sys c f d' = (r1, d1)" by (cases "mysql_call sys c f d'")
  have o1: "only_calls d d1" by (rule only_calls_call [OF call Cons.prems(2)])
  show ?case
  proof (cases "r1 = 0")
    case True
    then show ?thesis using Cons.IH [OF _ o1] Cons.prems(1) x call by simp
  next
    case False
    then show ?thesis using Cons.prems(1) x call o1 by (auto simp: is_call_def intro: only_calls_demit)
  qed
qed simp

lemma only_calls_connect: "mysql_connect sys c d' = (r, d'') \<Longrightarrow> only_calls d d' \<Longrightarrow> only_calls d d''"
proof -
  assume m: "mysql_connect sys c d' = (r, d'')" and o: "only_calls d d'"
  obtain r1 d1 where call: "mysql_call sys c M_Init d' = (r1, d1)" by (cases "mysql_call sys c M_Init d'")
  show ?thesis
    using m call only_calls_call [OF call o] only_calls_stages [of sys c _ d1 r d'' d]
    by (auto simp: mysql_connect_def simp del: connect_stages.simps split: if_splits)
qed

lemma only_calls_ping: "mysql_do_ping sys c d' = (r, d'') \<Longrightarrow> only_calls d d' \<Longrightarrow> only_calls d d''"
proof -
  assume m: "mysql_do_ping sys c d' = (r, d'')" and o: "only_calls d d'"
  obtain r1 d1 where call: "mysql_call sys c M_Ping d' = (r1, d1)" by (cases "mysql_call sys c M_Ping d'")
  show ?thesis
    using m call only_calls_call [OF call o] only_calls_connect [of sys c d1 r d'' d]
    by (auto simp: mysql_do_ping_def split: if_splits)
qed

section \<open>The invariant\<close>

text \<open>A free client has no request and its thread waits; a client with a request has a callback, and at
  most one request.\<close>

definition data_inv :: "datasvr \<Rightarrow> bool" where
  "data_inv d \<longleftrightarrow> distinct (dv_free d) \<and> set (dv_free d) \<subseteq> {..<length (dv_clients d)} \<and>
     (\<forall>c\<in>set (dv_free d). mc_pipe (client_at c d) = 0 \<and> mc_pc (client_at c d) = Pc_Loop) \<and>
     (\<forall>c<length (dv_clients d). mc_pipe (client_at c d) \<le> 1 \<and>
        (mc_pc (client_at c d) \<noteq> Pc_Loop \<longrightarrow> mc_pipe (client_at c d) = 0) \<and>
        (mc_pipe (client_at c d) = 1 \<longrightarrow> mc_callback (client_at c d) \<noteq> None))"

text \<open>A change of one client outside the free list.\<close>

lemma data_inv_change:
  assumes inv: "data_inv d" and c: "c \<notin> set (dv_free d)" and n: "length (dv_clients d') = length (dv_clients d)"
    and free: "dv_free d' = dv_free d" and other: "\<And>i. i \<noteq> c \<Longrightarrow> client_at i d' = client_at i d"
    and cl: "mc_pipe (client_at c d') = 0 \<or> mc_pipe (client_at c d') = 1 \<and> mc_pc (client_at c d') = Pc_Loop \<and> mc_callback (client_at c d') \<noteq> None"
  shows "data_inv d'"
  unfolding data_inv_def
proof (intro conjI)
  show "distinct (dv_free d')" "set (dv_free d') \<subseteq> {..<length (dv_clients d')}" using inv n free by (simp_all add: data_inv_def)
  show "\<forall>i\<in>set (dv_free d'). mc_pipe (client_at i d') = 0 \<and> mc_pc (client_at i d') = Pc_Loop"
  proof
    fix i assume i: "i \<in> set (dv_free d')"
    then have "i \<noteq> c" using free c by auto
    then show "mc_pipe (client_at i d') = 0 \<and> mc_pc (client_at i d') = Pc_Loop"
      using inv free i other by (simp add: data_inv_def)
  qed
  show "\<forall>i<length (dv_clients d'). mc_pipe (client_at i d') \<le> 1 \<and>
      (mc_pc (client_at i d') \<noteq> Pc_Loop \<longrightarrow> mc_pipe (client_at i d') = 0) \<and>
      (mc_pipe (client_at i d') = 1 \<longrightarrow> mc_callback (client_at i d') \<noteq> None)"
  proof (intro allI impI)
    fix i assume "i < length (dv_clients d')"
    then show "mc_pipe (client_at i d') \<le> 1 \<and> (mc_pc (client_at i d') \<noteq> Pc_Loop \<longrightarrow> mc_pipe (client_at i d') = 0) \<and>
        (mc_pipe (client_at i d') = 1 \<longrightarrow> mc_callback (client_at i d') \<noteq> None)"
      using inv n other [of i] cl by (cases "i = c") (auto simp: data_inv_def)
  qed
qed

lemma data_inv_cong:
  assumes "data_inv d" "dv_clients d' = dv_clients d" "dv_free d' = dv_free d"
  shows "data_inv d'"
  using assms by (simp add: data_inv_def client_at_def)

lemma data_inv_push:
  assumes "data_inv d" "c < length (dv_clients d)" "c \<notin> set (dv_free d)"
    "mc_pipe (client_at c d) = 0" "mc_pc (client_at c d) = Pc_Loop"
  shows "data_inv (push_free_client c d)"
  using assms by (auto simp: data_inv_def)

section \<open>What a step changes\<close>

text \<open>Up to the effects and the static buffers, only where the thread of \<open>c\<close> is.\<close>

definition moves :: "nat \<Rightarrow> datasvr \<Rightarrow> datasvr \<Rightarrow> bool" where
  "moves c d d' \<longleftrightarrow> length (dv_clients d') = length (dv_clients d) \<and> dv_free d' = dv_free d \<and>
     (\<forall>i. i \<noteq> c \<longrightarrow> client_at i d' = client_at i d) \<and> (\<exists>pc. client_at c d' = (client_at c d)\<lparr>mc_pc := pc\<rparr>)"

lemma moves_trans: "moves c d d' \<Longrightarrow> moves c d' d'' \<Longrightarrow> moves c d d''"
  unfolding moves_def by (elim conjE exE) (intro conjI, simp_all, blast)

lemma moves_set_pc [simp]: "c < length (dv_clients d) \<Longrightarrow> moves c d (set_pc pc c d)"
  by (auto simp: moves_def)

lemma only_calls_moves: "only_calls d d' \<Longrightarrow> moves c d d'"
  using only_callsD [of d d'] by (auto simp: moves_def client_at_def intro: exI [of _ "mc_pc (client_at c d)"])

lemma run_callback_moves: "run_callback sys c res flags d = Inr d' \<Longrightarrow> c < length (dv_clients d) \<Longrightarrow> moves c d d'"
proof -
  assume r: "run_callback sys c res flags d = Inr d'" and c: "c < length (dv_clients d)"
  have buf: "moves c d (set_pc pc c (d\<lparr>dv_send_buf := b\<rparr>))" for pc b
    using c by (auto simp: moves_def client_at_def set_pc_def upd_client_def)
  show ?thesis using r c buf
    by (auto simp: run_callback_def rbind_eq_Inr_iff split: option.splits)
qed

lemma retry_query_moves: "c < length (dv_clients d) \<Longrightarrow> moves c d (retry_query sys c d)"
proof -
  assume c: "c < length (dv_clients d)"
  obtain r1 d1 where m1: "mysql_connect sys c (demit (D_Close c) d) = (r1, d1)" by (cases "mysql_connect sys c (demit (D_Close c) d)")
  obtain q d2 where m2: "mysql_call sys c (M_Query (mc_sql (client_at c d))) d1 = (q, d2)"
    by (cases "mysql_call sys c (M_Query (mc_sql (client_at c d))) d1")
  obtain r3 d3 where m3: "mysql_connect sys c (demit (D_Close c) d2) = (r3, d3)" by (cases "mysql_connect sys c (demit (D_Close c) d2)")
  have "only_calls d d1" by (rule only_calls_connect [OF m1]) (simp add: only_calls_demit is_call_def)
  then have o2: "only_calls d d2" by (rule only_calls_call [OF m2])
  then have o3: "only_calls d d3" by (intro only_calls_connect [OF m3] only_calls_demit) (simp_all add: is_call_def)
  have a: "moves c d (set_pc Pc_Free c d2)"
    by (rule moves_trans [OF only_calls_moves [OF o2] moves_set_pc]) (use only_callsD(1) [OF o2] c in simp)
  have b: "moves c d (set_pc Pc_Free c d3)"
    by (rule moves_trans [OF only_calls_moves [OF o3] moves_set_pc]) (use only_callsD(1) [OF o3] c in simp)
  have "retry_query sys c d = set_pc Pc_Free c (if q \<noteq> 0 then d3 else d2)"
    using m1 m2 m3 by (simp add: retry_query_def)
  then show ?thesis using a b by (cases "q = 0") simp_all
qed

lemma run_query_moves: "run_query sys c d = Inr d' \<Longrightarrow> c < length (dv_clients d) \<Longrightarrow> moves c d d'"
proof -
  assume r: "run_query sys c d = Inr d'" and c: "c < length (dv_clients d)"
  obtain q d1 where m1: "mysql_call sys c (M_Query (mc_sql (client_at c d))) d = (q, d1)"
    by (cases "mysql_call sys c (M_Query (mc_sql (client_at c d))) d")
  obtain e d2 where m2: "mysql_call sys c M_Errno d1 = (e, d2)" by (cases "mysql_call sys c M_Errno d1")
  obtain n d3 where m3: "mysql_call sys c M_Field_Count d1 = (n, d3)" by (cases "mysql_call sys c M_Field_Count d1")
  have o1: "only_calls d d1" by (rule only_calls_call [OF m1 only_calls_refl])
  have o2: "only_calls d d2" and o3: "only_calls d d3"
    by (rule only_calls_call [OF m2 o1], rule only_calls_call [OF m3 o1])
  have l: "c < length (dv_clients d1)" "c < length (dv_clients d2)" "c < length (dv_clients d3)"
    using c only_callsD(1) [OF o1] only_callsD(1) [OF o2] only_callsD(1) [OF o3] by simp_all
  note t = moves_trans [OF only_calls_moves [OF o1]] moves_trans [OF only_calls_moves [OF o2]] moves_trans [OF only_calls_moves [OF o3]]
  show ?thesis
    using r m1 m2 m3 l t(1) [OF run_callback_moves] t(1) [OF moves_set_pc] t(2) [OF run_callback_moves]
      t(2) [OF retry_query_moves] t(3) [OF run_callback_moves]
    by (auto simp: run_query_def Let_def split: if_splits)
qed

lemma thread_step_inv:
  assumes inv: "data_inv d" and c: "c < length (dv_clients d)" and st: "thread_step sys c d = Inr d'"
  shows "data_inv d'" "length (dv_clients d') = length (dv_clients d)"
proof -
  have "data_inv d' \<and> length (dv_clients d') = length (dv_clients d)"
  proof (cases "mc_pc (client_at c d)")
    case Pc_Loop
    show ?thesis
    proof (cases "mc_pipe (client_at c d) = 0 \<or> \<not> ds_ready sys (dv_out d) c")
      case False
      let ?d1 = "upd_client c (\<lambda>cl. cl\<lparr>mc_pipe := mc_pipe cl - 1\<rparr>) d"
      have pipe: "mc_pipe (client_at c d) = 1" using inv c False by (auto simp: data_inv_def dest!: spec [of _ c])
      then have nf: "c \<notin> set (dv_free d)" using inv by (auto simp: data_inv_def)
      obtain r d2 where m: "mysql_do_ping sys c ?d1 = (r, d2)" by (cases "mysql_do_ping sys c ?d1")
      have o: "only_calls ?d1 d2" by (rule only_calls_ping [OF m only_calls_refl])
      note o' = only_callsD [OF o]
      have "moves c d2 d'"
        using st Pc_Loop False m run_query_moves [of sys c d2 d'] o'(1) c
        by (auto simp: thread_step_def Let_def only_calls_moves split: if_splits)
      then have "moves c ?d1 d'" by (rule moves_trans [OF only_calls_moves [OF o]])
      then obtain pc where d': "length (dv_clients d') = length (dv_clients d)" "dv_free d' = dv_free d"
        "\<And>i. i \<noteq> c \<Longrightarrow> client_at i d' = client_at i d" "client_at c d' = (client_at c ?d1)\<lparr>mc_pc := pc\<rparr>"
        by (auto simp: moves_def)
      have "data_inv d'" by (rule data_inv_change [OF inv nf d'(1-3)]) (use d'(4) pipe c in simp_all)
      then show ?thesis using d'(1) by simp
    qed (use inv st Pc_Loop in \<open>auto simp: thread_step_def\<close>)
  next
    case (Pc_Send n)
    have nf: "c \<notin> set (dv_free d)" using inv Pc_Send by (auto simp: data_inv_def)
    let ?b = "take n (dv_send_buf d)"
    have d': "d' = set_pc Pc_Free c (demit (D_Send ?b (ds_send sys (dv_out d) ?b)) d)"
      using st Pc_Send by (simp add: thread_step_def Let_def)
    have "mc_pipe (client_at c d) = 0" using inv c Pc_Send by (auto simp: data_inv_def dest!: spec [of _ c])
    then have "data_inv d'" by (intro data_inv_change [OF inv nf]) (simp_all add: d' c)
    then show ?thesis using d' by simp
  next
    case Pc_Free
    have nf: "c \<notin> set (dv_free d)" using inv Pc_Free by (auto simp: data_inv_def)
    have d': "d' = push_free_client c (set_pc Pc_Loop c d)" using st Pc_Free by (simp add: thread_step_def)
    have p: "mc_pipe (client_at c d) = 0" using inv c Pc_Free by (auto simp: data_inv_def dest!: spec [of _ c])
    then have "data_inv (set_pc Pc_Loop c d)" by (intro data_inv_change [OF inv nf]) (simp_all add: c)
    then have "data_inv d'" unfolding d' by (rule data_inv_push) (use c nf p in simp_all)
    then show ?thesis using d' by simp
  qed
  then show "data_inv d'" "length (dv_clients d') = length (dv_clients d)" by simp_all
qed

section \<open>The main thread\<close>

lemma process_inv:
  assumes inv: "data_inv d" and c: "c < length (dv_clients d)" "c \<notin> set (dv_free d)"
    and idle: "mc_pipe (client_at c d) = 0" "mc_pc (client_at c d) = Pc_Loop"
  shows "data_inv (mysql_process sql cb seq idx c d)"
  by (rule data_inv_change [OF inv c(2)]) (use c(1) idle in \<open>simp_all add: mysql_process_def\<close>)

lemma request_process:
  "on_account_reg_req sys c m d = Inr (r, d') \<Longrightarrow> \<exists>sql cb. d' = mysql_process sql cb (ss_seq m) (ss_player_idx m) c d"
  "on_account_verify_req sys c m d = Inr (r, d') \<Longrightarrow> \<exists>sql cb. d' = mysql_process sql cb (ss_seq m) (ss_player_idx m) c d"
  "on_get_player_data_req sys c m d = Inr (r, d') \<Longrightarrow> \<exists>sql cb. d' = mysql_process sql cb (ss_seq m) (ss_player_idx m) c d"
  "on_set_player_data_req sys c m d = Inr (r, d') \<Longrightarrow> \<exists>sql cb. d' = mysql_process sql cb (ss_seq m) (ss_player_idx m) c d"
  unfolding on_account_reg_req_def on_account_verify_req_def on_get_player_data_req_def on_set_player_data_req_def Let_def
  by ((elim rbind_InrE)?, simp only: sum.inject prod.inject, blast)+

lemma handlers_process:
  assumes "map_of (data_handlers sys c) cmd = Some h" "h m d = Inr (r, d')"
  obtains sql cb where "d' = mysql_process sql cb (ss_seq m) (ss_player_idx m) c d"
proof -
  have "h \<in> {on_account_reg_req sys c, on_account_verify_req sys c, on_get_player_data_req sys c, on_set_player_data_req sys c}"
    using assms(1) by (auto simp: data_handlers_def msg_register_def cmd_defs split: if_splits)
  then have "\<exists>sql cb. d' = mysql_process sql cb (ss_seq m) (ss_player_idx m) c d"
    using assms(2) request_process [of sys c m d r d'] by blast
  then show thesis using that by blast
qed

lemma pop_inv:
  assumes inv: "data_inv d" and p: "dv_free d = c # cs"
  shows "data_inv (d\<lparr>dv_free := cs\<rparr>)" "c < length (dv_clients d)" "c \<notin> set cs"
    "mc_pipe (client_at c d) = 0" "mc_pc (client_at c d) = Pc_Loop"
  using inv p by (auto simp: data_inv_def client_at_def)

lemma data_run_once_inv:
  assumes inv: "data_inv d" and st: "data_run_once sys d = Inr d'"
  shows "data_inv d'" "length (dv_clients d') = length (dv_clients d)"
proof -
  have "data_inv d' \<and> length (dv_clients d') = length (dv_clients d)"
  proof (cases "dv_free d")
    case Nil
    then have "d' = demit D_Sleep d" using st by (simp add: data_run_once_def pop_free_client_def)
    then show ?thesis using data_inv_cong [OF inv, of d'] by simp
  next
    case (Cons c cs)
    let ?d1 = "d\<lparr>dv_free := cs\<rparr>"
    let ?r = "ds_recv sys (dv_out d)"
    let ?d2 = "(demit (D_Recv (fst ?r)) ?d1)\<lparr>dv_buf := recv_into (dv_buf d) ?r\<rparr>"
    note p = pop_inv [OF inv Cons]
    have i2: "data_inv ?d2" by (rule data_inv_cong [OF p(1)]) (simp_all add: demit_def)
    have c2: "c < length (dv_clients ?d2)" "c \<notin> set (dv_free ?d2)" "mc_pipe (client_at c ?d2) = 0" "mc_pc (client_at c ?d2) = Pc_Loop"
      "length (dv_clients ?d2) = length (dv_clients d)"
      using p by (simp_all add: demit_def client_at_def)
    show ?thesis
    proof (cases "fst ?r > 0")
      case True
      then obtain pkg k where h: "handle_request (ds_parse sys) ss_cmd (data_handlers sys c) pkg ?d2 = Inr (k, d')"
        using st Cons by (auto simp: data_run_once_def pop_free_client_def Let_def rbind_eq_Inr_iff)
      show ?thesis
      proof (cases "d' = ?d2")
        case True
        then show ?thesis using i2 c2(5) by (simp only:)
      next
        case False
        then obtain m f k' where f: "map_of (data_handlers sys c) (ss_cmd m) = Some f" "f m ?d2 = Inr (k', d')"
          using h by (auto simp: handle_request_def rbind_eq_Inr_iff split: option.splits)
        obtain sql cb where d': "d' = mysql_process sql cb (ss_seq m) (ss_player_idx m) c ?d2"
          by (rule handlers_process [OF f])
        have "length (dv_clients d') = length (dv_clients ?d2)" unfolding d' mysql_process_def by simp
        then show ?thesis unfolding d' using process_inv [OF i2 c2(1-4)] c2(5) by simp
      qed
    next
      case False
      then have d': "d' = push_free_client c ?d2"
        using st Cons by (simp add: data_run_once_def pop_free_client_def Let_def)
      have "data_inv d'" unfolding d' by (rule data_inv_push [OF i2 c2(1,2,3,4)])
      then show ?thesis using d' c2(5) by simp
    qed
  qed
  then show "data_inv d'" "length (dv_clients d') = length (dv_clients d)" by simp_all
qed

text \<open>A step of the server: a round of the main thread, or a step of the thread of a client.\<close>

inductive data_step :: "data_sys \<Rightarrow> datasvr \<Rightarrow> datasvr \<Rightarrow> bool" for sys where
  main: "data_run_once sys d = Inr d' \<Longrightarrow> data_step sys d d'"
| thread: "c < length (dv_clients d) \<Longrightarrow> thread_step sys c d = Inr d' \<Longrightarrow> data_step sys d d'"

inductive_cases data_stepE: "data_step sys d d'"

lemma data_step_inv:
  assumes "data_step sys d d'" "data_inv d"
  shows "data_inv d' \<and> length (dv_clients d') = length (dv_clients d)"
  using assms(1)
proof cases
  case main
  then show ?thesis using data_run_once_inv [OF assms(2)] by blast
next
  case (thread c)
  then show ?thesis using thread_step_inv [OF assms(2)] by blast
qed

lemma data_steps_inv:
  assumes "(data_step sys)\<^sup>*\<^sup>* d d'" "data_inv d"
  shows "data_inv d' \<and> length (dv_clients d') = length (dv_clients d)"
  using assms(1)
proof (induction rule: rtranclp_induct)
  case (step y z)
  then show ?case using data_step_inv [of sys y z] by simp
qed (simp add: assms(2))

definition data_new :: datasvr where
  "data_new = \<lparr>dv_clients = [], dv_free = [], dv_buf = replicate 10240 0, dv_send_buf = replicate 10240 0, dv_out = []\<rparr>"

lemma mgr_clients_inv:
  "mysql_mgr_clients sys [k..<n] d = Inr d' \<Longrightarrow> length (dv_clients d) = k \<Longrightarrow> data_inv d \<Longrightarrow> k \<le> n \<Longrightarrow>
   data_inv d' \<and> length (dv_clients d') = n \<and> dv_free d' = dv_free d @ [k..<n]"
proof (induction "n - k" arbitrary: k d)
  case (Suc j)
  then have ks: "[k..<n] = k # [Suc k..<n]" by (simp add: upt_conv_Cons)
  let ?d0 = "d\<lparr>dv_clients := dv_clients d @ [new_client]\<rparr>"
  obtain d1 where d1: "mysql_client_init sys k ?d0 = Inr d1" "mysql_mgr_clients sys [Suc k..<n] (push_free_client k d1) = Inr d'"
    using Suc.prems(1) ks by (auto simp: rbind_eq_Inr_iff)
  obtain r2 d2 where c: "mysql_connect sys k ?d0 = (r2, d2)" by (cases "mysql_connect sys k ?d0")
  obtain r3 d3 where p: "mysql_call sys k M_Pipe d2 = (r3, d3)" by (cases "mysql_call sys k M_Pipe d2")
  have "d1 = d3" using d1(1) c p by (auto simp: mysql_client_init_def rbind_eq_Inr_iff)
  then have o: "only_calls ?d0 d1"
    using only_calls_call [OF p only_calls_connect [OF c only_calls_refl]] by simp
  note o' = only_callsD [OF o]
  have cl: "client_at i d1 = (if i < k then client_at i d else new_client)" if "i \<le> k" for i
    using that o'(1) Suc.prems(2) by (auto simp: client_at_def nth_append)
  have "data_inv (push_free_client k d1)"
    using Suc.prems(2,3) o'(1,2) cl by (auto simp: data_inv_def new_client_def less_Suc_eq_le)
  moreover have "length (dv_clients (push_free_client k d1)) = Suc k" "dv_free (push_free_client k d1) = dv_free d @ [k]"
    using o' Suc.prems(2) by simp_all
  ultimately show ?case using Suc.hyps(1) [of "Suc k" "push_free_client k d1"] Suc.hyps(2) d1(2) ks by simp
qed simp

text \<open>C9: In every state that the data server can reach, in any order of the steps of its main thread and
  of the threads of its MySQL clients, the free list has no client twice, a free client has
  neither a request nor a running callback, and a client has at most one request, with a
  callback.\<close>

theorem data_reach_inv:
  "mysql_mgr_init sys n data_new = Inr d \<Longrightarrow> (data_step sys)\<^sup>*\<^sup>* d d' \<Longrightarrow>
   data_inv d' \<and> 1 \<le> length (dv_clients d') \<and> length (dv_clients d') \<le> 8"
proof -
  assume init: "mysql_mgr_init sys n data_new = Inr d" and steps: "(data_step sys)\<^sup>*\<^sup>* d d'"
  let ?k = "nat (if (if n > 8 then 8 else n) \<le> 0 then 1 else (if n > 8 then 8 else n))"
  have k: "mysql_mgr_clients sys [0..<?k] data_new = Inr d"
    using init unfolding mysql_mgr_init_def Let_def .
  have le: "1 \<le> ?k" "?k \<le> 8" by auto
  have "data_inv data_new" by (simp add: data_inv_def data_new_def)
  then have "data_inv d \<and> length (dv_clients d) = ?k" using mgr_clients_inv [OF k] by (simp add: data_new_def)
  then show ?thesis using data_steps_inv [OF steps] le by simp
qed

text \<open>The environment of the examples: every call succeeds, every packet is the request \<open>m\<close>, and every
  statement that has a result has one row with one field.\<close>

definition data_example :: "ss_msg \<Rightarrow> data_sys" where
  "data_example m = \<lparr>ds_call = \<lambda>_ _ _. 0, ds_store_result = \<lambda>_ _. Some [[[7, 8, 9]]], ds_ready = \<lambda>_ _. True, ds_escape = \<lambda>b. b,
     ds_recv = \<lambda>_. (3, [1, 2, 3]), ds_send = \<lambda>_ b. int (length b),
     ds_ser = \<lambda>m. Some [of_int (ss_cmd m), of_int (ss_player_idx m)], ds_parse = \<lambda>_. Some m\<rparr>"

lemma data_example_call [simp]: "mysql_call (data_example m) c f d = (0, demit (D_Call c f 0) d)"
  by (simp add: mysql_call_def data_example_def)

lemma data_example_init:
  obtains d where "mysql_mgr_init (data_example m) 2 data_new = Inr d" "data_inv d" "dv_free d = [0, 1]" "length (dv_clients d) = 2"
    "dv_buf d = replicate 10240 0"
proof -
  have "[0..<nat 2] = [0, 1]" by (simp add: upt_rec)
  then obtain d where d: "mysql_mgr_init (data_example m) 2 data_new = Inr d" "dv_buf d = replicate 10240 0"
    by (simp add: mysql_mgr_init_def mysql_client_init_def mysql_connect_def data_new_def demit_def push_free_client_def)
  have "data_inv data_new" by (simp add: data_inv_def data_new_def)
  then have "data_inv d \<and> length (dv_clients d) = 2 \<and> dv_free d = [0..<2]"
    using mgr_clients_inv [of "data_example m" 0 2 data_new d] d(1) by (simp add: mysql_mgr_init_def data_new_def)
  then show thesis using that d by (simp add: upt_rec)
qed

theorem data_reach_inv_witness:
  "\<exists>d d'. mysql_mgr_init (data_example ss_empty) 2 data_new = Inr d \<and> data_run_once (data_example ss_empty) d = Inr d' \<and>
     data_inv d' \<and> dv_free d' = [1]"
proof -
  obtain d where d: "mysql_mgr_init (data_example ss_empty) 2 data_new = Inr d" "dv_free d = [0, 1]" "dv_buf d = replicate 10240 0"
    by (rule data_example_init) blast
  have h: "map_of (data_handlers (data_example ss_empty) 0) 0 = None"
    by (simp add: data_handlers_def msg_register_def cmd_defs)
  obtain d' where d': "data_run_once (data_example ss_empty) d = Inr d'" "dv_free d' = [1]"
    using d(2,3) h by (auto simp: data_run_once_def pop_free_client_def Let_def data_example_def mem_read_def recv_into_def
        demit_def handle_request_def ss_empty_def)
  have "(data_step (data_example ss_empty))\<^sup>*\<^sup>* d d'" by (rule r_into_rtranclp) (rule data_step.main [OF d'(1)])
  then show ?thesis using data_reach_inv [OF d(1)] d(1) d' by blast
qed

section \<open>A request and its answer\<close>

lemma thread_sends:
  assumes s1: "thread_step sys c d = Inr (set_pc (Pc_Send (length b)) c (d2\<lparr>dv_send_buf := b @ x\<rparr>))" and c: "c < length (dv_clients d2)"
  obtains d' ret where "thread_loop sys c d = Inr d'" "dv_free d' = dv_free d2 @ [c]" "length (dv_clients d') = length (dv_clients d2)"
    "dv_out d' = dv_out d2 @ [D_Send b ret]"
proof -
  let ?d3 = "set_pc (Pc_Send (length b)) c (d2\<lparr>dv_send_buf := b @ x\<rparr>)"
  have at: "client_at c (dd\<lparr>dv_send_buf := x\<rparr>) = client_at c dd" for dd x by (simp add: client_at_def)
  have pc3: "mc_pc (client_at c ?d3) = Pc_Send (length b)" using c by (simp add: at)
  have buf3: "dv_send_buf ?d3 = b @ x" by simp
  let ?ret = "ds_send sys (dv_out ?d3) b"
  let ?d4 = "set_pc Pc_Free c (demit (D_Send b ?ret) ?d3)"
  have s2: "thread_step sys c ?d3 = Inr ?d4" using pc3 buf3 by (simp add: thread_step_def Let_def)
  have pc4: "mc_pc (client_at c ?d4) = Pc_Free" using c by simp
  have s3: "thread_step sys c ?d4 = Inr (push_free_client c (set_pc Pc_Loop c ?d4))" using pc4 by (simp add: thread_step_def)
  have "thread_loop sys c d = Inr (push_free_client c (set_pc Pc_Loop c ?d4))"
    using s1 pc3 s2 s3 by (simp add: thread_loop_def)
  then show thesis using that by simp
qed

lemma thread_loop_ok:
  assumes c: "c < length (dv_clients d)" and cl: "mc_pc (client_at c d) = Pc_Loop" "mc_pipe (client_at c d) = 1"
      "mc_callback (client_at c d) = Some cb"
    and env: "ds_ready sys (dv_out d) c" "\<And>es. ds_call sys es c M_Ping = 0" "\<And>es. ds_call sys es c (M_Query (mc_sql (client_at c d))) = 0"
      "\<And>es. ds_store_result sys es c = Some r"
    and m: "callback_msg cb (Some r) MYSQL_RES_OK (mc_seq (client_at c d)) (mc_player_idx (client_at c d)) = Inr m" "ds_ser sys m = Some b"
  obtains d' ret where "thread_loop sys c d = Inr d'" "dv_free d' = dv_free d @ [c]" "length (dv_clients d') = length (dv_clients d)"
    "dv_out d' = dv_out d @ [D_Call c M_Ping 0, D_Call c (M_Query (mc_sql (client_at c d))) 0, D_Send b ret]"
proof -
  let ?d1 = "upd_client c (\<lambda>cl. cl\<lparr>mc_pipe := mc_pipe cl - 1\<rparr>) d"
  let ?d2 = "demit (D_Call c (M_Query (mc_sql (client_at c d))) 0) (demit (D_Call c M_Ping 0) ?d1)"
  have s1: "thread_step sys c d = Inr (set_pc (Pc_Send (length b)) c (?d2\<lparr>dv_send_buf := b @ drop (length b) (dv_send_buf ?d2)\<rparr>))"
    using c cl env m
    by (simp add: thread_step_def mysql_do_ping_def mysql_call_def run_query_def run_callback_def Let_def)
  have c2: "c < length (dv_clients ?d2)" using c by simp
  show thesis by (rule thread_sends [OF s1 c2]) (use that in simp)
qed

text \<open>A statement without a result set.\<close>

lemma thread_loop_done:
  assumes c: "c < length (dv_clients d)" and cl: "mc_pc (client_at c d) = Pc_Loop" "mc_pipe (client_at c d) = 1"
      "mc_callback (client_at c d) = Some cb"
    and env: "ds_ready sys (dv_out d) c" "\<And>es. ds_call sys es c M_Ping = 0" "\<And>es. ds_call sys es c (M_Query (mc_sql (client_at c d))) = 0"
      "\<And>es. ds_store_result sys es c = None" "\<And>es. ds_call sys es c M_Field_Count = 0"
    and m: "callback_msg cb None MYSQL_RES_OK (mc_seq (client_at c d)) (mc_player_idx (client_at c d)) = Inr m" "ds_ser sys m = Some b"
  obtains d' ret where "thread_loop sys c d = Inr d'" "dv_free d' = dv_free d @ [c]" "length (dv_clients d') = length (dv_clients d)"
    "dv_out d' = dv_out d @ [D_Call c M_Ping 0, D_Call c (M_Query (mc_sql (client_at c d))) 0, D_Call c M_Field_Count 0, D_Send b ret]"
proof -
  let ?d1 = "upd_client c (\<lambda>cl. cl\<lparr>mc_pipe := mc_pipe cl - 1\<rparr>) d"
  let ?d2 = "demit (D_Call c M_Field_Count 0) (demit (D_Call c (M_Query (mc_sql (client_at c d))) 0) (demit (D_Call c M_Ping 0) ?d1))"
  have s1: "thread_step sys c d = Inr (set_pc (Pc_Send (length b)) c (?d2\<lparr>dv_send_buf := b @ drop (length b) (dv_send_buf ?d2)\<rparr>))"
    using c cl env m
    by (simp add: thread_step_def mysql_do_ping_def mysql_call_def run_query_def run_callback_def Let_def)
  have c2: "c < length (dv_clients ?d2)" using c by simp
  show thesis by (rule thread_sends [OF s1 c2]) (use that in simp)
qed

text \<open>A request that reaches its handler.\<close>

lemma data_run_request:
  assumes free: "dv_free d = c # cs" and recv: "ds_recv sys (dv_out d) = (int (length pkg), pkg)"
    and len: "0 < length pkg" "length pkg \<le> 1024"
  shows "data_run_once sys d = rbind (handle_request (ds_parse sys) ss_cmd (data_handlers sys c) pkg
    ((demit (D_Recv (int (length pkg))) (d\<lparr>dv_free := cs\<rparr>))\<lparr>dv_buf := pkg @ drop (length pkg) (dv_buf d)\<rparr>)) (\<lambda>(_, d'). Inr d')"
  using assms by (simp add: data_run_once_def pop_free_client_def recv_into_def Let_def mem_read_def)

definition select_player_data :: "64 word \<Rightarrow> 64 word \<Rightarrow> bytes" where
  "select_player_data uid h = sql_txt ''SELECT player_data FROM sg_data WHERE uid = '' @ to_string_u64 uid @
     sql_txt '' AND password_hash = '' @ to_string_u64 h"

lemma player_data_served:
  assumes inv: "data_inv d" and free: "dv_free d = c # cs" and recv: "ds_recv sys (dv_out d) = (int (length pkg), pkg)"
    and len: "0 < length pkg" "length pkg \<le> 1024"
    and m: "ds_parse sys pkg = Some m" "ss_cmd m = kGetPlayerDataReq" "ss_get_player_data_req m = Some \<lparr>ak_uid = uid, ak_password_hash = h\<rparr>"
    and env: "\<And>es. ds_ready sys es c" "\<And>es. ds_call sys es c M_Ping = 0" "\<And>es. ds_call sys es c (M_Query (select_player_data uid h)) = 0"
      "\<And>es. ds_store_result sys es c = Some ((blob # fs) # rows)"
    and ser: "ds_ser sys (ss_empty\<lparr>ss_cmd := kGetPlayerDataRes, ss_seq := ss_seq m, ss_player_idx := ss_player_idx m,
      ss_get_player_data_res := Some blob\<rparr>) = Some b"
  obtains d1 d2 ret where "data_run_once sys d = Inr d1" "thread_loop sys c d1 = Inr d2" "data_inv d1" "dv_free d2 = cs @ [c]"
    "dv_out d2 = dv_out d @ [D_Recv (int (length pkg)), D_Call c M_Ping 0, D_Call c (M_Query (select_player_data uid h)) 0, D_Send b ret]"
proof -
  let ?d0 = "(demit (D_Recv (int (length pkg))) (d\<lparr>dv_free := cs\<rparr>))\<lparr>dv_buf := pkg @ drop (length pkg) (dv_buf d)\<rparr>"
  let ?d1 = "mysql_process (select_player_data uid h) Get_Player_Data_Cb (ss_seq m) (ss_player_idx m) c ?d0"
  have hd: "map_of (data_handlers sys c) (ss_cmd m) = Some (on_get_player_data_req sys c)"
    using m(2) by (simp add: data_handlers_def msg_register_def cmd_defs)
  have run: "data_run_once sys d = Inr ?d1"
    using data_run_request [OF free recv len] m(1,3) hd
    by (simp add: handle_request_def on_get_player_data_req_def account_key_of_def select_player_data_def)
  note p = pop_inv [OF inv free]
  have c0: "c < length (dv_clients ?d0)" "client_at c ?d0 = client_at c d" using p(2) by (simp_all add: client_at_def demit_def)
  have at: "client_at c ?d1 = (client_at c d)\<lparr>mc_sql := select_player_data uid h, mc_callback := Some Get_Player_Data_Cb,
      mc_seq := ss_seq m, mc_player_idx := ss_player_idx m, mc_pipe := mc_pipe (client_at c d) + 1\<rparr>"
    using c0 by (simp add: mysql_process_def)
  have c1: "c < length (dv_clients ?d1)" using c0 by (simp add: mysql_process_def)
  have cl: "mc_pc (client_at c ?d1) = Pc_Loop" "mc_pipe (client_at c ?d1) = 1" "mc_callback (client_at c ?d1) = Some Get_Player_Data_Cb"
    using p(4,5) at by simp_all
  let ?ans = "ss_empty\<lparr>ss_cmd := kGetPlayerDataRes, ss_seq := ss_seq m, ss_player_idx := ss_player_idx m, ss_get_player_data_res := Some blob\<rparr>"
  have cb: "callback_msg Get_Player_Data_Cb (Some ((blob # fs) # rows)) MYSQL_RES_OK (mc_seq (client_at c ?d1)) (mc_player_idx (client_at c ?d1)) = Inr ?ans"
    using at by (simp add: get_player_data_mysql_res_def Let_def ss_empty_def)
  have q: "\<And>es. ds_call sys es c (M_Query (mc_sql (client_at c ?d1))) = 0" using env(3) at by simp
  obtain d2 ret where "thread_loop sys c ?d1 = Inr d2" "dv_free d2 = dv_free ?d1 @ [c]"
    "dv_out d2 = dv_out ?d1 @ [D_Call c M_Ping 0, D_Call c (M_Query (mc_sql (client_at c ?d1))) 0, D_Send b ret]"
    by (rule thread_loop_ok [OF c1 cl env(1,2) q env(4) cb ser])
  moreover have "dv_free ?d1 = cs" "dv_out ?d1 = dv_out d @ [D_Recv (int (length pkg))]" by (simp_all add: mysql_process_def demit_def)
  ultimately show thesis using that [of ?d1 d2 ret] run data_run_once_inv(1) [OF inv run] at by simp
qed

definition update_player_data :: "64 word \<Rightarrow> bytes \<Rightarrow> bytes" where
  "update_player_data uid esc = sql_txt ''UPDATE sg_data SET player_data='' @ [34] @ esc @ [34] @ sql_txt ''WHERE uid = '' @ to_string_u64 uid"

lemma player_saved:
  assumes inv: "data_inv d" and free: "dv_free d = c # cs" and recv: "ds_recv sys (dv_out d) = (int (length pkg), pkg)"
    and len: "0 < length pkg" "length pkg \<le> 1024"
    and m: "ds_parse sys pkg = Some m" "ss_cmd m = kSetPlayerDataReq" "ss_set_player_data_req m = Some \<lparr>spq_uid = uid, spq_player_data = blob\<rparr>"
    and esc: "convert_bin_to_string sys blob = Inr esc"
    and env: "\<And>es. ds_ready sys es c" "\<And>es. ds_call sys es c M_Ping = 0" "\<And>es. ds_call sys es c (M_Query (update_player_data uid esc)) = 0"
      "\<And>es. ds_store_result sys es c = None" "\<And>es. ds_call sys es c M_Field_Count = 0"
    and ser: "ds_ser sys (set_player_data_mysql_res MYSQL_RES_OK (ss_seq m) (ss_player_idx m)) = Some b"
  obtains d1 d2 ret where "data_run_once sys d = Inr d1" "thread_loop sys c d1 = Inr d2" "data_inv d1" "dv_free d2 = cs @ [c]"
    "dv_out d2 = dv_out d @ [D_Recv (int (length pkg)), D_Call c M_Ping 0, D_Call c (M_Query (update_player_data uid esc)) 0,
       D_Call c M_Field_Count 0, D_Send b ret]"
proof -
  let ?d0 = "(demit (D_Recv (int (length pkg))) (d\<lparr>dv_free := cs\<rparr>))\<lparr>dv_buf := pkg @ drop (length pkg) (dv_buf d)\<rparr>"
  let ?d1 = "mysql_process (update_player_data uid esc) Set_Player_Data_Cb (ss_seq m) (ss_player_idx m) c ?d0"
  have hd: "map_of (data_handlers sys c) (ss_cmd m) = Some (on_set_player_data_req sys c)"
    using m(2) by (simp add: data_handlers_def msg_register_def cmd_defs)
  have run: "data_run_once sys d = Inr ?d1"
    using data_run_request [OF free recv len] m(1,3) hd esc
    by (simp add: handle_request_def on_set_player_data_req_def update_player_data_def)
  note p = pop_inv [OF inv free]
  have c0: "c < length (dv_clients ?d0)" "client_at c ?d0 = client_at c d" using p(2) by (simp_all add: client_at_def demit_def)
  have at: "client_at c ?d1 = (client_at c d)\<lparr>mc_sql := update_player_data uid esc, mc_callback := Some Set_Player_Data_Cb,
      mc_seq := ss_seq m, mc_player_idx := ss_player_idx m, mc_pipe := mc_pipe (client_at c d) + 1\<rparr>"
    using c0 by (simp add: mysql_process_def)
  have c1: "c < length (dv_clients ?d1)" using c0 by (simp add: mysql_process_def)
  have cl: "mc_pc (client_at c ?d1) = Pc_Loop" "mc_pipe (client_at c ?d1) = 1" "mc_callback (client_at c ?d1) = Some Set_Player_Data_Cb"
    using p(4,5) at by simp_all
  have cb: "callback_msg Set_Player_Data_Cb None MYSQL_RES_OK (mc_seq (client_at c ?d1)) (mc_player_idx (client_at c ?d1)) =
      Inr (set_player_data_mysql_res MYSQL_RES_OK (ss_seq m) (ss_player_idx m))" using at by simp
  have q: "\<And>es. ds_call sys es c (M_Query (mc_sql (client_at c ?d1))) = 0" using env(3) at by simp
  obtain d2 ret where "thread_loop sys c ?d1 = Inr d2" "dv_free d2 = dv_free ?d1 @ [c]"
    "dv_out d2 = dv_out ?d1 @ [D_Call c M_Ping 0, D_Call c (M_Query (mc_sql (client_at c ?d1))) 0, D_Call c M_Field_Count 0, D_Send b ret]"
    by (rule thread_loop_done [OF c1 cl env(1,2) q env(4,5) cb ser])
  moreover have "dv_free ?d1 = cs" "dv_out ?d1 = dv_out d @ [D_Recv (int (length pkg))]" by (simp_all add: mysql_process_def demit_def)
  ultimately show thesis using that [of ?d1 d2 ret] run data_run_once_inv(1) [OF inv run] at by simp
qed

text \<open>A request for the data of a player, when the database answers its statement with a row, is
  answered with the first field of that row, under the sequence number and player index of the
  request, and its client is free again.\<close>

theorem get_player_data_flow:
  assumes inv: "data_inv d" and free: "dv_free d = c # cs" and recv: "ds_recv sys (dv_out d) = (int (length pkg), pkg)"
    and len: "0 < length pkg" "length pkg \<le> 1024"
    and m: "ds_parse sys pkg = Some m" "ss_cmd m = kGetPlayerDataReq" "ss_get_player_data_req m = Some \<lparr>ak_uid = uid, ak_password_hash = h\<rparr>"
    and env: "\<And>es. ds_ready sys es c" "\<And>es. ds_call sys es c M_Ping = 0" "\<And>es. ds_call sys es c (M_Query (select_player_data uid h)) = 0"
      "\<And>es. ds_store_result sys es c = Some ((blob # fs) # rows)"
    and ser: "ds_ser sys (ss_empty\<lparr>ss_cmd := kGetPlayerDataRes, ss_seq := ss_seq m, ss_player_idx := ss_player_idx m,
      ss_get_player_data_res := Some blob\<rparr>) = Some b"
  shows "\<exists>d1 d2 ret. data_run_once sys d = Inr d1 \<and> thread_loop sys c d1 = Inr d2 \<and> data_inv d1 \<and> dv_free d2 = cs @ [c] \<and>
    dv_out d2 = dv_out d @ [D_Recv (int (length pkg)), D_Call c M_Ping 0, D_Call c (M_Query (select_player_data uid h)) 0, D_Send b ret]"
  by (rule player_data_served [OF inv free recv len m env ser]) blast

definition example_get :: ss_msg where
  "example_get = ss_empty\<lparr>ss_cmd := kGetPlayerDataReq, ss_seq := 41, ss_player_idx := 6,
     ss_get_player_data_req := Some \<lparr>ak_uid = 77, ak_password_hash = 88\<rparr>\<rparr>"

theorem get_player_data_flow_witness:
  "\<exists>d d1 d2 r. data_run_once (data_example example_get) d = Inr d1 \<and> thread_loop (data_example example_get) 0 d1 = Inr d2 \<and>
     last (dv_out d2) = D_Send [20, 6] r \<and> dv_free d2 = [1, 0]"
proof -
  obtain d where d: "data_inv d" "dv_free d = 0 # [1]" by (rule data_example_init [of example_get]) simp
  let ?sys = "data_example example_get"
  have recv: "ds_recv ?sys (dv_out d) = (int (length [1, 2, 3 :: byte]), [1, 2, 3])" by (simp add: data_example_def)
  have len: "0 < length [1, 2, 3 :: byte]" "length [1, 2, 3 :: byte] \<le> 1024" by simp_all
  have m: "ds_parse ?sys [1, 2, 3] = Some example_get" "ss_cmd example_get = kGetPlayerDataReq"
    "ss_get_player_data_req example_get = Some \<lparr>ak_uid = 77, ak_password_hash = 88\<rparr>"
    by (simp_all add: data_example_def example_get_def)
  have env: "\<And>es. ds_ready ?sys es 0" "\<And>es. ds_call ?sys es 0 M_Ping = 0" "\<And>es. ds_call ?sys es 0 (M_Query (select_player_data 77 88)) = 0"
    "\<And>es. ds_store_result ?sys es 0 = Some (([7, 8, 9] # []) # [])" by (simp_all add: data_example_def)
  have ser: "ds_ser ?sys (ss_empty\<lparr>ss_cmd := kGetPlayerDataRes, ss_seq := ss_seq example_get, ss_player_idx := ss_player_idx example_get,
      ss_get_player_data_res := Some [7, 8, 9]\<rparr>) = Some [20, 6]"
    by (simp add: data_example_def example_get_def kGetPlayerDataRes_def)
  show ?thesis using get_player_data_flow [OF d recv len m env ser] by fastforce
qed

text \<open>The answer to \<open>AccountVerifyReq\<close> carries the player index as its sequence number, and no index.\<close>

theorem account_verify_loses_seq:
  "callback_msg Account_Verify_Cb res flags seq_id player_idx = Inr m \<Longrightarrow>
   ss_seq m = word_of_int player_idx \<and> ss_player_idx m = 0"
  by (auto simp: account_verify_mysql_res_def ss_empty_def)

section \<open>What is lost\<close>

text \<open>\<open>SendMsg\<close> serialises into a static buffer that the threads of all clients share: when a second
  answer of the same length is serialised before the first one is sent, the second answer is sent
  twice and the first one never.\<close>

theorem send_buffer_race:
  assumes c: "c1 \<noteq> c2" "c1 < length (dv_clients d)" "c2 < length (dv_clients d)"
    and first: "mc_pc (client_at c1 d) = Pc_Send n" "dv_send_buf d = b1 @ rest" "length b1 = n"
    and second: "mc_callback (client_at c2 d) = Some cb"
      "callback_msg cb res flags (mc_seq (client_at c2 d)) (mc_player_idx (client_at c2 d)) = Inr m" "ds_ser sys m = Some b2" "length b2 = n"
  shows "\<exists>d1 d2 d3 r r'. run_callback sys c2 res flags d = Inr d1 \<and> thread_step sys c1 d1 = Inr d2 \<and> thread_step sys c2 d2 = Inr d3 \<and>
    dv_out d3 = dv_out d @ [D_Send b2 r, D_Send b2 r']"
proof -
  let ?d1 = "set_pc (Pc_Send (length b2)) c2 (d\<lparr>dv_send_buf := b2 @ drop (length b2) (dv_send_buf d)\<rparr>)"
  have at: "client_at c (dd\<lparr>dv_send_buf := x\<rparr>) = client_at c dd" for c dd x by (simp add: client_at_def)
  have r1: "run_callback sys c2 res flags d = Inr ?d1" using second by (simp add: run_callback_def)
  have pc: "mc_pc (client_at c1 ?d1) = Pc_Send n" "mc_pc (client_at c2 ?d1) = Pc_Send n"
    using c first(1) second(4) by (simp_all add: at)
  have buf: "take n (dv_send_buf ?d1) = b2" using second(4) by simp
  let ?d2 = "set_pc Pc_Free c1 (demit (D_Send b2 (ds_send sys (dv_out ?d1) b2)) ?d1)"
  have r2: "thread_step sys c1 ?d1 = Inr ?d2" using pc(1) buf by (simp add: thread_step_def Let_def)
  have pc2: "mc_pc (client_at c2 ?d2) = Pc_Send n" and buf2: "take n (dv_send_buf ?d2) = b2" using c(1) pc(2) buf by simp_all
  let ?d3 = "set_pc Pc_Free c2 (demit (D_Send b2 (ds_send sys (dv_out ?d2) b2)) ?d2)"
  have r3: "thread_step sys c2 ?d2 = Inr ?d3" using pc2 buf2 by (simp add: thread_step_def Let_def)
  have "dv_out ?d3 = dv_out d @ [D_Send b2 (ds_send sys (dv_out ?d1) b2), D_Send b2 (ds_send sys (dv_out ?d2) b2)]" by simp
  then show ?thesis using r1 r2 r3 by blast
qed

definition racing :: datasvr where
  "racing = \<lparr>dv_clients = [new_client\<lparr>mc_pc := Pc_Send 2\<rparr>,
       new_client\<lparr>mc_callback := Some Set_Player_Data_Cb, mc_seq := 9, mc_player_idx := 4\<rparr>],
     dv_free = [], dv_buf = [], dv_send_buf = [20, 3, 0, 0], dv_out = []\<rparr>"

theorem send_buffer_race_witness:
  "\<exists>d1 d2 d3 r r'. run_callback (data_example ss_empty) 1 None MYSQL_RES_OK racing = Inr d1 \<and>
     thread_step (data_example ss_empty) 0 d1 = Inr d2 \<and> thread_step (data_example ss_empty) 1 d2 = Inr d3 \<and>
     dv_out d3 = dv_out racing @ [D_Send [22, 4] r, D_Send [22, 4] r']"
proof -
  have c: "(0 :: nat) \<noteq> 1" "0 < length (dv_clients racing)" "1 < length (dv_clients racing)" by (simp_all add: racing_def)
  have first: "mc_pc (client_at 0 racing) = Pc_Send 2" "dv_send_buf racing = [20, 3] @ [0, 0]" "length [20, 3 :: byte] = 2"
    by (simp_all add: racing_def client_at_def)
  let ?m = "set_player_data_mysql_res MYSQL_RES_OK 9 4"
  have second: "mc_callback (client_at 1 racing) = Some Set_Player_Data_Cb"
    "callback_msg Set_Player_Data_Cb None MYSQL_RES_OK (mc_seq (client_at 1 racing)) (mc_player_idx (client_at 1 racing)) = Inr ?m"
    "ds_ser (data_example ss_empty) ?m = Some [22, 4]" "length [22, 4 :: byte] = 2"
    by (simp_all add: racing_def client_at_def set_player_data_mysql_res_def data_example_def kSetPlayerDataRes_def)
  show ?thesis by (rule send_buffer_race [OF c first second])
qed

text \<open>When the statement of a request fails for another reason than a duplicate key, the request is
  never answered, whether the second attempt succeeds or not: the client is put back, and the
  logic that waits in the game server runs into its time-out.\<close>

theorem failed_query_unanswered:
  assumes c: "c < length (dv_clients d)" and cl: "mc_pc (client_at c d) = Pc_Loop" "mc_pipe (client_at c d) = 1"
    and env: "ds_ready sys (dv_out d) c" "ds_call sys (dv_out d) c M_Ping = 0"
    and fail: "ds_call sys (dv_out d @ [D_Call c M_Ping 0]) c (M_Query (mc_sql (client_at c d))) = err" "err \<noteq> 0"
      "ds_call sys (dv_out d @ [D_Call c M_Ping 0, D_Call c (M_Query (mc_sql (client_at c d))) err]) c M_Errno \<notin> {ER_DUP_ENTRY, ER_DUP_KEYNAME}"
  shows "\<exists>d' es. thread_loop sys c d = Inr d' \<and> dv_free d' = dv_free d @ [c] \<and> dv_out d' = dv_out d @ es \<and> (\<forall>e\<in>set es. is_call e)"
proof -
  let ?d1 = "upd_client c (\<lambda>cl. cl\<lparr>mc_pipe := mc_pipe cl - 1\<rparr>) d"
  let ?d2 = "demit (D_Call c M_Ping 0) ?d1"
  let ?sql = "mc_sql (client_at c d)"
  let ?d3 = "demit (D_Call c (M_Query ?sql) err) ?d2"
  obtain e where e: "ds_call sys (dv_out ?d3) c M_Errno = e" "e \<noteq> ER_DUP_ENTRY" "e \<noteq> ER_DUP_KEYNAME" using fail(3) by simp
  let ?d4 = "demit (D_Call c M_Errno e) ?d3"
  have st: "thread_step sys c d = Inr (retry_query sys c ?d4)"
    using c cl env fail(1,2) e
    by (simp add: thread_step_def mysql_do_ping_def mysql_call_def run_query_def Let_def)
  obtain r5 d5 where m5: "mysql_connect sys c (demit (D_Close c) ?d4) = (r5, d5)" by (cases "mysql_connect sys c (demit (D_Close c) ?d4)")
  obtain q d6 where m6: "mysql_call sys c (M_Query (mc_sql (client_at c ?d4))) d5 = (q, d6)"
    by (cases "mysql_call sys c (M_Query (mc_sql (client_at c ?d4))) d5")
  obtain r7 d7 where m7: "mysql_connect sys c (demit (D_Close c) d6) = (r7, d7)" by (cases "mysql_connect sys c (demit (D_Close c) d6)")
  have o4: "only_calls ?d1 ?d4" by (intro only_calls_demit) (simp_all add: is_call_def)
  then have "only_calls ?d1 d5" by (intro only_calls_connect [OF m5] only_calls_demit) (simp_all add: is_call_def)
  then have o6: "only_calls ?d1 d6" by (rule only_calls_call [OF m6])
  then have o7: "only_calls ?d1 d7" by (intro only_calls_connect [OF m7] only_calls_demit) (simp_all add: is_call_def)
  define d8 where "d8 = (if q \<noteq> 0 then d7 else d6)"
  have o8: "only_calls ?d1 d8" using o6 o7 by (simp add: d8_def)
  have rq: "retry_query sys c ?d4 = set_pc Pc_Free c d8" using m5 m6 m7 by (simp add: retry_query_def d8_def)
  have c8: "c < length (dv_clients d8)" using only_callsD(1) [OF o8] c by simp
  have "mc_pc (client_at c (set_pc Pc_Free c d8)) = Pc_Free" using c8 by simp
  then have "thread_loop sys c d = Inr (push_free_client c (set_pc Pc_Loop c (set_pc Pc_Free c d8)))"
    using st rq by (simp add: thread_loop_def) (simp add: thread_step_def)
  moreover obtain es where "dv_out d8 = dv_out d @ es" "\<forall>e\<in>set es. is_call e" using only_callsD(6) [OF o8] by auto
  ultimately show ?thesis using only_callsD(2) [OF o8] by (intro exI conjI) (assumption | simp)+
qed

definition data_broken :: data_sys where
  "data_broken = (data_example ss_empty)\<lparr>ds_call := \<lambda>_ _ f. case f of M_Query _ \<Rightarrow> 1 | M_Errno \<Rightarrow> 2013 | _ \<Rightarrow> 0\<rparr>"

theorem failed_query_unanswered_witness:
  "\<exists>d d' es. mc_pipe (client_at 0 d) = 1 \<and> thread_loop data_broken 0 d = Inr d' \<and> dv_free d' = [0] \<and>
     dv_out d' = dv_out d @ es \<and> (\<forall>e\<in>set es. is_call e)"
proof -
  let ?d = "racing\<lparr>dv_clients := [new_client\<lparr>mc_callback := Some Set_Player_Data_Cb, mc_pipe := 1\<rparr>]\<rparr>"
  have "0 < length (dv_clients ?d)" "mc_pc (client_at 0 ?d) = Pc_Loop" "mc_pipe (client_at 0 ?d) = 1"
    "ds_ready data_broken (dv_out ?d) 0" "ds_call data_broken (dv_out ?d) 0 M_Ping = 0"
    "ds_call data_broken (dv_out ?d @ [D_Call 0 M_Ping 0]) 0 (M_Query (mc_sql (client_at 0 ?d))) = 1" "(1 :: int) \<noteq> 0"
    "ds_call data_broken (dv_out ?d @ [D_Call 0 M_Ping 0, D_Call 0 (M_Query (mc_sql (client_at 0 ?d))) 1]) 0 M_Errno \<notin> {ER_DUP_ENTRY, ER_DUP_KEYNAME}"
    by (simp_all add: racing_def client_at_def new_client_def data_broken_def data_example_def ER_DUP_ENTRY_def ER_DUP_KEYNAME_def)
  from failed_query_unanswered [OF this] obtain d' es where "thread_loop data_broken 0 ?d = Inr d'" "dv_free d' = dv_free ?d @ [0]"
    "dv_out d' = dv_out ?d @ es" "\<forall>e\<in>set es. is_call e" by blast
  moreover have "mc_pipe (client_at 0 ?d) = 1" "dv_free ?d = []" by (simp_all add: racing_def client_at_def)
  ultimately show ?thesis by (intro exI [of _ ?d] exI [of _ d'] exI [of _ es]) simp
qed

text \<open>Packets that cannot be parsed.\<close>

definition data_idle :: "datasvr \<Rightarrow> bool" where
  "data_idle d \<longleftrightarrow> (\<forall>c<length (dv_clients d). mc_pipe (client_at c d) = 0 \<and> mc_pc (client_at c d) = Pc_Loop)"

lemma bad_packets_drain:
  assumes recv: "\<And>es. ds_recv sys es = (int (length pkg), pkg)" and len: "0 < length pkg" "length pkg \<le> 1024" and bad: "ds_parse sys pkg = None"
  shows "\<exists>d'. data_run_times sys (length (dv_free d)) d = Inr d' \<and> dv_free d' = [] \<and> dv_clients d' = dv_clients d"
proof (induction "dv_free d" arbitrary: d)
  case Nil
  then show ?case by (intro exI [of _ d]) simp
next
  case (Cons c cs)
  let ?d1 = "(demit (D_Recv (int (length pkg))) (d\<lparr>dv_free := cs\<rparr>))\<lparr>dv_buf := pkg @ drop (length pkg) (dv_buf d)\<rparr>"
  have run: "data_run_once sys d = Inr ?d1"
    using data_run_request [OF Cons.hyps(2) [symmetric] recv len] bad by (simp add: handle_request_def)
  have "cs = dv_free ?d1" by (simp add: demit_def)
  then obtain d' where "data_run_times sys (length cs) ?d1 = Inr d'" "dv_free d' = []" "dv_clients d' = dv_clients ?d1"
    using Cons.hyps(1) [of ?d1] by auto
  then show ?case using run Cons.hyps(2) [symmetric] by (simp add: demit_def)
qed

lemma data_idle_dead:
  assumes steps: "(data_step sys)\<^sup>*\<^sup>* d d'" and dead: "data_idle d" "dv_free d = []"
  shows "dv_free d' = [] \<and> dv_clients d' = dv_clients d \<and> (\<exists>k. dv_out d' = dv_out d @ replicate k D_Sleep)"
  using steps
proof (induction rule: rtranclp_induct)
  case base
  show ?case using dead(2) by (auto intro: exI [of _ 0])
next
  case (step y z)
  then obtain k where k: "dv_out y = dv_out d @ replicate k D_Sleep" by blast
  from step(2) show ?case
  proof cases
    case main
    then have z: "z = demit D_Sleep y" using step(3) by (simp add: data_run_once_def pop_free_client_def)
    have "dv_out z = dv_out d @ replicate (Suc k) D_Sleep" using z k by (simp add: replicate_append_same)
    moreover have "dv_free z = []" "dv_clients z = dv_clients d" using step(3) z by simp_all
    ultimately show ?thesis by blast
  next
    case (thread c)
    then have "c < length (dv_clients d)" using step(3) by simp
    then have "mc_pipe (client_at c y) = 0" "mc_pc (client_at c y) = Pc_Loop"
      using dead(1) step(3) by (simp_all add: data_idle_def client_at_def)
    then have "z = y" using thread(2) by (simp add: thread_step_def)
    then show ?thesis using step(3) by simp
  qed
qed

text \<open>C37: A client that was taken for a packet that cannot be parsed is never put back: as many such
  packets as there are free clients bring an idle data server to a state from which it never
  receives a request or sends an answer again.\<close>

theorem bad_packets_stop_datasvr:
  assumes idle: "data_idle d" and recv: "\<And>es. ds_recv sys es = (int (length pkg), pkg)"
    and len: "0 < length pkg" "length pkg \<le> 1024" and bad: "ds_parse sys pkg = None"
  shows "\<exists>d1. data_run_times sys (length (dv_free d)) d = Inr d1 \<and>
    (\<forall>d2. (data_step sys)\<^sup>*\<^sup>* d1 d2 \<longrightarrow> (\<exists>k. dv_out d2 = dv_out d1 @ replicate k D_Sleep))"
proof -
  obtain d1 where d1: "data_run_times sys (length (dv_free d)) d = Inr d1" "dv_free d1 = []" "dv_clients d1 = dv_clients d"
    using bad_packets_drain [OF recv len bad] by blast
  have "data_idle d1" using idle d1(3) by (simp add: data_idle_def client_at_def)
  then show ?thesis using data_idle_dead [OF _ _ d1(2)] d1(1) by blast
qed

theorem bad_packets_stop_datasvr_witness:
  "\<exists>d d1. dv_free d = [0, 1] \<and> data_run_times ((data_example ss_empty)\<lparr>ds_parse := \<lambda>_. None\<rparr>) 2 d = Inr d1 \<and>
     (\<forall>d2. (data_step ((data_example ss_empty)\<lparr>ds_parse := \<lambda>_. None\<rparr>))\<^sup>*\<^sup>* d1 d2 \<longrightarrow> (\<exists>k. dv_out d2 = dv_out d1 @ replicate k D_Sleep))"
proof -
  let ?sys = "(data_example ss_empty)\<lparr>ds_parse := \<lambda>_. None\<rparr>"
  let ?d = "racing\<lparr>dv_clients := [new_client, new_client], dv_free := [0, 1]\<rparr>"
  have idle: "data_idle ?d" by (auto simp: data_idle_def client_at_def new_client_def less_Suc_eq numeral_2_eq_2)
  have "\<And>es. ds_recv ?sys es = (int (length [1, 2, 3 :: byte]), [1, 2, 3])" "0 < length [1, 2, 3 :: byte]"
    "length [1, 2, 3 :: byte] \<le> 1024" "ds_parse ?sys [1, 2, 3] = None" by (simp_all add: data_example_def)
  from bad_packets_stop_datasvr [OF idle this] have
    "\<exists>d1. data_run_times ?sys 2 ?d = Inr d1 \<and> (\<forall>d2. (data_step ?sys)\<^sup>*\<^sup>* d1 d2 \<longrightarrow> (\<exists>k. dv_out d2 = dv_out d1 @ replicate k D_Sleep))"
    by (simp add: numeral_2_eq_2)
  moreover have "dv_free ?d = [0, 1]" by simp
  ultimately show ?thesis by blast
qed

end
