(* ===== verification/Login_Flow.thy ===== *)
theory Login_Flow
  imports Game_Flows Data_Svr_Props
begin

text \<open>
  A login and a logout across two processes: the packet of connsvr at \<open>gamesvr\<close>, the request that it sends to
  \<open>datasvr\<close>, the statement there, and the answer back at \<open>gamesvr\<close>. The two servers share the messages of
  \<open>ss_msg.proto\<close>; a message is carried when what one side serialises is what the other side parses.
\<close>

definition carried :: "(ss_msg \<Rightarrow> bytes option) \<Rightarrow> (bytes \<Rightarrow> ss_msg option) \<Rightarrow> ss_msg \<Rightarrow> bool" where
  "carried ser parse m \<longleftrightarrow> (\<exists>b. ser m = Some b \<and> parse b = Some m \<and> 0 < length b \<and> length b \<le> 1024)"

definition data_res :: "64 word \<Rightarrow> int \<Rightarrow> bytes \<Rightarrow> ss_msg" where
  "data_res n i blob = ss_empty\<lparr>ss_cmd := kGetPlayerDataRes, ss_seq := n, ss_player_idx := i, ss_get_player_data_res := Some blob\<rparr>"

lemma data_res_simps [simp]:
  "ss_cmd (data_res n i blob) = kGetPlayerDataRes" "ss_seq (data_res n i blob) = n" "ss_ret (data_res n i blob) = 0"
  "ss_get_player_data_res (data_res n i blob) = Some blob" "ss_player_idx (data_res n i blob) = i"
  by (simp_all add: data_res_def ss_empty_def)

text \<open>A client of the database that works: its thread is scheduled, and the row is there.\<close>

definition row_there :: "data_sys \<Rightarrow> nat \<Rightarrow> 64 word \<Rightarrow> 64 word \<Rightarrow> bytes \<Rightarrow> bool" where
  "row_there dsys c uid h blob \<longleftrightarrow> (\<forall>es. ds_ready dsys es c \<and> ds_call dsys es c M_Ping = 0 \<and>
     ds_call dsys es c (M_Query (select_player_data uid h)) = 0 \<and> ds_store_result dsys es c = Some [[blob]])"

text \<open>A request that waits is served by datasvr, and its answer loads the player.\<close>

lemma login_served:
  assumes inv: "logic_inv w" "obj_inv w" and i: "i \<in> players w" "cities_of (the_player w i) = []"
    and ld: "get_logic_data logic_id w = Some ld" "awaiting_data ld i uid h seq"
    and map: "smap_ok (uid_to_player_idx_map w)" "map_of (uid_to_player_idx_map w) uid = None"
    and req: "ds_parse dsys b = Some (get_player_data_req (word_of_int logic_id) i uid h)" "0 < length b" "length b \<le> 1024"
    and ans: "carried (ds_ser dsys) (gs_parse_ss sys) (data_res (word_of_int logic_id) i blob)"
    and datasvr: "data_inv d" "dv_free d = c # cs" "row_there dsys c uid h blob"
    and recv: "ds_recv dsys (dv_out d) = (int (length b), b)"
    and cities: "length (pd_city_list (gs_parse_pd sys blob)) \<le> 99"
      "card (cities w) + length (pd_city_list (gs_parse_pd sys blob)) \<le> nat (total_unit_count (city_pool w))"
  obtains d1 d2 ans r w2 where "data_run_once dsys d = Inr d1" "thread_loop dsys c d1 = Inr d2" "last (dv_out d2) = D_Send ans r"
    "dv_free d2 = cs @ [c]" "handle_ss sys ans A_Null w = Inr (0, w2)" "logic_inv w2" "obj_inv w2"
    "snapshot w2 i = forget_ids (gs_parse_pd sys blob)" "find_player_idx_by_uid uid w2 = i"
    "\<exists>es. es = sent_conn sys (login_ok seq) CONN_START (p_conn_fd (the_player w i)) i (gout w) \<and>
       gout w2 = gout w @ es @ sent_conn sys (role_info_ntf (pd_role_info (gs_parse_pd sys blob))) CONN_PROC
         (p_conn_fd (the_player w i)) i (gout w @ es)"
proof -
  let ?req = "get_player_data_req (word_of_int logic_id) i uid h" and ?ans = "data_res (word_of_int logic_id) i blob"
  obtain ans where a: "ds_ser dsys ?ans = Some ans" "gs_parse_ss sys ans = Some ?ans" using ans unfolding carried_def by blast
  have q: "ss_cmd ?req = kGetPlayerDataReq" "ss_get_player_data_req ?req = Some \<lparr>ak_uid = uid, ak_password_hash = h\<rparr>"
    "ss_seq ?req = word_of_int logic_id" "ss_player_idx ?req = i"
    by (simp_all add: get_player_data_req_def)
  have env: "ds_ready dsys es c" "ds_call dsys es c M_Ping = 0" "ds_call dsys es c (M_Query (select_player_data uid h)) = 0"
    "ds_store_result dsys es c = Some ((blob # []) # [])" for es
    using datasvr(3) by (simp_all add: row_there_def)
  have ser: "ds_ser dsys (ss_empty\<lparr>ss_cmd := kGetPlayerDataRes, ss_seq := ss_seq ?req, ss_player_idx := ss_player_idx ?req,
      ss_get_player_data_res := Some blob\<rparr>) = Some ans"
    using a(1) q(3,4) by (simp add: data_res_def)
  obtain d1 d2 ret where f: "data_run_once dsys d = Inr d1" "thread_loop dsys c d1 = Inr d2" "dv_free d2 = cs @ [c]"
    "dv_out d2 = dv_out d @ [D_Recv (int (length b)), D_Call c M_Ping 0, D_Call c (M_Query (select_player_data uid h)) 0, D_Send ans ret]"
    by (rule player_data_served [OF datasvr(1,2) recv req(2,3,1) q(1,2) env ser])
  have r: "gs_parse_ss sys ans = Some ?ans" "ss_cmd ?ans = kGetPlayerDataRes" "ss_seq ?ans = word_of_int logic_id" "ss_ret ?ans = 0"
    "ss_get_player_data_res ?ans = Some blob" "gs_parse_pd sys blob = gs_parse_pd sys blob" using a(2) by simp_all
  have sends: "last (dv_out d2) = D_Send ans ret" by (simp add: f(4))
  show thesis by (rule login_answered [OF inv ld i r cities map]) (rule that [OF f(1,2) sends f(3)])
qed

text \<open>C3: A login through both servers: \<open>gamesvr\<close> sends datasvr one packet; if zmq delivers it, datasvr runs the
  statement for the account on a free client and sends one packet back; and that packet at \<open>gamesvr\<close> loads the
  player with exactly what the row holds but the ids of its cities, binds the account to the player, and sends
  the client a \<open>LoginRes\<close> and a \<open>RoleInfoNtf\<close> with those values.\<close>

theorem login_through_datasvr:
  assumes inv: "logic_inv w" "obj_inv w" and room: "heap_size (logic_timer w) < 1073741824"
    and mem: "\<And>es sz. gs_malloc sys es sz \<noteq> None"
    and i: "cd_player_idx cd = i" "i \<in> players w" "cities_of (the_player w i) = []"
    and m: "gs_parse_cs sys pkg = Some m" "cs_cmd m = kLoginReq" "cs_login_req m = Some \<lparr>am_account = account, am_password = password\<rparr>"
    and ok: "check_account account (int (length account)) = Inr 0" "check_password password (int (length password)) = Inr 0"
    and map: "smap_ok (uid_to_player_idx_map w)" "map_of (uid_to_player_idx_map w) (fnv64a_hash account) = None"
    and wire: "\<And>n. carried (gs_ser_ss sys) (ds_parse dsys) (get_player_data_req n i (fnv64a_hash account) (fnv64a_hash password))"
      "\<And>n. carried (ds_ser dsys) (gs_parse_ss sys) (data_res n i blob)"
    and datasvr: "data_inv d" "dv_free d = c # cs" "row_there dsys c (fnv64a_hash account) (fnv64a_hash password) blob"
    and cities: "length (pd_city_list (gs_parse_pd sys blob)) \<le> 99"
      "card (cities w) + length (pd_city_list (gs_parse_pd sys blob)) \<le> nat (total_unit_count (city_pool w))"
  shows "\<exists>b r w1. handle_cs sys pkg (A_Conn cd) w = Inr (0, w1) \<and> gout w1 = gout w @ [G_Data b r] \<and>
    (ds_recv dsys (dv_out d) = (int (length b), b) \<longrightarrow>
     (\<exists>d1 d2 ans r' w2. data_run_once dsys d = Inr d1 \<and> thread_loop dsys c d1 = Inr d2 \<and> last (dv_out d2) = D_Send ans r' \<and>
        dv_free d2 = cs @ [c] \<and> handle_ss sys ans A_Null w1 = Inr (0, w2) \<and> logic_inv w2 \<and> obj_inv w2 \<and>
        snapshot w2 i = forget_ids (gs_parse_pd sys blob) \<and> find_player_idx_by_uid (fnv64a_hash account) w2 = i \<and>
        (\<exists>es. es = sent_conn sys (login_ok (cs_seq m)) CONN_START (p_conn_fd (the_player w i)) i (gout w1) \<and>
           gout w2 = gout w1 @ es @ sent_conn sys (role_info_ntf (pd_role_info (gs_parse_pd sys blob))) CONN_PROC
             (p_conn_fd (the_player w i)) i (gout w1 @ es))))"
proof -
  let ?uid = "fnv64a_hash account" and ?h = "fnv64a_hash password"
  have off: "find_player_idx_by_uid ?uid w \<le> 0" by (simp add: find_player_idx_by_uid_def map(2))
  have i': "cd_player_idx cd \<in> players w" using i(1,2) by simp
  obtain logic_id ld w1 where s: "handle_cs sys pkg (A_Conn cd) w = Inr (0, w1)" "logic_inv w1" "obj_inv w1"
    "get_logic_data logic_id w1 = Some ld" "awaiting_data ld (cd_player_idx cd) ?uid ?h (cs_seq m)"
    "player_pool w1 = player_pool w" "city_pool w1 = city_pool w" "uid_to_player_idx_map w1 = uid_to_player_idx_map w"
    "gout w1 = gout w @ sent_data sys (get_player_data_req (word_of_int logic_id) (cd_player_idx cd) ?uid ?h) (gout w)"
    by (rule login_requested [OF inv room mem i' m ok off])
  let ?req = "get_player_data_req (word_of_int logic_id) i ?uid ?h"
  obtain b where b: "gs_ser_ss sys ?req = Some b" "ds_parse dsys b = Some ?req" "0 < length b" "length b \<le> 1024"
    using wire(1) unfolding carried_def by blast
  have sent: "gout w1 = gout w @ [G_Data b (gs_send_data sys (gout w) b)]" using s(9) b(1) i(1) by (simp add: sent_data_def)
  have same: "the_player w1 i = the_player w i" using s(6) by simp
  have p: "i \<in> players w1" "cities_of (the_player w1 i) = []" "awaiting_data ld i ?uid ?h (cs_seq m)"
    "smap_ok (uid_to_player_idx_map w1)" "map_of (uid_to_player_idx_map w1) ?uid = None"
    "card (cities w1) + length (pd_city_list (gs_parse_pd sys blob)) \<le> nat (total_unit_count (city_pool w1))"
    using i s(5-8) map cities(2) by simp_all
  note served = login_served [OF s(2,3) p(1,2) s(4) p(3-5) b(2-4) wire(2) datasvr _ cities(1) p(6), unfolded same]
  show ?thesis
    by (intro exI [of _ b] exI [of _ "gs_send_data sys (gout w) b"] exI [of _ w1] conjI s(1) sent impI, erule served, blast)
qed

text \<open>An example: every message is carried as the digits of its sequence number.\<close>

lemma number_short: "0 < length (to_string_u64 n)" "length (to_string_u64 n) \<le> 1024"
proof -
  have "unat n < 2 ^ 64" using unsigned_less [of n, where ?'a = nat] by simp
  also have "(2 :: nat) ^ 64 \<le> 10 ^ 20" by simp
  finally have "length (digits (unat n)) \<le> 20" by (rule digits_length) simp
  then show "length (to_string_u64 n) \<le> 1024" by (simp add: to_string_u64_def)
  show "0 < length (to_string_u64 n)" using digits_ne [of "unat n"] by (simp add: to_string_u64_def)
qed

definition flow_game :: "int \<Rightarrow> game_sys" where
  "flow_game i = quiet_sys\<lparr>gs_parse_cs := \<lambda>_. Some example_login, gs_ser_ss := \<lambda>q. Some (to_string_u64 (ss_seq q)),
     gs_parse_ss := \<lambda>b. map_option (\<lambda>n. data_res n i [7, 8, 9]) (to_number_u64 b), gs_parse_pd := \<lambda>_. initial_player_data\<rparr>"

definition flow_data :: "int \<Rightarrow> bytes \<Rightarrow> data_sys" where
  "flow_data i b = (data_example ss_empty)\<lparr>ds_recv := \<lambda>_. (int (length b), b), ds_ser := \<lambda>r. Some (to_string_u64 (ss_seq r)),
     ds_parse := \<lambda>b. map_option (\<lambda>n. get_player_data_req n i (fnv64a_hash [97, 98, 99, 100, 101, 102]) (fnv64a_hash [49, 50, 51, 52]))
       (to_number_u64 b)\<rparr>"

lemma flow_carries:
  "carried (gs_ser_ss (flow_game i)) (ds_parse (flow_data i b))
     (get_player_data_req n i (fnv64a_hash [97, 98, 99, 100, 101, 102]) (fnv64a_hash [49, 50, 51, 52]))"
  "carried (ds_ser (flow_data i b)) (gs_parse_ss (flow_game i)) (data_res n i [7, 8, 9])"
  using number_short [of n] by (simp_all add: carried_def flow_game_def flow_data_def number_of_string get_player_data_req_def)

lemma flow_example:
  obtains i w where "logic_inv w" "obj_inv w" "heap_size (logic_timer w) < 1073741824" "i \<in> players w" "cities_of (the_player w i) = []"
    "cities w = {}" "total_unit_count (city_pool w) = 8" "uid_to_player_idx_map w = []"
proof -
  note e = empty_game_inv
  have r1: "card (players empty_game) < nat (total_unit_count (player_pool empty_game))" using e by simp
  obtain i w where w: "obj_inv w" "players w = insert i (players empty_game)" "the_player w i = player_zero"
    "city_pool w = city_pool empty_game" "w = empty_game\<lparr>player_pool := player_pool w\<rparr>"
    by (rule add_player_ok [OF e(1) r1])
  have we: "w = empty_game\<lparr>player_pool := player_pool w, city_pool := city_pool w\<rparr>" by (subst w(5)) (simp add: w(4))
  have "logic_inv w" by (subst we) (rule empty_game_logic)
  moreover have "heap_size (logic_timer w) < 1073741824" "uid_to_player_idx_map w = []"
    by (subst we, simp add: empty_game_def heap_timer_new_def)+
  moreover have "cities_of (the_player w i) = []" by (simp add: w(3) cities_of_def player_zero_def)
  ultimately show thesis using that [of w i] w(1,2,4) e by simp
qed

theorem login_through_datasvr_witness:
  "\<exists>i w w1 b d d1 d2 ans r w2. handle_cs (flow_game i) [] (A_Conn \<lparr>cd_conn_fd = 7, cd_player_idx = i, cd_conn_cmd = 2\<rparr>) w = Inr (0, w1) \<and>
     data_run_once (flow_data i b) d = Inr d1 \<and> thread_loop (flow_data i b) 0 d1 = Inr d2 \<and> last (dv_out d2) = D_Send ans r \<and>
     handle_ss (flow_game i) ans A_Null w1 = Inr (0, w2) \<and> snapshot w2 i = forget_ids initial_player_data"
proof -
  obtain i w where w: "logic_inv w" "obj_inv w" "heap_size (logic_timer w) < 1073741824" "i \<in> players w" "cities_of (the_player w i) = []"
    "cities w = {}" "total_unit_count (city_pool w) = 8" "uid_to_player_idx_map w = []" by (rule flow_example)
  obtain d where d: "data_inv d" "dv_free d = 0 # [1]" by (rule data_example_init [of ss_empty]) simp
  let ?cd = "\<lparr>cd_conn_fd = 7, cd_player_idx = i, cd_conn_cmd = 2\<rparr>" and ?sys = "flow_game i"
  let ?a = "[97, 98, 99, 100, 101, 102] :: bytes" and ?p = "[49, 50, 51, 52] :: bytes"
  have mem: "\<And>es sz. gs_malloc ?sys es sz \<noteq> None" by (simp add: flow_game_def quiet_sys_def)
  have cd: "cd_player_idx ?cd = i" by simp
  have m: "gs_parse_cs ?sys [] = Some example_login" "cs_cmd example_login = kLoginReq"
    "cs_login_req example_login = Some \<lparr>am_account = ?a, am_password = ?p\<rparr>"
    by (simp_all add: flow_game_def example_login_def)
  have ok: "check_account ?a (int (length ?a)) = Inr 0" "check_password ?p (int (length ?p)) = Inr 0"
    using example_credentials by simp_all
  have map: "smap_ok (uid_to_player_idx_map w)" "map_of (uid_to_player_idx_map w) (fnv64a_hash ?a) = None" using w(8) by simp_all
  have row: "row_there (flow_data i b) 0 (fnv64a_hash ?a) (fnv64a_hash ?p) [7, 8, 9]" for b
    by (simp add: row_there_def flow_data_def data_example_def)
  have n: "length (pd_city_list (gs_parse_pd ?sys [7, 8, 9])) \<le> 99"
    "card (cities w) + length (pd_city_list (gs_parse_pd ?sys [7, 8, 9])) \<le> nat (total_unit_count (city_pool w))"
    using w(6,7) by (simp_all add: flow_game_def initial_player_data_def)
  note flow = login_through_datasvr [OF w(1-3) mem cd w(4,5) m ok map flow_carries d row n]
  obtain b r w1 where h: "handle_cs ?sys [] (A_Conn ?cd) w = Inr (0, w1)" "gout w1 = gout w @ [G_Data b r]"
    using flow [of "[]"] by blast
  have recv: "ds_recv (flow_data i b) (dv_out d) = (int (length b), b)" by (simp add: flow_data_def)
  have pd: "gs_parse_pd ?sys [7, 8, 9] = initial_player_data" by (simp add: flow_game_def)
  obtain d1 d2 ans r' w2 where "data_run_once (flow_data i b) d = Inr d1" "thread_loop (flow_data i b) 0 d1 = Inr d2"
    "last (dv_out d2) = D_Send ans r'" "handle_ss ?sys ans A_Null w1 = Inr (0, w2)" "snapshot w2 i = forget_ids initial_player_data"
    using flow [of b] h recv pd by auto
  then show ?thesis using h(1) by blast
qed

section \<open>Saving a player through both servers\<close>

text \<open>A client of the database whose update succeeds: it has no result set and no field.\<close>

definition update_works :: "data_sys \<Rightarrow> nat \<Rightarrow> bytes \<Rightarrow> bool" where
  "update_works dsys c sql \<longleftrightarrow> (\<forall>es. ds_ready dsys es c \<and> ds_call dsys es c M_Ping = 0 \<and> ds_call dsys es c (M_Query sql) = 0 \<and>
     ds_store_result dsys es c = None \<and> ds_call dsys es c M_Field_Count = 0)"

text \<open>C4: A logout through both servers: when connsvr reports the end of a player's connection, \<open>gamesvr\<close> sends
  datasvr one packet with the player's data and deletes the player with its cities; if zmq delivers the packet,
  datasvr runs exactly one \<open>UPDATE\<close> of the row of that player with the escaped data, sends one packet back and has
  the client free again; and that packet at \<open>gamesvr\<close> ends the logic that waits for it, with nothing more sent.\<close>

theorem logout_through_datasvr:
  assumes pkt: "holds_packet cd pkg w" "cd_conn_cmd cd = conn_cmd_code CONN_STOP"
    and inv: "logic_inv w" "obj_inv w" and room: "heap_size (logic_timer w) < 1073741824"
    and mem: "\<And>es sz. gs_malloc sys es sz \<noteq> None" and i: "cd_player_idx cd = i" "i \<in> players w"
    and ser: "gs_ser_pd sys (snapshot w i) = Some blob" and esc: "convert_bin_to_string dsys blob = Inr esc"
    and wire: "\<And>n. carried (gs_ser_ss sys) (ds_parse dsys) (save_req n i (p_uid (the_player w i)) blob)"
      "\<And>n. carried (ds_ser dsys) (gs_parse_ss sys) (set_player_data_mysql_res MYSQL_RES_OK n i)"
    and datasvr: "data_inv d" "dv_free d = c # cs" "update_works dsys c (update_player_data (p_uid (the_player w i)) esc)"
  shows "\<exists>b r logic_id w1. conn_packet sys (12 + int (length pkg)) w = Inr (False, w1) \<and> gout w1 = gout w @ [G_Data b r] \<and>
    players w1 = players w - {i} \<and> cities w1 = cities w - set (cities_of (the_player w i)) \<and>
    get_logic_data logic_id w1 \<noteq> None \<and>
    (ds_recv dsys (dv_out d) = (int (length b), b) \<longrightarrow>
     (\<exists>d1 d2 ans r' w2. data_run_once dsys d = Inr d1 \<and> thread_loop dsys c d1 = Inr d2 \<and> dv_free d2 = cs @ [c] \<and>
        dv_out d2 = dv_out d @ [D_Recv (int (length b)), D_Call c M_Ping 0,
          D_Call c (M_Query (update_player_data (p_uid (the_player w i)) esc)) 0, D_Call c M_Field_Count 0, D_Send ans r'] \<and>
        handle_ss sys ans A_Null w1 = Inr (0, w2) \<and> logic_inv w2 \<and> get_logic_data logic_id w2 = None \<and>
        player_pool w2 = player_pool w1 \<and> city_pool w2 = city_pool w1 \<and> gout w2 = gout w1))"
proof -
  let ?uid = "p_uid (the_player w i)"
  obtain w1 logic_id ld where s: "conn_packet sys (12 + int (length pkg)) w = Inr (False, w1)" "logic_inv w1"
    "get_logic_data logic_id w1 = Some ld" "lg_logic_type ld = LOGIC_UPDATE_PLAYER" "lg_step ld = 1"
    "players w1 = players w - {i}" "cities w1 = cities w - set (cities_of (the_player w i))"
    "gout w1 = gout w @ sent_data sys (save_req (word_of_int logic_id) i ?uid blob) (gout w)"
    by (rule logout_saved [OF pkt inv room mem i ser])
  let ?req = "save_req (word_of_int logic_id) i ?uid blob" and ?ans = "set_player_data_mysql_res MYSQL_RES_OK (word_of_int logic_id) i"
  obtain b where b: "gs_ser_ss sys ?req = Some b" "ds_parse dsys b = Some ?req" "0 < length b" "length b \<le> 1024"
    using wire(1) unfolding carried_def by blast
  obtain ans where ans: "ds_ser dsys ?ans = Some ans" "gs_parse_ss sys ans = Some ?ans" using wire(2) unfolding carried_def by blast
  have sent: "gout w1 = gout w @ [G_Data b (gs_send_data sys (gout w) b)]" using s(8) b(1) by (simp add: sent_data_def)
  have req: "ss_cmd ?req = kSetPlayerDataReq" "ss_set_player_data_req ?req = Some \<lparr>spq_uid = ?uid, spq_player_data = blob\<rparr>"
    "ss_seq ?req = word_of_int logic_id" "ss_player_idx ?req = i"
    by (simp_all add: save_req_def)
  have r: "ss_cmd ?ans = kSetPlayerDataRes" "ss_seq ?ans = word_of_int logic_id" by (simp_all add: set_player_data_mysql_res_def)
  have "\<exists>d1 d2 ans r' w2. data_run_once dsys d = Inr d1 \<and> thread_loop dsys c d1 = Inr d2 \<and> dv_free d2 = cs @ [c] \<and>
      dv_out d2 = dv_out d @ [D_Recv (int (length b)), D_Call c M_Ping 0,
        D_Call c (M_Query (update_player_data ?uid esc)) 0, D_Call c M_Field_Count 0, D_Send ans r'] \<and>
      handle_ss sys ans A_Null w1 = Inr (0, w2) \<and> logic_inv w2 \<and> get_logic_data logic_id w2 = None \<and>
      player_pool w2 = player_pool w1 \<and> city_pool w2 = city_pool w1 \<and> gout w2 = gout w1"
    if recv: "ds_recv dsys (dv_out d) = (int (length b), b)"
  proof -
    have env: "ds_ready dsys es c" "ds_call dsys es c M_Ping = 0" "ds_call dsys es c (M_Query (update_player_data ?uid esc)) = 0"
      "ds_store_result dsys es c = None" "ds_call dsys es c M_Field_Count = 0" for es
      using datasvr(3) by (simp_all add: update_works_def)
    have sa: "ds_ser dsys (set_player_data_mysql_res MYSQL_RES_OK (ss_seq ?req) (ss_player_idx ?req)) = Some ans"
      using ans(1) req(3,4) by simp
    obtain d1 d2 ret where f: "data_run_once dsys d = Inr d1" "thread_loop dsys c d1 = Inr d2" "dv_free d2 = cs @ [c]"
      "dv_out d2 = dv_out d @ [D_Recv (int (length b)), D_Call c M_Ping 0, D_Call c (M_Query (update_player_data ?uid esc)) 0,
         D_Call c M_Field_Count 0, D_Send ans ret]"
      by (rule player_saved [OF datasvr(1,2) recv b(3,4) b(2) req(1,2) esc env sa])
    obtain w2 where "handle_ss sys ans A_Null w1 = Inr (0, w2)" "logic_inv w2" "get_logic_data logic_id w2 = None"
      "player_pool w2 = player_pool w1" "city_pool w2 = city_pool w1" "gout w2 = gout w1"
      by (rule save_answered [OF s(2-5) ans(2) r])
    then show ?thesis using f by blast
  qed
  then show ?thesis using s(1,3,6,7) sent
    by (intro exI [of _ b] exI [of _ "gs_send_data sys (gout w) b"] exI [of _ logic_id] exI [of _ w1]) simp
qed

definition save_game :: "int \<Rightarrow> game_sys" where
  "save_game i = quiet_sys\<lparr>gs_ser_pd := \<lambda>_. Some [9], gs_ser_ss := \<lambda>q. Some (to_string_u64 (ss_seq q)),
     gs_parse_ss := \<lambda>b. map_option (\<lambda>n. set_player_data_mysql_res MYSQL_RES_OK n i) (to_number_u64 b)\<rparr>"

definition save_data :: "int \<Rightarrow> 64 word \<Rightarrow> bytes \<Rightarrow> data_sys" where
  "save_data i uid b = (data_example ss_empty)\<lparr>ds_recv := \<lambda>_. (int (length b), b), ds_ser := \<lambda>r. Some (to_string_u64 (ss_seq r)),
     ds_store_result := \<lambda>_ _. None, ds_parse := \<lambda>b. map_option (\<lambda>n. save_req n i uid [9]) (to_number_u64 b)\<rparr>"

lemma save_carries:
  "carried (gs_ser_ss (save_game i)) (ds_parse (save_data i uid b)) (save_req n i uid [9])"
  "carried (ds_ser (save_data i uid b)) (gs_parse_ss (save_game i)) (set_player_data_mysql_res MYSQL_RES_OK n i)"
  using number_short [of n]
  by (simp_all add: carried_def save_game_def save_data_def number_of_string save_req_def set_player_data_mysql_res_def)

theorem logout_through_datasvr_witness:
  "\<exists>i w w1 b d d1 d2 ans r w2. players w = {i} \<and> conn_packet (save_game i) 12 w = Inr (False, w1) \<and> players w1 = {} \<and>
     data_run_once (save_data i (p_uid (the_player w i)) b) d = Inr d1 \<and>
     thread_loop (save_data i (p_uid (the_player w i)) b) 0 d1 = Inr d2 \<and> last (dv_out d2) = D_Send ans r \<and>
     handle_ss (save_game i) ans A_Null w1 = Inr (0, w2)"
proof -
  obtain i c w0 where w0: "obj_inv w0" "logic_inv w0" "players w0 = {i}" "0 < i" "i \<le> 4" "heap_size (logic_timer w0) < 1073741824"
    by (rule example_game_logic)
  obtain d where d: "data_inv d" "dv_free d = 0 # [1]" by (rule data_example_init [of ss_empty]) simp
  let ?cd = "\<lparr>cd_conn_fd = 7, cd_player_idx = i, cd_conn_cmd = 3\<rparr>" and ?sys = "save_game i"
  let ?w = "w0\<lparr>msg_buf := put_conn_data ?cd\<rparr>"
  let ?uid = "p_uid (the_player ?w i)"
  have pkt: "holds_packet ?cd [] ?w" "cd_conn_cmd ?cd = conn_cmd_code CONN_STOP"
    using w0(4,5) by (simp_all add: holds_packet_def cd_ok_def)
  have inv: "logic_inv ?w" "obj_inv ?w" using w0(1,2) logic_inv_cong [of ?w w0] obj_inv_cong [of ?w w0] by simp_all
  have room: "heap_size (logic_timer ?w) < 1073741824" and idx: "cd_player_idx ?cd = i" "i \<in> players ?w" using w0(3,6) by simp_all
  have mem: "\<And>es sz. gs_malloc ?sys es sz \<noteq> None" by (simp add: save_game_def quiet_sys_def)
  have ser: "gs_ser_pd ?sys (snapshot ?w i) = Some [9]" by (simp add: save_game_def)
  have esc: "convert_bin_to_string (save_data i ?uid b) [9] = Inr [9]" for b
    by (simp add: convert_bin_to_string_def save_data_def data_example_def)
  have up: "update_works (save_data i ?uid b) 0 (update_player_data ?uid [9])" for b
    by (simp add: update_works_def save_data_def data_example_def)
  note flow = logout_through_datasvr [OF pkt inv room mem idx ser esc save_carries d up]
  obtain b r w1 where h: "conn_packet ?sys 12 ?w = Inr (False, w1)" "gout w1 = gout ?w @ [G_Data b r]" "players w1 = {}"
    using flow [of "[]"] w0(3) by auto
  have recv: "ds_recv (save_data i ?uid b) (dv_out d) = (int (length b), b)" by (simp add: save_data_def)
  have "players ?w = {i}" using w0(3) by simp
  obtain d1 d2 ans r' w2 where "data_run_once (save_data i ?uid b) d = Inr d1" "thread_loop (save_data i ?uid b) 0 d1 = Inr d2"
    "last (dv_out d2) = D_Send ans r'" "handle_ss ?sys ans A_Null w1 = Inr (0, w2)"
    using flow [of b] h(1,2) recv by auto
  then show ?thesis using h(1,3) \<open>players ?w = {i}\<close> by blast
qed

end
