(* ===== verification/Game_Run.thy ===== *)
theory Game_Run
  imports Game_Msg_Props
begin

text \<open>
  The whole pass of the game server: whatever connsvr and datasvr send, a pass of the main loop that
  returns keeps the players, their cities, the logics and the timers consistent. Sending touches no
  object; a step of a logic changes objects only through the pointer it has just looked up.
\<close>

section \<open>Steps on the objects\<close>

definition obj_step :: "gamesvr \<Rightarrow> gamesvr \<Rightarrow> bool" where
  "obj_step w w' \<longleftrightarrow> (obj_inv w \<longrightarrow> obj_inv w' \<and> players w' = players w)"

lemma obj_step_refl [simp]: "obj_step w w"
  by (simp add: obj_step_def)

lemma obj_step_trans: "obj_step a b \<Longrightarrow> obj_step b c \<Longrightarrow> obj_step a c"
  by (simp add: obj_step_def)

lemma obj_step_same: "player_pool w' = player_pool w \<Longrightarrow> city_pool w' = city_pool w \<Longrightarrow> obj_step w w'"
  using obj_inv_cong [of w' w] by (simp add: obj_step_def)

lemma obj_step_objects: "same_objects w w' \<Longrightarrow> obj_step w w'"
  by (rule obj_step_same) (simp_all add: same_objectsD)

lemma get_player_Some: "obj_inv w \<Longrightarrow> get_player i w = Inr (Some ptr) \<Longrightarrow> ptr = i \<and> i \<in> players w"
  using get_player_unused [of w i] used_get(2) [of w i] by (auto simp: obj_inv_def)

lemma sends_same_objects:
  "player_send sys m cmd ptr w = Inr w' \<Longrightarrow> same_objects w w'"
  "do_update_player_data sys seq ptr w = Inr w' \<Longrightarrow> same_objects w w'"
  "do_get_player_data sys seq uid h ptr w = Inr w' \<Longrightarrow> same_objects w w'"
  "do_account_reg sys seq uid h a ptr w = Inr w' \<Longrightarrow> same_objects w w'"
  by (auto simp: player_send_def do_update_player_data_def do_get_player_data_def do_account_reg_def
      rbind_eq_Inr_iff split: option.splits)

lemma answers_same_objects:
  "send_failed_cs_res sys seq cmd err ptr w = Inr w' \<Longrightarrow> same_objects w w'"
  "send_ok_cs_quick_reg_res sys seq uid pw ptr w = Inr w' \<Longrightarrow> same_objects w w'"
  "send_ok_cs_normal_reg_res sys seq a pw ptr w = Inr w' \<Longrightarrow> same_objects w w'"
  "send_ok_cs_login_res sys seq ptr w = Inr w' \<Longrightarrow> same_objects w w'"
  "send_role_info_notify sys ptr w = Inr w' \<Longrightarrow> same_objects w w'"
  "send_server_kick_off_notify sys ptr w = Inr w' \<Longrightarrow> same_objects w w'"
  by (auto simp: send_failed_cs_res_def send_ok_cs_quick_reg_res_def send_ok_cs_normal_reg_res_def
      send_ok_cs_login_res_def send_role_info_notify_def send_server_kick_off_notify_def rbind_eq_Inr_iff
      dest: sends_same_objects)

lemmas same_objects_rules = sends_same_objects answers_same_objects

section \<open>The steps of the logics\<close>

text \<open>A step that only sends.\<close>

definition only_sends :: "gamesvr \<Rightarrow> (int \<times> logic_data \<times> gamesvr) res \<Rightarrow> bool" where
  "only_sends w r \<longleftrightarrow> (\<forall>ret d' w'. r = Inr (ret, d', w') \<longrightarrow> same_objects w w')"

lemma only_sends_simps [simp]: "only_sends w (Inl e)" "only_sends w (Inr (ret, d', w))"
  by (simp_all add: only_sends_def)

lemma only_sends_rbind: "(\<And>x. r = Inr x \<Longrightarrow> only_sends w (f x)) \<Longrightarrow> only_sends w (rbind r f)"
  by (cases r) auto

lemma only_sends_done: "(\<And>w'. r = Inr w' \<Longrightarrow> same_objects w w') \<Longrightarrow> only_sends w (done_with ret d' r)"
  by (auto simp: only_sends_def done_with_def rbind_eq_Inr_iff)

lemma only_sends_case:
  "(x = None \<Longrightarrow> only_sends w a) \<Longrightarrow> (\<And>y. x = Some y \<Longrightarrow> only_sends w (f y)) \<Longrightarrow>
   only_sends w (case x of None \<Rightarrow> a | Some y \<Rightarrow> f y)"
  by (cases x) auto

lemma only_sends_if: "(b \<Longrightarrow> only_sends w x) \<Longrightarrow> (\<not> b \<Longrightarrow> only_sends w y) \<Longrightarrow> only_sends w (if b then x else y)"
  by simp

lemmas only_sends_intros = only_sends_rbind only_sends_case only_sends_if only_sends_done

lemma sending_steps:
  "only_sends w (normal_reg_step0 sys d msg args w)" "only_sends w (normal_reg_step1 sys d msg args w)"
  "only_sends w (quick_reg_step0 sys d msg args w)" "only_sends w (quick_reg_step1 sys d msg args w)"
  "only_sends w (update_player_step0 sys d msg args w)" "only_sends w (update_player_step1 sys d msg args w)"
  "only_sends w (login_step1 sys d msg args w)"
  unfolding normal_reg_step0_def normal_reg_step1_def quick_reg_step0_def quick_reg_step1_def
    update_player_step0_def update_player_step1_def login_step1_def Let_def change_step_def
  by (intro only_sends_intros; auto dest: same_objects_rules)+

lemma login_step0_sends: "only_sends w (login_step0 sys d msg args w)"
  unfolding login_step0_def Let_def change_step_def
  by (intro only_sends_intros; auto dest: same_objects_rules) (meson same_objects_rules same_objects_trans)

section \<open>Loading a player\<close>

lemma add_city_none:
  assumes inv: "obj_inv w" and i: "i \<in> players w" and n: "length (cities_of (the_player w i)) < 99"
    and full: "card (cities w) = nat (total_unit_count (city_pool w))"
  shows "add_city i w = Inl Null_Deref"
proof -
  let ?p = "the_player w i" and ?n = "length (cities_of (the_player w i))"
  have pinv: "pool_inv (player_pool w)" and ok: "player_ok ?p" using inv i by (simp_all add: obj_inv_def)
  have none: "pool_alloc (city_pool w) = Inr (None, city_pool w)"
    using pool_alloc_none [OF _ full] inv by (simp add: obj_inv_def)
  have rec: "[int ?n + 1..99] = (int ?n + 1) # [int ?n + 2..99]"
    using n by (subst upto_rec1) (simp_all add: add.commute)
  have "add_city_slots i i [1..99] w = Inl Null_Deref"
    unfolding add_city_skip [OF used_get(1) [OF pinv i] ok order_refl] rec
    using used_get(1) [OF pinv i] free_slot [OF ok n] none by simp
  then show ?thesis
    using used_get [OF pinv i] player_ok_listD(2) [OF ok] n by (simp add: add_city_def MAX_CITY_NUM_PER_PLAYER_def)
qed

lemma card_used: "pool_inv p \<Longrightarrow> card (pool_used p) \<le> nat (total_unit_count p)"
  by (rule pool_used_card) (simp add: pool_inv_def)

text \<open>A city is added, or the list is full; without room for it the call does not return.\<close>

lemma add_city_step:
  assumes inv: "obj_inv w" and i: "i \<in> players w" and add: "add_city i w = Inr (c, w')"
  shows "obj_inv w'" "players w' = players w" "0 < c \<Longrightarrow> c \<in> cities w'"
proof -
  have ok: "player_ok (the_player w i)" and cinv: "pool_inv (city_pool w)" using inv i by (simp_all add: obj_inv_def)
  have "obj_inv w' \<and> players w' = players w \<and> (0 < c \<longrightarrow> c \<in> cities w')"
  proof (cases "length (cities_of (the_player w i)) < 99")
    case False
    then have "length (cities_of (the_player w i)) = 99" using ok by (simp add: player_ok_def)
    then show ?thesis using add_city_full [OF inv i] add inv by simp
  next
    case True
    have room: "card (cities w) < nat (total_unit_count (city_pool w))"
      using add_city_none [OF inv i True] add card_used [OF cinv] by fastforce
    obtain c' w2 where "add_city i w = Inr (c', w2)" "obj_inv w2" "cities w2 = insert c' (cities w)" "players w2 = players w"
      by (rule add_city_ok [OF inv i True room])
    then show ?thesis using add by simp
  qed
  then show "obj_inv w'" "players w' = players w" "0 < c \<Longrightarrow> c \<in> cities w'" by simp_all
qed

lemma get_city_Some: "obj_inv w \<Longrightarrow> get_city c w = Inr (Some ct) \<Longrightarrow> ct = c \<and> c \<in> cities w"
  by (auto simp: obj_inv_def get_city_def sp.look_law split: if_splits)

lemma load_cities_step:
  "obj_inv w \<Longrightarrow> i \<in> players w \<Longrightarrow> load_cities i cis w = Inr w' \<Longrightarrow> obj_inv w' \<and> players w' = players w"
proof (induction cis arbitrary: w)
  case (Cons ci cis)
  obtain c w1 where a: "add_city i w = Inr (c, w1)"
    and r: "rbind (get_city c w1) (\<lambda>city. case city of None \<Rightarrow> Inl Null_Deref
      | Some ct \<Rightarrow> rbind (set_city_by_db ci ct w1) (\<lambda>w2. rbind (set_city_player_idx i ct w2) (load_cities i cis))) = Inr w'"
    using Cons.prems(3) by (auto elim: rbind_InrE)
  note s = add_city_step [OF Cons.prems(1,2) a]
  obtain ct where g: "get_city c w1 = Inr (Some ct)"
    and r2: "rbind (set_city_by_db ci ct w1) (\<lambda>w2. rbind (set_city_player_idx i ct w2) (load_cities i cis)) = Inr w'"
    using r by (auto elim!: rbind_InrE split: option.splits)
  have c: "ct = c" "c \<in> cities w1" using get_city_Some [OF s(1) g] by simp_all
  let ?w2 = "upd_city c (\<lambda>x. x\<lparr>ct_population := ci_population ci\<rparr>) w1"
  let ?w3 = "upd_city c (\<lambda>x. x\<lparr>ct_player_idx := i\<rparr>) ?w2"
  have inv2: "obj_inv ?w2" by (rule upd_city_inv [OF s(1)])
  have inv3: "obj_inv ?w3" by (rule upd_city_inv [OF inv2])
  have cinv: "pool_inv (city_pool w1)" "pool_inv (city_pool ?w2)" using s(1) inv2 by (simp_all only: obj_inv_def)
  have c2: "c \<in> cities ?w2" using c(2) by simp
  have "load_cities i cis ?w3 = Inr w'"
    using r2 city_setters(1) [OF cinv(1) c(2), of ci] city_setters(2) [OF cinv(2) c2, of i] by (simp add: c(1))
  moreover have "players ?w3 = players w" using s(2) by simp
  ultimately show ?case using Cons.IH [OF inv3] Cons.prems(2) by simp
qed simp

lemma login_step2_objects:
  assumes "login_step2 sys d msg args w = Inr (ret, d', w')"
  shows "obj_step w w'"
  unfolding obj_step_def
proof (intro impI)
  assume inv: "obj_inv w"
  obtain ptr m where g: "get_player (l_player_idx d) w = Inr (Some ptr)" "as_ss msg = Inr m"
    using assms by (auto simp: login_step2_def rbind_eq_Inr_iff split: option.splits)
  let ?i = "l_player_idx d"
  have i: "ptr = ?i" "?i \<in> players w" using get_player_Some [OF inv g(1)] by simp_all
  show "obj_inv w' \<and> players w' = players w"
  proof (cases "ss_ret m = 0")
    case False
    then have "same_objects w w'"
      using assms g by (auto simp: login_step2_def done_with_def rbind_eq_Inr_iff dest: same_objects_rules)
    then show ?thesis using obj_step_objects inv by (simp add: obj_step_def)
  next
    case True
    let ?data = "gs_parse_pd sys (case ss_get_player_data_res m of Some b \<Rightarrow> b | None \<Rightarrow> [])"
    obtain w1 w2 w3 w4 w5 where s: "set_player_by_db (pd_role_info ?data) ?i w = Inr w1"
      "load_cities ?i (pd_city_list ?data) w1 = Inr w2" "set_uid (l_uid d) ?i w2 = Inr w3"
      "set_password_hash (l_password_hash d) ?i w3 = Inr w4" "send_ok_cs_login_res sys (l_client_seq d) ?i w4 = Inr w5"
      "send_role_info_notify sys ?i w5 = Inr w'"
      using assms g True i(1) by (auto simp: login_step2_def done_with_def rbind_eq_Inr_iff Let_def)
    have upd: "obj_inv v' \<and> players v' = players v"
      if "obj_inv v" "?i \<in> players v" "v' = upd_player ?i f v" "\<And>p. p_city_list (f p) = p_city_list p" for v v' f
      using that upd_player_inv [OF that(1,2)] by simp
    have pv: "pool_inv (player_pool v)" if "obj_inv v" for v using that by (simp add: obj_inv_def)
    have "w1 = upd_player ?i (\<lambda>p. p\<lparr>p_money := ri_money (pd_role_info ?data), p_level := ri_level (pd_role_info ?data)\<rparr>) w"
      using s(1) setters(3) [OF pv [OF inv] i(2)] by simp
    from upd [OF inv i(2) this] have q1: "obj_inv w1" "players w1 = players w" by simp_all
    then have q2: "obj_inv w2" "players w2 = players w" using load_cities_step [OF q1(1) _ s(2)] i(2) by simp_all
    let ?b = "bind_uid_to_player_idx (l_uid d) ?i w2"
    have b: "obj_inv ?b" "?i \<in> players ?b" "players ?b = players w" using q2 i(2) by simp_all
    have "w3 = upd_player ?i (\<lambda>p. p\<lparr>p_uid := l_uid d\<rparr>) ?b" using s(3) setters(4) [OF pv [OF q2(1)]] q2(2) i(2) by simp
    from upd [OF b(1,2) this] b(3) have q3: "obj_inv w3" "players w3 = players w" by simp_all
    have i3: "?i \<in> players w3" using q3(2) i(2) by simp
    have "w4 = upd_player ?i (\<lambda>p. p\<lparr>p_password_hash := l_password_hash d\<rparr>) w3" using s(4) setters(2) [OF pv [OF q3(1)] i3] by simp
    from upd [OF q3(1) i3 this] q3(2) have q4: "obj_inv w4" "players w4 = players w" by simp_all
    have "same_objects w4 w'" using answers_same_objects(4) [OF s(5)] answers_same_objects(5) [OF s(6)] same_objects_trans by blast
    then show ?thesis using q4 obj_step_objects by (simp add: obj_step_def)
  qed
qed

lemma logic_base_objects:
  assumes ty: "map_of logic_type_map ty = Some fs" and run: "logic_base_proc fs sys d msg args w = Inr (ret, d', w')"
  shows "obj_step w w'"
proof -
  have sends: "obj_step w w'" if "only_sends w (Inr (ret, d', w'))"
    using that obj_step_objects by (simp add: only_sends_def)
  have "obj_step w w'" if f: "f \<in> set fs" "f sys d msg args w = Inr (ret, d', w')" for f
  proof (cases "f = login_step2")
    case True
    then show ?thesis using login_step2_objects f(2) by simp
  next
    case False
    have "f \<in> {normal_reg_step0, normal_reg_step1, quick_reg_step0, quick_reg_step1, update_player_step0, update_player_step1,
      login_step0, login_step1}" using f(1) ty False by (auto simp: logic_type_map_def split: if_splits)
    then have "only_sends w (f sys d msg args w)"
      by (elim insertE emptyE) (simp_all only: sending_steps login_step0_sends)
    then show ?thesis using sends f(2) by simp
  qed
  note step = this
  show ?thesis
  proof (cases "lg_step d < 0 \<or> lg_step d \<ge> int (length fs)")
    case True
    then show ?thesis using run by (auto simp: logic_base_proc_def)
  next
    case False
    then have "fs ! nat (lg_step d) \<in> set fs" by (intro nth_mem) auto
    then show ?thesis by (rule step) (use run False in \<open>simp add: logic_base_proc_def\<close>)
  qed
qed

section \<open>The packets\<close>

lemma logic_proc_objects:
  assumes "logic_proc sys logic_id msg args w = Inr w'"
  shows "obj_step w w'"
proof (cases "get_logic_data logic_id w")
  case None
  then show ?thesis using assms by (simp add: logic_proc_def)
next
  case (Some d)
  show ?thesis
  proof (cases "map_of logic_type_map (lg_logic_type d)")
    case None
    then show ?thesis using assms Some by (simp add: logic_proc_def)
  next
    case fs: (Some fs)
    obtain ret d' w1 where st: "logic_base_proc fs sys d msg args w = Inr (ret, d', w1)"
      using assms fs Some by (cases "logic_base_proc fs sys d msg args w") (auto simp: logic_proc_def)
    have "player_pool w' = player_pool w1 \<and> city_pool w' = city_pool w1"
      using assms fs Some st by (auto simp: logic_proc_def Let_def delete_logic_data_def rbind_eq_Inr_iff split: if_splits)
    then show ?thesis using obj_step_trans [OF logic_base_objects [OF fs st] obj_step_same] by blast
  qed
qed

lemma create_logic_objects:
  assumes "create_logic sys ty secs w = Inr (logic_id, w')"
  shows "obj_step w w'"
proof -
  have "player_pool w' = player_pool w \<and> city_pool w' = city_pool w"
    using assms by (auto simp: create_logic_def Let_def rbind_eq_Inr_iff split: option.splits)
  then show ?thesis by (simp add: obj_step_same)
qed

lemma handle_request_objects:
  assumes "handle_request parse lmsg_cmd (game_handlers sys args) pkg w = Inr (r, w')"
  shows "obj_step w w'"
proof -
  have start: "obj_step w w'" if "logic_start secs sys args msg w = Inr (x, w')" for secs msg x
    using that by (auto simp: logic_start_def rbind_eq_Inr_iff split: if_splits
      dest!: create_logic_objects logic_proc_objects intro: obj_step_trans)
  have resume: "obj_step w w'" if "on_logic_multi_step_resume sys args msg w = Inr (x, w')" for msg x
    using that by (auto simp: on_logic_multi_step_resume_def rbind_eq_Inr_iff dest!: logic_proc_objects)
  show ?thesis
    using assms start resume
    by (auto simp: handle_request_def handlers_lookup rbind_eq_Inr_iff on_logic_multi_step_start_def
        split: option.splits if_splits)
qed

lemma handle_cs_objects: "handle_cs sys pkg args w = Inr (r, w') \<Longrightarrow> obj_step w w'"
  unfolding handle_cs_def by (rule handle_request_objects)

lemma handle_ss_objects: "handle_ss sys pkg args w = Inr (r, w') \<Longrightarrow> obj_step w w'"
  unfolding handle_ss_def by (rule handle_request_objects)

lemma add_player_objects:
  assumes inv: "obj_inv w" and add: "add_player w = Inr (i, w')"
  shows "obj_inv w'"
proof -
  have pinv: "pool_inv (player_pool w)" using inv by (simp add: obj_inv_def)
  have "card (players w) < nat (total_unit_count (player_pool w))"
  proof (rule ccontr)
    assume "\<not> ?thesis"
    then have "card (players w) = nat (total_unit_count (player_pool w))" using card_used [OF pinv] by simp
    then show False using pool_alloc_none [OF pinv] add by (simp add: add_player_def)
  qed
  from add_player_ok [OF inv this] show ?thesis using add by (metis old.sum.inject(2) prod.inject)
qed

lemma set_conn_fd_objects:
  assumes "obj_inv w" "get_player i w = Inr (Some ptr)" "set_conn_fd fd ptr w = Inr w'"
  shows "obj_inv w'"
proof -
  have i: "ptr = i" "i \<in> players w" using get_player_Some [OF assms(1,2)] by simp_all
  then have "w' = upd_player i (\<lambda>p. p\<lparr>p_conn_fd := fd\<rparr>) w"
    using setters(1) [of w i fd] assms(1,3) by (simp add: obj_inv_def)
  then show ?thesis using upd_player_inv [OF assms(1) i(2), of "\<lambda>p. p\<lparr>p_conn_fd := fd\<rparr>"] by simp
qed

lemma del_player_objects:
  assumes inv: "obj_inv w" and del: "del_player i w = Inr w'"
  shows "obj_inv w'"
proof (cases "i \<in> players w")
  case True
  show ?thesis by (rule del_player_ok [OF inv True]) (use del in simp)
next
  case False
  then have "get_player i w = Inr None" using get_player_unused inv by (simp add: obj_inv_def)
  then show ?thesis using del inv by (simp add: del_player_def)
qed

lemma conn_packet_objects:
  assumes inv: "obj_inv w" and p: "conn_packet sys len w = Inr (go, w')"
  shows "obj_inv w'"
proof -
  obtain cd where cd: "get_conn_data_from_conn (msg_buf w) = Inr cd"
    using p by (auto simp: conn_packet_def elim: rbind_InrE)
  consider (start) "cd_conn_cmd cd = conn_cmd_code CONN_START" | (stop) "cd_conn_cmd cd = conn_cmd_code CONN_STOP"
    | (other) "cd_conn_cmd cd \<noteq> conn_cmd_code CONN_START" "cd_conn_cmd cd \<noteq> conn_cmd_code CONN_STOP" by blast
  then show ?thesis
  proof cases
    case start
    obtain i w1 player where a: "add_player w = Inr (i, w1)" "get_player i w1 = Inr player"
      using p cd start by (auto simp: conn_packet_def Let_def elim!: rbind_InrE)
    have inv1: "obj_inv w1" by (rule add_player_objects [OF inv a(1)])
    show ?thesis
    proof (cases player)
      case None
      then have "same_objects w1 w'"
        using p cd start a by (auto simp: conn_packet_def Let_def rbind_eq_Inr_iff split: option.splits)
      then show ?thesis using inv1 obj_step_objects by (simp add: obj_step_def)
    next
      case (Some ptr)
      then obtain w2 pkg r where s: "set_conn_fd (cd_conn_fd cd) ptr w1 = Inr w2"
        "handle_cs sys pkg (A_Conn (cd\<lparr>cd_player_idx := i\<rparr>)) w2 = Inr (r, w')"
        using p cd start a by (auto simp: conn_packet_def Let_def rbind_eq_Inr_iff)
      have "obj_inv w2" by (rule set_conn_fd_objects [OF inv1 _ s(1)]) (use a(2) Some in simp)
      then show ?thesis using handle_cs_objects [OF s(2)] by (simp add: obj_step_def)
    qed
  next
    case stop
    obtain player w2 where s: "get_player (cd_player_idx cd) w = Inr player"
      "(case player of None \<Rightarrow> Inr w | Some _ \<Rightarrow>
         rbind (create_logic sys LOGIC_UPDATE_PLAYER 5 w) (\<lambda>(logic_id, w1).
         logic_proc sys logic_id L_Null (A_Idx (cd_player_idx cd)) w1)) = Inr w2"
      "del_player (cd_player_idx cd) w2 = Inr w'"
      using p cd stop by (auto simp: conn_packet_def Let_def rbind_eq_Inr_iff)
    have "obj_step w w2"
      using s(2) by (auto simp: rbind_eq_Inr_iff split: option.splits
        dest!: logic_proc_objects create_logic_objects intro: obj_step_trans)
    then show ?thesis using del_player_objects [OF _ s(3)] inv by (simp add: obj_step_def)
  next
    case other
    then obtain pkg r where "handle_cs sys pkg (A_Conn cd) w = Inr (r, w')"
      using p cd by (auto simp: conn_packet_def Let_def rbind_eq_Inr_iff)
    then show ?thesis using handle_cs_objects inv by (simp add: obj_step_def)
  qed
qed

section \<open>The size of a timer heap\<close>

lemma refill_hole_size: "refill_hole ht pos = Inr ht' \<Longrightarrow> heap_size ht' = heap_size ht"
  by (auto simp: refill_hole_def Let_def rbind_eq_Inr_iff)

lemma push_free_size: "push_free_timer_id ht i = Inr ht' \<Longrightarrow> heap_size ht' = heap_size ht"
  by (auto simp: push_free_timer_id_def Let_def rbind_eq_Inr_iff split: if_splits)

lemma remove_node_size: "remove_node ht pos = Inr (a, ht') \<Longrightarrow> heap_size ht' = heap_size ht"
  by (auto simp: remove_node_def Let_def rbind_eq_Inr_iff split: if_splits dest!: refill_hole_size push_free_size)

lemma delete_node_size: "delete_node ht a = Inr ht' \<Longrightarrow> heap_size ht' = heap_size ht"
  by (auto simp: delete_node_def rbind_eq_Inr_iff split: option.splits)

lemma unregister_size: "unregister_timer tid ht = Inr ht' \<Longrightarrow> heap_size ht' = heap_size ht"
  by (auto simp: unregister_timer_def Let_def rbind_eq_Inr_iff split: if_splits dest!: remove_node_size delete_node_size)

lemma pop_free_size: "pop_free_timer_id ht = Inr (i, ht') \<Longrightarrow> heap_size ht' = heap_size ht"
  by (auto simp: pop_free_timer_id_def Let_def rbind_eq_Inr_iff)

lemma register_size: "register_timer now iv delay cb data ht = Inr (i, ht') \<Longrightarrow> heap_size ht \<le> heap_size ht'"
  by (auto simp: register_timer_def Let_def rbind_eq_Inr_iff grow_heap_def split: if_splits dest!: pop_free_size)

lemma poll_step_size:
  assumes "\<And>c t d h w r h' w'. exec c t d (h, w) = Inr (r, h', w') \<Longrightarrow> heap_size h' = heap_size h"
    and "poll_step exec now ht w = Inr (Some (ht', w'))"
  shows "heap_size ht' = heap_size ht"
  using assms(2)
  by (auto simp: poll_step_def poll_remove_def poll_rearm_def Let_def rbind_eq_Inr_iff
      split: if_splits option.splits dest!: remove_node_size delete_node_size assms(1))

lemma timer_poll_size:
  fixes exec :: "'a exec"
  assumes ex: "\<And>c t d h w r h' w'. exec c t d (h, w) = Inr (r, h', w') \<Longrightarrow> heap_size h' = heap_size h"
    and run: "timer_poll exec now ht w = Some (Inr (ht', w'))"
  shows "heap_size ht' = heap_size ht"
proof -
  let ?P = "\<lambda>exec' (_ :: time_value) ht (_ :: 'a) (r :: (heap_timer \<times> 'a) res). exec' = exec \<longrightarrow> (\<forall>ht' w'. r = Inr (ht', w') \<longrightarrow> heap_size ht' = heap_size ht)"
  have "?P exec now ht w (Inr (ht', w'))"
    using run
  proof (rule timer_poll.raw_induct [where P = ?P, rotated], intro impI allI)
    fix f exec' now' ht w r ht' w'
    assume ih: "\<And>exec' now' ht w r. f exec' now' ht w = Some r \<Longrightarrow> ?P exec' now' ht w r"
      and b: "(case poll_step exec' now' ht w of Inl e \<Rightarrow> Some (Inl e) | Inr None \<Rightarrow> Some (Inr (ht, w))
        | Inr (Some (ht1, w1)) \<Rightarrow> f exec' now' ht1 w1) = Some r" and e: "exec' = exec" "r = Inr (ht', w')"
    show "heap_size ht' = heap_size ht"
    proof (cases "poll_step exec now' ht w")
      case (Inr s)
      show ?thesis
      proof (cases s)
        case (Some hw)
        obtain ht1 w1 where hw: "hw = (ht1, w1)" by (cases hw)
        have "f exec now' ht1 w1 = Some (Inr (ht', w'))" using b e Inr Some hw by simp
        then have "heap_size ht' = heap_size ht1" using ih by blast
        then show ?thesis using poll_step_size [OF ex, where now = now' and ht = ht and w = w and ht' = ht1 and w' = w1] Inr Some hw by simp
      qed (use b e Inr in simp)
    qed (use b e in simp)
  qed
  then show ?thesis by simp
qed

section \<open>The main loop\<close>

text \<open>The timer heap of the logics never shrinks.\<close>

definition grows :: "gamesvr \<Rightarrow> gamesvr \<Rightarrow> bool" where
  "grows w w' \<longleftrightarrow> heap_size (logic_timer w) \<le> heap_size (logic_timer w')"

lemma grows_trans: "grows a b \<Longrightarrow> grows b c \<Longrightarrow> grows a c"
  by (simp add: grows_def)

lemma grows_same: "same_logic w w' \<Longrightarrow> grows w w'"
  by (simp add: grows_def same_logic_def)

lemma logic_proc_grows:
  assumes "logic_proc sys logic_id msg args w = Inr w'"
  shows "grows w w'"
proof (cases "get_logic_data logic_id w")
  case None
  then show ?thesis using assms by (simp add: logic_proc_def grows_def)
next
  case (Some d)
  show ?thesis
  proof (cases "map_of logic_type_map (lg_logic_type d)")
    case None
    then show ?thesis using assms Some by (simp add: logic_proc_def grows_def)
  next
    case fs: (Some fs)
    obtain ret d' w1 where st: "logic_base_proc fs sys d msg args w = Inr (ret, d', w1)"
      using assms fs Some by (cases "logic_base_proc fs sys d msg args w") (auto simp: logic_proc_def)
    have "logic_timer w1 = logic_timer w"
      using logic_base_keeps [OF fs, of d w sys msg args] st by (auto dest: step_keepsD simp: same_logic_def)
    then show ?thesis
      using assms fs Some st
      by (auto simp: logic_proc_def Let_def delete_logic_data_def rbind_eq_Inr_iff grows_def split: if_splits dest: unregister_size)
  qed
qed

lemma create_logic_grows: "create_logic sys ty secs w = Inr (logic_id, w') \<Longrightarrow> grows w w'"
  by (auto simp: create_logic_def Let_def rbind_eq_Inr_iff grows_def split: option.splits if_splits dest: register_size)

lemma handle_request_grows:
  assumes "handle_request parse lmsg_cmd (game_handlers sys args) pkg w = Inr (r, w')"
  shows "grows w w'"
proof -
  have start: "grows w w'" if "logic_start secs sys args msg w = Inr (x, w')" for secs msg x
    using that by (auto simp: logic_start_def rbind_eq_Inr_iff split: if_splits
      dest!: create_logic_grows logic_proc_grows intro: grows_trans)
  have resume: "grows w w'" if "on_logic_multi_step_resume sys args msg w = Inr (x, w')" for msg x
    using that by (auto simp: on_logic_multi_step_resume_def rbind_eq_Inr_iff dest!: logic_proc_grows)
  have refl: "grows w w" by (simp add: grows_def)
  show ?thesis
    using assms start resume refl
    by (auto simp: handle_request_def handlers_lookup rbind_eq_Inr_iff on_logic_multi_step_start_def
        split: option.splits if_splits)
qed

lemma handle_grows:
  "handle_cs sys pkg args w = Inr (r, w') \<Longrightarrow> grows w w'" "handle_ss sys pkg args w = Inr (r, w') \<Longrightarrow> grows w w'"
  unfolding handle_cs_def handle_ss_def by (rule handle_request_grows; assumption)+

lemma conn_packet_grows:
  assumes p: "conn_packet sys len w = Inr (go, w')"
  shows "grows w w'"
proof -
  obtain cd where cd: "get_conn_data_from_conn (msg_buf w) = Inr cd"
    using p by (auto simp: conn_packet_def elim: rbind_InrE)
  consider (start) "cd_conn_cmd cd = conn_cmd_code CONN_START" | (stop) "cd_conn_cmd cd = conn_cmd_code CONN_STOP"
    | (other) "cd_conn_cmd cd \<noteq> conn_cmd_code CONN_START" "cd_conn_cmd cd \<noteq> conn_cmd_code CONN_STOP" by blast
  then show ?thesis
  proof cases
    case start
    obtain i w1 player where a: "add_player w = Inr (i, w1)" "get_player i w1 = Inr player"
      using p cd start by (auto simp: conn_packet_def Let_def elim!: rbind_InrE)
    have g1: "grows w w1" by (rule grows_same [OF add_player_same_logic [OF a(1)]])
    have "grows w1 w'"
    proof (cases player)
      case None
      then have "same_logic w1 w'"
        using p cd start a by (auto simp: conn_packet_def Let_def rbind_eq_Inr_iff split: option.splits)
      then show ?thesis by (rule grows_same)
    next
      case (Some ptr)
      then obtain w2 pkg r where s: "set_conn_fd (cd_conn_fd cd) ptr w1 = Inr w2"
        "handle_cs sys pkg (A_Conn (cd\<lparr>cd_player_idx := i\<rparr>)) w2 = Inr (r, w')"
        using p cd start a by (auto simp: conn_packet_def Let_def rbind_eq_Inr_iff)
      show ?thesis by (rule grows_trans [OF grows_same [OF setters_same_logic(6) [OF s(1)]] handle_grows(1) [OF s(2)]])
    qed
    with g1 show ?thesis by (rule grows_trans)
  next
    case stop
    obtain player w2 where s: "get_player (cd_player_idx cd) w = Inr player"
      "(case player of None \<Rightarrow> Inr w | Some _ \<Rightarrow>
         rbind (create_logic sys LOGIC_UPDATE_PLAYER 5 w) (\<lambda>(logic_id, w1).
         logic_proc sys logic_id L_Null (A_Idx (cd_player_idx cd)) w1)) = Inr w2"
      "del_player (cd_player_idx cd) w2 = Inr w'"
      using p cd stop by (auto simp: conn_packet_def Let_def rbind_eq_Inr_iff)
    have "grows w w2"
      using s(2) grows_same [OF same_logic_refl, of w]
      by (auto simp: rbind_eq_Inr_iff split: option.splits dest!: logic_proc_grows create_logic_grows intro: grows_trans)
    then show ?thesis using grows_same [OF del_player_same_logic [OF s(3)]] by (rule grows_trans)
  next
    case other
    then obtain pkg r where "handle_cs sys pkg (A_Conn cd) w = Inr (r, w')"
      using p cd by (auto simp: conn_packet_def Let_def rbind_eq_Inr_iff)
    then show ?thesis by (rule handle_grows(1))
  qed
qed

text \<open>What one pass of \<open>Run\<close> does, as a packet from connsvr and then one from datasvr.\<close>

lemma run_once_cases:
  assumes run: "run_once sys w = Inr (go, w')"
  obtains w1 go2 w2 w3 where "same_logic w (w1\<lparr>msg_buf := msg_buf w\<rparr>)" "obj_step w w1"
    "(go2, w2) = (True, w1) \<or> (\<exists>len. conn_packet sys len w1 = Inr (go2, w2))"
    "\<not> go2 \<and> w' = w2 \<or> same_logic w2 (w3\<lparr>msg_buf := msg_buf w2\<rparr>) \<and> obj_step w2 w3 \<and>
       (w' = w3 \<or> (\<exists>pkg r. handle_ss sys pkg A_Null w3 = Inr (r, w')))"
proof -
  let ?r = "gs_recv_conn sys (gout w)"
  let ?w1 = "(gemit (G_Recv_Conn (fst ?r)) w)\<lparr>msg_buf := recv_into (msg_buf w) ?r\<rparr>"
  obtain go2 w2 where st: "(if fst ?r > 0 then conn_packet sys (fst ?r) ?w1 else Inr (True, ?w1)) = Inr (go2, w2)"
    using run by (auto simp: run_once_def Let_def elim: rbind_InrE)
  let ?d = "gs_recv_data sys (gout w2)"
  let ?w3 = "(gemit (G_Recv_Data (fst ?d)) w2)\<lparr>msg_buf := recv_into (msg_buf w2) ?d\<rparr>"
  have 1: "same_logic w (?w1\<lparr>msg_buf := msg_buf w\<rparr>)" "obj_step w ?w1" "same_logic w2 (?w3\<lparr>msg_buf := msg_buf w2\<rparr>)" "obj_step w2 ?w3"
    by (simp_all add: same_logic_def gemit_def obj_step_same)
  have 2: "(go2, w2) = (True, ?w1) \<or> (\<exists>len. conn_packet sys len ?w1 = Inr (go2, w2))"
    using st by (auto split: if_splits)
  have 3: "\<not> go2 \<and> w' = w2 \<or> w' = ?w3 \<or> (\<exists>pkg r. handle_ss sys pkg A_Null ?w3 = Inr (r, w'))"
    using run st by (cases go2) (auto simp: run_once_def Let_def rbind_eq_Inr_iff split: if_splits)
  show thesis using that [OF 1(1,2) 2, of ?w3] 1(3,4) 3 by blast
qed

lemma grows_buf: "same_logic w (w1\<lparr>msg_buf := b\<rparr>) \<Longrightarrow> grows w w1"
  by (simp add: grows_def same_logic_def)

lemma run_once_step:
  assumes run: "run_once sys w = Inr (go, w')"
  shows "grows w w' \<and> (obj_inv w \<longrightarrow> obj_inv w')"
proof -
  obtain w1 go2 w2 w3 where s: "same_logic w (w1\<lparr>msg_buf := msg_buf w\<rparr>)" "obj_step w w1"
    "(go2, w2) = (True, w1) \<or> (\<exists>len. conn_packet sys len w1 = Inr (go2, w2))"
    "\<not> go2 \<and> w' = w2 \<or> same_logic w2 (w3\<lparr>msg_buf := msg_buf w2\<rparr>) \<and> obj_step w2 w3 \<and>
       (w' = w3 \<or> (\<exists>pkg r. handle_ss sys pkg A_Null w3 = Inr (r, w')))"
    by (rule run_once_cases [OF run])
  have refl: "grows v v" for v by (simp add: grows_def)
  have 12: "grows w1 w2 \<and> (obj_inv w1 \<longrightarrow> obj_inv w2)"
    using s(3) refl conn_packet_grows conn_packet_objects by blast
  have 3: "grows w3 w' \<and> (obj_inv w3 \<longrightarrow> obj_inv w')" if "w' = w3 \<or> (\<exists>pkg r. handle_ss sys pkg A_Null w3 = Inr (r, w'))"
    using that refl handle_grows(2) handle_ss_objects unfolding obj_step_def by blast
  show ?thesis using s(4)
  proof (elim disjE conjE)
    assume "w' = w2"
    then show ?thesis using grows_buf [OF s(1)] 12 s(2) grows_trans unfolding obj_step_def by blast
  next
    assume b: "same_logic w2 (w3\<lparr>msg_buf := msg_buf w2\<rparr>)" "obj_step w2 w3"
    note g = grows_trans [OF grows_trans [OF grows_buf [OF s(1)] conjunct1 [OF 12]] grows_buf [OF b(1)]]
    { assume "w' = w3"
      with 3 have "grows w3 w' \<and> (obj_inv w3 \<longrightarrow> obj_inv w')" by blast
      then show ?thesis using g 12 s(2) b(2) grows_trans unfolding obj_step_def by blast }
    { assume "\<exists>pkg r. handle_ss sys pkg A_Null w3 = Inr (r, w')"
      with 3 have "grows w3 w' \<and> (obj_inv w3 \<longrightarrow> obj_inv w')" by blast
      then show ?thesis using g 12 s(2) b(2) grows_trans unfolding obj_step_def by blast }
  qed
qed

definition game_inv :: "gamesvr \<Rightarrow> bool" where
  "game_inv w \<longleftrightarrow> logic_inv w \<and> obj_inv w"

lemma run_times_grows: "run_times sys n w = Inr w' \<Longrightarrow> grows w w'"
proof (induction n arbitrary: w)
  case (Suc n)
  obtain go w1 where r: "run_once sys w = Inr (go, w1)" "(if go then run_times sys n w1 else Inr w1) = Inr w'"
    using Suc.prems by (auto elim: rbind_InrE)
  then have "grows w1 w'" using Suc.IH by (cases go) (auto simp: grows_def)
  then show ?case using run_once_step [OF r(1)] grows_trans by blast
qed (simp add: grows_def)

lemma run_times_inv:
  "game_inv w \<Longrightarrow> run_times sys n w = Inr w' \<Longrightarrow> heap_size (logic_timer w') < 1073741824 \<Longrightarrow> game_inv w'"
proof (induction n arbitrary: w)
  case (Suc n)
  obtain go w1 where r: "run_once sys w = Inr (go, w1)" "(if go then run_times sys n w1 else Inr w1) = Inr w'"
    using Suc.prems(2) by (auto elim: rbind_InrE)
  note s = run_once_step [OF r(1)]
  have "grows w1 w'" using r(2) run_times_grows by (cases go) (auto simp: grows_def)
  then have "heap_size (logic_timer w) < 1073741824" using Suc.prems(3) s by (simp add: grows_def)
  then have "game_inv w1" using run_once_logic_inv [OF _ _ r(1)] s Suc.prems(1) by (simp add: game_inv_def)
  then show ?case using Suc.IH [of w1] Suc.prems(3) r(2) by (cases go) simp_all
qed simp

lemma logic_update_size:
  assumes "logic_update sys w = Some (Inr w')"
  shows "heap_size (logic_timer w') = heap_size (logic_timer w)"
proof -
  obtain ht w1 where p: "timer_poll logic_on_timer (gs_time sys (gout w)) (logic_timer w) w = Some (Inr (ht, w1))"
    "w' = w1\<lparr>logic_timer := ht\<rparr>"
    using assms by (auto simp: logic_update_def rbind_eq_Inr_iff)
  have "heap_size ht = heap_size (logic_timer w)"
    by (rule timer_poll_size [OF _ p(1)]) (simp add: logic_on_timer_def)
  then show ?thesis by (simp add: p(2))
qed

lemma game_pass_keeps:
  assumes inv: "logic_inv w" "obj_inv w" and time: "\<And>es. tv_canonical (gs_time sys es)"
    and run: "game_app_run sys w = Some (Inr w')" and room: "heap_size (logic_timer w') < 1073741824"
  shows "logic_inv w' \<and> obj_inv w'"
proof -
  obtain w1 where w1: "run_times sys 1000 w = Inr w1" "logic_update sys w1 = Some (Inr w')"
    using run by (auto simp: game_app_run_def msg_run_def split: sum.splits)
  have "heap_size (logic_timer w1) < 1073741824" using logic_update_size [OF w1(2)] room by simp
  then have i1: "logic_inv w1" "obj_inv w1" using run_times_inv [OF _ w1(1)] inv by (simp_all add: game_inv_def)
  obtain w2 where w2: "logic_update sys w1 = Some (Inr w2)" "logic_inv w2"
    and f: "w2 = w1\<lparr>logic_timer := logic_timer w2, logic_data_map := logic_data_map w2\<rparr>"
    by (rule logic_update_ok [OF i1(1) refl time])
  have "player_pool w2 = player_pool w1" "city_pool w2 = city_pool w1" by (subst f, simp)+
  then have "obj_inv w2" using obj_inv_cong i1(2) by blast
  then show ?thesis using w1(2) w2(1,2) by simp
qed

lemma game_pass_ends:
  assumes inv: "logic_inv w" "obj_inv w" and time: "\<And>es. tv_canonical (gs_time sys es)"
    and run: "msg_run sys w = Inr w1" and room: "heap_size (logic_timer w1) < 1073741824"
  shows "\<exists>w'. game_app_run sys w = Some (Inr w')"
proof -
  have "logic_inv w1" using run_times_inv [OF _ run [unfolded msg_run_def] room] inv by (simp add: game_inv_def)
  from logic_update_ok [OF this refl time] obtain w' where "logic_update sys w1 = Some (Inr w')" by blast
  then show ?thesis using run by (simp add: game_app_run_def)
qed

text \<open>C12: The game server's objects and logics stay consistent under any traffic: whatever connsvr and
  datasvr send in a pass of the main loop, well-formed or not, the pass either ends in a fault of the
  messages or returns, and then every city in use has exactly one owner, a player in use, every
  player's list of cities is intact, and the logics are those with a pending timer.\<close>

theorem game_pass_spec:
  assumes inv: "logic_inv w" "obj_inv w" and time: "\<And>es. tv_canonical (gs_time sys es)"
    and room: "\<And>w1. msg_run sys w = Inr w1 \<Longrightarrow> heap_size (logic_timer w1) < 1073741824"
  shows "(\<exists>e. msg_run sys w = Inl e \<and> game_app_run sys w = Some (Inl e)) \<or>
    (\<exists>w'. game_app_run sys w = Some (Inr w') \<and> logic_inv w' \<and> obj_inv w')"
proof (cases "msg_run sys w")
  case (Inl e)
  then show ?thesis by (simp add: game_app_run_def)
next
  case (Inr w1)
  obtain w' where w': "game_app_run sys w = Some (Inr w')" using game_pass_ends [OF inv time Inr room [OF Inr]] by blast
  then have "logic_update sys w1 = Some (Inr w')" using Inr by (simp add: game_app_run_def)
  then have "heap_size (logic_timer w') = heap_size (logic_timer w1)" by (rule logic_update_size)
  then show ?thesis using game_pass_keeps [OF inv time w'] w' room [OF Inr] by simp
qed

lemma idle_times: "\<exists>w'. run_times quiet_sys n w = Inr w' \<and> logic_timer w' = logic_timer w"
proof (induction n arbitrary: w)
  case (Suc n)
  obtain w1 where "run_once quiet_sys w = Inr (True, w1)" "logic_timer w1 = logic_timer w"
    by (simp add: run_once_def quiet_sys_def Let_def gemit_def)
  then show ?case using Suc.IH [of w1] by auto
qed simp

theorem game_pass_spec_witness:
  "\<exists>i w w'. players w = {i} \<and> game_app_run quiet_sys w = Some (Inr w') \<and> logic_inv w' \<and> obj_inv w'"
proof -
  obtain i c w where w: "obj_inv w" "players w = {i}" "w = empty_game\<lparr>player_pool := player_pool w, city_pool := city_pool w\<rparr>"
    by (rule example_game)
  have inv: "logic_inv w" by (subst w(3)) (rule empty_game_logic)
  have "logic_timer w = heap_timer_new 8 100" by (subst w(3)) (simp add: empty_game_def)
  then have t: "heap_size (logic_timer w) < 1073741824" using empty_timer_inv by simp
  obtain w1 where r: "msg_run quiet_sys w = Inr w1" "logic_timer w1 = logic_timer w" using idle_times unfolding msg_run_def by blast
  have time: "\<And>es. tv_canonical (gs_time quiet_sys es)" by (simp add: quiet_sys_def tv_canonical_secs)
  have room: "\<And>v. msg_run quiet_sys w = Inr v \<Longrightarrow> heap_size (logic_timer v) < 1073741824" using r t by simp
  show ?thesis using game_pass_spec [OF inv w(1) time room] r(1) w(2) by auto
qed

end
