(* ===== verification/Coroutine.thy ===== *)
theory Coroutine
  imports Heap_Timer_Spec Std_Map
begin

text \<open>
  The coroutines of \<open>gamesvr/coroutine_module/coroutine_module.{h,cpp}\<close>: stackful coroutines
  over \<open>ucontext\<close>, each with a time-out in a timer heap of the module.

  A program that runs in the main context or in a coroutine is the sequence of the calls it
  makes to the module (\<open>co_prog\<close>); everything between the calls is in the function from a
  call's result to the rest. A saved context is the point after a \<open>swapcontext\<close> of the
  library together with the rest of the program on that stack (\<open>ctx\<close>). One step of the
  machine runs one call up to the next point where a program goes on; \<open>swapcontext\<close> saves the
  running context in one variable and goes on with the other, whatever it holds.
\<close>

section \<open>Programs and contexts\<close>

codatatype co_prog =
    Co_Return "64 word"
  | Co_Yield "64 word" "64 word \<Rightarrow> co_prog"
  | Co_Resume int "64 word" "64 word \<Rightarrow> co_prog"
  | Co_Create "64 word \<Rightarrow> co_prog" "64 word" int "int \<Rightarrow> co_prog"
  | Co_Destroy int co_prog

datatype co_status = CO_READY | CO_SUSPENDED | CO_RUNNING | CO_FINISHED

text \<open>The stack a program runs on: that of the main program, or that of the coroutine at an address
  (with the pointer \<open>co\<close> of \<open>Schedule\<close>). \<open>Ctx_Resume\<close> is in \<open>Resume\<close> and \<open>Ctx_Yield\<close> in
  \<open>Yield\<close>, each behind the \<open>swapcontext\<close>, with the pointer and the id the function holds.\<close>

type_synonym co_stack = "nat option"

datatype ctx =
    Ctx_Schedule
  | Ctx_Resume int nat "64 word \<Rightarrow> co_prog" co_stack
  | Ctx_Yield nat "64 word \<Rightarrow> co_prog" co_stack

record coroutine =
  co_args :: "64 word"
  co_status_of :: co_status
  co_ctx :: "ctx option"
  co_yield_val :: "64 word"
  co_func :: "64 word \<Rightarrow> co_prog"

record co_module =
  co_timer :: heap_timer
  running :: int
  main_context :: "ctx option"
  coroutine_map :: "(int \<times> nat) list"
  co_mem :: "nat \<rightharpoonup> coroutine"
  co_next :: nat

text \<open>The clock when a timer is registered, and whether \<open>malloc\<close> serves the allocation that would
  have a given address.\<close>

record co_env =
  ce_now :: int
  ce_malloc :: "nat \<Rightarrow> bool"

section \<open>Memory of the coroutines\<close>

definition co_at :: "nat \<Rightarrow> co_module \<Rightarrow> coroutine res" where
  "co_at a m = (case co_mem m a of None \<Rightarrow> Inl Dangling | Some co \<Rightarrow> Inr co)"

definition co_put :: "nat \<Rightarrow> coroutine \<Rightarrow> co_module \<Rightarrow> co_module" where
  "co_put a co m = m\<lparr>co_mem := (co_mem m)(a \<mapsto> co)\<rparr>"

definition co_free :: "nat \<Rightarrow> co_module \<Rightarrow> co_module res" where
  "co_free a m = rbind (co_at a m) (\<lambda>_. Inr (m\<lparr>co_mem := (co_mem m)(a := None)\<rparr>))"

definition get_coroutine :: "int \<Rightarrow> co_module \<Rightarrow> nat option" where
  "get_coroutine coroutine_id m = map_of (coroutine_map m) coroutine_id"

section \<open>The module\<close>

definition co_module_init :: "nat \<Rightarrow> int \<Rightarrow> co_module" where
  "co_module_init logic_timer_init_size now =
     \<lparr>co_timer = heap_timer_new logic_timer_init_size now, running = - 1, main_context = None,
      coroutine_map = [], co_mem = Map.empty, co_next = 1\<rparr>"

fun co_free_all :: "(int \<times> nat) list \<Rightarrow> co_module \<Rightarrow> co_module res" where
  "co_free_all [] m = Inr m"
| "co_free_all ((_, a) # es) m = rbind (co_free a m) (co_free_all es)"

definition co_module_fini :: "co_module \<Rightarrow> co_module res" where
  "co_module_fini m =
     rbind (heap_timer_delete (co_timer m)) (\<lambda>ht.
     rbind (co_free_all (coroutine_map m) (m\<lparr>co_timer := ht\<rparr>)) (\<lambda>m1. Inr (m1\<lparr>coroutine_map := []\<rparr>)))"

text \<open>The callback object of the module, as a number for the timer heap.\<close>

definition co_cb :: nat where "co_cb = 2"

text \<open>An id of 0 stands for a coroutine without a time-out; \<open>insert\<close> keeps the entry that is there.\<close>

definition create_coroutine ::
  "co_env \<Rightarrow> (64 word \<Rightarrow> co_prog) \<Rightarrow> 64 word \<Rightarrow> int \<Rightarrow> co_module \<Rightarrow> (int \<times> co_module) res" where
  "create_coroutine env func args task_delay_secs m =
     rbind (if task_delay_secs > 0 then
              rbind (tv_set task_delay_secs 0) (\<lambda>tv. register_timer (ce_now env) tv tv (Some co_cb) 0 (co_timer m))
            else Inr (0, co_timer m)) (\<lambda>(coroutine_id, ht).
     let m1 = m\<lparr>co_timer := ht\<rparr>; a = co_next m1 in
     if \<not> ce_malloc env a then Inr (- 1, m1)
     else
       let co = \<lparr>co_args = args, co_status_of = CO_READY, co_ctx = None, co_yield_val = 0, co_func = func\<rparr>;
           m2 = (co_put a co m1)\<lparr>co_next := a + 1\<rparr> in
       Inr (coroutine_id, m2\<lparr>coroutine_map := smap_insert coroutine_id a (coroutine_map m2)\<rparr>))"

definition destroy_coroutine :: "int \<Rightarrow> co_module \<Rightarrow> co_module res" where
  "destroy_coroutine coroutine_id m =
     (case get_coroutine coroutine_id m of
        None \<Rightarrow> Inr m
      | Some a \<Rightarrow>
          rbind (co_free a m) (\<lambda>m1.
          let m2 = m1\<lparr>coroutine_map := smap_erase coroutine_id (coroutine_map m1)\<rparr> in
          if coroutine_id \<noteq> 0 then
            rbind (unregister_timer coroutine_id (co_timer m2)) (\<lambda>ht. Inr (m2\<lparr>co_timer := ht\<rparr>))
          else Inr m2))"

text \<open>\<open>OnTimer\<close>: the heap that \<open>TimerPoll\<close> works on is the module's own.\<close>

definition co_on_timer :: "co_module exec" where
  "co_on_timer c coroutine_id data s =
     (case s of (ht, m) \<Rightarrow>
        rbind (destroy_coroutine coroutine_id (m\<lparr>co_timer := ht\<rparr>)) (\<lambda>m'. Inr (- 1, co_timer m', m')))"

definition co_update :: "time_value \<Rightarrow> co_module \<Rightarrow> co_module res option" where
  "co_update now m =
     map_option (\<lambda>r. rbind r (\<lambda>(ht, m'). Inr (m'\<lparr>co_timer := ht\<rparr>)))
       (timer_poll co_on_timer now (co_timer m) m)"

section \<open>Switching contexts\<close>

text \<open>A running program: its stack and what it still has to do.\<close>

type_synonym thread = "co_stack \<times> co_prog"

text \<open>Going on with a saved context: the start of \<open>Schedule\<close>, the rest of \<open>Resume\<close> and the rest of
  \<open>Yield\<close>. A variable that was never written to holds no context.\<close>

fun enter_ctx :: "ctx option \<Rightarrow> co_module \<Rightarrow> (thread \<times> co_module) res" where
  "enter_ctx None m = Inl Null_Deref"
| "enter_ctx (Some Ctx_Schedule) m =
     (case get_coroutine (running m) m of
        None \<Rightarrow> Inl Assert_Failed
      | Some a \<Rightarrow> rbind (co_at a m) (\<lambda>co. Inr ((Some a, co_func co (co_args co)), m)))"
| "enter_ctx (Some (Ctx_Resume coroutine_id a k stack)) m =
     rbind (co_at a m) (\<lambda>co.
     let ret = co_yield_val co; co1 = co\<lparr>co_yield_val := 0\<rparr>; m1 = co_put a co1 m in
     rbind (if running m1 = - 1 \<and> co_status_of co1 = CO_FINISHED then destroy_coroutine coroutine_id m1 else Inr m1) (\<lambda>m2.
     Inr ((stack, k ret), m2)))"
| "enter_ctx (Some (Ctx_Yield a k stack)) m =
     rbind (co_at a m) (\<lambda>co.
     let ret = co_yield_val co in
     Inr ((stack, k ret), co_put a (co\<lparr>co_yield_val := 0\<rparr>) m))"

text \<open>\<open>Resume\<close> up to and including its \<open>swapcontext\<close>. The context of a coroutine that is ready is made
  by \<open>makecontext\<close>.\<close>

definition co_resume :: "int \<Rightarrow> 64 word \<Rightarrow> (64 word \<Rightarrow> co_prog) \<Rightarrow> co_stack \<Rightarrow> co_module \<Rightarrow> (thread \<times> co_module) res" where
  "co_resume coroutine_id y k stack m =
     (case get_coroutine coroutine_id m of
        None \<Rightarrow> Inr ((stack, k 0), m)
      | Some a \<Rightarrow>
          rbind (co_at a m) (\<lambda>co.
          if co_status_of co = CO_RUNNING then Inr ((stack, k 0), m)
          else
            let co1 = co\<lparr>co_yield_val := y\<rparr>; save = Some (Ctx_Resume coroutine_id a k stack) in
            case co_status_of co1 of
              CO_READY \<Rightarrow>
                enter_ctx (Some Ctx_Schedule)
                  ((co_put a (co1\<lparr>co_status_of := CO_RUNNING, co_ctx := Some Ctx_Schedule\<rparr>) m)\<lparr>
                     running := coroutine_id, main_context := save\<rparr>)
            | CO_SUSPENDED \<Rightarrow>
                enter_ctx (co_ctx co1)
                  ((co_put a (co1\<lparr>co_status_of := CO_RUNNING\<rparr>) m)\<lparr>running := coroutine_id, main_context := save\<rparr>)
            | _ \<Rightarrow> Inl Assert_Failed))"

text \<open>\<open>Yield\<close> outside a coroutine does nothing.\<close>

definition co_yield :: "64 word \<Rightarrow> (64 word \<Rightarrow> co_prog) \<Rightarrow> co_stack \<Rightarrow> co_module \<Rightarrow> (thread \<times> co_module) res" where
  "co_yield y k stack m =
     (if running m < 0 then Inr ((stack, k 0), m)
      else
        let cur = running m; m1 = m\<lparr>running := - 1\<rparr> in
        case get_coroutine cur m1 of
          None \<Rightarrow> Inl Null_Deref
        | Some a \<Rightarrow>
            rbind (co_at a m1) (\<lambda>co.
            enter_ctx (main_context m1)
              (co_put a (co\<lparr>co_yield_val := y, co_status_of := CO_SUSPENDED, co_ctx := Some (Ctx_Yield a k stack)\<rparr>) m1)))"

text \<open>The end of \<open>Schedule\<close>; the context then goes on with its link, the current content of
  \<open>main_context_\<close>.\<close>

definition schedule_end :: "64 word \<Rightarrow> nat \<Rightarrow> co_module \<Rightarrow> (thread \<times> co_module) res" where
  "schedule_end v a m =
     rbind (co_at a m) (\<lambda>co.
     enter_ctx (main_context m)
       ((co_put a (co\<lparr>co_yield_val := v, co_status_of := CO_FINISHED\<rparr>) m)\<lparr>running := - 1\<rparr>))"

section \<open>The machine\<close>

text \<open>One call of the running program; \<open>None\<close> when the main program has returned.\<close>

fun co_step :: "co_env \<Rightarrow> thread \<Rightarrow> co_module \<Rightarrow> (thread \<times> co_module) option res" where
  "co_step env (None, Co_Return v) m = Inr None"
| "co_step env (Some a, Co_Return v) m = rbind (schedule_end v a m) (\<lambda>r. Inr (Some r))"
| "co_step env (stack, Co_Yield y k) m = rbind (co_yield y k stack m) (\<lambda>r. Inr (Some r))"
| "co_step env (stack, Co_Resume i y k) m = rbind (co_resume i y k stack m) (\<lambda>r. Inr (Some r))"
| "co_step env (stack, Co_Create f args secs k) m =
     rbind (create_coroutine env f args secs m) (\<lambda>(i, m1). Inr (Some ((stack, k i), m1)))"
| "co_step env (stack, Co_Destroy i p) m =
     rbind (destroy_coroutine i m) (\<lambda>m1. Inr (Some ((stack, p), m1)))"

fun co_run :: "co_env \<Rightarrow> nat \<Rightarrow> thread \<Rightarrow> co_module \<Rightarrow> (thread \<times> co_module) res" where
  "co_run env 0 t m = Inr (t, m)"
| "co_run env (Suc n) t m =
     rbind (co_step env t m) (\<lambda>r. case r of None \<Rightarrow> Inr (t, m) | Some (t', m') \<Rightarrow> co_run env n t' m')"

section \<open>The test of the application\<close>

text \<open>\<open>TestCo\<close> and the part of \<open>AppRun\<close> that runs it once; the strings are pointers, and \<open>rest\<close> is what
  the main program does with the two results it logs.\<close>

definition test_co :: "64 word \<Rightarrow> 64 word \<Rightarrow> 64 word \<Rightarrow> co_prog" where
  "test_co want_to_yield exit_str str = Co_Yield want_to_yield (\<lambda>ret. Co_Return exit_str)"

definition app_run_test ::
  "64 word \<Rightarrow> 64 word \<Rightarrow> 64 word \<Rightarrow> 64 word \<Rightarrow> ((64 word \<times> 64 word) option \<Rightarrow> co_prog) \<Rightarrow> co_prog" where
  "app_run_test want_to_yield exit_str hi ok rest =
     Co_Create (test_co want_to_yield exit_str) hi 5 (\<lambda>coroutine_id.
       if coroutine_id > 0 then
         Co_Resume coroutine_id 0 (\<lambda>ret1. Co_Resume coroutine_id ok (\<lambda>ret2. rest (Some (ret1, ret2))))
       else rest None)"

end
