(* ===== verification/Coroutine_Props.thy ===== *)
theory Coroutine_Props
  imports Coroutine
begin

text \<open>
  What the coroutines of \<open>Coroutine\<close> promise: an abstract machine of asymmetric coroutines, in
  which \<open>Resume\<close> runs a coroutine up to its next \<open>Yield\<close> or its end and \<open>Yield\<close> returns the
  value of the next \<open>Resume\<close>, and the proof that the module's steps refine it as long as no
  coroutine resumes another one. Outside of that the module fails: a nested \<open>Resume\<close> overwrites
  the only \<open>main_context_\<close>, a second coroutine without a time-out gets the id of the first, and
  a time-out frees the timer that is being polled.
\<close>

section \<open>The abstract machine\<close>

text \<open>What each coroutine that is not running does when it is resumed; the running coroutine with
  what its resumer does next; the program that runs.\<close>

type_synonym co_spec = "(int \<rightharpoonup> (64 word \<Rightarrow> co_prog)) \<times> (int \<times> (64 word \<Rightarrow> co_prog)) option \<times> co_prog"

inductive co_spec_step :: "co_spec \<Rightarrow> co_spec \<Rightarrow> bool" where
  resume: "V i = Some f \<Longrightarrow> co_spec_step (V, None, Co_Resume i y k) (V(i := None), Some (i, k), f y)"
| resume_unknown: "V i = None \<Longrightarrow> co_spec_step (V, A, Co_Resume i y k) (V, A, k 0)"
| yield: "co_spec_step (V, Some (i, c), Co_Yield v k) (V(i \<mapsto> k), None, c v)"
| yield_main: "co_spec_step (V, None, Co_Yield v k) (V, None, k 0)"
| return: "co_spec_step (V, Some (i, c), Co_Return v) (V, None, c v)"
| create: "0 < i \<Longrightarrow> V i = None \<Longrightarrow> map_option fst A \<noteq> Some i \<Longrightarrow>
    co_spec_step (V, A, Co_Create f x secs k) (V(i \<mapsto> (\<lambda>_. f x)), A, k i)"
| destroy: "map_option fst A \<noteq> Some i \<Longrightarrow> co_spec_step (V, A, Co_Destroy i p) (V(i := None), A, p)"

text \<open>The programs the module is made for.\<close>

fun co_fits :: "co_spec \<Rightarrow> bool" where
  "co_fits (V, A, Co_Return v) = (A \<noteq> None)"
| "co_fits (V, A, Co_Yield y k) = True"
| "co_fits (V, A, Co_Resume i y k) = (A = None \<or> V i = None)"
| "co_fits (V, A, Co_Create f x secs k) = (0 < secs \<and> secs < 2147483648)"
| "co_fits (V, A, Co_Destroy i p) = (map_option fst A \<noteq> Some i)"

section \<open>The abstraction\<close>

text \<open>The module owns its coroutines: no leak, no sharing, and one pending timer for each.\<close>

definition co_base :: "co_module \<Rightarrow> bool" where
  "co_base m \<longleftrightarrow> ht_inv (co_timer m) \<and> smap_ok (coroutine_map m) \<and>
     pending_of (co_timer m) = (\<lambda>i. if get_coroutine i m = None then None else Some (Some co_cb, 0)) \<and>
     dom (co_mem m) = ran (map_of (coroutine_map m)) \<and>
     (\<forall>i j a. get_coroutine i m = Some a \<and> get_coroutine j m = Some a \<longrightarrow> i = j) \<and>
     (\<forall>a\<in>dom (co_mem m). a < co_next m)"

text \<open>A coroutine that goes on as \<open>f\<close> when it is resumed.\<close>

definition parked :: "coroutine \<Rightarrow> nat \<Rightarrow> (64 word \<Rightarrow> co_prog) \<Rightarrow> bool" where
  "parked co a f \<longleftrightarrow> co_status_of co = CO_READY \<and> f = (\<lambda>_. co_func co (co_args co)) \<or>
     co_status_of co = CO_SUSPENDED \<and> co_ctx co = Some (Ctx_Yield a f (Some a))"

definition all_parked :: "int set \<Rightarrow> (int \<rightharpoonup> (64 word \<Rightarrow> co_prog)) \<Rightarrow> co_module \<Rightarrow> bool" where
  "all_parked X V m \<longleftrightarrow> dom V = {i. get_coroutine i m \<noteq> None} - X \<and>
     (\<forall>i a f. get_coroutine i m = Some a \<longrightarrow> V i = Some f \<longrightarrow> parked (the (co_mem m a)) a f)"

fun co_rel :: "co_spec \<Rightarrow> thread \<times> co_module \<Rightarrow> bool" where
  "co_rel (V, None, p) ((stack, q), m) \<longleftrightarrow> q = p \<and> co_base m \<and> stack = None \<and> running m = - 1 \<and> all_parked {} V m"
| "co_rel (V, Some (i, c), p) ((stack, q), m) \<longleftrightarrow> q = p \<and> co_base m \<and> running m = i \<and> all_parked {i} V m \<and>
     (\<exists>a. get_coroutine i m = Some a \<and> stack = Some a \<and> main_context m = Some (Ctx_Resume i a c None) \<and>
        co_status_of (the (co_mem m a)) = CO_RUNNING)"

section \<open>The operations on the invariant\<close>

lemma ran_erase:
  assumes "f i = Some a" "\<And>j. f j = Some a \<Longrightarrow> j = i"
  shows "ran (f(i := None)) = ran f - {a}"
proof (intro set_eqI iffI)
  fix b assume "b \<in> ran (f(i := None))"
  then obtain j where "j \<noteq> i" "f j = Some b" by (auto simp: ran_def split: if_splits)
  then show "b \<in> ran f - {a}" using assms(2) by (auto intro: ranI)
next
  fix b assume "b \<in> ran f - {a}"
  then obtain j where "f j = Some b" "b \<noteq> a" by (auto simp: ran_def)
  then have "(f(i := None)) j = Some b" using assms(1) by auto
  then show "b \<in> ran (f(i := None))" by (rule ranI)
qed

lemma co_at_eq: "co_mem m a = Some co \<Longrightarrow> co_at a m = Inr co"
  by (simp add: co_at_def)

lemma co_baseD:
  assumes "co_base m" "get_coroutine i m = Some a"
  shows "0 < i" "co_mem m a = Some (the (co_mem m a))" "co_at a m = Inr (the (co_mem m a))"
    "get_coroutine j m = Some a \<Longrightarrow> j = i"
proof -
  have "pending_of (co_timer m) i \<noteq> None" using assms by (simp add: co_base_def)
  then show "0 < i" using assms tm.pending_pos [of "co_timer m" i] by (simp add: co_base_def)
  have "a \<in> dom (co_mem m)" using assms by (simp add: co_base_def get_coroutine_def ranI)
  then show m: "co_mem m a = Some (the (co_mem m a))" by auto
  show "co_at a m = Inr (the (co_mem m a))" using m by (rule co_at_eq)
  show "get_coroutine j m = Some a \<Longrightarrow> j = i" using assms unfolding co_base_def by blast
qed

lemma co_base_put: "co_base m \<Longrightarrow> get_coroutine i m = Some a \<Longrightarrow> co_base (co_put a co m)"
proof -
  assume inv: "co_base m" and i: "get_coroutine i m = Some a"
  have "a \<in> dom (co_mem m)" using inv i by (simp add: co_base_def get_coroutine_def ranI)
  then have "dom (co_mem (co_put a co m)) = dom (co_mem m)" by (auto simp: co_put_def)
  moreover have "get_coroutine j (co_put a co m) = get_coroutine j m" for j by (simp add: co_put_def get_coroutine_def)
  ultimately show ?thesis using inv by (simp add: co_base_def) (simp add: co_put_def)
qed

lemma co_base_cong:
  "co_timer m' = co_timer m \<Longrightarrow> coroutine_map m' = coroutine_map m \<Longrightarrow> co_mem m' = co_mem m \<Longrightarrow> co_next m' = co_next m \<Longrightarrow>
   co_base m' = co_base m"
  by (simp add: co_base_def get_coroutine_def)

lemma destroy_ok:
  assumes inv: "co_base m" and i: "get_coroutine i m = Some a"
  obtains m' where "destroy_coroutine i m = Inr m'" "co_base m'" "running m' = running m" "main_context m' = main_context m"
    "co_mem m' = (co_mem m)(a := None)" "\<And>j. get_coroutine j m' = (if j = i then None else get_coroutine j m)"
proof -
  note d = co_baseD [OF inv i]
  have ht: "ht_inv (co_timer m)" and p: "pending_of (co_timer m) i \<noteq> None" using inv i by (simp_all add: co_base_def)
  obtain ht' where u: "unregister_timer i (co_timer m) = Inr ht'" "ht_inv ht'" "pending_of ht' = (pending_of (co_timer m))(i := None)"
    using tm.unregister_law [OF ht p] by blast
  let ?m' = "m\<lparr>co_timer := ht', coroutine_map := smap_erase i (coroutine_map m), co_mem := (co_mem m)(a := None)\<rparr>"
  have g: "get_coroutine j ?m' = (if j = i then None else get_coroutine j m)" for j by (simp add: get_coroutine_def)
  have "destroy_coroutine i m = Inr ?m'"
    using i d(1,3) u(1) by (simp add: destroy_coroutine_def co_free_def)
  moreover have "co_base ?m'"
    unfolding co_base_def
  proof (intro conjI)
    show "ht_inv (co_timer ?m')" using u(2) by simp
    show "smap_ok (coroutine_map ?m')" using inv by (simp add: co_base_def)
    show "pending_of (co_timer ?m') = (\<lambda>j. if get_coroutine j ?m' = None then None else Some (Some co_cb, 0))"
      using u(3) inv g by (auto simp: co_base_def)
    have e: "map_of (coroutine_map m) i = Some a" using i by (simp add: get_coroutine_def)
    have "\<And>j. map_of (coroutine_map m) j = Some a \<Longrightarrow> j = i" by (rule d(4)) (simp add: get_coroutine_def)
    then have "ran ((map_of (coroutine_map m))(i := None)) = ran (map_of (coroutine_map m)) - {a}"
      by (rule ran_erase [where f = "map_of (coroutine_map m)", OF e])
    then show "dom (co_mem ?m') = ran (map_of (coroutine_map ?m'))"
      using inv by (auto simp: co_base_def)
    show "\<forall>j k b. get_coroutine j ?m' = Some b \<and> get_coroutine k ?m' = Some b \<longrightarrow> j = k"
      using inv g by (auto simp: co_base_def)
    show "\<forall>b\<in>dom (co_mem ?m'). b < co_next ?m'" using inv by (auto simp: co_base_def)
  qed
  ultimately show thesis using that [of ?m'] g by simp
qed

lemma create_ok:
  assumes inv: "co_base m" and room: "heap_size (co_timer m) < 1073741824" and mem: "ce_malloc env (co_next m)"
    and secs: "0 < secs" "secs < 2147483648"
  obtains i m' where "create_coroutine env f x secs m = Inr (i, m')" "co_base m'" "0 < i" "get_coroutine i m = None"
    "running m' = running m" "main_context m' = main_context m" "co_mem m (co_next m) = None"
    "co_mem m' = (co_mem m)(co_next m \<mapsto> \<lparr>co_args = x, co_status_of = CO_READY, co_ctx = None, co_yield_val = 0, co_func = f\<rparr>)"
    "\<And>j. get_coroutine j m' = (if j = i then Some (co_next m) else get_coroutine j m)"
proof -
  let ?tv = "TimeValue secs 0" and ?a = "co_next m"
  let ?co = "\<lparr>co_args = x, co_status_of = CO_READY, co_ctx = None, co_yield_val = 0, co_func = f\<rparr>"
  have set: "tv_set secs 0 = Inr ?tv" by (simp add: tv_set_def tv_canonical_def)
  have ne: "?tv \<noteq> TimeValue 0 0" using secs by simp
  have ht: "ht_inv (co_timer m)" and ok: "smap_ok (coroutine_map m)" using inv by (simp_all add: co_base_def)
  obtain i ht' where r: "register_timer (ce_now env) ?tv ?tv (Some co_cb) 0 (co_timer m) = Inr (i, ht')" "ht_inv ht'"
    "0 < i" "pending_of (co_timer m) i = None" "pending_of ht' = (pending_of (co_timer m))(i \<mapsto> (Some co_cb, 0))"
    using tm.register_law [OF ht room tv_canonical_secs tv_canonical_secs ne] by blast
  have fresh: "get_coroutine i m = None" using r(4) inv by (simp add: co_base_def split: if_splits)
  have fa: "co_mem m ?a = None" using inv by (auto simp: co_base_def)
  let ?m' = "m\<lparr>co_timer := ht', co_mem := (co_mem m)(?a \<mapsto> ?co), co_next := ?a + 1,
    coroutine_map := smap_put i ?a (coroutine_map m)\<rparr>"
  have g: "get_coroutine j ?m' = (if j = i then Some ?a else get_coroutine j m)" for j
    using ok by (simp add: get_coroutine_def)
  have "create_coroutine env f x secs m = Inr (i, ?m')"
    using secs set r(1) mem fresh by (simp add: create_coroutine_def Let_def co_put_def smap_insert_def get_coroutine_def)
  moreover have "co_base ?m'"
    unfolding co_base_def
  proof (intro conjI)
    show "pending_of (co_timer ?m') = (\<lambda>j. if get_coroutine j ?m' = None then None else Some (Some co_cb, 0))"
      using r(5) inv g by (auto simp: co_base_def)
    show "dom (co_mem ?m') = ran (map_of (coroutine_map ?m'))"
      using inv fresh ok ran_map_upd [of "map_of (coroutine_map m)" i ?a] by (simp add: co_base_def get_coroutine_def)
    have "get_coroutine j m \<noteq> Some ?a" for j
      using fa co_baseD(2) [OF inv, of j ?a] by auto
    then show "\<forall>j k b. get_coroutine j ?m' = Some b \<and> get_coroutine k ?m' = Some b \<longrightarrow> j = k"
      using inv g by (auto simp: co_base_def)
    show "\<forall>b\<in>dom (co_mem ?m'). b < co_next ?m'" using inv by (auto simp: co_base_def intro: less_SucI)
  qed (use r(2) ok in simp_all)
  ultimately show thesis using that [of i ?m'] r(3) fresh g fa by simp
qed

section \<open>Switching to a coroutine and back\<close>

lemma get_put [simp]: "get_coroutine i (co_put a co m) = get_coroutine i m" "running (co_put a co m) = running m"
  "main_context (co_put a co m) = main_context m" "co_mem (co_put a co m) = (co_mem m)(a \<mapsto> co)"
  by (simp_all add: get_coroutine_def co_put_def)

lemma get_upd [simp]: "get_coroutine i (m\<lparr>running := r\<rparr>) = get_coroutine i m"
  "get_coroutine i (m\<lparr>main_context := c\<rparr>) = get_coroutine i m" "co_base (m\<lparr>running := r\<rparr>) = co_base m"
  "co_base (m\<lparr>main_context := c\<rparr>) = co_base m"
  by (simp_all add: get_coroutine_def co_base_def)

lemma co_at_upd [simp]: "co_at a (m\<lparr>running := r\<rparr>) = co_at a m" "co_at a (m\<lparr>main_context := c\<rparr>) = co_at a m"
  "co_at a (co_put a co m) = Inr co"
  by (simp_all add: co_at_def co_put_def)

lemma all_parked_None: "all_parked X V m \<Longrightarrow> V i = None \<longleftrightarrow> get_coroutine i m = None \<or> i \<in> X"
proof -
  assume "all_parked X V m"
  then have "i \<in> dom V \<longleftrightarrow> i \<in> {i. get_coroutine i m \<noteq> None} - X" by (simp add: all_parked_def)
  then show ?thesis by auto
qed

text \<open>A change of coroutine \<open>i\<close> leaves the others parked.\<close>

lemma all_parked_upd:
  assumes inv: "co_base m" and V: "all_parked X V m" and i: "get_coroutine i m = Some a"
    and g: "\<And>j. get_coroutine j m' = get_coroutine j m" and mem: "co_mem m' = (co_mem m)(a \<mapsto> co)"
  shows "all_parked (insert i X) (V(i := None)) m'"
    "parked co a f \<Longrightarrow> all_parked (X - {i}) (V(i \<mapsto> f)) m'"
proof -
  have ne: "b \<noteq> a" if "get_coroutine j m = Some b" "j \<noteq> i" for j b
    using co_baseD(4) [OF inv i, of j] that by auto
  show "all_parked (insert i X) (V(i := None)) m'"
    using V g mem ne by (auto simp: all_parked_def)
  show "all_parked (X - {i}) (V(i \<mapsto> f)) m'" if "parked co a f"
    using V g mem ne that i by (auto simp: all_parked_def)
qed

lemma resume_ok:
  assumes inv: "co_base m" and V: "all_parked X V m" and f: "V i = Some f"
  obtains a m' where "co_resume i y k stack m = Inr ((Some a, f y), m')" "co_base m'" "running m' = i"
    "get_coroutine i m = Some a" "\<And>j. get_coroutine j m' = get_coroutine j m"
    "main_context m' = Some (Ctx_Resume i a k stack)" "co_status_of (the (co_mem m' a)) = CO_RUNNING"
    "all_parked (insert i X) (V(i := None)) m'" "\<And>b. b \<noteq> a \<Longrightarrow> co_mem m' b = co_mem m b"
proof -
  have "i \<in> dom V" using f by auto
  then obtain a where a: "get_coroutine i m = Some a" using V by (auto simp: all_parked_def)
  note d = co_baseD [OF inv a]
  have p: "parked (the (co_mem m a)) a f" using V a f by (simp add: all_parked_def)
  define co where "co = the (co_mem m a)"
  show thesis
  proof (cases "co_status_of co = CO_READY")
    case True
    then have f: "f = (\<lambda>_. co_func co (co_args co))" using p by (simp add: parked_def co_def)
    let ?co = "co\<lparr>co_yield_val := y, co_status_of := CO_RUNNING, co_ctx := Some Ctx_Schedule\<rparr>"
    let ?m' = "(co_put a ?co m)\<lparr>running := i, main_context := Some (Ctx_Resume i a k stack)\<rparr>"
    have "co_resume i y k stack m = Inr ((Some a, f y), ?m')"
      using a d(3) True f by (simp add: co_resume_def co_def)
    moreover have "co_base ?m'" using co_base_put [OF inv a] by simp
    moreover have "all_parked (insert i X) (V(i := None)) ?m'" by (rule all_parked_upd(1) [OF inv V a]) simp_all
    ultimately show thesis using that a by simp
  next
    case False
    then have c: "co_status_of co = CO_SUSPENDED" "co_ctx co = Some (Ctx_Yield a f (Some a))"
      using p by (simp_all add: parked_def co_def)
    let ?co = "co\<lparr>co_status_of := CO_RUNNING, co_yield_val := 0\<rparr>"
    let ?m1 = "(co_put a (co\<lparr>co_yield_val := y, co_status_of := CO_RUNNING\<rparr>) m)\<lparr>running := i, main_context := Some (Ctx_Resume i a k stack)\<rparr>"
    let ?m' = "co_put a ?co ?m1"
    have "co_resume i y k stack m = Inr ((Some a, f y), ?m')"
      using a d(3) c by (simp add: co_resume_def co_def)
    moreover have "co_base ?m'" using co_base_put [OF inv a] by (intro co_base_put [of _ i]) (simp_all add: a)
    moreover have "all_parked (insert i X) (V(i := None)) ?m'" by (rule all_parked_upd(1) [OF inv V a]) simp_all
    ultimately show thesis using that a by simp
  qed
qed

lemma yield_ok:
  assumes inv: "co_base m" and V: "all_parked {i} V m" and run: "running m = i" "get_coroutine i m = Some a"
    "main_context m = Some (Ctx_Resume i a c None)"
  obtains m' where "co_yield v k (Some a) m = Inr ((None, c v), m')" "co_base m'" "running m' = - 1"
    "all_parked {} (V(i \<mapsto> k)) m'"
proof -
  note d = co_baseD [OF inv run(2)]
  let ?co = "(the (co_mem m a))\<lparr>co_yield_val := v, co_status_of := CO_SUSPENDED, co_ctx := Some (Ctx_Yield a k (Some a))\<rparr>"
  let ?m1 = "co_put a ?co (m\<lparr>running := - 1\<rparr>)"
  let ?m' = "co_put a (?co\<lparr>co_yield_val := 0\<rparr>) ?m1"
  have "co_yield v k (Some a) m = Inr ((None, c v), ?m')"
    using run d(1,3) by (simp add: co_yield_def Let_def)
  moreover have "co_base ?m'" using inv run by (intro co_base_put [of _ i]) simp_all
  moreover have "all_parked ({i} - {i}) (V(i \<mapsto> k)) ?m'"
    by (rule all_parked_upd(2) [OF inv V run(2), where co = "?co\<lparr>co_yield_val := 0\<rparr>"]) (simp_all add: parked_def)
  ultimately show thesis using that [of ?m'] by simp
qed

lemma return_ok:
  assumes inv: "co_base m" and V: "all_parked (insert i X) V m" and X: "i \<notin> X"
    and run: "running m = i" "get_coroutine i m = Some a" "main_context m = Some (Ctx_Resume i a c stack)"
  obtains m' where "schedule_end v a m = Inr ((stack, c v), m')" "co_base m'" "running m' = - 1" "all_parked X V m'"
    "main_context m' = main_context m" "co_mem m' a = None" "\<And>b. b \<noteq> a \<Longrightarrow> co_mem m' b = co_mem m b"
proof -
  note d = co_baseD [OF inv run(2)]
  let ?co = "(the (co_mem m a))\<lparr>co_yield_val := v, co_status_of := CO_FINISHED\<rparr>"
  let ?m1 = "co_put a (?co\<lparr>co_yield_val := 0\<rparr>) ((co_put a ?co m)\<lparr>running := - 1\<rparr>)"
  have b1: "co_base ?m1" using co_base_put [OF inv run(2)] run by (intro co_base_put [of _ i]) simp_all
  have a1: "get_coroutine i ?m1 = Some a" using run by simp
  obtain m' where m': "destroy_coroutine i ?m1 = Inr m'" "co_base m'" "running m' = running ?m1"
    "main_context m' = main_context ?m1" "co_mem m' = (co_mem ?m1)(a := None)" "\<And>j. get_coroutine j m' = (if j = i then None else get_coroutine j ?m1)"
    by (rule destroy_ok [OF b1 a1]) blast
  have "schedule_end v a m = Inr ((stack, c v), m')"
    using run d(3) m'(1) by (simp add: schedule_end_def Let_def)
  moreover have "all_parked X V m'"
    unfolding all_parked_def
  proof (intro conjI allI impI)
    show "dom V = {j. get_coroutine j m' \<noteq> None} - X" using V X m'(6) run(2) by (auto simp: all_parked_def)
    fix j b f assume jb: "get_coroutine j m' = Some b" "V j = Some f"
    then have "j \<noteq> i" "get_coroutine j m = Some b" using m'(6) by (auto split: if_splits)
    moreover from this have "b \<noteq> a" using d(4) by blast
    ultimately show "parked (the (co_mem m' b)) b f" using V jb(2) m'(5) by (simp add: all_parked_def)
  qed
  ultimately show thesis using that m'(2-5) by simp
qed

section \<open>Refinement\<close>

definition co_matched :: "co_env \<Rightarrow> co_spec \<Rightarrow> thread \<Rightarrow> co_module \<Rightarrow> bool" where
  "co_matched env s t m \<longleftrightarrow>
     (\<exists>t' m' s'. co_step env t m = Inr (Some (t', m')) \<and> co_spec_step s s' \<and> co_rel s' (t', m'))"

lemma co_matchedI:
  "co_step env t m = Inr (Some (t', m')) \<Longrightarrow> co_spec_step s s' \<Longrightarrow> co_rel s' (t', m') \<Longrightarrow> co_matched env s t m"
  unfolding co_matched_def by blast

lemma co_rel_base: "co_rel (V, A, p) ((stack, q), m) \<Longrightarrow> q = p \<and> co_base m \<and> all_parked (set_option (map_option fst A)) V m"
  by (cases A) auto

text \<open>The running coroutine is not touched.\<close>

lemma co_rel_transfer:
  assumes rel: "co_rel (V, A, p) ((stack, q), m)" and inv: "co_base m'" and same: "running m' = running m" "main_context m' = main_context m"
    and V: "all_parked (set_option (map_option fst A)) V' m'"
    and act: "\<And>i c a. A = Some (i, c) \<Longrightarrow> get_coroutine i m = Some a \<Longrightarrow> get_coroutine i m' = Some a \<and> co_mem m' a = co_mem m a"
  shows "co_rel (V', A, p') ((stack, p'), m')"
proof (cases A)
  case (Some ic)
  obtain i c where ic: "ic = (i, c)" by (cases ic)
  then obtain a where a: "running m = i" "get_coroutine i m = Some a" "stack = Some a" "main_context m = Some (Ctx_Resume i a c None)"
    "co_status_of (the (co_mem m a)) = CO_RUNNING" using rel Some by auto
  have "A = Some (i, c)" using Some ic by simp
  then have "get_coroutine i m' = Some a" "co_mem m' a = co_mem m a" using act a(2) by blast+
  then show ?thesis using inv same V Some ic a by simp
qed (use rel inv same V in simp)

lemma refine_return:
  assumes rel: "co_rel (V, Some (i, c), Co_Return v) ((stack, Co_Return v), m)"
  shows "co_matched env (V, Some (i, c), Co_Return v) (stack, Co_Return v) m"
proof -
  obtain a where a: "running m = i" "get_coroutine i m = Some a" "stack = Some a" "main_context m = Some (Ctx_Resume i a c None)"
    "co_base m" "all_parked {i} V m" using rel by auto
  obtain m' where "schedule_end v a m = Inr ((None, c v), m')" "co_base m'" "running m' = - 1" "all_parked {} V m'"
    by (rule return_ok [where X = "{}", OF a(5,6) _ a(1,2,4)]) simp_all
  then show ?thesis using a(3) by (intro co_matchedI [where t' = "(None, c v)" and m' = m', OF _ co_spec_step.return]) simp_all
qed

lemma refine_yield:
  assumes rel: "co_rel (V, A, Co_Yield y k) ((stack, Co_Yield y k), m)"
  shows "co_matched env (V, A, Co_Yield y k) (stack, Co_Yield y k) m"
proof (cases A)
  case None
  then have "co_yield y k stack m = Inr ((stack, k 0), m)" using rel by (simp add: co_yield_def)
  then show ?thesis using rel None by (simp only:, intro co_matchedI [where t' = "(stack, k 0)" and m' = m, OF _ co_spec_step.yield_main]) simp_all
next
  case (Some ic)
  then obtain i c a where a: "A = Some (i, c)" "running m = i" "get_coroutine i m = Some a" "stack = Some a"
    "main_context m = Some (Ctx_Resume i a c None)" "co_base m" "all_parked {i} V m" using rel by (cases ic) auto
  obtain m' where "co_yield y k (Some a) m = Inr ((None, c y), m')" "co_base m'" "running m' = - 1" "all_parked {} (V(i \<mapsto> k)) m'"
    by (rule yield_ok [OF a(6,7,2,3,5)])
  then show ?thesis using a(4) unfolding a(1)
    by (intro co_matchedI [where t' = "(None, c y)" and m' = m', OF _ co_spec_step.yield]) simp_all
qed

lemma refine_resume:
  assumes rel: "co_rel (V, A, Co_Resume i y k) ((stack, Co_Resume i y k), m)" and fits: "A = None \<or> V i = None"
  shows "co_matched env (V, A, Co_Resume i y k) (stack, Co_Resume i y k) m"
proof (cases "V i")
  case None
  note b = co_rel_base [OF rel]
  have "co_resume i y k stack m = Inr ((stack, k 0), m)"
  proof (cases "get_coroutine i m")
    case (Some a)
    then have "map_option fst A = Some i" using b None all_parked_None [of "set_option (map_option fst A)" V m i] by (cases A) auto
    then have "co_status_of (the (co_mem m a)) = CO_RUNNING" using rel Some by (cases A) auto
    then show ?thesis using Some co_baseD(3) [of m i a] b by (simp add: co_resume_def)
  qed (simp add: co_resume_def)
  moreover have "co_rel (V, A, k 0) ((stack, k 0), m)" using rel by (cases A) auto
  ultimately show ?thesis 
    by (intro co_matchedI [where t' = "(stack, k 0)" and m' = m, OF _ co_spec_step.resume_unknown [of V i, OF None]]) simp_all
next
  case (Some f)
  then have A: "A = None" using fits by simp
  then have r: "stack = None" "co_base m" "all_parked {} V m" using rel by simp_all
  obtain a m' where "co_resume i y k None m = Inr ((Some a, f y), m')" "co_base m'" "running m' = i"
    "get_coroutine i m = Some a" "\<And>j. get_coroutine j m' = get_coroutine j m" "main_context m' = Some (Ctx_Resume i a k None)"
    "co_status_of (the (co_mem m' a)) = CO_RUNNING" "all_parked {i} (V(i := None)) m'"
    by (rule resume_ok [where V = V and f = f, OF r(2,3) Some]) blast
  then show ?thesis unfolding A r(1) 
    by (intro co_matchedI [where t' = "(Some a, f y)" and m' = m', OF _ co_spec_step.resume [of V i, OF Some]]) simp_all
qed

lemma refine_create:
  assumes rel: "co_rel (V, A, Co_Create f x secs k) ((stack, Co_Create f x secs k), m)"
    and fits: "0 < secs" "secs < 2147483648" and room: "heap_size (co_timer m) < 1073741824" and mem: "ce_malloc env (co_next m)"
  shows "co_matched env (V, A, Co_Create f x secs k) (stack, Co_Create f x secs k) m"
proof -
  let ?co = "\<lparr>co_args = x, co_status_of = CO_READY, co_ctx = None, co_yield_val = 0, co_func = f\<rparr>"
  have inv: "co_base m" and V: "all_parked (set_option (map_option fst A)) V m" using co_rel_base [OF rel] by simp_all
  obtain i m' where r: "create_coroutine env f x secs m = Inr (i, m')" "co_base m'" "0 < i" "get_coroutine i m = None"
    "running m' = running m" "main_context m' = main_context m" "co_mem m (co_next m) = None"
    "co_mem m' = (co_mem m)(co_next m \<mapsto> ?co)"
    "\<And>j. get_coroutine j m' = (if j = i then Some (co_next m) else get_coroutine j m)"
    by (rule create_ok [where f = f and x = x, OF inv room mem fits]) blast
  have old: "a \<noteq> co_next m" if "get_coroutine j m = Some a" for j a
    using r(7) co_baseD(2) [OF inv that] by auto
  have Vi: "V i = None" using all_parked_None [OF V, of i] r(4) by simp
  have Ai: "map_option fst A \<noteq> Some i" using rel r(4) by (cases A) auto
  have "all_parked (set_option (map_option fst A)) (V(i \<mapsto> (\<lambda>_. f x))) m'"
    unfolding all_parked_def
  proof (intro conjI allI impI)
    show "dom (V(i \<mapsto> (\<lambda>_. f x))) = {j. get_coroutine j m' \<noteq> None} - set_option (map_option fst A)"
      using V Ai r(9) by (auto simp: all_parked_def)
    fix j a g assume ja: "get_coroutine j m' = Some a" "(V(i \<mapsto> (\<lambda>_. f x))) j = Some g"
    show "parked (the (co_mem m' a)) a g"
    proof (cases "j = i")
      case True
      then show ?thesis using ja r(8,9) by (simp add: parked_def)
    next
      case False
      then show ?thesis using ja r(8,9) old [of j a] V by (simp add: all_parked_def)
    qed
  qed
  then have "co_rel (V(i \<mapsto> (\<lambda>_. f x)), A, k i) ((stack, k i), m')"
    by (rule co_rel_transfer [OF rel r(2,5,6)]) (use r(4,8,9) old in auto)
  then show ?thesis using r(1,3) Vi Ai 
    by (intro co_matchedI [where t' = "(stack, k i)" and m' = m', OF _ co_spec_step.create [of i V A]]) simp_all
qed

lemma refine_destroy:
  assumes rel: "co_rel (V, A, Co_Destroy i p) ((stack, Co_Destroy i p), m)" and fits: "map_option fst A \<noteq> Some i"
  shows "co_matched env (V, A, Co_Destroy i p) (stack, Co_Destroy i p) m"
proof (cases "get_coroutine i m")
  case None
  have "V i = None" using co_rel_base [OF rel] None all_parked_None [of _ V m i] by auto
  then have "V(i := None) = V" by auto
  moreover have "destroy_coroutine i m = Inr m" using None by (simp add: destroy_coroutine_def)
  moreover have "co_rel (V, A, p) ((stack, p), m)" using rel by (cases A) auto
  ultimately show ?thesis 
    by (intro co_matchedI [where t' = "(stack, p)" and m' = m, OF _ co_spec_step.destroy [OF fits]]) simp_all
next
  case (Some a)
  have inv: "co_base m" and V: "all_parked (set_option (map_option fst A)) V m" using co_rel_base [OF rel] by simp_all
  obtain m' where r: "destroy_coroutine i m = Inr m'" "co_base m'" "running m' = running m" "main_context m' = main_context m"
    "co_mem m' = (co_mem m)(a := None)" "\<And>j. get_coroutine j m' = (if j = i then None else get_coroutine j m)"
    by (rule destroy_ok [OF inv Some]) blast
  have other: "b \<noteq> a" if "get_coroutine j m = Some b" "j \<noteq> i" for j b
    using co_baseD(4) [OF inv Some, of j] that by auto
  have "all_parked (set_option (map_option fst A)) (V(i := None)) m'"
    unfolding all_parked_def
  proof (intro conjI allI impI)
    show "dom (V(i := None)) = {j. get_coroutine j m' \<noteq> None} - set_option (map_option fst A)"
      using V r(6) by (auto simp: all_parked_def)
    fix j b g assume jb: "get_coroutine j m' = Some b" "(V(i := None)) j = Some g"
    then show "parked (the (co_mem m' b)) b g"
      using V r(5,6) other [of j b] by (simp add: all_parked_def split: if_splits)
  qed
  then have "co_rel (V(i := None), A, p) ((stack, p), m')"
    by (rule co_rel_transfer [OF rel r(2-4)]) (use r(5,6) other fits in auto)
  then show ?thesis using r(1) 
    by (intro co_matchedI [where t' = "(stack, p)" and m' = m', OF _ co_spec_step.destroy [OF fits]]) simp_all
qed

text \<open>C7: As long as a program keeps to the interface (it does not resume a coroutine from within
  another one, gives every coroutine a time-out between 1 and 2^31 - 1 seconds, does not destroy the
  coroutine that runs, and returns only from a coroutine) and memory and timers suffice, each of its calls and
  returns is a step of the abstract machine: \<open>Resume\<close> runs the coroutine until it yields or ends and returns what it
  yields or returns, \<open>Yield\<close> returns the value of the next \<open>Resume\<close>, a coroutine that has ended is
  freed, and every coroutine has its own memory and one pending timer. \<open>Update\<close>, which runs the time-outs, is
  not a step of the machine.\<close>

theorem co_step_refines:
  assumes rel: "co_rel s (t, m)" and fits: "co_fits s" and room: "heap_size (co_timer m) < 1073741824"
    and mem: "ce_malloc env (co_next m)"
  shows "\<exists>t' m' s'. co_step env t m = Inr (Some (t', m')) \<and> co_spec_step s s' \<and> co_rel s' (t', m')"
proof -
  obtain V A p stack q where st: "s = (V, A, p)" "t = (stack, q)" by (cases s; cases t)
  then have q: "q = p" using rel co_rel_base by blast
  note rel' = rel [unfolded st q]
  have "co_matched env (V, A, p) (stack, p) m"
  proof (cases p)
    case (Co_Return v)
    then show ?thesis using fits rel' st refine_return by (cases A) auto
  next
    case (Co_Yield y k)
    then show ?thesis using rel' refine_yield by blast
  next
    case (Co_Resume i y k)
    then show ?thesis using rel' fits st refine_resume by simp
  next
    case (Co_Create f x secs k)
    then show ?thesis using rel' fits st room mem refine_create by simp
  next
    case (Co_Destroy i p)
    then show ?thesis using rel' fits st refine_destroy by simp
  qed
  then show ?thesis unfolding st q co_matched_def .
qed

section \<open>The start, and the test of the application\<close>

lemma co_rel_init: "co_rel (Map.empty, None, p) ((None, p), co_module_init 8 100)"
proof -
  have inv: "ht_inv (heap_timer_new 8 100)" by (rule ht_inv_new) (simp_all add: seed_ok_def rand_consts i32_id)
  have "pending_of (heap_timer_new 8 100) i = None" for i
    using pending_of_None [OF inv] by (simp add: live_def heap_timer_new_def)
  then show ?thesis using inv
    by (auto simp: co_module_init_def co_base_def all_parked_def get_coroutine_def fun_eq_iff)
qed

definition plenty :: co_env where
  "plenty = \<lparr>ce_now = 100, ce_malloc = \<lambda>_. True\<rparr>"

theorem co_step_refines_witness:
  "\<exists>t' m' s'. co_step plenty (None, Co_Create (\<lambda>x. Co_Return (x + 1)) 7 5 (\<lambda>i. Co_Resume i 0 Co_Return)) (co_module_init 8 100)
      = Inr (Some (t', m')) \<and>
    co_spec_step (Map.empty, None, Co_Create (\<lambda>x. Co_Return (x + 1)) 7 5 (\<lambda>i. Co_Resume i 0 Co_Return)) s' \<and> co_rel s' (t', m')"
  by (rule co_step_refines [OF co_rel_init]) (simp_all add: plenty_def co_module_init_def heap_timer_new_def)

text \<open>From a state between calls, with room and memory, the test of \<open>AppRun\<close> creates its coroutine,
  gets the string it yields from the first \<open>Resume\<close> and the string it returns from the second, and
  leaves no coroutine and no timer behind.\<close>

theorem app_run_test_spec:
  assumes rel: "co_rel (V, None, app_run_test want_to_yield exit_str hi ok rest) (t, m)"
    and room: "heap_size (co_timer m) < 1073741824" and mem: "ce_malloc env (co_next m)"
  shows "\<exists>m'. co_run env 5 t m = Inr ((None, rest (Some (want_to_yield, exit_str))), m') \<and>
    co_rel (V, None, rest (Some (want_to_yield, exit_str))) ((None, rest (Some (want_to_yield, exit_str))), m')"
proof -
  obtain stack q where t: "t = (stack, q)" by (cases t)
  let ?k = "\<lambda>i ret1. Co_Resume i ok (\<lambda>ret2. rest (Some (ret1, ret2)))"
  let ?f = "\<lambda>_ :: 64 word. Co_Yield want_to_yield (\<lambda>ret. Co_Return exit_str)"
  have r: "stack = None" "co_base m" "all_parked {} V m" "running m = - 1"
    "q = app_run_test want_to_yield exit_str hi ok rest" using rel t by simp_all
  have secs: "(0 :: int) < 5" "(5 :: int) < 2147483648" by simp_all
  have step: "\<exists>t' m' s'. co_step env t m = Inr (Some (t', m')) \<and> co_rel s' (t', m') \<and>
      (\<exists>i. 0 < i \<and> V i = None \<and> s' = (V(i \<mapsto> ?f), None, Co_Resume i 0 (?k i)))"
  proof -
    have "co_fits (V, None, app_run_test want_to_yield exit_str hi ok rest)" by (simp add: app_run_test_def)
    then have "co_matched env (V, None, app_run_test want_to_yield exit_str hi ok rest) t m"
      using rel room mem secs refine_create [of V None "test_co want_to_yield exit_str" hi 5 _ stack m env] t r(5)
      by (simp add: app_run_test_def)
    then obtain t' m' s' where s': "co_step env t m = Inr (Some (t', m'))" "co_rel s' (t', m')"
      "co_spec_step (V, None, app_run_test want_to_yield exit_str hi ok rest) s'" by (auto simp: co_matched_def)
    from s'(3) obtain i where "0 < i" "V i = None" "s' = (V(i \<mapsto> ?f), None, Co_Resume i 0 (?k i))"
      unfolding app_run_test_def test_co_def by (cases rule: co_spec_step.cases) auto
    then show ?thesis using s'(1,2) by blast
  qed
  then obtain t1 m1 i where s1: "co_step env t m = Inr (Some (t1, m1))" "0 < i" "V i = None"
    "co_rel (V(i \<mapsto> ?f), None, Co_Resume i 0 (?k i)) (t1, m1)" by blast
  obtain st1 q1 where t1: "t1 = (st1, q1)" by (cases t1)
  have r1: "t1 = (None, Co_Resume i 0 (?k i))" "co_base m1" "all_parked {} (V(i \<mapsto> ?f)) m1" using s1(4) t1 by simp_all
  have f: "(V(i \<mapsto> ?f)) i = Some ?f" by simp
  obtain a m2 where s2: "co_resume i 0 (?k i) None m1 = Inr ((Some a, ?f 0), m2)" "co_base m2" "running m2 = i"
    "get_coroutine i m1 = Some a" "\<And>j. get_coroutine j m2 = get_coroutine j m1"
    "main_context m2 = Some (Ctx_Resume i a (?k i) None)" "all_parked {i} ((V(i \<mapsto> ?f))(i := None)) m2"
    by (rule resume_ok [where y = 0 and k = "?k i" and stack = None, OF r1(2,3) f]) blast
  have g2: "get_coroutine i m2 = Some a" using s2(4,5) by simp
  obtain m3 where s3: "co_yield want_to_yield (\<lambda>ret. Co_Return exit_str) (Some a) m2 = Inr ((None, ?k i want_to_yield), m3)"
    "co_base m3" "running m3 = - 1" "all_parked {} (((V(i \<mapsto> ?f))(i := None))(i \<mapsto> (\<lambda>ret. Co_Return exit_str))) m3"
    by (rule yield_ok [OF s2(2,7,3) g2 s2(6)])
  let ?k2 = "\<lambda>ret2. rest (Some (want_to_yield, ret2))"
  have f3: "(((V(i \<mapsto> ?f))(i := None))(i \<mapsto> (\<lambda>ret. Co_Return exit_str))) i = Some (\<lambda>ret. Co_Return exit_str)" by simp
  obtain b m4 where s4: "co_resume i ok ?k2 None m3 = Inr ((Some b, Co_Return exit_str), m4)" "co_base m4" "running m4 = i"
    "get_coroutine i m3 = Some b" "\<And>j. get_coroutine j m4 = get_coroutine j m3"
    "main_context m4 = Some (Ctx_Resume i b ?k2 None)"
    "all_parked {i} ((((V(i \<mapsto> ?f))(i := None))(i \<mapsto> (\<lambda>ret. Co_Return exit_str)))(i := None)) m4"
    by (rule resume_ok [where y = ok and k = ?k2 and stack = None, OF s3(2,4) f3]) blast
  have V: "(((V(i \<mapsto> ?f))(i := None))(i \<mapsto> (\<lambda>ret. Co_Return exit_str)))(i := None) = V"
    using s1(3) by (auto simp: fun_eq_iff)
  have p4: "all_parked (insert i {}) V m4" using s4(7) V by simp
  have g4: "get_coroutine i m4 = Some b" using s4(4,5) by simp
  obtain m5 where s5: "schedule_end exit_str b m4 = Inr ((None, ?k2 exit_str), m5)" "co_base m5" "running m5 = - 1" "all_parked {} V m5"
    by (rule return_ok [OF s4(2) p4 _ s4(3) g4 s4(6)]) simp_all
  have "co_run env 5 t m = Inr ((None, rest (Some (want_to_yield, exit_str))), m5)"
    using s1(1) r1(1) s2(1) s3(1) s4(1) s5(1) by (simp add: eval_nat_numeral)
  then show ?thesis using s5(2-4) by auto
qed

theorem app_run_test_spec_witness:
  "\<exists>m'. co_run plenty 5 (None, app_run_test 1 2 3 4 (\<lambda>r. case r of None \<Rightarrow> Co_Return 0 | Some (a, b) \<Rightarrow> Co_Return (a + b)))
     (co_module_init 8 100) = Inr ((None, Co_Return 3), m')"
  using app_run_test_spec [OF co_rel_init, of plenty 1 2 3 4 "\<lambda>r. case r of None \<Rightarrow> Co_Return 0 | Some (a, b) \<Rightarrow> Co_Return (a + b)"]
  by (auto simp: plenty_def co_module_init_def heap_timer_new_def)

section \<open>Outside of the interface\<close>

text \<open>There is one \<open>main_context_\<close> for all: when a coroutine resumes another one that ends, and then
  ends itself, control goes to the point behind the inner \<open>Resume\<close> a second time, which reads
  the memory of the coroutine that was freed there.\<close>

theorem nested_resume_dangles:
  assumes rel: "co_rel (V, None, Co_Resume i x k) (t, m)" and ij: "i \<noteq> j"
    and i: "V i = Some f" "f x = Co_Resume j y (\<lambda>r. Co_Return v)" and j: "V j = Some g" "g y = Co_Return u"
  shows "co_run env 4 t m = Inl Dangling"
proof -
  obtain stack q where t: "t = (stack, q)" by (cases t)
  have r: "t = (None, Co_Resume i x k)" "co_base m" "all_parked {} V m" using rel t by simp_all
  obtain a m1 where s1: "co_resume i x k None m = Inr ((Some a, f x), m1)" "co_base m1"
    "get_coroutine i m = Some a" "\<And>l. get_coroutine l m1 = get_coroutine l m" "all_parked {i} (V(i := None)) m1"
    by (rule resume_ok [where y = x and k = k and stack = None, OF r(2,3) i(1)]) blast
  have Vj: "(V(i := None)) j = Some g" using ij j(1) by simp
  let ?c = "\<lambda>r :: 64 word. Co_Return v"
  obtain b m2 where s2: "co_resume j y ?c (Some a) m1 = Inr ((Some b, g y), m2)" "co_base m2" "running m2 = j"
    "get_coroutine j m1 = Some b" "\<And>l. get_coroutine l m2 = get_coroutine l m1"
    "main_context m2 = Some (Ctx_Resume j b ?c (Some a))" "all_parked {j, i} ((V(i := None))(j := None)) m2"
    by (rule resume_ok [where y = y and k = ?c and stack = "Some a", OF s1(2,5) Vj]) blast
  have g2: "get_coroutine j m2 = Some b" using s2(4,5) by simp
  obtain m3 where s3: "schedule_end u b m2 = Inr ((Some a, Co_Return v), m3)" "co_base m3"
    "main_context m3 = Some (Ctx_Resume j b ?c (Some a))" "co_mem m3 b = None" "\<And>c. c \<noteq> b \<Longrightarrow> co_mem m3 c = co_mem m2 c"
    by (rule return_ok [where X = "{i}", OF s2(2,7) _ s2(3) g2 s2(6)]) (use ij s2(6) in auto)
  have ab: "a \<noteq> b" using co_baseD(4) [OF s1(2) s2(4), of i] s1(3,4) ij by auto
  have "get_coroutine i m2 = Some a" using s1(3,4) s2(5) by simp
  then have "co_mem m3 a = Some (the (co_mem m2 a))" using co_baseD(2) [OF s2(2), of i a] s3(5) [OF ab] by simp
  then have "schedule_end v a m3 = Inl Dangling"
    using s3(3,4) ab by (simp add: schedule_end_def co_at_def co_put_def)
  then show ?thesis using r(1) s1(1) s2(1) s3(1) i(2) j(2) by (simp add: eval_nat_numeral)
qed

text \<open>Two coroutines, the second of which resumes the first.\<close>

lemma create_rel:
  assumes rel: "co_rel (V, None, Co_Create f x secs k) ((None, Co_Create f x secs k), m)" and secs: "0 < secs" "secs < 2147483648"
    and room: "heap_size (co_timer m) < 1073741824" and mem: "ce_malloc env (co_next m)"
  obtains i m' where "co_step env (None, Co_Create f x secs k) m = Inr (Some ((None, k i), m'))" "V i = None"
    "co_rel (V(i \<mapsto> (\<lambda>_. f x)), None, k i) ((None, k i), m')" "heap_size (co_timer m') \<le> 2 * heap_size (co_timer m)"
proof -
  obtain t' m' s' where st: "co_step env (None, Co_Create f x secs k) m = Inr (Some (t', m'))"
    "co_spec_step (V, None, Co_Create f x secs k) s'" "co_rel s' (t', m')"
    using refine_create [OF rel secs room mem] by (auto simp: co_matched_def)
  from st(2) obtain i where s': "s' = (V(i \<mapsto> (\<lambda>_. f x)), None, k i)" "V i = None"
    by (cases rule: co_spec_step.cases) auto
  have t': "t' = (None, k i)" using st(3) s'(1) by (cases t') simp
  have "heap_size (co_timer m') \<le> 2 * heap_size (co_timer m)"
    using st(1) by (auto simp: create_coroutine_def rbind_eq_Inr_iff Let_def co_put_def split: if_splits dest: register_heap_size)
  then show thesis using that st(1,3) s' t' by simp
qed

definition nested_main :: co_prog where
  "nested_main = Co_Create (\<lambda>_. Co_Return 1) 0 5 (\<lambda>j. Co_Create (\<lambda>_. Co_Resume j 0 (\<lambda>r. Co_Return 2)) 0 5 (\<lambda>i. Co_Resume i 0 Co_Return))"

theorem nested_resume_dangles_witness: "co_run plenty 6 (None, nested_main) (co_module_init 8 100) = Inl Dangling"
proof -
  let ?m = "co_module_init 8 100" and ?g = "\<lambda>_ :: 64 word. Co_Return 1"
  let ?f = "\<lambda>j (_ :: 64 word). Co_Resume j 0 (\<lambda>r. Co_Return 2)"
  let ?k = "\<lambda>j. Co_Create (?f j) 0 5 (\<lambda>i. Co_Resume i 0 Co_Return)"
  have n: "heap_size (co_timer ?m) < 10" by (simp add: co_module_init_def heap_timer_new_def)
  have secs: "(0 :: int) < 5" "(5 :: int) < 2147483648" by simp_all
  have rel0: "co_rel (Map.empty, None, Co_Create ?g 0 5 ?k) ((None, Co_Create ?g 0 5 ?k), ?m)" by (rule co_rel_init)
  have mem: "ce_malloc plenty a" for a by (simp add: plenty_def)
  have room: "heap_size (co_timer ?m) < 1073741824" using n by simp
  obtain j m1 where s1: "co_step plenty (None, Co_Create ?g 0 5 ?k) ?m = Inr (Some ((None, ?k j), m1))"
    "co_rel (Map.empty(j \<mapsto> ?g), None, ?k j) ((None, ?k j), m1)" "heap_size (co_timer m1) < 20"
    by (rule create_rel [OF rel0 secs room mem]) (use n in auto)
  have room1: "heap_size (co_timer m1) < 1073741824" using s1(3) by simp
  let ?r = "\<lambda>i. Co_Resume i 0 Co_Return"
  obtain i m2 where s2: "co_step plenty (None, Co_Create (?f j) 0 5 ?r) m1 = Inr (Some ((None, ?r i), m2))"
    "(Map.empty(j \<mapsto> ?g)) i = None" "co_rel (Map.empty(j \<mapsto> ?g, i \<mapsto> ?f j), None, ?r i) ((None, ?r i), m2)"
    by (rule create_rel [OF s1(2) secs room1 mem]) blast
  have ij: "i \<noteq> j" using s2(2) by auto
  have "co_run plenty 4 (None, ?r i) m2 = Inl Dangling"
    by (rule nested_resume_dangles [where f = "?f j" and g = ?g, OF s2(3) ij]) (use ij in simp_all)
  moreover have "co_run plenty 6 (None, nested_main) ?m = co_run plenty 4 (None, ?r i) m2"
    using s1(1) s2(1) by (simp add: nested_main_def eval_nat_numeral del: co_step.simps)
  ultimately show ?thesis by simp
qed

text \<open>Coroutines without a time-out all get the id 0: the second one is allocated and lost, and the
  id it is returned under is that of the first.\<close>

theorem create_zero_collides:
  "get_coroutine 0 m = Some a \<Longrightarrow> secs \<le> 0 \<Longrightarrow> ce_malloc env (co_next m) \<Longrightarrow> co_next m \<noteq> a \<Longrightarrow>
   \<exists>m'. create_coroutine env f x secs m = Inr (0, m') \<and> get_coroutine 0 m' = Some a \<and> co_mem m' a = co_mem m a \<and>
     co_mem m' (co_next m) \<noteq> None"
  by (auto simp: create_coroutine_def Let_def smap_insert_def get_coroutine_def co_put_def)

theorem create_zero_collides_witness:
  "\<exists>m1 m2. create_coroutine plenty Co_Return 3 0 (co_module_init 8 100) = Inr (0, m1) \<and>
     create_coroutine plenty Co_Return 4 0 m1 = Inr (0, m2) \<and> get_coroutine 0 m2 = Some 1 \<and> co_mem m2 2 \<noteq> None"
proof -
  obtain m1 where m1: "create_coroutine plenty Co_Return 3 0 (co_module_init 8 100) = Inr (0, m1)"
    "get_coroutine 0 m1 = Some 1" "co_next m1 = 2"
    by (simp add: create_coroutine_def plenty_def co_module_init_def get_coroutine_def smap_insert_def co_put_def)
  then show ?thesis using create_zero_collides [of m1 1 0 plenty Co_Return 4] by (auto simp: plenty_def)
qed

text \<open>\<open>OnTimer\<close> unregisters the timer it is run for, so the first time-out of a coroutine makes
  \<open>Update\<close> use the timer node that it has freed.\<close>

theorem coroutine_timeout_dangles:
  assumes inv: "co_base m" and due: "due (co_timer m) now \<noteq> {}"
  shows "co_update now m = Some (Inl Dangling)"
proof -
  let ?ht = "co_timer m" and ?n = "the (nodes (co_timer m) (heap (co_timer m) ! 0))"
  have ht: "ht_inv ?ht" using inv by (simp add: co_base_def)
  have "0 < cur_size ?ht" using due by (auto simp: due_def live_def)
  then have root: "heap ?ht ! 0 \<in> live ?ht" by (rule root_facts(1) [OF ht])
  note p = pending_of_Some [OF ht root]
  obtain a where a: "get_coroutine (timer_id ?n) m = Some a" and cb: "cb_obj ?n = Some co_cb"
    using p inv by (auto simp: co_base_def split: if_splits)
  note d = co_baseD [OF inv a]
  let ?m1 = "\<lambda>ht. m\<lparr>co_mem := (co_mem m)(a := None), coroutine_map := smap_erase (timer_id ?n) (coroutine_map m), co_timer := ht\<rparr>"
  have "destroy_coroutine (timer_id ?n) m = rbind (unregister_timer (timer_id ?n) ?ht) (\<lambda>ht. Inr (?m1 ht))"
    using a d(1,3) by (simp add: destroy_coroutine_def co_free_def)
  then have "co_on_timer co_cb (timer_id ?n) (node_data ?n) (?ht, m) =
      rbind (unregister_timer (timer_id ?n) ?ht) (\<lambda>ht'. Inr (- 1, ht', ?m1 ht'))"
    by (cases "unregister_timer (timer_id ?n) ?ht") (simp_all add: co_on_timer_def)
  then have "poll_step co_on_timer now ?ht m = Inl Dangling"
    by (rule poll_self_unregister [where exec = co_on_timer and w = m and ret = "- 1" and g = ?m1, OF ht due refl cb])
  then show ?thesis by (subst co_update_def, subst timer_poll.simps) simp
qed

theorem coroutine_timeout_dangles_witness:
  "\<exists>i m now. create_coroutine plenty Co_Return 3 5 (co_module_init 8 100) = Inr (i, m) \<and> co_update now m = Some (Inl Dangling)"
proof -
  have inv: "co_base (co_module_init 8 100)" using co_rel_init [of "Co_Return 0"] by simp
  have pre: "heap_size (co_timer (co_module_init 8 100)) < 1073741824" "ce_malloc plenty (co_next (co_module_init 8 100))"
    "(0 :: int) < 5" "(5 :: int) < 2147483648" by (simp_all add: co_module_init_def heap_timer_new_def plenty_def)
  obtain i m where m: "create_coroutine plenty Co_Return 3 5 (co_module_init 8 100) = Inr (i, m)" "co_base m"
    "\<And>j. get_coroutine j m = (if j = i then Some (co_next (co_module_init 8 100)) else get_coroutine j (co_module_init 8 100))"
    by (rule create_ok [where f = Co_Return and x = 3, OF inv pre]) blast
  have ht: "ht_inv (co_timer m)" using m(2) by (simp add: co_base_def)
  have "get_coroutine i m \<noteq> None" using m(3) [of i] by simp
  then have "pending_of (co_timer m) i \<noteq> None" using m(2) by (simp add: co_base_def)
  then obtain a where "a \<in> live (co_timer m)" using pending_of_None [OF ht, of i] by auto
  then have "a \<in> due (co_timer m) (expire_time (the (nodes (co_timer m) a)))" by (simp add: due_def)
  then have "due (co_timer m) (expire_time (the (nodes (co_timer m) a))) \<noteq> {}" by blast
  then show ?thesis using coroutine_timeout_dangles [OF m(2)] m(1) by blast
qed

end
