(* ===== verification/Game_App.thy ===== *)
theory Game_App
  imports Game_Run Coroutine_Props Server_Frame_Props
begin

text \<open>
  The application \<open>gamesvr\<close> (\<open>gamesvr/app.{h,cpp}\<close> with the \<open>ModuleInit\<close> and \<open>ModuleFini\<close> of its
  modules) in the frame of \<open>Server_Frame\<close>: it is an \<open>application\<close> whose invariant is that of its
  objects, logics and coroutines, so from the command line on every pass starts with consistent players.
\<close>

section \<open>The modules\<close>

text \<open>The configuration without the addresses of the sockets, and what the system calls of the
  initialisation return; the text format is parsed by protobuf. A shared-memory segment is what
  \<open>ShmMemory::Init\<close> returns for its key: whether it could be attached, whether it is new, and what
  it holds.\<close>

record game_config =
  gc_timer_init_size :: int
  gc_logic_timer_init_size :: int
  gc_player_pool_key :: int
  gc_player_pool_size :: int
  gc_city_pool_key :: int
  gc_city_pool_size :: int

record game_boot =
  gb_open :: "string \<Rightarrow> int"
  gb_parse :: "string \<Rightarrow> game_config option"
  gb_now :: int
  gb_zmq_init :: bool
  gb_conn_socket :: bool
  gb_conn_bind :: bool
  gb_data_socket :: bool
  gb_data_connect :: bool
  gb_player_shm :: "int \<Rightarrow> bool \<times> int \<times> player shm_pool"
  gb_city_shm :: "int \<Rightarrow> bool \<times> int \<times> city shm_pool"

definition GAME_ID_CONFIG :: int where "GAME_ID_CONFIG = 0x9fff"
definition GAME_ID_TIMER_MGR :: int where "GAME_ID_TIMER_MGR = GAME_ID_CONFIG + 1"
definition GAME_ID_MSG :: int where "GAME_ID_MSG = GAME_ID_TIMER_MGR + 1"
definition GAME_ID_LOGIC :: int where "GAME_ID_LOGIC = MODULE_ID_PLAYER_MGR + 2"
definition GAME_ID_COROUTINE :: int where "GAME_ID_COROUTINE = GAME_ID_LOGIC + 1"

lemmas game_ids = GAME_ID_CONFIG_def GAME_ID_TIMER_MGR_def GAME_ID_MSG_def MODULE_ID_PLAYER_MGR_def GAME_ID_LOGIC_def GAME_ID_COROUTINE_def

datatype game_module = GM_Config game_config | GM_Timer_Mgr | GM_Msg | GM_Obj_Mgr | GM_Lua_Engine | GM_Logic | GM_Coroutine

text \<open>\<open>ConfigModule::ModuleInit\<close>, and \<open>FindModule<ConfigModule>\<close> with the static cast to the class.\<close>

definition game_config_init :: "game_boot \<Rightarrow> string \<Rightarrow> game_config res" where
  "game_config_init bo conf_file =
     rbind (guard Check_Failed (gb_open bo conf_file > 0)) (\<lambda>_.
     case gb_parse bo conf_file of None \<Rightarrow> Inl Check_Failed | Some cfg \<Rightarrow> Inr cfg)"

definition find_game_config :: "game_module module_map \<Rightarrow> game_config res" where
  "find_game_config mm =
     rbind (find_module mm GAME_ID_CONFIG) (\<lambda>m. case m of GM_Config cfg \<Rightarrow> Inr cfg | _ \<Rightarrow> Inl Type_Confusion)"

definition timer_mgr_module_init :: "game_boot \<Rightarrow> game_module module_map \<Rightarrow> heap_timer res" where
  "timer_mgr_module_init bo mm =
     rbind (find_game_config mm) (\<lambda>cfg. Inr (timer_mgr_init (nat (u32 (gc_timer_init_size cfg))) (gb_now bo)))"

definition msg_module_init :: "game_boot \<Rightarrow> game_module module_map \<Rightarrow> unit res" where
  "msg_module_init bo mm =
     rbind (find_game_config mm) (\<lambda>_.
     rbind (guard Check_Failed (gb_zmq_init bo)) (\<lambda>_.
     rbind (guard Check_Failed (gb_conn_socket bo)) (\<lambda>_.
     rbind (guard Check_Failed (gb_conn_bind bo)) (\<lambda>_.
     rbind (guard Check_Failed (gb_data_socket bo)) (\<lambda>_.
     guard Check_Failed (gb_data_connect bo))))))"

text \<open>\<open>ObjMgrModule::ModuleInit\<close>; a unit of the pools is an object with its position.\<close>

definition player_pool_init :: "game_boot \<Rightarrow> game_config \<Rightarrow> int \<times> player shm_pool option" where
  "player_pool_init bo cfg =
     (case gb_player_shm bo (gc_player_pool_key cfg) of (base, first_time, old) \<Rightarrow>
        pool_init base first_time old (gc_player_pool_size cfg) 440 player_zero)"

definition city_pool_init :: "game_boot \<Rightarrow> game_config \<Rightarrow> int \<times> city shm_pool option" where
  "city_pool_init bo cfg =
     (case gb_city_shm bo (gc_city_pool_key cfg) of (base, first_time, old) \<Rightarrow>
        pool_init base first_time old (gc_city_pool_size cfg) 12 city_zero)"

definition obj_mgr_module_init :: "game_boot \<Rightarrow> game_module module_map \<Rightarrow> gamesvr \<Rightarrow> gamesvr res" where
  "obj_mgr_module_init bo mm w =
     rbind (find_game_config mm) (\<lambda>cfg. obj_mgr_init mm (player_pool_init bo cfg) (city_pool_init bo cfg) w)"

definition logic_module_init :: "game_boot \<Rightarrow> game_module module_map \<Rightarrow> gamesvr \<Rightarrow> gamesvr res" where
  "logic_module_init bo mm w =
     rbind (find_game_config mm) (\<lambda>cfg.
     Inr (w\<lparr>logic_timer := heap_timer_new (nat (u32 (gc_logic_timer_init_size cfg))) (gb_now bo), logic_data_map := []\<rparr>))"

definition coroutine_module_init :: "game_boot \<Rightarrow> game_module module_map \<Rightarrow> co_module res" where
  "coroutine_module_init bo mm =
     rbind (find_game_config mm) (\<lambda>cfg. Inr (co_module_init (nat (u32 (gc_logic_timer_init_size cfg))) (gb_now bo)))"

section \<open>The application\<close>

record game_app =
  ga_modules :: "game_module module_map"
  ga_srv :: gamesvr
  ga_timer_mgr :: heap_timer
  ga_co :: co_module
  ga_test :: int

text \<open>A new \<open>App\<close>; \<open>ga_test\<close> is the static \<open>test_flag\<close> of \<open>AppRun\<close>.\<close>

definition game_app_new :: game_app where
  "game_app_new = \<lparr>ga_modules = [],
     ga_srv = \<lparr>player_pool = pool_fresh 0 0 player_zero, city_pool = pool_fresh 0 0 city_zero, uid_to_player_idx_map = [],
       logic_timer = heap_timer_new 0 0, logic_data_map = [], msg_buf = replicate 10240 0, gout = []\<rparr>,
     ga_timer_mgr = heap_timer_new 0 0, ga_co = co_module_init 0 0, ga_test = 1\<rparr>"

definition game_app_init :: "game_boot \<Rightarrow> string \<Rightarrow> game_app \<Rightarrow> (int \<times> game_app) res" where
  "game_app_init bo conf_name a =
     rbind (game_config_init bo conf_name) (\<lambda>cfg.
     let mm1 = add_module GAME_ID_CONFIG (Some (GM_Config cfg)) (ga_modules a) in
     rbind (timer_mgr_module_init bo mm1) (\<lambda>tm.
     let mm2 = add_module GAME_ID_TIMER_MGR (Some GM_Timer_Mgr) mm1 in
     rbind (msg_module_init bo mm2) (\<lambda>_.
     let mm3 = add_module GAME_ID_MSG (Some GM_Msg) mm2 in
     rbind (obj_mgr_module_init bo mm3 (ga_srv a)) (\<lambda>w1.
     let mm4 = add_module MODULE_ID_PLAYER_MGR (Some GM_Obj_Mgr) mm3 in
     rbind (logic_module_init bo mm4 w1) (\<lambda>w2.
     let mm5 = add_module GAME_ID_LOGIC (Some GM_Logic) mm4 in
     rbind (coroutine_module_init bo mm5) (\<lambda>co.
     let mm6 = add_module GAME_ID_COROUTINE (Some GM_Coroutine) mm5 in
     Inr (0, a\<lparr>ga_modules := mm6, ga_srv := w2, ga_timer_mgr := tm, ga_co := co\<rparr>)))))))"

text \<open>The test of the coroutines in \<open>AppRun\<close>; \<open>lits\<close> are the addresses of its four strings. The
  test makes five calls.\<close>

definition app_test :: "co_env \<Rightarrow> (nat \<Rightarrow> 64 word) \<Rightarrow> co_module \<Rightarrow> co_module res" where
  "app_test env lits m =
     rbind (co_run env 6 (None, app_run_test (lits 0) (lits 1) (lits 2) (lits 3) (\<lambda>_. Co_Return 0)) m) (\<lambda>(_, m'). Inr m')"

text \<open>What the process gets from outside beside \<open>game_sys\<close>: the clock and the memory of the coroutines.\<close>

record game_world =
  gw_sys :: game_sys
  gw_co :: "geffect list \<Rightarrow> co_env"
  gw_lits :: "nat \<Rightarrow> 64 word"

text \<open>\<open>GetModule\<close> is a dynamic cast, null for another class.\<close>

definition running_modules :: "game_module module_map \<Rightarrow> unit res" where
  "running_modules mm =
     rbind (get_module mm GAME_ID_MSG) (\<lambda>msg_module.
     rbind (get_module mm GAME_ID_LOGIC) (\<lambda>logic_module.
     rbind (get_module mm GAME_ID_COROUTINE) (\<lambda>coroutine_module.
     guard Null_Deref (msg_module = Some GM_Msg \<and> logic_module = Some GM_Logic \<and> coroutine_module = Some GM_Coroutine))))"

definition game_server_run :: "game_world \<Rightarrow> game_app \<Rightarrow> game_app res option" where
  "game_server_run gw a =
     (case running_modules (ga_modules a) of
        Inl e \<Rightarrow> Some (Inl e)
      | Inr _ \<Rightarrow>
          (case game_app_run (gw_sys gw) (ga_srv a) of
             None \<Rightarrow> None
           | Some (Inl e) \<Rightarrow> Some (Inl e)
           | Some (Inr w) \<Rightarrow>
               (case co_update (gs_time (gw_sys gw) (gout w)) (ga_co a) of
                  None \<Rightarrow> None
                | Some (Inl e) \<Rightarrow> Some (Inl e)
                | Some (Inr co) \<Rightarrow>
                    let a1 = a\<lparr>ga_srv := w, ga_co := co\<rparr> in
                    Some (if ga_test a1 = 1
                          then rbind (app_test (gw_co gw (gout w)) (gw_lits gw) co) (\<lambda>co'. Inr (a1\<lparr>ga_co := co', ga_test := 2\<rparr>))
                          else Inr a1))))"

text \<open>\<open>ModuleFini\<close> of a module.\<close>

definition game_module_fini :: "game_module \<Rightarrow> game_app res \<Rightarrow> game_app res" where
  "game_module_fini m r =
     rbind r (\<lambda>a.
     case m of
       GM_Coroutine \<Rightarrow> rbind (co_module_fini (ga_co a)) (\<lambda>co. Inr (a\<lparr>ga_co := co\<rparr>))
     | GM_Logic \<Rightarrow> rbind (logic_fini (ga_srv a)) (\<lambda>w. Inr (a\<lparr>ga_srv := w\<rparr>))
     | GM_Timer_Mgr \<Rightarrow> rbind (timer_mgr_fini (ga_timer_mgr a)) (\<lambda>ht. Inr (a\<lparr>ga_timer_mgr := ht\<rparr>))
     | _ \<Rightarrow> Inr a)"

definition game_app_stop :: "game_app \<Rightarrow> game_app res" where
  "game_app_stop a =
     (case app_stop game_module_fini (ga_modules a) (Inr a) of (mm, r) \<Rightarrow> rbind r (\<lambda>a'. Inr (a'\<lparr>ga_modules := mm\<rparr>)))"

definition game_ops :: "game_boot \<Rightarrow> game_world \<Rightarrow> string \<Rightarrow> game_app app_ops" where
  "game_ops bo gw conf_name =
     \<lparr>ap_instance = Some game_app_new, ap_init = game_app_init bo conf_name, ap_run = game_server_run gw,
      ap_stop = \<lambda>a. Some (game_app_stop a), ap_reload = \<lambda>a. Inr a, ap_clean = \<lambda>a. Inr a\<rparr>"

section \<open>The coroutines between two passes\<close>

text \<open>Between two passes no coroutine is left.\<close>

definition co_clean :: "co_module \<Rightarrow> bool" where
  "co_clean m \<longleftrightarrow> co_base m \<and> running m = - 1 \<and> coroutine_map m = []"

lemma co_clean_rel: "co_clean m \<Longrightarrow> co_rel (Map.empty, None, p) ((None, p), m)"
  by (auto simp: co_clean_def all_parked_def get_coroutine_def)

lemma co_clean_init:
  assumes "1 \<le> n" "n + 1 < 2147483648" "seed_ok (i32 now)"
  shows "co_clean (co_module_init n now)"
proof -
  have inv: "ht_inv (heap_timer_new n now)" by (rule ht_inv_new [OF assms])
  have "pending_of (heap_timer_new n now) i = None" for i
    using pending_of_None [OF inv] by (simp add: live_def heap_timer_new_def)
  then show ?thesis using inv by (auto simp: co_clean_def co_module_init_def co_base_def get_coroutine_def fun_eq_iff)
qed

lemma co_clean_update:
  assumes "co_clean m"
  shows "co_update now m = Some (Inr m)"
proof -
  have inv: "ht_inv (co_timer m)" and p: "\<And>i. pending_of (co_timer m) i = None"
    using assms by (simp_all add: co_clean_def co_base_def get_coroutine_def)
  have "live (co_timer m) = {}" using pending_of_Some [OF inv] p by fastforce
  then have "cur_size (co_timer m) = 0" by (auto simp: live_def)
  then have "poll_step co_on_timer now (co_timer m) m = Inr None" by (simp add: poll_step_def)
  then show ?thesis by (simp add: co_update_def timer_poll.simps)
qed

lemma co_run_add: "co_run env (n + k) t m = rbind (co_run env n t m) (\<lambda>(t', m'). co_run env k t' m')"
proof (induction n arbitrary: t m)
  case (Suc n)
  show ?case
  proof (cases "co_step env t m")
    case (Inr r)
    show ?thesis
    proof (cases r)
      case None
      then have "co_run env k t m = Inr (t, m)" using Inr by (cases k) simp_all
      then show ?thesis using Inr None by simp
    qed (use Inr Suc.IH in auto)
  qed simp
qed simp

lemma app_test_clean:
  assumes m: "co_clean m" and room: "heap_size (co_timer m) < 1073741824" and mem: "\<And>a. ce_malloc env a"
  shows "\<exists>m'. app_test env lits m = Inr m' \<and> co_clean m'"
proof -
  let ?p = "app_run_test (lits 0) (lits 1) (lits 2) (lits 3) (\<lambda>_. Co_Return 0)"
  obtain m' where r: "co_run env 5 (None, ?p) m = Inr ((None, Co_Return 0), m')"
    "co_rel (Map.empty, None, Co_Return 0) ((None, Co_Return 0), m')"
    using app_run_test_spec [OF co_clean_rel [OF m] room mem] by blast
  have "co_run env (5 + 1) (None, ?p) m = Inr ((None, Co_Return 0), m')"
    unfolding co_run_add r(1) by simp
  then have "app_test env lits m = Inr m'" by (simp add: app_test_def)
  moreover have "co_clean m'"
  proof -
    have "get_coroutine i m' = None" for i using r(2) by (auto simp: all_parked_def)
    then have "coroutine_map m' = []" by (simp add: get_coroutine_def map_of_eq_None_iff) (metis fst_conv list.set_intros(1) neq_Nil_conv prod.collapse image_eqI)
    then show ?thesis using r(2) by (simp add: co_clean_def)
  qed
  ultimately show ?thesis by blast
qed

section \<open>The invariant of the running server\<close>

text \<open>The modules of a server that is up, in the order of their ids.\<close>

definition modules_up :: "game_module module_map \<Rightarrow> bool" where
  "modules_up mm \<longleftrightarrow> (\<exists>cfg. mm = [(40959, Some (GM_Config cfg)), (40960, Some GM_Timer_Mgr), (40961, Some GM_Msg),
     (40962, Some GM_Obj_Mgr), (40964, Some GM_Logic), (40965, Some GM_Coroutine)])"

definition game_app_inv :: "game_app \<Rightarrow> bool" where
  "game_app_inv a \<longleftrightarrow> modules_up (ga_modules a) \<and> (heap_size (logic_timer (ga_srv a)) < 1073741824 \<longrightarrow> game_inv (ga_srv a)) \<and>
     co_clean (ga_co a) \<and> (ga_test a = 1 \<longrightarrow> heap_size (co_timer (ga_co a)) < 1073741824) \<and> ht_inv (ga_timer_mgr a)"

text \<open>The configuration gives both timer heaps a size, and the segments are new or hold what a server
  with consistent players left there. The clock is in the range of the seeds.\<close>

definition config_ok :: "game_boot \<Rightarrow> game_config \<Rightarrow> bool" where
  "config_ok bo cfg \<longleftrightarrow> 1 \<le> gc_timer_init_size cfg \<and> gc_timer_init_size cfg < 1073741823 \<and>
     1 \<le> gc_logic_timer_init_size cfg \<and> gc_logic_timer_init_size cfg < 1073741823 \<and>
     (\<forall>pp cp. player_pool_init bo cfg = (0, Some pp) \<and> city_pool_init bo cfg = (0, Some cp) \<longrightarrow>
        obj_inv ((ga_srv game_app_new)\<lparr>player_pool := pp, city_pool := cp\<rparr>))"

definition game_env :: "game_boot \<Rightarrow> game_world \<Rightarrow> bool" where
  "game_env bo gw \<longleftrightarrow> (\<forall>es. tv_canonical (gs_time (gw_sys gw) es)) \<and> (\<forall>es a. ce_malloc (gw_co gw es) a) \<and>
     seed_ok (i32 (gb_now bo)) \<and> (\<forall>f cfg. gb_parse bo f = Some cfg \<longrightarrow> config_ok bo cfg)"

lemma fresh_logic_inv:
  assumes "ht_inv (logic_timer w)" "cur_size (logic_timer w) = 0" "logic_data_map w = []"
  shows "logic_inv w"
proof -
  have "pending_of (logic_timer w) i = None" for i using pending_of_None [OF assms(1)] assms(2) by (simp add: live_def)
  then show ?thesis using assms by (simp add: logic_inv_def all_periodic_def live_def get_logic_data_def fun_eq_iff)
qed

text \<open>The module map while the modules are added.\<close>

lemma game_module_ids:
  "u64 GAME_ID_CONFIG = 40959" "u64 GAME_ID_TIMER_MGR = 40960" "u64 GAME_ID_MSG = 40961" "u64 MODULE_ID_PLAYER_MGR = 40962"
  "u64 GAME_ID_LOGIC = 40964" "u64 GAME_ID_COROUTINE = 40965"
  by (simp_all add: game_ids u64_id)

lemma find_game_config_first: "find_game_config ((40959, Some (GM_Config cfg)) # mm) = Inr cfg"
  by (simp add: find_game_config_def find_module_def game_module_ids)

lemma before_obj_mgr:
  "add_module GAME_ID_MSG (Some GM_Msg) (add_module GAME_ID_TIMER_MGR (Some GM_Timer_Mgr) (add_module GAME_ID_CONFIG (Some (GM_Config cfg)) []))
     = modules_before_obj_mgr (GM_Config cfg) GM_Timer_Mgr GM_Msg"
  by (simp add: modules_before_obj_mgr_def game_ids)

lemma new_app: "ga_modules game_app_new = []" "ga_test game_app_new = 1"
  by (simp_all add: game_app_new_def)

text \<open>The objects of a server that has come up.\<close>

lemma objects_started:
  fixes w :: gamesvr
  assumes run: "obj_mgr_module_init bo [(40959, Some (GM_Config cfg)), (40960, Some GM_Timer_Mgr), (40961, Some GM_Msg)] w = Inr w1"
    and ok: "\<forall>pp cp. player_pool_init bo cfg = (0, Some pp) \<and> city_pool_init bo cfg = (0, Some cp) \<longrightarrow>
        obj_inv (w\<lparr>player_pool := pp, city_pool := cp\<rparr>)"
  obtains pp cp where "w1 = w\<lparr>player_pool := pp, city_pool := cp\<rparr>" "obj_inv w1"
proof -
  let ?c = "(40959, Some (GM_Config cfg))"
  have mm: "add_module GAME_ID_CONFIG (Some (GM_Config cfg)) [] = [?c]"
    "add_module GAME_ID_TIMER_MGR (Some GM_Timer_Mgr) [?c] = [?c, (40960, Some GM_Timer_Mgr)]"
    "add_module GAME_ID_MSG (Some GM_Msg) [?c, (40960, Some GM_Timer_Mgr)] = [?c, (40960, Some GM_Timer_Mgr), (40961, Some GM_Msg)]"
    by (simp_all add: add_module_def game_module_ids)
  have w1: "obj_mgr_init [?c, (40960, Some GM_Timer_Mgr), (40961, Some GM_Msg)] (player_pool_init bo cfg) (city_pool_init bo cfg) w = Inr w1"
    using run by (simp add: obj_mgr_module_init_def find_game_config_first)
  obtain pp cp where pc: "player_pool_init bo cfg = (0, Some pp)" "city_pool_init bo cfg = (0, Some cp)"
    using w1 by (cases "player_pool_init bo cfg"; cases "city_pool_init bo cfg")
      (auto simp: obj_mgr_init_def rbind_eq_Inr_iff split: option.splits)
  have inv: "obj_inv (w\<lparr>player_pool := pp, city_pool := cp\<rparr>)" using ok pc by simp
  then have "pool_inv pp" by (simp add: obj_inv_def)
  then have "w1 = w\<lparr>player_pool := pp, city_pool := cp\<rparr>"
    using obj_mgr_init_result [of pp "GM_Config cfg" GM_Timer_Mgr GM_Msg cp w] w1 pc before_obj_mgr [of cfg] mm
    by (simp split: if_splits)
  then show thesis using that inv by simp
qed

lemma game_app_init_inv:
  assumes run: "game_app_init bo conf_name game_app_new = Inr (r, a)" and env: "game_env bo gw"
  shows "game_app_inv a"
proof -
  obtain cfg where cfg: "game_config_init bo conf_name = Inr cfg" using run by (auto simp: game_app_init_def elim: rbind_InrE)
  then have ok: "config_ok bo cfg"
    using env by (auto simp: game_config_init_def rbind_eq_Inr_iff game_env_def split: option.splits)
  have seed: "seed_ok (i32 (gb_now bo))" using env by (simp add: game_env_def)
  let ?c = "(40959, Some (GM_Config cfg))" and ?w = "ga_srv game_app_new"
  have mm: "add_module GAME_ID_CONFIG (Some (GM_Config cfg)) [] = [?c]"
    "add_module GAME_ID_TIMER_MGR (Some GM_Timer_Mgr) [?c] = [?c, (40960, Some GM_Timer_Mgr)]"
    "add_module GAME_ID_MSG (Some GM_Msg) [?c, (40960, Some GM_Timer_Mgr)] = [?c, (40960, Some GM_Timer_Mgr), (40961, Some GM_Msg)]"
    by (simp_all add: add_module_def game_module_ids)
  let ?n = "nat (u32 (gc_timer_init_size cfg))" and ?ln = "nat (u32 (gc_logic_timer_init_size cfg))"
  have n: "1 \<le> ?n" "?n + 1 < 1073741824" "1 \<le> ?ln" "?ln + 1 < 1073741824"
    using ok by (auto simp: config_ok_def u32_id)
  obtain w1 where w1: "obj_mgr_module_init bo [?c, (40960, Some GM_Timer_Mgr), (40961, Some GM_Msg)] ?w = Inr w1"
    and a: "ga_timer_mgr a = heap_timer_new ?n (gb_now bo)" "ga_co a = co_module_init ?ln (gb_now bo)" "ga_test a = 1"
      "ga_srv a = w1\<lparr>logic_timer := heap_timer_new ?ln (gb_now bo), logic_data_map := []\<rparr>" "modules_up (ga_modules a)"
    using run cfg
    by (auto simp: game_app_init_def Let_def rbind_eq_Inr_iff new_app mm find_game_config_first timer_mgr_module_init_def
        timer_mgr_init_def logic_module_init_def coroutine_module_init_def modules_up_def add_module_def game_module_ids)
  obtain pp cp where w1': "w1 = ?w\<lparr>player_pool := pp, city_pool := cp\<rparr>" "obj_inv w1"
    by (rule objects_started [OF w1]) (use ok in \<open>simp_all add: config_ok_def\<close>)
  have ht: "ht_inv (heap_timer_new ?n (gb_now bo))" "ht_inv (heap_timer_new ?ln (gb_now bo))"
    by (rule ht_inv_new; use n seed in simp)+
  have co: "co_clean (ga_co a)" unfolding a(2) by (rule co_clean_init) (use n seed in simp_all)
  have "logic_inv (ga_srv a)" by (rule fresh_logic_inv) (use ht(2) in \<open>simp_all add: a(4) heap_timer_new_def\<close>)
  moreover have "obj_inv (ga_srv a)" using w1'(2) obj_inv_cong [of "ga_srv a" w1] by (simp add: a(4))
  moreover have "heap_size (co_timer (ga_co a)) < 1073741824" using n(4) by (simp add: a(2) co_module_init_def heap_timer_new_def)
  ultimately show ?thesis using a(1,5) ht(1) co by (simp add: game_app_inv_def game_inv_def)
qed

lemma game_app_run_grows: "game_app_run sys w = Some (Inr w') \<Longrightarrow> heap_size (logic_timer w) \<le> heap_size (logic_timer w')"
  by (auto simp: game_app_run_def msg_run_def dest!: run_times_grows [unfolded grows_def] logic_update_size split: sum.splits)

lemma game_server_run_inv:
  assumes env: "game_env bo gw" and inv: "game_app_inv a" and run: "game_server_run gw a = Some (Inr a')"
  shows "game_app_inv a'"
proof -
  obtain w where w: "game_app_run (gw_sys gw) (ga_srv a) = Some (Inr w)"
    using run by (auto simp: game_server_run_def split: sum.splits option.splits)
  have clean: "co_clean (ga_co a)" using inv by (simp add: game_app_inv_def)
  have srv: "heap_size (logic_timer w) < 1073741824 \<longrightarrow> game_inv w"
    using game_pass_keeps [OF _ _ _ w] game_app_run_grows [OF w] inv env by (auto simp: game_app_inv_def game_env_def game_inv_def)
  obtain co where co: "app_test (gw_co gw (gout w)) (gw_lits gw) (ga_co a) = Inr co \<and> co_clean co" if "ga_test a = 1"
    using app_test_clean [OF clean] inv env unfolding game_app_inv_def game_env_def by metis
  have "a' = (if ga_test a = 1 then a\<lparr>ga_srv := w, ga_co := co, ga_test := 2\<rparr> else a\<lparr>ga_srv := w, ga_co := ga_co a\<rparr>)"
    using run w co_clean_update [OF clean] co by (auto simp: game_server_run_def Let_def split: sum.splits)
  then show ?thesis using inv srv co clean by (auto simp: game_app_inv_def)
qed

interpretation ga: application "game_ops bo gw conf_name" "\<lambda>a. game_env bo gw \<longrightarrow> game_app_inv a"
proof unfold_locales
  fix a r a'
  assume "ap_instance (game_ops bo gw conf_name) = Some a" "ap_init (game_ops bo gw conf_name) a = Inr (r, a')"
  then have "game_app_init bo conf_name game_app_new = Inr (r, a')" by (simp add: game_ops_def)
  then show "game_env bo gw \<longrightarrow> game_app_inv a'" using game_app_init_inv by blast
next
  fix a a'
  assume "game_env bo gw \<longrightarrow> game_app_inv a" "ap_run (game_ops bo gw conf_name) a = Some (Inr a')"
  then show "game_env bo gw \<longrightarrow> game_app_inv a'" using game_server_run_inv [of bo gw a a'] by (simp add: game_ops_def)
next
  fix a a'
  assume "game_env bo gw \<longrightarrow> game_app_inv a" "ap_reload (game_ops bo gw conf_name) a = Inr a'"
  then show "game_env bo gw \<longrightarrow> game_app_inv a'" by (simp add: game_ops_def)
qed

lemma gamesvr_running:
  assumes "game_env bo gw" "sf_app s = None"
    and "frame_run (game_ops bo gw conf_name) fsys argv0 args gss s = Some (Inr (F_Ret 1, s'))" "sf_app s' = Some a"
  shows "game_app_inv a"
  using ga.run_keeps [OF assms(2,3)] assms(1,4) unfolding ga.app_inv_def by blast

text \<open>A server that gets new segments and no packets.\<close>

definition sized_game_boot :: "int \<Rightarrow> game_boot" where
  "sized_game_boot n = \<lparr>gb_open = \<lambda>_. 3,
     gb_parse = \<lambda>_. Some \<lparr>gc_timer_init_size = 8, gc_logic_timer_init_size = n, gc_player_pool_key = 7, gc_player_pool_size = 4,
       gc_city_pool_key = 8, gc_city_pool_size = 8\<rparr>,
     gb_now = 100, gb_zmq_init = True, gb_conn_socket = True, gb_conn_bind = True, gb_data_socket = True, gb_data_connect = True,
     gb_player_shm = \<lambda>_. (True, 1, pool_fresh 0 0 player_zero), gb_city_shm = \<lambda>_. (True, 1, pool_fresh 0 0 city_zero)\<rparr>"

abbreviation plain_game_boot :: game_boot where
  "plain_game_boot \<equiv> sized_game_boot 8"

definition quiet_world :: game_world where
  "quiet_world = \<lparr>gw_sys = quiet_sys, gw_co = \<lambda>_. plenty, gw_lits = \<lambda>n. word_of_nat n\<rparr>"

lemma plain_game_env: "game_env plain_game_boot quiet_world"
proof -
  have "obj_inv ((ga_srv game_app_new)\<lparr>player_pool := pool_fresh 4 440 player_zero, city_pool := pool_fresh 8 12 city_zero\<rparr>)"
    using pool_inv_fresh(1,2) [of 4 440 player_zero] pool_inv_fresh(1,2) [of 8 12 city_zero] by (simp add: obj_inv_def)
  then show ?thesis
    by (auto simp: game_env_def config_ok_def sized_game_boot_def quiet_world_def quiet_sys_def plenty_def tv_canonical_secs
        seed_ok_def rand_consts i32_id player_pool_init_def city_pool_init_def pool_init_def)
qed

lemma sized_game_init:
  assumes n: "0 \<le> n" "n < 2147483648"
  obtains a where "game_app_init (sized_game_boot n) conf_name game_app_new = Inr (0, a)" "logic_timer (ga_srv a) = heap_timer_new (nat n) 100"
proof -
  let ?pp = "pool_fresh 4 440 player_zero" and ?cp = "pool_fresh 8 12 city_zero" and ?w = "ga_srv game_app_new"
  obtain cfg where cfg: "gb_parse (sized_game_boot n) conf_name = Some cfg" "gc_timer_init_size cfg = 8" "gc_logic_timer_init_size cfg = n"
    "player_pool_init (sized_game_boot n) cfg = (0, Some ?pp)" "city_pool_init (sized_game_boot n) cfg = (0, Some ?cp)"
    by (simp add: sized_game_boot_def player_pool_init_def city_pool_init_def pool_init_def)
  have "obj_mgr_init (modules_before_obj_mgr (GM_Config cfg) GM_Timer_Mgr GM_Msg) (0, Some ?pp) (0, Some ?cp) ?w =
      Inr (?w\<lparr>player_pool := ?pp, city_pool := ?cp\<rparr>)"
    using pool_inv_fresh [of 4 440 player_zero] by (simp add: obj_mgr_init_result)
  moreover have "modules_before_obj_mgr (GM_Config cfg) GM_Timer_Mgr GM_Msg = [(40959, Some (GM_Config cfg)), (40960, Some GM_Timer_Mgr), (40961, Some GM_Msg)]"
    by (simp add: modules_before_obj_mgr_def add_module_def u64_id)
  moreover have "msg_module_init (sized_game_boot n) ((40959, Some (GM_Config cfg)) # mm) = Inr ()" for mm
    by (simp add: msg_module_init_def find_game_config_first sized_game_boot_def)
  moreover have "gb_open (sized_game_boot n) conf_name = 3" "gb_now (sized_game_boot n) = 100" by (simp_all add: sized_game_boot_def)
  ultimately show thesis
    using that cfg n by (simp add: game_app_init_def game_config_init_def Let_def new_app add_module_def game_module_ids timer_mgr_module_init_def
        obj_mgr_module_init_def logic_module_init_def coroutine_module_init_def find_game_config_first u32_id)
qed

lemma quiet_run:
  assumes inv: "game_app_inv a" and room: "heap_size (logic_timer (ga_srv a)) < 1073741824"
  obtains a' where "game_server_run quiet_world a = Some (Inr a')" "heap_size (logic_timer (ga_srv a')) < 1073741824"
proof -
  have env: "game_env plain_game_boot quiet_world" by (rule plain_game_env)
  have sys: "gw_sys quiet_world = quiet_sys" by (simp add: quiet_world_def)
  have mods: "running_modules (ga_modules a) = Inr ()"
    using inv by (auto simp: game_app_inv_def modules_up_def running_modules_def get_module_def game_module_ids)
  have g: "logic_inv (ga_srv a)" "obj_inv (ga_srv a)" and clean: "co_clean (ga_co a)"
    using inv room by (simp_all add: game_app_inv_def game_inv_def)
  have time: "tv_canonical (gs_time quiet_sys es)" for es by (simp add: quiet_sys_def tv_canonical_secs)
  obtain w1 where r: "msg_run quiet_sys (ga_srv a) = Inr w1" "logic_timer w1 = logic_timer (ga_srv a)"
    using idle_times unfolding msg_run_def by blast
  have room1: "heap_size (logic_timer w1) < 1073741824" using r(2) room by simp
  obtain w where w: "game_app_run quiet_sys (ga_srv a) = Some (Inr w)"
    using game_pass_ends [OF g time r(1) room1] by blast
  have "logic_update quiet_sys w1 = Some (Inr w)" using w r(1) by (simp add: game_app_run_def)
  then have rw: "heap_size (logic_timer w) < 1073741824" using logic_update_size room1 by fastforce
  have "ga_test a = 1 \<Longrightarrow> \<exists>co. app_test (gw_co quiet_world (gout w)) (gw_lits quiet_world) (ga_co a) = Inr co"
    using app_test_clean [OF clean] inv env unfolding game_app_inv_def game_env_def by blast
  then obtain co where co: "ga_test a = 1 \<Longrightarrow> app_test (gw_co quiet_world (gout w)) (gw_lits quiet_world) (ga_co a) = Inr co" by blast
  show thesis
    by (cases "ga_test a = 1") (use that mods w co rw co_clean_update [OF clean] in \<open>simp_all add: game_server_run_def sys Let_def\<close>)
qed

lemma plain_game_up:
  obtains s' a where "frame_run (game_ops plain_game_boot quiet_world ''gamesvr.conf'') plain_sys ''gamesvr'' [''start''] [[]]
      (frame_statics Map.empty) = Some (Inr (F_Ret 1, s'))" "sf_app s' = Some a" "heap_size (logic_timer (ga_srv a)) < 1073741824"
proof -
  let ?ops = "game_ops plain_game_boot quiet_world ''gamesvr.conf''"
  obtain a0 where a0: "game_app_init plain_game_boot ''gamesvr.conf'' game_app_new = Inr (0, a0)" "logic_timer (ga_srv a0) = heap_timer_new 8 100"
    using sized_game_init [of 8 "''gamesvr.conf''"] by auto
  have "heap_size (logic_timer (ga_srv a0)) < 1073741824" using a0(2) empty_timer_inv by simp
  then obtain a1 where a1: "game_server_run quiet_world a0 = Some (Inr a1)" "heap_size (logic_timer (ga_srv a1)) < 1073741824"
    by (rule quiet_run [OF game_app_init_inv [OF a0(1) plain_game_env]])
  have ap: "ap_instance ?ops = Some game_app_new" "ap_init ?ops game_app_new = Inr (0, a0)" "ap_run ?ops a0 = Some (Inr a1)"
    using a0(1) a1(1) by (simp_all add: game_ops_def)
  show thesis by (rule first_pass [OF ap, of "''gamesvr''"]) (use that a1(2) in blast)
qed

text \<open>C5: From the command line on: while \<open>gamesvr\<close> runs, after any number of passes and whatever connsvr,
  datasvr and the clients sent, every city in use belongs to exactly one player in use, the logics are
  those with a pending timer, and no coroutine is left over, as long as the timers fit their heap.\<close>

theorem gamesvr_up:
  assumes "game_env bo gw" "sf_app s = None"
    and "frame_run (game_ops bo gw conf_name) fsys argv0 args gss s = Some (Inr (F_Ret 1, s'))" "sf_app s' = Some a"
    and "heap_size (logic_timer (ga_srv a)) < 1073741824"
  shows "obj_inv (ga_srv a) \<and> logic_inv (ga_srv a) \<and> coroutine_map (ga_co a) = []"
  using gamesvr_running [OF assms(1-4)] assms(5) by (simp add: game_app_inv_def game_inv_def co_clean_def)

theorem gamesvr_up_witness:
  "\<exists>s' a. frame_run (game_ops plain_game_boot quiet_world ''gamesvr.conf'') plain_sys ''gamesvr'' [''start''] [[]]
       (frame_statics Map.empty) = Some (Inr (F_Ret 1, s')) \<and> sf_app s' = Some a \<and> obj_inv (ga_srv a) \<and> logic_inv (ga_srv a)"
proof -
  let ?s = "frame_statics Map.empty :: game_app server_frame"
  obtain s' a where r: "frame_run (game_ops plain_game_boot quiet_world ''gamesvr.conf'') plain_sys ''gamesvr'' [''start''] [[]] ?s =
      Some (Inr (F_Ret 1, s'))" "sf_app s' = Some a" "heap_size (logic_timer (ga_srv a)) < 1073741824" by (rule plain_game_up)
  have "sf_app ?s = None" by (simp add: frame_statics_def)
  from gamesvr_up [OF plain_game_env this r] r(1,2) show ?thesis by blast
qed

lemma stop_modules:
  assumes inv: "game_app_inv a" and room: "heap_size (logic_timer (ga_srv a)) < 1073741824"
  shows "\<exists>a'. game_app_stop a = Inr a' \<and> nodes (logic_timer (ga_srv a')) = Map.empty \<and> nodes (ga_timer_mgr a') = Map.empty \<and>
    nodes (co_timer (ga_co a')) = Map.empty \<and> co_mem (ga_co a') = Map.empty \<and> ga_modules a' = []"
proof -
  obtain cfg where mm: "ga_modules a = [(40959, Some (GM_Config cfg)), (40960, Some GM_Timer_Mgr), (40961, Some GM_Msg),
     (40962, Some GM_Obj_Mgr), (40964, Some GM_Logic), (40965, Some GM_Coroutine)]"
    using inv by (auto simp: game_app_inv_def modules_up_def)
  have ht: "ht_inv (co_timer (ga_co a))" "ht_inv (logic_timer (ga_srv a))" "ht_inv (ga_timer_mgr a)"
    using inv room by (simp_all add: game_app_inv_def game_inv_def logic_inv_def co_clean_def co_base_def)
  have none: "coroutine_map (ga_co a) = []" using inv by (simp add: game_app_inv_def co_clean_def)
  have "dom (co_mem (ga_co a)) = ran (map_of (coroutine_map (ga_co a)))"
    using inv by (simp add: game_app_inv_def co_clean_def co_base_def)
  then have mem: "co_mem (ga_co a) = Map.empty" by (simp add: none)
  have co: "co_module_fini (ga_co a) = Inr ((ga_co a)\<lparr>co_timer := (co_timer (ga_co a))\<lparr>nodes := Map.empty\<rparr>, coroutine_map := []\<rparr>)"
    by (simp add: co_module_fini_def heap_timer_delete_correct [OF ht(1)] none)
  show ?thesis
    using mem by (simp add: game_app_stop_def app_stop_def mm game_module_fini_def co logic_fini_def timer_mgr_fini_def
        heap_timer_delete_correct [OF ht(2)] heap_timer_delete_correct [OF ht(3)])
qed

text \<open>C28: A running \<open>gamesvr\<close> can be stopped at any time: \<open>AppStop\<close> ends without a fault, with every timer of
  the three heaps and every coroutine freed once, and no module left.\<close>

theorem gamesvr_stop_frees:
  assumes "game_env bo gw" "sf_app s = None"
    and "frame_run (game_ops bo gw conf_name) fsys argv0 args gss s = Some (Inr (F_Ret 1, s'))" "sf_app s' = Some a"
    and "heap_size (logic_timer (ga_srv a)) < 1073741824"
  shows "\<exists>a'. game_app_stop a = Inr a' \<and> nodes (logic_timer (ga_srv a')) = Map.empty \<and> nodes (ga_timer_mgr a') = Map.empty \<and>
    nodes (co_timer (ga_co a')) = Map.empty \<and> co_mem (ga_co a') = Map.empty \<and> ga_modules a' = []"
  by (rule stop_modules [OF gamesvr_running [OF assms(1-4)] assms(5)])

theorem gamesvr_stop_frees_witness:
  "\<exists>s' a a'. frame_run (game_ops plain_game_boot quiet_world ''gamesvr.conf'') plain_sys ''gamesvr'' [''start''] [[]]
       (frame_statics Map.empty) = Some (Inr (F_Ret 1, s')) \<and> sf_app s' = Some a \<and> game_app_stop a = Inr a' \<and> nodes (logic_timer (ga_srv a')) = Map.empty"
proof -
  let ?s = "frame_statics Map.empty :: game_app server_frame"
  obtain s' a where r: "frame_run (game_ops plain_game_boot quiet_world ''gamesvr.conf'') plain_sys ''gamesvr'' [''start''] [[]] ?s =
      Some (Inr (F_Ret 1, s'))" "sf_app s' = Some a" "heap_size (logic_timer (ga_srv a)) < 1073741824" by (rule plain_game_up)
  have "sf_app ?s = None" by (simp add: frame_statics_def)
  from gamesvr_stop_frees [OF plain_game_env this r] r(1,2) show ?thesis by blast
qed

section \<open>The default configuration\<close>

text \<open>C34: \<open>gamesvr\<close> cannot run with the default of \<open>logic_timer_init_size\<close>, 0: it starts, but the test of the
  coroutines at the end of the first pass registers a timer in a heap without a place for one and
  reads out of bounds; the same goes for the first login.\<close>

theorem default_config_crashes:
  assumes init: "game_app_init bo conf_name game_app_new = Inr (0, a)"
    and cfg: "gb_parse bo conf_name = Some cfg" "gc_logic_timer_init_size cfg = 0"
    and pass: "msg_run (gw_sys gw) (ga_srv a) = Inr w" "logic_timer w = logic_timer (ga_srv a)"
  shows "game_server_run gw a = Some (Inl Out_Of_Bounds)"
proof -
  have conf: "game_config_init bo conf_name = Inr cfg"
    using init cfg(1) by (auto simp: game_app_init_def game_config_init_def rbind_eq_Inr_iff)
  let ?c = "(40959, Some (GM_Config cfg))"
  have mm: "add_module GAME_ID_CONFIG (Some (GM_Config cfg)) [] = [?c]"
    "add_module GAME_ID_TIMER_MGR (Some GM_Timer_Mgr) [?c] = [?c, (40960, Some GM_Timer_Mgr)]"
    "add_module GAME_ID_MSG (Some GM_Msg) [?c, (40960, Some GM_Timer_Mgr)] = [?c, (40960, Some GM_Timer_Mgr), (40961, Some GM_Msg)]"
    by (simp_all add: add_module_def game_module_ids)
  have a: "logic_timer (ga_srv a) = heap_timer_new 0 (gb_now bo)" "ga_co a = co_module_init 0 (gb_now bo)" "ga_test a = 1"
    "modules_up (ga_modules a)"
    using init conf cfg(2)
    by (auto simp: game_app_init_def Let_def rbind_eq_Inr_iff new_app mm find_game_config_first timer_mgr_module_init_def
        obj_mgr_module_init_def logic_module_init_def coroutine_module_init_def modules_up_def
        add_module_def game_module_ids u32_id)
  have mods: "running_modules (ga_modules a) = Inr ()"
    using a(4) by (auto simp: modules_up_def running_modules_def get_module_def game_module_ids)
  have idle: "timer_poll exec now (heap_timer_new 0 (gb_now bo)) x = Some (Inr (heap_timer_new 0 (gb_now bo), x))" for exec :: "'x exec" and now x
    by (subst timer_poll.simps) (simp add: poll_step_def heap_timer_new_def)
  have upd: "logic_update (gw_sys gw) w = Some (Inr w)"
    using pass(2) a(1) by (simp add: logic_update_def idle)
  have co: "co_update now (ga_co a) = Some (Inr (ga_co a))" for now
    by (simp add: co_update_def idle a(2) co_module_init_def)
  have "tv_set 5 0 = Inr (TimeValue 5 0)" by (simp add: tv_set_def tv_canonical_def)
  then have "create_coroutine env f args 5 (ga_co a) = Inl Out_Of_Bounds" for env f args
    by (simp add: create_coroutine_def a(2) co_module_init_def register_timer_zero_size)
  then have "app_test env lits (ga_co a) = Inl Out_Of_Bounds" for env lits
    by (simp add: app_test_def app_run_test_def eval_nat_numeral)
  then show ?thesis using mods pass(1) upd co a(3) by (simp add: game_server_run_def game_app_run_def Let_def)
qed

theorem default_config_crashes_witness:
  "\<exists>a. game_app_init (sized_game_boot 0) ''gamesvr.conf'' game_app_new = Inr (0, a) \<and> game_server_run quiet_world a = Some (Inl Out_Of_Bounds)"
proof -
  obtain a where a: "game_app_init (sized_game_boot 0) ''gamesvr.conf'' game_app_new = Inr (0, a)"
    using sized_game_init [of 0 "''gamesvr.conf''"] by auto
  obtain cfg where cfg: "gb_parse (sized_game_boot 0) ''gamesvr.conf'' = Some cfg" "gc_logic_timer_init_size cfg = 0"
    by (simp add: sized_game_boot_def)
  obtain w where w: "msg_run quiet_sys (ga_srv a) = Inr w" "logic_timer w = logic_timer (ga_srv a)"
    using idle_times unfolding msg_run_def by blast
  then have "msg_run (gw_sys quiet_world) (ga_srv a) = Inr w" by (simp add: quiet_world_def)
  from default_config_crashes [OF a cfg this w(2)] show ?thesis using a by blast
qed

end
