(* ===== verification/Data_App.thy ===== *)
theory Data_App
  imports Data_Svr_Props Server_Frame_Props
begin

text \<open>
  The application \<open>datasvr\<close> (\<open>datasvr/app.{h,cpp}\<close> with the \<open>ModuleInit\<close> and \<open>ModuleFini\<close> of its
  modules and the destructors of \<open>MysqlMgr\<close> and \<open>MysqlClient\<close>) in the frame of \<open>Server_Frame\<close>. The
  threads of the clients run between the rounds of the main thread, in an order the environment
  chooses; every run is one of the step relation of \<open>Data_Svr_Props\<close>.
\<close>

section \<open>The modules\<close>

text \<open>The configuration holds strings for the libraries only.\<close>

record data_boot =
  db_open :: "string \<Rightarrow> int"
  db_parse :: "string \<Rightarrow> bool"
  db_zmq_init :: bool
  db_zmq_socket :: bool
  db_zmq_bind :: bool

text \<open>The calls of the MySQL library, the threads that run after a round of the main thread, and
  whether a thread that is told to stop goes through its loop once more.\<close>

record data_world =
  dw_sys :: data_sys
  dw_sched :: "deffect list \<Rightarrow> nat list"
  dw_more :: "deffect list \<Rightarrow> bool"

definition DATA_ID_CONFIG :: int where "DATA_ID_CONFIG = 0x9fff"
definition DATA_ID_MSG :: int where "DATA_ID_MSG = DATA_ID_CONFIG + 1"
definition DATA_ID_MYSQL :: int where "DATA_ID_MYSQL = DATA_ID_MSG + 1"
definition E_MAX_MYSQL_CLIENT_COUNT :: int where "E_MAX_MYSQL_CLIENT_COUNT = 8"

lemmas data_ids = DATA_ID_CONFIG_def DATA_ID_MSG_def DATA_ID_MYSQL_def

datatype data_module = DM_Config | DM_Msg | DM_Mysql

definition data_config_init :: "data_boot \<Rightarrow> string \<Rightarrow> unit res" where
  "data_config_init bo conf_file =
     rbind (guard Check_Failed (db_open bo conf_file > 0)) (\<lambda>_. guard Check_Failed (db_parse bo conf_file))"

definition find_data_config :: "data_module module_map \<Rightarrow> unit res" where
  "find_data_config mm = rbind (find_module mm DATA_ID_CONFIG) (\<lambda>m. if m = DM_Config then Inr () else Inl Type_Confusion)"

definition data_msg_init :: "data_boot \<Rightarrow> data_module module_map \<Rightarrow> unit res" where
  "data_msg_init bo mm =
     rbind (find_data_config mm) (\<lambda>_.
     rbind (guard Check_Failed (db_zmq_init bo)) (\<lambda>_.
     rbind (guard Check_Failed (db_zmq_socket bo)) (\<lambda>_.
     guard Check_Failed (db_zmq_bind bo))))"

definition mysql_module_init :: "data_sys \<Rightarrow> data_module module_map \<Rightarrow> datasvr \<Rightarrow> datasvr res" where
  "mysql_module_init sys mm d =
     rbind (find_data_config mm) (\<lambda>_. mysql_mgr_init sys E_MAX_MYSQL_CLIENT_COUNT d)"

section \<open>The application\<close>

record data_app =
  da_modules :: "data_module module_map"
  da_srv :: datasvr

definition data_app_new :: data_app where
  "data_app_new = \<lparr>da_modules = [], da_srv = data_new\<rparr>"

definition data_app_init :: "data_boot \<Rightarrow> data_world \<Rightarrow> string \<Rightarrow> data_app \<Rightarrow> (int \<times> data_app) res" where
  "data_app_init bo dw conf_name a =
     rbind (data_config_init bo conf_name) (\<lambda>_.
     let mm1 = add_module DATA_ID_CONFIG (Some DM_Config) (da_modules a) in
     rbind (data_msg_init bo mm1) (\<lambda>_.
     let mm2 = add_module DATA_ID_MSG (Some DM_Msg) mm1 in
     rbind (mysql_module_init (dw_sys dw) mm2 (da_srv a)) (\<lambda>d.
     let mm3 = add_module DATA_ID_MYSQL (Some DM_Mysql) mm2 in
     Inr (0, \<lparr>da_modules = mm3, da_srv = d\<rparr>))))"

text \<open>Steps of the client threads, in a given order.\<close>

fun threads_run :: "data_sys \<Rightarrow> nat list \<Rightarrow> datasvr \<Rightarrow> datasvr res" where
  "threads_run sys [] d = Inr d"
| "threads_run sys (c # cs) d =
     rbind (if c < length (dv_clients d) then thread_step sys c d else Inr d) (threads_run sys cs)"

text \<open>\<open>MsgModule::Run\<close> with the threads.\<close>

fun data_rounds :: "data_world \<Rightarrow> nat \<Rightarrow> datasvr \<Rightarrow> datasvr res" where
  "data_rounds dw 0 d = Inr d"
| "data_rounds dw (Suc n) d =
     rbind (data_run_once (dw_sys dw) d) (\<lambda>d1.
     rbind (threads_run (dw_sys dw) (dw_sched dw (dv_out d1)) d1) (data_rounds dw n))"

definition data_app_run :: "data_world \<Rightarrow> data_app \<Rightarrow> data_app res" where
  "data_app_run dw a =
     rbind (get_module (da_modules a) DATA_ID_MSG) (\<lambda>msg_module.
     rbind (guard Null_Deref (msg_module = Some DM_Msg)) (\<lambda>_.
     rbind (find_module (da_modules a) DATA_ID_MYSQL) (\<lambda>_.
     rbind (data_rounds dw 1000 (da_srv a)) (\<lambda>d. Inr (a\<lparr>da_srv := d\<rparr>)))))"

section \<open>The end\<close>

text \<open>\<open>~MysqlClient\<close>: the thread is told to stop and joined. A thread in its loop ends it, a
  thread between two loops may go through one more; then the connection is closed.\<close>

definition mysql_client_fini :: "data_world \<Rightarrow> nat \<Rightarrow> datasvr \<Rightarrow> datasvr res" where
  "mysql_client_fini dw c d =
     rbind (case mc_pc (client_at c d) of
              Pc_Loop \<Rightarrow> if dw_more dw (dv_out d) then thread_loop (dw_sys dw) c d else Inr d
            | Pc_Send n \<Rightarrow> rbind (thread_step (dw_sys dw) c d) (thread_step (dw_sys dw) c)
            | Pc_Free \<Rightarrow> thread_step (dw_sys dw) c d) (\<lambda>d1.
     Inr (demit (D_Close c) d1))"

text \<open>\<open>~MysqlMgr\<close>; while it waits for one thread those of the clients behind it go on.\<close>

fun mysql_mgr_fini :: "data_world \<Rightarrow> nat list \<Rightarrow> datasvr \<Rightarrow> datasvr res" where
  "mysql_mgr_fini dw [] d = Inr d"
| "mysql_mgr_fini dw (c # cs) d =
     rbind (threads_run (dw_sys dw) (filter (\<lambda>i. i \<in> set cs) (dw_sched dw (dv_out d))) d) (\<lambda>d1.
     rbind (mysql_client_fini dw c d1) (mysql_mgr_fini dw cs))"

text \<open>\<open>ModuleFini\<close> of the modules only closes sockets; the clients go with the module.\<close>

definition data_module_fini :: "data_world \<Rightarrow> data_module \<Rightarrow> datasvr res \<Rightarrow> datasvr res" where
  "data_module_fini dw m r =
     rbind r (\<lambda>d. if m = DM_Mysql then mysql_mgr_fini dw [0..<length (dv_clients d)] d else Inr d)"

definition data_app_stop :: "data_world \<Rightarrow> data_app \<Rightarrow> data_app res" where
  "data_app_stop dw a =
     (case app_stop (data_module_fini dw) (da_modules a) (Inr (da_srv a)) of
        (mm, r) \<Rightarrow> rbind r (\<lambda>d. Inr \<lparr>da_modules = mm, da_srv = d\<rparr>))"

definition data_ops :: "data_boot \<Rightarrow> data_world \<Rightarrow> string \<Rightarrow> data_app app_ops" where
  "data_ops bo dw conf_name =
     \<lparr>ap_instance = Some data_app_new, ap_init = data_app_init bo dw conf_name, ap_run = \<lambda>a. Some (data_app_run dw a),
      ap_stop = \<lambda>a. Some (data_app_stop dw a), ap_reload = \<lambda>a. Inr a, ap_clean = \<lambda>a. Inr a\<rparr>"

section \<open>The running server\<close>

lemma threads_run_steps: "threads_run sys cs d = Inr d' \<Longrightarrow> (data_step sys)\<^sup>*\<^sup>* d d'"
proof (induction cs arbitrary: d)
  case (Cons c cs)
  obtain d1 where d1: "(if c < length (dv_clients d) then thread_step sys c d else Inr d) = Inr d1" "threads_run sys cs d1 = Inr d'"
    using Cons.prems by (auto elim: rbind_InrE)
  have "(data_step sys)\<^sup>*\<^sup>* d d1" using d1(1) by (auto split: if_splits intro: data_step.thread)
  then show ?case using Cons.IH [OF d1(2)] by (rule rtranclp_trans)
qed simp

lemma data_rounds_steps: "data_rounds dw n d = Inr d' \<Longrightarrow> (data_step (dw_sys dw))\<^sup>*\<^sup>* d d'"
proof (induction n arbitrary: d)
  case (Suc n)
  obtain d1 d2 where s: "data_run_once (dw_sys dw) d = Inr d1" "threads_run (dw_sys dw) (dw_sched dw (dv_out d1)) d1 = Inr d2"
    "data_rounds dw n d2 = Inr d'"
    using Suc.prems by (auto simp: rbind_eq_Inr_iff)
  have "(data_step (dw_sys dw))\<^sup>*\<^sup>* d d2"
    by (rule converse_rtranclp_into_rtranclp [OF data_step.main [OF s(1)] threads_run_steps [OF s(2)]])
  then show ?case using Suc.IH [OF s(3)] by (rule rtranclp_trans)
qed simp

definition data_modules_up :: "data_module module_map" where
  "data_modules_up = [(40959, Some DM_Config), (40960, Some DM_Msg), (40961, Some DM_Mysql)]"

text \<open>The server is in a state its steps reach from the start with eight clients.\<close>

definition data_up :: "data_world \<Rightarrow> data_app \<Rightarrow> bool" where
  "data_up dw a \<longleftrightarrow> da_modules a = data_modules_up \<and>
     (\<exists>d. mysql_mgr_init (dw_sys dw) 8 data_new = Inr d \<and> (data_step (dw_sys dw))\<^sup>*\<^sup>* d (da_srv a))"

lemma data_module_ids: "u64 DATA_ID_CONFIG = 40959" "u64 DATA_ID_MSG = 40960" "u64 DATA_ID_MYSQL = 40961"
  by (simp_all add: data_ids u64_id)

lemma data_app_init_up:
  "data_app_init bo dw conf_name data_app_new = Inr (r, a) \<Longrightarrow> data_up dw a"
  by (auto simp: data_app_init_def Let_def rbind_eq_Inr_iff mysql_module_init_def E_MAX_MYSQL_CLIENT_COUNT_def data_up_def
      data_app_new_def add_module_def data_module_ids data_modules_up_def)

lemma data_app_run_up:
  assumes "data_up dw a" "data_app_run dw a = Inr a'"
  shows "data_up dw a'"
proof -
  obtain d where d: "data_rounds dw 1000 (da_srv a) = Inr d" "a' = a\<lparr>da_srv := d\<rparr>"
    using assms(2) by (auto simp: data_app_run_def rbind_eq_Inr_iff)
  then show ?thesis using assms(1) rtranclp_trans [OF _ data_rounds_steps [OF d(1)]] by (auto simp: data_up_def)
qed

interpretation da: application "data_ops bo dw conf_name" "data_up dw"
proof unfold_locales
  fix a r a'
  assume "ap_instance (data_ops bo dw conf_name) = Some a" "ap_init (data_ops bo dw conf_name) a = Inr (r, a')"
  then show "data_up dw a'" using data_app_init_up by (auto simp: data_ops_def)
next
  fix a a'
  assume "data_up dw a" "ap_run (data_ops bo dw conf_name) a = Some (Inr a')"
  then show "data_up dw a'" using data_app_run_up by (simp add: data_ops_def)
next
  fix a a'
  assume "data_up dw a" "ap_reload (data_ops bo dw conf_name) a = Inr a'"
  then show "data_up dw a'" by (simp add: data_ops_def)
qed

lemma data_up_inv: "data_up dw a \<Longrightarrow> data_inv (da_srv a) \<and> length (dv_clients (da_srv a)) = 8"
proof -
  assume up: "data_up dw a"
  obtain d where d: "mysql_mgr_init (dw_sys dw) 8 data_new = Inr d" "(data_step (dw_sys dw))\<^sup>*\<^sup>* d (da_srv a)"
    using up by (auto simp: data_up_def)
  have "data_inv data_new" by (simp add: data_inv_def data_new_def)
  then have "data_inv d \<and> length (dv_clients d) = 8"
    using mgr_clients_inv [of "dw_sys dw" 0 8 data_new d] d(1) by (simp add: mysql_mgr_init_def data_new_def)
  then show ?thesis using data_steps_inv [OF d(2)] by simp
qed

section \<open>Properties\<close>

text \<open>C8: From the command line on: while \<open>datasvr\<close> runs, after any number of passes and in any order of its
  threads, it has its eight MySQL clients, none of them is free twice, and a free client has neither
  a request nor a running callback.\<close>

theorem datasvr_up:
  assumes "sf_app s = None"
    and "frame_run (data_ops bo dw conf_name) fsys argv0 args gss s = Some (Inr (F_Ret 1, s'))" "sf_app s' = Some a"
  shows "data_inv (da_srv a) \<and> length (dv_clients (da_srv a)) = 8"
  using da.run_keeps [OF assms(1,2)] data_up_inv assms(3) unfolding da.app_inv_def by blast

definition plain_data_boot :: data_boot where
  "plain_data_boot = \<lparr>db_open = \<lambda>_. 3, db_parse = \<lambda>_. True, db_zmq_init = True, db_zmq_socket = True, db_zmq_bind = True\<rparr>"

text \<open>A world without requests.\<close>

definition still_world :: data_world where
  "still_world = \<lparr>dw_sys = (data_example ss_empty)\<lparr>ds_recv := \<lambda>_. (- 1, [])\<rparr>, dw_sched = \<lambda>_. [0, 1], dw_more = \<lambda>_. False\<rparr>"

lemma still_call [simp]: "mysql_call (dw_sys still_world) c f d = (0, demit (D_Call c f 0) d)"
  by (simp add: mysql_call_def still_world_def data_example_def)

lemma still_mgr: "\<exists>d. mysql_mgr_clients (dw_sys still_world) cs d0 = Inr d"
proof (induction cs arbitrary: d0)
  case (Cons c cs)
  have "\<exists>d1. mysql_client_init (dw_sys still_world) c (d0\<lparr>dv_clients := dv_clients d0 @ [new_client]\<rparr>) = Inr d1"
    by (simp add: mysql_client_init_def mysql_connect_def)
  then show ?case using Cons.IH by auto
qed simp

lemma still_round:
  assumes inv: "data_inv d" and all: "\<forall>c<length (dv_clients d). mc_pc (client_at c d) = Pc_Loop \<and> mc_pipe (client_at c d) = 0"
  shows "\<exists>d'. data_rounds still_world n d = Inr d'"
  using assms
proof (induction n arbitrary: d)
  case (Suc n)
  obtain d1 where d1: "data_run_once (dw_sys still_world) d = Inr d1"
    by (cases "dv_free d") (simp_all add: data_run_once_def pop_free_client_def still_world_def Let_def)
  have c1: "dv_clients d1 = dv_clients d"
    using d1 by (cases "dv_free d") (auto simp: data_run_once_def pop_free_client_def still_world_def Let_def)
  have inv1: "data_inv d1" using data_run_once_inv(1) [OF Suc.prems(1) d1] .
  have all1: "\<forall>c<length (dv_clients d1). mc_pc (client_at c d1) = Pc_Loop \<and> mc_pipe (client_at c d1) = 0"
    using Suc.prems(2) c1 by (simp add: client_at_def)
  have "threads_run (dw_sys still_world) cs d1 = Inr d1" for cs
    by (induction cs) (use all1 in \<open>simp_all add: thread_step_def\<close>)
  then show ?case using Suc.IH [OF inv1 all1] d1 by simp
qed simp

theorem datasvr_up_witness:
  "\<exists>s' a. frame_run (data_ops plain_data_boot still_world ''datasvr.conf'') plain_sys ''datasvr'' [''start''] [[]]
       (frame_statics Map.empty) = Some (Inr (F_Ret 1, s')) \<and> sf_app s' = Some a \<and> length (dv_clients (da_srv a)) = 8"
proof -
  let ?ops = "data_ops plain_data_boot still_world ''datasvr.conf''" and ?s = "frame_statics Map.empty :: data_app server_frame"
  obtain d where d: "mysql_mgr_clients (dw_sys still_world) [0..<8] data_new = Inr d" using still_mgr by blast
  have init: "mysql_mgr_init (dw_sys still_world) 8 data_new = Inr d" using d by (simp add: mysql_mgr_init_def)
  have "data_inv data_new" by (simp add: data_inv_def data_new_def)
  then have inv: "data_inv d" "length (dv_clients d) = 8" "dv_free d = [0..<8]"
    using mgr_clients_inv [OF d] by (simp_all add: data_new_def)
  then have "\<forall>c<length (dv_clients d). mc_pc (client_at c d) = Pc_Loop \<and> mc_pipe (client_at c d) = 0" by (simp add: data_inv_def)
  then obtain d' where r: "data_rounds still_world 1000 d = Inr d'" using still_round [OF inv(1)] by blast
  let ?a = "\<lparr>da_modules = data_modules_up, da_srv = d\<rparr>"
  have "data_app_init plain_data_boot still_world ''datasvr.conf'' data_app_new = Inr (0, ?a)"
    using init by (simp add: data_app_init_def data_config_init_def plain_data_boot_def data_msg_init_def find_data_config_def find_module_def
        mysql_module_init_def data_app_new_def add_module_def data_module_ids data_modules_up_def E_MAX_MYSQL_CLIENT_COUNT_def)
  moreover have "data_app_run still_world ?a = Inr (?a\<lparr>da_srv := d'\<rparr>)"
    using r by (simp add: data_app_run_def get_module_def find_module_def data_modules_up_def data_module_ids)
  ultimately have ap: "ap_instance ?ops = Some data_app_new" "ap_init ?ops data_app_new = Inr (0, ?a)" "ap_run ?ops ?a = Some (Inr (?a\<lparr>da_srv := d'\<rparr>))"
    by (simp_all add: data_ops_def)
  obtain s' where run: "frame_run ?ops plain_sys ''datasvr'' [''start''] [[]] ?s = Some (Inr (F_Ret 1, s'))" "sf_app s' = Some (?a\<lparr>da_srv := d'\<rparr>)"
    by (rule first_pass [OF ap])
  have "sf_app ?s = None" by (simp add: frame_statics_def)
  from datasvr_up [OF this run] run show ?thesis by blast
qed

lemma quiet_mgr_fini:
  assumes "\<forall>c\<in>set cs. mc_pc (client_at c d) = Pc_Loop" "\<And>es. dw_sched dw es = []" "\<And>es. \<not> dw_more dw es"
  shows "\<exists>d'. mysql_mgr_fini dw cs d = Inr d' \<and> dv_out d' = dv_out d @ map D_Close cs"
  using assms(1)
proof (induction cs arbitrary: d)
  case (Cons c cs)
  have "mysql_client_fini dw c d = Inr (demit (D_Close c) d)" using Cons.prems assms(3) by (simp add: mysql_client_fini_def)
  then show ?case using Cons.IH [of "demit (D_Close c) d"] Cons.prems assms(2) by simp
qed simp

text \<open>A stop of \<open>datasvr\<close> drops what its clients have been handed and not begun: when the threads are told
  to stop between two loops, the connections are closed with no further statement or answer, so
  that the save of a player who has just left can be lost.\<close>

theorem stop_drops_requests:
  assumes up: "data_up dw a" and between: "\<forall>c<8. mc_pc (client_at c (da_srv a)) = Pc_Loop"
    and told: "\<And>es. dw_sched dw es = []" "\<And>es. \<not> dw_more dw es"
  shows "\<exists>a'. data_app_stop dw a = Inr a' \<and> dv_out (da_srv a') = dv_out (da_srv a) @ map D_Close [0..<8]"
proof -
  have n: "length (dv_clients (da_srv a)) = 8" and mm: "da_modules a = data_modules_up"
    using data_up_inv [OF up] up by (simp_all add: data_up_def)
  have "\<forall>c\<in>set [0..<8]. mc_pc (client_at c (da_srv a)) = Pc_Loop" using between by simp
  then obtain d' where "mysql_mgr_fini dw [0..<8] (da_srv a) = Inr d'" "dv_out d' = dv_out (da_srv a) @ map D_Close [0..<8]"
    using quiet_mgr_fini [OF _ told] by blast
  then show ?thesis by (simp add: data_app_stop_def app_stop_def mm data_modules_up_def data_module_fini_def n)
qed

definition example_save :: ss_msg where
  "example_save = ss_empty\<lparr>ss_cmd := kSetPlayerDataReq, ss_set_player_data_req := Some \<lparr>spq_uid = 77, spq_player_data = [9]\<rparr>\<rparr>"

theorem stop_drops_requests_witness:
  "\<exists>dw a a'. mc_pipe (client_at 0 (da_srv a)) = 1 \<and> mc_callback (client_at 0 (da_srv a)) = Some Set_Player_Data_Cb \<and>
     data_app_stop dw a = Inr a' \<and> dv_out (da_srv a') = dv_out (da_srv a) @ map D_Close [0..<8]"
proof -
  let ?sys = "data_example example_save"
  let ?dw = "\<lparr>dw_sys = ?sys, dw_sched = \<lambda>_. [], dw_more = \<lambda>_. False\<rparr>"
  have "\<exists>d. mysql_mgr_clients ?sys cs d0 = Inr d \<and> dv_buf d = dv_buf d0" for cs d0
  proof (induction cs arbitrary: d0)
    case (Cons c cs)
    have "\<exists>d1. mysql_client_init ?sys c (d0\<lparr>dv_clients := dv_clients d0 @ [new_client]\<rparr>) = Inr d1 \<and> dv_buf d1 = dv_buf d0"
      by (simp add: mysql_client_init_def mysql_connect_def)
    then obtain d1 where "mysql_client_init ?sys c (d0\<lparr>dv_clients := dv_clients d0 @ [new_client]\<rparr>) = Inr d1" "dv_buf d1 = dv_buf d0" by blast
    then show ?case using Cons.IH [of "push_free_client c d1"] by simp
  qed simp
  then obtain d where d: "mysql_mgr_clients ?sys [0..<8] data_new = Inr d" "dv_buf d = dv_buf data_new" by blast
  have "data_inv data_new" by (simp add: data_inv_def data_new_def)
  then have inv: "data_inv d" "length (dv_clients d) = 8" "dv_free d = 0 # [1..<8]"
    using mgr_clients_inv [OF d(1)] by (simp_all add: data_new_def upt_conv_Cons)
  let ?sql = "sql_txt ''UPDATE sg_data SET player_data='' @ [34] @ [9] @ [34] @ sql_txt ''WHERE uid = '' @ to_string_u64 77"
  have idle: "\<forall>c<8. mc_pc (client_at c d) = Pc_Loop"
  proof (intro allI impI)
    fix c :: nat assume "c < 8"
    then have "c \<in> set (dv_free d)" unfolding inv(3) by auto
    then show "mc_pc (client_at c d) = Pc_Loop" using inv(1) by (simp add: data_inv_def)
  qed
  have h: "map_of (data_handlers ?sys 0) kSetPlayerDataReq = Some (on_set_player_data_req ?sys 0)"
    by (simp add: data_handlers_def msg_register_def cmd_defs)
  let ?d2 = "(demit (D_Recv 3) (d\<lparr>dv_free := [1..<8]\<rparr>))\<lparr>dv_buf := recv_into (dv_buf d) (3, [1, 2, 3])\<rparr>"
  let ?d' = "mysql_process ?sql Set_Player_Data_Cb 0 0 0 ?d2"
  have sql: "on_set_player_data_req ?sys 0 example_save ?d2 = Inr (0, ?d')"
    by (simp add: on_set_player_data_req_def example_save_def ss_empty_def convert_bin_to_string_def data_example_def)
  have "mem_read (dv_buf ?d2) 0 3 = Inr [1, 2, 3]" using d(2) by (simp add: mem_read_def recv_into_def data_new_def)
  then have run: "data_run_once ?sys d = Inr ?d'"
    using inv(3) sql h by (simp add: data_run_once_def pop_free_client_def data_example_def handle_request_def example_save_def ss_empty_def Let_def)
  have cl: "client_at c ?d2 = client_at c d" "length (dv_clients ?d2) = 8" for c using inv(2) by (simp_all add: client_at_def)
  have p0: "mc_pipe (client_at 0 d) = 0" using inv(1,3) by (simp add: data_inv_def)
  have pc: "mc_pc (client_at c ?d') = Pc_Loop" if "c < 8" for c
    using that idle cl by (cases "c = 0") (simp_all add: mysql_process_def)
  have d': "mc_pipe (client_at 0 ?d') = 1" "mc_callback (client_at 0 ?d') = Some Set_Player_Data_Cb"
    using cl p0 by (simp_all add: mysql_process_def)
  have up: "data_up ?dw \<lparr>da_modules = data_modules_up, da_srv = ?d'\<rparr>"
    using d(1) data_step.main [OF run] by (auto simp: data_up_def mysql_mgr_init_def intro!: exI [of _ d])
  show ?thesis
    using stop_drops_requests [OF up] pc d' by fastforce
qed

end
