(* ===== verification/Lua_Engine.thy ===== *)
theory Lua_Engine
  imports Heap_Timer_Spec Std_Map Utils_Frame
begin

text \<open>
  The Lua engine of \<open>common/frame/lua_engine.{h,cpp}\<close> and of \<open>lua_engine_module\<close>: tasks, each a Lua
  coroutine with a time-out in a timer heap of the engine.

  The Lua machine is the environment: \<open>'w\<close> is its state together with that of the program that
  its scripts reach through the functions registered with it. None of these functions belongs to
  the engine, so a script does not change the engine, but one of them may fault. A Lua state is an
  address, 0 is \<open>NULL\<close>; \<open>'v\<close> are the values pushed on its stack.
\<close>

section \<open>State\<close>

record lua_engine =
  le_timer :: heap_timer
  le_co_map :: "(int \<times> nat) list"

record ('v, 'w) lua_sys =
  lu_newthread :: "'w \<Rightarrow> nat \<times> 'w"
  lu_getfunction :: "nat \<Rightarrow> bytes \<Rightarrow> 'w \<Rightarrow> bool \<times> 'w"
  lu_resume :: "nat \<Rightarrow> 'v list \<Rightarrow> 'w \<Rightarrow> (int \<times> 'w) res"
  lu_dostring :: "bytes \<Rightarrow> 'w \<Rightarrow> int \<times> 'w"
  lu_dofile :: "bytes \<Rightarrow> 'w \<Rightarrow> int \<times> 'w"
  lu_reload :: "'w \<Rightarrow> 'w"
  lu_now :: "'w \<Rightarrow> int"

definition LUA_YIELD :: int where "LUA_YIELD = 1"

text \<open>The callback object of the engine.\<close>

definition lua_cb :: nat where "lua_cb = 3"

text \<open>\<open>co_map_[task_id]\<close> inserts \<open>NULL\<close> for an id it does not find.\<close>

definition co_map_at :: "int \<Rightarrow> lua_engine \<Rightarrow> nat \<times> lua_engine" where
  "co_map_at task_id e =
     (case map_of (le_co_map e) task_id of
        Some co \<Rightarrow> (co, e)
      | None \<Rightarrow> (0, e\<lparr>le_co_map := smap_put task_id 0 (le_co_map e)\<rparr>))"

definition find_task :: "int \<Rightarrow> lua_engine \<Rightarrow> nat" where
  "find_task task_id e = (case map_of (le_co_map e) task_id of None \<Rightarrow> 0 | Some co \<Rightarrow> co)"

definition get_task_size :: "lua_engine \<Rightarrow> int" where
  "get_task_size e = i32 (int (length (le_co_map e)))"

section \<open>Tasks\<close>

definition close_task :: "int \<Rightarrow> lua_engine \<Rightarrow> lua_engine res" where
  "close_task task_id e =
     (if task_id > 0 then
        let (co, e1) = co_map_at task_id e in
        if co \<noteq> 0 then
          rbind (unregister_timer task_id (le_timer e1)) (\<lambda>ht.
          Inr (e1\<lparr>le_timer := ht, le_co_map := smap_erase task_id (le_co_map e1)\<rparr>))
        else Inr e1
      else Inr e)"

definition create_task ::
  "('v, 'w) lua_sys \<Rightarrow> bytes \<Rightarrow> int \<Rightarrow> lua_engine \<times> 'w \<Rightarrow> (int \<times> lua_engine \<times> 'w) res" where
  "create_task sys lua_func task_delay_secs = (\<lambda>(e, w).
     rbind (tv_set task_delay_secs 0) (\<lambda>tv.
     rbind (register_timer (lu_now sys w) tv tv (Some lua_cb) 0 (le_timer e)) (\<lambda>(task_id, ht).
     let e1 = e\<lparr>le_timer := ht\<rparr> in
     if task_id \<le> 0 then Inr (- 1, e1, w)
     else
       let (co, w1) = lu_newthread sys w in
       if co = 0 then Inr (- 1, e1, w1)
       else
         let e2 = e1\<lparr>le_co_map := smap_put task_id co (le_co_map e1)\<rparr>;
             (is_fun, w2) = lu_getfunction sys co lua_func w1 in
         if \<not> is_fun then rbind (close_task task_id e2) (\<lambda>e3. Inr (0, e3, w2))
         else Inr (task_id, e2, w2))))"

text \<open>The templates of \<open>Resume\<close> differ in the number of values they push.\<close>

definition resume_task ::
  "('v, 'w) lua_sys \<Rightarrow> int \<Rightarrow> 'v list \<Rightarrow> lua_engine \<times> 'w \<Rightarrow> (lua_engine \<times> 'w) res" where
  "resume_task sys task_id args = (\<lambda>(e, w).
     if task_id > 0 then
       let (co, e1) = co_map_at task_id e in
       if co \<noteq> 0 then
         rbind (lu_resume sys co args w) (\<lambda>(ret, w1).
         if ret \<noteq> LUA_YIELD then rbind (close_task task_id e1) (\<lambda>e2. Inr (e2, w1)) else Inr (e1, w1))
       else Inr (e1, w)
     else Inr (e, w))"

definition lua_on_timer :: "lua_engine exec" where
  "lua_on_timer c task_id data s =
     (case s of (ht, e) \<Rightarrow>
        rbind (close_task task_id (e\<lparr>le_timer := ht\<rparr>)) (\<lambda>e'. Inr (- 1, le_timer e', e')))"

definition lua_run :: "time_value \<Rightarrow> lua_engine \<Rightarrow> lua_engine res option" where
  "lua_run now e =
     map_option (\<lambda>r. rbind r (\<lambda>(ht, e'). Inr (e'\<lparr>le_timer := ht\<rparr>)))
       (timer_poll lua_on_timer now (le_timer e) e)"

section \<open>Start and end\<close>

definition lua_txt :: "string \<Rightarrow> bytes" where
  "lua_txt s = map of_char s"

definition add_require_path :: "bytes \<Rightarrow> bytes \<Rightarrow> bytes" where
  "add_require_path str oss = oss @ str @ lua_txt ''//?.lua;''"

definition add_require_cpath :: "bytes \<Rightarrow> bytes \<Rightarrow> bytes" where
  "add_require_cpath str oss = oss @ str @ lua_txt ''//?.so;''"

text \<open>\<open>Init\<close>, from the allocation of the heap: \<open>script_path\<close> is the directory of the main script,
  \<open>oss_path\<close> and \<open>oss_cpath\<close> what was added to the search paths before. \<open>Fini\<close>, which it calls
  first, changes nothing but a local pointer.\<close>

definition lua_init ::
  "('v, 'w) lua_sys \<Rightarrow> bytes \<Rightarrow> bytes \<Rightarrow> bytes \<Rightarrow> bytes \<Rightarrow> lua_engine \<times> 'w \<Rightarrow> (lua_engine \<times> 'w) res" where
  "lua_init sys main_script_file script_path oss_path oss_cpath = (\<lambda>(e, w).
     let e1 = e\<lparr>le_timer := heap_timer_new 1024 (lu_now sys w)\<rparr>;
         (ret, w1) = lu_dostring sys (lua_txt ''package.path = '' @ [34] @ add_require_path script_path oss_path @ [34]) w in
     rbind (guard Check_Failed (ret = 0)) (\<lambda>_.
     let (ret, w2) = lu_dostring sys (lua_txt ''package.cpath = '' @ [34] @ add_require_cpath script_path oss_cpath @ [34]) w1 in
     rbind (guard Check_Failed (ret = 0)) (\<lambda>_.
     let (ret, w3) = lu_dofile sys main_script_file w2 in
     rbind (guard Check_Failed (ret = 0)) (\<lambda>_. Inr (e1, lu_reload sys w3)))))"

text \<open>The destructor of the module runs the engine until there is no task left: the loop at the times
  \<open>nows\<close> of its rounds, with \<open>True\<close> when it has ended.\<close>

fun lua_wait :: "time_value list \<Rightarrow> lua_engine \<Rightarrow> (bool \<times> lua_engine) res option" where
  "lua_wait [] e = Some (Inr (get_task_size e = 0, e))"
| "lua_wait (now # nows) e =
     (if get_task_size e \<noteq> 0 then
        case lua_run now e of
          None \<Rightarrow> None
        | Some (Inl err) \<Rightarrow> Some (Inl err)
        | Some (Inr e') \<Rightarrow> lua_wait nows e'
      else Some (Inr (True, e)))"

end
