(* ===== verification/Lua_Engine_Props.thy ===== *)
theory Lua_Engine_Props
  imports Lua_Engine
begin

text \<open>
  What the tasks of \<open>Lua_Engine\<close> promise: an invariant of the engine that every operation keeps,
  \<open>CreateTask\<close> and \<open>Resume\<close> that never fault, and what the loop over the timers does: it
  forgets the timers that lost their task, and it fails at the first task that times out, so that
  the destructor of the module does not return while a task is left.
\<close>

section \<open>The invariant\<close>

text \<open>Every task has a pending timer of the engine; entries without a task may remain.\<close>

definition lua_inv :: "lua_engine \<Rightarrow> bool" where
  "lua_inv e \<longleftrightarrow> ht_inv (le_timer e) \<and> smap_ok (le_co_map e) \<and>
     (\<forall>i. find_task i e \<noteq> 0 \<longrightarrow> pending_of (le_timer e) i \<noteq> None) \<and>
     (\<forall>i. pending_of (le_timer e) i \<in> {None, Some (Some lua_cb, 0)})"

lemma lua_invD:
  assumes "lua_inv e"
  shows "ht_inv (le_timer e)" "smap_ok (le_co_map e)"
    "find_task i e \<noteq> 0 \<Longrightarrow> pending_of (le_timer e) i \<noteq> None"
    "pending_of (le_timer e) i \<in> {None, Some (Some lua_cb, 0)}"
  using assms by (simp_all add: lua_inv_def)

lemma lua_invI:
  assumes "ht_inv (le_timer e)" "smap_ok (le_co_map e)"
    "\<And>i. find_task i e \<noteq> 0 \<Longrightarrow> pending_of (le_timer e) i \<noteq> None"
    "\<And>i. pending_of (le_timer e) i \<in> {None, Some (Some lua_cb, 0)}"
  shows "lua_inv e"
  using assms by (simp add: lua_inv_def)

lemma find_task_pos: "lua_inv e \<Longrightarrow> find_task i e \<noteq> 0 \<Longrightarrow> 0 < i"
  using tm.pending_pos [of "le_timer e" i] lua_invD(1) [of e] lua_invD(3) [of e i] by blast

text \<open>\<open>operator[]\<close> finds what \<open>FindTask\<close> finds, and changes nothing that it can find.\<close>

lemma co_map_at_task: "find_task i e \<noteq> 0 \<Longrightarrow> co_map_at i e = (find_task i e, e)"
  by (auto simp: co_map_at_def find_task_def split: option.splits)

lemma co_map_at_none:
  assumes inv: "lua_inv e" and i: "find_task i e = 0"
  obtains e' where "co_map_at i e = (0, e')" "lua_inv e'" "\<And>j. find_task j e' = find_task j e" "le_timer e' = le_timer e"
    "dom (map_of (le_co_map e')) = insert i (dom (map_of (le_co_map e)))"
proof -
  define e' where "e' = (if map_of (le_co_map e) i = None then e\<lparr>le_co_map := smap_put i 0 (le_co_map e)\<rparr> else e)"
  have ok: "smap_ok (le_co_map e)" by (rule lua_invD(2) [OF inv])
  have f: "find_task j e' = find_task j e" for j
    using ok i by (auto simp: e'_def find_task_def split: option.splits)
  have t: "le_timer e' = le_timer e" by (simp add: e'_def)
  have "lua_inv e'"
    by (rule lua_invI) (use lua_invD [OF inv] f t in \<open>simp_all add: e'_def\<close>)
  moreover have "co_map_at i e = (0, e')"
    using i by (auto simp: co_map_at_def e'_def find_task_def split: option.splits)
  moreover have "dom (map_of (le_co_map e')) = insert i (dom (map_of (le_co_map e)))"
    using ok by (auto simp: e'_def)
  ultimately show thesis using that f t by blast
qed

section \<open>The operations\<close>

lemma close_task_ok:
  assumes inv: "lua_inv e"
  obtains e' where "close_task i e = Inr e'" "lua_inv e'" "\<And>j. find_task j e' = (if j = i then 0 else find_task j e)"
    "heap_size (le_timer e') = heap_size (le_timer e)"
    "\<And>j. pending_of (le_timer e') j = (if j = i \<and> find_task i e \<noteq> 0 then None else pending_of (le_timer e) j)"
proof (cases "find_task i e = 0")
  case True
  obtain e' where e': "co_map_at i e = (0, e')" "lua_inv e'" "\<And>j. find_task j e' = find_task j e" "le_timer e' = le_timer e"
    by (rule co_map_at_none [OF inv True]) blast
  have "close_task i e = Inr (if 0 < i then e' else e)" using e'(1) by (simp add: close_task_def)
  then show thesis using that [of "if 0 < i then e' else e"] inv e' True by simp
next
  case False
  have p: "pending_of (le_timer e) i \<noteq> None" by (rule lua_invD(3) [OF inv False])
  obtain ht where u: "unregister_timer i (le_timer e) = Inr ht" "ht_inv ht" "pending_of ht = (pending_of (le_timer e))(i := None)"
    "heap_size ht = heap_size (le_timer e)"
    using unregister_pending [OF lua_invD(1) [OF inv] p] by blast
  let ?e = "e\<lparr>le_timer := ht, le_co_map := smap_erase i (le_co_map e)\<rparr>"
  have f: "find_task j ?e = (if j = i then 0 else find_task j e)" for j by (simp add: find_task_def)
  have "lua_inv ?e"
    by (rule lua_invI) (use u lua_invD [OF inv] f in \<open>simp_all split: if_splits\<close>)
  moreover have "close_task i e = Inr ?e"
    using False find_task_pos [OF inv False] u(1) by (simp add: close_task_def co_map_at_task)
  ultimately show thesis using that [of ?e] f u(3,4) False by simp
qed

lemma resume_task_ok:
  assumes inv: "lua_inv e" and go: "find_task i e \<noteq> 0 \<Longrightarrow> lu_resume sys (find_task i e) args w = Inr (ret, w1)"
  obtains e' where "resume_task sys i args (e, w) = Inr (e', if find_task i e = 0 then w else w1)" "lua_inv e'"
    "heap_size (le_timer e') = heap_size (le_timer e)" "\<And>j. j \<noteq> i \<Longrightarrow> find_task j e' = find_task j e"
    "find_task i e' = (if ret = LUA_YIELD then find_task i e else 0)"
proof (cases "find_task i e = 0")
  case True
  obtain e' where e': "co_map_at i e = (0, e')" "lua_inv e'" "\<And>j. find_task j e' = find_task j e" "le_timer e' = le_timer e"
    by (rule co_map_at_none [OF inv True]) blast
  have "resume_task sys i args (e, w) = Inr (if 0 < i then e' else e, w)" using e'(1) by (simp add: resume_task_def)
  then show thesis using that [of "if 0 < i then e' else e"] inv e'(2-4) True by simp
next
  case False
  obtain e1 where e1: "close_task i e = Inr e1" "lua_inv e1" "\<And>j. find_task j e1 = (if j = i then 0 else find_task j e)"
    "heap_size (le_timer e1) = heap_size (le_timer e)" by (rule close_task_ok [OF inv]) blast
  have "resume_task sys i args (e, w) = Inr (if ret = LUA_YIELD then e else e1, w1)"
    using go [OF False] e1(1) False find_task_pos [OF inv False] by (simp add: resume_task_def co_map_at_task)
  then show thesis using that [of "if ret = LUA_YIELD then e else e1"] inv e1(2-4) False by simp
qed

text \<open>A resume faults when the script it runs does, and for no other reason.\<close>

lemma resume_task_fault:
  assumes inv: "lua_inv e"
  shows "resume_task sys i args (e, w) = Inl err \<longleftrightarrow> find_task i e \<noteq> 0 \<and> lu_resume sys (find_task i e) args w = Inl err"
proof (cases "find_task i e \<noteq> 0 \<and> (\<exists>f. lu_resume sys (find_task i e) args w = Inl f)")
  case True
  then obtain f where f: "find_task i e \<noteq> 0" "lu_resume sys (find_task i e) args w = Inl f" by blast
  then show ?thesis using find_task_pos [OF inv f(1)] by (simp add: resume_task_def co_map_at_task)
next
  case False
  obtain ret w1 where r: "find_task i e \<noteq> 0 \<Longrightarrow> lu_resume sys (find_task i e) args w = Inr (ret, w1)"
    using False by (cases "lu_resume sys (find_task i e) args w") auto
  obtain e' where "resume_task sys i args (e, w) = Inr (e', if find_task i e = 0 then w else w1)"
    by (rule resume_task_ok [OF inv r]) blast+
  then show ?thesis using False by auto
qed

lemma resume_task_keeps:
  assumes inv: "lua_inv e" and run: "resume_task sys i args (e, w) = Inr (e', w')"
  shows "lua_inv e'" "heap_size (le_timer e') = heap_size (le_timer e)"
proof -
  have no: "find_task i e \<noteq> 0 \<Longrightarrow> lu_resume sys (find_task i e) args w \<noteq> Inl err" for err
    using resume_task_fault [OF inv, of sys i args w err] run by simp
  obtain ret w1 where r: "find_task i e \<noteq> 0 \<Longrightarrow> lu_resume sys (find_task i e) args w = Inr (ret, w1)"
  proof (cases "lu_resume sys (find_task i e) args w")
    case (Inl a)
    then show thesis using that no [of a] by blast
  next
    case (Inr x)
    then show thesis using that by (cases x) blast
  qed
  obtain e1 where "resume_task sys i args (e, w) = Inr (e1, if find_task i e = 0 then w else w1)" "lua_inv e1"
    "heap_size (le_timer e1) = heap_size (le_timer e)"
    by (rule resume_task_ok [OF inv r]) blast+
  then show "lua_inv e'" "heap_size (le_timer e') = heap_size (le_timer e)" using run by simp_all
qed

text \<open>What \<open>CreateTask\<close> answers: the id of a new task, or a number that no task has.\<close>

lemma create_task_ok:
  assumes inv: "lua_inv e" and room: "heap_size (le_timer e) < 1073741824" and secs: "0 < secs" "secs < 2147483648"
  obtains i e' w' where "create_task sys f secs (e, w) = Inr (i, e', w')" "lua_inv e'"
    "if 0 < i then find_task i e = 0 \<and> find_task i e' = fst (lu_newthread sys w) \<and> find_task i e' \<noteq> 0
     else i = (if fst (lu_newthread sys w) = 0 then - 1 else 0)"
    "\<And>j. j \<noteq> i \<Longrightarrow> find_task j e' = find_task j e" "heap_size (le_timer e') \<le> 2 * heap_size (le_timer e)"
    "0 < i \<longleftrightarrow> fst (lu_newthread sys w) \<noteq> 0 \<and> fst (lu_getfunction sys (fst (lu_newthread sys w)) f (snd (lu_newthread sys w)))"
    "0 < i \<longrightarrow> w' = snd (lu_getfunction sys (fst (lu_newthread sys w)) f (snd (lu_newthread sys w)))"
proof -
  let ?tv = "TimeValue secs 0"
  have set: "tv_set secs 0 = Inr ?tv" by (simp add: tv_set_def tv_canonical_def)
  have ne: "?tv \<noteq> TimeValue 0 0" using secs by simp
  note d = lua_invD [OF inv]
  obtain i ht where r: "register_timer (lu_now sys w) ?tv ?tv (Some lua_cb) 0 (le_timer e) = Inr (i, ht)" "ht_inv ht"
    "0 < i" "pending_of (le_timer e) i = None" "pending_of ht = (pending_of (le_timer e))(i \<mapsto> (Some lua_cb, 0))"
    using tm.register_law [OF d(1) room tv_canonical_secs tv_canonical_secs ne] by blast
  note hs = register_heap_size [OF r(1)]
  have fresh: "find_task i e = 0" using r(4) d(3) [of i] by blast
  let ?e1 = "e\<lparr>le_timer := ht\<rparr>"
  have f1: "find_task j ?e1 = find_task j e" for j by (simp add: find_task_def)
  have inv1: "lua_inv ?e1"
    by (rule lua_invI) (use r(2,5) d f1 in \<open>simp_all\<close>)
  obtain co w1 where nt: "lu_newthread sys w = (co, w1)" by (cases "lu_newthread sys w")
  let ?e2 = "e\<lparr>le_timer := ht, le_co_map := smap_put i co (le_co_map e)\<rparr>"
  have f2: "find_task j ?e2 = (if j = i then co else find_task j e)" for j using d(2) by (simp add: find_task_def)
  have inv2: "lua_inv ?e2"
    by (rule lua_invI) (use r(2,5) d f2 in \<open>auto split: if_splits\<close>)
  obtain fn w2 where gf: "lu_getfunction sys co f w1 = (fn, w2)" by (cases "lu_getfunction sys co f w1")
  obtain e3 where e3: "close_task i ?e2 = Inr e3" "lua_inv e3" "\<And>j. find_task j e3 = (if j = i then 0 else find_task j ?e2)"
    "heap_size (le_timer e3) = heap_size (le_timer ?e2)" by (rule close_task_ok [OF inv2]) blast
  have res: "create_task sys f secs (e, w) =
      (if co = 0 then Inr (- 1, ?e1, w1) else if fn then Inr (i, ?e2, w2) else Inr (0, e3, w2))"
    using set r(1,3) nt gf e3(1) by (simp add: create_task_def Let_def)
  consider "co = 0" | "co \<noteq> 0" "fn" | "co \<noteq> 0" "\<not> fn" by blast
  then show thesis
  proof cases
    case 1
    have "create_task sys f secs (e, w) = Inr (- 1, ?e1, w1)" using res 1 by simp
    then show thesis by (rule that) (use inv1 f1 nt 1 hs in simp_all)
  next
    case 2
    have "create_task sys f secs (e, w) = Inr (i, ?e2, w2)" using res 2 by simp
    then show thesis by (rule that) (use inv2 f2 nt gf 2 r(3) fresh hs in simp_all)
  next
    case 3
    have "create_task sys f secs (e, w) = Inr (0, e3, w2)" using res 3 by simp
    then show thesis by (rule that) (use e3(2-4) f2 nt gf 3 fresh hs in simp_all)
  qed
qed

lemma create_task_started:
  assumes inv: "lua_inv e" and room: "heap_size (le_timer e) < 1073741824" and secs: "0 < secs" "secs < 2147483648"
    and co: "lu_newthread sys w = (co, w1)" "co \<noteq> 0" "lu_getfunction sys co f w1 = (True, w2)"
  obtains i e' where "create_task sys f secs (e, w) = Inr (i, e', w2)" "lua_inv e'" "0 < i" "find_task i e = 0" "find_task i e' = co"
    "\<And>j. j \<noteq> i \<Longrightarrow> find_task j e' = find_task j e"
proof -
  obtain i e' w' where c: "create_task sys f secs (e, w) = Inr (i, e', w')" "lua_inv e'"
    "if 0 < i then find_task i e = 0 \<and> find_task i e' = fst (lu_newthread sys w) \<and> find_task i e' \<noteq> 0
     else i = (if fst (lu_newthread sys w) = 0 then - 1 else 0)"
    "\<And>j. j \<noteq> i \<Longrightarrow> find_task j e' = find_task j e" "heap_size (le_timer e') \<le> 2 * heap_size (le_timer e)"
    "0 < i \<longleftrightarrow> fst (lu_newthread sys w) \<noteq> 0 \<and> fst (lu_getfunction sys (fst (lu_newthread sys w)) f (snd (lu_newthread sys w)))"
    "0 < i \<longrightarrow> w' = snd (lu_getfunction sys (fst (lu_newthread sys w)) f (snd (lu_newthread sys w)))"
    by (rule create_task_ok [where sys = sys and f = f and w = w, OF inv room secs]) blast
  then have i: "0 < i" "w' = w2" using co by simp_all
  show thesis by (rule that [of i e']) (use c i co in simp_all)
qed

section \<open>The timers\<close>

text \<open>One iteration of \<open>Run\<close> with a timer that is due: its task makes it fail, and a timer without a
  task is removed.\<close>

lemma lua_poll_step:
  assumes inv: "lua_inv (e\<lparr>le_timer := ht\<rparr>)" and due: "due ht now \<noteq> {}"
  obtains a where "a \<in> due ht now" "find_task (timer_id (the (nodes ht a))) e \<noteq> 0" "poll_step lua_on_timer now ht e = Inl Dangling"
  | a ht' e' where "a \<in> due ht now" "find_task (timer_id (the (nodes ht a))) e = 0"
      "poll_step lua_on_timer now ht e = Inr (Some (ht', e'))" "lua_inv (e'\<lparr>le_timer := ht'\<rparr>)"
      "\<And>j. find_task j e' = find_task j e" "removed ht a ht'"
      "dom (map_of (le_co_map e')) = insert (timer_id (the (nodes ht a))) (dom (map_of (le_co_map e)))"
proof -
  let ?e = "e\<lparr>le_timer := ht\<rparr>" and ?a = "heap ht ! 0"
  let ?n = "the (nodes ht ?a)"
  have ht: "ht_inv ht" using lua_invD(1) [OF inv] by simp
  from due obtain b where b: "b \<in> live ht" "expire_time (the (nodes ht b)) \<le> now" by (auto simp: due_def)
  then have c: "0 < cur_size ht" by (auto simp: live_def)
  note r = root_facts [OF ht c]
  have exp: "expire_time ?n \<le> now" using r(4) [OF b(1)] b(2) by simp
  have a: "?a \<in> due ht now" using r(1) exp by (simp add: due_def)
  note p = pending_of_Some [OF ht r(1)]
  have cb: "cb_obj ?n = Some lua_cb" using p lua_invD(4) [OF inv, of "timer_id ?n"] by simp
  have f: "find_task j ?e = find_task j e" for j by (simp add: find_task_def)
  show thesis
  proof (cases "find_task (timer_id ?n) e = 0")
    case False
    then have t: "find_task (timer_id ?n) ?e \<noteq> 0" by (simp add: f)
    let ?g = "\<lambda>ht'. e\<lparr>le_timer := ht', le_co_map := smap_erase (timer_id ?n) (le_co_map e)\<rparr>"
    have "close_task (timer_id ?n) ?e = rbind (unregister_timer (timer_id ?n) ht) (\<lambda>ht'. Inr (?g ht'))"
      using t find_task_pos [OF inv t] by (simp add: close_task_def co_map_at_task)
    then have x: "lua_on_timer lua_cb (timer_id ?n) (node_data ?n) (ht, e) =
        rbind (unregister_timer (timer_id ?n) ht) (\<lambda>ht'. Inr (- 1, ht', ?g ht'))"
      by (cases "unregister_timer (timer_id ?n) ht") (simp_all add: lua_on_timer_def)
    have "poll_step lua_on_timer now ht e = Inl Dangling"
      by (rule poll_self_unregister [where exec = lua_on_timer and w = e and ret = "- 1" and g = ?g, OF ht due refl cb x])
    then show thesis using that(1) a False by blast
  next
    case True
    then have t: "find_task (timer_id ?n) ?e = 0" by (simp add: f)
    have pos: "0 < timer_id ?n" by (rule tm.pending_pos [OF ht]) (simp add: p)
    obtain e' where e': "co_map_at (timer_id ?n) ?e = (0, e')" "lua_inv e'" "\<And>j. find_task j e' = find_task j ?e" "le_timer e' = le_timer ?e"
      "dom (map_of (le_co_map e')) = insert (timer_id ?n) (dom (map_of (le_co_map ?e)))"
      by (rule co_map_at_none [OF inv t]) blast
    have x: "lua_on_timer lua_cb (timer_id ?n) (node_data ?n) (ht, e) = Inr (- 1, ht, e')"
      using pos e'(1,4) by (simp add: lua_on_timer_def close_task_def)
    obtain ht' where h: "poll_remove ht ?a = Inr ht'" "removed ht ?a ht'" by (rule poll_remove_correct [OF ht c])
    have "poll_step lua_on_timer now ht e = Inr (Some (ht', e'))"
      using c r(2,3) exp cb x h(1) by (simp add: poll_step_def)
    moreover have pd: "pending_of ht' = (pending_of ht)(timer_id ?n := None)" by (rule removed_pending [OF ht r(1) h(2)])
    have f': "find_task j (e'\<lparr>le_timer := ht'\<rparr>) = find_task j e" for j using e'(3) [of j] by (simp add: find_task_def)
    have "lua_inv (e'\<lparr>le_timer := ht'\<rparr>)"
    proof (rule lua_invI)
      show "ht_inv (le_timer (e'\<lparr>le_timer := ht'\<rparr>))" using h(2) by (simp add: removed_def)
      show "smap_ok (le_co_map (e'\<lparr>le_timer := ht'\<rparr>))" using lua_invD(2) [OF e'(2)] by simp
      fix j
      show "pending_of (le_timer (e'\<lparr>le_timer := ht'\<rparr>)) j \<noteq> None" if "find_task j (e'\<lparr>le_timer := ht'\<rparr>) \<noteq> 0"
        using that lua_invD(3) [OF inv, of j] True by (auto simp: f' f pd)
      show "pending_of (le_timer (e'\<lparr>le_timer := ht'\<rparr>)) j \<in> {None, Some (Some lua_cb, 0)}"
        using lua_invD(4) [OF inv, of j] by (simp add: pd)
    qed
    ultimately show thesis using that(2) a True h(2) e'(3,5) f by simp
  qed
qed

lemma removed_due: "ht_inv ht \<Longrightarrow> removed ht a ht' \<Longrightarrow> live ht' = live ht - {a} \<and> due ht' now = due ht now - {a}"
proof -
  assume inv: "ht_inv ht" and r: "removed ht a ht'"
  have inv': "ht_inv ht'" and ns: "nodes ht' = (nodes ht)(a := None)" using r by (simp_all add: removed_def)
  have "dom (nodes ht') = live ht'" "dom (nodes ht) = live ht" using inv inv' by (simp_all add: ht_inv_def)
  then have l: "live ht' = live ht - {a}" using ns by auto
  then show ?thesis using ns by (auto simp: due_def)
qed

text \<open>The whole loop: it fails if a task is due; else it ends, and no task, only the timers that lost
  theirs, is gone.\<close>

lemma lua_poll:
  assumes inv: "lua_inv (e\<lparr>le_timer := ht\<rparr>)"
  shows "if \<exists>a\<in>due ht now. find_task (timer_id (the (nodes ht a))) e \<noteq> 0
    then timer_poll lua_on_timer now ht e = Some (Inl Dangling)
    else \<exists>ht' e'. timer_poll lua_on_timer now ht e = Some (Inr (ht', e')) \<and> lua_inv (e'\<lparr>le_timer := ht'\<rparr>) \<and>
      due ht' now = {} \<and> live ht' = live ht - due ht now \<and> (\<forall>j. find_task j e' = find_task j e) \<and>
      dom (map_of (le_co_map e')) = dom (map_of (le_co_map e)) \<union> (\<lambda>a. timer_id (the (nodes ht a))) ` due ht now"
  using inv
proof (induction "card (due ht now)" arbitrary: ht e rule: less_induct)
  case less
  have ht: "ht_inv ht" using lua_invD(1) [OF less.prems] by simp
  let ?id = "\<lambda>a. timer_id (the (nodes ht a))"
  show ?case
  proof (cases "due ht now = {}")
    case True
    have "timer_poll lua_on_timer now ht e = Some (Inr (ht, e))"
      by (subst timer_poll.simps) (simp add: poll_step_idle [OF ht True])
    then show ?thesis using True less.prems by simp
  next
    case False
    show ?thesis
    proof (rule lua_poll_step [OF less.prems False])
      fix a assume a: "a \<in> due ht now" "find_task (?id a) e \<noteq> 0" "poll_step lua_on_timer now ht e = Inl Dangling"
      have "timer_poll lua_on_timer now ht e = Some (Inl Dangling)" by (subst timer_poll.simps) (simp add: a(3))
      moreover have "\<exists>a\<in>due ht now. find_task (?id a) e \<noteq> 0" using a(1,2) by blast
      ultimately show ?thesis by simp
    next
      fix a ht1 e1
      assume a: "a \<in> due ht now" "find_task (?id a) e = 0"
        and st: "poll_step lua_on_timer now ht e = Inr (Some (ht1, e1))"
        and inv1: "lua_inv (e1\<lparr>le_timer := ht1\<rparr>)" and f1: "\<And>j. find_task j e1 = find_task j e" and rm: "removed ht a ht1"
        and dom1: "dom (map_of (le_co_map e1)) = insert (?id a) (dom (map_of (le_co_map e)))"
      have l1: "live ht1 = live ht - {a}" and d1: "due ht1 now = due ht now - {a}" using removed_due [OF ht rm] by simp_all
      have n1: "nodes ht1 b = nodes ht b" if "b \<in> due ht1 now" for b using that rm d1 by (simp add: removed_def)
      have poll: "timer_poll lua_on_timer now ht e = timer_poll lua_on_timer now ht1 e1"
        by (subst timer_poll.simps) (simp add: st)
      have "card (due ht1 now) < card (due ht now)" unfolding d1 by (rule card_Diff1_less) (use a(1) in simp_all)
      note ih = less.hyps [OF this inv1]
      have ex: "(\<exists>b\<in>due ht1 now. find_task (timer_id (the (nodes ht1 b))) e1 \<noteq> 0) = (\<exists>b\<in>due ht now. find_task (?id b) e \<noteq> 0)"
        using d1 n1 f1 a by auto
      have im: "(\<lambda>b. timer_id (the (nodes ht1 b))) ` due ht1 now = ?id ` due ht1 now" using n1 by (intro image_cong) simp_all
      have u: "insert (?id a) (?id ` due ht1 now) = ?id ` due ht now" "insert a (due ht1 now) = due ht now" using a(1) d1 by auto
      show ?thesis
      proof (cases "\<exists>b\<in>due ht now. find_task (?id b) e \<noteq> 0")
        case True
        then show ?thesis using ih ex poll by simp
      next
        case F: False
        then obtain ht' e' where i: "timer_poll lua_on_timer now ht1 e1 = Some (Inr (ht', e'))" "lua_inv (e'\<lparr>le_timer := ht'\<rparr>)"
          "due ht' now = {}" "live ht' = live ht1 - due ht1 now" "\<forall>j. find_task j e' = find_task j e1"
          "dom (map_of (le_co_map e')) = dom (map_of (le_co_map e1)) \<union> ?id ` due ht1 now"
          using ih ex im by (simp split: if_splits) blast
        have "live ht' = live ht - due ht now" using i(4) l1 u(2) by auto
        moreover have "dom (map_of (le_co_map e')) = dom (map_of (le_co_map e)) \<union> ?id ` due ht now"
          using i(6) dom1 u(1) by auto
        moreover have "\<forall>j. find_task j e' = find_task j e" using i(5) f1 by simp
        ultimately show ?thesis unfolding if_not_P [OF F] using poll i(1-3) by (intro exI conjI) simp_all
      qed
    qed
  qed
qed

section \<open>Reachable engines\<close>

text \<open>The engine from \<open>Init\<close> on, as the module drives it. The heap of the timers has room.\<close>

inductive lua_reach :: "('v, 'w) lua_sys \<Rightarrow> lua_engine \<times> 'w \<Rightarrow> bool" for sys :: "('v, 'w) lua_sys" where
  init: "lua_init sys script path oss_path oss_cpath (e, w) = Inr s \<Longrightarrow> le_co_map e = [] \<Longrightarrow> seed_ok (i32 (lu_now sys w)) \<Longrightarrow>
    lua_reach sys s"
| create: "lua_reach sys (e, w) \<Longrightarrow> heap_size (le_timer e) < 1073741824 \<Longrightarrow> 0 < secs \<Longrightarrow> secs < 2147483648 \<Longrightarrow>
    create_task sys f secs (e, w) = Inr (i, s) \<Longrightarrow> lua_reach sys s"
| resume: "lua_reach sys s \<Longrightarrow> resume_task sys i args s = Inr s' \<Longrightarrow> lua_reach sys s'"
| run: "lua_reach sys (e, w) \<Longrightarrow> lua_run now e = Some (Inr e') \<Longrightarrow> lua_reach sys (e', w)"

lemma lua_inv_init:
  assumes "lua_init sys script path oss_path oss_cpath (e, w) = Inr (e', w')" "le_co_map e = []" "seed_ok (i32 (lu_now sys w))"
  shows "lua_inv e'" "le_co_map e' = []"
proof -
  have e': "e' = e\<lparr>le_timer := heap_timer_new 1024 (lu_now sys w)\<rparr>"
    using assms(1) by (auto simp: lua_init_def Let_def rbind_eq_Inr_iff split: prod.splits)
  have inv: "ht_inv (heap_timer_new 1024 (lu_now sys w))" by (rule ht_inv_new) (simp_all add: assms(3))
  have "pending_of (heap_timer_new 1024 (lu_now sys w)) i = None" for i
    using pending_of_None [OF inv] by (simp add: live_def heap_timer_new_def)
  then show "lua_inv e'" using inv assms(2) by (simp add: lua_inv_def e' find_task_def)
  show "le_co_map e' = []" using assms(2) by (simp add: e')
qed

lemma lua_run_ok:
  assumes inv: "lua_inv e" and idle: "\<forall>a\<in>due (le_timer e) now. find_task (timer_id (the (nodes (le_timer e) a))) e = 0"
  obtains e' where "lua_run now e = Some (Inr e')" "lua_inv e'" "due (le_timer e') now = {}"
    "live (le_timer e') = live (le_timer e) - due (le_timer e) now" "\<And>j. find_task j e' = find_task j e"
    "dom (map_of (le_co_map e')) = dom (map_of (le_co_map e)) \<union> (\<lambda>a. timer_id (the (nodes (le_timer e) a))) ` due (le_timer e) now"
proof -
  have "lua_inv (e\<lparr>le_timer := le_timer e\<rparr>)" using inv by simp
  from lua_poll [OF this, of now] idle obtain ht' e' where p:
    "timer_poll lua_on_timer now (le_timer e) e = Some (Inr (ht', e'))" "lua_inv (e'\<lparr>le_timer := ht'\<rparr>)"
    "due ht' now = {}" "live ht' = live (le_timer e) - due (le_timer e) now" "\<forall>j. find_task j e' = find_task j e"
    "dom (map_of (le_co_map e')) = dom (map_of (le_co_map e)) \<union> (\<lambda>a. timer_id (the (nodes (le_timer e) a))) ` due (le_timer e) now"
    by auto
  have "lua_run now e = Some (Inr (e'\<lparr>le_timer := ht'\<rparr>))" using p(1) by (simp add: lua_run_def)
  moreover have "find_task j (e'\<lparr>le_timer := ht'\<rparr>) = find_task j e" for j using p(5) by (simp add: find_task_def)
  ultimately show thesis using that [of "e'\<lparr>le_timer := ht'\<rparr>"] p by simp
qed

lemma lua_run_fails:
  assumes inv: "lua_inv e" and t: "a \<in> due (le_timer e) now" "find_task (timer_id (the (nodes (le_timer e) a))) e \<noteq> 0"
  shows "lua_run now e = Some (Inl Dangling)"
proof -
  have "lua_inv (e\<lparr>le_timer := le_timer e\<rparr>)" using inv by simp
  moreover have "\<exists>a\<in>due (le_timer e) now. find_task (timer_id (the (nodes (le_timer e) a))) e \<noteq> 0" using t by blast
  ultimately have "timer_poll lua_on_timer now (le_timer e) e = Some (Inl Dangling)"
    using lua_poll [where e = e and ht = "le_timer e" and now = now] by (simp only: if_True)
  then show ?thesis by (simp add: lua_run_def)
qed

lemma lua_reach_inv: "lua_reach sys s \<Longrightarrow> lua_inv (fst s)"
proof (induction rule: lua_reach.induct)
  case (init script path oss_path oss_cpath e w s)
  then show ?case using lua_inv_init(1) [of sys script path oss_path oss_cpath e w "fst s" "snd s"] by simp
next
  case (create e w secs f i s)
  have inv: "lua_inv e" using create.IH by simp
  obtain i' e' w' where "create_task sys f secs (e, w) = Inr (i', e', w')" "lua_inv e'"
    by (rule create_task_ok [where sys = sys and f = f and w = w, OF inv create.hyps(2-4)]) blast
  then show ?case using create.hyps(5) by auto
next
  case (resume s i args s')
  obtain e w where s: "s = (e, w)" by (cases s)
  have inv: "lua_inv e" using resume.IH s by simp
  show ?case using resume_task_keeps(1) [OF inv] resume.hyps(2) s by (cases s') simp
next
  case (run e w now e')
  have inv: "lua_inv e" using run.IH by simp
  show ?case
  proof (cases "\<forall>a\<in>due (le_timer e) now. find_task (timer_id (the (nodes (le_timer e) a))) e = 0")
    case True
    obtain e1 where "lua_run now e = Some (Inr e1)" "lua_inv e1" by (rule lua_run_ok [OF inv True]) blast
    then show ?thesis using run.hyps(2) by simp
  next
    case False
    then show ?thesis using lua_run_fails [OF inv] run.hyps(2) by auto
  qed
qed

section \<open>The properties\<close>

definition task_inv :: "lua_engine \<Rightarrow> bool" where
  "task_inv e \<longleftrightarrow> (\<forall>i. find_task i e \<noteq> 0 \<longrightarrow> 0 < i \<and> pending_of (le_timer e) i = Some (Some lua_cb, 0))"

text \<open>In every engine that the module reaches, each task has a positive id and a pending timer of
  the engine; \<open>Resume\<close> of any id, known or not, faults only when the script that it runs does,
  \<open>CreateTask\<close> returns without a fault, and it never answers with the id of another task.\<close>

theorem lua_reach_ok:
  assumes "lua_reach sys (e, w)" "heap_size (le_timer e) < 1073741824" "0 < secs" "secs < 2147483648"
  shows "task_inv e \<and>
    (resume_task sys i args (e, w) = Inl err \<longleftrightarrow> find_task i e \<noteq> 0 \<and> lu_resume sys (find_task i e) args w = Inl err) \<and>
    (\<exists>j e' w'. create_task sys f secs (e, w) = Inr (j, e', w') \<and> task_inv e' \<and> find_task j e = 0 \<and>
       (find_task j e' \<noteq> 0 \<longleftrightarrow> 0 < j) \<and> (\<forall>k. k \<noteq> j \<longrightarrow> find_task k e' = find_task k e))"
proof -
  have inv: "lua_inv e" using lua_reach_inv [OF assms(1)] by simp
  have t: "task_inv e" if "lua_inv e" for e
    unfolding task_inv_def
  proof (intro allI impI)
    fix i assume i: "find_task i e \<noteq> 0"
    then show "0 < i \<and> pending_of (le_timer e) i = Some (Some lua_cb, 0)"
      using find_task_pos [OF that i] lua_invD(3) [OF that i] lua_invD(4) [OF that, of i] by auto
  qed
  obtain j e' w' where c: "create_task sys f secs (e, w) = Inr (j, e', w')" "lua_inv e'"
    "if 0 < j then find_task j e = 0 \<and> find_task j e' = fst (lu_newthread sys w) \<and> find_task j e' \<noteq> 0
     else j = (if fst (lu_newthread sys w) = 0 then - 1 else 0)"
    "\<And>k. k \<noteq> j \<Longrightarrow> find_task k e' = find_task k e" by (rule create_task_ok [where sys = sys and f = f and w = w, OF inv assms(2-4)]) blast
  have j: "find_task j e = 0 \<and> (find_task j e' \<noteq> 0 \<longleftrightarrow> 0 < j)"
  proof (cases "0 < j")
    case True
    then show ?thesis using c(3) by simp
  next
    case False
    then show ?thesis using find_task_pos [OF inv, of j] find_task_pos [OF c(2), of j] by blast
  qed
  then show ?thesis using c(1,4) j by (intro conjI t [OF inv] resume_task_fault [OF inv] exI [of _ j] exI [of _ e'] exI [of _ w'] t [OF c(2)]) simp_all
qed

text \<open>A machine for the examples: thread 9, every script a function, the first resume yields.\<close>

definition yielding :: "(int, nat) lua_sys" where
  "yielding = \<lparr>lu_newthread = (\<lambda>w. (9, w)), lu_getfunction = (\<lambda>_ _ w. (True, w)),
     lu_resume = (\<lambda>_ _ w. Inr (if w = 0 then LUA_YIELD else 0, Suc w)), lu_dostring = (\<lambda>_ w. (0, w)), lu_dofile = (\<lambda>_ w. (0, w)),
     lu_reload = (\<lambda>w. w), lu_now = (\<lambda>_. 100)\<rparr>"

definition lua_started :: lua_engine where
  "lua_started = \<lparr>le_timer = heap_timer_new 1024 100, le_co_map = []\<rparr>"

lemma lua_started_reach: "lua_reach yielding (lua_started, 0)"
proof (rule lua_reach.init)
  show "lua_init yielding [] [] [] [] (lua_started, 0) = Inr (lua_started, 0)"
    by (simp add: lua_init_def yielding_def lua_started_def)
qed (simp_all add: lua_started_def yielding_def seed_ok_def rand_consts i32_id)

lemma lua_started_inv: "lua_inv lua_started" "heap_size (le_timer lua_started) = 1025"
proof -
  show "lua_inv lua_started" using lua_reach_inv [OF lua_started_reach] by simp
  show "heap_size (le_timer lua_started) = 1025" by (simp add: lua_started_def heap_timer_new_def)
qed

text \<open>A started engine with one task, and what it takes to have one due.\<close>

lemma lua_task_example:
  obtains i e a where "create_task yielding [] 10 (lua_started, 0) = Inr (i, e, 0)" "lua_inv e" "find_task i e = 9"
    "a \<in> live (le_timer e)" "timer_id (the (nodes (le_timer e) a)) = i" "heap_size (le_timer e) < 1073741824"
proof -
  have inv: "lua_inv lua_started" using lua_reach_inv [OF lua_started_reach] by simp
  have pre: "heap_size (le_timer lua_started) < 1073741824" "(0 :: int) < 10" "(10 :: int) < 2147483648"
    by (simp_all add: lua_started_def heap_timer_new_def)
  obtain i e w where c: "create_task yielding [] 10 (lua_started, 0) = Inr (i, e, w)" "lua_inv e"
    "if 0 < i then find_task i lua_started = 0 \<and> find_task i e = fst (lu_newthread yielding 0) \<and> find_task i e \<noteq> 0
     else i = (if fst (lu_newthread yielding 0) = 0 then - 1 else 0)" "heap_size (le_timer e) \<le> 2 * heap_size (le_timer lua_started)"
    by (rule create_task_ok [where sys = yielding and f = "[]" and w = 0, OF inv pre]) blast
  obtain j ht where r: "create_task yielding [] 10 (lua_started, 0) = Inr (j, lua_started\<lparr>le_timer := ht, le_co_map := [(j, 9)]\<rparr>, 0)" "0 < j"
  proof -
    have tv: "tv_set 10 0 = Inr (TimeValue 10 0)" by (simp add: tv_set_def tv_canonical_def)
    obtain j ht where "register_timer 100 (TimeValue 10 0) (TimeValue 10 0) (Some lua_cb) 0 (le_timer lua_started) = Inr (j, ht)" "0 < j"
      using tm.register_law [OF lua_invD(1) [OF inv] pre(1) tv_canonical_secs tv_canonical_secs, of 10 100 10 "Some lua_cb" 0] by auto
    then show thesis using that tv by (simp add: create_task_def yielding_def lua_started_def)
  qed
  have i: "i = j" "w = 0" "find_task i e = 9" using r c(1) by (auto simp: find_task_def)
  have "pending_of (le_timer e) i \<noteq> None" using lua_invD(3) [OF c(2), of i] i(3) by simp
  then obtain a where "a \<in> live (le_timer e)" "timer_id (the (nodes (le_timer e) a)) = i"
    using pending_of_None [OF lua_invD(1) [OF c(2)], of i] by auto
  moreover have "heap_size (le_timer e) < 1073741824" using c(4) by (simp add: lua_started_def heap_timer_new_def)
  ultimately show thesis using that c(1,2) i(2,3) by blast
qed

theorem lua_reach_ok_witness:
  "task_inv lua_started \<and> (\<exists>j e' w'. create_task yielding [] 10 (lua_started, 0) = Inr (j, e', w') \<and> task_inv e' \<and>
     (find_task j e' \<noteq> 0 \<longleftrightarrow> 0 < j))"
  using lua_reach_ok [OF lua_started_reach, of 10 0 "[]" Dangling "[]"] by (auto simp: lua_started_def heap_timer_new_def)

text \<open>\<open>Run\<close> fails at the first task that times out: \<open>CloseTask\<close> frees the timer that is being
  polled. With none due it returns, has forgotten the due timers that lost their task, and keeps
  every task; each timer that it forgets leaves a \<open>NULL\<close> entry in the table.\<close>

theorem lua_run_spec:
  assumes "lua_reach sys (e, w)"
  shows "if \<exists>a\<in>due (le_timer e) now. find_task (timer_id (the (nodes (le_timer e) a))) e \<noteq> 0
    then lua_run now e = Some (Inl Dangling)
    else \<exists>e'. lua_run now e = Some (Inr e') \<and> live (le_timer e') = live (le_timer e) - due (le_timer e) now \<and>
      (\<forall>j. find_task j e' = find_task j e) \<and>
      dom (map_of (le_co_map e')) =
        dom (map_of (le_co_map e)) \<union> (\<lambda>a. timer_id (the (nodes (le_timer e) a))) ` due (le_timer e) now"
proof -
  have inv: "lua_inv e" using lua_reach_inv [OF assms] by simp
  show ?thesis
  proof (cases "\<exists>a\<in>due (le_timer e) now. find_task (timer_id (the (nodes (le_timer e) a))) e \<noteq> 0")
    case True
    then show ?thesis using lua_run_fails [OF inv] by auto
  next
    case False
    then have idle: "\<forall>a\<in>due (le_timer e) now. find_task (timer_id (the (nodes (le_timer e) a))) e = 0" by blast
    obtain e' where "lua_run now e = Some (Inr e')" "live (le_timer e') = live (le_timer e) - due (le_timer e) now"
      "\<And>j. find_task j e' = find_task j e"
      "dom (map_of (le_co_map e')) = dom (map_of (le_co_map e)) \<union> (\<lambda>a. timer_id (the (nodes (le_timer e) a))) ` due (le_timer e) now"
      by (rule lua_run_ok [OF inv idle]) blast
    then show ?thesis unfolding if_not_P [OF False] by blast
  qed
qed

theorem lua_run_spec_witness:
  "\<exists>i e now. create_task yielding [] 10 (lua_started, 0) = Inr (i, e, 0) \<and> find_task i e = 9 \<and> lua_run now e = Some (Inl Dangling)"
proof -
  obtain i e a where e: "create_task yielding [] 10 (lua_started, 0) = Inr (i, e, 0)" "find_task i e = 9"
    "a \<in> live (le_timer e)" "timer_id (the (nodes (le_timer e) a)) = i" by (rule lua_task_example) blast
  have "lua_reach yielding (e, 0)"
    by (rule lua_reach.create [OF lua_started_reach _ _ _ e(1)]) (simp_all add: lua_started_def heap_timer_new_def)
  note run = lua_run_spec [OF this, of "expire_time (the (nodes (le_timer e) a))"]
  have "a \<in> due (le_timer e) (expire_time (the (nodes (le_timer e) a)))" using e(3) by (simp add: due_def)
  then have "\<exists>a\<in>due (le_timer e) (expire_time (the (nodes (le_timer e) a))). find_task (timer_id (the (nodes (le_timer e) a))) e \<noteq> 0"
    by (rule bexI [rotated]) (simp add: e(2,4))
  then show ?thesis using run e(1,2) by auto
qed

lemma lua_wait_stuck:
  "lua_inv e \<Longrightarrow> le_co_map e \<noteq> [] \<Longrightarrow> length (le_co_map e) + card (live (le_timer e)) < 2147483648 \<Longrightarrow>
   lua_wait nows e = Some (Inl Dangling) \<or> (\<exists>e'. lua_wait nows e = Some (Inr (False, e')))"
proof (induction nows arbitrary: e)
  case (Cons now nows)
  have "get_task_size e \<noteq> 0" using Cons.prems(2,3) by (simp add: get_task_size_def i32_id)
  then have w: "lua_wait (now # nows) e = (case lua_run now e of
      None \<Rightarrow> None | Some (Inl err) \<Rightarrow> Some (Inl err) | Some (Inr e') \<Rightarrow> lua_wait nows e')" by simp
  let ?id = "\<lambda>a. timer_id (the (nodes (le_timer e) a))"
  show ?case
  proof (cases "\<forall>a\<in>due (le_timer e) now. find_task (?id a) e = 0")
    case False
    then obtain a where a: "a \<in> due (le_timer e) now" "find_task (?id a) e \<noteq> 0" by blast
    show ?thesis using w lua_run_fails [OF Cons.prems(1) a] by simp
  next
    case True
    obtain e' where e': "lua_run now e = Some (Inr e')" "lua_inv e'" "live (le_timer e') = live (le_timer e) - due (le_timer e) now"
      "dom (map_of (le_co_map e')) = dom (map_of (le_co_map e)) \<union> ?id ` due (le_timer e) now"
      by (rule lua_run_ok [OF Cons.prems(1) True]) blast
    have len: "length (le_co_map e) = card (dom (map_of (le_co_map e)))" "length (le_co_map e') = card (dom (map_of (le_co_map e')))"
      using smap_length_card lua_invD(2) Cons.prems(1) e'(2) by blast+
    have "due (le_timer e) now \<subseteq> live (le_timer e)" by (auto simp: due_def)
    then have live: "card (live (le_timer e')) + card (due (le_timer e) now) = card (live (le_timer e))"
      using e'(3) by (simp add: card_Diff_subset card_mono)
    have "card (dom (map_of (le_co_map e'))) \<le> card (dom (map_of (le_co_map e))) + card (?id ` due (le_timer e) now)"
      unfolding e'(4) by (rule card_Un_le)
    also have "card (?id ` due (le_timer e) now) \<le> card (due (le_timer e) now)" by (rule card_image_le) simp
    finally have sz: "length (le_co_map e') + card (live (le_timer e')) < 2147483648" using len live Cons.prems(3) by simp
    have "dom (map_of (le_co_map e)) \<noteq> {}" using Cons.prems(2) by (cases "le_co_map e") (auto simp: dom_map_of_conv_image_fst)
    then have ne: "le_co_map e' \<noteq> []" using e'(4) by auto
    show ?thesis using w e'(1) Cons.IH [OF e'(2) ne sz] by simp
  qed
qed (simp add: get_task_size_def i32_id)

text \<open>The destructor of the module does not return once the table has an entry, be it a task or the
  \<open>NULL\<close> of an id that was not found: its loop goes on, or fails at a time-out.\<close>

theorem lua_wait_never_ends:
  assumes "lua_reach sys (e, w)" "le_co_map e \<noteq> []" "length (le_co_map e) + card (live (le_timer e)) < 2147483648"
  shows "lua_wait nows e = Some (Inl Dangling) \<or> (\<exists>e'. lua_wait nows e = Some (Inr (False, e')))"
  using lua_wait_stuck [OF _ assms(2,3)] lua_reach_inv [OF assms(1)] by simp

text \<open>One answer for a task that is gone, and the server does not stop.\<close>

theorem lua_wait_never_ends_witness:
  "\<exists>e. resume_task yielding 5 [] (lua_started, 0) = Inr (e, 0) \<and> le_co_map e = [(5, 0)] \<and>
     (lua_wait [TimeValue 200 0, TimeValue 201 0] e = Some (Inl Dangling) \<or>
      (\<exists>e'. lua_wait [TimeValue 200 0, TimeValue 201 0] e = Some (Inr (False, e'))))"
proof -
  let ?e = "lua_started\<lparr>le_co_map := [(5, 0)]\<rparr>"
  have r: "resume_task yielding 5 [] (lua_started, 0) = Inr (?e, 0)"
    by (simp add: resume_task_def co_map_at_def lua_started_def)
  have "lua_wait [TimeValue 200 0, TimeValue 201 0] ?e = Some (Inl Dangling) \<or>
      (\<exists>e'. lua_wait [TimeValue 200 0, TimeValue 201 0] ?e = Some (Inr (False, e')))"
    by (rule lua_wait_never_ends [OF lua_reach.resume [OF lua_started_reach r]])
      (simp_all add: lua_started_def heap_timer_new_def live_def)
  then show ?thesis using r by auto
qed

end
