(* ===== verification/Lua_Game.thy ===== *)
theory Lua_Game
  imports Game_Msg Lua_Engine_Props
begin

text \<open>
  The game server whose logics are Lua scripts, \<open>gamesvr_lua_coroutine\<close>: its message module and main
  loop. The objects are those of \<open>Game_Obj\<close> and \<open>Game_Player\<close> (the files under \<open>obj_mgr_module\<close> are
  the same); the fields of \<open>gamesvr\<close> that belong to its logics are not used.

  A script is a resume of the Lua machine, which works on the objects through the functions
  registered with it: \<open>lu_resume\<close> takes the objects and gives them back.
\<close>

section \<open>State and environment\<close>

text \<open>The values the handlers push: \<open>uint64_t\<close> as an object of its own, numbers and strings.\<close>

datatype lua_value = LV_U64 "64 word" | LV_Num int | LV_Str bytes

type_synonym 'l lua_state = "lua_engine \<times> gamesvr \<times> 'l"

text \<open>\<open>lg_stack\<close>: the contents of a local variable that is never assigned.\<close>

record 'l lua_game_sys =
  lg_sys :: game_sys
  lg_lua :: "(lua_value, gamesvr \<times> 'l) lua_sys"
  lg_set_global :: "bytes \<Rightarrow> int \<Rightarrow> 'l \<Rightarrow> 'l"
  lg_stack :: "'l \<Rightarrow> 64 word"

type_synonym 'l lua_handler = "'l lua_game_sys \<Rightarrow> largs \<Rightarrow> lmsg \<Rightarrow> 'l lua_state \<Rightarrow> (int \<times> 'l lua_state) res"

definition c_str :: "bytes \<Rightarrow> bytes" where
  "c_str s = takeWhile (\<lambda>b. b \<noteq> 0) s"

definition on_game :: "(gamesvr \<Rightarrow> gamesvr res) \<Rightarrow> 'l lua_state \<Rightarrow> 'l lua_state res" where
  "on_game f s = (case s of (e, w, l) \<Rightarrow> rbind (f w) (\<lambda>w'. Inr (e, w', l)))"

section \<open>Requests of the clients\<close>

text \<open>The id of a task is a \<open>uint64_t\<close> here, and only 0 is taken for a failure.\<close>

definition on_client_quick_reg_req :: "'l lua_handler" where
  "on_client_quick_reg_req sys args msg s =
     rbind (create_task (lg_lua sys) (lua_txt ''quick_reg'') 10 s) (\<lambda>(task_id, s1).
     if task_id = 0 then Inr (- 1, s1)
     else
       rbind (as_cs msg) (\<lambda>m.
       rbind (args_player_idx args) (\<lambda>player_idx.
       rbind (resume_task (lg_lua sys) task_id
         [LV_U64 (word_of_int task_id), LV_U64 (cs_seq m), LV_Num player_idx, LV_Num kQuickRegRes] s1) (\<lambda>s2.
       Inr (0, s2)))))"

definition on_client_normal_reg_req :: "'l lua_handler" where
  "on_client_normal_reg_req sys args msg s =
     rbind (create_task (lg_lua sys) (lua_txt ''normal_reg'') 10 s) (\<lambda>(task_id, s1).
     if task_id = 0 then Inr (- 1, s1)
     else
       rbind (as_cs msg) (\<lambda>m.
       let req = account_msg_of (cs_normal_reg_req m) in
       rbind (args_player_idx args) (\<lambda>player_idx.
       rbind (resume_task (lg_lua sys) task_id
         [LV_U64 (word_of_int task_id), LV_Str (c_str (am_account req)), LV_Str (c_str (am_password req)),
          LV_U64 (cs_seq m), LV_Num player_idx, LV_Num kNormalRegRes] s1) (\<lambda>s2.
       Inr (0, s2)))))"

text \<open>The uid of an account: the hash of a name, or the number it prints.\<close>

definition login_uid :: "64 word \<Rightarrow> bytes \<Rightarrow> 64 word res" where
  "login_uid stack account =
     rbind (check_account account (int (length account))) (\<lambda>ret.
     Inr (if ret = 0 then fnv64a_hash account
          else case to_number_u64 account of Some n \<Rightarrow> n | None \<Rightarrow> stack))"

definition on_client_login_req :: "'l lua_handler" where
  "on_client_login_req sys args msg s =
     rbind (as_cs msg) (\<lambda>m.
     let req = account_msg_of (cs_login_req m) in
     rbind (login_uid (lg_stack sys (snd (snd s))) (am_account req)) (\<lambda>uid.
     let password_hash = fnv64a_hash (am_password req) in
     rbind (create_task (lg_lua sys) (lua_txt ''login'') 10 s) (\<lambda>(task_id, s1).
     if task_id = 0 then Inr (- 1, s1)
     else
       rbind (args_player_idx args) (\<lambda>player_idx.
       rbind (resume_task (lg_lua sys) task_id
         [LV_U64 (word_of_int task_id), LV_U64 uid, LV_U64 password_hash, LV_U64 (cs_seq m),
          LV_Num player_idx, LV_Num kLoginRes] s1) (\<lambda>s2.
       Inr (0, s2))))))"

section \<open>Answers of datasvr\<close>

text \<open>The sequence number of an answer is the id of the task.\<close>

definition on_datasvr_account_reg_res :: "'l lua_handler" where
  "on_datasvr_account_reg_res sys args msg s =
     rbind (as_ss msg) (\<lambda>m.
     rbind (resume_task (lg_lua sys) (sint (ss_seq m)) [LV_Num (ss_ret m)] s) (\<lambda>s1. Inr (0, s1)))"

definition on_datasvr_account_verify_res :: "'l lua_handler" where
  "on_datasvr_account_verify_res sys args msg s =
     rbind (as_ss msg) (\<lambda>m.
     case s of (e, w, l) \<Rightarrow>
       let l1 = lg_set_global sys (lua_txt ''ACCOUNT_VERIFY_FLAG'') (if ss_ret m = 0 then 0 else 1) l in
       rbind (resume_task (lg_lua sys) (sint (ss_seq m)) [LV_Num 0] (e, w, l1)) (\<lambda>s1. Inr (0, s1)))"

text \<open>The player of the answer is used without a check.\<close>

definition load_player_data :: "game_sys \<Rightarrow> int \<Rightarrow> bytes \<Rightarrow> gamesvr \<Rightarrow> gamesvr res" where
  "load_player_data sys player_idx bytes w =
     (let data = gs_parse_pd sys bytes in
      rbind (get_player player_idx w) (\<lambda>player.
      case player of None \<Rightarrow> Inl Null_Deref
      | Some ptr \<Rightarrow>
          rbind (set_player_by_db (pd_role_info data) ptr w) (load_cities player_idx (pd_city_list data))))"

definition on_datasvr_get_player_data_res :: "'l lua_handler" where
  "on_datasvr_get_player_data_res sys args msg s =
     rbind (as_ss msg) (\<lambda>m.
     if ss_ret m = 0 then
       rbind (on_game (load_player_data (lg_sys sys) (ss_player_idx m)
         (case ss_get_player_data_res m of Some b \<Rightarrow> b | None \<Rightarrow> [])) s) (\<lambda>s1.
       rbind (resume_task (lg_lua sys) (sint (ss_seq m)) [LV_Num 0] s1) (\<lambda>s2. Inr (0, s2)))
     else
       rbind (resume_task (lg_lua sys) (sint (ss_seq m)) [LV_Num 1] s) (\<lambda>s1. Inr (0, s1)))"

definition on_datasvr_set_player_data_res :: "'l lua_handler" where
  "on_datasvr_set_player_data_res sys args msg s =
     rbind (as_ss msg) (\<lambda>m.
     rbind (resume_task (lg_lua sys) (sint (ss_seq m)) [LV_Num (ss_ret m)] s) (\<lambda>s1. Inr (0, s1)))"

section \<open>The message module\<close>

definition lua_handlers :: "'l lua_game_sys \<Rightarrow> largs \<Rightarrow> (int \<times> (lmsg, 'l lua_state) msg_wrapper) list" where
  "lua_handlers sys args =
     msg_register kSetPlayerDataRes (on_datasvr_set_player_data_res sys args)
    (msg_register kGetPlayerDataRes (on_datasvr_get_player_data_res sys args)
    (msg_register kAccountVerifyRes (on_datasvr_account_verify_res sys args)
    (msg_register kAccountRegRes (on_datasvr_account_reg_res sys args)
    (msg_register kLoginReq (on_client_login_req sys args)
    (msg_register kNormalRegReq (on_client_normal_reg_req sys args)
    (msg_register kQuickRegReq (on_client_quick_reg_req sys args) []))))))"

definition lua_handle_cs :: "'l lua_game_sys \<Rightarrow> bytes \<Rightarrow> largs \<Rightarrow> 'l lua_state \<Rightarrow> (int \<times> 'l lua_state) res" where
  "lua_handle_cs sys pkg args s =
     handle_request (\<lambda>b. map_option L_Cs (gs_parse_cs (lg_sys sys) b)) lmsg_cmd (lua_handlers sys args) pkg s"

definition lua_handle_ss :: "'l lua_game_sys \<Rightarrow> bytes \<Rightarrow> largs \<Rightarrow> 'l lua_state \<Rightarrow> (int \<times> 'l lua_state) res" where
  "lua_handle_ss sys pkg args s =
     handle_request (\<lambda>b. map_option L_Ss (gs_parse_ss (lg_sys sys) b)) lmsg_cmd (lua_handlers sys args) pkg s"

text \<open>A packet from connsvr; the flag tells whether \<open>Run\<close> goes on.\<close>

definition lua_conn_packet :: "'l lua_game_sys \<Rightarrow> int \<Rightarrow> 'l lua_state \<Rightarrow> (bool \<times> 'l lua_state) res" where
  "lua_conn_packet sys len s =
     (case s of (e, w, l) \<Rightarrow>
      rbind (get_conn_data_from_conn (msg_buf w)) (\<lambda>cd.
      let msg_len = get_msg_len_from_conn len;
          handle = (\<lambda>cd w. rbind (mem_read (msg_buf w) 12 msg_len) (\<lambda>pkg.
            rbind (lua_handle_cs sys pkg (A_Conn cd) (e, w, l)) (\<lambda>(_, s). Inr (True, s)))) in
      if cd_conn_cmd cd = conn_cmd_code CONN_START then
        rbind (add_player w) (\<lambda>(player_idx, w1).
        rbind (get_player player_idx w1) (\<lambda>player.
        case player of
          None \<Rightarrow>
            rbind (mem_read (msg_buf w1) 12 msg_len) (\<lambda>pkg.
            case gs_parse_cs (lg_sys sys) pkg of
              None \<Rightarrow> Inr (False, e, w1, l)
            | Some m \<Rightarrow>
                Inr (False, e, snd (send_to_connsvr (lg_sys sys) (Some (full_response m)) CONN_STOP (cd_conn_fd cd) 0 w1), l))
        | Some ptr \<Rightarrow>
            rbind (set_conn_fd (cd_conn_fd cd) ptr w1) (handle (cd\<lparr>cd_player_idx := player_idx\<rparr>))))
      else if cd_conn_cmd cd = conn_cmd_code CONN_STOP then
        rbind (get_player (cd_player_idx cd) w) (\<lambda>player.
        rbind (case player of None \<Rightarrow> Inr w | Some ptr \<Rightarrow> do_update_player_data (lg_sys sys) 0 ptr w) (\<lambda>w1.
        rbind (del_player (cd_player_idx cd) w1) (\<lambda>w2. Inr (False, e, w2, l))))
      else handle cd w))"

definition lua_run_once :: "'l lua_game_sys \<Rightarrow> 'l lua_state \<Rightarrow> (bool \<times> 'l lua_state) res" where
  "lua_run_once sys s =
     (case s of (e, w, l) \<Rightarrow>
      let r = gs_recv_conn (lg_sys sys) (gout w);
          w1 = (gemit (G_Recv_Conn (fst r)) w)\<lparr>msg_buf := recv_into (msg_buf w) r\<rparr> in
      rbind (if fst r > 0 then lua_conn_packet sys (fst r) (e, w1, l) else Inr (True, e, w1, l)) (\<lambda>(go, e2, w2, l2).
      if \<not> go then Inr (False, e2, w2, l2)
      else
        let d = gs_recv_data (lg_sys sys) (gout w2);
            w3 = (gemit (G_Recv_Data (fst d)) w2)\<lparr>msg_buf := recv_into (msg_buf w2) d\<rparr> in
        if fst d > 0 then
          rbind (mem_read (msg_buf w3) 0 (fst d)) (\<lambda>pkg.
          rbind (lua_handle_ss sys pkg A_Null (e2, w3, l2)) (\<lambda>(_, s4). Inr (True, s4)))
        else Inr (True, e2, w3, l2)))"

fun lua_run_times :: "'l lua_game_sys \<Rightarrow> nat \<Rightarrow> 'l lua_state \<Rightarrow> 'l lua_state res" where
  "lua_run_times sys 0 s = Inr s"
| "lua_run_times sys (Suc n) s = rbind (lua_run_once sys s) (\<lambda>(go, s1). if go then lua_run_times sys n s1 else Inr s1)"

text \<open>\<open>AppRun\<close>: the loop of \<open>Run\<close>, then the time-outs of the tasks.\<close>

definition lua_app_run :: "'l lua_game_sys \<Rightarrow> 'l lua_state \<Rightarrow> 'l lua_state res option" where
  "lua_app_run sys s =
     (case lua_run_times sys 1000 s of
        Inl err \<Rightarrow> Some (Inl err)
      | Inr (e, w, l) \<Rightarrow>
          map_option (\<lambda>r. rbind r (\<lambda>e'. Inr (e', w, l))) (lua_run (gs_time (lg_sys sys) (gout w)) e))"

end
