(* ===== verification/Lua_Script.thy ===== *)
theory Lua_Script
  imports Lua_Game "HOL-Library.AList"
begin

text \<open>
  The scripts of \<open>gamesvr_lua_coroutine/lua_engine_module/script\<close>: \<open>task_reg.lua\<close> and \<open>task_role.lua\<close>, the
  logics of that server, and a Lua machine that runs them as coroutines: an instance of the environment
  \<open>lua_game_sys\<close> of \<open>Lua_Game\<close>.

  A suspended script is the point behind its \<open>CO_YIELD\<close> with its local variables. A script calls the
  functions that \<open>lua_engine_module.cpp\<close> registers, here the operations of \<open>Game_Obj\<close>, \<open>Game_Player\<close> and
  \<open>Utils_Frame\<close>; a fault of one of them ends the process. A player is a raw pointer in Lua: it is not
  looked up again when the script goes on. The pointer \<open>NULL\<close> is \<open>nil\<close>, and a call on \<open>nil\<close> is an error of
  the script.

  The collector of the machine: \<open>CreateTask\<close> pops the only reference to a new thread, so each run of the
  collector may free any thread but the one that is running. What it frees is a choice of the environment,
  and the use of a freed thread is a fault. The number of a thread is its identity: a thread that is created at the
  address of a freed one is another thread.
\<close>

section \<open>Scripts\<close>

record login_vars =
  lv_task_id :: "64 word"
  lv_uid :: "64 word"
  lv_password_hash :: "64 word"
  lv_seq :: "64 word"
  lv_player :: int
  lv_res_cmd :: int

record reg_vars =
  rv_task_id :: "64 word"
  rv_seq :: "64 word"
  rv_player :: int
  rv_res_cmd :: int

text \<open>A thread: a function that has not been called yet, or the rest of a script: \<open>quick_reg\<close> in the
  \<open>i\<close>-th round of its loop with the uid and the password of the round, \<open>normal_reg\<close> with the account and
  the password, \<open>login\<close> while the old player (index and pointer) is saved, and while the data is loaded.\<close>

datatype script_point =
    K_Function bytes
  | K_Quick_Reg nat reg_vars "64 word" bytes
  | K_Normal_Reg reg_vars bytes bytes
  | K_Login_Save login_vars int int
  | K_Login_Data login_vars

datatype script_end = S_Yield script_point | S_Return | S_Error

type_synonym script_run = "gamesvr \<Rightarrow> (script_end \<times> gamesvr) res"

text \<open>\<open>se_random es i\<close>: the \<open>i\<close>-th number that \<open>math.random(1, 37)\<close> gives from here on; \<open>se_loads\<close>: whether
  \<open>RELOAD\<close> can load the scripts; \<open>se_garbage cos n\<close>: the threads that the \<open>n\<close>-th run of the collector frees while
  the scripts of the threads \<open>cos\<close> wait.\<close>

record script_env =
  se_sys :: game_sys
  se_random :: "geffect list \<Rightarrow> nat \<Rightarrow> int"
  se_dostring :: "bytes \<Rightarrow> int"
  se_dofile :: "bytes \<Rightarrow> int"
  se_loads :: bool
  se_stack :: "64 word"
  se_garbage :: "nat list \<Rightarrow> nat \<Rightarrow> nat list"

text \<open>\<open>flag == 0\<close> for the first value that the script is resumed with.\<close>

definition is_zero :: "lua_value list \<Rightarrow> bool" where
  "is_zero args = (case args of LV_Num n # _ \<Rightarrow> n = 0 | _ \<Rightarrow> False)"

definition ends :: "script_end \<Rightarrow> gamesvr res \<Rightarrow> (script_end \<times> gamesvr) res" where
  "ends s r = rbind r (\<lambda>w. Inr (s, w))"

section \<open>Registration\<close>

definition rand_str :: "(nat \<Rightarrow> int) \<Rightarrow> nat \<Rightarrow> bytes" where
  "rand_str rnd num =
     (let str = lua_txt ''abcdefghijklmnhopqrstuvwxyz0123456789'' in
      concat (map (\<lambda>i. let r = rnd i in if 1 \<le> r \<and> r \<le> int (length str) then [str ! nat (r - 1)] else []) [0..<num]))"

text \<open>A round of the loop of \<open>quick_reg\<close> up to its \<open>CO_YIELD\<close>.\<close>

definition quick_reg_round :: "script_env \<Rightarrow> nat \<Rightarrow> reg_vars \<Rightarrow> script_run" where
  "quick_reg_round env i v w =
     (let uid = gen_uid_num (gs_tsc (se_sys env) (gout w));
          password = rand_str (se_random env (gout w)) 8;
          password_hash = fnv64a_hash password in
      ends (S_Yield (K_Quick_Reg i v uid password))
        (do_account_reg (se_sys env) (rv_task_id v) uid password_hash (Some []) (rv_player v) w))"

definition quick_reg :: "script_env \<Rightarrow> 64 word \<Rightarrow> 64 word \<Rightarrow> int \<Rightarrow> int \<Rightarrow> script_run" where
  "quick_reg env task_id seq player_idx res_cmd w =
     rbind (get_player player_idx w) (\<lambda>player.
     case player of None \<Rightarrow> Inr (S_Error, w)
     | Some ptr \<Rightarrow>
         quick_reg_round env 1 \<lparr>rv_task_id = task_id, rv_seq = seq, rv_player = ptr, rv_res_cmd = res_cmd\<rparr> w)"

definition quick_reg_resume :: "script_env \<Rightarrow> nat \<Rightarrow> reg_vars \<Rightarrow> 64 word \<Rightarrow> bytes \<Rightarrow> lua_value list \<Rightarrow> script_run" where
  "quick_reg_resume env i v uid password args w =
     (if is_zero args then ends S_Return (send_ok_cs_quick_reg_res (se_sys env) (rv_seq v) uid password (rv_player v) w)
      else if i < 3 then quick_reg_round env (i + 1) v w
      else ends S_Return (send_failed_cs_res (se_sys env) (rv_seq v) (rv_res_cmd v) (- 1) (rv_player v) w))"

definition normal_reg :: "script_env \<Rightarrow> 64 word \<Rightarrow> bytes \<Rightarrow> bytes \<Rightarrow> 64 word \<Rightarrow> int \<Rightarrow> int \<Rightarrow> script_run" where
  "normal_reg env task_id account password seq player_idx res_cmd w =
     rbind (get_player player_idx w) (\<lambda>player.
     case player of None \<Rightarrow> Inr (S_Error, w)
     | Some ptr \<Rightarrow>
         let v = \<lparr>rv_task_id = task_id, rv_seq = seq, rv_player = ptr, rv_res_cmd = res_cmd\<rparr> in
         rbind (check_account account (int (length account))) (\<lambda>ret.
         if ret \<noteq> 0 then ends S_Return (send_failed_cs_res (se_sys env) seq res_cmd (- 1) ptr w)
         else
           rbind (check_password password (int (length password))) (\<lambda>ret.
           if ret \<noteq> 0 then ends S_Return (send_failed_cs_res (se_sys env) seq res_cmd (- 1) ptr w)
           else
             let uid = fnv64a_hash account; password_hash = fnv64a_hash password in
             ends (S_Yield (K_Normal_Reg v account password))
               (do_account_reg (se_sys env) task_id uid password_hash (Some account) ptr w))))"

definition normal_reg_resume :: "script_env \<Rightarrow> reg_vars \<Rightarrow> bytes \<Rightarrow> bytes \<Rightarrow> lua_value list \<Rightarrow> script_run" where
  "normal_reg_resume env v account password args w =
     (if is_zero args then ends S_Return (send_ok_cs_normal_reg_res (se_sys env) (rv_seq v) account password (rv_player v) w)
      else ends S_Return (send_failed_cs_res (se_sys env) (rv_seq v) (rv_res_cmd v) (- 1) (rv_player v) w))"

section \<open>Login\<close>

text \<open>A round of the loop that saves the old player: the counter in its condition stays 0, and
  \<open>DoUpdatePlayerData\<close> is called as a statement and again in the argument of \<open>CO_YIELD\<close>.\<close>

definition login_save_round :: "script_env \<Rightarrow> login_vars \<Rightarrow> int \<Rightarrow> int \<Rightarrow> script_run" where
  "login_save_round env v old_player_idx old_player w =
     rbind (do_update_player_data (se_sys env) (lv_task_id v) old_player w) (\<lambda>w1.
     ends (S_Yield (K_Login_Save v old_player_idx old_player)) (do_update_player_data (se_sys env) (lv_task_id v) old_player w1))"

definition login_load :: "script_env \<Rightarrow> login_vars \<Rightarrow> script_run" where
  "login_load env v w =
     ends (S_Yield (K_Login_Data v))
       (do_get_player_data (se_sys env) (lv_task_id v) (lv_uid v) (lv_password_hash v) (lv_player v) w)"

definition login :: "script_env \<Rightarrow> 64 word \<Rightarrow> 64 word \<Rightarrow> 64 word \<Rightarrow> 64 word \<Rightarrow> int \<Rightarrow> int \<Rightarrow> script_run" where
  "login env task_id uid password_hash seq player_idx res_cmd w =
     rbind (get_player player_idx w) (\<lambda>player.
     case player of None \<Rightarrow> Inr (S_Error, w)
     | Some ptr \<Rightarrow>
         let v = \<lparr>lv_task_id = task_id, lv_uid = uid, lv_password_hash = password_hash, lv_seq = seq, lv_player = ptr, lv_res_cmd = res_cmd\<rparr>;
             old_player_idx = find_player_idx_by_uid uid w in
         if old_player_idx > 0 then
           rbind (get_player old_player_idx w) (\<lambda>old_player.
           case old_player of None \<Rightarrow> Inr (S_Error, w)
           | Some old_ptr \<Rightarrow>
               rbind (send_server_kick_off_notify (se_sys env) old_ptr w) (login_save_round env v old_player_idx old_ptr))
         else login_load env v w)"

definition login_save_resume :: "script_env \<Rightarrow> login_vars \<Rightarrow> int \<Rightarrow> int \<Rightarrow> lua_value list \<Rightarrow> script_run" where
  "login_save_resume env v old_player_idx old_player args w =
     (if is_zero args then rbind (del_player old_player_idx w) (login_load env v)
      else login_save_round env v old_player_idx old_player w)"

definition login_data_resume :: "script_env \<Rightarrow> login_vars \<Rightarrow> lua_value list \<Rightarrow> script_run" where
  "login_data_resume env v args w =
     (if \<not> is_zero args then ends S_Return (send_failed_cs_res (se_sys env) (lv_seq v) (lv_res_cmd v) (- 1) (lv_player v) w)
      else
        rbind (set_uid (lv_uid v) (lv_player v) w) (\<lambda>w1.
        rbind (set_password_hash (lv_password_hash v) (lv_player v) w1) (\<lambda>w2.
        rbind (send_ok_cs_login_res (se_sys env) (lv_seq v) (lv_player v) w2) (\<lambda>w3.
        ends S_Return (send_role_info_notify (se_sys env) (lv_player v) w3)))))"

section \<open>The machine\<close>

text \<open>A call of a global function. The handlers push no other arguments than these.\<close>

definition script_call :: "script_env \<Rightarrow> bytes \<Rightarrow> lua_value list \<Rightarrow> script_run" where
  "script_call env f args w =
     (if f = lua_txt ''quick_reg'' then
        (case args of [LV_U64 task_id, LV_U64 seq, LV_Num player_idx, LV_Num res_cmd] \<Rightarrow>
           quick_reg env task_id seq player_idx res_cmd w | _ \<Rightarrow> Inr (S_Error, w))
      else if f = lua_txt ''normal_reg'' then
        (case args of [LV_U64 task_id, LV_Str account, LV_Str password, LV_U64 seq, LV_Num player_idx, LV_Num res_cmd] \<Rightarrow>
           normal_reg env task_id account password seq player_idx res_cmd w | _ \<Rightarrow> Inr (S_Error, w))
      else if f = lua_txt ''login'' then
        (case args of [LV_U64 task_id, LV_U64 uid, LV_U64 password_hash, LV_U64 seq, LV_Num player_idx, LV_Num res_cmd] \<Rightarrow>
           login env task_id uid password_hash seq player_idx res_cmd w | _ \<Rightarrow> Inr (S_Error, w))
      else Inr (S_Error, w))"

fun script_step :: "script_env \<Rightarrow> script_point \<Rightarrow> lua_value list \<Rightarrow> script_run" where
  "script_step env (K_Function f) args w = script_call env f args w"
| "script_step env (K_Quick_Reg i v uid password) args w = quick_reg_resume env i v uid password args w"
| "script_step env (K_Normal_Reg v account password) args w = normal_reg_resume env v account password args w"
| "script_step env (K_Login_Save v old_player_idx old_player) args w = login_save_resume env v old_player_idx old_player args w"
| "script_step env (K_Login_Data v) args w = login_data_resume env v args w"

record script_state =
  ls_threads :: "(nat \<times> script_point) list"
  ls_next :: nat
  ls_loaded :: bool
  ls_globals :: "(bytes \<times> int) list"
  ls_cycles :: nat
  ls_freed :: "nat list"

definition LUA_ERRRUN :: int where "LUA_ERRRUN = 2"

text \<open>A run of the collector: no value of the machine refers to a thread but to the running one
  (0 outside of a resume).\<close>

definition garbage :: "script_env \<Rightarrow> nat \<Rightarrow> script_state \<Rightarrow> nat list" where
  "garbage env running l =
     filter (\<lambda>co. 0 < co \<and> co < ls_next l \<and> co \<noteq> running) (se_garbage env (map fst (ls_threads l)) (ls_cycles l))"

definition collect :: "script_env \<Rightarrow> nat \<Rightarrow> script_state \<Rightarrow> script_state" where
  "collect env running l =
     (let dead = garbage env running l in
      l\<lparr>ls_threads := filter (\<lambda>p. fst p \<notin> set dead) (ls_threads l), ls_freed := dead @ ls_freed l, ls_cycles := ls_cycles l + 1\<rparr>)"

text \<open>\<open>lua_newthread\<close> lets the collector run and then allocates.\<close>

definition script_newthread :: "script_env \<Rightarrow> gamesvr \<times> script_state \<Rightarrow> nat \<times> gamesvr \<times> script_state" where
  "script_newthread env = (\<lambda>(w, l). let l1 = collect env 0 l in (ls_next l1, w, l1\<lparr>ls_next := ls_next l1 + 1\<rparr>))"

definition script_getfunction :: "nat \<Rightarrow> bytes \<Rightarrow> gamesvr \<times> script_state \<Rightarrow> bool \<times> gamesvr \<times> script_state" where
  "script_getfunction co f = (\<lambda>(w, l).
     if ls_loaded l \<and> f \<in> {lua_txt ''quick_reg'', lua_txt ''normal_reg'', lua_txt ''login''}
     then (True, w, l\<lparr>ls_threads := smap_put co (K_Function f) (ls_threads l)\<rparr>)
     else (False, w, l))"

text \<open>The collector may run while the arguments are pushed and the script runs.\<close>

definition script_resume ::
  "script_env \<Rightarrow> nat \<Rightarrow> lua_value list \<Rightarrow> gamesvr \<times> script_state \<Rightarrow> (int \<times> gamesvr \<times> script_state) res" where
  "script_resume env co args = (\<lambda>(w, l).
     if co \<in> set (ls_freed l) then Inl Dangling
     else
       let l1 = collect env co l in
       case map_of (ls_threads l1) co of
         None \<Rightarrow> Inr (LUA_ERRRUN, w, l1)
       | Some k \<Rightarrow>
           rbind (script_step env k args w) (\<lambda>(r, w1).
           case r of
             S_Yield k' \<Rightarrow> Inr (LUA_YIELD, w1, l1\<lparr>ls_threads := smap_put co k' (ls_threads l1)\<rparr>)
           | S_Return \<Rightarrow> Inr (0, w1, l1\<lparr>ls_threads := smap_erase co (ls_threads l1)\<rparr>)
           | S_Error \<Rightarrow> Inr (LUA_ERRRUN, w1, l1\<lparr>ls_threads := smap_erase co (ls_threads l1)\<rparr>)))"

text \<open>\<open>RELOAD\<close> of \<open>main.lua\<close> loads every script of its directory again; \<open>Reload\<close> ignores its result.\<close>

definition script_reload :: "script_env \<Rightarrow> gamesvr \<times> script_state \<Rightarrow> gamesvr \<times> script_state" where
  "script_reload env = (\<lambda>(w, l). let l1 = collect env 0 l in (w, l1\<lparr>ls_loaded := ls_loaded l1 \<or> se_loads env\<rparr>))"

definition script_set_global :: "script_env \<Rightarrow> bytes \<Rightarrow> int \<Rightarrow> script_state \<Rightarrow> script_state" where
  "script_set_global env name n l = (let l1 = collect env 0 l in l1\<lparr>ls_globals := AList.update name n (ls_globals l1)\<rparr>)"

definition script_sys :: "script_env \<Rightarrow> script_state lua_game_sys" where
  "script_sys env = \<lparr>lg_sys = se_sys env,
     lg_lua = \<lparr>lu_newthread = script_newthread env, lu_getfunction = script_getfunction, lu_resume = script_resume env,
       lu_dostring = (\<lambda>s x. (se_dostring env s, x)), lu_dofile = (\<lambda>s x. (se_dofile env s, x)),
       lu_reload = script_reload env, lu_now = (\<lambda>(w, l). gs_now (se_sys env) (gout w))\<rparr>,
     lg_set_global = script_set_global env, lg_stack = (\<lambda>_. se_stack env)\<rparr>"

end
