(* ===== verification/Lua_Game_Props.thy ===== *)
theory Lua_Game_Props
  imports Lua_Game Game_Flows
begin

text \<open>
  What the server with Lua scripts promises: the tasks and their timers stay in step whatever is
  received, a login starts a script that is resumed with the loaded player, and the end of
  a connection before that answer stops the server.
\<close>

section \<open>The tasks under the packets\<close>

text \<open>What an operation may do to the engine: the heap at most doubles.\<close>

definition kept :: "lua_engine \<Rightarrow> lua_engine \<Rightarrow> bool" where
  "kept e e' \<longleftrightarrow> lua_inv e' \<and> heap_size (le_timer e') \<le> 2 * heap_size (le_timer e)"

lemma kept_refl: "lua_inv e \<Longrightarrow> kept e e"
  by (simp add: kept_def)

lemma kept_resume: "kept e0 (fst s) \<Longrightarrow> resume_task sys i args s = Inr s' \<Longrightarrow> kept e0 (fst s')"
proof -
  assume k: "kept e0 (fst s)" and r: "resume_task sys i args s = Inr s'"
  obtain e w where s: "s = (e, w)" by (cases s)
  have inv: "lua_inv e" using k s by (simp add: kept_def)
  obtain e' w' where s': "s' = (e', w')" by (cases s')
  show ?thesis using resume_task_keeps [OF inv r [unfolded s s']] s s' k by (simp add: kept_def)
qed

lemma kept_create:
  assumes "lua_inv (fst s)" "heap_size (le_timer (fst s)) < 1073741824" "create_task sys f 10 s = Inr (i, s')"
  shows "kept (fst s) (fst s')"
proof -
  obtain e w where s: "s = (e, w)" by (cases s)
  have inv: "lua_inv e" and room: "heap_size (le_timer e) < 1073741824" using assms(1,2) s by simp_all
  have secs: "(0 :: int) < 10" "(10 :: int) < 2147483648" by simp_all
  obtain i' e' w' where "create_task sys f 10 (e, w) = Inr (i', e', w')" "lua_inv e'" "heap_size (le_timer e') \<le> 2 * heap_size (le_timer e)"
    by (rule create_task_ok [where sys = sys and f = f and w = w, OF inv room secs]) blast
  then show ?thesis using assms(3) s by (auto simp: kept_def)
qed

lemma kept_client:
  assumes "lua_inv (fst s)" "heap_size (le_timer (fst s)) < 1073741824"
  shows "on_client_quick_reg_req sys args msg s = Inr (r, s') \<Longrightarrow> kept (fst s) (fst s')"
    "on_client_normal_reg_req sys args msg s = Inr (r, s') \<Longrightarrow> kept (fst s) (fst s')"
    "on_client_login_req sys args msg s = Inr (r, s') \<Longrightarrow> kept (fst s) (fst s')"
proof -
  note c = kept_create [OF assms]
  show "on_client_quick_reg_req sys args msg s = Inr (r, s') \<Longrightarrow> kept (fst s) (fst s')"
    by (auto simp: on_client_quick_reg_req_def rbind_eq_Inr_iff split: if_splits dest: c kept_resume [rotated])
  show "on_client_normal_reg_req sys args msg s = Inr (r, s') \<Longrightarrow> kept (fst s) (fst s')"
    by (auto simp: on_client_normal_reg_req_def Let_def rbind_eq_Inr_iff split: if_splits dest: c kept_resume [rotated])
  show "on_client_login_req sys args msg s = Inr (r, s') \<Longrightarrow> kept (fst s) (fst s')"
    by (auto simp: on_client_login_req_def Let_def rbind_eq_Inr_iff split: if_splits dest: c kept_resume [rotated])
qed

lemma kept_datasvr:
  assumes "lua_inv (fst s)"
  shows "on_datasvr_account_reg_res sys args msg s = Inr (r, s') \<Longrightarrow> kept (fst s) (fst s')"
    "on_datasvr_account_verify_res sys args msg s = Inr (r, s') \<Longrightarrow> kept (fst s) (fst s')"
    "on_datasvr_get_player_data_res sys args msg s = Inr (r, s') \<Longrightarrow> kept (fst s) (fst s')"
    "on_datasvr_set_player_data_res sys args msg s = Inr (r, s') \<Longrightarrow> kept (fst s) (fst s')"
proof -
  obtain e w l where s: "s = (e, w, l)" by (cases s)
  have k: "kept e (fst (e, x))" for x :: "gamesvr \<times> 'a" using assms s by (simp add: kept_def)
  note r = kept_resume [OF k]
  show "on_datasvr_account_reg_res sys args msg s = Inr (r, s') \<Longrightarrow> kept (fst s) (fst s')"
    by (auto simp: on_datasvr_account_reg_res_def rbind_eq_Inr_iff s dest: r)
  show "on_datasvr_account_verify_res sys args msg s = Inr (r, s') \<Longrightarrow> kept (fst s) (fst s')"
    by (auto simp: on_datasvr_account_verify_res_def Let_def rbind_eq_Inr_iff s dest: r)
  show "on_datasvr_get_player_data_res sys args msg s = Inr (r, s') \<Longrightarrow> kept (fst s) (fst s')"
    by (auto simp: on_datasvr_get_player_data_res_def on_game_def rbind_eq_Inr_iff s split: if_splits dest: r)
  show "on_datasvr_set_player_data_res sys args msg s = Inr (r, s') \<Longrightarrow> kept (fst s) (fst s')"
    by (auto simp: on_datasvr_set_player_data_res_def rbind_eq_Inr_iff s dest: r)
qed

lemma lua_handlers_lookup:
  "map_of (lua_handlers sys args) cmd =
     (if cmd = kLoginReq then Some (on_client_login_req sys args)
      else if cmd = kNormalRegReq then Some (on_client_normal_reg_req sys args)
      else if cmd = kQuickRegReq then Some (on_client_quick_reg_req sys args)
      else if cmd = kAccountRegRes then Some (on_datasvr_account_reg_res sys args)
      else if cmd = kAccountVerifyRes then Some (on_datasvr_account_verify_res sys args)
      else if cmd = kGetPlayerDataRes then Some (on_datasvr_get_player_data_res sys args)
      else if cmd = kSetPlayerDataRes then Some (on_datasvr_set_player_data_res sys args) else None)"
  by (simp add: lua_handlers_def msg_register_def cmd_defs)

lemma kept_handle:
  assumes "lua_inv (fst s)" "heap_size (le_timer (fst s)) < 1073741824"
    and "handle_request parse lmsg_cmd (lua_handlers sys args) pkg s = Inr (r, s')"
  shows "kept (fst s) (fst s')"
proof (cases "parse pkg")
  case None
  then show ?thesis using assms by (simp add: handle_request_def kept_def)
next
  case (Some m)
  then show ?thesis
    using assms(3) kept_refl [OF assms(1)] kept_client [OF assms(1,2)] kept_datasvr [OF assms(1)]
    by (auto simp: handle_request_def lua_handlers_lookup rbind_eq_Inr_iff split: if_splits)
qed

lemma kept_conn_packet:
  assumes inv: "lua_inv e" and room: "heap_size (le_timer e) < 1073741824"
    and p: "lua_conn_packet sys len (e, w, l) = Inr (go, e', w', l')"
  shows "kept e e'"
proof -
  have h: "kept e e'" if "lua_handle_cs sys pkg args (e, x) = Inr (r, e', x')" for x pkg args r e' x'
    using that kept_handle [where s = "(e, x)"] inv room by (fastforce simp: lua_handle_cs_def)
  show ?thesis
    using p kept_refl [OF inv]
    by (auto simp: lua_conn_packet_def Let_def rbind_eq_Inr_iff split: if_splits option.splits dest: h)
qed

text \<open>Whatever connsvr and datasvr send, and whatever the scripts do, an iteration of \<open>Run\<close> that
  returns keeps tasks and timers in step.\<close>

theorem lua_run_once_inv:
  assumes inv: "lua_inv e" and room: "heap_size (le_timer e) < 536870912"
    and run: "lua_run_once sys (e, w, l) = Inr (go, e', w', l')"
  shows "lua_inv e'"
proof -
  let ?r = "gs_recv_conn (lg_sys sys) (gout w)"
  let ?w1 = "(gemit (G_Recv_Conn (fst ?r)) w)\<lparr>msg_buf := recv_into (msg_buf w) ?r\<rparr>"
  obtain go2 e2 w2 l2 where st: "(if fst ?r > 0 then lua_conn_packet sys (fst ?r) (e, ?w1, l) else Inr (True, e, ?w1, l)) = Inr (go2, e2, w2, l2)"
    using run by (auto simp: lua_run_once_def Let_def elim!: rbind_InrE)
  have room1: "heap_size (le_timer e) < 1073741824" using room by simp
  have k: "kept e e2" using st kept_refl [OF inv] kept_conn_packet [OF inv room1] by (auto split: if_splits)
  then have inv2: "lua_inv e2" "heap_size (le_timer e2) < 1073741824" using room by (simp_all add: kept_def)
  show ?thesis
  proof (cases go2)
    case False
    then show ?thesis using run st inv2 by (simp add: lua_run_once_def Let_def)
  next
    case True
    let ?d = "gs_recv_data (lg_sys sys) (gout w2)"
    let ?w3 = "(gemit (G_Recv_Data (fst ?d)) w2)\<lparr>msg_buf := recv_into (msg_buf w2) ?d\<rparr>"
    show ?thesis
    proof (cases "fst ?d > 0")
      case False
      then show ?thesis using run st True inv2 by (simp add: lua_run_once_def Let_def)
    next
      case True
      then obtain pkg r where "lua_handle_ss sys pkg A_Null (e2, ?w3, l2) = Inr (r, e', w', l')"
        using run st \<open>go2\<close> by (auto simp: lua_run_once_def Let_def rbind_eq_Inr_iff)
      then have "kept e2 e'" using kept_handle [where s = "(e2, ?w3, l2)"] inv2 by (fastforce simp: lua_handle_ss_def)
      then show ?thesis by (simp add: kept_def)
    qed
  qed
qed

text \<open>The environment of the examples: every client packet is the message \<open>m\<close>, every answer of datasvr
  is \<open>r\<close>, every script yields.\<close>

definition lua_example :: "cs_msg \<Rightarrow> ss_msg \<Rightarrow> player_data \<Rightarrow> nat lua_game_sys" where
  "lua_example m r d = \<lparr>lg_sys = quiet_sys\<lparr>gs_parse_cs := \<lambda>_. Some m, gs_parse_ss := \<lambda>_. Some r, gs_parse_pd := \<lambda>_. d\<rparr>,
     lg_lua = \<lparr>lu_newthread = (\<lambda>x. (9, x)), lu_getfunction = (\<lambda>_ _ x. (True, x)),
       lu_resume = (\<lambda>_ _ (w, l). Inr (LUA_YIELD, w, Suc l)), lu_dostring = (\<lambda>_ x. (0, x)), lu_dofile = (\<lambda>_ x. (0, x)),
       lu_reload = (\<lambda>x. x), lu_now = (\<lambda>_. 100)\<rparr>,
     lg_set_global = (\<lambda>_ _ l. l), lg_stack = (\<lambda>_. 0)\<rparr>"

theorem lua_run_once_inv_witness:
  "\<exists>e' w' l'. lua_run_once (lua_example cs_empty ss_empty initial_player_data) (lua_started, empty_game, 0) = Inr (True, e', w', l') \<and>
     lua_inv e'"
proof -
  have room: "heap_size (le_timer lua_started) < 536870912" by (simp add: lua_started_inv)
  obtain e' w' l' where "lua_run_once (lua_example cs_empty ss_empty initial_player_data) (lua_started, empty_game, 0) = Inr (True, e', w', l')"
    by (simp add: lua_run_once_def lua_example_def quiet_sys_def Let_def)
  then show ?thesis using lua_run_once_inv [where sys = "lua_example cs_empty ss_empty initial_player_data", OF lua_started_inv(1) room] by blast
qed

section \<open>Login\<close>

lemma task_word: "lua_inv e \<Longrightarrow> find_task i e \<noteq> 0 \<Longrightarrow> sint (word_of_int i :: 64 word) = i"
proof -
  assume inv: "lua_inv e" and i: "find_task i e \<noteq> 0"
  have "pending_of (le_timer e) i \<noteq> None" by (rule lua_invD(3) [OF inv i])
  from pending_of_range [OF lua_invD(1) [OF inv] this] show ?thesis by (rule timer_id_word)
qed

lemma login_uid_number: "login_uid stack (to_string_u64 uid) = Inr uid"
proof -
  obtain r where "check_account (to_string_u64 uid) (int (length (to_string_u64 uid))) = Inr r" "r \<noteq> 0"
    by (rule number_rejected)
  then show ?thesis by (simp add: login_uid_def number_of_string)
qed

text \<open>A login starts the script \<open>login\<close> in a new task with the uid of the account, be it the hash of
  a name or the number of a quick registration, which the other server refuses; while the
  script waits the task is in the table under the id that the script was given.\<close>

theorem lua_login_request:
  assumes inv: "lua_inv e" and room: "heap_size (le_timer e) < 1073741824"
    and m: "gs_parse_cs (lg_sys sys) pkg = Some m" "cs_cmd m = kLoginReq"
      "cs_login_req m = Some \<lparr>am_account = account, am_password = password\<rparr>"
    and uid: "account = to_string_u64 uid \<or> check_account account (int (length account)) = Inr 0 \<and> uid = fnv64a_hash account"
    and co: "lu_newthread (lg_lua sys) (w, l) = (co, x1)" "co \<noteq> 0" "lu_getfunction (lg_lua sys) co (lua_txt ''login'') x1 = (True, x2)"
    and args: "\<And>i. args i = [LV_U64 (word_of_int i), LV_U64 uid, LV_U64 (fnv64a_hash password), LV_U64 (cs_seq m),
      LV_Num (cd_player_idx cd), LV_Num kLoginRes]"
    and yields: "\<And>i. lu_resume (lg_lua sys) co (args i) x2 = Inr (LUA_YIELD, x3 i)"
  shows "\<exists>i e'. lua_handle_cs sys pkg (A_Conn cd) (e, w, l) = Inr (0, e', x3 i) \<and>
    lua_inv e' \<and> 0 < i \<and> find_task i e = 0 \<and> find_task i e' = co \<and> (\<forall>j. j \<noteq> i \<longrightarrow> find_task j e' = find_task j e)"
proof -
  have u: "login_uid (lg_stack sys l) account = Inr uid"
    using uid login_uid_number by (auto simp: login_uid_def)
  have secs: "(0 :: int) < 10" "(10 :: int) < 2147483648" by simp_all
  obtain i e1 where c: "create_task (lg_lua sys) (lua_txt ''login'') 10 (e, w, l) = Inr (i, e1, x2)" "lua_inv e1" "0 < i"
    "find_task i e = 0" "find_task i e1 = co" "\<And>j. j \<noteq> i \<Longrightarrow> find_task j e1 = find_task j e"
    by (rule create_task_started [OF inv room secs co]) blast
  have go: "lu_resume (lg_lua sys) (find_task i e1) (args i) x2 = Inr (LUA_YIELD, x3 i)" using yields c(5) by simp
  obtain e' where r: "resume_task (lg_lua sys) i (args i) (e1, x2) = Inr (e', if find_task i e1 = 0 then x2 else x3 i)" "lua_inv e'"
    "\<And>j. j \<noteq> i \<Longrightarrow> find_task j e' = find_task j e1" "find_task i e' = (if LUA_YIELD = LUA_YIELD then find_task i e1 else 0)"
    by (rule resume_task_ok [OF c(2) go]) blast
  have "on_client_login_req sys (A_Conn cd) (L_Cs m) (e, w, l) = Inr (0, e', x3 i)"
    using u c(1,3,5) co(2) r(1) m(3) by (simp add: on_client_login_req_def account_msg_of_def Let_def args)
  then have "lua_handle_cs sys pkg (A_Conn cd) (e, w, l) = Inr (0, e', x3 i)"
    using m(1,2) by (simp add: lua_handle_cs_def handle_request_def lua_handlers_lookup)
  moreover have "find_task i e' = co" using r(4) c(5) by simp
  ultimately show ?thesis using r(2,3) c(3,4,6) by (intro exI [of _ i] exI [of _ e']) simp
qed

theorem lua_login_request_witness:
  "\<exists>i e' x. lua_handle_cs (lua_example (example_login\<lparr>cs_login_req := Some \<lparr>am_account = to_string_u64 1234567, am_password = [49]\<rparr>\<rparr>)
      ss_empty initial_player_data) [] (A_Conn \<lparr>cd_conn_fd = 7, cd_player_idx = 3, cd_conn_cmd = 2\<rparr>) (lua_started, empty_game, 0) =
      Inr (0, e', x) \<and> find_task i e' = 9"
proof -
  let ?m = "example_login\<lparr>cs_login_req := Some \<lparr>am_account = to_string_u64 1234567, am_password = [49]\<rparr>\<rparr>"
  let ?sys = "lua_example ?m ss_empty initial_player_data" and ?cd = "\<lparr>cd_conn_fd = 7, cd_player_idx = 3, cd_conn_cmd = 2\<rparr>"
  let ?args = "\<lambda>i :: int. [LV_U64 (word_of_int i), LV_U64 1234567, LV_U64 (fnv64a_hash [49]), LV_U64 (cs_seq ?m),
      LV_Num (cd_player_idx ?cd), LV_Num kLoginRes]"
  have room: "heap_size (le_timer lua_started) < 1073741824" by (simp add: lua_started_inv)
  have m: "gs_parse_cs (lg_sys ?sys) [] = Some ?m" "cs_cmd ?m = kLoginReq"
    "cs_login_req ?m = Some \<lparr>am_account = to_string_u64 1234567, am_password = [49]\<rparr>"
    by (simp_all add: lua_example_def example_login_def)
  have uid: "to_string_u64 1234567 = to_string_u64 1234567 \<or>
      check_account (to_string_u64 1234567) (int (length (to_string_u64 1234567))) = Inr 0 \<and> 1234567 = fnv64a_hash (to_string_u64 1234567)"
    by simp
  have co: "lu_newthread (lg_lua ?sys) (empty_game, 0) = (9, empty_game, 0)" "(9 :: nat) \<noteq> 0"
    "lu_getfunction (lg_lua ?sys) 9 (lua_txt ''login'') (empty_game, 0) = (True, empty_game, 0)" by (simp_all add: lua_example_def)
  have y: "lu_resume (lg_lua ?sys) 9 (?args i) (empty_game, 0) = Inr (LUA_YIELD, empty_game, 1)" for i by (simp add: lua_example_def)
  from lua_login_request [where args = ?args and cd = ?cd, OF lua_started_inv(1) room m uid co refl y] show ?thesis by blast
qed

text \<open>The answer of datasvr with the number of a waiting task loads the player, with all that was
  saved but the ids of its cities, and then resumes the task with 0.\<close>

theorem lua_login_answer:
  assumes inv: "lua_inv e" "obj_inv w" and i: "i \<in> players w" "cities_of (the_player w i) = []"
    and r: "gs_parse_ss (lg_sys sys) pkg = Some r" "ss_cmd r = kGetPlayerDataRes" "ss_seq r = word_of_int t" "ss_ret r = 0"
      "ss_player_idx r = i" "ss_get_player_data_res r = Some b" "gs_parse_pd (lg_sys sys) b = data"
    and t: "find_task t e = co" "co \<noteq> 0" and go: "\<And>v. lu_resume (lg_lua sys) co [LV_Num 0] (v, l) = Inr (ret v, x3 v)"
    and room: "length (pd_city_list data) \<le> 99"
      "card (cities w) + length (pd_city_list data) \<le> nat (total_unit_count (city_pool w))"
  shows "\<exists>w2 e'. lua_handle_ss sys pkg args (e, w, l) = Inr (0, e', x3 w2) \<and>
    lua_inv e' \<and> obj_inv w2 \<and> players w2 = players w \<and> snapshot w2 i = forget_ids data \<and> gout w2 = gout w \<and>
    find_task t e' = (if ret w2 = LUA_YIELD then co else 0)"
proof -
  obtain w1 w2 where l: "set_player_by_db (pd_role_info data) i w = Inr w1" "load_cities i (pd_city_list data) w1 = Inr w2"
    "obj_inv w2" "players w2 = players w" "gout w2 = gout w" "snapshot w2 i = forget_ids data"
    by (rule load_player [OF inv(2) i room]) blast
  have "get_player i w = Inr (Some i)" using used_get [of w i] inv(2) i(1) by (simp add: obj_inv_def)
  then have load: "load_player_data (lg_sys sys) i b w = Inr w2" using l(1,2) r(7) by (simp add: load_player_data_def Let_def)
  have tw: "sint (ss_seq r) = t" using task_word [OF inv(1)] t r(3) by simp
  have go2: "lu_resume (lg_lua sys) (find_task t e) [LV_Num 0] (w2, l) = Inr (ret w2, x3 w2)" using go t(1) by simp
  obtain e' where s: "resume_task (lg_lua sys) t [LV_Num 0] (e, w2, l) = Inr (e', if find_task t e = 0 then (w2, l) else x3 w2)" "lua_inv e'"
    "find_task t e' = (if ret w2 = LUA_YIELD then find_task t e else 0)"
    by (rule resume_task_ok [OF inv(1) go2]) blast
  have "on_datasvr_get_player_data_res sys args (L_Ss r) (e, w, l) = Inr (0, e', x3 w2)"
    using r(4-6) load s(1) tw t by (simp add: on_datasvr_get_player_data_res_def on_game_def)
  then have "lua_handle_ss sys pkg args (e, w, l) = Inr (0, e', x3 w2)"
    using r(1,2) by (simp add: lua_handle_ss_def handle_request_def lua_handlers_lookup cmd_defs)
  then show ?thesis using s(2-3) l(3-6) t by (intro exI [of _ w2] exI [of _ e']) simp
qed

theorem lua_login_answer_witness:
  "\<exists>t i e w e' w2 l'. lua_handle_ss (lua_example cs_empty (ss_empty\<lparr>ss_cmd := kGetPlayerDataRes, ss_seq := word_of_int t, ss_player_idx := i,
       ss_get_player_data_res := Some [1]\<rparr>) initial_player_data) [0] A_Null (e, w, 0) = Inr (0, e', w2, l') \<and>
     snapshot w2 i = forget_ids initial_player_data \<and> find_task t e' = 9"
proof -
  obtain t e where e: "lua_inv e" "find_task t e = 9" by (rule lua_task_example) blast
  obtain i w where w: "obj_inv w" "i \<in> players w" "cities_of (the_player w i) = []" "cities w = {}" "total_unit_count (city_pool w) = 8"
    by (rule example_waiting) blast
  let ?r = "ss_empty\<lparr>ss_cmd := kGetPlayerDataRes, ss_seq := word_of_int t, ss_player_idx := i, ss_get_player_data_res := Some [1]\<rparr>"
  let ?sys = "lua_example cs_empty ?r initial_player_data"
  have r: "gs_parse_ss (lg_sys ?sys) [0] = Some ?r" "ss_cmd ?r = kGetPlayerDataRes" "ss_seq ?r = word_of_int t" "ss_ret ?r = 0"
    "ss_player_idx ?r = i" "ss_get_player_data_res ?r = Some [1]" "gs_parse_pd (lg_sys ?sys) [1] = initial_player_data"
    by (simp_all add: ss_empty_def lua_example_def)
  have go: "(9 :: nat) \<noteq> 0" "\<And>v. lu_resume (lg_lua ?sys) 9 [LV_Num 0] (v, 0) = Inr (LUA_YIELD, v, 1)" by (simp_all add: lua_example_def)
  have "length (pd_city_list initial_player_data) \<le> 99"
    "card (cities w) + length (pd_city_list initial_player_data) \<le> nat (total_unit_count (city_pool w))"
    using w by (simp_all add: initial_player_data_def)
  from lua_login_answer [where sys = ?sys and l = 0 and args = A_Null, OF e(1) w(1-3) r e(2) go this]
  obtain w2 e' where h: "lua_handle_ss ?sys [0] A_Null (e, w, 0) = Inr (0, e', w2, 1)"
    "snapshot w2 i = forget_ids initial_player_data" "find_task t e' = (if LUA_YIELD = LUA_YIELD then 9 else 0)" by blast
  then have "lua_handle_ss ?sys [0] A_Null (e, w, 0) = Inr (0, e', w2, 1) \<and> snapshot w2 i = forget_ids initial_player_data \<and> find_task t e' = 9"
    using h by simp
  then show ?thesis by blast
qed

text \<open>The end of a connection saves the player and deletes it.\<close>

lemma lua_conn_stop:
  assumes pkt: "holds_packet cd pkg w" "cd_conn_cmd cd = conn_cmd_code CONN_STOP"
    and inv: "obj_inv w" and i: "cd_player_idx cd = i" "i \<in> players w"
    and ser: "gs_ser_pd (lg_sys sys) (snapshot w i) = Some b"
  obtains w1 w' where "lua_conn_packet sys (12 + int (length pkg)) (e, w, l) = Inr (False, e, w', l)" "del_player i w1 = Inr w'"
    "w1 = w\<lparr>gout := gout w @ sent_data (lg_sys sys) (save_req 0 i (p_uid (the_player w i)) b) (gout w)\<rparr>" "obj_inv w1" "i \<in> players w1"
proof -
  let ?w1 = "w\<lparr>gout := gout w @ sent_data (lg_sys sys) (save_req 0 i (p_uid (the_player w i)) b) (gout w)\<rparr>"
  have up: "do_update_player_data (lg_sys sys) 0 i w = Inr ?w1"
    using do_update_ok [OF inv i(2) ser, of 0] by (simp add: send_data_eq save_req_def)
  have inv1: "obj_inv ?w1" and i1: "i \<in> players ?w1" using inv i(2) obj_inv_cong [of ?w1 w] by simp_all
  obtain w' where del: "del_player i ?w1 = Inr w'" by (rule del_player_ok [OF inv1 i1]) blast
  have "get_player i w = Inr (Some i)" using used_get [of w i] inv i(2) by (simp add: obj_inv_def)
  then have "lua_conn_packet sys (12 + int (length pkg)) (e, w, l) = Inr (False, e, w', l)"
    using pkt(2) holds_packet_read [OF pkt(1)] i(1) up del by (simp add: lua_conn_packet_def Let_def)
  then show thesis by (rule that [OF _ del refl inv1 i1])
qed

text \<open>A client that disconnects while its player is being loaded stops the server: the end of the
  connection deletes the player, and the answer of datasvr is then loaded through a null pointer.\<close>

theorem lua_logout_crashes:
  assumes pkt: "holds_packet cd pkg w" "cd_conn_cmd cd = conn_cmd_code CONN_STOP"
    and inv: "obj_inv w" and i: "cd_player_idx cd = i" "i \<in> players w"
    and ser: "gs_ser_pd (lg_sys sys) (snapshot w i) = Some b"
    and r: "gs_parse_ss (lg_sys sys) ans = Some r" "ss_cmd r = kGetPlayerDataRes" "ss_ret r = 0" "ss_player_idx r = i"
  shows "\<exists>w'. lua_conn_packet sys (12 + int (length pkg)) (e, w, l) = Inr (False, e, w', l) \<and> players w' = players w - {i} \<and>
    gout w' = gout w @ sent_data (lg_sys sys) (save_req 0 i (p_uid (the_player w i)) b) (gout w) \<and>
    (\<forall>e2 l2. lua_handle_ss sys ans args (e2, w', l2) = Inl Null_Deref)"
proof -
  obtain w1 w' where st: "lua_conn_packet sys (12 + int (length pkg)) (e, w, l) = Inr (False, e, w', l)" "del_player i w1 = Inr w'"
    "w1 = w\<lparr>gout := gout w @ sent_data (lg_sys sys) (save_req 0 i (p_uid (the_player w i)) b) (gout w)\<rparr>" "obj_inv w1" "i \<in> players w1"
    by (rule lua_conn_stop [OF pkt inv i ser])
  note d = deleted_player [OF st(4,5,2)]
  have "get_player i w' = Inr None" by (rule get_player_unused) (use d(3,4) in \<open>simp_all add: obj_inv_def\<close>)
  then have "lua_handle_ss sys ans args (e2, w', l2) = Inl Null_Deref" for e2 l2
    using r by (simp add: lua_handle_ss_def handle_request_def lua_handlers_lookup cmd_defs on_datasvr_get_player_data_res_def
        on_game_def load_player_data_def Let_def)
  then show ?thesis using st(1,3) d(4,5) by (intro exI [of _ w']) simp
qed

theorem lua_logout_crashes_witness:
  "\<exists>w i w'. players w = {i} \<and> lua_conn_packet (lua_example cs_empty (ss_empty\<lparr>ss_cmd := kGetPlayerDataRes, ss_player_idx := i\<rparr>) initial_player_data)
       12 (lua_started, w, 0) = Inr (False, lua_started, w', 0) \<and>
     lua_handle_ss (lua_example cs_empty (ss_empty\<lparr>ss_cmd := kGetPlayerDataRes, ss_player_idx := i\<rparr>) initial_player_data) [0] A_Null
       (lua_started, w', 0) = Inl Null_Deref"
proof -
  obtain i c w0 where w0: "obj_inv w0" "players w0 = {i}" "0 < i" "i \<le> 4" by (rule example_game_logic)
  let ?cd = "\<lparr>cd_conn_fd = 7, cd_player_idx = i, cd_conn_cmd = 3\<rparr>" and ?r = "ss_empty\<lparr>ss_cmd := kGetPlayerDataRes, ss_player_idx := i\<rparr>"
  let ?sys = "lua_example cs_empty ?r initial_player_data" and ?w = "w0\<lparr>msg_buf := put_conn_data ?cd\<rparr>"
  have pkt: "holds_packet ?cd [] ?w" "cd_conn_cmd ?cd = conn_cmd_code CONN_STOP"
    using w0(3,4) by (simp_all add: holds_packet_def cd_ok_def)
  have inv: "obj_inv ?w" using w0(1) obj_inv_cong [of ?w w0] by simp
  have i: "cd_player_idx ?cd = i" "i \<in> players ?w" using w0(2) by simp_all
  have ser: "gs_ser_pd (lg_sys ?sys) (snapshot ?w i) = Some []" by (simp add: lua_example_def quiet_sys_def)
  have r: "gs_parse_ss (lg_sys ?sys) [0] = Some ?r" "ss_cmd ?r = kGetPlayerDataRes" "ss_ret ?r = 0" "ss_player_idx ?r = i"
    by (simp_all add: ss_empty_def lua_example_def)
  have p: "players ?w = {i}" using w0(2) by simp
  have "\<exists>w'. lua_conn_packet ?sys (12 + int (length ([] :: bytes))) (lua_started, ?w, 0) = Inr (False, lua_started, w', 0) \<and>
      (\<forall>e2 l2. lua_handle_ss ?sys [0] A_Null (e2, w', l2) = Inl Null_Deref)"
    using lua_logout_crashes [where e = lua_started and l = 0 and args = A_Null, OF pkt inv i ser r] by blast
  moreover have "12 + int (length ([] :: bytes)) = 12" by simp
  ultimately have "\<exists>w'. lua_conn_packet ?sys 12 (lua_started, ?w, 0) = Inr (False, lua_started, w', 0) \<and>
      (\<forall>e2 l2. lua_handle_ss ?sys [0] A_Null (e2, w', l2) = Inl Null_Deref)" by (simp only:)
  then show ?thesis using p by blast
qed

end
