(* ===== verification/Lua_Script_Props.thy ===== *)
theory Lua_Script_Props
  imports Lua_Script Lua_Game_Props
begin

text \<open>
  What the scripts of \<open>Lua_Script\<close> do with the packets that reach them: the registration does what the
  logic of \<open>gamesvr\<close> does, a login over an account that is online saves twice and is answered too early,
  and a script that outlives its player ends the server.
\<close>

section \<open>Waiting scripts\<close>

text \<open>Task \<open>t\<close> waits at the point \<open>k\<close>.\<close>

definition waiting :: "int \<Rightarrow> script_point \<Rightarrow> lua_engine \<Rightarrow> script_state \<Rightarrow> bool" where
  "waiting t k e l \<longleftrightarrow> find_task t e \<noteq> 0 \<and> map_of (ls_threads l) (find_task t e) = Some k"

text \<open>A thread that was freed does not wait.\<close>

definition machine_ok :: "script_state \<Rightarrow> bool" where
  "machine_ok l \<longleftrightarrow> smap_ok (ls_threads l) \<and>
     (\<forall>co\<in>set (ls_freed l). 0 < co \<and> co < ls_next l \<and> map_of (ls_threads l) co = None)"

definition scripts_ok :: "lua_engine \<Rightarrow> script_state \<Rightarrow> bool" where
  "scripts_ok e l \<longleftrightarrow> lua_inv e \<and> machine_ok l"

section \<open>The collector\<close>

text \<open>A collector that frees no thread whose script waits.\<close>

definition collector_spares :: "script_env \<Rightarrow> bool" where
  "collector_spares env \<longleftrightarrow> (\<forall>cos n. set cos \<inter> set (se_garbage env cos n) = {})"

lemma map_of_kept: "map_of (filter (\<lambda>p. fst p \<notin> D) xs) k = (if k \<in> D then None else map_of xs k)"
  by (induction xs) auto

lemma garbage_simps [simp]: "running \<notin> set (garbage env running l)" "0 \<notin> set (garbage env running l)"
  by (simp_all add: garbage_def)

lemma garbage_old: "co \<in> set (garbage env running l) \<Longrightarrow> 0 < co \<and> co < ls_next l"
  by (simp add: garbage_def)

lemma garbage_spares: "collector_spares env \<Longrightarrow> map_of (ls_threads l) co = Some k \<Longrightarrow> co \<notin> set (garbage env running l)"
proof -
  assume spares: "collector_spares env" and co: "map_of (ls_threads l) co = Some k"
  have "co \<in> set (map fst (ls_threads l))" using map_of_SomeD [OF co] by force
  then have "co \<notin> set (se_garbage env (map fst (ls_threads l)) (ls_cycles l))"
    using spares unfolding collector_spares_def by blast
  then show ?thesis by (simp add: garbage_def)
qed

lemma collect_simps [simp]:
  "ls_next (collect env running l) = ls_next l" "ls_loaded (collect env running l) = ls_loaded l"
  "ls_globals (collect env running l) = ls_globals l"
  "map_of (ls_threads (collect env running l)) co = (if co \<in> set (garbage env running l) then None else map_of (ls_threads l) co)"
  "set (ls_freed (collect env running l)) = set (garbage env running l) \<union> set (ls_freed l)"
  by (simp_all add: collect_def Let_def map_of_kept)

lemma machine_okD:
  assumes "machine_ok l"
  shows "smap_ok (ls_threads l)" "co \<in> set (ls_freed l) \<Longrightarrow> 0 < co \<and> co < ls_next l \<and> map_of (ls_threads l) co = None"
  using assms by (simp_all add: machine_ok_def)

lemma collect_ok: "machine_ok l \<Longrightarrow> machine_ok (collect env running l)"
proof -
  assume ok: "machine_ok l"
  have "smap_ok (ls_threads (collect env running l))"
    using machine_okD(1) [OF ok] sorted_wrt_filter [of "\<lambda>p q. fst p < fst q"] by (simp add: smap_ok_def collect_def Let_def sorted_wrt_map)
  then show ?thesis using machine_okD(2) [OF ok] garbage_old by (fastforce simp: machine_ok_def)
qed

lemma machine_puts: "machine_ok l \<Longrightarrow> co \<notin> set (ls_freed l) \<Longrightarrow> machine_ok (l\<lparr>ls_threads := smap_put co k (ls_threads l)\<rparr>)"
  by (auto simp: machine_ok_def)

lemma machine_erases: "machine_ok l \<Longrightarrow> machine_ok (l\<lparr>ls_threads := smap_erase co (ls_threads l)\<rparr>)"
  by (auto simp: machine_ok_def)

lemma waiting_kept: "machine_ok l \<Longrightarrow> waiting t k e l \<Longrightarrow> find_task t e \<notin> set (ls_freed l)"
  using machine_okD(2) by (fastforce simp: waiting_def)

lemma script_sys_simps [simp]:
  "lg_sys (script_sys env) = se_sys env" "lu_resume (lg_lua (script_sys env)) = script_resume env"
  "lu_newthread (lg_lua (script_sys env)) = script_newthread env" "lu_getfunction (lg_lua (script_sys env)) = script_getfunction"
  "lg_stack (script_sys env) l = se_stack env" "lg_set_global (script_sys env) = script_set_global env"
  "lu_reload (lg_lua (script_sys env)) = script_reload env"
  by (simp_all add: script_sys_def)

lemma ends_Inr [simp]: "ends s (Inr w) = Inr (s, w)"
  by (simp add: ends_def)

lemma ends_eq_Inr_iff: "ends s r = Inr (s', w) \<longleftrightarrow> s' = s \<and> r = Inr w"
  by (auto simp: ends_def rbind_eq_Inr_iff)

lemma resume_waiting:
  assumes ok: "scripts_ok e l" and k: "waiting t k e l" and st: "script_step env k args w = Inr (S_Yield k', w1)"
  obtains l' where "resume_task (lg_lua (script_sys env)) t args (e, w, l) = Inr (e, w1, l')" "scripts_ok e l'" "waiting t k' e l'"
    "ls_next l' = ls_next l"
proof -
  let ?co = "find_task t e"
  let ?l = "(collect env ?co l)\<lparr>ls_threads := smap_put ?co k' (ls_threads (collect env ?co l))\<rparr>"
  have inv: "lua_inv e" and m: "machine_ok l" using ok by (simp_all add: scripts_ok_def)
  note kept = waiting_kept [OF m k] and m1 = collect_ok [OF m, of env ?co]
  have co: "?co \<noteq> 0" using k by (simp add: waiting_def)
  have go: "script_resume env ?co args (w, l) = Inr (LUA_YIELD, w1, ?l)"
    using k st kept by (simp add: waiting_def script_resume_def Let_def)
  have "resume_task (lg_lua (script_sys env)) t args (e, w, l) = Inr (e, w1, ?l)"
    using go co find_task_pos [OF inv co] by (simp add: resume_task_def co_map_at_task)
  moreover have "machine_ok ?l" by (rule machine_puts [OF m1]) (use kept in simp)
  ultimately show thesis using that [of ?l] inv co machine_okD(1) [OF m1] by (simp add: waiting_def scripts_ok_def)
qed

lemma resume_yields:
  assumes ok: "scripts_ok e l" and k: "waiting t k e l" and st: "script_step env k args w = Inr (S_Yield k', w1)"
  obtains e' l' where "resume_task (lg_lua (script_sys env)) t args (e, w, l) = Inr (e', w1, l')" "scripts_ok e' l'" "waiting t k' e' l'"
  by (rule resume_waiting [OF assms]) (rule that)

lemma resume_returns:
  assumes ok: "scripts_ok e l" and k: "waiting t k e l" and st: "script_step env k args w = Inr (S_Return, w1)"
  obtains e' l' where "resume_task (lg_lua (script_sys env)) t args (e, w, l) = Inr (e', w1, l')" "scripts_ok e' l'" "find_task t e' = 0"
proof -
  let ?co = "find_task t e"
  let ?l = "(collect env ?co l)\<lparr>ls_threads := smap_erase ?co (ls_threads (collect env ?co l))\<rparr>"
  have inv: "lua_inv e" and m: "machine_ok l" using ok by (simp_all add: scripts_ok_def)
  have go: "lu_resume (lg_lua (script_sys env)) ?co args (w, l) = Inr (0, w1, ?l)"
    using k st waiting_kept [OF m k] by (simp add: waiting_def script_resume_def Let_def)
  obtain e' where "resume_task (lg_lua (script_sys env)) t args (e, w, l) = Inr (e', if ?co = 0 then (w, l) else (w1, ?l))"
    "lua_inv e'" "find_task t e' = (if 0 = LUA_YIELD then ?co else 0)"
    by (rule resume_task_ok [OF inv go]) blast
  then show thesis using that [of e' ?l] k machine_erases [OF collect_ok [OF m]] by (simp add: waiting_def scripts_ok_def LUA_YIELD_def)
qed

lemma resume_faults:
  assumes ok: "scripts_ok e l" and k: "waiting t k e l" and st: "script_step env k args w = Inl err"
  shows "resume_task (lg_lua (script_sys env)) t args (e, w, l) = Inl err"
  using resume_task_fault [of e "lg_lua (script_sys env)" t args "(w, l)" err] waiting_kept [OF _ k] ok k st
  by (simp add: scripts_ok_def waiting_def script_resume_def Let_def)

text \<open>A thread that the collector has freed.\<close>

lemma resume_freed:
  assumes "lua_inv e" "find_task t e \<noteq> 0" "find_task t e \<in> set (ls_freed l)"
  shows "resume_task (lg_lua (script_sys env)) t args (e, w, l) = Inl Dangling"
  using resume_task_fault [of e "lg_lua (script_sys env)" t args "(w, l)" Dangling] assms by (simp add: script_resume_def)

text \<open>An answer of datasvr that carries the number of a task.\<close>

definition answers :: "game_sys \<Rightarrow> bytes \<Rightarrow> int \<Rightarrow> int \<Rightarrow> int \<Rightarrow> bool" where
  "answers sys pkg cmd t ret \<longleftrightarrow> (\<exists>r. gs_parse_ss sys pkg = Some r \<and> ss_cmd r = cmd \<and> ss_seq r = word_of_int t \<and> ss_ret r = ret)"

lemma answer_resumes:
  assumes "lua_inv e" "find_task t e \<noteq> 0" "answers (lg_sys sys) pkg cmd t ret" "cmd \<in> {kAccountRegRes, kSetPlayerDataRes}"
  shows "lua_handle_ss sys pkg args (e, x) = rbind (resume_task (lg_lua sys) t [LV_Num ret] (e, x)) (\<lambda>s. Inr (0, s))"
proof -
  obtain r where r: "gs_parse_ss (lg_sys sys) pkg = Some r" "ss_cmd r = cmd" "ss_seq r = word_of_int t" "ss_ret r = ret"
    using assms(3) by (auto simp: answers_def)
  have "sint (ss_seq r) = t" using task_word [OF assms(1,2)] r(3) by simp
  then show ?thesis using r assms(4)
    by (auto simp: lua_handle_ss_def handle_request_def lua_handlers_lookup on_datasvr_account_reg_res_def
        on_datasvr_set_player_data_res_def cmd_defs rbind_assoc)
qed

text \<open>A task that is started calls its function with the arguments of the handler.\<close>

lemma start_script:
  assumes ok: "scripts_ok e l" and room: "heap_size (le_timer e) < 1073741824"
    and l: "ls_loaded l" "0 < ls_next l" "f \<in> {lua_txt ''quick_reg'', lua_txt ''normal_reg'', lua_txt ''login''}"
  obtains t e1 l1 where "create_task (lg_lua (script_sys env)) f 10 (e, w, l) = Inr (t, e1, w, l1)" "0 < t"
    "scripts_ok e1 l1" "waiting t (K_Function f) e1 l1" "find_task t e = 0"
    "\<forall>j. j \<noteq> t \<longrightarrow> find_task j e1 = find_task j e" "set (ls_freed l1) = set (garbage env 0 l) \<union> set (ls_freed l)"
proof -
  have inv: "lua_inv e" and m: "machine_ok l" using ok by (simp_all add: scripts_ok_def)
  let ?l1 = "(collect env 0 l)\<lparr>ls_next := ls_next l + 1\<rparr>" and ?co = "ls_next l"
  let ?l2 = "?l1\<lparr>ls_threads := smap_put ?co (K_Function f) (ls_threads ?l1)\<rparr>"
  note m1 = collect_ok [OF m, of env 0]
  have co: "lu_newthread (lg_lua (script_sys env)) (w, l) = (?co, w, ?l1)" "?co \<noteq> 0"
    "lu_getfunction (lg_lua (script_sys env)) ?co f (w, ?l1) = (True, w, ?l2)"
    using l by (simp_all add: script_newthread_def script_getfunction_def Let_def)
  have "machine_ok ?l1" unfolding machine_ok_def using machine_okD [OF m1] by (simp add: less_SucI)
  moreover have "?co \<notin> set (ls_freed ?l1)" using machine_okD(2) [OF m1, of ?co] by auto
  ultimately have m2: "machine_ok ?l2" by (rule machine_puts)
  have secs: "(0 :: int) < 10" "(10 :: int) < 2147483648" by simp_all
  obtain t e1 where c: "create_task (lg_lua (script_sys env)) f 10 (e, w, l) = Inr (t, e1, w, ?l2)" "lua_inv e1" "0 < t"
    "find_task t e = 0" "find_task t e1 = ?co" "\<forall>j. j \<noteq> t \<longrightarrow> find_task j e1 = find_task j e"
    by (rule create_task_started [OF inv room secs co]) blast
  then show thesis using that [of t e1 ?l2] m2 machine_okD(1) [OF m1] l(2) by (simp add: scripts_ok_def waiting_def)
qed

section \<open>A registration that outlives its connection\<close>

text \<open>What the example environments parse and what they send: an answer is the number of its task in digits.\<close>

definition digit_sys :: "cs_msg \<Rightarrow> ss_msg \<Rightarrow> game_sys" where
  "digit_sys m r = quiet_sys\<lparr>gs_parse_cs := \<lambda>_. Some m, gs_parse_ss := \<lambda>b. map_option (\<lambda>n. r\<lparr>ss_seq := n\<rparr>) (to_number_u64 b)\<rparr>"

definition script_example :: "cs_msg \<Rightarrow> ss_msg \<Rightarrow> script_env" where
  "script_example m r = \<lparr>se_sys = digit_sys m r, se_random = \<lambda>_ _. 1, se_dostring = \<lambda>_. 0, se_dofile = \<lambda>_. 0, se_loads = True, se_stack = 0, se_garbage = \<lambda>_ _. []\<rparr>"

definition scripts_loaded :: script_state where
  "scripts_loaded = \<lparr>ls_threads = [], ls_next = 1, ls_loaded = True, ls_globals = [], ls_cycles = 0, ls_freed = []\<rparr>"

lemma script_example_sys [simp]: "se_sys (script_example m r) = digit_sys m r"
  by (simp add: script_example_def)

lemma digit_answers: "ss_cmd r = cmd \<Longrightarrow> ss_ret r = ret \<Longrightarrow> answers (digit_sys m r) (to_string_u64 (word_of_int t)) cmd t ret"
  by (simp add: answers_def digit_sys_def number_of_string)

lemma started_scripts: "scripts_ok lua_started scripts_loaded" "heap_size (le_timer lua_started) < 1073741824"
  "ls_loaded scripts_loaded" "0 < ls_next scripts_loaded"
  using lua_started_inv by (simp_all add: scripts_ok_def scripts_loaded_def machine_ok_def)

text \<open>A client that asks for a registration and closes its connection before datasvr answers stops the
  server: the end of the connection deletes its player, and the script answers through the pointer
  it has kept, whose index fails a check. \<open>gamesvr\<close> looks the player up again and drops the answer.\<close>

theorem lua_reg_disconnect_aborts:
  assumes ok: "scripts_ok e l" and k: "waiting t (K_Normal_Reg v account password) e l" "rv_player v = i"
    and pkt: "holds_packet cd pkg w" "cd_conn_cmd cd = conn_cmd_code CONN_STOP" "cd_player_idx cd = i"
    and inv: "obj_inv w" "i \<in> players w" and ser: "gs_ser_pd (se_sys env) (snapshot w i) = Some b"
    and ans: "answers (se_sys env) ans kAccountRegRes t ret"
  shows "\<exists>w'. lua_conn_packet (script_sys env) (12 + int (length pkg)) (e, w, l) = Inr (False, e, w', l) \<and>
    players w' = players w - {i} \<and> lua_handle_ss (script_sys env) ans args (e, w', l) = Inl Check_Failed"
proof -
  have ser': "gs_ser_pd (lg_sys (script_sys env)) (snapshot w i) = Some b" using ser by simp
  obtain w1 w' where st: "lua_conn_packet (script_sys env) (12 + int (length pkg)) (e, w, l) = Inr (False, e, w', l)" "del_player i w1 = Inr w'"
    "w1 = w\<lparr>gout := gout w @ sent_data (lg_sys (script_sys env)) (save_req 0 i (p_uid (the_player w i)) b) (gout w)\<rparr>" "obj_inv w1" "i \<in> players w1"
    by (rule lua_conn_stop [OF pkt(1,2) inv(1) pkt(3) inv(2) ser'])
  note d = deleted_player [OF st(4,5,2)]
  have send: "player_send (se_sys env) m cmd i w' = Inl Check_Failed" for m cmd
    using d(1,2) by (auto simp: player_send_def)
  have "script_step env (K_Normal_Reg v account password) args' w' = Inl Check_Failed" for args'
    using send k(2) by (simp add: normal_reg_resume_def ends_def send_failed_cs_res_def send_ok_cs_normal_reg_res_def)
  then have "resume_task (lg_lua (script_sys env)) t [LV_Num ret] (e, w', l) = Inl Check_Failed"
    by (rule resume_faults [OF ok k(1)])
  moreover have "lua_inv e" "find_task t e \<noteq> 0" using ok k(1) by (simp_all add: scripts_ok_def waiting_def)
  ultimately have "lua_handle_ss (script_sys env) ans args (e, w', l) = Inl Check_Failed"
    using answer_resumes [of e t "script_sys env" ans kAccountRegRes ret args "(w', l)"] ans by simp
  then show ?thesis using st(1,3) d(4) by (intro exI [of _ w']) simp
qed

text \<open>The machine of an engine with one task, which waits at \<open>k\<close>.\<close>

definition thread_at :: "script_point \<Rightarrow> script_state" where
  "thread_at k = scripts_loaded\<lparr>ls_threads := [(9, k)]\<rparr>"

lemma waiting_example:
  obtains t e where "\<forall>k. scripts_ok e (thread_at k) \<and> waiting t k e (thread_at k)"
proof -
  obtain t e where e: "lua_inv e" "find_task t e = 9" by (rule lua_task_example) blast
  show thesis by (rule that [of e t]) (use e in \<open>simp_all add: thread_at_def scripts_loaded_def scripts_ok_def machine_ok_def waiting_def smap_ok_def\<close>)
qed

theorem lua_reg_disconnect_aborts_witness:
  "\<exists>t e w l w' i. players w = {i} \<and> waiting t (K_Normal_Reg \<lparr>rv_task_id = word_of_int t, rv_seq = 5, rv_player = i, rv_res_cmd = kNormalRegRes\<rparr> [97] [98]) e l \<and>
     lua_conn_packet (script_sys (script_example cs_empty (ss_empty\<lparr>ss_cmd := kAccountRegRes\<rparr>))) 12 (e, w, l) = Inr (False, e, w', l) \<and>
     lua_handle_ss (script_sys (script_example cs_empty (ss_empty\<lparr>ss_cmd := kAccountRegRes\<rparr>))) (to_string_u64 (word_of_int t)) A_Null (e, w', l) =
       Inl Check_Failed"
proof -
  obtain i c w0 where w0: "obj_inv w0" "players w0 = {i}" "0 < i" "i \<le> 4" by (rule example_game_logic)
  let ?v = "\<lambda>t. \<lparr>rv_task_id = word_of_int t, rv_seq = 5, rv_player = i, rv_res_cmd = kNormalRegRes\<rparr>"
  obtain t e where "\<forall>k. scripts_ok e (thread_at k) \<and> waiting t k e (thread_at k)" by (rule waiting_example)
  then have s: "scripts_ok e (thread_at k)" "waiting t k e (thread_at k)" for k by simp_all
  let ?l = "thread_at (K_Normal_Reg (?v t) [97] [98])"
  let ?cd = "\<lparr>cd_conn_fd = 7, cd_player_idx = i, cd_conn_cmd = 3\<rparr>" and ?r = "ss_empty\<lparr>ss_cmd := kAccountRegRes\<rparr>"
  let ?env = "script_example cs_empty ?r" and ?w = "w0\<lparr>msg_buf := put_conn_data ?cd\<rparr>"
  have pkt: "holds_packet ?cd [] ?w" "cd_conn_cmd ?cd = conn_cmd_code CONN_STOP" "cd_player_idx ?cd = i"
    using w0(3,4) by (simp_all add: holds_packet_def cd_ok_def)
  have inv: "obj_inv ?w" "i \<in> players ?w" using w0(1,2) obj_inv_cong [of ?w w0] by simp_all
  have ser: "gs_ser_pd (se_sys ?env) (snapshot ?w i) = Some []" by (simp add: digit_sys_def quiet_sys_def)
  have ans: "answers (se_sys ?env) (to_string_u64 (word_of_int t)) kAccountRegRes t 0"
    unfolding script_example_sys by (rule digit_answers) (simp_all add: ss_empty_def)
  have "rv_player (?v t) = i" by simp
  from lua_reg_disconnect_aborts [where args = A_Null, OF s this pkt inv ser ans]
  obtain w' where "lua_conn_packet (script_sys ?env) (12 + int (length ([] :: bytes))) (e, ?w, ?l) = Inr (False, e, w', ?l)"
    "lua_handle_ss (script_sys ?env) (to_string_u64 (word_of_int t)) A_Null (e, w', ?l) = Inl Check_Failed" by blast
  moreover have "12 + int (length ([] :: bytes)) = 12" by simp
  moreover have "players ?w = {i}" using w0(2) by simp
  ultimately show ?thesis using s(2) by metis
qed

section \<open>Login over an account that is online\<close>

text \<open>Effects one after the other.\<close>

definition also_sent :: "geffect list \<Rightarrow> (geffect list \<Rightarrow> geffect list) \<Rightarrow> geffect list" where
  "also_sent es f = es @ f es"

definition kick_off :: cs_msg where
  "kick_off = cs_empty\<lparr>cs_cmd := kServerKickOffNtf\<rparr>"

text \<open>The player \<open>j\<close> can be saved as \<open>b\<close>.\<close>

definition saves_as :: "game_sys \<Rightarrow> gamesvr \<Rightarrow> int \<Rightarrow> bytes \<Rightarrow> bool" where
  "saves_as sys w j b \<longleftrightarrow> obj_inv w \<and> j \<in> players w \<and> gs_ser_pd sys (snapshot w j) = Some b"

lemma saves_as_gout: "saves_as sys w j b \<Longrightarrow> saves_as sys (w\<lparr>gout := es\<rparr>) j b"
  using obj_inv_cong [of "w\<lparr>gout := es\<rparr>" w] snapshot_cong [of "w\<lparr>gout := es\<rparr>" j w] by (simp add: saves_as_def)

lemma save_once:
  assumes "saves_as sys w j b"
  shows "do_update_player_data sys seq j w =
    Inr (w\<lparr>gout := also_sent (gout w) (sent_data sys (save_req seq j (p_uid (the_player w j)) b))\<rparr>)"
  using assms do_update_ok [of w j sys b seq] by (simp add: saves_as_def send_data_eq save_req_def also_sent_def)

text \<open>A round of the loop: two saves.\<close>

definition saved_twice :: "game_sys \<Rightarrow> ss_msg \<Rightarrow> geffect list \<Rightarrow> geffect list" where
  "saved_twice sys m es = also_sent (also_sent es (sent_data sys m)) (sent_data sys m)"

lemma save_round:
  assumes "saves_as (se_sys env) w j b"
  shows "login_save_round env v idx j w = Inr (S_Yield (K_Login_Save v idx j),
    w\<lparr>gout := saved_twice (se_sys env) (save_req (lv_task_id v) j (p_uid (the_player w j)) b) (gout w)\<rparr>)"
  using save_once [OF assms, of "lv_task_id v"] save_once [OF saves_as_gout [OF assms], of "lv_task_id v"]
  by (simp add: login_save_round_def saved_twice_def)

text \<open>The request: the old player is notified and saved.\<close>

lemma login_online:
  assumes s: "saves_as (se_sys env) w j b" and i: "i \<in> players w" and on: "find_player_idx_by_uid uid w = j"
  shows "login env task_id uid h seq i cmd w =
    Inr (S_Yield (K_Login_Save \<lparr>lv_task_id = task_id, lv_uid = uid, lv_password_hash = h, lv_seq = seq, lv_player = i, lv_res_cmd = cmd\<rparr> j j),
      w\<lparr>gout := saved_twice (se_sys env) (save_req task_id j (p_uid (the_player w j)) b)
        (also_sent (gout w) (sent_conn (se_sys env) kick_off CONN_STOP (p_conn_fd (the_player w j)) j))\<rparr>)"
proof -
  have pinv: "pool_inv (player_pool w)" and j: "j \<in> players w" using s by (simp_all add: saves_as_def obj_inv_def)
  have pos: "0 < j" using j by (simp add: pool_used_def)
  have kick: "send_server_kick_off_notify (se_sys env) j w =
      Inr (w\<lparr>gout := also_sent (gout w) (sent_conn (se_sys env) kick_off CONN_STOP (p_conn_fd (the_player w j)) j)\<rparr>)"
    using player_send_ok [OF pinv j] by (simp add: send_server_kick_off_notify_def kick_off_def send_conn_eq also_sent_def)
  show ?thesis
    using used_get(2) [OF pinv i] used_get(2) [OF pinv j] pos on kick save_round [OF saves_as_gout [OF s]]
    by (simp add: login_def Let_def)
qed

text \<open>A login message whose account has the uid.\<close>

definition login_message :: "cs_msg \<Rightarrow> 64 word \<Rightarrow> bytes \<Rightarrow> bool" where
  "login_message m uid password \<longleftrightarrow> cs_cmd m = kLoginReq \<and>
     (\<exists>account. cs_login_req m = Some \<lparr>am_account = account, am_password = password\<rparr> \<and>
       (account = to_string_u64 uid \<or> check_account account (int (length account)) = Inr 0 \<and> uid = fnv64a_hash account))"

lemma login_script_starts:
  assumes ok: "scripts_ok e l" and room: "heap_size (le_timer e) < 1073741824" and l: "ls_loaded l" "0 < ls_next l"
    and m: "gs_parse_cs (se_sys env) pkg = Some m" "login_message m uid password"
    and st: "\<And>t. login env (word_of_int t) uid (fnv64a_hash password) (cs_seq m) (cd_player_idx cd) kLoginRes w = Inr (S_Yield (k t), w1 t)"
  obtains t e1 l1 where "lua_handle_cs (script_sys env) pkg (A_Conn cd) (e, w, l) = Inr (0, e1, w1 t, l1)"
    "scripts_ok e1 l1" "waiting t (k t) e1 l1" "0 < t" "find_task t e = 0"
proof -
  obtain account where a: "cs_login_req m = Some \<lparr>am_account = account, am_password = password\<rparr>" "cs_cmd m = kLoginReq"
    "account = to_string_u64 uid \<or> check_account account (int (length account)) = Inr 0 \<and> uid = fnv64a_hash account"
    using m(2) by (auto simp: login_message_def)
  have u: "login_uid stack account = Inr uid" for stack using a(3) login_uid_number by (auto simp: login_uid_def)
  obtain t e1 l1 where c: "create_task (lg_lua (script_sys env)) (lua_txt ''login'') 10 (e, w, l) = Inr (t, e1, w, l1)" "0 < t"
    "scripts_ok e1 l1" "waiting t (K_Function (lua_txt ''login'')) e1 l1" "find_task t e = 0"
    by (rule start_script [OF ok room l, of "lua_txt ''login''" env w]) simp_all
  let ?args = "[LV_U64 (word_of_int t), LV_U64 uid, LV_U64 (fnv64a_hash password), LV_U64 (cs_seq m), LV_Num (cd_player_idx cd), LV_Num kLoginRes]"
  have "lua_txt ''login'' \<noteq> lua_txt ''quick_reg''" "lua_txt ''login'' \<noteq> lua_txt ''normal_reg''" by (simp_all add: lua_txt_def)
  then have "script_step env (K_Function (lua_txt ''login'')) ?args w = Inr (S_Yield (k t), w1 t)"
    using st by (simp add: script_call_def)
  from resume_yields [OF c(3,4) this] obtain e2 l2 where r:
    "resume_task (lg_lua (script_sys env)) t ?args (e1, w, l1) = Inr (e2, w1 t, l2)" "scripts_ok e2 l2" "waiting t (k t) e2 l2" by blast
  have "on_client_login_req (script_sys env) (A_Conn cd) (L_Cs m) (e, w, l) = Inr (0, e2, w1 t, l2)"
    using u c(1,2) r(1) a(1) by (simp add: on_client_login_req_def account_msg_of_def Let_def)
  then have "lua_handle_cs (script_sys env) pkg (A_Conn cd) (e, w, l) = Inr (0, e2, w1 t, l2)"
    using m(1) a(2) by (simp add: lua_handle_cs_def handle_request_def lua_handlers_lookup)
  then show thesis by (rule that [OF _ r(2,3) c(2,5)])
qed

text \<open>The answer to a waiting script.\<close>

lemma answered:
  assumes ok: "scripts_ok e l" and k: "waiting t k e l"
    and ans: "answers (se_sys env) pkg cmd t ret" "cmd \<in> {kAccountRegRes, kSetPlayerDataRes}"
  shows "script_step env k [LV_Num ret] w = Inl err \<Longrightarrow> lua_handle_ss (script_sys env) pkg args (e, w, l) = Inl err"
    "script_step env k [LV_Num ret] w = Inr (S_Yield k', w1) \<Longrightarrow>
      \<exists>e' l'. lua_handle_ss (script_sys env) pkg args (e, w, l) = Inr (0, e', w1, l') \<and> scripts_ok e' l' \<and> waiting t k' e' l'"
    "script_step env k [LV_Num ret] w = Inr (S_Return, w1) \<Longrightarrow>
      \<exists>e' l'. lua_handle_ss (script_sys env) pkg args (e, w, l) = Inr (0, e', w1, l') \<and> scripts_ok e' l' \<and> find_task t e' = 0"
proof -
  have "lua_inv e" "find_task t e \<noteq> 0" using ok k by (simp_all add: scripts_ok_def waiting_def)
  note h = answer_resumes [of e t "script_sys env" pkg cmd ret args "(w, l)", OF this _ ans(2)]
  show "lua_handle_ss (script_sys env) pkg args (e, w, l) = Inl err" if "script_step env k [LV_Num ret] w = Inl err"
    using h resume_faults [OF ok k that] ans(1) by simp
  show "\<exists>e' l'. lua_handle_ss (script_sys env) pkg args (e, w, l) = Inr (0, e', w1, l') \<and> scripts_ok e' l' \<and> waiting t k' e' l'"
    if st: "script_step env k [LV_Num ret] w = Inr (S_Yield k', w1)"
  proof -
    obtain e' l' where "resume_task (lg_lua (script_sys env)) t [LV_Num ret] (e, w, l) = Inr (e', w1, l')" "scripts_ok e' l'" "waiting t k' e' l'"
      by (rule resume_yields [OF ok k st])
    then show ?thesis using h ans(1) by simp
  qed
  show "\<exists>e' l'. lua_handle_ss (script_sys env) pkg args (e, w, l) = Inr (0, e', w1, l') \<and> scripts_ok e' l' \<and> find_task t e' = 0"
    if st: "script_step env k [LV_Num ret] w = Inr (S_Return, w1)"
  proof -
    obtain e' l' where "resume_task (lg_lua (script_sys env)) t [LV_Num ret] (e, w, l) = Inr (e', w1, l')" "scripts_ok e' l'" "find_task t e' = 0"
      by (rule resume_returns [OF ok k st])
    then show ?thesis using h ans(1) by simp
  qed
qed

text \<open>A script that waits again leaves the engine as it is.\<close>

lemma answered_waiting:
  assumes ok: "scripts_ok e l" and k: "waiting t k e l"
    and ans: "answers (se_sys env) pkg cmd t ret" "cmd \<in> {kAccountRegRes, kSetPlayerDataRes}"
    and st: "script_step env k [LV_Num ret] w = Inr (S_Yield k', w1)"
  obtains l' where "lua_handle_ss (script_sys env) pkg args (e, w, l) = Inr (0, e, w1, l')" "scripts_ok e l'" "waiting t k' e l'"
proof -
  have t: "lua_inv e" "find_task t e \<noteq> 0" using ok k by (simp_all add: scripts_ok_def waiting_def)
  obtain l' where "resume_task (lg_lua (script_sys env)) t [LV_Num ret] (e, w, l) = Inr (e, w1, l')" "scripts_ok e l'" "waiting t k' e l'"
    by (rule resume_waiting [OF ok k st])
  then show thesis using that answer_resumes [of e t "script_sys env" pkg cmd ret args "(w, l)", OF t _ ans(2)] ans(1) by simp
qed

text \<open>C33: A client that logs in twice over one connection stops the server: the second login finds its own
  player online, notifies and saves it, deletes it when the save is answered, and then asks for the
  data of an account through the pointer to the player that it has just deleted.\<close>

theorem lua_double_login_aborts:
  assumes ok: "scripts_ok e l" and room: "heap_size (le_timer e) < 1073741824" and l: "ls_loaded l" "0 < ls_next l"
    and m: "gs_parse_cs (se_sys env) pkg = Some m" "login_message m uid password"
    and s: "saves_as (se_sys env) w (cd_player_idx cd) b" and on: "find_player_idx_by_uid uid w = cd_player_idx cd"
  shows "\<exists>t e1 w1 l1. lua_handle_cs (script_sys env) pkg (A_Conn cd) (e, w, l) = Inr (0, e1, w1, l1) \<and>
    gout w1 = saved_twice (se_sys env) (save_req (word_of_int t) (cd_player_idx cd) (p_uid (the_player w (cd_player_idx cd))) b)
      (also_sent (gout w) (sent_conn (se_sys env) kick_off CONN_STOP (p_conn_fd (the_player w (cd_player_idx cd))) (cd_player_idx cd))) \<and>
    (\<forall>ans args. answers (se_sys env) ans kSetPlayerDataRes t 0 \<longrightarrow>
       lua_handle_ss (script_sys env) ans args (e1, w1, l1) = Inl Check_Failed)"
proof -
  let ?i = "cd_player_idx cd"
  have i: "?i \<in> players w" using s by (simp add: saves_as_def)
  note st = login_online [OF s i on]
  obtain t e1 w1 l1 v where c: "lua_handle_cs (script_sys env) pkg (A_Conn cd) (e, w, l) = Inr (0, e1, w1, l1)"
    "scripts_ok e1 l1" "waiting t (K_Login_Save v ?i ?i) e1 l1" "lv_player v = ?i"
    "w1 = w\<lparr>gout := saved_twice (se_sys env) (save_req (word_of_int t) ?i (p_uid (the_player w ?i)) b)
      (also_sent (gout w) (sent_conn (se_sys env) kick_off CONN_STOP (p_conn_fd (the_player w ?i)) ?i))\<rparr>"
    by (rule login_script_starts [OF ok room l m st]) (simp add: that)
  have s1: "saves_as (se_sys env) w1 ?i b" unfolding c(5) by (rule saves_as_gout [OF s])
  obtain w2 where del: "del_player ?i w1 = Inr w2"
    by (rule del_player_ok [of w1 ?i]) (use s1 in \<open>auto simp: saves_as_def\<close>)
  have "get_player_idx ?i w2 = Inl Check_Failed"
    by (rule deleted_player(1) [OF _ _ del]) (use s1 in \<open>simp_all add: saves_as_def\<close>)
  then have "script_step env (K_Login_Save v ?i ?i) [LV_Num 0] w1 = Inl Check_Failed"
    using del c(4) by (simp add: login_save_resume_def is_zero_def login_load_def do_get_player_data_def ends_def)
  then have "lua_handle_ss (script_sys env) ans args (e1, w1, l1) = Inl Check_Failed"
    if "answers (se_sys env) ans kSetPlayerDataRes t 0" for ans args
    by (intro answered(1) [OF c(2,3) that]) simp_all
  then show ?thesis using c(1,5) by (intro exI [of _ t] exI [of _ e1] exI [of _ w1] exI [of _ l1]) simp
qed

text \<open>A server with one player, logged in to the account 1234567.\<close>

definition login_again :: cs_msg where
  "login_again = example_login\<lparr>cs_login_req := Some \<lparr>am_account = to_string_u64 1234567, am_password = [49]\<rparr>\<rparr>"

lemma login_again_message: "login_message login_again 1234567 [49]"
  by (simp add: login_message_def login_again_def example_login_def)

lemma online_example:
  assumes "gs_ser_pd sys = gs_ser_pd quiet_sys"
  obtains i w where "players w = {i}" "saves_as sys w i []" "find_player_idx_by_uid 1234567 w = i" "gout w = []"
proof -
  obtain i c w where w: "obj_inv w" "players w = {i}" "gout w = []" "uid_to_player_idx_map w = []" by (rule example_game_logic)
  let ?w = "bind_uid_to_player_idx 1234567 i w"
  have "obj_inv ?w" "players ?w = {i}" using w(1,2) by simp_all
  moreover have "find_player_idx_by_uid 1234567 ?w = i" using w(4) by (simp add: find_player_idx_by_uid_def bind_uid_to_player_idx_def smap_insert_def)
  ultimately show thesis using that [of ?w i] w(3) assms by (simp add: saves_as_def quiet_sys_def)
qed

theorem lua_double_login_aborts_witness:
  "\<exists>i w t e1 w1 l1. lua_handle_cs (script_sys (script_example login_again (ss_empty\<lparr>ss_cmd := kSetPlayerDataRes\<rparr>))) []
       (A_Conn \<lparr>cd_conn_fd = 7, cd_player_idx = i, cd_conn_cmd = 2\<rparr>) (lua_started, w, scripts_loaded) = Inr (0, e1, w1, l1) \<and>
     lua_handle_ss (script_sys (script_example login_again (ss_empty\<lparr>ss_cmd := kSetPlayerDataRes\<rparr>))) (to_string_u64 (word_of_int t))
       A_Null (e1, w1, l1) = Inl Check_Failed"
proof -
  let ?r = "ss_empty\<lparr>ss_cmd := kSetPlayerDataRes\<rparr>"
  let ?env = "script_example login_again ?r" and ?cd = "\<lambda>i. \<lparr>cd_conn_fd = 7, cd_player_idx = i, cd_conn_cmd = 2\<rparr>"
  have ser: "gs_ser_pd (se_sys ?env) = gs_ser_pd quiet_sys" by (simp add: digit_sys_def)
  obtain i w where w: "saves_as (se_sys ?env) w i []" "find_player_idx_by_uid 1234567 w = i" by (rule online_example [OF ser])
  have m: "gs_parse_cs (se_sys ?env) [] = Some login_again" by (simp add: digit_sys_def)
  have "saves_as (se_sys ?env) w (cd_player_idx (?cd i)) []" "find_player_idx_by_uid 1234567 w = cd_player_idx (?cd i)" using w by simp_all
  from lua_double_login_aborts [OF started_scripts m login_again_message this]
  obtain t e1 w1 l1 where h: "lua_handle_cs (script_sys ?env) [] (A_Conn (?cd i)) (lua_started, w, scripts_loaded) = Inr (0, e1, w1, l1)"
    "\<forall>ans args. answers (se_sys ?env) ans kSetPlayerDataRes t 0 \<longrightarrow> lua_handle_ss (script_sys ?env) ans args (e1, w1, l1) = Inl Check_Failed"
    by blast
  have "answers (se_sys ?env) (to_string_u64 (word_of_int t)) kSetPlayerDataRes t 0"
    unfolding script_example_sys by (rule digit_answers) (simp_all add: ss_empty_def)
  then show ?thesis using h by blast
qed

section \<open>The answer that comes too early\<close>

text \<open>The end of a login: uid and password are set and the client is told, with what the player holds.\<close>

lemma login_ends:
  assumes inv: "obj_inv w" and i: "lv_player v = i" "i \<in> players w"
  obtains w' where "script_step env (K_Login_Data v) [LV_Num 0] w = Inr (S_Return, w')" "obj_inv w'" "players w' = players w"
    "p_uid (the_player w' i) = lv_uid v"
    "gout w' = also_sent (also_sent (gout w) (sent_conn (se_sys env) (login_ok (lv_seq v)) CONN_START (p_conn_fd (the_player w i)) i))
      (sent_conn (se_sys env) (role_info_ntf \<lparr>ri_money = p_money (the_player w i), ri_level = p_level (the_player w i)\<rparr>) CONN_PROC
        (p_conn_fd (the_player w i)) i)"
proof -
  let ?w1 = "upd_player i (\<lambda>p. p\<lparr>p_uid := lv_uid v\<rparr>) (bind_uid_to_player_idx (lv_uid v) i w)"
  let ?w2 = "upd_player i (\<lambda>p. p\<lparr>p_password_hash := lv_password_hash v\<rparr>) ?w1"
  have inv1: "obj_inv ?w1" by (rule upd_player_inv) (use inv i(2) in simp_all)
  have i1: "i \<in> players ?w1" using i(2) by simp
  have inv2: "obj_inv ?w2" by (rule upd_player_inv [OF inv1 i1]) simp
  have i2: "i \<in> players ?w2" using i1 by simp
  have pinv: "pool_inv (player_pool w)" "pool_inv (player_pool ?w1)" "pool_inv (player_pool ?w2)"
    using inv inv1 inv2 by (simp_all only: obj_inv_def)
  have p1: "the_player ?w1 i = (the_player w i)\<lparr>p_uid := lv_uid v\<rparr>"
    using the_player_upd(1) [of "bind_uid_to_player_idx (lv_uid v) i w" i] pinv(1) i(2) by simp
  have p2: "the_player ?w2 i = (the_player w i)\<lparr>p_uid := lv_uid v, p_password_hash := lv_password_hash v\<rparr>"
    using the_player_upd(1) [OF pinv(2) i1] p1 by simp
  let ?es = "also_sent (gout w) (sent_conn (se_sys env) (login_ok (lv_seq v)) CONN_START (p_conn_fd (the_player w i)) i)"
  let ?w3 = "?w2\<lparr>gout := ?es\<rparr>"
  let ?ri = "\<lparr>ri_money = p_money (the_player w i), ri_level = p_level (the_player w i)\<rparr>"
  let ?w4 = "?w3\<lparr>gout := also_sent ?es (sent_conn (se_sys env) (role_info_ntf ?ri) CONN_PROC (p_conn_fd (the_player w i)) i)\<rparr>"
  have s1: "set_uid (lv_uid v) i w = Inr ?w1" by (rule setters(4) [OF pinv(1) i(2)])
  have s2: "set_password_hash (lv_password_hash v) i ?w1 = Inr ?w2" by (rule setters(2) [OF pinv(2) i1])
  have s3: "send_ok_cs_login_res (se_sys env) (lv_seq v) i ?w2 = Inr ?w3"
    using player_send_ok [OF pinv(3) i2] p2 by (simp add: send_ok_cs_login_res_def send_conn_eq login_ok_def also_sent_def)
  have i3: "i \<in> players ?w3" and pinv3: "pool_inv (player_pool ?w3)" using i2 pinv(3) by simp_all
  have s4: "send_role_info_notify (se_sys env) i ?w3 = Inr ?w4"
    using player_send_ok [OF pinv3 i3] used_get(1) [OF pinv3 i3] p2
    by (simp add: send_role_info_notify_def send_conn_eq role_info_ntf_def also_sent_def)
  have "script_step env (K_Login_Data v) [LV_Num 0] w = Inr (S_Return, ?w4)"
    using i(1) s1 s2 s3 s4 by (simp add: login_data_resume_def is_zero_def)
  moreover have "obj_inv ?w4" using inv2 obj_inv_cong [of ?w4 ?w2] by simp
  ultimately show thesis using that [of ?w4] p2 by simp
qed

text \<open>C19: A login over an account that is online elsewhere is answered before the data is there: the script saves
  the old player twice and datasvr answers both. The first answer deletes the old player and asks
  for the data, and the second is taken for the data: the client gets \<open>LoginRes\<close> and a \<open>RoleInfoNtf\<close> with what
  the new player holds without having been loaded, and the task is over before the data arrives.\<close>

theorem lua_takeover_early:
  assumes ok: "scripts_ok e l" and room: "heap_size (le_timer e) < 1073741824" and l: "ls_loaded l" "0 < ls_next l"
    and m: "gs_parse_cs (se_sys env) pkg = Some m" "login_message m uid password"
    and s: "saves_as (se_sys env) w j b" and on: "find_player_idx_by_uid uid w = j"
    and i: "cd_player_idx cd = i" "i \<in> players w" "i \<noteq> j" "the_player w i = p"
  shows "\<exists>t e1 w1 l1. lua_handle_cs (script_sys env) pkg (A_Conn cd) (e, w, l) = Inr (0, e1, w1, l1) \<and>
    gout w1 = saved_twice (se_sys env) (save_req (word_of_int t) j (p_uid (the_player w j)) b)
      (also_sent (gout w) (sent_conn (se_sys env) kick_off CONN_STOP (p_conn_fd (the_player w j)) j)) \<and>
    (\<forall>ans args. answers (se_sys env) ans kSetPlayerDataRes t 0 \<longrightarrow>
      (\<exists>e2 w2 l2 e3 w3 l3. lua_handle_ss (script_sys env) ans args (e1, w1, l1) = Inr (0, e2, w2, l2) \<and> players w2 = players w - {j} \<and>
        gout w2 = also_sent (gout w1) (sent_data (se_sys env) (get_player_data_req (word_of_int t) i uid (fnv64a_hash password))) \<and>
        lua_handle_ss (script_sys env) ans args (e2, w2, l2) = Inr (0, e3, w3, l3) \<and> find_task t e3 = 0 \<and> p_uid (the_player w3 i) = uid \<and>
        gout w3 = also_sent (also_sent (gout w2) (sent_conn (se_sys env) (login_ok (cs_seq m)) CONN_START (p_conn_fd p) i))
          (sent_conn (se_sys env) (role_info_ntf \<lparr>ri_money = p_money p, ri_level = p_level p\<rparr>) CONN_PROC (p_conn_fd p) i)))"
proof -
  let ?v = "\<lambda>t. \<lparr>lv_task_id = word_of_int t, lv_uid = uid, lv_password_hash = fnv64a_hash password, lv_seq = cs_seq m, lv_player = i, lv_res_cmd = kLoginRes\<rparr>"
  note st = login_online [OF s i(2) on]
  obtain t e1 w1 l1 where c: "lua_handle_cs (script_sys env) pkg (A_Conn cd) (e, w, l) = Inr (0, e1, w1, l1)"
    "scripts_ok e1 l1" "waiting t (K_Login_Save (?v t) j j) e1 l1"
    "w1 = w\<lparr>gout := saved_twice (se_sys env) (save_req (word_of_int t) j (p_uid (the_player w j)) b)
      (also_sent (gout w) (sent_conn (se_sys env) kick_off CONN_STOP (p_conn_fd (the_player w j)) j))\<rparr>"
    by (rule login_script_starts [OF ok room l m st [folded i(1)]]) (simp add: that i(1))
  have s1: "saves_as (se_sys env) w1 j b" unfolding c(4) by (rule saves_as_gout [OF s])
  then have inv1: "obj_inv w1" and j1: "j \<in> players w1" by (simp_all add: saves_as_def)
  obtain pp cp where d: "del_player j w1 = Inr ((erase_uid_to_player_idx (p_uid (the_player w1 j)) j w1)\<lparr>player_pool := pp, city_pool := cp\<rparr>)"
    "pool_mem pp = pool_mem (player_pool w1)"
    by (rule del_player_ok [OF inv1 j1]) blast
  let ?w' = "(erase_uid_to_player_idx (p_uid (the_player w1 j)) j w1)\<lparr>player_pool := pp, city_pool := cp\<rparr>"
  note del = deleted_player [OF inv1 j1 d(1)]
  have i': "i \<in> players ?w'" using del(4) i(2,3) c(4) by simp
  have p': "the_player ?w' i = p" using d(2) i(4) c(4) by simp
  have pinv: "pool_inv (player_pool ?w')" using del(3) by (simp only: obj_inv_def)
  let ?w2 = "?w'\<lparr>gout := also_sent (gout w1) (sent_data (se_sys env) (get_player_data_req (word_of_int t) i uid (fnv64a_hash password)))\<rparr>"
  have load: "script_step env (K_Login_Save (?v t) j j) [LV_Num 0] w1 = Inr (S_Yield (K_Login_Data (?v t)), ?w2)"
    using d(1) used_get(3) [OF pinv i'] del(5)
    by (simp add: login_save_resume_def is_zero_def login_load_def do_get_player_data_def send_data_eq get_player_data_req_def also_sent_def)
  have inv2: "obj_inv ?w2" using del(3) obj_inv_cong [of ?w2 ?w'] by simp
  have i2: "i \<in> players ?w2" "the_player ?w2 i = p" using i' p' by simp_all
  have v: "lv_player (?v t) = i" by simp
  obtain w3 where fin: "script_step env (K_Login_Data (?v t)) [LV_Num 0] ?w2 = Inr (S_Return, w3)" "p_uid (the_player w3 i) = lv_uid (?v t)"
    "gout w3 = also_sent (also_sent (gout ?w2) (sent_conn (se_sys env) (login_ok (lv_seq (?v t))) CONN_START (p_conn_fd (the_player ?w2 i)) i))
      (sent_conn (se_sys env) (role_info_ntf \<lparr>ri_money = p_money (the_player ?w2 i), ri_level = p_level (the_player ?w2 i)\<rparr>) CONN_PROC
        (p_conn_fd (the_player ?w2 i)) i)"
    by (rule login_ends [OF inv2 v i2(1)])
  have "\<exists>e2 w2 l2 e3 w3 l3. lua_handle_ss (script_sys env) ans args (e1, w1, l1) = Inr (0, e2, w2, l2) \<and> players w2 = players w - {j} \<and>
        gout w2 = also_sent (gout w1) (sent_data (se_sys env) (get_player_data_req (word_of_int t) i uid (fnv64a_hash password))) \<and>
        lua_handle_ss (script_sys env) ans args (e2, w2, l2) = Inr (0, e3, w3, l3) \<and> find_task t e3 = 0 \<and> p_uid (the_player w3 i) = uid \<and>
        gout w3 = also_sent (also_sent (gout w2) (sent_conn (se_sys env) (login_ok (cs_seq m)) CONN_START (p_conn_fd p) i))
          (sent_conn (se_sys env) (role_info_ntf \<lparr>ri_money = p_money p, ri_level = p_level p\<rparr>) CONN_PROC (p_conn_fd p) i)"
    if a: "answers (se_sys env) ans kSetPlayerDataRes t 0" for ans args
  proof -
    have cmd: "kSetPlayerDataRes \<in> {kAccountRegRes, kSetPlayerDataRes}" by simp
    obtain e2 l2 where h2: "lua_handle_ss (script_sys env) ans args (e1, w1, l1) = Inr (0, e2, ?w2, l2)" "scripts_ok e2 l2"
      "waiting t (K_Login_Data (?v t)) e2 l2"
      using answered(2) [OF c(2,3) a cmd load] by blast
    obtain e3 l3 where h3: "lua_handle_ss (script_sys env) ans args (e2, ?w2, l2) = Inr (0, e3, w3, l3)" "find_task t e3 = 0"
      using answered(3) [OF h2(2,3) a cmd fin(1)] by blast
    have "players ?w2 = players w - {j}" using del(4) c(4) by simp
    then show ?thesis using h2(1) h3 fin(2,3) i2(2)
      by (intro exI [of _ e2] exI [of _ ?w2] exI [of _ l2] exI [of _ e3] exI [of _ w3] exI [of _ l3]) simp
  qed
  then show ?thesis using c(1,4) by (intro exI [of _ t] exI [of _ e1] exI [of _ w1] exI [of _ l1]) simp
qed

text \<open>Another player beside it, new and with nothing loaded.\<close>

lemma takeover_example:
  assumes ser: "gs_ser_pd sys = gs_ser_pd quiet_sys"
  obtains i j w where "saves_as sys w j []" "find_player_idx_by_uid 1234567 w = j" "i \<in> players w" "i \<noteq> j" "the_player w i = player_zero"
proof -
  note e = empty_game_inv
  have r1: "card (players empty_game) < nat (total_unit_count (player_pool empty_game))" using e by simp
  obtain j w1 where a: "obj_inv w1" "players w1 = insert j (players empty_game)" "w1 = empty_game\<lparr>player_pool := player_pool w1\<rparr>"
    "total_unit_count (player_pool w1) = total_unit_count (player_pool empty_game)"
    by (rule add_player_ok [OF e(1) r1])
  have r2: "card (players w1) < nat (total_unit_count (player_pool w1))" using e a(2,4) by simp
  obtain i w2 where b: "obj_inv w2" "i \<notin> players w1" "players w2 = insert i (players w1)" "the_player w2 i = player_zero"
    "w2 = w1\<lparr>player_pool := player_pool w2\<rparr>"
    by (rule add_player_ok [OF a(1) r2])
  have "uid_to_player_idx_map w1 = []" by (subst a(3)) (simp add: empty_game_def)
  then have "uid_to_player_idx_map w2 = []" by (subst b(5)) simp
  then have "find_player_idx_by_uid 1234567 (bind_uid_to_player_idx 1234567 j w2) = j"
    by (simp add: find_player_idx_by_uid_def bind_uid_to_player_idx_def smap_insert_def)
  moreover have "saves_as sys (bind_uid_to_player_idx 1234567 j w2) j []"
    using b(1,3) a(2) ser by (simp add: saves_as_def quiet_sys_def)
  ultimately show thesis using that [of "bind_uid_to_player_idx 1234567 j w2" j i] a(2) b(2-4) by auto
qed

theorem lua_takeover_early_witness:
  "\<exists>i w t e1 w1 l1 e2 w2 l2 e3 w3 l3. lua_handle_cs (script_sys (script_example login_again (ss_empty\<lparr>ss_cmd := kSetPlayerDataRes\<rparr>))) []
       (A_Conn \<lparr>cd_conn_fd = 7, cd_player_idx = i, cd_conn_cmd = 2\<rparr>) (lua_started, w, scripts_loaded) = Inr (0, e1, w1, l1) \<and>
     lua_handle_ss (script_sys (script_example login_again (ss_empty\<lparr>ss_cmd := kSetPlayerDataRes\<rparr>))) (to_string_u64 (word_of_int t))
       A_Null (e1, w1, l1) = Inr (0, e2, w2, l2) \<and>
     lua_handle_ss (script_sys (script_example login_again (ss_empty\<lparr>ss_cmd := kSetPlayerDataRes\<rparr>))) (to_string_u64 (word_of_int t))
       A_Null (e2, w2, l2) = Inr (0, e3, w3, l3) \<and>
     gout w3 = also_sent (also_sent (gout w2) (sent_conn (digit_sys login_again (ss_empty\<lparr>ss_cmd := kSetPlayerDataRes\<rparr>)) (login_ok 5) CONN_START 0 i))
       (sent_conn (digit_sys login_again (ss_empty\<lparr>ss_cmd := kSetPlayerDataRes\<rparr>)) (role_info_ntf \<lparr>ri_money = 0, ri_level = 0\<rparr>) CONN_PROC 0 i)"
proof -
  let ?r = "ss_empty\<lparr>ss_cmd := kSetPlayerDataRes\<rparr>"
  let ?env = "script_example login_again ?r" and ?cd = "\<lambda>i. \<lparr>cd_conn_fd = 7, cd_player_idx = i, cd_conn_cmd = 2\<rparr>"
  have ser: "gs_ser_pd (se_sys ?env) = gs_ser_pd quiet_sys" by (simp add: digit_sys_def)
  obtain i j w where w: "saves_as (se_sys ?env) w j []" "find_player_idx_by_uid 1234567 w = j" "i \<in> players w" "i \<noteq> j"
    "the_player w i = player_zero" by (rule takeover_example [OF ser])
  have m: "gs_parse_cs (se_sys ?env) [] = Some login_again" by (simp add: digit_sys_def)
  have cd: "cd_player_idx (?cd i) = i" by simp
  from lua_takeover_early [OF started_scripts m login_again_message w(1,2) cd w(3-5)]
  obtain t e1 w1 l1 where h: "lua_handle_cs (script_sys ?env) [] (A_Conn (?cd i)) (lua_started, w, scripts_loaded) = Inr (0, e1, w1, l1)"
    "\<forall>ans args. answers (se_sys ?env) ans kSetPlayerDataRes t 0 \<longrightarrow>
      (\<exists>e2 w2 l2 e3 w3 l3. lua_handle_ss (script_sys ?env) ans args (e1, w1, l1) = Inr (0, e2, w2, l2) \<and>
        lua_handle_ss (script_sys ?env) ans args (e2, w2, l2) = Inr (0, e3, w3, l3) \<and>
        gout w3 = also_sent (also_sent (gout w2) (sent_conn (se_sys ?env) (login_ok (cs_seq login_again)) CONN_START (p_conn_fd player_zero) i))
          (sent_conn (se_sys ?env) (role_info_ntf \<lparr>ri_money = p_money player_zero, ri_level = p_level player_zero\<rparr>) CONN_PROC (p_conn_fd player_zero) i))"
    by metis
  have "answers (se_sys ?env) (to_string_u64 (word_of_int t)) kSetPlayerDataRes t 0"
    unfolding script_example_sys by (rule digit_answers) (simp_all add: ss_empty_def)
  moreover have "cs_seq login_again = 5" "p_conn_fd player_zero = 0" "p_money player_zero = 0" "p_level player_zero = 0"
    by (simp_all add: login_again_def example_login_def player_zero_def)
  ultimately show ?thesis using h unfolding script_example_sys by metis
qed

section \<open>The old player that cannot be saved\<close>

text \<open>Answers of datasvr and passes of \<open>LuaEngine::Run\<close> one after the other.\<close>

datatype lua_event = Answer bytes | Pass time_value

fun lua_happens :: "'l lua_game_sys \<Rightarrow> lua_event list \<Rightarrow> 'l lua_state \<Rightarrow> 'l lua_state res option" where
  "lua_happens sys [] s = Some (Inr s)"
| "lua_happens sys (Answer pkg # evs) s =
     (case lua_handle_ss sys pkg A_Null s of Inl err \<Rightarrow> Some (Inl err) | Inr (_, s1) \<Rightarrow> lua_happens sys evs s1)"
| "lua_happens sys (Pass now # evs) (e, x) =
     (case lua_run now e of None \<Rightarrow> None | Some (Inl err) \<Rightarrow> Some (Inl err) | Some (Inr e1) \<Rightarrow> lua_happens sys evs (e1, x))"

lemma lua_run_idle:
  assumes inv: "lua_inv e" and idle: "due (le_timer e) now = {}"
  shows "lua_run now e = Some (Inr e)"
proof -
  have "timer_poll lua_on_timer now (le_timer e) e = Some (Inr (le_timer e, e))"
    by (subst timer_poll.simps) (simp add: poll_step_idle [OF lua_invD(1) [OF inv] idle])
  then show ?thesis by (simp add: lua_run_def)
qed

lemma lua_happens_append:
  "lua_happens sys evs s = Some (Inr s1) \<Longrightarrow> lua_happens sys (evs @ evs') s = lua_happens sys evs' s1"
  by (induction sys evs s rule: lua_happens.induct) (auto split: sum.splits option.splits)

text \<open>What keeps a login at the old player: a failed save, and a pass at which no task is due.\<close>

definition keeps_kicking :: "script_env \<Rightarrow> int \<Rightarrow> lua_engine \<Rightarrow> lua_event \<Rightarrow> bool" where
  "keeps_kicking env t e ev =
     (case ev of
        Answer pkg \<Rightarrow> \<exists>ret. ret \<noteq> 0 \<and> answers (se_sys env) pkg kSetPlayerDataRes t ret
      | Pass now \<Rightarrow> due (le_timer e) now = {})"

definition is_answer :: "lua_event \<Rightarrow> bool" where
  "is_answer ev = (case ev of Answer pkg \<Rightarrow> True | Pass now \<Rightarrow> False)"

lemma kick_goes_on:
  assumes ok: "scripts_ok e l" and k: "waiting t (K_Login_Save v idx j) e l" and s: "saves_as (se_sys env) w j b"
    and evs: "\<forall>ev\<in>set evs. keeps_kicking env t e ev"
  obtains l' where "lua_happens (script_sys env) evs (e, w, l) =
      Some (Inr (e, w\<lparr>gout := (saved_twice (se_sys env) (save_req (lv_task_id v) j (p_uid (the_player w j)) b) ^^
        length (filter is_answer evs)) (gout w)\<rparr>, l'))" "scripts_ok e l'" "waiting t (K_Login_Save v idx j) e l'"
  using assms
proof (induction evs arbitrary: w l thesis)
  case Nil
  then show ?case by simp
next
  case (Cons ev evs)
  let ?f = "saved_twice (se_sys env) (save_req (lv_task_id v) j (p_uid (the_player w j)) b)"
  have evs: "\<forall>ev\<in>set evs. keeps_kicking env t e ev" and ev: "keeps_kicking env t e ev" using Cons.prems(5) by simp_all
  show ?case
  proof (cases ev)
    case (Answer pkg)
    obtain ret where a: "ret \<noteq> 0" "answers (se_sys env) pkg kSetPlayerDataRes t ret" using ev Answer by (auto simp: keeps_kicking_def)
    have st: "script_step env (K_Login_Save v idx j) [LV_Num ret] w = Inr (S_Yield (K_Login_Save v idx j), w\<lparr>gout := ?f (gout w)\<rparr>)"
      using save_round [OF Cons.prems(4)] a(1) by (simp add: login_save_resume_def is_zero_def)
    have cmd: "kSetPlayerDataRes \<in> {kAccountRegRes, kSetPlayerDataRes}" by simp
    obtain l1 where h: "lua_handle_ss (script_sys env) pkg A_Null (e, w, l) = Inr (0, e, w\<lparr>gout := ?f (gout w)\<rparr>, l1)" "scripts_ok e l1"
      "waiting t (K_Login_Save v idx j) e l1"
      by (rule answered_waiting [OF Cons.prems(2,3) a(2) cmd st])
    show ?thesis
      by (rule Cons.IH [OF _ h(2,3) saves_as_gout [OF Cons.prems(4)] evs])
        (rule Cons.prems(1), simp_all add: Answer h(1) is_answer_def funpow_swap1)
  next
    case (Pass now)
    have "lua_run now e = Some (Inr e)"
      by (rule lua_run_idle) (use Cons.prems(2) ev Pass in \<open>simp_all add: scripts_ok_def keeps_kicking_def\<close>)
    then show ?thesis
      using Cons.IH [OF _ Cons.prems(2-4) evs] Cons.prems(1) Pass by (auto simp: is_answer_def)
  qed
qed

text \<open>C20: A login over an account whose save fails is ended by nothing but the time-out of its task: the counter
  that should end the loop after five rounds is not counted up. After any number of failed saves, with passes of
  \<open>LuaEngine::Run\<close> in between at which no task is due, the script still waits and has sent two more saves
  for each failure; and the first pass from the expiry of its timer on (10 s after \<open>CreateTask("login", 10)\<close>) does not
  end the login but the server, with a fault.\<close>

theorem lua_kick_until_timeout:
  assumes ok: "scripts_ok e l" and k: "waiting t (K_Login_Save v idx j) e l" and s: "saves_as (se_sys env) w j b"
    and evs: "\<forall>ev\<in>set evs. keeps_kicking env t e ev"
  shows "\<exists>w' l' a. lua_happens (script_sys env) evs (e, w, l) = Some (Inr (e, w', l')) \<and>
    waiting t (K_Login_Save v idx j) e l' \<and>
    w' = w\<lparr>gout := (saved_twice (se_sys env) (save_req (lv_task_id v) j (p_uid (the_player w j)) b) ^^
      length (filter is_answer evs)) (gout w)\<rparr> \<and>
    a \<in> live (le_timer e) \<and> timer_id (the (nodes (le_timer e) a)) = t \<and>
    (\<forall>now. expire_time (the (nodes (le_timer e) a)) \<le> now \<longrightarrow>
       lua_happens (script_sys env) (evs @ [Pass now]) (e, w, l) = Some (Inl Dangling))"
proof -
  have inv: "lua_inv e" and t: "find_task t e \<noteq> 0" using ok k by (simp_all add: scripts_ok_def waiting_def)
  obtain a where a: "a \<in> live (le_timer e)" "timer_id (the (nodes (le_timer e) a)) = t"
    using lua_invD(3) [OF inv t] pending_of_None [OF lua_invD(1) [OF inv], of t] by auto
  have late: "lua_run now e = Some (Inl Dangling)" if "expire_time (the (nodes (le_timer e) a)) \<le> now" for now
    by (rule lua_run_fails [OF inv, of a]) (use a t that in \<open>simp_all add: due_def\<close>)
  show ?thesis
    by (rule kick_goes_on [OF assms]) (use a late in \<open>fastforce simp: lua_happens_append\<close>)
qed

lemma saved_twice_length: "gs_send_data sys = gs_send_data quiet_sys \<Longrightarrow> gs_ser_ss sys = gs_ser_ss quiet_sys \<Longrightarrow>
    length ((saved_twice sys m ^^ n) es) = length es + 2 * n"
  by (induction n) (simp_all add: saved_twice_def also_sent_def sent_data_def quiet_sys_def)

lemma before_all:
  assumes "finite (S :: time_value set)"
  obtains now where "\<forall>x\<in>S. \<not> x \<le> now"
proof (cases "S = {}")
  case False
  have "TimeValue (tv_sec (Min S) - 1) 0 < Min S" by (simp add: less_time_value_def tv_gt_def)
  then have "\<forall>x\<in>S. \<not> x \<le> TimeValue (tv_sec (Min S) - 1) 0" using assms Min_le by (metis leD order_trans)
  then show thesis by (rule that)
qed (use that in blast)

theorem lua_kick_until_timeout_witness:
  "\<exists>j t e w e' w' l' early late. lua_happens (script_sys (script_example login_again (ss_empty\<lparr>ss_cmd := kSetPlayerDataRes, ss_ret := - 1\<rparr>)))
       (Pass early # replicate 7 (Answer (to_string_u64 (word_of_int t)))) (e, w, thread_at (K_Login_Save \<lparr>lv_task_id = word_of_int t, lv_uid = 1234567,
         lv_password_hash = 0, lv_seq = 5, lv_player = 2, lv_res_cmd = kLoginRes\<rparr> j j)) = Some (Inr (e', w', l')) \<and>
     find_task t e' \<noteq> 0 \<and> length (gout w') = 14 \<and>
     lua_happens (script_sys (script_example login_again (ss_empty\<lparr>ss_cmd := kSetPlayerDataRes, ss_ret := - 1\<rparr>)))
       ((Pass early # replicate 7 (Answer (to_string_u64 (word_of_int t)))) @ [Pass late]) (e, w, thread_at (K_Login_Save \<lparr>lv_task_id = word_of_int t, lv_uid = 1234567,
         lv_password_hash = 0, lv_seq = 5, lv_player = 2, lv_res_cmd = kLoginRes\<rparr> j j)) = Some (Inl Dangling)"
proof -
  let ?r = "ss_empty\<lparr>ss_cmd := kSetPlayerDataRes, ss_ret := - 1\<rparr>"
  let ?env = "script_example login_again ?r"
  let ?v = "\<lambda>t. \<lparr>lv_task_id = word_of_int t, lv_uid = 1234567, lv_password_hash = 0, lv_seq = 5, lv_player = 2, lv_res_cmd = kLoginRes\<rparr>"
  have ser: "gs_ser_pd (se_sys ?env) = gs_ser_pd quiet_sys" by (simp add: digit_sys_def)
  obtain j w where w: "saves_as (se_sys ?env) w j []" "gout w = []" by (rule online_example [OF ser])
  obtain t e where "\<forall>k. scripts_ok e (thread_at k) \<and> waiting t k e (thread_at k)" by (rule waiting_example)
  then have k: "scripts_ok e (thread_at (K_Login_Save (?v t) j j))" "waiting t (K_Login_Save (?v t) j j) e (thread_at (K_Login_Save (?v t) j j))"
    by simp_all
  have fin: "finite ((\<lambda>a. expire_time (the (nodes (le_timer e) a))) ` live (le_timer e))" by simp
  obtain early where "\<forall>x\<in>(\<lambda>a. expire_time (the (nodes (le_timer e) a))) ` live (le_timer e). \<not> x \<le> early" by (rule before_all [OF fin])
  then have early: "due (le_timer e) early = {}" by (simp add: due_def)
  let ?evs = "Pass early # replicate 7 (Answer (to_string_u64 (word_of_int t)))"
  have a: "answers (se_sys ?env) (to_string_u64 (word_of_int t)) kSetPlayerDataRes t (- 1)"
    unfolding script_example_sys by (rule digit_answers) (simp_all add: ss_empty_def)
  have "keeps_kicking ?env t e (Answer (to_string_u64 (word_of_int t)))"
    unfolding keeps_kicking_def lua_event.case by (rule exI [of _ "- 1"]) (use a in simp)
  then have evs: "\<forall>ev\<in>set ?evs. keeps_kicking ?env t e ev" using early by (simp add: keeps_kicking_def)
  have n: "length (filter is_answer ?evs) = 7" by (simp add: is_answer_def)
  obtain w' l' x where h: "lua_happens (script_sys ?env) ?evs (e, w, thread_at (K_Login_Save (?v t) j j)) = Some (Inr (e, w', l'))"
    "gout w' = (saved_twice (se_sys ?env) (save_req (lv_task_id (?v t)) j (p_uid (the_player w j)) []) ^^ 7) (gout w)"
    "lua_happens (script_sys ?env) (?evs @ [Pass (expire_time (the (nodes (le_timer e) x)))]) (e, w, thread_at (K_Login_Save (?v t) j j)) =
      Some (Inl Dangling)"
    using lua_kick_until_timeout [OF k w(1) evs] unfolding n by fastforce
  have "gs_send_data (se_sys ?env) = gs_send_data quiet_sys" "gs_ser_ss (se_sys ?env) = gs_ser_ss quiet_sys" by (simp_all add: digit_sys_def)
  then have "length (gout w') = 14" unfolding h(2) by (simp add: saved_twice_length w(2))
  moreover have "find_task t e \<noteq> 0" using k(2) by (simp add: waiting_def)
  ultimately show ?thesis using h(1,3) by blast
qed

section \<open>A thread that is collected\<close>

text \<open>Another registration or login may cost a waiting task its thread: the collector runs when the new thread is
  created, and the answer that resumes the old task uses freed memory.\<close>

theorem lua_collected_task:
  assumes ok: "scripts_ok e l" and k: "waiting t k e l" and room: "heap_size (le_timer e) < 1073741824"
    and l: "ls_loaded l" "0 < ls_next l" "f \<in> {lua_txt ''quick_reg'', lua_txt ''normal_reg'', lua_txt ''login''}"
    and freed: "find_task t e \<in> set (garbage env 0 l)"
    and ans: "answers (se_sys env) pkg cmd t ret" "cmd \<in> {kAccountRegRes, kSetPlayerDataRes}"
  shows "\<exists>i e1 l1. create_task (lg_lua (script_sys env)) f 10 (e, w, l) = Inr (i, e1, w, l1) \<and> 0 < i \<and>
    lua_handle_ss (script_sys env) pkg args (e1, w, l1) = Inl Dangling"
proof -
  obtain i e1 l1 where c: "create_task (lg_lua (script_sys env)) f 10 (e, w, l) = Inr (i, e1, w, l1)" "0 < i" "scripts_ok e1 l1"
    "find_task i e = 0" "\<forall>j. j \<noteq> i \<longrightarrow> find_task j e1 = find_task j e" "set (ls_freed l1) = set (garbage env 0 l) \<union> set (ls_freed l)"
    by (rule start_script [OF ok room l]) blast
  have "find_task t e \<noteq> 0" using k by (simp add: waiting_def)
  moreover from this have "t \<noteq> i" using c(4) by blast
  ultimately have t: "lua_inv e1" "find_task t e1 \<noteq> 0" "find_task t e1 \<in> set (ls_freed l1)"
    using c(3,5,6) freed by (simp_all add: scripts_ok_def)
  have "lua_handle_ss (script_sys env) pkg args (e1, w, l1) = Inl Dangling"
    using answer_resumes [of e1 t "script_sys env" pkg cmd ret args "(w, l1)", OF t(1,2) _ ans(2)] ans(1) resume_freed [OF t] by simp
  then show ?thesis using c(1,2) by blast
qed

theorem lua_collected_task_witness:
  "\<exists>t e l i e1 l1 w. waiting t (K_Login_Data v) e l \<and>
     create_task (lg_lua (script_sys ((script_example cs_empty (ss_empty\<lparr>ss_cmd := kSetPlayerDataRes\<rparr>))\<lparr>se_garbage := \<lambda>cos _. cos\<rparr>)))
       (lua_txt ''login'') 10 (e, w, l) = Inr (i, e1, w, l1) \<and>
     lua_handle_ss (script_sys ((script_example cs_empty (ss_empty\<lparr>ss_cmd := kSetPlayerDataRes\<rparr>))\<lparr>se_garbage := \<lambda>cos _. cos\<rparr>))
       (to_string_u64 (word_of_int t)) A_Null (e1, w, l1) = Inl Dangling"
proof -
  let ?env = "(script_example cs_empty (ss_empty\<lparr>ss_cmd := kSetPlayerDataRes\<rparr>))\<lparr>se_garbage := \<lambda>cos _. cos\<rparr>"
  let ?l = "(thread_at (K_Login_Data v))\<lparr>ls_next := 10\<rparr>"
  obtain t e where e: "lua_inv e" "find_task t e = 9" "heap_size (le_timer e) < 1073741824" by (rule lua_task_example) blast
  have s: "scripts_ok e ?l" "waiting t (K_Login_Data v) e ?l" "ls_loaded ?l" "0 < ls_next ?l" "lua_txt ''login'' \<in> {lua_txt ''quick_reg'', lua_txt ''normal_reg'', lua_txt ''login''}"
    "find_task t e \<in> set (garbage ?env 0 ?l)"
    using e(1,2) by (simp_all add: thread_at_def scripts_loaded_def scripts_ok_def machine_ok_def waiting_def smap_ok_def garbage_def)
  have "se_sys ?env = digit_sys cs_empty (ss_empty\<lparr>ss_cmd := kSetPlayerDataRes\<rparr>)" by simp
  then have a: "answers (se_sys ?env) (to_string_u64 (word_of_int t)) kSetPlayerDataRes t 0"
    by (simp only:) (rule digit_answers, simp_all add: ss_empty_def)
  have cmd: "kSetPlayerDataRes \<in> {kAccountRegRes, kSetPlayerDataRes}" by simp
  obtain i e1 l1 where "create_task (lg_lua (script_sys ?env)) (lua_txt ''login'') 10 (e, w, ?l) = Inr (i, e1, w, l1)"
    "lua_handle_ss (script_sys ?env) (to_string_u64 (word_of_int t)) A_Null (e1, w, l1) = Inl Dangling"
    using lua_collected_task [OF s(1,2) e(3) s(3-6) a cmd] by metis
  then show ?thesis using s(2) by metis
qed

end
