(* ===== verification/Lua_Run.thy ===== *)
theory Lua_Run
  imports Game_Run Lua_Script_Props
begin

text \<open>
  The whole pass of the server with Lua scripts: whatever connsvr and datasvr send and whatever the collector
  frees, a pass of the main loop that returns keeps the players and their cities consistent, and each task has a
  thread of its own, whose script waits unless the collector has freed it. A script that outlives its player
  faults before it writes.
\<close>

section \<open>The steps of the scripts\<close>

text \<open>The pointers that a script keeps are not \<open>nil\<close>.\<close>

fun point_ok :: "script_point \<Rightarrow> bool" where
  "point_ok (K_Function f) = True"
| "point_ok (K_Quick_Reg i v uid password) \<longleftrightarrow> 0 < rv_player v"
| "point_ok (K_Normal_Reg v account password) \<longleftrightarrow> 0 < rv_player v"
| "point_ok (K_Login_Save v idx ptr) \<longleftrightarrow> 0 < lv_player v"
| "point_ok (K_Login_Data v) \<longleftrightarrow> 0 < lv_player v"

fun end_ok :: "script_end \<Rightarrow> bool" where
  "end_ok (S_Yield k) = point_ok k"
| "end_ok S_Return = True"
| "end_ok S_Error = True"

definition keeps_objects :: "gamesvr \<Rightarrow> (script_end \<times> gamesvr) res \<Rightarrow> bool" where
  "keeps_objects w r \<longleftrightarrow> (\<forall>s w'. r = Inr (s, w') \<longrightarrow> obj_inv w \<longrightarrow> obj_inv w' \<and> end_ok s)"

lemma keeps_simps [simp]: "keeps_objects w (Inl err)" "keeps_objects w (Inr (s, w)) \<longleftrightarrow> (obj_inv w \<longrightarrow> end_ok s)"
  by (auto simp: keeps_objects_def)

lemma keeps_rbind: "(\<And>x. r = Inr x \<Longrightarrow> keeps_objects w (f x)) \<Longrightarrow> keeps_objects w (rbind r f)"
  by (cases r) auto

lemma keeps_case:
  "(x = None \<Longrightarrow> keeps_objects w a) \<Longrightarrow> (\<And>y. x = Some y \<Longrightarrow> keeps_objects w (f y)) \<Longrightarrow>
   keeps_objects w (case x of None \<Rightarrow> a | Some y \<Rightarrow> f y)"
  by (cases x) auto

lemma keeps_if: "(b \<Longrightarrow> keeps_objects w x) \<Longrightarrow> (\<not> b \<Longrightarrow> keeps_objects w y) \<Longrightarrow> keeps_objects w (if b then x else y)"
  by simp

text \<open>A stretch that ends with a message.\<close>

lemma keeps_ends:
  assumes "\<And>w'. r = Inr w' \<Longrightarrow> same_objects w w'" and "obj_inv w \<Longrightarrow> end_ok s"
  shows "keeps_objects w (ends s r)"
  using assms obj_step_objects by (fastforce simp: keeps_objects_def ends_eq_Inr_iff obj_step_def)

text \<open>A stretch that sends first.\<close>

lemma keeps_after: "same_objects w w1 \<Longrightarrow> keeps_objects w1 r \<Longrightarrow> keeps_objects w r"
  using obj_step_objects [of w w1] by (auto simp: keeps_objects_def obj_step_def)

lemma keeps_under: "(obj_inv w \<Longrightarrow> keeps_objects w r) \<Longrightarrow> keeps_objects w r"
  by (simp add: keeps_objects_def)

lemma keeps_then: "(obj_inv w \<Longrightarrow> obj_inv w1) \<Longrightarrow> keeps_objects w1 r \<Longrightarrow> keeps_objects w r"
  by (simp add: keeps_objects_def)

lemma got_player: "get_player i w = Inr (Some ptr) \<Longrightarrow> obj_inv w \<Longrightarrow> 0 < ptr \<and> ptr \<in> players w"
  using get_player_Some [of w i ptr] by (simp add: pool_used_def)

lemma reg_keeps:
  "0 < rv_player v \<Longrightarrow> keeps_objects w (quick_reg_round env i v w)"
  "keeps_objects w (quick_reg env task_id seq player_idx cmd w)"
  "0 < rv_player v \<Longrightarrow> keeps_objects w (quick_reg_resume env i v uid password args w)"
  "keeps_objects w (normal_reg env task_id account password seq player_idx cmd w)"
  "keeps_objects w (normal_reg_resume env v account password args w)"
proof -
  show r: "0 < rv_player v \<Longrightarrow> keeps_objects w (quick_reg_round env i v w)" for v i w
    unfolding quick_reg_round_def Let_def by (rule keeps_ends) (auto dest: same_objects_rules)
  have "keeps_objects w (quick_reg_round env i v w)" if "get_player player_idx w = Inr (Some (rv_player v))" for v i
    by (rule keeps_under, rule r) (simp add: got_player [OF that])
  then show "keeps_objects w (quick_reg env task_id seq player_idx cmd w)"
    unfolding quick_reg_def by (intro keeps_rbind keeps_case) auto
  show "0 < rv_player v \<Longrightarrow> keeps_objects w (quick_reg_resume env i v uid password args w)"
    unfolding quick_reg_resume_def by (intro keeps_if keeps_ends r) (auto dest: same_objects_rules)
  show "keeps_objects w (normal_reg env task_id account password seq player_idx cmd w)"
    unfolding normal_reg_def Let_def
    by (intro keeps_rbind keeps_case keeps_if keeps_ends) (auto dest: same_objects_rules got_player)
  show "keeps_objects w (normal_reg_resume env v account password args w)"
    unfolding normal_reg_resume_def by (intro keeps_if keeps_ends) (auto dest: same_objects_rules)
qed

text \<open>A player that is in use, or no write: the pointer of a player that is gone fails a check.\<close>

lemma set_uid_used:
  assumes inv: "pool_inv (player_pool w)" and ptr: "0 < ptr" and set: "set_uid uid ptr w = Inr w'"
  shows "ptr \<in> players w"
proof -
  obtain pos where p: "rd (pool_pos (player_pool w)) ptr = Inr pos" "0 < pos"
    using set by (auto simp: set_uid_def get_player_idx_def pool_get_pos_def rbind_eq_Inr_iff)
  have "ptr < int (length (pool_pos (player_pool w))) \<and> pool_pos (player_pool w) ! nat ptr = pos"
    using p(1) by (auto simp: rd_def split: if_splits)
  then show ?thesis using ptr p(2) inv by (auto simp: pool_used_def pool_inv_def)
qed

lemma upd_keeps:
  assumes "obj_inv w" "i \<in> players w" "\<And>p. p_city_list (f p) = p_city_list p"
  shows "obj_inv (upd_player i f w)" "players (upd_player i f w) = players w"
  using upd_player_inv [of w i f] assms by simp_all

lemma login_keeps:
  "0 < lv_player v \<Longrightarrow> keeps_objects w (login_save_round env v idx ptr w)"
  "0 < lv_player v \<Longrightarrow> keeps_objects w (login_load env v w)"
  "keeps_objects w (login env task_id uid h seq player_idx cmd w)"
  "0 < lv_player v \<Longrightarrow> keeps_objects w (login_save_resume env v idx ptr args w)"
proof -
  show s: "0 < lv_player v \<Longrightarrow> keeps_objects w (login_save_round env v idx ptr w)" for w v idx ptr
    unfolding login_save_round_def
    by (rule keeps_rbind, rule keeps_after [OF sends_same_objects(2)], assumption, rule keeps_ends) (simp_all add: sends_same_objects(2))
  show l: "0 < lv_player v \<Longrightarrow> keeps_objects w (login_load env v w)" for w v
    unfolding login_load_def by (rule keeps_ends) (auto dest: same_objects_rules)
  have k: "keeps_objects w (login_save_round env v idx ptr w1)"
    if "get_player i w = Inr (Some (lv_player v))" "same_objects w w1" for i v idx ptr w1
    by (rule keeps_under, rule keeps_after [OF that(2)], rule s) (simp add: got_player [OF that(1)])
  have l2: "keeps_objects w (login_load env v w)" if "get_player i w = Inr (Some (lv_player v))" for i v
    by (rule keeps_under, rule l) (simp add: got_player [OF that])
  show "keeps_objects w (login env task_id uid h seq player_idx cmd w)"
    unfolding login_def Let_def
    by (intro keeps_rbind keeps_case keeps_if; (rule k l2)?) (auto dest: same_objects_rules)
  show "0 < lv_player v \<Longrightarrow> keeps_objects w (login_save_resume env v idx ptr args w)"
    unfolding login_save_resume_def
    by (rule keeps_if, rule keeps_rbind, rule keeps_then [OF del_player_objects], assumption+, rule l, assumption, rule s)
qed

lemma login_data_keeps:
  assumes ptr: "0 < lv_player v"
  shows "keeps_objects w (login_data_resume env v args w)"
proof (cases "is_zero args")
  case False
  then show ?thesis unfolding login_data_resume_def by (simp add: keeps_ends answers_same_objects(1))
next
  case True
  show ?thesis unfolding keeps_objects_def
  proof (intro allI impI)
    fix s w' assume run: "login_data_resume env v args w = Inr (s, w')" and inv: "obj_inv w"
    let ?i = "lv_player v"
    obtain w1 w2 w3 where r: "set_uid (lv_uid v) ?i w = Inr w1" "set_password_hash (lv_password_hash v) ?i w1 = Inr w2"
      "send_ok_cs_login_res (se_sys env) (lv_seq v) ?i w2 = Inr w3" "send_role_info_notify (se_sys env) ?i w3 = Inr w'" "s = S_Return"
      using run True by (auto simp: login_data_resume_def rbind_eq_Inr_iff ends_eq_Inr_iff)
    have pinv: "pool_inv (player_pool w)" using inv by (simp add: obj_inv_def)
    have i: "?i \<in> players w" by (rule set_uid_used [OF pinv ptr r(1)])
    let ?b = "bind_uid_to_player_idx (lv_uid v) ?i w"
    have w1: "w1 = upd_player ?i (\<lambda>p. p\<lparr>p_uid := lv_uid v\<rparr>) ?b" using r(1) setters(4) [OF pinv i] by simp
    have b: "obj_inv ?b" "?i \<in> players ?b" using inv i by simp_all
    have 1: "obj_inv w1" "?i \<in> players w1" unfolding w1 using upd_keeps [OF b] b(2) by simp_all
    have "w2 = upd_player ?i (\<lambda>p. p\<lparr>p_password_hash := lv_password_hash v\<rparr>) w1"
      using r(2) setters(2) [of w1 ?i] 1 by (simp add: obj_inv_def)
    then have 2: "obj_inv w2" using upd_keeps(1) [OF 1] by simp
    have "same_objects w2 w'" using answers_same_objects(4) [OF r(3)] answers_same_objects(5) [OF r(4)] same_objects_trans by blast
    then show "obj_inv w' \<and> end_ok s" using 2 r(5) obj_step_objects by (simp add: obj_step_def)
  qed
qed

lemma script_step_keeps: "point_ok k \<Longrightarrow> keeps_objects w (script_step env k args w)"
proof (cases k)
  case (K_Function f)
  have "keeps_objects w (script_call env f args w)"
    unfolding script_call_def by (auto intro: reg_keeps login_keeps split: list.split lua_value.split)
  then show ?thesis by (simp add: K_Function)
qed (simp_all add: reg_keeps login_keeps login_data_keeps)

section \<open>Tasks and scripts\<close>

text \<open>Every task has a thread of its own, every waiting script a task: \<open>f\<close> is the task table. The script of a task
  waits, or its thread was collected; \<open>spares\<close>: the collector frees no thread that waits, so that all of them do.\<close>

definition script_inv :: "bool \<Rightarrow> (int \<Rightarrow> nat) \<Rightarrow> script_state \<Rightarrow> bool" where
  "script_inv spares f l \<longleftrightarrow> machine_ok l \<and> 0 < ls_next l \<and>
     (\<forall>co k. map_of (ls_threads l) co = Some k \<longrightarrow> 0 < co \<and> co < ls_next l \<and> point_ok k \<and> (\<exists>i. f i = co)) \<and>
     (\<forall>i. f i \<noteq> 0 \<longrightarrow> map_of (ls_threads l) (f i) \<noteq> None \<or> \<not> spares \<and> f i \<in> set (ls_freed l)) \<and>
     (\<forall>i j. f i \<noteq> 0 \<longrightarrow> f i = f j \<longrightarrow> i = j)"

lemma script_invD:
  assumes "script_inv b f l"
  shows "machine_ok l" "0 < ls_next l" "map_of (ls_threads l) co = Some k \<Longrightarrow> 0 < co \<and> co < ls_next l \<and> point_ok k"
    "map_of (ls_threads l) co = Some k \<Longrightarrow> \<exists>i. f i = co"
    "f i \<noteq> 0 \<Longrightarrow> map_of (ls_threads l) (f i) = None \<Longrightarrow> \<not> b \<and> f i \<in> set (ls_freed l)"
    "f i \<noteq> 0 \<Longrightarrow> f i = f j \<Longrightarrow> i = j"
  using assms unfolding script_inv_def by blast+

lemma script_invI:
  assumes "machine_ok l" "0 < ls_next l"
    "\<And>co k. map_of (ls_threads l) co = Some k \<Longrightarrow> 0 < co \<and> co < ls_next l \<and> point_ok k \<and> (\<exists>i. f i = co)"
    "\<And>i. f i \<noteq> 0 \<Longrightarrow> map_of (ls_threads l) (f i) = None \<Longrightarrow> \<not> b \<and> f i \<in> set (ls_freed l)"
    "\<And>i j. f i \<noteq> 0 \<Longrightarrow> f i = f j \<Longrightarrow> i = j"
  shows "script_inv b f l"
  unfolding script_inv_def using assms by blast

lemma script_inv_collect:
  assumes inv: "script_inv (collector_spares env) f l"
  shows "script_inv (collector_spares env) f (collect env running l)"
proof -
  note d = script_invD [OF inv]
  have lost: "\<not> collector_spares env \<and> f i \<in> set (garbage env running l) \<union> set (ls_freed l)"
    if "f i \<noteq> 0" "f i \<in> set (garbage env running l) \<or> map_of (ls_threads l) (f i) = None" for i
  proof (cases "map_of (ls_threads l) (f i)")
    case None
    then show ?thesis using d(5) [OF that(1)] by simp
  next
    case (Some k)
    then show ?thesis using that(2) garbage_spares [OF _ Some] by auto
  qed
  show ?thesis
  proof (rule script_invI [OF collect_ok [OF d(1)]])
    fix co k assume "map_of (ls_threads (collect env running l)) co = Some k"
    then have "map_of (ls_threads l) co = Some k" by (simp split: if_splits)
    then show "0 < co \<and> co < ls_next (collect env running l) \<and> point_ok k \<and> (\<exists>i. f i = co)" using d(3,4) by simp
  next
    fix i assume i: "f i \<noteq> 0" "map_of (ls_threads (collect env running l)) (f i) = None"
    then have "f i \<in> set (garbage env running l) \<or> map_of (ls_threads l) (f i) = None" by (simp split: if_splits)
    then show "\<not> collector_spares env \<and> f i \<in> set (ls_freed (collect env running l))" using lost [OF i(1)] by simp
  qed (use d(2,6) in simp_all)
qed

lemma script_inv_less:
  assumes inv: "script_inv b f l"
  shows "f i < ls_next l"
proof (cases "f i = 0")
  case False
  note d = script_invD [OF inv]
  show ?thesis
  proof (cases "map_of (ls_threads l) (f i)")
    case None
    then show ?thesis using d(5) [OF False] machine_okD(2) [OF d(1)] by blast
  qed (use d(3) in blast)
qed (use script_invD(2) [OF inv] in simp)

lemma script_inv_yields:
  assumes inv: "script_inv b f l" and i: "f i \<noteq> 0" "f i \<notin> set (ls_freed l)" and k: "point_ok k"
  shows "script_inv b f (l\<lparr>ls_threads := smap_put (f i) k (ls_threads l)\<rparr>)"
proof -
  note d = script_invD [OF inv] and sm = machine_okD(1) [OF script_invD(1) [OF inv]]
  show ?thesis
  proof (rule script_invI)
    show "machine_ok (l\<lparr>ls_threads := smap_put (f i) k (ls_threads l)\<rparr>)" by (rule machine_puts [OF d(1) i(2)])
    fix co k' assume "map_of (ls_threads (l\<lparr>ls_threads := smap_put (f i) k (ls_threads l)\<rparr>)) co = Some k'"
    then show "0 < co \<and> co < ls_next (l\<lparr>ls_threads := smap_put (f i) k (ls_threads l)\<rparr>) \<and> point_ok k' \<and> (\<exists>i. f i = co)"
      using d(3,4) script_inv_less [OF inv, of i] i(1) k sm by (auto split: if_splits)
  qed (use d(2,5,6) sm in \<open>auto split: if_splits\<close>)
qed

lemma script_inv_ends:
  assumes "script_inv b f l" "f i \<noteq> 0"
  shows "script_inv b (f(i := 0)) (l\<lparr>ls_threads := smap_erase (f i) (ls_threads l)\<rparr>)"
proof -
  note d = script_invD [OF assms(1)]
  have "\<exists>j. j \<noteq> i \<and> f j = co" if "map_of (ls_threads l) co = Some k" "co \<noteq> f i" for co k using d(4) [OF that(1)] that(2) by metis
  note other = this
  show ?thesis
  proof (rule script_invI)
    show "machine_ok (l\<lparr>ls_threads := smap_erase (f i) (ls_threads l)\<rparr>)" by (rule machine_erases [OF d(1)])
    fix co k assume "map_of (ls_threads (l\<lparr>ls_threads := smap_erase (f i) (ls_threads l)\<rparr>)) co = Some k"
    then have "map_of (ls_threads l) co = Some k" "co \<noteq> f i" using machine_okD(1) [OF d(1)] by (simp_all split: if_splits)
    then show "0 < co \<and> co < ls_next (l\<lparr>ls_threads := smap_erase (f i) (ls_threads l)\<rparr>) \<and> point_ok k \<and> (\<exists>j. (f(i := 0)) j = co)"
      using d(3) other by fastforce
  next
    fix j assume "(f(i := 0)) j \<noteq> 0" "map_of (ls_threads (l\<lparr>ls_threads := smap_erase (f i) (ls_threads l)\<rparr>)) ((f(i := 0)) j) = None"
    then have "f j \<noteq> 0" "j \<noteq> i" "f j \<noteq> f i" "map_of (ls_threads l) (f j) = None"
      using d(6) [of j i] machine_okD(1) [OF d(1)] by (auto split: if_splits)
    then show "\<not> b \<and> (f(i := 0)) j \<in> set (ls_freed (l\<lparr>ls_threads := smap_erase (f i) (ls_threads l)\<rparr>))" using d(5) by simp
  next
    fix j j' assume "(f(i := 0)) j \<noteq> 0" "(f(i := 0)) j = (f(i := 0)) j'"
    then show "j = j'" using d(6) [of j j'] by (auto split: if_splits)
  qed (use d(2) in simp)
qed

lemma machine_skips: "machine_ok l \<Longrightarrow> machine_ok (l\<lparr>ls_next := ls_next l + 1\<rparr>)"
  unfolding machine_ok_def by (simp add: less_SucI)

lemma script_inv_starts:
  assumes inv: "script_inv b f l" and i: "f i = 0" and k: "point_ok k"
  shows "script_inv b (f(i := ls_next l)) (l\<lparr>ls_next := ls_next l + 1, ls_threads := smap_put (ls_next l) k (ls_threads l)\<rparr>)"
proof -
  note d = script_invD [OF inv] and less = script_inv_less [OF inv] and sm = machine_okD(1) [OF script_invD(1) [OF inv]]
  have "ls_next l \<notin> set (ls_freed l)" using machine_okD(2) [OF d(1), of "ls_next l"] by auto
  then have m: "machine_ok (l\<lparr>ls_next := ls_next l + 1, ls_threads := smap_put (ls_next l) k (ls_threads l)\<rparr>)"
    using machine_puts [OF machine_skips [OF d(1)], of "ls_next l" k] by simp
  have other: "\<exists>j. (f(i := ls_next l)) j = co" if "map_of (ls_threads l) co = Some k'" for co k'
    using d(3) [OF that] d(4) [OF that] i by (metis fun_upd_other less_numeral_extra(3))
  let ?l = "l\<lparr>ls_next := ls_next l + 1, ls_threads := smap_put (ls_next l) k (ls_threads l)\<rparr>"
  show ?thesis
  proof (rule script_invI [OF m])
    fix co k' assume "map_of (ls_threads ?l) co = Some k'"
    then have c: "(if co = ls_next l then Some k else map_of (ls_threads l) co) = Some k'" using sm by simp
    consider "co = ls_next l" "k' = k" | "map_of (ls_threads l) co = Some k'"
      by (cases "co = ls_next l") (use c in simp_all)
    then show "0 < co \<and> co < ls_next ?l \<and> point_ok k' \<and> (\<exists>j. (f(i := ls_next l)) j = co)"
    proof cases
      case 1
      have "(f(i := ls_next l)) i = co" by (simp add: 1)
      moreover have "0 < co \<and> co < ls_next ?l \<and> point_ok k'" using d(2) k by (simp add: 1)
      ultimately show ?thesis by blast
    next
      case 2
      have "0 < co \<and> co < ls_next ?l \<and> point_ok k'" using d(3) [OF 2] by simp
      then show ?thesis using other [OF 2] by blast
    qed
  next
    fix j assume "(f(i := ls_next l)) j \<noteq> 0" "map_of (ls_threads ?l) ((f(i := ls_next l)) j) = None"
    then show "\<not> b \<and> (f(i := ls_next l)) j \<in> set (ls_freed ?l)" using d(5) [of j] sm by (auto split: if_splits)
  next
    fix j j' assume "(f(i := ls_next l)) j \<noteq> 0" "(f(i := ls_next l)) j = (f(i := ls_next l)) j'"
    then show "j = j'" using d(6) [of j j'] less [of j] less [of j'] by (auto split: if_splits)
  qed (use d(2) in simp)
qed

lemma script_inv_skips: "script_inv b f l \<Longrightarrow> script_inv b f (l\<lparr>ls_next := ls_next l + 1\<rparr>)"
  by (rule script_invI) (use machine_skips [of l] script_invD [of b f l] in \<open>auto simp: less_Suc_eq\<close>)

definition lua_good :: "script_env \<Rightarrow> lua_engine \<times> gamesvr \<times> script_state \<Rightarrow> bool" where
  "lua_good env s \<longleftrightarrow> lua_inv (fst s) \<and> obj_inv (fst (snd s)) \<and>
     script_inv (collector_spares env) (\<lambda>i. find_task i (fst s)) (snd (snd s))"

lemma lua_good_simp [simp]:
  "lua_good env (e, w, l) \<longleftrightarrow> lua_inv e \<and> obj_inv w \<and> script_inv (collector_spares env) (\<lambda>i. find_task i e) l"
  by (simp add: lua_good_def)

lemma script_resume_keeps:
  assumes inv: "obj_inv w" "script_inv (collector_spares env) f l" "f i \<noteq> 0"
    and run: "script_resume env (f i) args (w, l) = Inr (ret, w', l')"
  shows "obj_inv w'" "script_inv (collector_spares env) (f(i := if ret = LUA_YIELD then f i else 0)) l'"
proof -
  let ?l = "collect env (f i) l"
  have inv': "script_inv (collector_spares env) f ?l" by (rule script_inv_collect [OF inv(2)])
  note d = script_invD [OF inv']
  have kept: "f i \<notin> set (ls_freed ?l)" using run by (auto simp: script_resume_def)
  then obtain k where k: "map_of (ls_threads ?l) (f i) = Some k" using d(5) [OF inv(3)] by (cases "map_of (ls_threads ?l) (f i)") auto
  have r0: "script_resume env (f i) args (w, l) = rbind (script_step env k args w) (\<lambda>(r, w1).
      case r of S_Yield k' \<Rightarrow> Inr (LUA_YIELD, w1, ?l\<lparr>ls_threads := smap_put (f i) k' (ls_threads ?l)\<rparr>)
      | S_Return \<Rightarrow> Inr (0, w1, ?l\<lparr>ls_threads := smap_erase (f i) (ls_threads ?l)\<rparr>)
      | S_Error \<Rightarrow> Inr (LUA_ERRRUN, w1, ?l\<lparr>ls_threads := smap_erase (f i) (ls_threads ?l)\<rparr>))"
    using kept k unfolding script_resume_def Let_def by (simp only: split_conv) simp
  obtain s w1 where st: "script_step env k args w = Inr (s, w1)" using run unfolding r0 by (auto elim: rbind_InrE)
  have s: "script_step env k args w = Inr (s, w')"
    and r: "(case s of S_Yield k' \<Rightarrow> (LUA_YIELD, ?l\<lparr>ls_threads := smap_put (f i) k' (ls_threads ?l)\<rparr>)
       | S_Return \<Rightarrow> (0, ?l\<lparr>ls_threads := smap_erase (f i) (ls_threads ?l)\<rparr>)
       | S_Error \<Rightarrow> (LUA_ERRRUN, ?l\<lparr>ls_threads := smap_erase (f i) (ls_threads ?l)\<rparr>)) = (ret, l')"
    using run st unfolding r0 by (cases s; simp)+
  have "point_ok k" using d(3) [OF k] by simp
  then have ok: "obj_inv w' \<and> end_ok s" using script_step_keeps [of k w env args] s inv(1) by (simp add: keeps_objects_def)
  then show "obj_inv w'" by simp
  show "script_inv (collector_spares env) (f(i := if ret = LUA_YIELD then f i else 0)) l'"
    using r ok script_inv_yields [OF inv' inv(3) kept] script_inv_ends [OF inv' inv(3)]
    by (auto simp: LUA_YIELD_def LUA_ERRRUN_def split: script_end.splits)
qed

lemma resume_good:
  assumes good: "lua_good env s" and run: "resume_task (lg_lua (script_sys env)) i args s = Inr s'"
  shows "lua_good env s'" "heap_size (le_timer (fst s')) = heap_size (le_timer (fst s))"
proof -
  obtain e w l where s: "s = (e, w, l)" by (metis prod_cases3)
  obtain e' x' where s': "s' = (e', x')" by (cases s')
  have inv: "lua_inv e" "obj_inv w" "script_inv (collector_spares env) (\<lambda>i. find_task i e) l" using good s by simp_all
  have run': "resume_task (lg_lua (script_sys env)) i args (e, w, l) = Inr (e', x')" using run s s' by simp
  show "heap_size (le_timer (fst s')) = heap_size (le_timer (fst s))"
    using resume_task_keeps(2) [OF inv(1) run'] s s' by simp
  obtain ret x1 where go: "find_task i e \<noteq> 0 \<Longrightarrow> lu_resume (lg_lua (script_sys env)) (find_task i e) args (w, l) = Inr (ret, x1)"
  proof (cases "lu_resume (lg_lua (script_sys env)) (find_task i e) args (w, l)")
    case (Inl err)
    then show thesis using that resume_task_fault [OF inv(1), of "lg_lua (script_sys env)" i args "(w, l)" err] run' by auto
  qed (use that in force)
  obtain e1 where r: "resume_task (lg_lua (script_sys env)) i args (e, w, l) = Inr (e1, if find_task i e = 0 then (w, l) else x1)" "lua_inv e1"
    "\<forall>j. j \<noteq> i \<longrightarrow> find_task j e1 = find_task j e" "find_task i e1 = (if ret = LUA_YIELD then find_task i e else 0)"
    by (rule resume_task_ok [OF inv(1) go]) blast+
  have e1: "e' = e1" "x' = (if find_task i e = 0 then (w, l) else x1)" using run' r(1) by simp_all
  have f: "(\<lambda>j. find_task j e1) = (\<lambda>j. find_task j e)(i := if ret = LUA_YIELD then find_task i e else 0)"
    using r(3,4) by (auto simp: fun_eq_iff)
  show "lua_good env s'"
  proof (cases "find_task i e = 0")
    case True
    then have "(\<lambda>j. find_task j e1) = (\<lambda>j. find_task j e)" unfolding f by (auto simp: fun_eq_iff)
    then show ?thesis using True r(2) inv s' e1 by simp
  next
    case False
    obtain w1 l1 where x1: "x1 = (w1, l1)" by (cases x1)
    have "script_resume env (find_task i e) args (w, l) = Inr (ret, w1, l1)" using go [OF False] x1 by simp
    from script_resume_keeps [OF inv(2,3) False this] show ?thesis using False r(2) s' e1 x1 f by simp
  qed
qed

section \<open>The operations of the engine\<close>

text \<open>What an operation does: the heap of the engine does not shrink, and all is kept while it fits.\<close>

definition lua_step :: "script_env \<Rightarrow> lua_engine \<times> gamesvr \<times> script_state \<Rightarrow> lua_engine \<times> gamesvr \<times> script_state \<Rightarrow> bool" where
  "lua_step env s s' \<longleftrightarrow> heap_size (le_timer (fst s)) \<le> heap_size (le_timer (fst s')) \<and>
     (lua_good env s \<longrightarrow> heap_size (le_timer (fst s')) < 1073741824 \<longrightarrow> lua_good env s')"

lemma lua_step_refl [simp]: "lua_step env s s"
  by (simp add: lua_step_def)

lemma lua_step_trans: "lua_step env a b \<Longrightarrow> lua_step env b c \<Longrightarrow> lua_step env a c"
  by (fastforce simp: lua_step_def)

lemma lua_step_world: "(obj_inv w \<Longrightarrow> obj_inv w') \<Longrightarrow> lua_step env (e, w, l) (e, w', l)"
  by (simp add: lua_step_def)

lemma lua_step_globals: "lua_step env (e, w, l) (e, w, script_set_global env name n l)"
proof -
  have "script_inv (collector_spares env) f (script_set_global env name n l)" if "script_inv (collector_spares env) f l" for f
    using script_inv_collect [OF that, of 0] by (simp add: script_set_global_def Let_def script_inv_def machine_ok_def)
  then show ?thesis by (simp add: lua_step_def)
qed

lemma close_task_size: "close_task i e = Inr e' \<Longrightarrow> heap_size (le_timer e') = heap_size (le_timer e)"
  by (auto simp: close_task_def co_map_at_def Let_def rbind_eq_Inr_iff split: if_splits option.splits dest: unregister_size)

lemma resume_task_size: "resume_task sys i args s = Inr s' \<Longrightarrow> heap_size (le_timer (fst s')) = heap_size (le_timer (fst s))"
  by (cases s) (auto simp: resume_task_def co_map_at_def Let_def rbind_eq_Inr_iff split: if_splits option.splits dest: close_task_size)

lemma create_task_size:
  assumes run: "create_task sys f secs s = Inr (i, s')"
  shows "heap_size (le_timer (fst s)) \<le> heap_size (le_timer (fst s'))"
proof -
  obtain e w where s: "s = (e, w)" by (cases s)
  obtain tv where "tv_set secs 0 = Inr tv" using run s by (auto simp: create_task_def elim: rbind_InrE)
  then obtain tid ht where r: "register_timer (lu_now sys w) tv tv (Some lua_cb) 0 (le_timer e) = Inr (tid, ht)"
    using run s by (auto simp: create_task_def elim: rbind_InrE)
  have "heap_size (le_timer (fst s')) = heap_size ht"
    using run s r \<open>tv_set secs 0 = Inr tv\<close>
    by (auto simp: create_task_def Let_def rbind_eq_Inr_iff split: if_splits prod.splits dest: close_task_size)
  then show ?thesis using register_size [OF r] s by simp
qed

lemma step_resume: "resume_task (lg_lua (script_sys env)) i args s = Inr s' \<Longrightarrow> lua_step env s s'"
  using resume_good(1) [of env s i args s'] resume_task_size [of "lg_lua (script_sys env)" i args s s']
  by (simp add: lua_step_def)

lemma create_other:
  assumes run: "create_task (lg_lua (script_sys env)) f secs (e, w, l) = Inr (i, e', w', l')"
    and no: "\<not> fst (script_getfunction (ls_next l) f (w, (collect env 0 l)\<lparr>ls_next := ls_next l + 1\<rparr>))"
  shows "w' = w \<and> (l' = l \<or> l' = (collect env 0 l)\<lparr>ls_next := ls_next l + 1\<rparr>)"
  using assms
  by (auto simp: create_task_def script_newthread_def script_getfunction_def script_sys_def Let_def rbind_eq_Inr_iff split: if_splits)

lemma step_create:
  assumes run: "create_task (lg_lua (script_sys env)) f 10 s = Inr (i, s')"
  shows "lua_step env s s'"
proof -
  obtain e w l where s: "s = (e, w, l)" by (metis prod_cases3)
  obtain e' w' l' where s': "s' = (e', w', l')" by (metis prod_cases3)
  note size = create_task_size [OF run]
  have "lua_good env s'" if good: "lua_good env s" and room': "heap_size (le_timer (fst s')) < 1073741824"
  proof -
    let ?sys = "lg_lua (script_sys env)" and ?l0 = "collect env 0 l" and ?l1 = "(collect env 0 l)\<lparr>ls_next := ls_next l + 1\<rparr>"
    have inv: "lua_inv e" "obj_inv w" "script_inv (collector_spares env) (\<lambda>i. find_task i e) l" using good s by simp_all
    have room: "heap_size (le_timer e) < 1073741824" using size room' s by simp
    have run': "create_task ?sys f 10 (e, w, l) = Inr (i, e', w', l')" using run s s' by simp
    have nt: "lu_newthread ?sys (w, l) = (ls_next l, w, ?l1)" by (simp add: script_newthread_def Let_def)
    have fresh: "0 < ls_next l" by (rule script_invD(2) [OF inv(3)])
    have inv0: "script_inv (collector_spares env) (\<lambda>i. find_task i e) ?l0" by (rule script_inv_collect [OF inv(3)])
    obtain i1 e1 x1 where c: "create_task ?sys f 10 (e, w, l) = Inr (i1, e1, x1)" "lua_inv e1"
      "0 < i1 \<longrightarrow> find_task i1 e = 0 \<and> find_task i1 e1 = ls_next l" "\<forall>j. j \<noteq> i1 \<longrightarrow> find_task j e1 = find_task j e"
      "0 < i1 \<longleftrightarrow> fst (script_getfunction (ls_next l) f (w, ?l1))" "0 < i1 \<longrightarrow> x1 = snd (script_getfunction (ls_next l) f (w, ?l1))"
      "\<not> 0 < i1 \<longrightarrow> i1 = 0"
      by (rule create_task_ok [where sys = ?sys and f = f and w = "(w, l)" and secs = 10, OF inv(1) room])
        (use fresh nt in \<open>simp_all split: if_splits\<close>)
    have e1: "i1 = i" "e1 = e'" "x1 = (w', l')" using c(1) run' by simp_all
    show ?thesis
    proof (cases "0 < i")
      case True
      have x: "(w', l') = (w, ?l0\<lparr>ls_next := ls_next ?l0 + 1, ls_threads := smap_put (ls_next ?l0) (K_Function f) (ls_threads ?l0)\<rparr>)"
        using c(5,6) True e1 by (auto simp: script_getfunction_def split: if_splits)
      have f: "(\<lambda>j. find_task j e') = (\<lambda>j. find_task j e)(i := ls_next l)" using c(3,4) True e1 by (auto simp: fun_eq_iff)
      have "script_inv (collector_spares env) (\<lambda>j. find_task j e') l'"
        using script_inv_starts [OF inv0, of i "K_Function f"] c(3) True e1 x unfolding f by simp
      then show ?thesis using x c(2) e1 inv s' by simp
    next
      case False
      have "find_task 0 e1 = 0" "find_task 0 e = 0" using find_task_pos [OF c(2), of 0] find_task_pos [OF inv(1), of 0] by auto
      then have f: "(\<lambda>j. find_task j e') = (\<lambda>j. find_task j e)" using c(4,7) False e1 by (intro ext) metis
      have "\<not> fst (script_getfunction (ls_next l) f (w, ?l1))" using c(5) False e1 by simp
      from create_other [OF run' this] show ?thesis using c(2) e1 inv script_inv_skips [OF inv0] s' f by auto
    qed
  qed
  then show ?thesis using size by (simp add: lua_step_def)
qed

section \<open>The packets\<close>

lemma step_load: "load_player_data sys i b w = Inr w' \<Longrightarrow> obj_inv w \<Longrightarrow> obj_inv w'"
proof -
  assume run: "load_player_data sys i b w = Inr w'" and inv: "obj_inv w"
  obtain ptr w1 where r: "get_player i w = Inr (Some ptr)" "set_player_by_db (pd_role_info (gs_parse_pd sys b)) ptr w = Inr w1"
    "load_cities i (pd_city_list (gs_parse_pd sys b)) w1 = Inr w'"
    using run by (auto simp: load_player_data_def Let_def rbind_eq_Inr_iff split: option.splits)
  have i: "ptr = i" "i \<in> players w" using get_player_Some [OF inv r(1)] by simp_all
  have "w1 = upd_player i (\<lambda>p. p\<lparr>p_money := ri_money (pd_role_info (gs_parse_pd sys b)), p_level := ri_level (pd_role_info (gs_parse_pd sys b))\<rparr>) w"
    using r(2) setters(3) [of w i] inv i by (simp add: obj_inv_def)
  then have "obj_inv w1" "players w1 = players w" using upd_keeps [OF inv i(2)] by simp_all
  then show "obj_inv w'" using load_cities_step [OF _ _ r(3)] i(2) by simp
qed

lemma step_start:
  assumes "create_task (lg_lua (script_sys env)) f 10 s = Inr (i, s1)" "resume_task (lg_lua (script_sys env)) i args s1 = Inr s'"
  shows "lua_step env s s'"
  by (rule lua_step_trans [OF step_create [OF assms(1)] step_resume [OF assms(2)]])

lemma step_client:
  "on_client_quick_reg_req (script_sys env) args msg s = Inr (r, s') \<Longrightarrow> lua_step env s s'"
  "on_client_normal_reg_req (script_sys env) args msg s = Inr (r, s') \<Longrightarrow> lua_step env s s'"
  "on_client_login_req (script_sys env) args msg s = Inr (r, s') \<Longrightarrow> lua_step env s s'"
proof -
  show "on_client_quick_reg_req (script_sys env) args msg s = Inr (r, s') \<Longrightarrow> lua_step env s s'"
    by (auto simp: on_client_quick_reg_req_def rbind_eq_Inr_iff split: if_splits dest: step_create step_start)
  show "on_client_normal_reg_req (script_sys env) args msg s = Inr (r, s') \<Longrightarrow> lua_step env s s'"
    by (auto simp: on_client_normal_reg_req_def Let_def rbind_eq_Inr_iff split: if_splits dest: step_create step_start)
  show "on_client_login_req (script_sys env) args msg s = Inr (r, s') \<Longrightarrow> lua_step env s s'"
    by (auto simp: on_client_login_req_def Let_def rbind_eq_Inr_iff split: if_splits dest: step_create step_start)
qed

lemma step_datasvr:
  "on_datasvr_account_reg_res (script_sys env) args msg s = Inr (r, s') \<Longrightarrow> lua_step env s s'"
  "on_datasvr_account_verify_res (script_sys env) args msg s = Inr (r, s') \<Longrightarrow> lua_step env s s'"
  "on_datasvr_get_player_data_res (script_sys env) args msg s = Inr (r, s') \<Longrightarrow> lua_step env s s'"
  "on_datasvr_set_player_data_res (script_sys env) args msg s = Inr (r, s') \<Longrightarrow> lua_step env s s'"
proof -
  obtain e w l where s: "s = (e, w, l)" by (metis prod_cases3)
  show "on_datasvr_account_reg_res (script_sys env) args msg s = Inr (r, s') \<Longrightarrow> lua_step env s s'"
    by (auto simp: on_datasvr_account_reg_res_def rbind_eq_Inr_iff dest: step_resume)
  show "on_datasvr_set_player_data_res (script_sys env) args msg s = Inr (r, s') \<Longrightarrow> lua_step env s s'"
    by (auto simp: on_datasvr_set_player_data_res_def rbind_eq_Inr_iff dest: step_resume)
  show "lua_step env s s'" if run: "on_datasvr_account_verify_res (script_sys env) args msg s = Inr (r, s')"
  proof -
    obtain m where m: "as_ss msg = Inr m" using run by (auto simp: on_datasvr_account_verify_res_def elim: rbind_InrE)
    let ?l = "lg_set_global (script_sys env) (lua_txt ''ACCOUNT_VERIFY_FLAG'') (if ss_ret m = 0 then 0 else 1) l"
    have "resume_task (lg_lua (script_sys env)) (sint (ss_seq m)) [LV_Num 0] (e, w, ?l) = Inr s'"
      using run m s by (auto simp: on_datasvr_account_verify_res_def Let_def rbind_eq_Inr_iff)
    from step_resume [OF this] show ?thesis unfolding s unfolding script_sys_simps by (rule lua_step_trans [OF lua_step_globals])
  qed
  assume run: "on_datasvr_get_player_data_res (script_sys env) args msg s = Inr (r, s')"
  obtain m where m: "as_ss msg = Inr m" using run by (auto simp: on_datasvr_get_player_data_res_def elim: rbind_InrE)
  show "lua_step env s s'"
  proof (cases "ss_ret m = 0")
    case False
    then show ?thesis using run m by (auto simp: on_datasvr_get_player_data_res_def rbind_eq_Inr_iff dest: step_resume)
  next
    case True
    then obtain w1 where w1: "load_player_data (se_sys env) (ss_player_idx m) (case ss_get_player_data_res m of Some b \<Rightarrow> b | None \<Rightarrow> []) w = Inr w1"
      "resume_task (lg_lua (script_sys env)) (sint (ss_seq m)) [LV_Num 0] (e, w1, l) = Inr s'"
      using run m s by (auto simp: on_datasvr_get_player_data_res_def on_game_def rbind_eq_Inr_iff)
    show ?thesis unfolding s by (rule lua_step_trans [OF lua_step_world [OF step_load [OF w1(1)]] step_resume [OF w1(2)]])
  qed
qed

lemma step_handle:
  assumes "handle_request parse lmsg_cmd (lua_handlers (script_sys env) args) pkg s = Inr (r, s')"
  shows "lua_step env s s'"
proof (cases "parse pkg")
  case None
  then show ?thesis using assms by (simp add: handle_request_def)
next
  case (Some m)
  then show ?thesis
    using assms by (auto simp: handle_request_def lua_handlers_lookup rbind_eq_Inr_iff split: if_splits dest: step_client step_datasvr)
qed

lemma step_handles:
  "lua_handle_cs (script_sys env) pkg args s = Inr (r, s') \<Longrightarrow> lua_step env s s'"
  "lua_handle_ss (script_sys env) pkg args s = Inr (r, s') \<Longrightarrow> lua_step env s s'"
  unfolding lua_handle_cs_def lua_handle_ss_def by (rule step_handle; assumption)+

lemma step_conn_packet:
  assumes p: "lua_conn_packet (script_sys env) len (e, w, l) = Inr (go, s')"
  shows "lua_step env (e, w, l) s'"
proof -
  obtain cd where cd: "get_conn_data_from_conn (msg_buf w) = Inr cd"
    using p by (auto simp: lua_conn_packet_def elim: rbind_InrE)
  consider (start) "cd_conn_cmd cd = conn_cmd_code CONN_START" | (stop) "cd_conn_cmd cd = conn_cmd_code CONN_STOP"
    | (other) "cd_conn_cmd cd \<noteq> conn_cmd_code CONN_START" "cd_conn_cmd cd \<noteq> conn_cmd_code CONN_STOP" by blast
  then show ?thesis
  proof cases
    case start
    obtain i w1 player where a: "add_player w = Inr (i, w1)" "get_player i w1 = Inr player"
      using p cd start by (auto simp: lua_conn_packet_def Let_def elim!: rbind_InrE)
    have inv1: "obj_inv w \<Longrightarrow> obj_inv w1" by (rule add_player_objects [OF _ a(1)])
    show ?thesis
    proof (cases player)
      case None
      then obtain w2 where "s' = (e, w2, l)" "same_objects w1 w2"
        using p cd start a by (auto simp: lua_conn_packet_def Let_def rbind_eq_Inr_iff split: option.splits)
      then show ?thesis using lua_step_world [of w w2 env e l] inv1 obj_step_objects [of w1 w2] by (simp add: obj_step_def)
    next
      case (Some ptr)
      then obtain w2 pkg r where s: "set_conn_fd (cd_conn_fd cd) ptr w1 = Inr w2"
        "lua_handle_cs (script_sys env) pkg (A_Conn (cd\<lparr>cd_player_idx := i\<rparr>)) (e, w2, l) = Inr (r, s')"
        using p cd start a by (auto simp: lua_conn_packet_def Let_def rbind_eq_Inr_iff)
      have "obj_inv w \<Longrightarrow> obj_inv w2" by (rule set_conn_fd_objects [OF inv1 _ s(1)]) (use a(2) Some in simp_all)
      then show ?thesis using lua_step_trans [OF lua_step_world step_handles(1) [OF s(2)]] by blast
    qed
  next
    case stop
    obtain player w2 w3 where s: "get_player (cd_player_idx cd) w = Inr player"
      "(case player of None \<Rightarrow> Inr w | Some ptr \<Rightarrow> do_update_player_data (lg_sys (script_sys env)) 0 ptr w) = Inr w2"
      "del_player (cd_player_idx cd) w2 = Inr w3" "s' = (e, w3, l)"
      using p cd stop by (auto simp: lua_conn_packet_def Let_def rbind_eq_Inr_iff)
    have "obj_step w w2" using s(2) obj_step_objects [OF sends_same_objects(2)] by (auto split: option.splits)
    then have "obj_inv w \<Longrightarrow> obj_inv w3" using del_player_objects [OF _ s(3)] by (simp add: obj_step_def)
    then show ?thesis unfolding s(4) by (rule lua_step_world)
  next
    case other
    then obtain pkg r where "lua_handle_cs (script_sys env) pkg (A_Conn cd) (e, w, l) = Inr (r, s')"
      using p cd by (auto simp: lua_conn_packet_def Let_def rbind_eq_Inr_iff)
    then show ?thesis by (rule step_handles(1))
  qed
qed

section \<open>The main loop\<close>

lemma step_run_once:
  assumes run: "lua_run_once (script_sys env) s = Inr (go, s')"
  shows "lua_step env s s'"
proof -
  obtain e w l where s: "s = (e, w, l)" by (metis prod_cases3)
  have recv: "lua_step env (e, v, l) (e, (gemit x v)\<lparr>msg_buf := b\<rparr>, l)" for e v l x b
    using obj_inv_cong [of "(gemit x v)\<lparr>msg_buf := b\<rparr>" v] by (intro lua_step_world) (simp add: gemit_def)
  let ?r = "gs_recv_conn (se_sys env) (gout w)"
  let ?w1 = "(gemit (G_Recv_Conn (fst ?r)) w)\<lparr>msg_buf := recv_into (msg_buf w) ?r\<rparr>"
  obtain go2 e2 w2 l2 where st: "(if fst ?r > 0 then lua_conn_packet (script_sys env) (fst ?r) (e, ?w1, l) else Inr (True, e, ?w1, l))
      = Inr (go2, e2, w2, l2)"
    using run by (auto simp: lua_run_once_def Let_def s elim!: rbind_InrE)
  have "lua_step env (e, ?w1, l) (e2, w2, l2)" using st step_conn_packet by (auto split: if_splits)
  then have 1: "lua_step env s (e2, w2, l2)" unfolding s using lua_step_trans [OF recv] by blast
  let ?d = "gs_recv_data (se_sys env) (gout w2)"
  let ?w3 = "(gemit (G_Recv_Data (fst ?d)) w2)\<lparr>msg_buf := recv_into (msg_buf w2) ?d\<rparr>"
  have "s' = (e2, w2, l2) \<or> s' = (e2, ?w3, l2) \<or> (\<exists>pkg r. lua_handle_ss (script_sys env) pkg A_Null (e2, ?w3, l2) = Inr (r, s'))"
    using run st by (cases go2) (auto simp: lua_run_once_def Let_def rbind_eq_Inr_iff s split: if_splits)
  then show ?thesis using lua_step_trans [OF 1] lua_step_trans [OF recv] recv step_handles(2) 1 by metis
qed

lemma step_run_times: "lua_run_times (script_sys env) n s = Inr s' \<Longrightarrow> lua_step env s s'"
proof (induction n arbitrary: s)
  case (Suc n)
  obtain go s1 where r: "lua_run_once (script_sys env) s = Inr (go, s1)" "(if go then lua_run_times (script_sys env) n s1 else Inr s1) = Inr s'"
    using Suc.prems by (auto elim: rbind_InrE)
  have "lua_step env s1 s'" using r(2) Suc.IH by (cases go) auto
  then show ?case using step_run_once [OF r(1)] lua_step_trans by blast
qed simp

lemma lua_run_size:
  assumes "lua_run now e = Some (Inr e')"
  shows "heap_size (le_timer e') = heap_size (le_timer e)"
proof -
  obtain ht e1 where p: "timer_poll lua_on_timer now (le_timer e) e = Some (Inr (ht, e1))" "e' = e1\<lparr>le_timer := ht\<rparr>"
    using assms by (auto simp: lua_run_def rbind_eq_Inr_iff)
  have "heap_size ht = heap_size (le_timer e)"
    by (rule timer_poll_size [OF _ p(1)]) (auto simp: lua_on_timer_def rbind_eq_Inr_iff dest: close_task_size)
  then show ?thesis by (simp add: p(2))
qed

lemma lua_run_keeps:
  assumes inv: "lua_inv e" and run: "lua_run now e = Some (Inr e')"
  shows "lua_inv e'" "find_task j e' = find_task j e"
proof -
  have idle: "\<forall>a\<in>due (le_timer e) now. find_task (timer_id (the (nodes (le_timer e) a))) e = 0"
    using lua_run_fails [OF inv] run by fastforce
  obtain e1 where "lua_run now e = Some (Inr e1)" "lua_inv e1" "\<forall>j. find_task j e1 = find_task j e"
    by (rule lua_run_ok [OF inv idle]) blast
  then show "lua_inv e'" "find_task j e' = find_task j e" using run by simp_all
qed

lemma step_app_run:
  assumes run: "lua_app_run (script_sys env) s = Some (Inr s')"
  shows "lua_step env s s'"
proof -
  obtain e w l e' where r: "lua_run_times (script_sys env) 1000 s = Inr (e, w, l)" "s' = (e', w, l)"
    "lua_run (gs_time (se_sys env) (gout w)) e = Some (Inr e')"
    using run by (auto simp: lua_app_run_def rbind_eq_Inr_iff split: sum.splits prod.splits)
  have "lua_good env (e', w, l)" if "lua_good env (e, w, l)" using that lua_run_keeps [OF _ r(3)] by simp
  then have "lua_step env (e, w, l) s'" unfolding r(2) using lua_run_size [OF r(3)] by (simp only: lua_step_def fst_conv) simp
  then show ?thesis using step_run_times [OF r(1)] lua_step_trans by blast
qed

lemma lua_run_total:
  assumes inv: "lua_inv e"
  shows "\<exists>r. lua_run now e = Some r"
proof (cases "\<forall>a\<in>due (le_timer e) now. find_task (timer_id (the (nodes (le_timer e) a))) e = 0")
  case True
  show ?thesis by (rule lua_run_ok [OF inv True]) blast
next
  case False
  then obtain a where "a \<in> due (le_timer e) now" "find_task (timer_id (the (nodes (le_timer e) a))) e \<noteq> 0" by blast
  then show ?thesis using lua_run_fails [OF inv] by blast
qed

text \<open>C11: Under any traffic and any behaviour of the collector of Lua, a pass of the main loop of the server with Lua
  scripts ends in a fault or returns, as long as the timers fit their heap. When it returns, every city has one
  owner; each task has a pending timer and a thread of its own; no script waits without a task; and the script
  of each task waits, or the collector of Lua has freed its thread, to which nothing in Lua refers. With a collector that
  frees no thread that waits, all of them wait. (A freed thread is none that is created later, even at the same address.)\<close>

theorem lua_pass_spec:
  assumes inv: "lua_inv e" "obj_inv w" "script_inv (collector_spares env) (\<lambda>i. find_task i e) l"
    and room: "\<And>e1 x. lua_run_times (script_sys env) 1000 (e, w, l) = Inr (e1, x) \<Longrightarrow> heap_size (le_timer e1) < 1073741824"
  shows "(\<exists>err. lua_app_run (script_sys env) (e, w, l) = Some (Inl err)) \<or>
    (\<exists>e' w' l'. lua_app_run (script_sys env) (e, w, l) = Some (Inr (e', w', l')) \<and>
       lua_inv e' \<and> obj_inv w' \<and> script_inv (collector_spares env) (\<lambda>i. find_task i e') l')"
proof (cases "lua_run_times (script_sys env) 1000 (e, w, l)")
  case (Inl err)
  then show ?thesis by (simp add: lua_app_run_def)
next
  case (Inr s1)
  obtain e1 w1 l1 where s1: "s1 = (e1, w1, l1)" by (metis prod_cases3)
  have size: "heap_size (le_timer e1) < 1073741824" by (rule room) (simp add: Inr s1)
  have good: "lua_good env (e1, w1, l1)" using step_run_times [OF Inr] inv size unfolding s1 by (simp add: lua_step_def)
  then obtain r where "lua_run (gs_time (se_sys env) (gout w1)) e1 = Some r" using lua_run_total by auto
  then have a: "lua_app_run (script_sys env) (e, w, l) = Some (rbind r (\<lambda>e'. Inr (e', w1, l1)))" and
    r: "\<And>e'. r = Inr e' \<Longrightarrow> lua_run (gs_time (se_sys env) (gout w1)) e1 = Some (Inr e')"
    using Inr s1 by (simp_all add: lua_app_run_def)
  show ?thesis
  proof (cases r)
    case (Inr e')
    then show ?thesis using a lua_run_keeps [OF _ r [OF Inr]] good by simp
  qed (use a in simp)
qed

lemma idle_script_pass:
  assumes env: "gs_recv_conn (se_sys env) = gs_recv_conn quiet_sys" "gs_recv_data (se_sys env) = gs_recv_data quiet_sys"
  shows "\<exists>w'. lua_run_times (script_sys env) n (e, w, l) = Inr (e, w', l) \<and> player_pool w' = player_pool w"
proof (induction n arbitrary: w)
  case (Suc n)
  obtain w1 where "lua_run_once (script_sys env) (e, w, l) = Inr (True, e, w1, l)" "player_pool w1 = player_pool w"
    by (simp add: lua_run_once_def env quiet_sys_def Let_def gemit_def)
  then show ?case using Suc.IH [of w1] by auto
qed simp

theorem lua_pass_spec_witness:
  "\<exists>w e' w' l'. lua_app_run (script_sys (script_example login_again ss_empty)) (lua_started, w, scripts_loaded) = Some (Inr (e', w', l')) \<and>
     players w \<noteq> {} \<and> obj_inv w' \<and> script_inv True (\<lambda>i. find_task i e') l'"
proof -
  let ?env = "script_example login_again ss_empty"
  obtain i c w where w: "obj_inv w" "players w = {i}" by (rule example_game_logic)
  have e: "lua_inv lua_started" "le_co_map lua_started = []" "cur_size (le_timer lua_started) = 0" "heap_size (le_timer lua_started) < 1073741824"
    using lua_started_inv by (simp_all add: lua_started_def heap_timer_new_def)
  have spares: "collector_spares ?env" by (simp add: collector_spares_def script_example_def)
  have l: "script_inv (collector_spares ?env) (\<lambda>i. find_task i lua_started) scripts_loaded"
    by (simp add: script_inv_def machine_ok_def scripts_loaded_def find_task_def e(2))
  have q: "gs_recv_conn (se_sys ?env) = gs_recv_conn quiet_sys" "gs_recv_data (se_sys ?env) = gs_recv_data quiet_sys"
    by (simp_all add: digit_sys_def)
  obtain w1 where r: "lua_run_times (script_sys ?env) 1000 (lua_started, w, scripts_loaded) = Inr (lua_started, w1, scripts_loaded)"
    using idle_script_pass [OF q] by blast
  have ok: "\<exists>e'. lua_run now lua_started = Some (Inr e')" for now
  proof -
    have "due (le_timer lua_started) now = {}" using e(3) by (simp add: due_def live_def)
    then have "\<forall>a\<in>due (le_timer lua_started) now. find_task (timer_id (the (nodes (le_timer lua_started) a))) lua_started = 0" by simp
    from lua_run_ok [OF e(1) this] show ?thesis by metis
  qed
  then obtain e' where e': "lua_run (gs_time (se_sys ?env) (gout w1)) lua_started = Some (Inr e')" by blast
  have "lg_sys (script_sys ?env) = se_sys ?env" by (simp only: script_sys_simps)
  then have run: "lua_app_run (script_sys ?env) (lua_started, w, scripts_loaded) = Some (Inr (e', w1, scripts_loaded))"
    by (simp only: lua_app_run_def r e' sum.case prod.case option.map rbind_Inr)
  have "obj_inv w1 \<and> script_inv True (\<lambda>i. find_task i e') scripts_loaded"
    using lua_pass_spec [where env = ?env, OF e(1) w(1) l] r e(4) spares unfolding run by auto
  then show ?thesis using run w(2) by blast
qed

end
