(* ===== verification/Lua_App.thy ===== *)
theory Lua_App
  imports Game_App Lua_Run
begin

text \<open>
  The application \<open>gamesvr_lua_coroutine/app.{h,cpp}\<close>, with the initialisation and the end of its modules,
  in the frame of \<open>Server_Frame\<close>: it is an \<open>application\<close> whose invariant is that of its objects, tasks and
  scripts. The modules for the configuration, the timers, the messages and the objects are copies of
  those of \<open>gamesvr\<close> as far as their initialisation goes.
\<close>

section \<open>The application\<close>

definition MODULE_ID_LUA_ENGINE :: int where "MODULE_ID_LUA_ENGINE = MODULE_ID_PLAYER_MGR + 1"

record lua_app =
  la_modules :: "game_module module_map"
  la_srv :: gamesvr
  la_timer_mgr :: heap_timer
  la_engine :: lua_engine
  la_scripts :: script_state

definition lua_app_new :: lua_app where
  "lua_app_new = \<lparr>la_modules = [], la_srv = ga_srv game_app_new, la_timer_mgr = heap_timer_new 0 0,
     la_engine = \<lparr>le_timer = heap_timer_new 0 0, le_co_map = []\<rparr>,
     la_scripts = \<lparr>ls_threads = [], ls_next = 1, ls_loaded = False, ls_globals = [], ls_cycles = 0, ls_freed = []\<rparr>\<rparr>"

text \<open>\<open>lw_script_path\<close>: the directory of the file as \<open>realpath\<close> gives it. \<open>lw_waits\<close>: the times of the
  rounds that the destructor of the engine module gets.\<close>

record lua_world =
  lw_env :: script_env
  lw_script_path :: "string \<Rightarrow> bytes"
  lw_waits :: "time_value list"

text \<open>The constructor of \<open>LuaEngineModule\<close> and its \<open>ModuleInit\<close>; what is registered is \<open>script_call\<close>.\<close>

definition lua_engine_module_init ::
  "lua_world \<Rightarrow> string \<Rightarrow> game_module module_map \<Rightarrow> script_state lua_state \<Rightarrow> script_state lua_state res" where
  "lua_engine_module_init lw main_script_file mm s =
     rbind (lua_init (lg_lua (script_sys (lw_env lw))) (lua_txt main_script_file) (lw_script_path lw main_script_file) [] [] s) (\<lambda>s1.
     rbind (find_module mm MODULE_ID_PLAYER_MGR) (\<lambda>_. Inr s1))"

definition lua_app_init :: "game_boot \<Rightarrow> lua_world \<Rightarrow> string \<Rightarrow> string \<Rightarrow> lua_app \<Rightarrow> (int \<times> lua_app) res" where
  "lua_app_init bo lw conf_name script_name a =
     rbind (game_config_init bo conf_name) (\<lambda>cfg.
     let mm1 = add_module GAME_ID_CONFIG (Some (GM_Config cfg)) (la_modules a) in
     rbind (timer_mgr_module_init bo mm1) (\<lambda>tm.
     let mm2 = add_module GAME_ID_TIMER_MGR (Some GM_Timer_Mgr) mm1 in
     rbind (msg_module_init bo mm2) (\<lambda>_.
     let mm3 = add_module GAME_ID_MSG (Some GM_Msg) mm2 in
     rbind (obj_mgr_module_init bo mm3 (la_srv a)) (\<lambda>w1.
     let mm4 = add_module MODULE_ID_PLAYER_MGR (Some GM_Obj_Mgr) mm3 in
     rbind (lua_engine_module_init lw script_name mm4 (la_engine a, w1, la_scripts a)) (\<lambda>(e, w2, l).
     let mm5 = add_module MODULE_ID_LUA_ENGINE (Some GM_Lua_Engine) mm4 in
     Inr (0, a\<lparr>la_modules := mm5, la_srv := w2, la_timer_mgr := tm, la_engine := e, la_scripts := l\<rparr>))))))"

definition lua_running_modules :: "game_module module_map \<Rightarrow> unit res" where
  "lua_running_modules mm =
     rbind (get_module mm GAME_ID_MSG) (\<lambda>msg_module.
     rbind (get_module mm MODULE_ID_LUA_ENGINE) (\<lambda>lua_engine_module.
     guard Null_Deref (msg_module = Some GM_Msg \<and> lua_engine_module = Some GM_Lua_Engine)))"

definition lua_server_run :: "lua_world \<Rightarrow> lua_app \<Rightarrow> lua_app res option" where
  "lua_server_run lw a =
     (case lua_running_modules (la_modules a) of
        Inl err \<Rightarrow> Some (Inl err)
      | Inr _ \<Rightarrow>
          map_option (\<lambda>r. rbind r (\<lambda>(e, w, l). Inr (a\<lparr>la_engine := e, la_srv := w, la_scripts := l\<rparr>)))
            (lua_app_run (script_sys (lw_env lw)) (la_engine a, la_srv a, la_scripts a)))"

definition lua_app_reload :: "lua_world \<Rightarrow> lua_app \<Rightarrow> lua_app res" where
  "lua_app_reload lw a =
     rbind (get_module (la_modules a) MODULE_ID_LUA_ENGINE) (\<lambda>lua_engine_module.
     rbind (guard Null_Deref (lua_engine_module = Some GM_Lua_Engine)) (\<lambda>_.
     case lu_reload (lg_lua (script_sys (lw_env lw))) (la_srv a, la_scripts a) of
       (w, l) \<Rightarrow> Inr (a\<lparr>la_srv := w, la_scripts := l\<rparr>)))"

text \<open>\<open>ModuleFini\<close> and the destructor of a module; \<open>None\<close> while the destructor of the engine module waits.\<close>

definition lua_module_fini :: "lua_world \<Rightarrow> game_module \<Rightarrow> lua_app res option \<Rightarrow> lua_app res option" where
  "lua_module_fini lw m r =
     (case r of
        Some (Inr a) \<Rightarrow>
          (case m of
             GM_Lua_Engine \<Rightarrow>
               (case lua_wait (lw_waits lw) (la_engine a) of
                  None \<Rightarrow> None
                | Some (Inl err) \<Rightarrow> Some (Inl err)
                | Some (Inr (done, e)) \<Rightarrow> if done then Some (Inr (a\<lparr>la_engine := e\<rparr>)) else None)
           | GM_Timer_Mgr \<Rightarrow> Some (rbind (timer_mgr_fini (la_timer_mgr a)) (\<lambda>ht. Inr (a\<lparr>la_timer_mgr := ht\<rparr>)))
           | _ \<Rightarrow> Some (Inr a))
      | _ \<Rightarrow> r)"

definition lua_app_stop :: "lua_world \<Rightarrow> lua_app \<Rightarrow> lua_app res option" where
  "lua_app_stop lw a =
     (case app_stop (lua_module_fini lw) (la_modules a) (Some (Inr a)) of
        (mm, r) \<Rightarrow> map_option (\<lambda>r. rbind r (\<lambda>a'. Inr (a'\<lparr>la_modules := mm\<rparr>))) r)"

definition lua_ops :: "game_boot \<Rightarrow> lua_world \<Rightarrow> string \<Rightarrow> string \<Rightarrow> lua_app app_ops" where
  "lua_ops bo lw conf_name script_name =
     \<lparr>ap_instance = Some lua_app_new, ap_init = lua_app_init bo lw conf_name script_name, ap_run = lua_server_run lw,
      ap_stop = lua_app_stop lw, ap_reload = lua_app_reload lw, ap_clean = \<lambda>a. Inr a\<rparr>"

section \<open>The invariant of the running server\<close>

definition lua_modules_up :: "game_module module_map \<Rightarrow> bool" where
  "lua_modules_up mm \<longleftrightarrow> (\<exists>cfg. mm = [(40959, Some (GM_Config cfg)), (40960, Some GM_Timer_Mgr), (40961, Some GM_Msg),
     (40962, Some GM_Obj_Mgr), (40963, Some GM_Lua_Engine)])"

definition lua_app_inv :: "lua_world \<Rightarrow> lua_app \<Rightarrow> bool" where
  "lua_app_inv lw a \<longleftrightarrow> lua_modules_up (la_modules a) \<and> ht_inv (la_timer_mgr a) \<and>
     (heap_size (le_timer (la_engine a)) < 1073741824 \<longrightarrow> lua_good (lw_env lw) (la_engine a, la_srv a, la_scripts a))"

text \<open>The size of the logic timers is not read here.\<close>

definition lua_config_ok :: "game_boot \<Rightarrow> game_config \<Rightarrow> bool" where
  "lua_config_ok bo cfg \<longleftrightarrow> 1 \<le> gc_timer_init_size cfg \<and> gc_timer_init_size cfg < 1073741823 \<and>
     (\<forall>pp cp. player_pool_init bo cfg = (0, Some pp) \<and> city_pool_init bo cfg = (0, Some cp) \<longrightarrow>
        obj_inv ((ga_srv game_app_new)\<lparr>player_pool := pp, city_pool := cp\<rparr>))"

definition lua_game_env :: "game_boot \<Rightarrow> lua_world \<Rightarrow> bool" where
  "lua_game_env bo lw \<longleftrightarrow> (\<forall>es. seed_ok (i32 (gs_now (se_sys (lw_env lw)) es))) \<and> seed_ok (i32 (gb_now bo)) \<and>
     (\<forall>f cfg. gb_parse bo f = Some cfg \<longrightarrow> lua_config_ok bo cfg)"

lemma lua_engine_id: "u64 MODULE_ID_LUA_ENGINE = 40963"
  by (simp add: MODULE_ID_LUA_ENGINE_def MODULE_ID_PLAYER_MGR_def u64_id)

lemma lua_new_app: "la_modules lua_app_new = []" "la_srv lua_app_new = ga_srv game_app_new"
  by (simp_all add: lua_app_new_def)

lemma lua_engine_start:
  assumes run: "lua_engine_module_init lw script mm (la_engine lua_app_new, w, la_scripts lua_app_new) = Inr (e, w', l)"
    and seed: "seed_ok (i32 (gs_now (se_sys (lw_env lw)) (gout w)))" and inv: "obj_inv w"
  shows "lua_good (lw_env lw) (e, w', l)"
proof -
  let ?sys = "lg_lua (script_sys (lw_env lw))" and ?l0 = "la_scripts lua_app_new"
  have i: "lua_init ?sys (lua_txt script) (lw_script_path lw script) [] [] (la_engine lua_app_new, w, ?l0) = Inr (e, w', l)"
    using run by (auto simp: lua_engine_module_init_def rbind_eq_Inr_iff)
  have x: "w' = w \<and> (\<exists>b. l = (collect (lw_env lw) 0 ?l0)\<lparr>ls_loaded := b\<rparr>)"
    using i by (auto simp: lua_init_def script_sys_def script_reload_def Let_def rbind_eq_Inr_iff)
  have none: "le_co_map (la_engine lua_app_new) = []" by (simp add: lua_app_new_def)
  have now: "lu_now ?sys (w, ?l0) = gs_now (se_sys (lw_env lw)) (gout w)" by (simp add: script_sys_def)
  from lua_inv_init [OF i none] have e: "lua_inv e" "le_co_map e = []" using seed now by simp_all
  obtain b where l: "l = (collect (lw_env lw) 0 ?l0)\<lparr>ls_loaded := b\<rparr>" using x by blast
  have "script_inv (collector_spares (lw_env lw)) (\<lambda>i. find_task i e) ?l0"
    by (simp add: script_inv_def machine_ok_def lua_app_new_def find_task_def e(2))
  from script_inv_collect [OF this, of 0] have "script_inv (collector_spares (lw_env lw)) (\<lambda>i. find_task i e) l"
    unfolding l by (simp add: script_inv_def machine_ok_def)
  then show ?thesis using e(1) x inv by simp
qed

lemma lua_app_init_inv:
  assumes run: "lua_app_init bo lw conf_name script_name lua_app_new = Inr (r, a)" and env: "lua_game_env bo lw"
  shows "lua_app_inv lw a"
proof -
  obtain cfg where cfg: "game_config_init bo conf_name = Inr cfg" using run by (auto simp: lua_app_init_def elim: rbind_InrE)
  then have ok: "lua_config_ok bo cfg"
    using env by (auto simp: game_config_init_def rbind_eq_Inr_iff lua_game_env_def split: option.splits)
  let ?c = "(40959, Some (GM_Config cfg))" and ?w = "ga_srv game_app_new" and ?n = "nat (u32 (gc_timer_init_size cfg))"
  have mm: "add_module GAME_ID_CONFIG (Some (GM_Config cfg)) [] = [?c]"
    "add_module GAME_ID_TIMER_MGR (Some GM_Timer_Mgr) [?c] = [?c, (40960, Some GM_Timer_Mgr)]"
    "add_module GAME_ID_MSG (Some GM_Msg) [?c, (40960, Some GM_Timer_Mgr)] = [?c, (40960, Some GM_Timer_Mgr), (40961, Some GM_Msg)]"
    by (simp_all add: add_module_def game_module_ids)
  obtain w1 mm4 where w1: "obj_mgr_module_init bo [?c, (40960, Some GM_Timer_Mgr), (40961, Some GM_Msg)] ?w = Inr w1"
    and e: "lua_engine_module_init lw script_name mm4 (la_engine lua_app_new, w1, la_scripts lua_app_new) = Inr (la_engine a, la_srv a, la_scripts a)"
    and a: "la_timer_mgr a = heap_timer_new ?n (gb_now bo)" "lua_modules_up (la_modules a)"
    using run cfg
    by (auto simp: lua_app_init_def Let_def rbind_eq_Inr_iff lua_new_app mm find_game_config_first timer_mgr_module_init_def
        timer_mgr_init_def lua_modules_up_def add_module_def game_module_ids lua_engine_id)
  obtain pp cp where w1': "w1 = ?w\<lparr>player_pool := pp, city_pool := cp\<rparr>" "obj_inv w1"
    by (rule objects_started [OF w1]) (use ok in \<open>simp_all add: lua_config_ok_def\<close>)
  have "lua_good (lw_env lw) (la_engine a, la_srv a, la_scripts a)"
    by (rule lua_engine_start [OF e _ w1'(2)]) (use env in \<open>simp add: lua_game_env_def\<close>)
  moreover have "ht_inv (la_timer_mgr a)"
    unfolding a(1) by (rule ht_inv_new) (use ok env in \<open>auto simp: lua_config_ok_def lua_game_env_def u32_id\<close>)
  ultimately show ?thesis using a(2) by (simp add: lua_app_inv_def)
qed

lemma lua_modules_run: "lua_modules_up mm \<Longrightarrow> lua_running_modules mm = Inr ()"
  by (auto simp: lua_modules_up_def lua_running_modules_def get_module_def game_module_ids lua_engine_id)

lemma lua_server_run_inv:
  assumes inv: "lua_app_inv lw a" and run: "lua_server_run lw a = Some (Inr a')"
  shows "lua_app_inv lw a'"
proof -
  have mods: "lua_running_modules (la_modules a) = Inr ()" using inv lua_modules_run by (simp add: lua_app_inv_def)
  obtain e w l where r: "lua_app_run (script_sys (lw_env lw)) (la_engine a, la_srv a, la_scripts a) = Some (Inr (e, w, l))"
    "a' = a\<lparr>la_engine := e, la_srv := w, la_scripts := l\<rparr>"
    using run mods by (auto simp: lua_server_run_def rbind_eq_Inr_iff)
  from step_app_run [OF r(1)] show ?thesis using inv unfolding r(2) by (fastforce simp: lua_app_inv_def lua_step_def)
qed

lemma lua_app_reload_inv:
  assumes inv: "lua_app_inv lw a" and run: "lua_app_reload lw a = Inr a'"
  shows "lua_app_inv lw a'"
proof -
  let ?l = "collect (lw_env lw) 0 (la_scripts a)"
  obtain b where a': "a' = a\<lparr>la_scripts := ?l\<lparr>ls_loaded := b\<rparr>\<rparr>"
    using run by (auto simp: lua_app_reload_def rbind_eq_Inr_iff script_sys_def script_reload_def Let_def)
  have "script_inv (collector_spares (lw_env lw)) f (?l\<lparr>ls_loaded := b\<rparr>)" if "script_inv (collector_spares (lw_env lw)) f (la_scripts a)" for f
    using script_inv_collect [OF that, of 0] by (simp add: script_inv_def machine_ok_def)
  then show ?thesis using inv unfolding a' by (simp add: lua_app_inv_def)
qed

interpretation la: application "lua_ops bo lw conf_name script_name" "\<lambda>a. lua_game_env bo lw \<longrightarrow> lua_app_inv lw a"
proof unfold_locales
  fix a r a'
  assume "ap_instance (lua_ops bo lw conf_name script_name) = Some a" "ap_init (lua_ops bo lw conf_name script_name) a = Inr (r, a')"
  then have "lua_app_init bo lw conf_name script_name lua_app_new = Inr (r, a')" by (simp add: lua_ops_def)
  then show "lua_game_env bo lw \<longrightarrow> lua_app_inv lw a'" using lua_app_init_inv by blast
next
  fix a a'
  assume "lua_game_env bo lw \<longrightarrow> lua_app_inv lw a" "ap_run (lua_ops bo lw conf_name script_name) a = Some (Inr a')"
  then show "lua_game_env bo lw \<longrightarrow> lua_app_inv lw a'" using lua_server_run_inv [of lw a a'] by (simp add: lua_ops_def)
next
  fix a a'
  assume "lua_game_env bo lw \<longrightarrow> lua_app_inv lw a" "ap_reload (lua_ops bo lw conf_name script_name) a = Inr a'"
  then show "lua_game_env bo lw \<longrightarrow> lua_app_inv lw a'" using lua_app_reload_inv [of lw a a'] by (simp add: lua_ops_def)
qed

lemma lua_gamesvr_running:
  assumes "lua_game_env bo lw" "sf_app s = None"
    and "frame_run (lua_ops bo lw conf_name script_name) fsys argv0 args gss s = Some (Inr (F_Ret 1, s'))" "sf_app s' = Some a"
  shows "lua_app_inv lw a"
  using la.run_keeps [OF assms(2,3)] assms(1,4) unfolding la.app_inv_def by blast

section \<open>The properties\<close>

text \<open>Each task in the table has a positive id, a pending timer, and a thread of its own; its script waits, or
  the collector has freed the thread.\<close>

definition tasks_have_threads :: "lua_app \<Rightarrow> bool" where
  "tasks_have_threads a \<longleftrightarrow>
     (\<forall>i. let co = find_task i (la_engine a) in co \<noteq> 0 \<longrightarrow>
        0 < i \<and> pending_of (le_timer (la_engine a)) i = Some (Some lua_cb, 0) \<and>
        (map_of (ls_threads (la_scripts a)) co \<noteq> None \<or> co \<in> set (ls_freed (la_scripts a))) \<and>
        (\<forall>j. j \<noteq> i \<longrightarrow> find_task j (la_engine a) \<noteq> co))"

definition task_scripts_wait :: "lua_app \<Rightarrow> bool" where
  "task_scripts_wait a \<longleftrightarrow>
     (\<forall>i. find_task i (la_engine a) \<noteq> 0 \<longrightarrow> map_of (ls_threads (la_scripts a)) (find_task i (la_engine a)) \<noteq> None)"

text \<open>Each waiting script has a task that can resume it.\<close>

definition scripts_have_tasks :: "lua_app \<Rightarrow> bool" where
  "scripts_have_tasks a \<longleftrightarrow> (\<forall>co\<in>dom (map_of (ls_threads (la_scripts a))). \<exists>i. find_task i (la_engine a) = co)"

lemma lua_good_tasks:
  assumes "lua_good (lw_env lw) (la_engine a, la_srv a, la_scripts a)"
  shows "obj_inv (la_srv a) \<and> tasks_have_threads a \<and> scripts_have_tasks a \<and> (collector_spares (lw_env lw) \<longrightarrow> task_scripts_wait a)"
proof -
  have inv: "lua_inv (la_engine a)" "obj_inv (la_srv a)"
    "script_inv (collector_spares (lw_env lw)) (\<lambda>i. find_task i (la_engine a)) (la_scripts a)"
    using assms by simp_all
  note d = script_invD [OF inv(3)]
  have p: "pending_of (le_timer (la_engine a)) i = Some (Some lua_cb, 0)" if "find_task i (la_engine a) \<noteq> 0" for i
    using lua_invD(3,4) [OF inv(1), of i] that by auto
  have "tasks_have_threads a" unfolding tasks_have_threads_def Let_def
  proof (intro allI impI conjI)
    fix i j assume t: "find_task i (la_engine a) \<noteq> 0"
    show "0 < i" by (rule find_task_pos [OF inv(1) t])
    show "pending_of (le_timer (la_engine a)) i = Some (Some lua_cb, 0)" by (rule p [OF t])
    show "map_of (ls_threads (la_scripts a)) (find_task i (la_engine a)) \<noteq> None \<or> find_task i (la_engine a) \<in> set (ls_freed (la_scripts a))"
      using d(5) [OF t] by blast
    show "find_task j (la_engine a) \<noteq> find_task i (la_engine a)" if "j \<noteq> i" using d(6) [of i j] t that by metis
  qed
  moreover have "scripts_have_tasks a" using d(4) by (auto simp: scripts_have_tasks_def)
  moreover have "task_scripts_wait a" if "collector_spares (lw_env lw)"
    unfolding task_scripts_wait_def using d(5) that by blast
  ultimately show ?thesis using inv(2) by simp
qed

text \<open>C6: From the command line on: while the server with Lua scripts runs, after any number of passes and reloads,
  whatever connsvr, datasvr and the clients sent and whatever the collector of Lua freed, every city in use belongs
  to exactly one player in use, every task has a pending timer and a thread of its own, and every waiting script
  has a task, as long as the timers fit their heap. The script of a task waits, or the collector has freed its
  thread, which it may, since nothing in Lua refers to it; with a collector that frees no thread that waits,
  the scripts of all tasks wait. (A freed thread is none that is created later, even at the same address.)\<close>

theorem lua_gamesvr_up:
  assumes "lua_game_env bo lw" "sf_app s = None"
    and "frame_run (lua_ops bo lw conf_name script_name) fsys argv0 args gss s = Some (Inr (F_Ret 1, s'))" "sf_app s' = Some a"
    and "heap_size (le_timer (la_engine a)) < 1073741824"
  shows "obj_inv (la_srv a) \<and> tasks_have_threads a \<and> scripts_have_tasks a \<and> (collector_spares (lw_env lw) \<longrightarrow> task_scripts_wait a)"
  by (rule lua_good_tasks) (use lua_gamesvr_running [OF assms(1-4)] assms(5) in \<open>simp add: lua_app_inv_def\<close>)

text \<open>A server that gets new segments and no packets.\<close>

definition quiet_script_env :: script_env where
  "quiet_script_env = \<lparr>se_sys = quiet_sys, se_random = \<lambda>_ _. 1, se_dostring = \<lambda>_. 0, se_dofile = \<lambda>_. 0, se_loads = True, se_stack = 0, se_garbage = \<lambda>_ _. []\<rparr>"

definition quiet_lua_world :: lua_world where
  "quiet_lua_world = \<lparr>lw_env = quiet_script_env, lw_script_path = \<lambda>_. lua_txt ''/srv'', lw_waits = [TimeValue 200 0, TimeValue 201 0]\<rparr>"

lemma quiet_lua_env: "lua_game_env plain_game_boot quiet_lua_world"
proof -
  have "obj_inv ((ga_srv game_app_new)\<lparr>player_pool := pool_fresh 4 440 player_zero, city_pool := pool_fresh 8 12 city_zero\<rparr>)"
    using pool_inv_fresh(1,2) [of 4 440 player_zero] pool_inv_fresh(1,2) [of 8 12 city_zero] by (simp add: obj_inv_def)
  then show ?thesis
    by (auto simp: lua_game_env_def lua_config_ok_def sized_game_boot_def quiet_lua_world_def quiet_script_env_def quiet_sys_def
        seed_ok_def rand_consts i32_id player_pool_init_def city_pool_init_def pool_init_def)
qed

lemma quiet_lua_spares: "collector_spares (lw_env quiet_lua_world)"
  by (simp add: collector_spares_def quiet_lua_world_def quiet_script_env_def)

lemma quiet_lua_init:
  obtains a where "lua_app_init plain_game_boot quiet_lua_world conf_name script_name lua_app_new = Inr (0, a)"
    "la_engine a = \<lparr>le_timer = heap_timer_new 1024 100, le_co_map = []\<rparr>"
proof -
  let ?pp = "pool_fresh 4 440 player_zero" and ?cp = "pool_fresh 8 12 city_zero" and ?w = "ga_srv game_app_new"
  obtain cfg where cfg: "gb_parse plain_game_boot conf_name = Some cfg" "gc_timer_init_size cfg = 8"
    "player_pool_init plain_game_boot cfg = (0, Some ?pp)" "city_pool_init plain_game_boot cfg = (0, Some ?cp)"
    by (simp add: sized_game_boot_def player_pool_init_def city_pool_init_def pool_init_def)
  have "obj_mgr_init (modules_before_obj_mgr (GM_Config cfg) GM_Timer_Mgr GM_Msg) (0, Some ?pp) (0, Some ?cp) ?w =
      Inr (?w\<lparr>player_pool := ?pp, city_pool := ?cp\<rparr>)"
    using pool_inv_fresh [of 4 440 player_zero] by (simp add: obj_mgr_init_result)
  moreover have "modules_before_obj_mgr (GM_Config cfg) GM_Timer_Mgr GM_Msg = [(40959, Some (GM_Config cfg)), (40960, Some GM_Timer_Mgr), (40961, Some GM_Msg)]"
    by (simp add: modules_before_obj_mgr_def add_module_def u64_id)
  moreover have "msg_module_init plain_game_boot ((40959, Some (GM_Config cfg)) # mm) = Inr ()" for mm
    by (simp add: msg_module_init_def find_game_config_first sized_game_boot_def)
  moreover have "gb_open plain_game_boot conf_name = 3" "gb_now plain_game_boot = 100" by (simp_all add: sized_game_boot_def)
  moreover have "lua_init (lg_lua (script_sys (lw_env quiet_lua_world))) f d [] [] (e, w, l) =
      Inr (e\<lparr>le_timer := heap_timer_new 1024 100\<rparr>, w, (collect (lw_env quiet_lua_world) 0 l)\<lparr>ls_loaded := True\<rparr>)" for f d e w l
    by (simp add: lua_init_def script_sys_def script_reload_def Let_def quiet_lua_world_def quiet_script_env_def quiet_sys_def)
  ultimately show thesis
    using that cfg by (simp add: lua_app_init_def lua_engine_module_init_def game_config_init_def Let_def lua_new_app add_module_def
        game_module_ids lua_engine_id timer_mgr_module_init_def obj_mgr_module_init_def find_game_config_first u32_id find_module_def
        lua_app_new_def)
qed

lemma quiet_lua_up:
  obtains s' a where "frame_run (lua_ops plain_game_boot quiet_lua_world ''gamesvr.conf'' ''main.lua'') plain_sys ''gamesvr'' [''start''] [[]]
      (frame_statics Map.empty) = Some (Inr (F_Ret 1, s'))" "sf_app s' = Some a" "heap_size (le_timer (la_engine a)) < 1073741824"
    "le_co_map (la_engine a) = []" "live (le_timer (la_engine a)) = {}"
proof -
  let ?ops = "lua_ops plain_game_boot quiet_lua_world ''gamesvr.conf'' ''main.lua''"
  obtain a0 where a0: "lua_app_init plain_game_boot quiet_lua_world ''gamesvr.conf'' ''main.lua'' lua_app_new = Inr (0, a0)"
    "la_engine a0 = \<lparr>le_timer = heap_timer_new 1024 100, le_co_map = []\<rparr>" by (rule quiet_lua_init)
  have inv: "lua_app_inv quiet_lua_world a0" by (rule lua_app_init_inv [OF a0(1) quiet_lua_env])
  have size: "heap_size (le_timer (la_engine a0)) < 1073741824" by (simp add: a0(2) heap_timer_new_def)
  then have e: "lua_inv (la_engine a0)" using inv by (simp add: lua_app_inv_def)
  have mods: "lua_running_modules (la_modules a0) = Inr ()" using inv lua_modules_run by (simp add: lua_app_inv_def)
  let ?env = "lw_env quiet_lua_world"
  have q: "gs_recv_conn (se_sys ?env) = gs_recv_conn quiet_sys" "gs_recv_data (se_sys ?env) = gs_recv_data quiet_sys"
    by (simp_all add: quiet_lua_world_def quiet_script_env_def)
  obtain w1 where r: "lua_run_times (script_sys ?env) 1000 (la_engine a0, la_srv a0, la_scripts a0) = Inr (la_engine a0, w1, la_scripts a0)"
    using idle_script_pass [OF q] by blast
  have none: "\<forall>a\<in>due (le_timer (la_engine a0)) now. find_task (timer_id (the (nodes (le_timer (la_engine a0)) a))) (la_engine a0) = 0" for now
    by (simp add: a0(2) find_task_def)
  have idle: "live (le_timer (la_engine a0)) = {}" by (simp add: a0(2) live_def heap_timer_new_def)
  obtain e1 where e1: "lua_run (gs_time (se_sys ?env) (gout w1)) (la_engine a0) = Some (Inr e1)"
    "live (le_timer e1) = {}" "dom (map_of (le_co_map e1)) = {}"
    by (rule lua_run_ok [OF e none]) (use idle in \<open>simp add: due_def a0(2)\<close>)
  have none1: "le_co_map e1 = []" using e1(3) by (cases "le_co_map e1") auto
  let ?a1 = "a0\<lparr>la_engine := e1, la_srv := w1, la_scripts := la_scripts a0\<rparr>"
  have "lua_server_run quiet_lua_world a0 = Some (Inr ?a1)"
    using r e1(1) mods by (simp add: lua_server_run_def lua_app_run_def)
  moreover have "heap_size (le_timer (la_engine ?a1)) < 1073741824" using lua_run_size [OF e1(1)] size by simp
  moreover have "ap_instance ?ops = Some lua_app_new" "ap_init ?ops lua_app_new = Inr (0, a0)" using a0(1) by (simp_all add: lua_ops_def)
  moreover have "ap_run ?ops a0 = Some (Inr ?a1)" using calculation(1) by (simp add: lua_ops_def)
  moreover have "le_co_map (la_engine ?a1) = []" "live (le_timer (la_engine ?a1)) = {}" using e1(2) none1 by simp_all
  ultimately show thesis using first_pass [of ?ops lua_app_new a0 ?a1 "''gamesvr''"] that by metis
qed

theorem lua_gamesvr_up_witness:
  "\<exists>s' a. frame_run (lua_ops plain_game_boot quiet_lua_world ''gamesvr.conf'' ''main.lua'') plain_sys ''gamesvr'' [''start''] [[]]
       (frame_statics Map.empty) = Some (Inr (F_Ret 1, s')) \<and> sf_app s' = Some a \<and> obj_inv (la_srv a) \<and> tasks_have_threads a \<and> task_scripts_wait a"
proof -
  let ?s = "frame_statics Map.empty :: lua_app server_frame"
  obtain s' a where r: "frame_run (lua_ops plain_game_boot quiet_lua_world ''gamesvr.conf'' ''main.lua'') plain_sys ''gamesvr'' [''start''] [[]] ?s =
      Some (Inr (F_Ret 1, s'))" "sf_app s' = Some a" "heap_size (le_timer (la_engine a)) < 1073741824" by (rule quiet_lua_up) blast
  have "sf_app ?s = None" by (simp add: frame_statics_def)
  from lua_gamesvr_up [OF quiet_lua_env this r] r(1,2)
  show ?thesis using quiet_lua_spares by blast
qed

section \<open>The end of the server\<close>

lemma stop_engine_first:
  assumes inv: "lua_app_inv lw a"
  shows "lua_app_stop lw a =
    (case lua_wait (lw_waits lw) (la_engine a) of
       None \<Rightarrow> None | Some (Inl err) \<Rightarrow> Some (Inl err)
     | Some (Inr (done, e)) \<Rightarrow>
         if done then Some (Inr (a\<lparr>la_engine := e, la_timer_mgr := (la_timer_mgr a)\<lparr>nodes := Map.empty\<rparr>, la_modules := []\<rparr>)) else None)"
proof -
  obtain cfg where mm: "la_modules a = [(40959, Some (GM_Config cfg)), (40960, Some GM_Timer_Mgr), (40961, Some GM_Msg),
     (40962, Some GM_Obj_Mgr), (40963, Some GM_Lua_Engine)]"
    using inv by (auto simp: lua_app_inv_def lua_modules_up_def)
  have ht: "ht_inv (la_timer_mgr a)" using inv by (simp add: lua_app_inv_def)
  show ?thesis
    by (auto simp: lua_app_stop_def app_stop_def mm lua_module_fini_def timer_mgr_fini_def heap_timer_delete_correct [OF ht]
        split: option.split sum.split)
qed

text \<open>C23: A running server with Lua scripts can be stopped only while the table of its tasks is empty: with an
  entry left, be it a waiting task or the \<open>NULL\<close> of an answer that came too late, the destructor of the
  engine module waits for ever or fails, however often it looks; with none the server stops and frees the timers of its timer manager.\<close>

theorem lua_stop_iff_idle:
  assumes "lua_game_env bo lw" "sf_app s = None"
    and "frame_run (lua_ops bo lw conf_name script_name) fsys argv0 args gss s = Some (Inr (F_Ret 1, s'))" "sf_app s' = Some a"
    and "heap_size (le_timer (la_engine a)) < 1073741824"
    and "length (le_co_map (la_engine a)) + card (live (le_timer (la_engine a))) < 2147483648"
  shows "(\<exists>a'. lua_app_stop lw a = Some (Inr a') \<and> nodes (la_timer_mgr a') = Map.empty \<and> la_modules a' = []) \<longleftrightarrow>
    le_co_map (la_engine a) = []"
proof -
  have inv: "lua_app_inv lw a" by (rule lua_gamesvr_running [OF assms(1-4)])
  then have e: "lua_inv (la_engine a)" using assms(5) by (simp add: lua_app_inv_def)
  show ?thesis
  proof (cases "le_co_map (la_engine a) = []")
    case True
    then have "lua_wait (lw_waits lw) (la_engine a) = Some (Inr (True, la_engine a))"
      by (cases "lw_waits lw") (simp_all add: get_task_size_def i32_id)
    then show ?thesis using stop_engine_first [OF inv] True by simp
  next
    case False
    have "lua_wait (lw_waits lw) (la_engine a) = Some (Inl Dangling) \<or> (\<exists>e'. lua_wait (lw_waits lw) (la_engine a) = Some (Inr (False, e')))"
      by (rule lua_wait_stuck [OF e False assms(6)])
    then have "lua_app_stop lw a \<noteq> Some (Inr a')" for a' unfolding stop_engine_first [OF inv] by auto
    then show ?thesis using False by simp
  qed
qed

theorem lua_stop_iff_idle_witness:
  "\<exists>s' a a'. frame_run (lua_ops plain_game_boot quiet_lua_world ''gamesvr.conf'' ''main.lua'') plain_sys ''gamesvr'' [''start''] [[]]
       (frame_statics Map.empty) = Some (Inr (F_Ret 1, s')) \<and> sf_app s' = Some a \<and> lua_app_stop quiet_lua_world a = Some (Inr a')"
proof -
  let ?s = "frame_statics Map.empty :: lua_app server_frame"
  obtain s' a where r: "frame_run (lua_ops plain_game_boot quiet_lua_world ''gamesvr.conf'' ''main.lua'') plain_sys ''gamesvr'' [''start''] [[]] ?s =
      Some (Inr (F_Ret 1, s'))" "sf_app s' = Some a" "heap_size (le_timer (la_engine a)) < 1073741824"
    "le_co_map (la_engine a) = []" "live (le_timer (la_engine a)) = {}" by (rule quiet_lua_up)
  have new: "sf_app ?s = None" by (simp add: frame_statics_def)
  have few: "length (le_co_map (la_engine a)) + card (live (le_timer (la_engine a))) < 2147483648" using r(4,5) by simp
  show ?thesis using lua_stop_iff_idle [OF quiet_lua_env new r(1-3) few] r(1,2,4) by blast
qed

end
