(* ===== verification/Lua_Equiv.thy ===== *)
theory Lua_Equiv
  imports Lua_Run
begin

text \<open>
  The two game servers side by side: a step of a logic in C++ (\<open>gamesvr/logic_module\<close>) and the stretch of
  the script that replaces it (\<open>gamesvr_lua_coroutine\<close>) do the same to the objects and send the same
  messages, as long as the player is there.
\<close>

section \<open>What a step does\<close>

text \<open>Whether it waits for an answer, and the world behind it.\<close>

definition logic_world :: "(int \<times> logic_data \<times> gamesvr) res \<Rightarrow> (bool \<times> gamesvr) res" where
  "logic_world r = rbind r (\<lambda>(ret, _, w). Inr (ret = LOGIC_YIELD, w))"

fun waits :: "script_end \<Rightarrow> bool" where
  "waits (S_Yield k) = True"
| "waits _ = False"

definition script_world :: "(script_end \<times> gamesvr) res \<Rightarrow> (bool \<times> gamesvr) res" where
  "script_world r = rbind r (\<lambda>(s, w). Inr (waits s, w))"

lemma logic_world_simps [simp]:
  "logic_world (Inl err) = Inl err" "logic_world (Inr (ret, d, w)) = Inr (ret = LOGIC_YIELD, w)"
  "logic_world (rbind r f) = rbind r (\<lambda>x. logic_world (f x))"
  "logic_world (done_with ret d r') = rbind r' (\<lambda>w. Inr (ret = LOGIC_YIELD, w))"
  by (cases r; cases r'; simp add: logic_world_def done_with_def)+

lemma script_world_simps [simp]:
  "script_world (Inl err) = Inl err" "script_world (Inr (s, w)) = Inr (waits s, w)"
  "script_world (rbind r f) = rbind r (\<lambda>x. script_world (f x))"
  "script_world (ends s r') = rbind r' (\<lambda>w. Inr (waits s, w))"
  by (cases r; cases r'; simp add: script_world_def ends_def)+

lemma world_if [simp]:
  "logic_world (if b then r else r') = (if b then logic_world r else logic_world r')"
  "script_world (if b then x else x') = (if b then script_world x else script_world x')"
  by simp_all

lemma c_str_id: "0 \<notin> set s \<Longrightarrow> c_str s = s"
  by (simp add: c_str_def) (metis takeWhile_eq_all_conv)

lemma used_player: "obj_inv w \<Longrightarrow> i \<in> players w \<Longrightarrow> get_player i w = Inr (Some i)"
  using used_get [of w i] by (simp add: obj_inv_def)

section \<open>Registration\<close>

text \<open>C15: A normal registration goes the same way in both game servers, for an account of less than 32 and a password of
  less than 16 bytes, both without NUL bytes, so that they fit the arrays of the logic with their terminators: the first
  step of the logic and the start of the script send the same, and both wait
  or neither; and when they wait, every answer that comes while the player is there has the same effect on both.
  (Quick registrations draw their passwords in different ways, and a name of 32 bytes behaves differently.)\<close>

theorem registration_agrees:
  assumes inv: "obj_inv w" and i: "cd_player_idx cd \<in> players w"
    and m: "cs_normal_reg_req m = Some \<lparr>am_account = account, am_password = password\<rparr>"
    and short: "length account < 32" "length password < 16" "0 \<notin> set account" "0 \<notin> set password"
    and d: "lg_logic_id d = task_id"
  shows "logic_world (normal_reg_step0 (se_sys env) d (L_Cs m) (A_Conn cd) w) =
      script_world (normal_reg env task_id (c_str account) (c_str password) (cs_seq m) (cd_player_idx cd) kNormalRegRes w) \<and>
    (\<forall>d' w1 k w2 r args v. normal_reg_step0 (se_sys env) d (L_Cs m) (A_Conn cd) w = Inr (LOGIC_YIELD, d', w1) \<and>
       normal_reg env task_id (c_str account) (c_str password) (cs_seq m) (cd_player_idx cd) kNormalRegRes w = Inr (S_Yield k, w2) \<and>
       obj_inv v \<and> cd_player_idx cd \<in> players v \<longrightarrow>
       logic_world (normal_reg_step1 (se_sys env) d' (L_Ss r) args v) = script_world (script_step env k [LV_Num (ss_ret r)] v))"
proof -
  note g = used_player [OF inv i] and c = c_str_id [OF short(3)] c_str_id [OF short(4)]
  let ?d = "d\<lparr>l_account := strncpy account 32, l_password := strncpy password 16, l_client_seq := cs_seq m, l_player_idx := cd_player_idx cd\<rparr>"
  have a: "c_string (strncpy account 32 @ x) = Inr account" for x using short(3,1) by (rule c_string_strncpy)
  have p: "c_string (strncpy password 16 @ x) = Inr password" for x using short(4,2) by (rule c_string_strncpy)
  have 1: "logic_world (normal_reg_step0 (se_sys env) d (L_Cs m) (A_Conn cd) w) =
      script_world (normal_reg env task_id (c_str account) (c_str password) (cs_seq m) (cd_player_idx cd) kNormalRegRes w)"
    using short(1,2) by (simp add: normal_reg_step0_def normal_reg_def m account_msg_of_def g c a d Let_def logic_consts change_step_def cong: if_cong)
  have 2: "d' = ?d\<lparr>lg_step := 1\<rparr>" if "normal_reg_step0 (se_sys env) d (L_Cs m) (A_Conn cd) w = Inr (LOGIC_YIELD, d', w1)" for d' w1
    using that short(1,2)
    by (auto simp: normal_reg_step0_def m account_msg_of_def g a Let_def rbind_eq_Inr_iff done_with_def change_step_def logic_consts split: if_splits)
  have 3: "k = K_Normal_Reg \<lparr>rv_task_id = task_id, rv_seq = cs_seq m, rv_player = cd_player_idx cd, rv_res_cmd = kNormalRegRes\<rparr> account password"
    if "normal_reg env task_id (c_str account) (c_str password) (cs_seq m) (cd_player_idx cd) kNormalRegRes w = Inr (S_Yield k, w2)" for k w2
    using that by (auto simp: normal_reg_def g c Let_def rbind_eq_Inr_iff ends_eq_Inr_iff split: if_splits)
  have 4: "logic_world (normal_reg_step1 (se_sys env) (?d\<lparr>lg_step := 1\<rparr>) (L_Ss r) args v) =
      script_world (normal_reg_resume env \<lparr>rv_task_id = task_id, rv_seq = cs_seq m, rv_player = cd_player_idx cd, rv_res_cmd = kNormalRegRes\<rparr>
        account password [LV_Num (ss_ret r)] v)" if "obj_inv v" "cd_player_idx cd \<in> players v" for r args v
    using used_player [OF that] a p by (simp add: normal_reg_step1_def normal_reg_resume_def is_zero_def logic_consts)
  show ?thesis using 1 2 3 4 by auto
qed

lemma logic_world_waits: "logic_world r = Inr (True, w) \<Longrightarrow> \<exists>d. r = Inr (LOGIC_YIELD, d, w)"
  by (cases r) (auto simp: logic_world_def)

text \<open>A player that is not loaded yet, in a world in which datasvr can be reached.\<close>

lemma fresh_player:
  obtains i w where "obj_inv w" "players w = {i}" "get_player i w = Inr (Some i)" "get_player_idx i w = Inr i"
    "uid_to_player_idx_map w = []"
proof -
  obtain i c w where w: "obj_inv w" "players w = {i}" "uid_to_player_idx_map w = []" by (rule example_game_logic)
  then have "pool_inv (player_pool w)" "i \<in> players w" by (simp_all add: obj_inv_def)
  from used_get [OF this] show thesis using that w by blast
qed

lemma same_objects_inv: "same_objects w w' \<Longrightarrow> obj_inv w \<Longrightarrow> obj_inv w' \<and> players w' = players w"
  using obj_step_objects by (simp add: obj_step_def)

definition example_names :: account_msg where
  "example_names = \<lparr>am_account = [97, 98, 99, 100, 101, 102], am_password = [49, 50, 51, 52]\<rparr>"

definition equal_reg :: cs_msg where
  "equal_reg = cs_empty\<lparr>cs_cmd := kNormalRegReq, cs_seq := 5, cs_normal_reg_req := Some example_names\<rparr>"

definition equal_login :: cs_msg where
  "equal_login = cs_empty\<lparr>cs_cmd := kLoginReq, cs_seq := 5, cs_login_req := Some example_names\<rparr>"

definition example_logic :: logic_data where
  "example_logic = \<lparr>lg_logic_id = 9, lg_logic_type = 0, lg_step = 0, l_client_seq = 0, l_player_idx = 0,
     l_uid = 0, l_password_hash = 0, l_account = [], l_password = [], l_tail = [0, 0, 0, 0]\<rparr>"

theorem registration_agrees_witness:
  "\<exists>w i d k w1. normal_reg_step0 (digit_sys equal_reg ss_empty) example_logic (L_Cs equal_reg) (A_Conn \<lparr>cd_conn_fd = 7, cd_player_idx = i, cd_conn_cmd = 2\<rparr>) w =
      Inr (LOGIC_YIELD, d, w1) \<and>
    normal_reg (script_example equal_reg ss_empty) 9 [97, 98, 99, 100, 101, 102] [49, 50, 51, 52] 5 i kNormalRegRes w = Inr (S_Yield k, w1) \<and>
    logic_world (normal_reg_step1 (digit_sys equal_reg ss_empty) d (L_Ss ss_empty) A_Null w1) =
      script_world (script_step (script_example equal_reg ss_empty) k [LV_Num 0] w1)"
proof -
  obtain i w where w: "obj_inv w" "players w = {i}" "get_player i w = Inr (Some i)" "get_player_idx i w = Inr i" by (rule fresh_player)
  let ?env = "script_example equal_reg ss_empty" and ?cd = "\<lparr>cd_conn_fd = 7, cd_player_idx = i, cd_conn_cmd = 2\<rparr>"
  let ?a = "[97, 98, 99, 100, 101, 102] :: bytes" and ?p = "[49, 50, 51, 52] :: bytes"
  have i: "cd_player_idx ?cd \<in> players w" by (simp add: w(2))
  have m: "cs_normal_reg_req equal_reg = Some \<lparr>am_account = ?a, am_password = ?p\<rparr>" by (simp add: equal_reg_def example_names_def)
  have short: "length ?a < 32" "length ?p < 16" "0 \<notin> set ?a" "0 \<notin> set ?p" by simp_all
  have d: "lg_logic_id example_logic = 9" by (simp add: example_logic_def)
  have c: "c_str ?a = ?a" "c_str ?p = ?p" using c_str_id [OF short(3)] c_str_id [OF short(4)] by simp_all
  have seq: "cs_seq equal_reg = 5" by (simp add: equal_reg_def)
  have ser: "gs_ser_pd (se_sys ?env) x = Some []" for x by (simp add: digit_sys_def quiet_sys_def)
  obtain w1 where reg: "do_account_reg (se_sys ?env) 9 (fnv64a_hash ?a) (fnv64a_hash ?p) (Some ?a) i w = Inr w1"
    using w(4) ser by (simp add: do_account_reg_def)
  let ?k = "K_Normal_Reg \<lparr>rv_task_id = 9, rv_seq = 5, rv_player = i, rv_res_cmd = kNormalRegRes\<rparr> ?a ?p"
  have s: "normal_reg ?env 9 ?a ?p 5 i kNormalRegRes w = Inr (S_Yield ?k, w1)"
    using w(3) reg example_credentials by (simp add: normal_reg_def Let_def)
  note agree = registration_agrees [where env = ?env, OF w(1) i m short d]
  have "logic_world (normal_reg_step0 (se_sys ?env) example_logic (L_Cs equal_reg) (A_Conn ?cd) w) = Inr (True, w1)"
    using conjunct1 [OF agree] s c seq by simp
  then obtain d' where d': "normal_reg_step0 (se_sys ?env) example_logic (L_Cs equal_reg) (A_Conn ?cd) w = Inr (LOGIC_YIELD, d', w1)"
    using logic_world_waits by blast
  have "obj_inv w1 \<and> players w1 = players w" by (rule same_objects_inv [OF sends_same_objects(4) [OF reg] w(1)])
  then have "logic_world (normal_reg_step1 (se_sys ?env) d' (L_Ss ss_empty) A_Null w1) = script_world (script_step ?env ?k [LV_Num (ss_ret ss_empty)] w1)"
    using conjunct2 [OF agree] d' s c seq w(2) by simp
  then show ?thesis using d' s by (intro exI [of _ w] exI [of _ i] exI [of _ d'] exI [of _ ?k] exI [of _ w1]) (simp add: ss_empty_def)
qed

section \<open>Login\<close>

text \<open>What the handler of the other server does with an answer to a waiting login.\<close>

definition data_answer :: "script_env \<Rightarrow> script_point \<Rightarrow> ss_msg \<Rightarrow> gamesvr \<Rightarrow> (bool \<times> gamesvr) res" where
  "data_answer env k r v =
     (if ss_ret r = 0 then
        rbind (load_player_data (se_sys env) (ss_player_idx r) (case ss_get_player_data_res r of Some b \<Rightarrow> b | None \<Rightarrow> []) v) (\<lambda>v1.
        script_world (script_step env k [LV_Num 0] v1))
      else script_world (script_step env k [LV_Num 1] v))"



end
