(* ===== verification/Tcp_Client.thy ===== *)
theory Tcp_Client
  imports Frame_Iface Std_Map Game_Obj
begin

text \<open>
  The test client \<open>tcpclient\<close>: its buffers (\<open>conn_cache.{h,cpp}\<close>), which grow, and the loop that sends
  requests and dispatches answers (\<open>msg_mgr.{h,cpp}\<close>, \<open>msg_wrapper.h\<close>). Messages are those of \<open>Game_Obj\<close>.

  The memory behind a buffer is a list of bytes; the empty list stands for the null pointer of a
  buffer that was never allocated.
\<close>

section \<open>The buffers\<close>

definition CONN_CACHE_BUF_LEN :: int where "CONN_CACHE_BUF_LEN = 102400"

record conn_cache =
  cc_send_buf :: bytes
  cc_send_size :: int
  cc_send_cap :: int
  cc_recv_buf :: bytes
  cc_recv_size :: int
  cc_recv_cap :: int

definition cc_new :: conn_cache where
  "cc_new = \<lparr>cc_send_buf = [], cc_send_size = 0, cc_send_cap = 0, cc_recv_buf = [], cc_recv_size = 0, cc_recv_cap = 0\<rparr>"

text \<open>\<open>malloc\<close> for the send buffer (\<open>False\<close>) and for the receive buffer (\<open>True\<close>), with an \<open>assert\<close> on its
  result. The contents of new memory are arbitrary.\<close>

type_synonym cc_malloc = "bool \<Rightarrow> int \<Rightarrow> bytes option"

definition cc_alloc :: "cc_malloc \<Rightarrow> bool \<Rightarrow> int \<Rightarrow> bytes res" where
  "cc_alloc malloc which sz = (case malloc which (u64 sz) of None \<Rightarrow> Inl Assert_Failed | Some b \<Rightarrow> Inr b)"

text \<open>\<open>Init\<close> leaves the two sizes as they are.\<close>

definition cc_init :: "cc_malloc \<Rightarrow> conn_cache \<Rightarrow> conn_cache res" where
  "cc_init malloc c =
     rbind (cc_alloc malloc False CONN_CACHE_BUF_LEN) (\<lambda>s.
     rbind (cc_alloc malloc True CONN_CACHE_BUF_LEN) (\<lambda>r.
     Inr (c\<lparr>cc_send_buf := s, cc_send_cap := CONN_CACHE_BUF_LEN, cc_recv_buf := r, cc_recv_cap := CONN_CACHE_BUF_LEN\<rparr>)))"

text \<open>The two halves of \<open>expand\<close> are the same for both buffers.\<close>

definition expand_buf :: "cc_malloc \<Rightarrow> bool \<Rightarrow> bytes \<Rightarrow> int \<Rightarrow> int \<Rightarrow> (bytes \<times> int) res" where
  "expand_buf malloc which buf sz cap =
     (if cap = 0 then rbind (cc_alloc malloc which CONN_CACHE_BUF_LEN) (\<lambda>b. Inr (b, CONN_CACHE_BUF_LEN))
      else
        rbind (cc_alloc malloc which (i32 (cap * 2))) (\<lambda>temp.
        rbind (mem_read buf 0 sz) (\<lambda>d.
        rbind (mem_write temp 0 d) (\<lambda>t. Inr (t, i32 (cap * 2))))))"

definition cc_expand :: "cc_malloc \<Rightarrow> conn_cache \<Rightarrow> conn_cache res" where
  "cc_expand malloc c =
     rbind (expand_buf malloc False (cc_send_buf c) (cc_send_size c) (cc_send_cap c)) (\<lambda>(s, scap).
     rbind (expand_buf malloc True (cc_recv_buf c) (cc_recv_size c) (cc_recv_cap c)) (\<lambda>(r, rcap).
     Inr (c\<lparr>cc_send_buf := s, cc_send_cap := scap, cc_recv_buf := r, cc_recv_cap := rcap\<rparr>)))"

text \<open>The loops that make room for \<open>n\<close> more bytes.\<close>

partial_function (option) grow_send :: "cc_malloc \<Rightarrow> int \<Rightarrow> conn_cache \<Rightarrow> conn_cache res option" where
  "grow_send malloc n c =
     (if cc_send_size c + n > cc_send_cap c then
        case cc_expand malloc c of Inl e \<Rightarrow> Some (Inl e) | Inr c' \<Rightarrow> grow_send malloc n c'
      else Some (Inr c))"

partial_function (option) grow_recv :: "cc_malloc \<Rightarrow> int \<Rightarrow> conn_cache \<Rightarrow> conn_cache res option" where
  "grow_recv malloc n c =
     (if cc_recv_size c + n > cc_recv_cap c then
        case cc_expand malloc c of Inl e \<Rightarrow> Some (Inl e) | Inr c' \<Rightarrow> grow_recv malloc n c'
      else Some (Inr c))"

definition cc_add_send :: "cc_malloc \<Rightarrow> bytes \<Rightarrow> conn_cache \<Rightarrow> conn_cache res option" where
  "cc_add_send malloc buf c =
     map_option (\<lambda>r. rbind r (\<lambda>c1. rbind (mem_write (cc_send_buf c1) (cc_send_size c1) buf) (\<lambda>b.
       Inr (c1\<lparr>cc_send_buf := b, cc_send_size := cc_send_size c1 + int (length buf)\<rparr>))))
       (grow_send malloc (int (length buf)) c)"

definition cc_add_recv :: "cc_malloc \<Rightarrow> bytes \<Rightarrow> conn_cache \<Rightarrow> conn_cache res option" where
  "cc_add_recv malloc buf c =
     map_option (\<lambda>r. rbind r (\<lambda>c1. rbind (mem_write (cc_recv_buf c1) (cc_recv_size c1) buf) (\<lambda>b.
       Inr (c1\<lparr>cc_recv_buf := b, cc_recv_size := cc_recv_size c1 + int (length buf)\<rparr>))))
       (grow_recv malloc (int (length buf)) c)"

definition cc_skip_send :: "int \<Rightarrow> conn_cache \<Rightarrow> conn_cache res" where
  "cc_skip_send len c =
     (let sz = cc_send_size c - len in
      rbind (mem_read (cc_send_buf c) len sz) (\<lambda>d.
      rbind (mem_write (cc_send_buf c) 0 d) (\<lambda>b. Inr (c\<lparr>cc_send_size := sz, cc_send_buf := b\<rparr>))))"

definition cc_skip_recv :: "int \<Rightarrow> conn_cache \<Rightarrow> conn_cache res" where
  "cc_skip_recv len c =
     (let sz = cc_recv_size c - len in
      rbind (mem_read (cc_recv_buf c) len sz) (\<lambda>d.
      rbind (mem_write (cc_recv_buf c) 0 d) (\<lambda>b. Inr (c\<lparr>cc_recv_size := sz, cc_recv_buf := b\<rparr>))))"

definition cc_recv_proto_len :: "conn_cache \<Rightarrow> int res" where
  "cc_recv_proto_len c = ntohs_at (cc_recv_buf c)"

definition cc_skip_recv_proto :: "conn_cache \<Rightarrow> conn_cache res" where
  "cc_skip_recv_proto c = rbind (cc_recv_proto_len c) (\<lambda>len. cc_skip_recv len c)"

text \<open>The length is read before the size is looked at.\<close>

definition cc_recv_proto_ready :: "conn_cache \<Rightarrow> bool res" where
  "cc_recv_proto_ready c =
     rbind (cc_recv_proto_len c) (\<lambda>proto_len. Inr (cc_recv_size c > 2 \<and> proto_len \<le> cc_recv_size c))"

section \<open>The client\<close>

definition ERR_OK :: int where "ERR_OK = 0"
definition ERR_UNCONNECT :: int where "ERR_UNCONNECT = - 2"

text \<open>The pairs of handlers that \<open>REGISTER_MSG\<close> wraps.\<close>

datatype client_wrapper = W_Login | W_Normal_Reg | W_Quick_Reg

datatype teffect =
    T_Close int
  | T_Socket int
  | T_Connect int
  | T_Send bytes int
  | T_Recv int
  | T_Say client_wrapper bool
  | T_Account bytes bytes

record client_sys =
  cl_malloc :: "teffect list \<Rightarrow> cc_malloc"
  cl_socket :: "teffect list \<Rightarrow> int"
  cl_connect :: "teffect list \<Rightarrow> int"
  cl_nonblock :: "teffect list \<Rightarrow> bool"
  cl_send :: "teffect list \<Rightarrow> bytes \<Rightarrow> int \<times> bool"
  cl_recv :: "teffect list \<Rightarrow> int \<Rightarrow> int \<times> bytes \<times> bool"
  cl_ser :: "cs_msg \<Rightarrow> bytes option"
  cl_parse :: "int \<Rightarrow> bytes \<Rightarrow> cs_msg option"

record tcp_client =
  tc_cache :: conn_cache
  tc_sock :: int
  tc_errno :: int
  tc_free_seq :: "64 word"
  tc_req_map :: "(int \<times> client_wrapper) list"
  tc_res_map :: "(int \<times> client_wrapper) list"
  tc_out :: "teffect list"

definition temit :: "teffect \<Rightarrow> tcp_client \<Rightarrow> tcp_client" where
  "temit e c = c\<lparr>tc_out := tc_out c @ [e]\<rparr>"

definition client_close_sock :: "tcp_client \<Rightarrow> tcp_client" where
  "client_close_sock c = (temit (T_Close (tc_sock c)) c)\<lparr>tc_errno := ERR_UNCONNECT, tc_sock := 0\<rparr>"

text \<open>\<open>SetNonBlock\<close> closes the socket when it fails, and \<open>ConnectServer\<close> does not look at its result.\<close>

definition client_connect :: "client_sys \<Rightarrow> tcp_client \<Rightarrow> int \<times> tcp_client" where
  "client_connect sys c =
     (let ret = cl_connect sys (tc_out c); c1 = temit (T_Connect ret) c in
      if ret = - 1 then (- 1, c1\<lparr>tc_errno := ERR_UNCONNECT\<rparr>)
      else
        let c2 = (if cl_nonblock sys (tc_out c1) then c1 else client_close_sock c1) in
        (0, c2\<lparr>tc_errno := ERR_OK\<rparr>))"

definition register_wrapper :: "int \<Rightarrow> int \<Rightarrow> client_wrapper \<Rightarrow> tcp_client \<Rightarrow> tcp_client" where
  "register_wrapper req_id res_id wp c =
     c\<lparr>tc_req_map := smap_put req_id wp (tc_req_map c), tc_res_map := smap_put res_id wp (tc_res_map c)\<rparr>"

definition client_init :: "client_sys \<Rightarrow> tcp_client \<Rightarrow> (int \<times> tcp_client) res" where
  "client_init sys c =
     (let c1 = (if tc_sock c > 0 then client_close_sock c else c);
          c2 = c1\<lparr>tc_sock := 0, tc_errno := ERR_UNCONNECT\<rparr> in
      rbind (cc_init (cl_malloc sys (tc_out c2)) (tc_cache c2)) (\<lambda>cache.
      let sock = cl_socket sys (tc_out c2);
          c3 = (temit (T_Socket sock) c2)\<lparr>tc_cache := cache, tc_sock := sock\<rparr> in
      if sock = - 1 then Inr (- 1, c3)
      else
        let (ret, c4) = client_connect sys c3 in
        if ret \<noteq> 0 then Inr (- 2, c4)
        else Inr (0, register_wrapper kQuickRegReq kQuickRegRes W_Quick_Reg
               (register_wrapper kNormalRegReq kNormalRegRes W_Normal_Reg
               (register_wrapper kLoginReq kLoginRes W_Login (c4\<lparr>tc_free_seq := 10000\<rparr>))))))"

definition client_resume :: "client_sys \<Rightarrow> tcp_client \<Rightarrow> (int \<times> tcp_client) res" where
  "client_resume sys c = rbind (client_init sys c) (\<lambda>(ret, c'). Inr (if ret = 0 then 0 else - 1, c'))"

section \<open>Requests\<close>

definition client_account :: account_msg where
  "client_account = \<lparr>am_account = map of_char ''zhangfengzhen'', am_password = map of_char ''qwe123456''\<rparr>"

text \<open>\<open>DoLogin\<close>, \<open>DoNormalReg\<close> and \<open>DoQuickReg\<close> fill the body of a request.\<close>

fun client_do :: "client_wrapper \<Rightarrow> cs_msg \<Rightarrow> int \<times> cs_msg" where
  "client_do W_Login m = (0, m\<lparr>cs_login_req := Some client_account\<rparr>)"
| "client_do W_Normal_Reg m = (0, m\<lparr>cs_normal_reg_req := Some client_account\<rparr>)"
| "client_do W_Quick_Reg m = (0, m)"

definition client_send_data :: "client_sys \<Rightarrow> bytes \<Rightarrow> tcp_client \<Rightarrow> tcp_client res option" where
  "client_send_data sys buf c =
     map_option (\<lambda>r. rbind r (\<lambda>cache. Inr (c\<lparr>tc_cache := cache\<rparr>)))
       (cc_add_send (cl_malloc sys (tc_out c)) buf (tc_cache c))"

text \<open>The serialiser fails on a message that does not fit \<open>PKG_BUF_SIZE - 2\<close>.\<close>

definition dispatch_req_msg :: "client_sys \<Rightarrow> int \<Rightarrow> tcp_client \<Rightarrow> (int \<times> tcp_client) res option" where
  "dispatch_req_msg sys cmd c =
     (let msg = cs_empty\<lparr>cs_cmd := cmd, cs_seq := tc_free_seq c\<rparr>; c1 = c\<lparr>tc_free_seq := tc_free_seq c + 1\<rparr> in
      case map_of (tc_req_map c1) cmd of
        None \<Rightarrow> Some (Inr (- 2, c1))
      | Some wp \<Rightarrow>
          let (ret, m) = client_do wp msg in
          if ret < 0 then Some (Inr (- 1, c1))
          else
            (case cl_ser sys m of
               None \<Rightarrow> Some (Inr (- 1, c1))
             | Some b \<Rightarrow> map_option (\<lambda>r. rbind r (\<lambda>c2. Inr (0, c2))) (client_send_data sys (encode_frame b) c1)))"

section \<open>Answers\<close>

text \<open>\<open>OnLogin\<close>, \<open>OnNormalReg\<close> and \<open>OnQuickReg\<close> print what came back.\<close>

definition client_on :: "client_wrapper \<Rightarrow> cs_msg \<Rightarrow> tcp_client \<Rightarrow> int \<times> tcp_client" where
  "client_on wp m c =
     (let c1 = temit (T_Say wp (cs_ret m = 0)) c in
      (0, if wp = W_Quick_Reg \<and> cs_ret m = 0
          then let a = account_msg_of (cs_quick_reg_res m) in temit (T_Account (am_account a) (am_password a)) c1 else c1))"

definition dispatch_res_msg :: "cs_msg \<Rightarrow> tcp_client \<Rightarrow> int \<times> tcp_client" where
  "dispatch_res_msg m c =
     (case map_of (tc_res_map c) (cs_cmd m) of
        None \<Rightarrow> (- 2, c)
      | Some wp \<Rightarrow> let (ret, c1) = client_on wp m c in if ret \<noteq> 0 then (- 1, c1) else (0, c1))"

text \<open>One message of the receive buffer; the flag tells whether the loop goes on. The length handed
  to the parser may be negative.\<close>

definition client_handle :: "client_sys \<Rightarrow> tcp_client \<Rightarrow> (bool \<times> tcp_client) res" where
  "client_handle sys c =
     rbind (cc_recv_proto_len (tc_cache c)) (\<lambda>len.
     let msg_len = len - 2 in
     case cl_parse sys msg_len (take (nat msg_len) (drop 2 (cc_recv_buf (tc_cache c)))) of
       None \<Rightarrow> Inr (False, c)
     | Some m \<Rightarrow>
         let c1 = snd (dispatch_res_msg m c) in
         rbind (cc_skip_recv_proto (tc_cache c1)) (\<lambda>cache. Inr (True, c1\<lparr>tc_cache := cache\<rparr>)))"

text \<open>A length of 0 that the parser lets pass would keep the loop going for ever: \<open>None\<close>.\<close>

partial_function (option) client_loop :: "client_sys \<Rightarrow> tcp_client \<Rightarrow> tcp_client res option" where
  "client_loop sys c =
     (case cc_recv_proto_ready (tc_cache c) of
        Inl e \<Rightarrow> Some (Inl e)
      | Inr ready \<Rightarrow>
          if ready then
            case client_handle sys c of
              Inl e \<Rightarrow> Some (Inl e)
            | Inr (go, c1) \<Rightarrow> if go then client_loop sys c1 else Some (Inr c1)
          else Some (Inr c))"

section \<open>Run\<close>

definition resume_and_return :: "client_sys \<Rightarrow> tcp_client \<Rightarrow> tcp_client res" where
  "resume_and_return sys c = rbind (client_resume sys c) (\<lambda>(_, c'). Inr c')"

text \<open>What \<open>recv\<close> returned: its result, the bytes and whether the error is one to ignore.\<close>

definition client_recv :: "client_sys \<Rightarrow> int \<times> bytes \<times> bool \<Rightarrow> tcp_client \<Rightarrow> tcp_client res option" where
  "client_recv sys r c =
     (case r of (ret, d, again) \<Rightarrow>
        let c1 = temit (T_Recv ret) c in
        if ret < 0 then (if again then Some (Inr c1) else Some (resume_and_return sys c1))
        else if ret = 0 then Some (resume_and_return sys c1)
        else
          case mem_write (cc_recv_buf (tc_cache c1)) (cc_recv_size (tc_cache c1)) (take (nat ret) d) of
            Inl e \<Rightarrow> Some (Inl e)
          | Inr b \<Rightarrow> client_loop sys (c1\<lparr>tc_cache := (tc_cache c1)\<lparr>cc_recv_buf := b,
              cc_recv_size := cc_recv_size (tc_cache c1) + ret\<rparr>\<rparr>))"

text \<open>The send part of \<open>Run\<close>; the flag tells whether it goes on to receive.\<close>

definition client_send :: "client_sys \<Rightarrow> tcp_client \<Rightarrow> (bool \<times> tcp_client) res" where
  "client_send sys c =
     (let n = cc_send_size (tc_cache c) in
      if n > 0 then
        rbind (mem_read (cc_send_buf (tc_cache c)) 0 n) (\<lambda>buf.
        let (ret, again) = cl_send sys (tc_out c) buf; c1 = temit (T_Send buf ret) c in
        if ret < 0 then
          if again then Inr (False, c1) else rbind (resume_and_return sys c1) (\<lambda>c2. Inr (False, c2))
        else if ret < n then
          rbind (cc_skip_send ret (tc_cache c1)) (\<lambda>cache. Inr (True, c1\<lparr>tc_cache := cache\<rparr>))
        else if ret = n then Inr (True, c1\<lparr>tc_cache := (tc_cache c1)\<lparr>cc_send_size := 0\<rparr>\<rparr>)
        else Inr (True, c1))
      else Inr (True, c))"

definition client_run :: "client_sys \<Rightarrow> tcp_client \<Rightarrow> tcp_client res option" where
  "client_run sys c =
     (case client_send sys c of
        Inl e \<Rightarrow> Some (Inl e)
      | Inr (go, c1) \<Rightarrow>
          if go then client_recv sys (cl_recv sys (tc_out c1) (cc_recv_cap (tc_cache c1) - cc_recv_size (tc_cache c1))) c1
          else Some (Inr c1))"

text \<open>\<open>main\<close>: a failed \<open>Init\<close> exits; a login is sent, then \<open>Run\<close> once a second, here \<open>n\<close> times.\<close>

fun client_runs :: "client_sys \<Rightarrow> nat \<Rightarrow> tcp_client \<Rightarrow> tcp_client res option" where
  "client_runs sys 0 c = Some (Inr c)"
| "client_runs sys (Suc n) c =
     (case client_run sys c of None \<Rightarrow> None | Some (Inl e) \<Rightarrow> Some (Inl e) | Some (Inr c1) \<Rightarrow> client_runs sys n c1)"

definition client_main :: "client_sys \<Rightarrow> nat \<Rightarrow> tcp_client \<Rightarrow> tcp_client res option" where
  "client_main sys n c =
     (case client_init sys c of
        Inl e \<Rightarrow> Some (Inl e)
      | Inr (ret, c1) \<Rightarrow>
          if ret \<noteq> 0 then Some (Inr c1)
          else
            case dispatch_req_msg sys kLoginReq c1 of
              None \<Rightarrow> None
            | Some (Inl e) \<Rightarrow> Some (Inl e)
            | Some (Inr (_, c2)) \<Rightarrow> client_runs sys n c2)"

end
