(* ===== verification/Tcp_Client_Props.thy ===== *)
theory Tcp_Client_Props
  imports Tcp_Client Event_Props
begin

text \<open>
  What the test client promises: its buffers grow until the data fit, the answers of the server are
  dispatched in order however TCP cuts them, and its requests reach the game server through
  \<open>connsvr\<close>. Where it fails: a reconnection keeps the sizes of buffers it has replaced, and an answer
  that cannot be parsed blocks the ones behind it.
\<close>

section \<open>The buffers\<close>

definition cc_send_data :: "conn_cache \<Rightarrow> bytes" where
  "cc_send_data c = take (nat (cc_send_size c)) (cc_send_buf c)"

definition cc_recv_data :: "conn_cache \<Rightarrow> bytes" where
  "cc_recv_data c = take (nat (cc_recv_size c)) (cc_recv_buf c)"

text \<open>Both buffers have the same capacity: they are only ever expanded together.\<close>

definition cc_ok :: "conn_cache \<Rightarrow> bool" where
  "cc_ok c \<longleftrightarrow> cc_send_cap c = cc_recv_cap c \<and> 102400 \<le> cc_recv_cap c \<and> cc_recv_cap c < 2147483648 \<and>
     int (length (cc_send_buf c)) = cc_send_cap c \<and> int (length (cc_recv_buf c)) = cc_recv_cap c \<and>
     0 \<le> cc_send_size c \<and> cc_send_size c \<le> cc_send_cap c \<and> 0 \<le> cc_recv_size c \<and> cc_recv_size c \<le> cc_recv_cap c"

definition malloc_ok :: "cc_malloc \<Rightarrow> bool" where
  "malloc_ok malloc \<longleftrightarrow> (\<forall>which n. 0 < n \<longrightarrow> n < 2147483648 \<longrightarrow> (\<exists>b. malloc which n = Some b \<and> int (length b) = n))"

lemma cc_okD:
  assumes "cc_ok c"
  shows "cc_send_cap c = cc_recv_cap c" "102400 \<le> cc_recv_cap c" "cc_recv_cap c < 2147483648"
    "int (length (cc_send_buf c)) = cc_recv_cap c" "int (length (cc_recv_buf c)) = cc_recv_cap c"
    "0 \<le> cc_send_size c" "cc_send_size c \<le> cc_recv_cap c" "0 \<le> cc_recv_size c" "cc_recv_size c \<le> cc_recv_cap c"
  using assms by (simp_all add: cc_ok_def)

lemma cc_data_length:
  "cc_ok c \<Longrightarrow> int (length (cc_send_data c)) = cc_send_size c" "cc_ok c \<Longrightarrow> int (length (cc_recv_data c)) = cc_recv_size c"
  by (auto simp: cc_ok_def cc_send_data_def cc_recv_data_def min_def)

lemma mem_write_ok:
  assumes "0 \<le> off" "off + int (length d) \<le> int (length buf)"
  obtains b where "mem_write buf off d = Inr b" "length b = length buf" "take (nat off + length d) b = take (nat off) buf @ d"
    "take (nat off) b = take (nat off) buf"
proof -
  have "nat off + length d \<le> length buf" using assms by linarith
  then show thesis using that [of "take (nat off) buf @ d @ drop (nat off + length d) buf"] assms
    by (simp add: mem_write_in)
qed

lemma malloc_okD:
  assumes "malloc_ok malloc" "0 < n" "n < 2147483648"
  obtains b where "malloc which n = Some b" "int (length b) = n"
  using assms unfolding malloc_ok_def by blast

lemma cc_alloc_some: "0 < n \<Longrightarrow> n < 2147483648 \<Longrightarrow> malloc which n = Some b \<Longrightarrow> cc_alloc malloc which n = Inr b"
  by (simp add: cc_alloc_def u64_def take_bit_int_eq_self)

lemma cc_init_ok:
  assumes m: "malloc_ok malloc" and s: "0 \<le> cc_send_size c" "cc_send_size c \<le> 102400" "0 \<le> cc_recv_size c" "cc_recv_size c \<le> 102400"
  obtains c' where "cc_init malloc c = Inr c'" "cc_ok c'" "cc_send_size c' = cc_send_size c" "cc_recv_size c' = cc_recv_size c"
    "malloc False 102400 = Some (cc_send_buf c')" "malloc True 102400 = Some (cc_recv_buf c')"
proof -
  have n: "(0 :: int) < 102400" "(102400 :: int) < 2147483648" by simp_all
  obtain a where a: "malloc False 102400 = Some a" "int (length a) = 102400" by (rule malloc_okD [OF m n])
  obtain b where b: "malloc True 102400 = Some b" "int (length b) = 102400" by (rule malloc_okD [OF m n])
  let ?c = "c\<lparr>cc_send_buf := a, cc_send_cap := 102400, cc_recv_buf := b, cc_recv_cap := 102400\<rparr>"
  have "cc_init malloc c = Inr ?c"
    using cc_alloc_some [where malloc = malloc, OF n(1,2) a(1)] cc_alloc_some [where malloc = malloc, OF n(1,2) b(1)]
    by (simp add: cc_init_def CONN_CACHE_BUF_LEN_def)
  then show thesis by (rule that) (use a b s in \<open>simp_all add: cc_ok_def\<close>)
qed

lemma expand_buf_ok:
  assumes m: "malloc_ok malloc" and cap: "0 < cap" "2 * cap < 2147483648" "int (length buf) = cap" and sz: "0 \<le> sz" "sz \<le> cap"
  obtains b where "expand_buf malloc which buf sz cap = Inr (b, 2 * cap)" "int (length b) = 2 * cap" "take (nat sz) b = take (nat sz) buf"
proof -
  have i: "i32 (cap * 2) = 2 * cap" using cap by (simp add: i32_id)
  have n: "0 < 2 * cap" using cap(1) by simp
  obtain t where t': "malloc which (2 * cap) = Some t" "int (length t) = 2 * cap" by (rule malloc_okD [OF m n cap(2)])
  have t: "cc_alloc malloc which (2 * cap) = Inr t" "int (length t) = 2 * cap"
    using cc_alloc_some [where malloc = malloc and which = which, OF n cap(2) t'(1)] t'(2) by simp_all
  let ?d = "take (nat sz) buf"
  have r: "mem_read buf 0 sz = Inr ?d" using cap sz by (simp add: mem_read_in)
  have len: "length ?d = nat sz" using cap(3) sz by simp
  have w: "mem_write t 0 ?d = Inr (?d @ drop (nat sz) t)" using t(2) sz cap len by (simp add: mem_write_def)
  show thesis
    by (rule that [of "?d @ drop (nat sz) t"]) (use i t r w cap sz len in \<open>simp_all add: expand_buf_def\<close>)
qed

lemma cc_expand_ok:
  assumes m: "malloc_ok malloc" and ok: "cc_ok c" and cap: "2 * cc_recv_cap c < 2147483648"
  obtains c' where "cc_expand malloc c = Inr c'" "cc_ok c'" "cc_recv_cap c' = 2 * cc_recv_cap c"
    "cc_send_size c' = cc_send_size c" "cc_recv_size c' = cc_recv_size c"
    "cc_send_data c' = cc_send_data c" "cc_recv_data c' = cc_recv_data c"
proof -
  note d = cc_okD [OF ok]
  have pos: "0 < cc_recv_cap c" using d(2) by simp
  obtain s where s: "expand_buf malloc False (cc_send_buf c) (cc_send_size c) (cc_recv_cap c) = Inr (s, 2 * cc_recv_cap c)"
    "int (length s) = 2 * cc_recv_cap c" "take (nat (cc_send_size c)) s = take (nat (cc_send_size c)) (cc_send_buf c)"
    by (rule expand_buf_ok [OF m pos cap d(4,6,7)])
  obtain r where r: "expand_buf malloc True (cc_recv_buf c) (cc_recv_size c) (cc_recv_cap c) = Inr (r, 2 * cc_recv_cap c)"
    "int (length r) = 2 * cc_recv_cap c" "take (nat (cc_recv_size c)) r = take (nat (cc_recv_size c)) (cc_recv_buf c)"
    by (rule expand_buf_ok [OF m pos cap d(5,8,9)])
  let ?c = "c\<lparr>cc_send_buf := s, cc_send_cap := 2 * cc_recv_cap c, cc_recv_buf := r, cc_recv_cap := 2 * cc_recv_cap c\<rparr>"
  have "cc_expand malloc c = Inr ?c" using s(1) r(1) d(1) by (simp add: cc_expand_def)
  then show thesis
    by (rule that) (use s r d cap in \<open>simp_all add: cc_ok_def cc_send_data_def cc_recv_data_def\<close>)
qed

lemma grow_send_ok:
  assumes m: "malloc_ok malloc" and ok: "cc_ok c" and n: "0 \<le> n" "2 * (cc_send_size c + n) < 2147483648"
  shows "\<exists>c'. grow_send malloc n c = Some (Inr c') \<and> cc_ok c' \<and> cc_send_size c' + n \<le> cc_recv_cap c' \<and>
    cc_send_size c' = cc_send_size c \<and> cc_send_data c' = cc_send_data c \<and> cc_recv_data c' = cc_recv_data c \<and>
    cc_recv_size c' = cc_recv_size c"
  using ok n
proof (induction "nat (cc_send_size c + n - cc_recv_cap c)" arbitrary: c rule: less_induct)
  case less
  note d = cc_okD [OF less.prems(1)]
  show ?case
  proof (cases "cc_send_size c + n > cc_recv_cap c")
    case False
    then show ?thesis using less.prems(1) d(1) by (subst grow_send.simps) auto
  next
    case True
    then have cap: "2 * cc_recv_cap c < 2147483648" using less.prems(3) by simp
    obtain c1 where c1: "cc_expand malloc c = Inr c1" "cc_ok c1" "cc_recv_cap c1 = 2 * cc_recv_cap c"
      "cc_send_size c1 = cc_send_size c" "cc_recv_size c1 = cc_recv_size c"
      "cc_send_data c1 = cc_send_data c" "cc_recv_data c1 = cc_recv_data c"
      by (rule cc_expand_ok [OF m less.prems(1) cap])
    have "nat (cc_send_size c1 + n - cc_recv_cap c1) < nat (cc_send_size c + n - cc_recv_cap c)"
      using True c1(3,4) d(2) by simp
    from less.hyps [OF this c1(2)] less.prems(2,3) c1
    show ?thesis using True d(1) by (subst grow_send.simps) auto
  qed
qed

lemma cc_add_send_ok:
  assumes m: "malloc_ok malloc" and ok: "cc_ok c" and n: "2 * (length (cc_send_data c) + length d) < 2147483648"
  obtains c' where "cc_add_send malloc d c = Some (Inr c')" "cc_ok c'" "cc_send_data c' = cc_send_data c @ d"
    "cc_recv_data c' = cc_recv_data c" "cc_recv_size c' = cc_recv_size c"
proof -
  have n': "0 \<le> int (length d)" "2 * (cc_send_size c + int (length d)) < 2147483648"
    using n cc_data_length(1) [OF ok] by simp_all
  obtain c1 where g: "grow_send malloc (int (length d)) c = Some (Inr c1)" "cc_ok c1"
    "cc_send_size c1 + int (length d) \<le> cc_recv_cap c1" "cc_send_size c1 = cc_send_size c" "cc_send_data c1 = cc_send_data c"
    "cc_recv_data c1 = cc_recv_data c" "cc_recv_size c1 = cc_recv_size c"
    using grow_send_ok [OF m ok n'] by blast
  note e = cc_okD [OF g(2)]
  have w: "0 \<le> cc_send_size c1" "cc_send_size c1 + int (length d) \<le> int (length (cc_send_buf c1))" using e g(3) by simp_all
  obtain b where b: "mem_write (cc_send_buf c1) (cc_send_size c1) d = Inr b" "length b = length (cc_send_buf c1)"
    "take (nat (cc_send_size c1) + length d) b = take (nat (cc_send_size c1)) (cc_send_buf c1) @ d"
    by (rule mem_write_ok [OF w])
  let ?c = "c1\<lparr>cc_send_buf := b, cc_send_size := cc_send_size c1 + int (length d)\<rparr>"
  have "cc_add_send malloc d c = Some (Inr ?c)" using g(1) b(1) by (simp add: cc_add_send_def)
  moreover have "cc_ok ?c" using g(2,3) b(2) by (simp add: cc_ok_def)
  moreover have "cc_send_data ?c = cc_send_data c @ d"
  proof -
    have "nat (cc_send_size c1 + int (length d)) = nat (cc_send_size c1) + length d" using e by simp
    then show ?thesis using b(3) g(5) by (simp add: cc_send_data_def)
  qed
  ultimately show thesis using that g(6,7) by (simp add: cc_recv_data_def)
qed

section \<open>Frames\<close>

definition client_ready :: "bytes \<Rightarrow> bool" where
  "client_ready d \<longleftrightarrow> 2 < length d \<and> plen d \<le> int (length d)"

lemma cc_ready_eq: "cc_ok c \<Longrightarrow> cc_recv_proto_ready c = Inr (client_ready (cc_recv_data c))"
proof -
  assume ok: "cc_ok c"
  note d = cc_okD [OF ok]
  have l: "cc_recv_proto_len c = Inr (plen (cc_recv_buf c))"
    using d(2,5) by (simp add: cc_recv_proto_len_def ntohs_at_plen)
  have "plen (cc_recv_data c) = plen (cc_recv_buf c)" if "2 < cc_recv_size c"
    using that by (simp add: cc_recv_data_def plen_take)
  then show ?thesis using l cc_data_length(2) [OF ok] by (auto simp: cc_recv_proto_ready_def client_ready_def)
qed

lemma cc_proto_len_eq:
  "cc_ok c \<Longrightarrow> client_ready (cc_recv_data c) \<Longrightarrow> cc_recv_proto_len c = Inr (plen (cc_recv_data c))"
proof -
  assume ok: "cc_ok c" and rdy: "client_ready (cc_recv_data c)"
  note d = cc_okD [OF ok]
  have "2 < cc_recv_size c" using rdy cc_data_length(2) [OF ok] by (simp add: client_ready_def)
  then have "plen (cc_recv_data c) = plen (cc_recv_buf c)" by (simp add: cc_recv_data_def plen_take)
  then show ?thesis using d(2,5) by (simp add: cc_recv_proto_len_def ntohs_at_plen)
qed

lemma cc_skip_recv_ok:
  assumes ok: "cc_ok c" and n: "0 \<le> n" "n \<le> cc_recv_size c"
  obtains c' where "cc_skip_recv n c = Inr c'" "cc_ok c'" "cc_recv_data c' = drop (nat n) (cc_recv_data c)"
    "cc_send_data c' = cc_send_data c"
proof -
  note d = cc_okD [OF ok]
  let ?d = "take (nat (cc_recv_size c - n)) (drop (nat n) (cc_recv_buf c))"
  have len: "length ?d = nat (cc_recv_size c - n)" using d n by simp
  have r: "mem_read (cc_recv_buf c) n (cc_recv_size c - n) = Inr ?d" using d n by (simp add: mem_read_in)
  have w: "mem_write (cc_recv_buf c) 0 ?d = Inr (?d @ drop (length ?d) (cc_recv_buf c))"
    using d n len by (simp add: mem_write_def)
  let ?c = "c\<lparr>cc_recv_size := cc_recv_size c - n, cc_recv_buf := ?d @ drop (length ?d) (cc_recv_buf c)\<rparr>"
  have "cc_skip_recv n c = Inr ?c" using r w by (simp add: cc_skip_recv_def Let_def)
  moreover have "cc_ok ?c" using ok n len d by (simp add: cc_ok_def)
  moreover have "cc_recv_data ?c = drop (nat n) (cc_recv_data c)"
    using len n by (simp add: cc_recv_data_def drop_take nat_diff_distrib)
  ultimately show thesis using that by (simp add: cc_send_data_def)
qed

text \<open>The beginning of a stream of frames, cut anywhere.\<close>

lemma client_cut:
  assumes "\<forall>m\<in>set ms. 1 \<le> length m \<and> length m + 2 < 65536" "a @ b = concat (map encode_frame ms)"
  shows "\<exists>ms1 ms2 r. ms = ms1 @ ms2 \<and> a = concat (map encode_frame ms1) @ r \<and> r @ b = concat (map encode_frame ms2) \<and>
    \<not> client_ready r \<and> (r = [] \<or> (\<exists>m\<in>set ms2. length r < length m + 2))"
  using assms
proof (induction ms arbitrary: a)
  case Nil
  then show ?case by (simp add: client_ready_def)
next
  case (Cons m ms)
  have len: "1 \<le> length m" "length m + 2 < 65536" using Cons.prems(1) by simp_all
  have eq: "a @ b = encode_frame m @ concat (map encode_frame ms)" using Cons.prems(2) by simp
  show ?case
  proof (cases "length m + 2 \<le> length a")
    case True
    then obtain a' where a: "a = encode_frame m @ a'"
      using eq by (metis append_eq_append_conv_if encode_frame_length append_take_drop_id)
    then have "a' @ b = concat (map encode_frame ms)" using eq by simp
    from Cons.IH [OF _ this] Cons.prems(1)
    obtain ms1 ms2 r where "ms = ms1 @ ms2" "a' = concat (map encode_frame ms1) @ r" "r @ b = concat (map encode_frame ms2)"
      "\<not> client_ready r" "r = [] \<or> (\<exists>m\<in>set ms2. length r < length m + 2)" by auto
    then show ?thesis using a by (intro exI [of _ "m # ms1"] exI [of _ ms2] exI [of _ r]) simp
  next
    case False
    have "\<not> client_ready a"
    proof
      assume rdy: "client_ready a"
      have "plen a = plen (a @ b)" using rdy by (simp add: plen_append client_ready_def)
      also have "\<dots> = int (length m) + 2" unfolding eq by (rule encode_frame_plen [OF len(2)])
      finally show False using rdy False by (simp add: client_ready_def)
    qed
    then show ?thesis using False Cons.prems(2)
      by (intro exI [of _ "[]"] exI [of _ "m # ms"] exI [of _ a]) auto
  qed
qed

section \<open>Answers\<close>

text \<open>What dispatching one answer prints.\<close>

definition client_reply :: "(int \<times> client_wrapper) list \<Rightarrow> cs_msg \<Rightarrow> teffect list" where
  "client_reply rmap m =
     (case map_of rmap (cs_cmd m) of
        None \<Rightarrow> []
      | Some wp \<Rightarrow> T_Say wp (cs_ret m = 0) #
          (if wp = W_Quick_Reg \<and> cs_ret m = 0
           then [T_Account (am_account (account_msg_of (cs_quick_reg_res m))) (am_password (account_msg_of (cs_quick_reg_res m)))]
           else []))"

lemma dispatch_res_reply: "snd (dispatch_res_msg m c) = c\<lparr>tc_out := tc_out c @ client_reply (tc_res_map c) m\<rparr>"
  by (simp add: dispatch_res_msg_def client_reply_def client_on_def temit_def Let_def split: option.split)

lemma client_handle_ok:
  assumes ok: "cc_ok (tc_cache c)" and data: "cc_recv_data (tc_cache c) = encode_frame b @ rest"
    and len: "1 \<le> length b" "length b + 2 < 65536" and parse: "cl_parse sys (int (length b)) b = Some m"
  obtains k where "client_handle sys c = Inr (True, c\<lparr>tc_out := tc_out c @ client_reply (tc_res_map c) m, tc_cache := k\<rparr>)"
    "cc_ok k" "cc_recv_data k = rest" "cc_send_data k = cc_send_data (tc_cache c)"
proof -
  let ?k = "tc_cache c" let ?n = "int (length b) + 2"
  have pl: "plen (cc_recv_data ?k) = ?n" unfolding data by (rule encode_frame_plen [OF len(2)])
  have dl: "length (cc_recv_data ?k) = length b + 2 + length rest" unfolding data by (simp add: encode_frame_length)
  have "client_ready (cc_recv_data ?k)" using pl dl len by (auto simp: client_ready_def)
  then have l: "cc_recv_proto_len ?k = Inr ?n" using cc_proto_len_eq [OF ok] pl by simp
  have sz: "cc_recv_size ?k = int (length b + 2 + length rest)" using dl cc_data_length(2) [OF ok] by simp
  have "take (length b) (drop 2 (cc_recv_buf ?k)) = take (length b) (drop 2 (cc_recv_data ?k))"
    using sz by (simp add: cc_recv_data_def drop_take min_def)
  also have "\<dots> = b" unfolding data by (simp add: encode_frame_def put_u16_be_def)
  finally have body: "take (length b) (drop 2 (cc_recv_buf ?k)) = b" .
  have n: "0 \<le> ?n" "?n \<le> cc_recv_size ?k" using sz by simp_all
  obtain k where k: "cc_skip_recv ?n ?k = Inr k" "cc_ok k" "cc_recv_data k = drop (nat ?n) (cc_recv_data ?k)"
    "cc_send_data k = cc_send_data ?k"
    by (rule cc_skip_recv_ok [OF ok n])
  have rest: "cc_recv_data k = rest" using k(3) data encode_frame_length [of b] by simp
  have "client_handle sys c = Inr (True, c\<lparr>tc_out := tc_out c @ client_reply (tc_res_map c) m, tc_cache := k\<rparr>)"
    using l body parse k(1) by (simp add: client_handle_def Let_def dispatch_res_reply cc_skip_recv_proto_def)
  then show thesis by (rule that) (use k rest in simp_all)
qed

definition client_wire :: "client_sys \<Rightarrow> (cs_msg \<Rightarrow> bytes) \<Rightarrow> cs_msg \<Rightarrow> bool" where
  "client_wire sys wire m \<longleftrightarrow> 1 \<le> length (wire m) \<and> length (wire m) + 2 < 65536 \<and>
     cl_parse sys (int (length (wire m))) (wire m) = Some m"

lemma client_loop_ok:
  assumes "\<forall>m\<in>set ms. client_wire sys wire m" "cc_ok (tc_cache c)" "\<not> client_ready r"
    "cc_recv_data (tc_cache c) = concat (map (\<lambda>m. encode_frame (wire m)) ms) @ r"
  shows "\<exists>k. client_loop sys c =
      Some (Inr (c\<lparr>tc_out := tc_out c @ concat (map (client_reply (tc_res_map c)) ms), tc_cache := k\<rparr>)) \<and>
    cc_ok k \<and> cc_recv_data k = r \<and> cc_send_data k = cc_send_data (tc_cache c)"
  using assms
proof (induction ms arbitrary: c)
  case Nil
  then have "cc_recv_proto_ready (tc_cache c) = Inr False" by (simp add: cc_ready_eq)
  then show ?case using Nil.prems by (subst client_loop.simps) (auto intro: exI [of _ "tc_cache c"])
next
  case (Cons m ms)
  let ?rest = "concat (map (\<lambda>m. encode_frame (wire m)) ms) @ r"
  have w: "1 \<le> length (wire m)" "length (wire m) + 2 < 65536" "cl_parse sys (int (length (wire m))) (wire m) = Some m"
    using Cons.prems(1) by (simp_all add: client_wire_def)
  have data: "cc_recv_data (tc_cache c) = encode_frame (wire m) @ ?rest" using Cons.prems(4) by simp
  have "plen (cc_recv_data (tc_cache c)) = int (length (wire m)) + 2" unfolding data by (rule encode_frame_plen [OF w(2)])
  then have "client_ready (cc_recv_data (tc_cache c))"
    using w(1) data by (auto simp: client_ready_def)
  then have rdy: "cc_recv_proto_ready (tc_cache c) = Inr True" using cc_ready_eq [OF Cons.prems(2)] by simp
  obtain k where k: "client_handle sys c = Inr (True, c\<lparr>tc_out := tc_out c @ client_reply (tc_res_map c) m, tc_cache := k\<rparr>)"
    "cc_ok k" "cc_recv_data k = ?rest" "cc_send_data k = cc_send_data (tc_cache c)"
    by (rule client_handle_ok [OF Cons.prems(2) data w])
  let ?c = "c\<lparr>tc_out := tc_out c @ client_reply (tc_res_map c) m, tc_cache := k\<rparr>"
  have "client_loop sys c = client_loop sys ?c" by (subst client_loop.simps) (simp add: rdy k(1))
  moreover have "\<exists>k'. client_loop sys ?c =
      Some (Inr (?c\<lparr>tc_out := tc_out ?c @ concat (map (client_reply (tc_res_map ?c)) ms), tc_cache := k'\<rparr>)) \<and>
    cc_ok k' \<and> cc_recv_data k' = r \<and> cc_send_data k' = cc_send_data (tc_cache ?c)"
    by (rule Cons.IH) (use Cons.prems k in simp_all)
  ultimately show ?case using k(4) by simp
qed

section \<open>The loop\<close>

text \<open>Bytes received so far, and what was printed.\<close>

definition received :: "teffect list \<Rightarrow> int" where
  "received es = sum_list (map (\<lambda>e. case e of T_Recv n \<Rightarrow> max 0 n | _ \<Rightarrow> 0) es)"

definition printed :: "teffect list \<Rightarrow> teffect list" where
  "printed es = filter (\<lambda>e. case e of T_Recv n \<Rightarrow> False | _ \<Rightarrow> True) es"

lemma received_append: "received (a @ b) = received a + received b"
  by (simp add: received_def)

lemma printed_append: "printed (a @ b) = printed a @ printed b"
  by (simp add: printed_def)

lemma client_reply_effects: "received (client_reply rmap m) = 0" "printed (client_reply rmap m) = client_reply rmap m"
  by (simp_all add: client_reply_def received_def printed_def split: option.split)

lemma client_replies_effects:
  "received (concat (map (client_reply rmap) ms)) = 0"
  "printed (concat (map (client_reply rmap) ms)) = concat (map (client_reply rmap) ms)"
proof -
  show "received (concat (map (client_reply rmap) ms)) = 0"
    by (induction ms) (simp add: received_def, simp add: received_append client_reply_effects(1))
  show "printed (concat (map (client_reply rmap) ms)) = concat (map (client_reply rmap) ms)"
    by (induction ms) (simp add: printed_def, simp add: printed_append client_reply_effects(2))
qed

lemma client_recv_ok:
  assumes w: "\<forall>m\<in>set ms. client_wire sys wire m" and ok: "cc_ok (tc_cache c)" and r: "\<not> client_ready r"
    and p: "p \<noteq> []" "cc_recv_size (tc_cache c) + int (length p) \<le> cc_recv_cap (tc_cache c)"
    and data: "cc_recv_data (tc_cache c) @ p = concat (map (\<lambda>m. encode_frame (wire m)) ms) @ r"
  obtains k where "client_recv sys (int (length p), p, again) c =
      Some (Inr (c\<lparr>tc_out := tc_out c @ T_Recv (int (length p)) # concat (map (client_reply (tc_res_map c)) ms), tc_cache := k\<rparr>))"
    "cc_ok k" "cc_recv_data k = r" "cc_send_data k = cc_send_data (tc_cache c)"
proof -
  let ?k = "tc_cache c"
  note d = cc_okD [OF ok]
  have bnd: "0 \<le> cc_recv_size ?k" "cc_recv_size ?k + int (length p) \<le> int (length (cc_recv_buf ?k))" using d p(2) by simp_all
  obtain b where b: "mem_write (cc_recv_buf ?k) (cc_recv_size ?k) p = Inr b" "length b = length (cc_recv_buf ?k)"
    "take (nat (cc_recv_size ?k) + length p) b = take (nat (cc_recv_size ?k)) (cc_recv_buf ?k) @ p"
    by (rule mem_write_ok [OF bnd])
  let ?k1 = "?k\<lparr>cc_recv_buf := b, cc_recv_size := cc_recv_size ?k + int (length p)\<rparr>"
  let ?c1 = "c\<lparr>tc_out := tc_out c @ [T_Recv (int (length p))], tc_cache := ?k1\<rparr>"
  have ok1: "cc_ok ?k1" using ok p(2) b(2) by (simp add: cc_ok_def)
  have "nat (cc_recv_size ?k + int (length p)) = nat (cc_recv_size ?k) + length p" using d by simp
  then have data1: "cc_recv_data ?k1 = concat (map (\<lambda>m. encode_frame (wire m)) ms) @ r"
    using b(3) data by (simp add: cc_recv_data_def)
  have "\<exists>k. client_loop sys ?c1 =
      Some (Inr (?c1\<lparr>tc_out := tc_out ?c1 @ concat (map (client_reply (tc_res_map ?c1)) ms), tc_cache := k\<rparr>)) \<and>
    cc_ok k \<and> cc_recv_data k = r \<and> cc_send_data k = cc_send_data (tc_cache ?c1)"
    by (rule client_loop_ok) (use w ok1 r data1 in simp_all)
  then obtain k where k: "client_loop sys ?c1 =
      Some (Inr (?c1\<lparr>tc_out := tc_out ?c1 @ concat (map (client_reply (tc_res_map ?c1)) ms), tc_cache := k\<rparr>))"
    "cc_ok k" "cc_recv_data k = r" "cc_send_data k = cc_send_data (tc_cache ?c1)" by blast
  have "client_recv sys (int (length p), p, again) c = client_loop sys ?c1"
    using p(1) b(1) by (simp add: client_recv_def temit_def)
  then show thesis by (intro that [of k]) (use k in \<open>simp_all add: cc_send_data_def\<close>)
qed

text \<open>A server whose answers are the bytes \<open>d\<close>: each \<open>recv\<close> returns some of those that are left, as
  many as it likes but no more than there is room for, and \<open>EAGAIN\<close> once there are none.\<close>

definition client_net :: "client_sys \<Rightarrow> bytes \<Rightarrow> bool" where
  "client_net sys d \<longleftrightarrow> (\<forall>es room. 0 < room \<longrightarrow>
     (let s = drop (nat (received es)) d in
      if s = [] then cl_recv sys es room = (- 1, [], True)
      else \<exists>n. 1 \<le> n \<and> n \<le> length s \<and> int n \<le> room \<and> cl_recv sys es room = (int n, take n s, False)))"

lemma client_netD:
  assumes "client_net sys d" "0 < room" "s = drop (nat (received es)) d"
  shows "s = [] \<Longrightarrow> cl_recv sys es room = (- 1, [], True)"
    "s \<noteq> [] \<Longrightarrow> \<exists>n. 1 \<le> n \<and> n \<le> length s \<and> int n \<le> room \<and> cl_recv sys es room = (int n, take n s, False)"
proof -
  have net: "if s = [] then cl_recv sys es room = (- 1, [], True)
      else \<exists>n. 1 \<le> n \<and> n \<le> length s \<and> int n \<le> room \<and> cl_recv sys es room = (int n, take n s, False)"
    using assms(1,2) unfolding client_net_def Let_def assms(3) by blast
  show "s = [] \<Longrightarrow> cl_recv sys es room = (- 1, [], True)" using net by simp
  show "s \<noteq> [] \<Longrightarrow> \<exists>n. 1 \<le> n \<and> n \<le> length s \<and> int n \<le> room \<and> cl_recv sys es room = (int n, take n s, False)"
    using net by simp
qed

lemma client_run_idle:
  "cc_send_size (tc_cache c) = 0 \<Longrightarrow>
   client_run sys c = client_recv sys (cl_recv sys (tc_out c) (cc_recv_cap (tc_cache c) - cc_recv_size (tc_cache c))) c"
  by (simp add: client_run_def client_send_def)

lemma client_runs_stream:
  assumes "client_net sys d" "\<forall>m\<in>set ms. client_wire sys wire m" "cc_ok (tc_cache c)" "cc_send_data (tc_cache c) = []"
    "length (cc_recv_data (tc_cache c)) < 65536" "\<not> client_ready (cc_recv_data (tc_cache c))"
    "cc_recv_data (tc_cache c) @ drop (nat (received (tc_out c))) d = concat (map (\<lambda>m. encode_frame (wire m)) ms)"
    "0 \<le> received (tc_out c)" "length d \<le> nat (received (tc_out c)) + n"
  shows "\<exists>c'. client_runs sys n c = Some (Inr c') \<and> cc_recv_data (tc_cache c') = [] \<and>
    printed (tc_out c') = printed (tc_out c) @ concat (map (client_reply (tc_res_map c)) ms)"
  using assms
proof (induction n arbitrary: c ms)
  case 0
  let ?r = "cc_recv_data (tc_cache c)"
  have all: "?r = concat (map (\<lambda>m. encode_frame (wire m)) ms)" using "0.prems"(7,9) by simp
  have "ms = []"
  proof (rule ccontr)
    assume "ms \<noteq> []"
    then obtain m ms' where ms: "ms = m # ms'" by (cases ms) auto
    have w: "1 \<le> length (wire m)" "length (wire m) + 2 < 65536" using "0.prems"(2) ms by (simp_all add: client_wire_def)
    have eq: "?r = encode_frame (wire m) @ concat (map (\<lambda>m. encode_frame (wire m)) ms')" using all ms by simp
    have "plen ?r = int (length (wire m)) + 2" unfolding eq by (rule encode_frame_plen [OF w(2)])
    then have "client_ready ?r" using eq w(1) by (auto simp: client_ready_def)
    then show False using "0.prems"(6) by simp
  qed
  then show ?case using all by simp
next
  case (Suc n)
  let ?k = "tc_cache c" let ?r = "cc_recv_data ?k" let ?s = "drop (nat (received (tc_out c))) d"
  let ?room = "cc_recv_cap ?k - cc_recv_size ?k"
  note d = cc_okD [OF Suc.prems(3)]
  have room: "0 < ?room" using d(2) Suc.prems(5) cc_data_length(2) [OF Suc.prems(3)] by simp
  have "cc_send_size ?k = 0" using cc_data_length(1) [OF Suc.prems(3)] Suc.prems(4) by simp
  note run = client_run_idle [OF this, of sys]
  show ?case
  proof (cases "?s = []")
    case True
    let ?c = "c\<lparr>tc_out := tc_out c @ [T_Recv (- 1)]\<rparr>"
    have "client_run sys c = Some (Inr ?c)"
      using run client_netD(1) [OF Suc.prems(1) room refl True] by (simp add: client_recv_def temit_def)
    then have "client_runs sys (Suc n) c = client_runs sys n ?c" by simp
    moreover have "received (tc_out ?c) = received (tc_out c)" "printed (tc_out ?c) = printed (tc_out c)"
      by (simp_all add: received_def printed_def)
    moreover have "\<exists>c'. client_runs sys n ?c = Some (Inr c') \<and> cc_recv_data (tc_cache c') = [] \<and>
      printed (tc_out c') = printed (tc_out ?c) @ concat (map (client_reply (tc_res_map ?c)) ms)"
      by (rule Suc.IH [OF Suc.prems(1,2)]) (use Suc.prems True calculation(2) in simp_all)
    ultimately show ?thesis by simp
  next
    case False
    obtain j where j: "1 \<le> j" "j \<le> length ?s" "int j \<le> ?room" "cl_recv sys (tc_out c) ?room = (int j, take j ?s, False)"
      using client_netD(2) [OF Suc.prems(1) room refl False] by blast
    let ?p = "take j ?s"
    have lp: "length ?p = j" using j(2) by simp
    have eq: "(?r @ ?p) @ drop j ?s = concat (map encode_frame (map wire ms))"
      using Suc.prems(7) by (simp add: comp_def del: drop_drop)
    have wl: "\<forall>m\<in>set (map wire ms). 1 \<le> length m \<and> length m + 2 < 65536" using Suc.prems(2) by (auto simp: client_wire_def)
    obtain wa wb r where cut: "map wire ms = wa @ wb" "?r @ ?p = concat (map encode_frame wa) @ r"
      "r @ drop j ?s = concat (map encode_frame wb)" "\<not> client_ready r" "r = [] \<or> (\<exists>m\<in>set wb. length r < length m + 2)"
      using client_cut [OF wl eq] by blast
    obtain ma mb where ms: "ms = ma @ mb" "wa = map wire ma" "wb = map wire mb" using cut(1) by (auto simp: map_eq_append_conv)
    have wa: "\<forall>m\<in>set ma. client_wire sys wire m" and wb: "\<forall>m\<in>set mb. client_wire sys wire m"
      using Suc.prems(2) ms(1) by simp_all
    have pne: "?p \<noteq> []" using lp j(1) by auto
    have fit: "cc_recv_size ?k + int (length ?p) \<le> cc_recv_cap ?k" using lp j(3) by simp
    have data: "?r @ ?p = concat (map (\<lambda>m. encode_frame (wire m)) ma) @ r" using cut(2) ms(2) by (simp add: comp_def)
    obtain k where k: "client_recv sys (int (length ?p), ?p, False) c =
        Some (Inr (c\<lparr>tc_out := tc_out c @ T_Recv (int (length ?p)) # concat (map (client_reply (tc_res_map c)) ma), tc_cache := k\<rparr>))"
      "cc_ok k" "cc_recv_data k = r" "cc_send_data k = cc_send_data ?k"
      by (rule client_recv_ok [OF wa Suc.prems(3) cut(4) pne fit data])
    let ?c = "c\<lparr>tc_out := tc_out c @ T_Recv (int j) # concat (map (client_reply (tc_res_map c)) ma), tc_cache := k\<rparr>"
    have step: "client_runs sys (Suc n) c = client_runs sys n ?c" using run j(4) k(1) lp by simp
    have rcv: "received (tc_out ?c) = received (tc_out c) + int j"
      using received_append [of "tc_out c" "T_Recv (int j) # concat (map (client_reply (tc_res_map c)) ma)"]
        received_append [of "[T_Recv (int j)]" "concat (map (client_reply (tc_res_map c)) ma)"] client_replies_effects(1)
      by (simp add: received_def)
    have prt: "printed (tc_out ?c) = printed (tc_out c) @ concat (map (client_reply (tc_res_map c)) ma)"
      using printed_append [of "[T_Recv (int j)]" "concat (map (client_reply (tc_res_map c)) ma)"]
      by (simp add: printed_append client_replies_effects(2)) (simp add: printed_def)
    have nat_rcv: "nat (received (tc_out ?c)) = nat (received (tc_out c)) + j" using rcv Suc.prems(8) by simp
    have "r @ drop (nat (received (tc_out ?c))) d = concat (map (\<lambda>m. encode_frame (wire m)) mb)"
      using cut(3) ms(3) nat_rcv by (simp add: comp_def add.commute)
    moreover have "length r < 65536" using cut(5) ms(3) wb by (force simp: client_wire_def)
    moreover have "length d \<le> nat (received (tc_out ?c)) + n" using Suc.prems(9) nat_rcv j(1) by simp
    moreover have "0 \<le> received (tc_out ?c)" using rcv Suc.prems(8) by simp
    ultimately have "\<exists>c'. client_runs sys n ?c = Some (Inr c') \<and> cc_recv_data (tc_cache c') = [] \<and>
      printed (tc_out c') = printed (tc_out ?c) @ concat (map (client_reply (tc_res_map ?c)) mb)"
      by (intro Suc.IH [OF Suc.prems(1) wb]) (use k cut(4) Suc.prems(4) in simp_all)
    then show ?thesis using step prt ms(1) by simp
  qed
qed

text \<open>C24: However TCP cuts the server's answers, and however few bytes each \<open>recv\<close> returns, the client's
  loop dispatches exactly the answers, complete, in order, each once: after as many runs as there
  are bytes it has printed what the handlers print for them and holds no byte back.\<close>

theorem client_stream:
  assumes "client_net sys (concat (map (\<lambda>m. encode_frame (wire m)) ms))" "\<forall>m\<in>set ms. client_wire sys wire m"
    and "cc_ok (tc_cache c)" "cc_send_data (tc_cache c) = []" "cc_recv_data (tc_cache c) = []" "received (tc_out c) = 0"
    and "length (concat (map (\<lambda>m. encode_frame (wire m)) ms)) \<le> n"
  shows "\<exists>c'. client_runs sys n c = Some (Inr c') \<and> cc_recv_data (tc_cache c') = [] \<and>
    printed (tc_out c') = printed (tc_out c) @ concat (map (client_reply (tc_res_map c)) ms)"
  by (rule client_runs_stream [OF assms(1-4)]) (use assms(5-7) in \<open>simp_all add: client_ready_def\<close>)

definition example_cache :: conn_cache where
  "example_cache = \<lparr>cc_send_buf = replicate 102400 0, cc_send_size = 0, cc_send_cap = 102400,
     cc_recv_buf = replicate 102400 0, cc_recv_size = 0, cc_recv_cap = 102400\<rparr>"

definition example_client :: tcp_client where
  "example_client = \<lparr>tc_cache = example_cache, tc_sock = 5, tc_errno = 0, tc_free_seq = 10000,
     tc_req_map = [(kLoginReq, W_Login), (kQuickRegReq, W_Quick_Reg)],
     tc_res_map = [(kLoginRes, W_Login), (kQuickRegRes, W_Quick_Reg)], tc_out = []\<rparr>"

lemma example_cache_ok: "cc_ok example_cache" "cc_send_data example_cache = []" "cc_recv_data example_cache = []"
  by (simp_all add: cc_ok_def cc_send_data_def cc_recv_data_def example_cache_def)

definition login_ok :: cs_msg where
  "login_ok = cs_empty\<lparr>cs_cmd := kLoginRes, cs_ret := 0\<rparr>"

text \<open>A network that delivers \<open>d\<close> byte by byte and takes one byte per \<open>send\<close>.\<close>

definition byte_net :: "bytes \<Rightarrow> client_sys" where
  "byte_net d = \<lparr>cl_malloc = \<lambda>_ _ n. Some (replicate (nat n) 7), cl_socket = \<lambda>_. 6, cl_connect = \<lambda>_. 0, cl_nonblock = \<lambda>_. True,
     cl_send = \<lambda>_ buf. (1, False),
     cl_recv = \<lambda>es room. (let s = drop (nat (received es)) d in if s = [] then (- 1, [], True) else (1, take 1 s, False)),
     cl_ser = \<lambda>m. Some [1, 2, 3, of_nat (length (am_account (account_msg_of (cs_login_req m))))], cl_parse = \<lambda>n b. Some login_ok\<rparr>"

lemma byte_net_ok: "client_net (byte_net d) d" "malloc_ok (cl_malloc (byte_net d) es)"
  by (auto simp: client_net_def byte_net_def malloc_ok_def Let_def intro!: exI [of _ 1])

theorem client_stream_witness:
  "\<exists>c'. client_runs (byte_net (concat (map encode_frame [[1, 2, 3], [1, 2, 3]]))) 10 example_client = Some (Inr c') \<and>
    printed (tc_out c') = [T_Say W_Login True, T_Say W_Login True]"
proof -
  let ?d = "concat (map (\<lambda>m. encode_frame [1, 2, 3]) [login_ok, login_ok])"
  have w: "\<forall>m\<in>set [login_ok, login_ok]. client_wire (byte_net ?d) (\<lambda>_. [1, 2, 3]) m"
    by (simp add: client_wire_def byte_net_def)
  have n: "length ?d \<le> 10" by simp
  have c: "cc_ok (tc_cache example_client)" "cc_send_data (tc_cache example_client) = []" "cc_recv_data (tc_cache example_client) = []"
    "received (tc_out example_client) = 0"
    using example_cache_ok by (simp_all add: example_client_def received_def)
  have r: "printed (tc_out example_client) @ concat (map (client_reply (tc_res_map example_client)) [login_ok, login_ok]) =
    [T_Say W_Login True, T_Say W_Login True]"
    by (simp add: client_reply_def example_client_def login_ok_def printed_def cs_empty_def)
  show ?thesis using client_stream [where wire = "\<lambda>_. [1, 2, 3]" and ms = "[login_ok, login_ok]", OF byte_net_ok(1) w c n]
    unfolding r by auto
qed

text \<open>An answer that cannot be parsed stays at the front of the buffer: the loop stops there, and every
  later run meets it again.\<close>

lemma bad_answer_kept:
  assumes ok: "cc_ok (tc_cache c)" and rdy: "client_ready (cc_recv_data (tc_cache c))"
    and bad: "\<And>n b. cl_parse sys n b = None"
  shows "client_loop sys c = Some (Inr c)"
proof -
  have "cc_recv_proto_ready (tc_cache c) = Inr True" using cc_ready_eq [OF ok] rdy by simp
  moreover have "client_handle sys c = Inr (False, c)" using cc_proto_len_eq [OF ok rdy] bad by (simp add: client_handle_def)
  ultimately show ?thesis by (subst client_loop.simps) simp
qed

section \<open>Requests\<close>

definition client_request :: "int \<Rightarrow> client_wrapper \<Rightarrow> 64 word \<Rightarrow> cs_msg" where
  "client_request cmd wp sq = snd (client_do wp (cs_empty\<lparr>cs_cmd := cmd, cs_seq := sq\<rparr>))"

text \<open>The serialised requests for a list of commands, numbered from \<open>sq\<close>.\<close>

fun client_bodies :: "client_sys \<Rightarrow> (int \<times> client_wrapper) list \<Rightarrow> 64 word \<Rightarrow> int list \<Rightarrow> bytes list option" where
  "client_bodies sys rmap sq [] = Some []"
| "client_bodies sys rmap sq (cmd # cmds) =
     (case map_of rmap cmd of
        None \<Rightarrow> None
      | Some wp \<Rightarrow>
          (case cl_ser sys (client_request cmd wp sq) of
             None \<Rightarrow> None
           | Some b \<Rightarrow> map_option (Cons b) (client_bodies sys rmap (sq + 1) cmds)))"

fun client_reqs :: "client_sys \<Rightarrow> int list \<Rightarrow> tcp_client \<Rightarrow> tcp_client res option" where
  "client_reqs sys [] c = Some (Inr c)"
| "client_reqs sys (cmd # cmds) c =
     (case dispatch_req_msg sys cmd c of
        None \<Rightarrow> None
      | Some (Inl e) \<Rightarrow> Some (Inl e)
      | Some (Inr (_, c1)) \<Rightarrow> client_reqs sys cmds c1)"

lemma dispatch_req_ok:
  assumes m: "malloc_ok (cl_malloc sys (tc_out c))" and ok: "cc_ok (tc_cache c)" and wp: "map_of (tc_req_map c) cmd = Some wp"
    and b: "cl_ser sys (client_request cmd wp (tc_free_seq c)) = Some b"
    and n: "2 * (length (cc_send_data (tc_cache c)) + length (encode_frame b)) < 2147483648"
  obtains k where "dispatch_req_msg sys cmd c = Some (Inr (0, c\<lparr>tc_free_seq := tc_free_seq c + 1, tc_cache := k\<rparr>))"
    "cc_ok k" "cc_send_data k = cc_send_data (tc_cache c) @ encode_frame b"
proof -
  obtain k where k: "cc_add_send (cl_malloc sys (tc_out c)) (encode_frame b) (tc_cache c) = Some (Inr k)" "cc_ok k"
    "cc_send_data k = cc_send_data (tc_cache c) @ encode_frame b"
    by (rule cc_add_send_ok [OF m ok n])
  have "client_do wp (cs_empty\<lparr>cs_cmd := cmd, cs_seq := tc_free_seq c\<rparr>) = (0, client_request cmd wp (tc_free_seq c))"
    by (cases wp) (simp_all add: client_request_def)
  then have "dispatch_req_msg sys cmd c = Some (Inr (0, c\<lparr>tc_free_seq := tc_free_seq c + 1, tc_cache := k\<rparr>))"
    using wp b k(1) by (simp add: dispatch_req_msg_def client_send_data_def Let_def)
  then show thesis using that k(2,3) by blast
qed

lemma client_reqs_ok:
  assumes "\<And>es. malloc_ok (cl_malloc sys es)" "cc_ok (tc_cache c)"
    "client_bodies sys (tc_req_map c) (tc_free_seq c) cmds = Some bs"
    "2 * (length (cc_send_data (tc_cache c)) + length (concat (map encode_frame bs))) < 2147483648"
  shows "\<exists>k sq. client_reqs sys cmds c = Some (Inr (c\<lparr>tc_free_seq := sq, tc_cache := k\<rparr>)) \<and>
    cc_ok k \<and> cc_send_data k = cc_send_data (tc_cache c) @ concat (map encode_frame bs)"
  using assms(2-4)
proof (induction cmds arbitrary: c bs)
  case Nil
  then show ?case by (auto intro!: exI [of _ "tc_cache c"] exI [of _ "tc_free_seq c"])
next
  case (Cons cmd cmds)
  obtain wp b bs' where wp: "map_of (tc_req_map c) cmd = Some wp" and b: "cl_ser sys (client_request cmd wp (tc_free_seq c)) = Some b"
    and rest: "client_bodies sys (tc_req_map c) (tc_free_seq c + 1) cmds = Some bs'" "bs = b # bs'"
    using Cons.prems(2) by (auto split: option.splits)
  have n: "2 * (length (cc_send_data (tc_cache c)) + length (encode_frame b)) < 2147483648" using Cons.prems(3) rest(2) by simp
  obtain k where k: "dispatch_req_msg sys cmd c = Some (Inr (0, c\<lparr>tc_free_seq := tc_free_seq c + 1, tc_cache := k\<rparr>))"
    "cc_ok k" "cc_send_data k = cc_send_data (tc_cache c) @ encode_frame b"
    by (rule dispatch_req_ok [OF assms(1) Cons.prems(1) wp b n])
  let ?c = "c\<lparr>tc_free_seq := tc_free_seq c + 1, tc_cache := k\<rparr>"
  have "client_reqs sys (cmd # cmds) c = client_reqs sys cmds ?c" using k(1) by simp
  moreover have "\<exists>k' sq. client_reqs sys cmds ?c = Some (Inr (?c\<lparr>tc_free_seq := sq, tc_cache := k'\<rparr>)) \<and>
    cc_ok k' \<and> cc_send_data k' = cc_send_data (tc_cache ?c) @ concat (map encode_frame bs')"
    by (rule Cons.IH) (use rest Cons.prems(3) k in simp_all)
  ultimately show ?case using k(3) rest(2) by simp
qed

text \<open>Bytes the kernel took.\<close>

definition sent_bytes :: "teffect list \<Rightarrow> bytes" where
  "sent_bytes es = concat (map (\<lambda>e. case e of T_Send buf ret \<Rightarrow> take (nat ret) buf | _ \<Rightarrow> []) es)"

text \<open>A connection on which nothing arrives, and each \<open>send\<close> takes at least one byte.\<close>

definition client_uplink :: "client_sys \<Rightarrow> bool" where
  "client_uplink sys \<longleftrightarrow> (\<forall>es room. cl_recv sys es room = (- 1, [], True)) \<and>
     (\<forall>es buf. buf \<noteq> [] \<longrightarrow> (\<exists>k. 1 \<le> k \<and> k \<le> length buf \<and> cl_send sys es buf = (int k, False)))"

lemma cc_skip_send_ok:
  assumes ok: "cc_ok c" and n: "0 \<le> n" "n \<le> cc_send_size c"
  obtains c' where "cc_skip_send n c = Inr c'" "cc_ok c'" "cc_send_data c' = drop (nat n) (cc_send_data c)"
proof -
  note d = cc_okD [OF ok]
  let ?d = "take (nat (cc_send_size c - n)) (drop (nat n) (cc_send_buf c))"
  have len: "length ?d = nat (cc_send_size c - n)" using d n by simp
  have r: "mem_read (cc_send_buf c) n (cc_send_size c - n) = Inr ?d" using d n by (simp add: mem_read_in)
  have w: "mem_write (cc_send_buf c) 0 ?d = Inr (?d @ drop (length ?d) (cc_send_buf c))"
    using d n len by (simp add: mem_write_def)
  let ?c = "c\<lparr>cc_send_size := cc_send_size c - n, cc_send_buf := ?d @ drop (length ?d) (cc_send_buf c)\<rparr>"
  have "cc_skip_send n c = Inr ?c" using r w by (simp add: cc_skip_send_def Let_def)
  moreover have "cc_ok ?c" using ok n len d by (simp add: cc_ok_def)
  moreover have "cc_send_data ?c = drop (nat n) (cc_send_data c)"
    using len n by (simp add: cc_send_data_def drop_take nat_diff_distrib)
  ultimately show thesis using that by blast
qed

lemma client_send_part:
  assumes ok: "cc_ok (tc_cache c)" and ne: "cc_send_data (tc_cache c) \<noteq> []"
    and k: "k \<le> length (cc_send_data (tc_cache c))" "cl_send sys (tc_out c) (cc_send_data (tc_cache c)) = (int k, False)"
  obtains q where "client_send sys c = Inr (True, c\<lparr>tc_out := tc_out c @ [T_Send (cc_send_data (tc_cache c)) (int k)], tc_cache := q\<rparr>)"
    "cc_ok q" "cc_send_data q = drop k (cc_send_data (tc_cache c))"
proof -
  let ?k = "tc_cache c" let ?d = "cc_send_data ?k"
  note d = cc_okD [OF ok]
  have sz: "cc_send_size ?k = int (length ?d)" using cc_data_length(1) [OF ok] by simp
  have pos: "0 < cc_send_size ?k" using sz ne by simp
  have r: "mem_read (cc_send_buf ?k) 0 (cc_send_size ?k) = Inr ?d" using d by (simp add: mem_read_in cc_send_data_def)
  show thesis
  proof (cases "k = length ?d")
    case True
    let ?q = "?k\<lparr>cc_send_size := 0\<rparr>"
    have "client_send sys c = Inr (True, c\<lparr>tc_out := tc_out c @ [T_Send ?d (int k)], tc_cache := ?q\<rparr>)"
      using True pos r k(2) sz by (simp add: client_send_def temit_def Let_def)
    moreover have "cc_ok ?q" using ok d by (simp add: cc_ok_def)
    ultimately show thesis by (rule that) (use True in \<open>simp add: cc_send_data_def\<close>)
  next
    case False
    then have lt: "int k < cc_send_size ?k" "0 \<le> int k" using k(1) sz by simp_all
    obtain q where q: "cc_skip_send (int k) ?k = Inr q" "cc_ok q" "cc_send_data q = drop k ?d"
      using cc_skip_send_ok [OF ok lt(2)] lt(1) by (metis less_imp_le nat_int)
    have "client_send sys c = Inr (True, c\<lparr>tc_out := tc_out c @ [T_Send ?d (int k)], tc_cache := q\<rparr>)"
      using lt pos r k(2) q(1) by (simp add: client_send_def temit_def Let_def)
    then show thesis by (rule that [OF _ q(2,3)])
  qed
qed

lemma client_runs_send:
  assumes "client_uplink sys" "cc_ok (tc_cache c)" "length (cc_send_data (tc_cache c)) \<le> n"
  shows "\<exists>c'. client_runs sys n c = Some (Inr c') \<and> cc_send_data (tc_cache c') = [] \<and>
    sent_bytes (tc_out c') = sent_bytes (tc_out c) @ cc_send_data (tc_cache c)"
  using assms(2,3)
proof (induction n arbitrary: c)
  case 0
  then show ?case by simp
next
  case (Suc n)
  let ?d = "cc_send_data (tc_cache c)"
  have rcv: "client_recv sys (cl_recv sys es room) c1 = Some (Inr (c1\<lparr>tc_out := tc_out c1 @ [T_Recv (- 1)]\<rparr>))" for es room c1
    using assms(1) by (simp add: client_uplink_def client_recv_def temit_def)
  show ?case
  proof (cases "?d = []")
    case True
    let ?c = "c\<lparr>tc_out := tc_out c @ [T_Recv (- 1)]\<rparr>"
    have "cc_send_size (tc_cache c) = 0" using True cc_data_length(1) [OF Suc.prems(1)] by simp
    then have run: "client_run sys c = Some (Inr ?c)" using rcv by (simp add: client_run_idle)
    have "sent_bytes (tc_out ?c) = sent_bytes (tc_out c)" by (simp add: sent_bytes_def)
    moreover have "\<exists>c'. client_runs sys n ?c = Some (Inr c') \<and> cc_send_data (tc_cache c') = [] \<and>
      sent_bytes (tc_out c') = sent_bytes (tc_out ?c) @ cc_send_data (tc_cache ?c)"
      by (rule Suc.IH) (use Suc.prems True in simp_all)
    ultimately show ?thesis using run by simp
  next
    case False
    obtain k where k: "1 \<le> k" "k \<le> length ?d" "cl_send sys (tc_out c) ?d = (int k, False)"
      using assms(1) False unfolding client_uplink_def by blast
    obtain q where q: "client_send sys c = Inr (True, c\<lparr>tc_out := tc_out c @ [T_Send ?d (int k)], tc_cache := q\<rparr>)"
      "cc_ok q" "cc_send_data q = drop k ?d"
      by (rule client_send_part [OF Suc.prems(1) False k(2,3)])
    let ?c = "c\<lparr>tc_out := tc_out c @ [T_Send ?d (int k), T_Recv (- 1)], tc_cache := q\<rparr>"
    have run: "client_run sys c = Some (Inr ?c)" using q(1) rcv by (simp add: client_run_def)
    have "sent_bytes (tc_out ?c) @ drop k ?d = sent_bytes (tc_out c) @ ?d" by (simp add: sent_bytes_def)
    moreover have "\<exists>c'. client_runs sys n ?c = Some (Inr c') \<and> cc_send_data (tc_cache c') = [] \<and>
      sent_bytes (tc_out c') = sent_bytes (tc_out ?c) @ cc_send_data (tc_cache ?c)"
      by (rule Suc.IH) (use Suc.prems k q in simp_all)
    ultimately show ?thesis using run q(3) by simp
  qed
qed



section \<open>Reconnecting\<close>

text \<open>A send that fails for good makes the client reconnect, and \<open>Init\<close> replaces its buffers but
  keeps their sizes: the queue is as long as it was, and what it now holds for the server is whatever
  the new memory holds.\<close>

theorem client_reconnect_garbage:
  assumes ok: "cc_ok (tc_cache c)" and queue: "0 < cc_send_size (tc_cache c)" "cc_send_size (tc_cache c) \<le> 102400"
    "cc_recv_size (tc_cache c) \<le> 102400"
    and fail: "\<And>es b. cl_send sys es b = (- 1, False)"
    and up: "\<And>es. malloc_ok (cl_malloc sys es)" "\<And>es. 0 < cl_socket sys es" "\<And>es. cl_connect sys es = 0" "\<And>es. cl_nonblock sys es"
  shows "\<exists>c' es g. client_run sys c = Some (Inr c') \<and> cl_malloc sys es False 102400 = Some g \<and>
    cc_send_data (tc_cache c') = take (nat (cc_send_size (tc_cache c))) g \<and> tc_errno c' = ERR_OK"
proof -
  note d = cc_okD [OF ok]
  let ?k = "tc_cache c"
  have r: "mem_read (cc_send_buf ?k) 0 (cc_send_size ?k) = Inr (cc_send_data ?k)" using d by (simp add: mem_read_in cc_send_data_def)
  let ?c1 = "temit (T_Send (cc_send_data ?k) (- 1)) c"
  let ?c2 = "(if tc_sock ?c1 > 0 then client_close_sock ?c1 else ?c1)\<lparr>tc_sock := 0, tc_errno := ERR_UNCONNECT\<rparr>"
  have k2: "tc_cache ?c2 = ?k" by (simp add: temit_def client_close_sock_def)
  have sz: "0 \<le> cc_send_size ?k" "cc_send_size ?k \<le> 102400" "0 \<le> cc_recv_size ?k" "cc_recv_size ?k \<le> 102400" using d queue by simp_all
  obtain k where k: "cc_init (cl_malloc sys (tc_out ?c2)) ?k = Inr k" "cc_send_size k = cc_send_size ?k"
    "cl_malloc sys (tc_out ?c2) False 102400 = Some (cc_send_buf k)"
    by (rule cc_init_ok [OF up(1) sz]) blast
  have sock: "cl_socket sys es \<noteq> - 1" for es using up(2) [of es] by auto
  have res: "\<exists>c'. client_resume sys ?c1 = Inr (0, c') \<and> tc_cache c' = k \<and> tc_errno c' = ERR_OK"
    using up(3,4) sock k(1) k2
    by (auto simp: client_resume_def client_init_def client_connect_def temit_def register_wrapper_def Let_def)
  then obtain c' where c': "client_resume sys ?c1 = Inr (0, c')" "tc_cache c' = k" "tc_errno c' = ERR_OK" by blast
  have "client_run sys c = Some (Inr c')"
    using queue(1) r fail c'(1) by (simp add: client_run_def client_send_def Let_def resume_and_return_def)
  moreover have "cc_send_data (tc_cache c') = take (nat (cc_send_size ?k)) (cc_send_buf k)"
    using c'(2) k(2) by (simp add: cc_send_data_def)
  ultimately show ?thesis using k(3) c'(3) by blast
qed

theorem client_reconnect_garbage_witness:
  "\<exists>c'. client_run ((byte_net [])\<lparr>cl_send := \<lambda>_ _. (- 1, False)\<rparr>)
      (example_client\<lparr>tc_cache := example_cache\<lparr>cc_send_size := 3\<rparr>\<rparr>) = Some (Inr c') \<and> cc_send_data (tc_cache c') = [7, 7, 7]"
proof -
  let ?sys = "(byte_net [])\<lparr>cl_send := \<lambda>_ _. (- 1, False)\<rparr>"
  let ?c = "example_client\<lparr>tc_cache := example_cache\<lparr>cc_send_size := 3\<rparr>\<rparr>"
  have c: "cc_ok (tc_cache ?c)" "0 < cc_send_size (tc_cache ?c)" "cc_send_size (tc_cache ?c) \<le> 102400"
    "cc_recv_size (tc_cache ?c) \<le> 102400" by (simp_all add: cc_ok_def example_cache_def)
  have s: "cl_send ?sys es b = (- 1, False)" "0 < cl_socket ?sys es" "cl_connect ?sys es = 0" "cl_nonblock ?sys es"
    "malloc_ok (cl_malloc ?sys es)" for es b using byte_net_ok(2) by (simp_all add: byte_net_def)
  obtain c' es g where r: "client_run ?sys ?c = Some (Inr c')" "cl_malloc ?sys es False 102400 = Some g"
    "cc_send_data (tc_cache c') = take (nat (cc_send_size (tc_cache ?c))) g"
    using client_reconnect_garbage [OF c s(1,5,2,3,4)] by blast
  have "g = replicate 102400 7" using r(2) by (simp add: byte_net_def)
  then have "cc_send_data (tc_cache c') = [7, 7, 7]" using r(3) by (simp add: example_cache_def numeral_3_eq_3)
  with r(1) show ?thesis by blast
qed

end
