(* ===== verification/Tcp_Client_Run.thy ===== *)
theory Tcp_Client_Run
  imports Tcp_Client_Props
begin

text \<open>
  A test client whose queue has never outgrown the initial buffers stays within them, whatever the
  server sends: every run of its loop returns, with its buffers well formed.
\<close>

definition client_ok :: "tcp_client \<Rightarrow> bool" where
  "client_ok c \<longleftrightarrow> cc_ok (tc_cache c) \<and> cc_recv_cap (tc_cache c) = 102400"

text \<open>The system calls keep to the lengths they are given, and the parser rejects a negative length.\<close>

definition client_os :: "client_sys \<Rightarrow> bool" where
  "client_os sys \<longleftrightarrow> (\<forall>es. malloc_ok (cl_malloc sys es)) \<and> (\<forall>n b. n < 0 \<longrightarrow> cl_parse sys n b = None) \<and>
     (\<forall>es b. fst (cl_send sys es b) \<le> int (length b)) \<and>
     (\<forall>es room. fst (cl_recv sys es room) \<le> max 0 room \<and>
        (0 < fst (cl_recv sys es room) \<longrightarrow> int (length (fst (snd (cl_recv sys es room)))) = fst (cl_recv sys es room)))"

lemma client_osD:
  assumes "client_os sys"
  shows "malloc_ok (cl_malloc sys es)" "n < 0 \<Longrightarrow> cl_parse sys n b = None"
    "cl_send sys es b = (ret, again) \<Longrightarrow> ret \<le> int (length b)"
    "cl_recv sys es room = (ret, d, again) \<Longrightarrow> ret \<le> max 0 room"
    "cl_recv sys es room = (ret, d, again) \<Longrightarrow> 0 < ret \<Longrightarrow> int (length d) = ret"
proof -
  show "malloc_ok (cl_malloc sys es)" "n < 0 \<Longrightarrow> cl_parse sys n b = None" using assms by (simp_all add: client_os_def)
  show "cl_send sys es b = (ret, again) \<Longrightarrow> ret \<le> int (length b)"
    using assms unfolding client_os_def by (metis fst_conv)
  have "fst (cl_recv sys es room) \<le> max 0 room \<and>
      (0 < fst (cl_recv sys es room) \<longrightarrow> int (length (fst (snd (cl_recv sys es room)))) = fst (cl_recv sys es room))"
    using assms unfolding client_os_def by blast
  then show "cl_recv sys es room = (ret, d, again) \<Longrightarrow> ret \<le> max 0 room"
    "cl_recv sys es room = (ret, d, again) \<Longrightarrow> 0 < ret \<Longrightarrow> int (length d) = ret" by simp_all
qed

lemma cc_skip_recv_frame:
  "cc_skip_recv n c = Inr c' \<Longrightarrow> cc_recv_cap c' = cc_recv_cap c \<and> cc_recv_size c' = cc_recv_size c - n"
  by (auto simp: cc_skip_recv_def Let_def rbind_eq_Inr_iff)

lemma cc_skip_send_frame: "cc_skip_send n c = Inr c' \<Longrightarrow> cc_recv_cap c' = cc_recv_cap c"
  by (auto simp: cc_skip_send_def Let_def rbind_eq_Inr_iff)

section \<open>The loop over the answers\<close>

lemma client_handle_safe:
  assumes os: "client_os sys" and ok: "client_ok c" and rdy: "client_ready (cc_recv_data (tc_cache c))"
  obtains "client_handle sys c = Inr (False, c)"
  | c' where "client_handle sys c = Inr (True, c')" "client_ok c'" "cc_recv_size (tc_cache c') + 2 \<le> cc_recv_size (tc_cache c)"
proof -
  let ?k = "tc_cache c" let ?n = "plen (cc_recv_data ?k)"
  have ok': "cc_ok ?k" using ok by (simp add: client_ok_def)
  have l: "cc_recv_proto_len ?k = Inr ?n" by (rule cc_proto_len_eq [OF ok' rdy])
  let ?b = "take (nat (?n - 2)) (drop 2 (cc_recv_buf ?k))"
  show thesis
  proof (cases "cl_parse sys (?n - 2) ?b")
    case None
    then show thesis using that(1) l by (simp add: client_handle_def)
  next
    case (Some m)
    then have n2: "2 \<le> ?n" using client_osD(2) [OF os, of "?n - 2" ?b] by (cases "?n < 2") simp_all
    have n: "0 \<le> ?n" "?n \<le> cc_recv_size ?k" using n2 rdy cc_data_length(2) [OF ok'] by (simp_all add: client_ready_def)
    obtain k where k: "cc_skip_recv ?n ?k = Inr k" "cc_ok k" using cc_skip_recv_ok [OF ok' n] by blast
    let ?c = "c\<lparr>tc_out := tc_out c @ client_reply (tc_res_map c) m, tc_cache := k\<rparr>"
    have "client_handle sys c = Inr (True, ?c)"
      using l Some k(1) by (simp add: client_handle_def dispatch_res_reply cc_skip_recv_proto_def)
    moreover have "client_ok ?c" "cc_recv_size (tc_cache ?c) + 2 \<le> cc_recv_size ?k"
      using k ok n2 cc_skip_recv_frame [OF k(1)] by (simp_all add: client_ok_def)
    ultimately show thesis by (rule that(2))
  qed
qed

lemma client_loop_safe:
  assumes os: "client_os sys" and ok: "client_ok c"
  shows "\<exists>c'. client_loop sys c = Some (Inr c') \<and> client_ok c'"
  using ok
proof (induction "nat (cc_recv_size (tc_cache c))" arbitrary: c rule: less_induct)
  case less
  have ok': "cc_ok (tc_cache c)" using less.prems by (simp add: client_ok_def)
  note r = cc_ready_eq [OF ok']
  show ?case
  proof (cases "client_ready (cc_recv_data (tc_cache c))")
    case False
    then show ?thesis using r less.prems by (subst client_loop.simps) simp
  next
    case True
    show ?thesis
    proof (rule client_handle_safe [OF os less.prems True])
      assume "client_handle sys c = Inr (False, c)"
      then show ?thesis using r True less.prems by (subst client_loop.simps) simp
    next
      fix c1 assume c1: "client_handle sys c = Inr (True, c1)" "client_ok c1"
        "cc_recv_size (tc_cache c1) + 2 \<le> cc_recv_size (tc_cache c)"
      have "0 \<le> cc_recv_size (tc_cache c1)" using c1(2) cc_okD(8) by (simp add: client_ok_def)
      then have "nat (cc_recv_size (tc_cache c1)) < nat (cc_recv_size (tc_cache c))" using c1(3) by simp
      from less.hyps [OF this c1(2)] show ?thesis using r True c1(1) by (subst client_loop.simps) simp
    qed
  qed
qed

section \<open>Run\<close>

lemma client_connect_cache: "tc_cache (snd (client_connect sys c)) = tc_cache c"
  by (simp add: client_connect_def temit_def client_close_sock_def Let_def)

lemma client_init_safe:
  assumes os: "client_os sys" and s: "0 \<le> cc_send_size (tc_cache c)" "cc_send_size (tc_cache c) \<le> 102400"
    "0 \<le> cc_recv_size (tc_cache c)" "cc_recv_size (tc_cache c) \<le> 102400"
  shows "\<exists>ret c'. client_init sys c = Inr (ret, c') \<and> client_ok c' \<and> cc_send_size (tc_cache c') = cc_send_size (tc_cache c)"
proof -
  let ?c2 = "(if tc_sock c > 0 then client_close_sock c else c)\<lparr>tc_sock := 0, tc_errno := ERR_UNCONNECT\<rparr>"
  let ?m = "cl_malloc sys (tc_out ?c2)"
  have k2: "tc_cache ?c2 = tc_cache c" by (simp add: temit_def client_close_sock_def)
  have m: "malloc_ok ?m" by (rule client_osD(1) [OF os])
  obtain k where k: "cc_init ?m (tc_cache c) = Inr k" "cc_ok k" "cc_send_size k = cc_send_size (tc_cache c)" "?m True 102400 = Some (cc_recv_buf k)"
    by (rule cc_init_ok [OF m s]) blast
  have n: "(0 :: int) < 102400" "(102400 :: int) < 2147483648" by simp_all
  obtain b where "?m True 102400 = Some b" "int (length b) = 102400" by (rule malloc_okD [OF m n])
  then have "int (length (cc_recv_buf k)) = 102400" using k(4) by auto
  then have ok: "cc_ok k" "cc_recv_cap k = 102400" using k(2) by (simp_all add: cc_ok_def)
  let ?s = "cl_socket sys (tc_out ?c2)"
  let ?c3 = "(temit (T_Socket ?s) ?c2)\<lparr>tc_cache := k, tc_sock := ?s\<rparr>"
  have ok3: "client_ok ?c3" "cc_send_size (tc_cache ?c3) = cc_send_size (tc_cache c)" using ok k(3) by (simp_all add: client_ok_def)
  obtain ret c4 where c4: "client_connect sys ?c3 = (ret, c4)" by (cases "client_connect sys ?c3")
  have "tc_cache c4 = k" using client_connect_cache [of sys ?c3] c4 by simp
  then have ok4: "client_ok c4" "cc_send_size (tc_cache c4) = cc_send_size (tc_cache c)" using ok k(3) by (simp_all add: client_ok_def)
  have "client_init sys c = (if ?s = - 1 then Inr (- 1, ?c3) else if ret \<noteq> 0 then Inr (- 2, c4)
      else Inr (0, register_wrapper kQuickRegReq kQuickRegRes W_Quick_Reg
               (register_wrapper kNormalRegReq kNormalRegRes W_Normal_Reg
               (register_wrapper kLoginReq kLoginRes W_Login (c4\<lparr>tc_free_seq := 10000\<rparr>)))))"
    unfolding client_init_def Let_def k2 k(1) rbind_Inr c4 by simp
  then show ?thesis using ok3 ok4 by (auto simp: client_ok_def register_wrapper_def)
qed

lemma resume_safe:
  assumes os: "client_os sys" and ok: "client_ok c"
  shows "\<exists>c'. resume_and_return sys c = Inr c' \<and> client_ok c'"
proof -
  have k: "cc_ok (tc_cache c)" "cc_recv_cap (tc_cache c) = 102400" using ok by (simp_all add: client_ok_def)
  note d = cc_okD [OF k(1)]
  have s: "0 \<le> cc_send_size (tc_cache c)" "cc_send_size (tc_cache c) \<le> 102400"
    "0 \<le> cc_recv_size (tc_cache c)" "cc_recv_size (tc_cache c) \<le> 102400" using d k(2) by simp_all
  from client_init_safe [OF os s] obtain ret c' where "client_init sys c = Inr (ret, c')" "client_ok c'" by blast
  then show ?thesis by (simp add: resume_and_return_def client_resume_def)
qed

lemma client_ok_temit [simp]: "client_ok (temit e c) = client_ok c"
  by (simp add: client_ok_def temit_def)

lemma client_recv_safe:
  assumes os: "client_os sys" and ok: "client_ok c"
    and r: "ret \<le> max 0 (cc_recv_cap (tc_cache c) - cc_recv_size (tc_cache c))" "0 < ret \<Longrightarrow> int (length d) = ret"
  shows "\<exists>c'. client_recv sys (ret, d, again) c = Some (Inr c') \<and> client_ok c'"
proof (cases "0 < ret")
  case False
  have "\<exists>c'. resume_and_return sys (temit (T_Recv ret) c) = Inr c' \<and> client_ok c'"
    by (rule resume_safe [OF os]) (use ok in simp)
  then show ?thesis using False ok by (auto simp: client_recv_def Let_def)
next
  case True
  let ?k = "tc_cache c"
  have k: "cc_ok ?k" using ok by (simp add: client_ok_def)
  note e = cc_okD [OF k]
  have bnd: "0 \<le> cc_recv_size ?k" "cc_recv_size ?k + int (length d) \<le> int (length (cc_recv_buf ?k))" using True r e by simp_all
  obtain b where b: "mem_write (cc_recv_buf ?k) (cc_recv_size ?k) d = Inr b" "length b = length (cc_recv_buf ?k)"
    using mem_write_ok [OF bnd] by blast
  let ?c = "(temit (T_Recv ret) c)\<lparr>tc_cache := ?k\<lparr>cc_recv_buf := b, cc_recv_size := cc_recv_size ?k + ret\<rparr>\<rparr>"
  have "client_ok ?c" using ok b(2) r True e by (simp add: client_ok_def cc_ok_def)
  from client_loop_safe [OF os this] show ?thesis
    using True r(2) b(1) by (simp add: client_recv_def temit_def)
qed

lemma client_send_safe:
  assumes os: "client_os sys" and ok: "client_ok c"
  shows "\<exists>go c'. client_send sys c = Inr (go, c') \<and> client_ok c'"
proof (cases "0 < cc_send_size (tc_cache c)")
  case False
  then have "client_send sys c = Inr (True, c)" by (simp add: client_send_def)
  then show ?thesis using ok by blast
next
  case True
  let ?k = "tc_cache c" let ?d = "cc_send_data ?k"
  have k: "cc_ok ?k" "cc_recv_cap ?k = 102400" using ok by (simp_all add: client_ok_def)
  note e = cc_okD [OF k(1)]
  have rd: "mem_read (cc_send_buf ?k) 0 (cc_send_size ?k) = Inr ?d" using e by (simp add: mem_read_in cc_send_data_def)
  obtain ret again where s: "cl_send sys (tc_out c) ?d = (ret, again)" by (cases "cl_send sys (tc_out c) ?d")
  have le: "ret \<le> cc_send_size ?k" using client_osD(3) [OF os s] cc_data_length(1) [OF k(1)] by simp
  let ?c1 = "temit (T_Send ?d ret) c"
  consider "ret < 0" | "0 \<le> ret" "ret < cc_send_size ?k" | "ret = cc_send_size ?k" using le by linarith
  then show ?thesis
  proof cases
    case 1
    have "\<exists>c'. resume_and_return sys ?c1 = Inr c' \<and> client_ok c'" by (rule resume_safe [OF os]) (use ok in simp)
    then show ?thesis using 1 True rd s ok by (auto simp: client_send_def Let_def)
  next
    case 2
    have le': "ret \<le> cc_send_size ?k" using 2(2) by simp
    obtain q where q: "cc_skip_send ret ?k = Inr q" "cc_ok q" using cc_skip_send_ok [OF k(1) 2(1) le'] by blast
    then have "client_ok (?c1\<lparr>tc_cache := q\<rparr>)" using cc_skip_send_frame [OF q(1)] k(2) by (simp add: client_ok_def)
    then show ?thesis using 2 True rd s q(1) by (auto simp: client_send_def Let_def temit_def)
  next
    case 3
    have "client_ok (?c1\<lparr>tc_cache := ?k\<lparr>cc_send_size := 0\<rparr>\<rparr>)" using k e by (simp add: client_ok_def cc_ok_def)
    then show ?thesis using 3 True rd s by (auto simp: client_send_def Let_def temit_def)
  qed
qed

lemma client_run_safe:
  assumes os: "client_os sys" and ok: "client_ok c"
  shows "\<exists>c'. client_run sys c = Some (Inr c') \<and> client_ok c'"
proof -
  obtain go c1 where s: "client_send sys c = Inr (go, c1)" "client_ok c1" using client_send_safe [OF os ok] by blast
  let ?room = "cc_recv_cap (tc_cache c1) - cc_recv_size (tc_cache c1)"
  obtain ret d again where r: "cl_recv sys (tc_out c1) ?room = (ret, d, again)" by (cases "cl_recv sys (tc_out c1) ?room")
  have "\<exists>c'. client_recv sys (ret, d, again) c1 = Some (Inr c') \<and> client_ok c'"
    by (rule client_recv_safe [OF os s(2) client_osD(4) [OF os r] client_osD(5) [OF os r]])
  then show ?thesis using s r by (auto simp: client_run_def)
qed

lemma client_runs_ok:
  assumes os: "client_os sys" and ok: "client_ok c"
  shows "\<exists>c'. client_runs sys n c = Some (Inr c') \<and> client_ok c'"
  using ok
proof (induction n arbitrary: c)
  case 0
  then show ?case by simp
next
  case (Suc n)
  obtain c1 where "client_run sys c = Some (Inr c1)" "client_ok c1" using client_run_safe [OF os Suc.prems] by blast
  with Suc.IH [OF this(2)] show ?case by simp
qed

section \<open>The program\<close>

lemma cc_add_send_cap:
  assumes "cc_ok c" "int (length d) + cc_send_size c \<le> cc_send_cap c"
  shows "\<exists>c'. cc_add_send malloc d c = Some (Inr c') \<and> cc_ok c' \<and> cc_recv_cap c' = cc_recv_cap c"
proof -
  note e = cc_okD [OF assms(1)]
  have g: "grow_send malloc (int (length d)) c = Some (Inr c)" using assms(2) by (subst grow_send.simps) simp
  have bnd: "0 \<le> cc_send_size c" "cc_send_size c + int (length d) \<le> int (length (cc_send_buf c))" using assms(2) e by simp_all
  obtain b where b: "mem_write (cc_send_buf c) (cc_send_size c) d = Inr b" "length b = length (cc_send_buf c)"
    using mem_write_ok [OF bnd] by blast
  let ?c = "c\<lparr>cc_send_buf := b, cc_send_size := cc_send_size c + int (length d)\<rparr>"
  have "cc_add_send malloc d c = Some (Inr ?c)" using g b(1) by (simp add: cc_add_send_def)
  moreover have "cc_ok ?c" using assms b(2) e by (simp add: cc_ok_def)
  ultimately show ?thesis by simp
qed

lemma dispatch_req_safe:
  assumes ok: "client_ok c" and room: "cc_send_size (tc_cache c) \<le> 92160"
    and ser: "\<And>m b. cl_ser sys m = Some b \<Longrightarrow> length b \<le> 10238"
  shows "\<exists>ret c'. dispatch_req_msg sys cmd c = Some (Inr (ret, c')) \<and> client_ok c'"
proof (cases "map_of (tc_req_map c) cmd")
  case None
  then show ?thesis using ok by (simp add: dispatch_req_msg_def client_ok_def Let_def)
next
  case (Some wp)
  let ?c1 = "c\<lparr>tc_free_seq := tc_free_seq c + 1\<rparr>"
  have d: "client_do wp (cs_empty\<lparr>cs_cmd := cmd, cs_seq := tc_free_seq c\<rparr>) = (0, client_request cmd wp (tc_free_seq c))"
    by (cases wp) (simp_all add: client_request_def)
  show ?thesis
  proof (cases "cl_ser sys (client_request cmd wp (tc_free_seq c))")
    case None
    then show ?thesis using Some d ok by (simp add: dispatch_req_msg_def client_ok_def Let_def)
  next
    case (Some b)
    have k: "cc_ok (tc_cache c)" "cc_recv_cap (tc_cache c) = 102400" using ok by (simp_all add: client_ok_def)
    have fit: "int (length (encode_frame b)) + cc_send_size (tc_cache c) \<le> cc_send_cap (tc_cache c)"
      using ser [OF Some] room k(2) cc_okD(1) [OF k(1)] by simp
    obtain k' where k': "cc_add_send (cl_malloc sys (tc_out c)) (encode_frame b) (tc_cache c) = Some (Inr k')" "cc_ok k'"
      "cc_recv_cap k' = 102400"
      using cc_add_send_cap [OF k(1) fit] k(2) by auto
    then show ?thesis using \<open>map_of (tc_req_map c) cmd = Some wp\<close> d Some
      by (simp add: dispatch_req_msg_def client_send_data_def client_ok_def Let_def)
  qed
qed

text \<open>C27: The test client stays within its memory and its loop always returns, whatever the server
  sends and however the connection fails: from a new client, connecting, sending the login request
  and any number of runs end without a fault, provided that the system calls keep to the lengths
  they are given, that memory is there and that the parser rejects a negative length.\<close>

theorem client_main_safe:
  assumes os: "client_os sys" and ser: "\<And>m b. cl_ser sys m = Some b \<Longrightarrow> length b \<le> 10238" and new: "tc_cache c = cc_new"
  shows "\<exists>c'. client_main sys n c = Some (Inr c') \<and> (tc_cache c' = cc_new \<or> cc_ok (tc_cache c'))"
proof -
  have s: "0 \<le> cc_send_size (tc_cache c)" "cc_send_size (tc_cache c) \<le> 102400"
    "0 \<le> cc_recv_size (tc_cache c)" "cc_recv_size (tc_cache c) \<le> 102400" using new by (simp_all add: cc_new_def)
  obtain ret c1 where c1: "client_init sys c = Inr (ret, c1)" "client_ok c1" "cc_send_size (tc_cache c1) = 0"
    using client_init_safe [OF os s] new by (auto simp: cc_new_def)
  have room: "cc_send_size (tc_cache c1) \<le> 92160" using c1(3) by simp
  obtain ret2 c2 where c2: "dispatch_req_msg sys kLoginReq c1 = Some (Inr (ret2, c2))" "client_ok c2"
    using dispatch_req_safe [OF c1(2) room, of sys kLoginReq] ser by blast
  obtain c3 where "client_runs sys n c2 = Some (Inr c3)" "client_ok c3" using client_runs_ok [OF os c2(2)] by blast
  then show ?thesis using c1 c2(1) by (simp add: client_main_def client_ok_def)
qed

text \<open>A server that sends noise: the parser sees a message whose length is 3 as an answer, and nothing else.\<close>

definition noise_net :: client_sys where
  "noise_net = (byte_net [])\<lparr>cl_send := \<lambda>_ b. (int (length b), False),
     cl_recv := \<lambda>es room. (let s = drop (nat (received es)) [0, 5, 9, 9, 9, 0, 1, 7] in
       if s = [] \<or> room \<le> 0 then (- 1, [], True) else (1, take 1 s, False)),
     cl_parse := \<lambda>n b. if n = 3 then Some login_ok else None\<rparr>"

theorem client_main_safe_witness:
  "\<exists>c'. client_main noise_net 20 (example_client\<lparr>tc_cache := cc_new\<rparr>) = Some (Inr c') \<and>
    (tc_cache c' = cc_new \<or> cc_ok (tc_cache c'))"
proof (rule client_main_safe)
  have "malloc_ok (cl_malloc noise_net es)" for es using byte_net_ok(2) by (simp add: noise_net_def byte_net_def)
  then show "client_os noise_net"
    by (auto simp: client_os_def noise_net_def byte_net_def Let_def max_def)
  show "\<And>m b. cl_ser noise_net m = Some b \<Longrightarrow> length b \<le> 10238" by (auto simp: noise_net_def byte_net_def)
  show "tc_cache (example_client\<lparr>tc_cache := cc_new\<rparr>) = cc_new" by simp
qed

end
